(* ===== verification/Prelude.thy ===== *)
theory Prelude
  imports Main "HOL-Library.Finite_Map" "HOL-Library.Char_ord" "HOL-Library.List_Lexorder"
begin

text \<open>
  Shared vocabulary of the development: the result type that stands for Rust's
  \<^verbatim>\<open>Result<T, E>\<close> with its sequencing operators, checked \<^verbatim>\<open>u64\<close> arithmetic, ordered
  iteration over finite maps and sets (Rust's \<^verbatim>\<open>BTreeMap\<close>/\<^verbatim>\<open>BTreeSet\<close>), and the generic
  lemmas on them that the component theories use through the simplifier.
  Strings are byte lists: a HOL \<^typ>\<open>char\<close> is one byte, so \<^typ>\<open>string\<close> is the UTF-8
  byte sequence of a Rust \<^verbatim>\<open>String\<close>, and its order is the byte-wise order Rust uses.
\<close>

named_theorems handler_defs \<open>definitions of event handlers, unfolded case by case\<close>
named_theorems index_intros \<open>introduction rules of the derived-index invariant\<close>

section \<open>Results\<close>

abbreviation Ok :: "'a \<Rightarrow> 'e + 'a" where "Ok \<equiv> Inr"

abbreviation Err :: "'e \<Rightarrow> 'e + 'a" where "Err \<equiv> Inl"

text \<open>The \<^verbatim>\<open>?\<close> operator: stop at the first error, else go on with the value.\<close>

definition rbind :: "'e + 'a \<Rightarrow> ('a \<Rightarrow> 'e + 'b) \<Rightarrow> 'e + 'b" where
  "rbind m f = (case m of Inl e \<Rightarrow> Inl e | Inr x \<Rightarrow> f x)"

lemma rbind_Ok [simp]: "rbind (Ok x) f = f x"
  by (simp add: rbind_def)

lemma rbind_Err [simp]: "rbind (Err e) f = Err e"
  by (simp add: rbind_def)

lemma rbind_eq_Ok [simp]: "rbind m f = Ok y \<longleftrightarrow> (\<exists>x. m = Ok x \<and> f x = Ok y)"
  by (cases m) auto

lemma rbind_assoc: "rbind (rbind m f) g = rbind m (\<lambda>x. rbind (f x) g)"
  by (cases m) auto

lemma rbind_cong [fundef_cong]:
  "m = m' \<Longrightarrow> (\<And>x. m' = Ok x \<Longrightarrow> f x = f' x) \<Longrightarrow> rbind m f = rbind m' f'"
  by (cases m') auto

lemma if_Err_eq_Ok [simp]: "(if c then Err e else m) = Ok y \<longleftrightarrow> \<not> c \<and> m = Ok y"
  by simp

lemma if_else_Err_eq_Ok [simp]: "(if c then m else Err e) = Ok y \<longleftrightarrow> c \<and> m = Ok y"
  by simp

lemma is_Ok_unit: "(m :: 'e + unit) = Ok u \<Longrightarrow> m = Ok ()"
  by simp

text \<open>\<^verbatim>\<open>Option::ok_or_else\<close>.\<close>

definition ok_or :: "'e \<Rightarrow> 'a option \<Rightarrow> 'e + 'a" where
  "ok_or e x = (case x of None \<Rightarrow> Err e | Some v \<Rightarrow> Ok v)"

lemma ok_or_simps [simp]: "ok_or e None = Err e" "ok_or e (Some v) = Ok v"
  by (simp_all add: ok_or_def)

lemma ok_or_eq_Ok [simp]: "ok_or e x = Ok v \<longleftrightarrow> x = Some v"
  by (cases x) auto

text \<open>A guarded early return: \<^verbatim>\<open>if !b { return Err(e) }\<close>.\<close>

definition ensure :: "bool \<Rightarrow> 'e \<Rightarrow> 'e + unit" where
  "ensure b e = (if b then Ok () else Err e)"

lemma ensure_eq_Ok [simp]: "ensure b e = Ok u \<longleftrightarrow> b"
  by (simp add: ensure_def)

lemma ensure_True [simp]: "ensure True e = Ok ()"
  by (simp add: ensure_def)

lemma ensure_False [simp]: "ensure False e = Err e"
  by (simp add: ensure_def)

text \<open>A \<^verbatim>\<open>for\<close> loop that threads a state and may stop with an error.\<close>

fun rfold :: "('x \<Rightarrow> 's \<Rightarrow> 'e + 's) \<Rightarrow> 'x list \<Rightarrow> 's \<Rightarrow> 'e + 's" where
  "rfold f [] s = Ok s"
| "rfold f (x # xs) s = rbind (f x s) (rfold f xs)"

lemma rfold_append [simp]: "rfold f (xs @ ys) s = rbind (rfold f xs s) (rfold f ys)"
  by (induction xs arbitrary: s) (auto simp: rbind_def split: sum.splits)

lemma rfold_cong [fundef_cong]:
  "xs = ys \<Longrightarrow> s = t \<Longrightarrow> (\<And>x u. x \<in> set ys \<Longrightarrow> f x u = g x u) \<Longrightarrow> rfold f xs s = rfold g ys t"
proof (induction ys arbitrary: xs s t)
  case Nil
  then show ?case by simp
next
  case (Cons y ys)
  then show ?case by (auto intro!: rbind_cong)
qed

text \<open>The loop rule: an invariant over the prefix already processed.\<close>

lemma rfold_invariant:
  assumes run: "rfold f xs s = Ok t"
    and init: "I [] s"
    and step: "\<And>ys x zs u v. xs = ys @ x # zs \<Longrightarrow> I ys u \<Longrightarrow> f x u = Ok v \<Longrightarrow> I (ys @ [x]) v"
  shows "I xs t"
proof -
  have "I (ys @ zs) t" if "xs = ys @ zs" "rfold f zs u = Ok t" "I ys u" for ys zs u
    using that
  proof (induction zs arbitrary: ys u)
    case Nil
    then show ?case by simp
  next
    case (Cons z zs)
    then obtain v where v: "f z u = Ok v" "rfold f zs v = Ok t" by auto
    have "I (ys @ [z]) v" using step [OF Cons.prems(1) Cons.prems(3) v(1)] .
    with Cons.IH [of "ys @ [z]" v] v(2) Cons.prems(1) show ?case by simp
  qed
  from this [of "[]" xs s] run init show ?thesis by simp
qed

text \<open>And that such a loop does not stop early.\<close>

lemma rfold_total:
  assumes init: "I [] s"
    and step: "\<And>ys x zs u. xs = ys @ x # zs \<Longrightarrow> I ys u \<Longrightarrow> \<exists>v. f x u = Ok v \<and> I (ys @ [x]) v"
  shows "\<exists>t. rfold f xs s = Ok t \<and> I xs t"
proof -
  have "\<exists>t. rfold f zs u = Ok t \<and> I (ys @ zs) t" if "xs = ys @ zs" "I ys u" for ys zs u
    using that
  proof (induction zs arbitrary: ys u)
    case Nil
    then show ?case by simp
  next
    case (Cons z zs)
    then obtain v where v: "f z u = Ok v" "I (ys @ [z]) v" using step by blast
    with Cons.IH [of "ys @ [z]" v] Cons.prems(1) show ?case by simp
  qed
  from this [of "[]" xs s] init show ?thesis by simp
qed

text \<open>Checking every element in order, and \<^verbatim>\<open>collect::<Result<Vec<_>>>\<close>.\<close>

fun rcheck :: "('x \<Rightarrow> 'e + unit) \<Rightarrow> 'x list \<Rightarrow> 'e + unit" where
  "rcheck f [] = Ok ()"
| "rcheck f (x # xs) = rbind (f x) (\<lambda>_. rcheck f xs)"

lemma rcheck_eq_Ok [simp]: "rcheck f xs = Ok u \<longleftrightarrow> (\<forall>x\<in>set xs. f x = Ok ())"
  by (induction xs) auto

fun rmap :: "('x \<Rightarrow> 'e + 'y) \<Rightarrow> 'x list \<Rightarrow> 'e + 'y list" where
  "rmap f [] = Ok []"
| "rmap f (x # xs) = rbind (f x) (\<lambda>y. rbind (rmap f xs) (\<lambda>ys. Ok (y # ys)))"

lemma rcheck_cong [fundef_cong]:
  "xs = ys \<Longrightarrow> (\<And>x. x \<in> set ys \<Longrightarrow> f x = g x) \<Longrightarrow> rcheck f xs = rcheck g ys"
  by (induction ys arbitrary: xs) (auto intro!: rbind_cong)

lemma rmap_cong [fundef_cong]:
  "xs = ys \<Longrightarrow> (\<And>x. x \<in> set ys \<Longrightarrow> f x = g x) \<Longrightarrow> rmap f xs = rmap g ys"
  by (induction ys arbitrary: xs) (auto intro!: rbind_cong)

lemma rmap_eq_Ok: "rmap f xs = Ok ys \<longleftrightarrow> list_all2 (\<lambda>x y. f x = Ok y) xs ys"
  by (induction xs arbitrary: ys) (auto simp: list_all2_Cons1)

lemma rmap_length: "rmap f xs = Ok ys \<Longrightarrow> length ys = length xs"
  by (auto simp: rmap_eq_Ok dest: list_all2_lengthD)

lemma rmap_map: "(\<And>x. x \<in> set xs \<Longrightarrow> f x = Ok (g x)) \<Longrightarrow> rmap f xs = Ok (map g xs)"
  by (induction xs) auto

section \<open>Integers\<close>

text \<open>\<^verbatim>\<open>u64\<close> and \<^verbatim>\<open>usize\<close> (64-bit) values are naturals; their checked addition is written out.\<close>

definition checked_add :: "nat \<Rightarrow> nat \<Rightarrow> nat option" where
  "checked_add a b = (if a + b < 2 ^ 64 then Some (a + b) else None)"

definition checked_sub :: "nat \<Rightarrow> nat \<Rightarrow> nat option" where
  "checked_sub a b = (if b \<le> a then Some (a - b) else None)"

definition MAX_EXACT_INTEGER :: nat where
  "MAX_EXACT_INTEGER = 9007199254740991"

text \<open>\<^verbatim>\<open>a.checked_add(b).filter(|v| *v <= MAX_EXACT_INTEGER)\<close>.\<close>

definition exact_add :: "nat \<Rightarrow> nat \<Rightarrow> nat option" where
  "exact_add a b = (case checked_add a b of
     None \<Rightarrow> None
   | Some v \<Rightarrow> if v \<le> MAX_EXACT_INTEGER then Some v else None)"

lemma MAX_EXACT_INTEGER_u64: "MAX_EXACT_INTEGER < 2 ^ 64"
  by (simp add: MAX_EXACT_INTEGER_def)

lemma exact_add_eq_Some [simp]:
  "exact_add a b = Some v \<longleftrightarrow> v = a + b \<and> a + b \<le> MAX_EXACT_INTEGER"
  using MAX_EXACT_INTEGER_u64
  by (auto simp: exact_add_def checked_add_def split: option.splits if_splits)

lemma exact_add_eq_None [simp]: "exact_add a b = None \<longleftrightarrow> MAX_EXACT_INTEGER < a + b"
  using MAX_EXACT_INTEGER_u64
  by (auto simp: exact_add_def checked_add_def split: option.splits if_splits)

lemma ok_or_exact_add [simp]:
  "ok_or e (exact_add a b) = (if a + b \<le> MAX_EXACT_INTEGER then Ok (a + b) else Err e)"
  using MAX_EXACT_INTEGER_u64 by (simp add: exact_add_def checked_add_def)

lemma ok_or_checked_add [simp]:
  "ok_or e (checked_add a b) = (if a + b < 2 ^ 64 then Ok (a + b) else Err e)"
  by (simp add: checked_add_def)

lemma checked_add_eq_Some [simp]:
  "checked_add a b = Some v \<longleftrightarrow> v = a + b \<and> a + b < 2 ^ 64"
  by (auto simp: checked_add_def)

lemma checked_sub_eq_Some [simp]: "checked_sub a b = Some v \<longleftrightarrow> b \<le> a \<and> v = a - b"
  by (auto simp: checked_sub_def)

section \<open>Ordered finite maps and sets\<close>

text \<open>Iteration over a \<^verbatim>\<open>BTreeMap\<close> is in key order.\<close>

abbreviation entries_of :: "(string, 'v) fmap \<Rightarrow> (string \<times> 'v) list" where
  "entries_of \<equiv> sorted_list_of_fmap"

abbreviation values_of :: "(string, 'v) fmap \<Rightarrow> 'v list" where
  "values_of m \<equiv> map snd (sorted_list_of_fmap m)"

lemma set_entries_of [simp]: "set (entries_of m) = {(k, v). fmlookup m k = Some v}"
  by (auto simp: sorted_list_of_fmap_def fmlookup_dom_iff image_iff)

lemma in_set_values_of: "v \<in> set (values_of m) \<longleftrightarrow> (\<exists>k. fmlookup m k = Some v)"
  by (auto simp: image_iff)

lemma set_values_of [simp]: "set (values_of m) = {v. \<exists>k. fmlookup m k = Some v}"
  by (auto simp: image_iff)

lemma distinct_keys_entries_of: "distinct (map fst (entries_of m))"
  by (simp add: sorted_list_of_fmap_def comp_def sorted_list_of_fset.rep_eq)

lemma distinct_entries_of: "distinct (entries_of m)"
  using distinct_keys_entries_of distinct_map by blast

lemma entries_of_empty [simp]: "entries_of fmempty = []"
  by (simp add: sorted_list_of_fmap_def sorted_list_of_fset.rep_eq)

lemma distinct_sorted_list_of_fset [simp]: "distinct (sorted_list_of_fset A)"
  by (simp add: sorted_list_of_fset.rep_eq)

text \<open>\<^verbatim>\<open>BTreeMap::get_mut\<close> with an update, and \<^verbatim>\<open>entry(..).or_default()\<close>.\<close>

definition lookup_default :: "'v \<Rightarrow> ('k, 'v) fmap \<Rightarrow> 'k \<Rightarrow> 'v" where
  "lookup_default d m k = (case fmlookup m k of None \<Rightarrow> d | Some v \<Rightarrow> v)"

lemma lookup_default_upd [simp]:
  "lookup_default d (fmupd k v m) k' = (if k = k' then v else lookup_default d m k')"
  by (simp add: lookup_default_def)

lemma fmap_eqI: "(\<And>k. fmlookup m k = fmlookup n k) \<Longrightarrow> m = n"
  by (rule fmap_ext)

end
