(* ===== verification/Canonical.thy ===== *)
theory Canonical
  imports Prelude
begin

text \<open>
  Canonical identities of \<^verbatim>\<open>crates/cymule-core/src/canonical.rs\<close> and the error categories of
  \<^verbatim>\<open>error.rs\<close>. Values are the JSON trees that Serde builds from the Rust data; Core's own
  types contain no floating-point number, so numbers are integers. SHA-256 (crate
  \<^verbatim>\<open>sha2\<close>) and the RFC 8785 byte encoding (crate \<^verbatim>\<open>serde_json_canonicalizer\<close>) are not part
  of the repository: they are the two fields of the \<open>host\<close> record that every definition
  depending on them takes as an argument.
\<close>

section \<open>Error categories\<close>

text \<open>The human-readable message of each variant is not modelled; the category and the
  structured operands are.\<close>

datatype core_error =
    Validation
  | NotFound
  | IdentityMismatch
  | IllegalTransition
  | CommandReuse
  | Causal
  | PinnedReadSetIncomplete string string
  | PagedScopeRequired string string nat
  | ArchivedCommandReplayRequired string string string
  | CollectionProviderFailure
  | Encoding

fun code :: "core_error \<Rightarrow> string" where
  "code Validation = ''validation_failed''"
| "code NotFound = ''not_found''"
| "code IdentityMismatch = ''identity_mismatch''"
| "code IllegalTransition = ''illegal_transition''"
| "code CommandReuse = ''command_id_reused''"
| "code Causal = ''causal_error''"
| "code (PinnedReadSetIncomplete _ _) = ''pinned_read_set_incomplete''"
| "code (PagedScopeRequired _ _ _) = ''paged_scope_required''"
| "code (ArchivedCommandReplayRequired _ _ _) = ''archived_command_replay_required''"
| "code CollectionProviderFailure = ''collection_provider_failed''"
| "code Encoding = ''encoding_failed''"

section \<open>JSON values and external functions\<close>

datatype json =
    JNull
  | JBool bool
  | JInt int
  | JStr string
  | JArr "json list"
  | JObj "(string \<times> json) list"

record host =
  sha256 :: "string \<Rightarrow> string"
  jcs :: "json \<Rightarrow> string"

section \<open>Canonical bytes and content identities\<close>

text \<open>The Serde probe that rejects integers outside the exact range before encoding.\<close>

fun number_probe :: "json \<Rightarrow> core_error + unit" where
  "number_probe (JInt i) = ensure (\<bar>i\<bar> \<le> int MAX_EXACT_INTEGER) Encoding"
| "number_probe (JArr vs) = rcheck number_probe vs"
| "number_probe (JObj kvs) = rcheck (\<lambda>kv. number_probe (snd kv)) kvs"
| "number_probe _ = Ok ()"

fun normalize_ijson_numbers :: "json \<Rightarrow> core_error + json" where
  "normalize_ijson_numbers (JArr vs) =
     rbind (rmap normalize_ijson_numbers vs) (\<lambda>ws. Ok (JArr ws))"
| "normalize_ijson_numbers (JObj kvs) =
     rbind (rmap (\<lambda>kv. normalize_ijson_numbers (snd kv)) kvs)
       (\<lambda>ws. Ok (JObj (zip (map fst kvs) ws)))"
| "normalize_ijson_numbers (JInt i) =
     (if int MAX_EXACT_INTEGER < \<bar>i\<bar> then Err Encoding else Ok (JInt i))"
| "normalize_ijson_numbers v = Ok v"

definition canonical_bytes :: "host \<Rightarrow> json \<Rightarrow> core_error + string" where
  "canonical_bytes h value =
     rbind (number_probe value) (\<lambda>_.
     let direct = jcs h value in
     rbind (normalize_ijson_numbers value) (\<lambda>normalized.
     let canonical = jcs h normalized in
     if direct \<noteq> canonical then Err Encoding else Ok canonical))"

definition HEX :: string where
  "HEX = ''0123456789abcdef''"

definition hex_byte :: "char \<Rightarrow> string" where
  "hex_byte b = (let n = of_char b :: nat in [HEX ! (n div 16), HEX ! (n mod 16)])"

definition sha256_bytes :: "host \<Rightarrow> string \<Rightarrow> string" where
  "sha256_bytes h bytes = concat (map hex_byte (sha256 h bytes))"

definition content_id :: "host \<Rightarrow> string \<Rightarrow> json \<Rightarrow> core_error + string" where
  "content_id h domain value =
     rbind (canonical_bytes h value) (\<lambda>bytes.
     Ok (''sha256:'' @ sha256_bytes h (domain @ [CHR 0x00] @ bytes)))"

definition canonical_digest :: "host \<Rightarrow> json \<Rightarrow> core_error + string" where
  "canonical_digest h value =
     rbind (canonical_bytes h value) (\<lambda>bytes. Ok (sha256_bytes h bytes))"

text \<open>\<^verbatim>\<open>str::strip_prefix\<close>.\<close>

fun strip_prefix :: "string \<Rightarrow> string \<Rightarrow> string option" where
  "strip_prefix [] s = Some s"
| "strip_prefix (p # ps) (c # cs) = (if p = c then strip_prefix ps cs else None)"
| "strip_prefix (p # ps) [] = None"

definition is_lower_hex_byte :: "char \<Rightarrow> bool" where
  "is_lower_hex_byte c =
     ((CHR ''0'' \<le> c \<and> c \<le> CHR ''9'') \<or> (CHR ''a'' \<le> c \<and> c \<le> CHR ''f''))"

definition validate_content_id :: "string \<Rightarrow> core_error + unit" where
  "validate_content_id value =
     (case strip_prefix ''sha256:'' value of
        None \<Rightarrow> Err Validation
      | Some digest \<Rightarrow>
          if length digest \<noteq> 64 \<or> \<not> list_all is_lower_hex_byte digest then Err Validation
          else Ok ())"

section \<open>Facts\<close>

lemma strip_prefix_append [simp]: "strip_prefix p (p @ s) = Some s"
  by (induction p) auto

lemma strip_prefix_eq_Some: "strip_prefix p s = Some r \<longleftrightarrow> s = p @ r"
  by (induction p s rule: strip_prefix.induct) auto

lemma number_probe_normalize:
  "number_probe v = Ok () \<Longrightarrow> normalize_ijson_numbers v = Ok v"
proof (induction v)
  case (JArr vs)
  then have "rmap normalize_ijson_numbers vs = Ok (map (\<lambda>x. x) vs)"
    by (intro rmap_map) auto
  then show ?case by simp
next
  case (JObj kvs)
  have "rmap (\<lambda>kv. normalize_ijson_numbers (snd kv)) kvs = Ok (map snd kvs)"
  proof (rule rmap_map)
    fix kv
    assume kv: "kv \<in> set kvs"
    moreover have "snd kv \<in> Basic_BNFs.snds kv" by (cases kv) simp
    ultimately show "normalize_ijson_numbers (snd kv) = Ok (snd kv)"
      using JObj.IH [of kv "snd kv"] JObj.prems by simp
  qed
  then show ?case by (simp add: zip_map_fst_snd)
qed auto

text \<open>The second encoding pass of \<open>canonical_bytes\<close> never disagrees with the first: the
  result is the RFC 8785 bytes exactly when every integer is in the exact range.\<close>

lemma canonical_bytes_eq:
  "canonical_bytes h v = rbind (number_probe v) (\<lambda>_. Ok (jcs h v))"
  by (cases "number_probe v") (auto simp: canonical_bytes_def number_probe_normalize Let_def)

lemma HEX_nth: "n < 16 \<Longrightarrow> is_lower_hex_byte (HEX ! n)"
proof -
  have "list_all is_lower_hex_byte HEX" by (simp add: HEX_def is_lower_hex_byte_def less_eq_char_def)
  moreover have "length HEX = 16" by (simp add: HEX_def)
  ultimately show "n < 16 \<Longrightarrow> is_lower_hex_byte (HEX ! n)" by (simp add: list_all_length)
qed

lemma of_char_less: "(of_char c :: nat) < 256"
  by (cases c) (simp add: of_char_def horner_sum_simps)

lemma hex_byte_hex: "list_all is_lower_hex_byte (hex_byte b)"
proof -
  have "(of_char b :: nat) div 16 < 16" using of_char_less [of b] by linarith
  then show ?thesis by (simp add: hex_byte_def Let_def HEX_nth)
qed

lemma sha256_bytes_length: "length (sha256_bytes h bs) = 2 * length (sha256 h bs)"
proof -
  have "length (hex_byte b) = 2" for b by (simp add: hex_byte_def Let_def)
  then have "length (concat (map hex_byte xs)) = 2 * length xs" for xs
    by (induction xs) auto
  then show ?thesis by (simp add: sha256_bytes_def)
qed

lemma sha256_bytes_hex: "list_all is_lower_hex_byte (sha256_bytes h bs)"
proof -
  have "list_all is_lower_hex_byte (concat (map hex_byte xs))" for xs
    by (induction xs) (auto simp: hex_byte_hex)
  then show ?thesis by (simp add: sha256_bytes_def)
qed

lemma validate_content_id_iff:
  "validate_content_id s = Ok u \<longleftrightarrow>
     (\<exists>d. s = ''sha256:'' @ d \<and> length d = 64 \<and> list_all is_lower_hex_byte d)"
  by (auto simp: validate_content_id_def strip_prefix_eq_Some split: option.splits)

end
