(* ===== verification/Run_Model.thy ===== *)
theory Run_Model
  imports Canonical
begin

text \<open>
  The data model of the semantic kernel: Artifact references, Effect profiles
  (\<^verbatim>\<open>crates/cymule-core/src/ir.rs\<close>), canonical Events and the rebuildable Run projection
  (\<^verbatim>\<open>crates/cymule-core/src/model.rs\<close>), and the content identities derived from them.
  Record fields carry a prefix for their record (\<open>ar\<close> Artifact reference, \<open>sc\<close> scope,
  \<open>ef\<close> effect, \<open>ep\<close> effect proposal, \<open>ob\<close> obligation, \<open>at\<close> attempt, \<open>oi\<close> open-scope
  index, \<open>dx\<close> derived index, \<open>rn\<close> Run), because HOL field names are global.
\<close>

section \<open>Artifact references\<close>

record artifact_ref =
  ar_identity_version :: string
  ar_artifact_id :: string
  ar_kind :: string

definition ARTIFACT_IDENTITY_VERSION :: string where
  "ARTIFACT_IDENTITY_VERSION = ''cymule.artifact/2''"

definition EFFECT_SCHEMA_VERSION :: string where
  "EFFECT_SCHEMA_VERSION = ''cymule.effect-schema/1''"

definition EFFECT_ARGS_ARTIFACT_KIND :: string where
  "EFFECT_ARGS_ARTIFACT_KIND = ''cymule.effect-args/1''"

definition EXECUTION_BINDING_ARTIFACT_KIND :: string where
  "EXECUTION_BINDING_ARTIFACT_KIND = ''cymule.execution-binding/2''"

definition ROOT_SCOPE_ID :: string where
  "ROOT_SCOPE_ID = ''scope:root''"

definition MAX_ARTIFACT_KIND_BYTES :: nat where
  "MAX_ARTIFACT_KIND_BYTES = 255"

text \<open>\<^verbatim>\<open>str::split('/')\<close>: always at least one segment.\<close>

fun split_on :: "char \<Rightarrow> string \<Rightarrow> string list" where
  "split_on c [] = [[]]"
| "split_on c (x # xs) =
     (if x = c then [] # split_on c xs
      else (case split_on c xs of [] \<Rightarrow> [[x]] | seg # segs \<Rightarrow> (x # seg) # segs))"

definition is_ascii_lowercase :: "char \<Rightarrow> bool" where
  "is_ascii_lowercase c = (CHR ''a'' \<le> c \<and> c \<le> CHR ''z'')"

definition is_ascii_digit :: "char \<Rightarrow> bool" where
  "is_ascii_digit c = (CHR ''0'' \<le> c \<and> c \<le> CHR ''9'')"

definition kind_byte :: "char \<Rightarrow> bool" where
  "kind_byte c = (is_ascii_lowercase c \<or> is_ascii_digit c \<or>
     c = CHR ''.'' \<or> c = CHR ''_'' \<or> c = CHR ''-'' \<or> c = CHR ''+'')"

definition validate_artifact_kind :: "string \<Rightarrow> core_error + unit" where
  "validate_artifact_kind kind =
     (if kind = [] \<or> MAX_ARTIFACT_KIND_BYTES < length kind
         \<or> \<not> list_all (\<lambda>c. c < CHR 0x80) kind
         \<or> CHR ''/'' \<notin> set kind
         \<or> list_ex (\<lambda>seg. seg = [] \<or> \<not> list_all kind_byte seg) (split_on (CHR ''/'') kind)
      then Err Validation else Ok ())"

definition artifact_ref_validate :: "artifact_ref \<Rightarrow> core_error + unit" where
  "artifact_ref_validate r =
     (if ar_identity_version r \<noteq> ARTIFACT_IDENTITY_VERSION then Err Validation else
      rbind (validate_artifact_kind (ar_kind r)) (\<lambda>_.
      case strip_prefix ''sha256:'' (ar_artifact_id r) of
        None \<Rightarrow> Err Validation
      | Some digest \<Rightarrow>
          if length digest \<noteq> 64 \<or> \<not> list_all is_lower_hex_byte digest then Err Validation
          else Ok ()))"

section \<open>Effect profiles\<close>

datatype mutation_kind = Observational | Mutating

datatype dispatch_policy = Eager | OnScopeCommit | Explicit

datatype reconciliation_mode = Queryable | ExternallyAttested | Human | Impossible

record effect_profile =
  pf_mutation :: mutation_kind
  pf_dispatch :: dispatch_policy
  pf_reconciliation :: reconciliation_mode
  pf_keyed_idempotency :: bool
  pf_irreversible :: bool

section \<open>Effect, scope, attempt and Run states\<close>

datatype effect_phase =
  Admitted | Prepared | ReleaseAuthorized | DispatchStarted | CancelledBeforeRelease

datatype world_outcome = Unobserved | Applied | NotApplied | Unknown

datatype reconciliation_resolution =
  ResolvedApplied | ResolvedNotApplied | StillUnknown | ResolutionGovernanceRequired

datatype reconciliation_state = NotRequired | Pending | Resolved | GovernanceRequired

datatype effect_execution_availability = Available | Unavailable

datatype effect_transition =
    Prepare
  | AuthorizeRelease
  | StartDispatch
  | Observe world_outcome
  | Reconcile reconciliation_resolution
  | MarkUnavailable

datatype scope_status = Open | ClosedCommitted | ClosedAborted

datatype run_failure_class = DeclaredFailure | RuntimeDefect | Substrate

record run_failure =
  rf_class :: run_failure_class
  rf_code :: string
  rf_detail :: artifact_ref

datatype run_execution_status =
    Active
  | Completed
  | Failed run_failure
  | Cancelled artifact_ref

datatype world_settlement_status =
  Settled | SettlementPending | SettlementUnknown | SettlementGovernanceRequired

record invocation_path_segment =
  ip_site_id :: string
  ip_region_path :: "nat list"
  ip_scope_id :: string

record scope_projection =
  sc_scope_id :: string
  sc_parent_scope :: "string option"
  sc_invocation_id :: string
  sc_invocation_path :: "invocation_path_segment list"
  sc_definition_id :: string
  sc_region_path :: "nat list"
  sc_site_id :: "string option"
  sc_status :: scope_status
  sc_intents :: "string fset"
  sc_intent_order :: "string list"

text \<open>The occurrence data that an \<^verbatim>\<open>EffectProposed\<close> event carries and an
  \<^verbatim>\<open>EffectProjection\<close> keeps.\<close>

record effect_proposal =
  ep_intent_id :: string
  ep_origin_plan_id :: string
  ep_scope_id :: string
  ep_invocation_id :: string
  ep_invocation_path :: "invocation_path_segment list"
  ep_definition_id :: string
  ep_region_path :: "nat list"
  ep_site_id :: string
  ep_occurrence :: string
  ep_effect_schema_version :: string
  ep_operation :: string
  ep_profile :: effect_profile
  ep_args :: artifact_ref
  ep_execution_binding :: artifact_ref
  ep_occurrence_binding :: string

record effect_projection = effect_proposal +
  ef_execution_availability :: effect_execution_availability
  ef_phase :: effect_phase
  ef_outcome :: world_outcome
  ef_reconciliation :: reconciliation_state

record obligation_projection =
  ob_obligation_id :: string
  ob_intent_id :: string
  ob_blocking :: bool
  ob_resolved :: bool

record attempt_projection =
  at_attempt_id :: string
  at_continuation_id :: string
  at_occurrence_binding :: string
  at_continuation_epoch :: nat
  at_execution_fence :: nat
  at_active :: bool

section \<open>The derived index and the Run projection\<close>

record open_scope_effect_index =
  oi_all_intents :: "string fset"
  oi_all_intent_order :: "string list"
  oi_mutating_intents :: "string fset"
  oi_mutating_intent_order :: "string list"
  oi_abort_transition_intents :: "string fset"
  oi_abort_blockers :: "string fset"

definition open_scope_effect_index_default :: open_scope_effect_index where
  "open_scope_effect_index_default = \<lparr>oi_all_intents = {||}, oi_all_intent_order = [],
     oi_mutating_intents = {||}, oi_mutating_intent_order = [],
     oi_abort_transition_intents = {||}, oi_abort_blockers = {||}\<rparr>"

record run_derived_index =
  dx_initialized :: bool
  dx_active_attempt :: "string option"
  dx_governance_effects :: "string fset"
  dx_unknown_effects :: "string fset"
  dx_pending_effects :: "string fset"
  dx_terminal_transition_effects :: "string fset"
  dx_unresolved_blocking_obligations :: "string fset"
  dx_obligation_by_intent :: "(string, string fset) fmap"
  dx_open_descendants :: "(string, nat) fmap"
  dx_open_scope_ids :: "string fset"
  dx_open_scope_effects :: "(string, open_scope_effect_index) fmap"
  dx_effect_count_by_scope :: "(string, nat) fmap"
  dx_committed_effect_count :: nat

definition run_derived_index_default :: run_derived_index where
  "run_derived_index_default = \<lparr>dx_initialized = False, dx_active_attempt = None,
     dx_governance_effects = {||}, dx_unknown_effects = {||}, dx_pending_effects = {||},
     dx_terminal_transition_effects = {||}, dx_unresolved_blocking_obligations = {||},
     dx_obligation_by_intent = fmempty, dx_open_descendants = fmempty,
     dx_open_scope_ids = {||}, dx_open_scope_effects = fmempty,
     dx_effect_count_by_scope = fmempty, dx_committed_effect_count = 0\<rparr>"

record run_projection =
  rn_run_id :: string
  rn_initial_plan :: string
  rn_current_plan :: string
  rn_plan_lineage :: "string list"
  rn_initial_binding_context :: string
  rn_current_binding_context :: string
  rn_binding_lineage :: "string list"
  rn_epoch :: nat
  rn_execution_status :: run_execution_status
  rn_world_settlement :: world_settlement_status
  rn_scopes :: "(string, scope_projection) fmap"
  rn_effects :: "(string, effect_projection) fmap"
  rn_obligations :: "(string, obligation_projection) fmap"
  rn_attempts :: "(string, attempt_projection) fmap"
  rn_result :: "artifact_ref option"
  rn_last_event :: string
  rn_derived :: run_derived_index

record projection =
  pj_runs :: "(string, run_projection) fmap"
  pj_facts :: "(string, string) fmap"

definition empty_projection :: projection where
  "empty_projection = \<lparr>pj_runs = fmempty, pj_facts = fmempty\<rparr>"

section \<open>Events\<close>

datatype event_payload =
    RunStarted string string string artifact_ref
      \<comment> \<open>plan, entry definition, binding context, input\<close>
  | AttemptStarted string string string nat nat
      \<comment> \<open>attempt, continuation, occurrence binding, continuation epoch, execution fence\<close>
  | AttemptYielded string nat nat
  | EpochAdvanced nat
  | ScopeOpened string string string "invocation_path_segment list" string "nat list" string
      \<comment> \<open>scope, parent, invocation, invocation path, definition, region path, site\<close>
  | EffectProposed effect_proposal
  | EffectTransitioned string effect_transition
  | ScopeCommitted string nat string
      \<comment> \<open>scope, obligation count, obligation commitment\<close>
  | ScopeAborted string
  | BindingUpdated string string
  | RunMigrated string string string string string nat string
      \<comment> \<open>from plan, to plan, from binding, to binding, safe point, target epoch, digest\<close>
  | FactRecorded string string
  | RunCompleted "artifact_ref option"
  | RunFailed run_failure nat
  | RunCancelled artifact_ref nat

text \<open>The reducer reads an Event's identity, Run and payload; its causal metadata
  (parents, read and write footprints) is validated by the Machine before reduction.\<close>

record event =
  ev_event_id :: string
  ev_run_id :: string
  ev_payload :: event_payload

section \<open>Structural identities\<close>

definition json_of_artifact_ref :: "artifact_ref \<Rightarrow> json" where
  "json_of_artifact_ref r = JObj [(''identity_version'', JStr (ar_identity_version r)),
     (''artifact_id'', JStr (ar_artifact_id r)), (''kind'', JStr (ar_kind r))]"

definition json_of_path_segment :: "invocation_path_segment \<Rightarrow> json" where
  "json_of_path_segment s = JObj [(''site_id'', JStr (ip_site_id s)),
     (''region_path'', JArr (map (\<lambda>n. JInt (int n)) (ip_region_path s))),
     (''scope_id'', JStr (ip_scope_id s))]"

definition json_of_obligation :: "obligation_projection \<Rightarrow> json" where
  "json_of_obligation b = JObj [(''obligation_id'', JStr (ob_obligation_id b)),
     (''intent_id'', JStr (ob_intent_id b)), (''blocking'', JBool (ob_blocking b)),
     (''resolved'', JBool (ob_resolved b))]"

definition plan_invocation_id ::
  "host \<Rightarrow> string \<Rightarrow> string \<Rightarrow> string \<Rightarrow> invocation_path_segment list \<Rightarrow> core_error + string" where
  "plan_invocation_id h run_id plan_id entry_definition invocation_path =
     content_id h ''cymule.invocation/2''
       (JArr [JStr run_id, JStr plan_id, JStr entry_definition,
              JArr (map json_of_path_segment invocation_path)])"

definition plan_scope_id ::
  "host \<Rightarrow> string \<Rightarrow> string \<Rightarrow> string \<Rightarrow> string \<Rightarrow> nat list \<Rightarrow> core_error + string" where
  "plan_scope_id h run_id plan_id invocation_id definition_id body_region_path =
     content_id h ''cymule.scope/2''
       (JArr [JStr run_id, JStr plan_id, JStr invocation_id, JStr definition_id,
              JArr (map (\<lambda>n. JInt (int n)) body_region_path)])"

definition effect_obligation_id :: "host \<Rightarrow> string \<Rightarrow> core_error + string" where
  "effect_obligation_id h intent_id =
     content_id h ''cymule.effect-obligation/1'' (JStr intent_id)"

definition validate_effect_args_reference :: "artifact_ref \<Rightarrow> core_error + unit" where
  "validate_effect_args_reference args =
     rbind (artifact_ref_validate args) (\<lambda>_.
     if ar_kind args \<noteq> EFFECT_ARGS_ARTIFACT_KIND then Err Validation else Ok ())"

record effect_intent_identity_input =
  ii_run_id :: string
  ii_plan_id :: string
  ii_invocation_id :: string
  ii_site_id :: string
  ii_scope_id :: string
  ii_occurrence :: string
  ii_args :: artifact_ref
  ii_effect_schema_version :: string

definition effect_intent_id ::
  "host \<Rightarrow> effect_intent_identity_input \<Rightarrow> core_error + string" where
  "effect_intent_id h input =
     rbind (validate_effect_args_reference (ii_args input)) (\<lambda>_.
     content_id h ''cymule.effect-intent/2'' (JObj [
       (''run_id'', JStr (ii_run_id input)),
       (''plan_id'', JStr (ii_plan_id input)),
       (''invocation_id'', JStr (ii_invocation_id input)),
       (''site_id'', JStr (ii_site_id input)),
       (''scope_id'', JStr (ii_scope_id input)),
       (''occurrence'', JStr (ii_occurrence input)),
       (''args'', json_of_artifact_ref (ii_args input)),
       (''effect_schema_version'', JStr (ii_effect_schema_version input))]))"

section \<open>Scope obligations\<close>

text \<open>\<^verbatim>\<open>crates/cymule-core/src/machine.rs\<close>: the obligation of one mutating Effect and the
  proposal-order commitment over all obligations of a scope.\<close>

definition obligation_for_effect ::
  "host \<Rightarrow> effect_projection \<Rightarrow> core_error + obligation_projection" where
  "obligation_for_effect h effect =
     (if pf_mutation (ep_profile effect) \<noteq> Mutating then Err Validation else
      rbind (effect_obligation_id h (ep_intent_id effect)) (\<lambda>obligation_id.
      Ok \<lparr>ob_obligation_id = obligation_id, ob_intent_id = ep_intent_id effect,
          ob_blocking = True,
          ob_resolved = (ef_outcome effect = Applied \<or> ef_outcome effect = NotApplied)\<rparr>))"

definition SCOPE_OBLIGATION_COMMITMENT_DOMAIN :: string where
  "SCOPE_OBLIGATION_COMMITMENT_DOMAIN = ''cymule.scope-obligation-lineage/1''"

definition scope_obligation_commitment_genesis :: "host \<Rightarrow> core_error + string" where
  "scope_obligation_commitment_genesis h =
     content_id h SCOPE_OBLIGATION_COMMITMENT_DOMAIN (JArr [JStr ''genesis'', JNull])"

definition scope_obligation_commitment_append ::
  "host \<Rightarrow> string \<Rightarrow> obligation_projection \<Rightarrow> core_error + string" where
  "scope_obligation_commitment_append h parent obligation =
     rbind (validate_content_id parent) (\<lambda>_.
     rbind (effect_obligation_id h (ob_intent_id obligation)) (\<lambda>expected.
     if ob_obligation_id obligation \<noteq> expected \<or> \<not> ob_blocking obligation
     then Err Validation
     else content_id h SCOPE_OBLIGATION_COMMITMENT_DOMAIN
            (JArr [JStr ''append'', JStr parent, json_of_obligation obligation])))"

definition scope_obligation_summary ::
  "host \<Rightarrow> obligation_projection list \<Rightarrow> core_error + (nat \<times> string)" where
  "scope_obligation_summary h obligations =
     rbind (scope_obligation_commitment_genesis h) (\<lambda>genesis.
     rfold (\<lambda>obligation (count, commitment).
       rbind (effect_obligation_id h (ob_intent_id obligation)) (\<lambda>expected.
       if ob_obligation_id obligation \<noteq> expected \<or> \<not> ob_blocking obligation
       then Err Validation
       else
         rbind (ok_or Validation (exact_add count 1)) (\<lambda>count.
         rbind (scope_obligation_commitment_append h commitment obligation) (\<lambda>commitment.
         Ok (count, commitment)))))
       obligations (0, genesis))"

end
