(* ===== verification/Reducer.thy ===== *)
theory Reducer
  imports Run_Model
begin

text \<open>
  The pure reducer of \<^verbatim>\<open>crates/cymule-core/src/model.rs\<close>: the Effect lifecycle, the derived
  index with its from-scratch \<open>rebuild\<close> and its incremental maintenance, one definition per
  Event handler, \<open>apply_event\<close>, and the audits \<open>verify_reducer_invariants\<close> and
  \<open>verify_derived_indexes\<close>. Each handler returns the new Run or the error category; a Rust
  handler that fails half-way leaves a partly updated \<^verbatim>\<open>&mut\<close> value behind, which
  \<^verbatim>\<open>Machine::apply_command_event_batch\<close> undoes before anything reads it, so the model keeps no
  state on an error.
\<close>

section \<open>Effect lifecycle\<close>

datatype effect_settlement_class = ClassGovernance | ClassUnknown | ClassPending | ClassSettled

definition effect_settlement_class :: "effect_projection \<Rightarrow> effect_settlement_class" where
  "effect_settlement_class effect =
     (if ef_reconciliation effect = GovernanceRequired then ClassGovernance
      else if ef_outcome effect = Unknown then ClassUnknown
      else if ef_phase effect \<noteq> CancelledBeforeRelease \<and> ef_outcome effect = Unobserved
        then ClassPending
      else ClassSettled)"

definition needs_terminal_transition :: "effect_projection \<Rightarrow> bool" where
  "needs_terminal_transition effect =
     ((ef_phase effect = DispatchStarted \<and> ef_outcome effect = Unobserved)
      \<or> \<not> (ef_phase effect = DispatchStarted \<or> ef_phase effect = CancelledBeforeRelease))"

definition needs_scope_abort_transition :: "effect_projection \<Rightarrow> bool" where
  "needs_scope_abort_transition effect = (ef_phase effect = Admitted \<or> ef_phase effect = Prepared)"

definition blocks_scope_abort :: "effect_projection \<Rightarrow> bool" where
  "blocks_scope_abort effect =
     (pf_mutation (ep_profile effect) = Mutating
      \<and> (ef_phase effect = ReleaseAuthorized \<or> ef_phase effect = DispatchStarted))"

definition reconciliation_state_for_unknown :: "effect_profile \<Rightarrow> reconciliation_state" where
  "reconciliation_state_for_unknown profile =
     (case pf_reconciliation profile of
        Queryable \<Rightarrow> Pending | ExternallyAttested \<Rightarrow> Pending
      | Human \<Rightarrow> GovernanceRequired | Impossible \<Rightarrow> GovernanceRequired)"

definition terminalized_effect :: "effect_projection \<Rightarrow> effect_projection" where
  "terminalized_effect effect =
     (case (ef_phase effect, ef_outcome effect) of
        (DispatchStarted, Unobserved) \<Rightarrow>
          effect\<lparr>ef_outcome := Unknown,
                 ef_reconciliation := reconciliation_state_for_unknown (ep_profile effect)\<rparr>
      | (DispatchStarted, _) \<Rightarrow> effect
      | _ \<Rightarrow> effect\<lparr>ef_phase := CancelledBeforeRelease, ef_outcome := NotApplied,
                    ef_reconciliation := Resolved\<rparr>)"

definition reconciliation_transition_allowed ::
  "reconciliation_mode \<Rightarrow> reconciliation_state \<Rightarrow> reconciliation_resolution \<Rightarrow> bool" where
  "reconciliation_transition_allowed mode state resolution =
     (if mode = Queryable \<or> mode = ExternallyAttested
      then state = Pending \<and> resolution \<noteq> ResolutionGovernanceRequired
      else state = GovernanceRequired
        \<and> (resolution = ResolvedApplied \<or> resolution = ResolvedNotApplied))"

definition resolve_effect ::
  "effect_projection \<Rightarrow> reconciliation_resolution \<Rightarrow> effect_projection" where
  "resolve_effect effect resolution =
     (case resolution of
        ResolvedApplied \<Rightarrow> effect\<lparr>ef_outcome := Applied, ef_reconciliation := Resolved\<rparr>
      | ResolvedNotApplied \<Rightarrow> effect\<lparr>ef_outcome := NotApplied, ef_reconciliation := Resolved\<rparr>
      | StillUnknown \<Rightarrow> effect\<lparr>ef_reconciliation := Pending\<rparr>
      | ResolutionGovernanceRequired \<Rightarrow> effect\<lparr>ef_reconciliation := GovernanceRequired\<rparr>)"

fun apply_effect_transition ::
  "effect_projection \<Rightarrow> scope_status \<Rightarrow> effect_transition \<Rightarrow> core_error + effect_projection" where
  "apply_effect_transition effect scope_status Prepare =
     (if ef_phase effect = Admitted then Ok (effect\<lparr>ef_phase := Prepared\<rparr>)
      else Err IllegalTransition)"
| "apply_effect_transition effect scope_status AuthorizeRelease =
     (if ef_phase effect = Prepared \<and> ef_execution_availability effect = Available
         \<and> (case pf_dispatch (ep_profile effect) of
              Eager \<Rightarrow> scope_status \<noteq> ClosedAborted
            | OnScopeCommit \<Rightarrow> scope_status = ClosedCommitted
            | Explicit \<Rightarrow> scope_status = ClosedCommitted)
      then Ok (effect\<lparr>ef_phase := ReleaseAuthorized\<rparr>) else Err IllegalTransition)"
| "apply_effect_transition effect scope_status StartDispatch =
     (if ef_phase effect = ReleaseAuthorized \<and> ef_execution_availability effect = Available
      then Ok (effect\<lparr>ef_phase := DispatchStarted\<rparr>) else Err IllegalTransition)"
| "apply_effect_transition effect scope_status (Observe outcome) =
     (if ef_phase effect = DispatchStarted \<and> ef_execution_availability effect = Available
         \<and> ef_outcome effect = Unobserved \<and> outcome \<noteq> Unobserved
      then Ok (effect\<lparr>ef_outcome := outcome,
                ef_reconciliation :=
                  (if outcome = Unknown
                   then reconciliation_state_for_unknown (ep_profile effect)
                   else NotRequired)\<rparr>)
      else Err IllegalTransition)"
| "apply_effect_transition effect scope_status (Reconcile resolution) =
     (if (ef_phase effect = DispatchStarted \<and> ef_outcome effect = Unknown
          \<and> reconciliation_transition_allowed (pf_reconciliation (ep_profile effect))
              (ef_reconciliation effect) resolution)
        \<or> (ef_phase effect = DispatchStarted
          \<and> ef_execution_availability effect = Unavailable
          \<and> ef_reconciliation effect = GovernanceRequired
          \<and> ef_outcome effect = Unknown
          \<and> (resolution = ResolvedApplied \<or> resolution = ResolvedNotApplied))
      then Ok (resolve_effect effect resolution) else Err IllegalTransition)"
| "apply_effect_transition effect scope_status MarkUnavailable =
     (if ef_execution_availability effect = Available
         \<and> \<not> (ef_outcome effect = Applied \<or> ef_outcome effect = NotApplied)
         \<and> ef_phase effect \<noteq> CancelledBeforeRelease
      then
        (let effect = effect\<lparr>ef_execution_availability := Unavailable\<rparr> in
         if ef_phase effect = DispatchStarted
         then Ok (effect\<lparr>ef_outcome := Unknown, ef_reconciliation := GovernanceRequired\<rparr>)
         else Ok (effect\<lparr>ef_phase := CancelledBeforeRelease, ef_outcome := NotApplied,
                         ef_reconciliation := Resolved\<rparr>))
      else Err IllegalTransition)"

section \<open>Maintenance of the derived index\<close>

definition settled_elsewhere :: "run_derived_index \<Rightarrow> string \<Rightarrow> bool" where
  "settled_elsewhere index intent_id =
     (intent_id |\<in>| dx_governance_effects index \<or> intent_id |\<in>| dx_unknown_effects index
      \<or> intent_id |\<in>| dx_pending_effects index)"

definition insert_settlement ::
  "effect_settlement_class \<Rightarrow> string \<Rightarrow> run_derived_index \<Rightarrow> run_derived_index" where
  "insert_settlement c i index =
     (case c of
        ClassGovernance \<Rightarrow> index\<lparr>dx_governance_effects := finsert i (dx_governance_effects index)\<rparr>
      | ClassUnknown \<Rightarrow> index\<lparr>dx_unknown_effects := finsert i (dx_unknown_effects index)\<rparr>
      | ClassPending \<Rightarrow> index\<lparr>dx_pending_effects := finsert i (dx_pending_effects index)\<rparr>
      | ClassSettled \<Rightarrow> index)"

definition add_effect_state ::
  "run_derived_index \<Rightarrow> effect_projection \<Rightarrow> scope_status \<Rightarrow> core_error + run_derived_index" where
  "add_effect_state index effect scope_status =
     (let i = ep_intent_id effect in
      if settled_elsewhere index i then Err Validation
      else
       let index = insert_settlement (effect_settlement_class effect) i index;
           index = (if needs_terminal_transition effect
                    then index\<lparr>dx_terminal_transition_effects :=
                                 finsert i (dx_terminal_transition_effects index)\<rparr>
                    else index)
       in if scope_status = Open then
            rbind (ok_or Validation
                     (fmlookup (dx_open_scope_effects index) (ep_scope_id effect))) (\<lambda>scope.
            let scope = (if ef_phase effect = Admitted \<or> ef_phase effect = Prepared
                         then scope\<lparr>oi_abort_transition_intents :=
                                      finsert i (oi_abort_transition_intents scope)\<rparr>
                         else scope);
                scope = (if pf_mutation (ep_profile effect) = Mutating
                            \<and> (ef_phase effect = ReleaseAuthorized
                               \<or> ef_phase effect = DispatchStarted)
                         then scope\<lparr>oi_abort_blockers := finsert i (oi_abort_blockers scope)\<rparr>
                         else scope)
            in Ok (index\<lparr>dx_open_scope_effects :=
                           fmupd (ep_scope_id effect) scope (dx_open_scope_effects index)\<rparr>))
          else Ok index)"

definition remove_settlement ::
  "effect_settlement_class \<Rightarrow> string \<Rightarrow> run_derived_index \<Rightarrow> core_error + run_derived_index" where
  "remove_settlement c i index =
     (case c of
        ClassGovernance \<Rightarrow>
          if i |\<in>| dx_governance_effects index
          then Ok (index\<lparr>dx_governance_effects := dx_governance_effects index |-| {|i|}\<rparr>)
          else Err Validation
      | ClassUnknown \<Rightarrow>
          if i |\<in>| dx_unknown_effects index
          then Ok (index\<lparr>dx_unknown_effects := dx_unknown_effects index |-| {|i|}\<rparr>)
          else Err Validation
      | ClassPending \<Rightarrow>
          if i |\<in>| dx_pending_effects index
          then Ok (index\<lparr>dx_pending_effects := dx_pending_effects index |-| {|i|}\<rparr>)
          else Err Validation
      | ClassSettled \<Rightarrow> Ok index)"

definition remove_effect_state ::
  "run_derived_index \<Rightarrow> effect_projection \<Rightarrow> scope_status \<Rightarrow> core_error + run_derived_index" where
  "remove_effect_state index effect scope_status =
     (let i = ep_intent_id effect in
      rbind (remove_settlement (effect_settlement_class effect) i index) (\<lambda>index.
      let index = index\<lparr>dx_terminal_transition_effects :=
                          dx_terminal_transition_effects index |-| {|i|}\<rparr>
      in if scope_status = Open then
           rbind (ok_or Validation
                    (fmlookup (dx_open_scope_effects index) (ep_scope_id effect))) (\<lambda>scope.
           Ok (index\<lparr>dx_open_scope_effects := fmupd (ep_scope_id effect)
                 (scope\<lparr>oi_abort_transition_intents := oi_abort_transition_intents scope |-| {|i|},
                        oi_abort_blockers := oi_abort_blockers scope |-| {|i|}\<rparr>)
                 (dx_open_scope_effects index)\<rparr>))
         else Ok index))"

definition register_open ::
  "effect_projection \<Rightarrow> open_scope_effect_index \<Rightarrow> core_error + open_scope_effect_index" where
  "register_open effect scope =
     (let i = ep_intent_id effect in
      if i |\<in>| oi_all_intents scope then Err Validation
      else
       let scope = scope\<lparr>oi_all_intents := finsert i (oi_all_intents scope),
                         oi_all_intent_order := oi_all_intent_order scope @ [i]\<rparr>
       in if pf_mutation (ep_profile effect) = Mutating then
            if i |\<in>| oi_mutating_intents scope then Err Validation
            else Ok (scope\<lparr>oi_mutating_intents := finsert i (oi_mutating_intents scope),
                           oi_mutating_intent_order := oi_mutating_intent_order scope @ [i]\<rparr>)
          else Ok scope)"

definition register_effect ::
  "run_derived_index \<Rightarrow> effect_projection \<Rightarrow> scope_status \<Rightarrow> core_error + run_derived_index" where
  "register_effect index effect scope_status =
     rbind (ok_or Validation
              (checked_add (lookup_default 0 (dx_effect_count_by_scope index)
                             (ep_scope_id effect)) 1)) (\<lambda>count.
     let index = index\<lparr>dx_effect_count_by_scope :=
                         fmupd (ep_scope_id effect) count (dx_effect_count_by_scope index)\<rparr> in
     rbind (if scope_status = ClosedCommitted
            then rbind (ok_or Validation (exact_add (dx_committed_effect_count index) 1))
                   (\<lambda>n. Ok (index\<lparr>dx_committed_effect_count := n\<rparr>))
            else Ok index) (\<lambda>index.
     rbind (if scope_status = Open
            then rbind (ok_or Validation
                          (fmlookup (dx_open_scope_effects index) (ep_scope_id effect)))
                   (\<lambda>scope. rbind (register_open effect scope) (\<lambda>scope.
                    Ok (index\<lparr>dx_open_scope_effects :=
                                fmupd (ep_scope_id effect) scope
                                  (dx_open_scope_effects index)\<rparr>)))
            else Ok index) (\<lambda>index.
     add_effect_state index effect scope_status)))"

definition settlement :: "run_derived_index \<Rightarrow> world_settlement_status" where
  "settlement index =
     (if dx_governance_effects index \<noteq> {||} then SettlementGovernanceRequired
      else if dx_unknown_effects index \<noteq> {||} then SettlementUnknown
      else if dx_pending_effects index \<noteq> {||} then SettlementPending
      else Settled)"

section \<open>Rebuilding the derived index from the canonical fields\<close>

definition rebuild_attempt ::
  "attempt_projection \<Rightarrow> run_derived_index \<Rightarrow> core_error + run_derived_index" where
  "rebuild_attempt attempt index =
     (if at_active attempt then
        if dx_active_attempt index \<noteq> None then Err Validation
        else Ok (index\<lparr>dx_active_attempt := Some (at_attempt_id attempt)\<rparr>)
      else Ok index)"

definition rebuild_open_scope ::
  "scope_projection \<Rightarrow> run_derived_index \<Rightarrow> core_error + run_derived_index" where
  "rebuild_open_scope scope index =
     (if sc_status scope \<noteq> Open then Ok index
      else
       let index = index\<lparr>dx_open_scope_ids := finsert (sc_scope_id scope) (dx_open_scope_ids index),
                         dx_open_scope_effects := fmupd (sc_scope_id scope)
                           open_scope_effect_index_default (dx_open_scope_effects index)\<rparr>
       in case sc_parent_scope scope of
            None \<Rightarrow> Ok index
          | Some parent_id \<Rightarrow>
              rbind (ok_or Validation
                       (checked_add (lookup_default 0 (dx_open_descendants index) parent_id) 1))
                (\<lambda>count. Ok (index\<lparr>dx_open_descendants :=
                                     fmupd parent_id count (dx_open_descendants index)\<rparr>)))"

definition rebuild_scope_effects ::
  "run_projection \<Rightarrow> scope_projection \<Rightarrow> run_derived_index \<Rightarrow> core_error + run_derived_index" where
  "rebuild_scope_effects run scope index =
     rfold (\<lambda>intent_id index.
        rbind (ok_or Validation (fmlookup (rn_effects run) intent_id)) (\<lambda>effect.
        if ep_scope_id effect \<noteq> sc_scope_id scope then Err Validation
        else register_effect index effect (sc_status scope)))
       (sc_intent_order scope) index"

definition rebuild_obligation ::
  "obligation_projection \<Rightarrow> run_derived_index \<Rightarrow> core_error + run_derived_index" where
  "rebuild_obligation obligation index =
     (let ids = lookup_default {||} (dx_obligation_by_intent index) (ob_intent_id obligation) in
      if ob_obligation_id obligation |\<in>| ids then Err Validation
      else
       let index = index\<lparr>dx_obligation_by_intent :=
                           fmupd (ob_intent_id obligation)
                             (finsert (ob_obligation_id obligation) ids)
                             (dx_obligation_by_intent index)\<rparr>
       in if ob_blocking obligation \<and> \<not> ob_resolved obligation
          then Ok (index\<lparr>dx_unresolved_blocking_obligations :=
                           finsert (ob_obligation_id obligation)
                             (dx_unresolved_blocking_obligations index)\<rparr>)
          else Ok index)"

definition rebuild :: "run_projection \<Rightarrow> core_error + run_derived_index" where
  "rebuild run =
     rbind (rfold rebuild_attempt (values_of (rn_attempts run))
              (run_derived_index_default\<lparr>dx_initialized := True\<rparr>)) (\<lambda>index.
     rbind (rfold rebuild_open_scope (values_of (rn_scopes run)) index) (\<lambda>index.
     rbind (rfold (rebuild_scope_effects run) (values_of (rn_scopes run)) index) (\<lambda>index.
     rfold rebuild_obligation (values_of (rn_obligations run)) index)))"

section \<open>Event handlers\<close>

definition update_world_settlement :: "run_projection \<Rightarrow> run_projection" where
  "update_world_settlement run = run\<lparr>rn_world_settlement := settlement (rn_derived run)\<rparr>"

definition root_scope :: "string \<Rightarrow> string \<Rightarrow> scope_projection" where
  "root_scope invocation_id entry_definition =
     \<lparr>sc_scope_id = ROOT_SCOPE_ID, sc_parent_scope = None, sc_invocation_id = invocation_id,
      sc_invocation_path = [], sc_definition_id = entry_definition, sc_region_path = [],
      sc_site_id = None, sc_status = Open, sc_intents = {||}, sc_intent_order = []\<rparr>"

definition started_run ::
  "string \<Rightarrow> string \<Rightarrow> string \<Rightarrow> string \<Rightarrow> string \<Rightarrow> string \<Rightarrow> run_projection" where
  "started_run run_id event_id plan_id entry_definition binding_context invocation_id =
     \<lparr>rn_run_id = run_id, rn_initial_plan = plan_id, rn_current_plan = plan_id,
      rn_plan_lineage = [plan_id],
      rn_initial_binding_context = binding_context,
      rn_current_binding_context = binding_context,
      rn_binding_lineage = [binding_context],
      rn_epoch = 0, rn_execution_status = Active, rn_world_settlement = Settled,
      rn_scopes = fmupd ROOT_SCOPE_ID (root_scope invocation_id entry_definition) fmempty,
      rn_effects = fmempty, rn_obligations = fmempty, rn_attempts = fmempty,
      rn_result = None, rn_last_event = event_id,
      rn_derived = run_derived_index_default\<lparr>dx_initialized := True,
        dx_open_scope_ids := {|ROOT_SCOPE_ID|},
        dx_open_scope_effects :=
          fmupd ROOT_SCOPE_ID open_scope_effect_index_default fmempty\<rparr>\<rparr>"

definition apply_run_started ::
  "host \<Rightarrow> projection \<Rightarrow> event \<Rightarrow> string \<Rightarrow> string \<Rightarrow> string \<Rightarrow> core_error + projection" where
  "apply_run_started h projection event plan_id entry_definition binding_context =
     (if fmlookup (pj_runs projection) (ev_run_id event) \<noteq> None then Err IllegalTransition
      else
       rbind (plan_invocation_id h (ev_run_id event) plan_id entry_definition []) (\<lambda>invocation_id.
       Ok (projection\<lparr>pj_runs := fmupd (ev_run_id event)
             (started_run (ev_run_id event) (ev_event_id event) plan_id entry_definition
                binding_context invocation_id)
             (pj_runs projection)\<rparr>)))"

definition verify_attempt_numbers :: "nat \<Rightarrow> nat \<Rightarrow> core_error + unit" where
  "verify_attempt_numbers continuation_epoch execution_fence =
     (if MAX_EXACT_INTEGER < continuation_epoch \<or> execution_fence = 0
         \<or> MAX_EXACT_INTEGER < execution_fence
      then Err Validation else Ok ())"

definition apply_attempt_started ::
  "run_projection \<Rightarrow> string \<Rightarrow> string \<Rightarrow> string \<Rightarrow> nat \<Rightarrow> nat \<Rightarrow> core_error + run_projection" where
  "apply_attempt_started run attempt_id continuation_id occurrence_binding
     continuation_epoch execution_fence =
     (if continuation_epoch \<noteq> rn_epoch run then Err IllegalTransition else
      rbind (verify_attempt_numbers continuation_epoch execution_fence) (\<lambda>_.
      if fmlookup (rn_attempts run) attempt_id \<noteq> None then Err IllegalTransition
      else if dx_active_attempt (rn_derived run) \<noteq> None then Err IllegalTransition
      else Ok (run\<lparr>rn_attempts := fmupd attempt_id
                 \<lparr>at_attempt_id = attempt_id, at_continuation_id = continuation_id,
                  at_occurrence_binding = occurrence_binding,
                  at_continuation_epoch = continuation_epoch,
                  at_execution_fence = execution_fence, at_active = True\<rparr>
                 (rn_attempts run),
               rn_derived := (rn_derived run)\<lparr>dx_active_attempt := Some attempt_id\<rparr>\<rparr>)))"

definition apply_attempt_yielded ::
  "run_projection \<Rightarrow> string \<Rightarrow> nat \<Rightarrow> nat \<Rightarrow> core_error + run_projection" where
  "apply_attempt_yielded run attempt_id continuation_epoch execution_fence =
     rbind (verify_attempt_numbers continuation_epoch execution_fence) (\<lambda>_.
     rbind (ok_or NotFound (fmlookup (rn_attempts run) attempt_id)) (\<lambda>attempt.
     if \<not> at_active attempt \<or> at_continuation_epoch attempt \<noteq> continuation_epoch
        \<or> at_execution_fence attempt \<noteq> execution_fence
     then Err IllegalTransition
     else Ok (run\<lparr>rn_attempts :=
                   fmupd attempt_id (attempt\<lparr>at_active := False\<rparr>) (rn_attempts run),
                 rn_derived := (rn_derived run)\<lparr>dx_active_attempt := None\<rparr>\<rparr>)))"

definition apply_epoch_advanced :: "run_projection \<Rightarrow> nat \<Rightarrow> core_error + run_projection" where
  "apply_epoch_advanced run epoch =
     rbind (ok_or IllegalTransition (exact_add (rn_epoch run) 1)) (\<lambda>expected.
     if epoch \<noteq> expected then Err IllegalTransition
     else
      let run' = run\<lparr>rn_epoch := epoch,
                      rn_derived := (rn_derived run)\<lparr>dx_active_attempt := None\<rparr>\<rparr>
      in case dx_active_attempt (rn_derived run) of
           None \<Rightarrow> Ok run'
         | Some attempt_id \<Rightarrow>
             (case fmlookup (rn_attempts run) attempt_id of
                None \<Rightarrow> Ok run'
              | Some attempt \<Rightarrow>
                  Ok (run'\<lparr>rn_attempts :=
                         fmupd attempt_id (attempt\<lparr>at_active := False\<rparr>) (rn_attempts run)\<rparr>)))"

definition index_opened_scope :: "run_projection \<Rightarrow> string \<Rightarrow> core_error + run_projection" where
  "index_opened_scope run scope_id =
     (let parent = (case fmlookup (rn_scopes run) scope_id of
                      None \<Rightarrow> None | Some scope \<Rightarrow> sc_parent_scope scope);
          index = rn_derived run
      in if scope_id |\<in>| dx_open_scope_ids index
            \<or> fmlookup (dx_open_scope_effects index) scope_id \<noteq> None
         then Err Validation
         else
          let index = index\<lparr>dx_open_scope_ids := finsert scope_id (dx_open_scope_ids index),
                            dx_open_scope_effects := fmupd scope_id
                              open_scope_effect_index_default (dx_open_scope_effects index)\<rparr>
          in case parent of
               None \<Rightarrow> Ok (run\<lparr>rn_derived := index\<rparr>)
             | Some parent_id \<Rightarrow>
                 rbind (ok_or Validation
                          (exact_add (lookup_default 0 (dx_open_descendants index) parent_id) 1))
                   (\<lambda>count. Ok (run\<lparr>rn_derived := index\<lparr>dx_open_descendants :=
                      fmupd parent_id count (dx_open_descendants index)\<rparr>\<rparr>)))"

definition apply_scope_opened ::
  "run_projection \<Rightarrow> string \<Rightarrow> string \<Rightarrow> string \<Rightarrow> invocation_path_segment list \<Rightarrow> string
   \<Rightarrow> nat list \<Rightarrow> string \<Rightarrow> core_error + run_projection" where
  "apply_scope_opened run scope_id parent_scope invocation_id invocation_path definition_id
     region_path site_id =
     (if fmlookup (rn_scopes run) scope_id \<noteq> None then Err IllegalTransition else
      rbind (ok_or NotFound (fmlookup (rn_scopes run) parent_scope)) (\<lambda>parent.
      if sc_status parent \<noteq> Open then Err IllegalTransition
      else
       index_opened_scope (run\<lparr>rn_scopes := fmupd scope_id
         \<lparr>sc_scope_id = scope_id, sc_parent_scope = Some parent_scope,
          sc_invocation_id = invocation_id, sc_invocation_path = invocation_path,
          sc_definition_id = definition_id, sc_region_path = region_path,
          sc_site_id = Some site_id, sc_status = Open, sc_intents = {||},
          sc_intent_order = []\<rparr> (rn_scopes run)\<rparr>) scope_id))"

definition validate_effect_proposal_header ::
  "run_projection \<Rightarrow> effect_proposal \<Rightarrow> core_error + unit" where
  "validate_effect_proposal_header run p =
     (if fmlookup (rn_effects run) (ep_intent_id p) \<noteq> None then Err IllegalTransition
      else if ep_origin_plan_id p \<noteq> rn_current_plan run then Err Validation
      else if ep_effect_schema_version p \<noteq> EFFECT_SCHEMA_VERSION then Err Validation
      else if ar_kind (ep_execution_binding p) \<noteq> EXECUTION_BINDING_ARTIFACT_KIND
           \<or> ar_artifact_id (ep_execution_binding p) \<noteq> rn_current_binding_context run
        then Err Validation
      else Ok ())"

definition admitted_effect :: "effect_proposal \<Rightarrow> effect_projection" where
  "admitted_effect p = effect_proposal.extend p
     \<lparr>ef_execution_availability = Available, ef_phase = Admitted, ef_outcome = Unobserved,
      ef_reconciliation = NotRequired\<rparr>"

definition apply_effect_proposed ::
  "host \<Rightarrow> run_projection \<Rightarrow> string \<Rightarrow> effect_proposal \<Rightarrow> core_error + run_projection" where
  "apply_effect_proposed h run run_id p =
     rbind (validate_effect_proposal_header run p) (\<lambda>_.
     rbind (ok_or NotFound (fmlookup (rn_scopes run) (ep_scope_id p))) (\<lambda>scope.
     if sc_status scope \<noteq> Open then Err IllegalTransition else
     rbind (effect_intent_id h
       \<lparr>ii_run_id = run_id, ii_plan_id = rn_current_plan run,
        ii_invocation_id = ep_invocation_id p, ii_site_id = ep_site_id p,
        ii_scope_id = ep_scope_id p, ii_occurrence = ep_occurrence p, ii_args = ep_args p,
        ii_effect_schema_version = ep_effect_schema_version p\<rparr>) (\<lambda>expected.
     if ep_intent_id p \<noteq> expected then Err IdentityMismatch
     else
      let scope' = scope\<lparr>sc_intents := finsert (ep_intent_id p) (sc_intents scope),
                         sc_intent_order := sc_intent_order scope @ [ep_intent_id p]\<rparr>;
          effect = admitted_effect p
      in rbind (register_effect (rn_derived run) effect Open) (\<lambda>index.
         Ok (update_world_settlement
           (run\<lparr>rn_scopes := fmupd (ep_scope_id p) scope' (rn_scopes run),
                rn_effects := fmupd (ep_intent_id p) effect (rn_effects run),
                rn_derived := index\<rparr>))))))"

definition effect_resolved :: "effect_projection \<Rightarrow> bool" where
  "effect_resolved effect =
     (ef_phase effect = CancelledBeforeRelease
      \<or> ef_outcome effect = Applied \<or> ef_outcome effect = NotApplied)"

definition update_one_obligation ::
  "bool \<Rightarrow> string \<Rightarrow> run_projection \<Rightarrow> core_error + run_projection" where
  "update_one_obligation resolved obligation_id run =
     (case fmlookup (rn_obligations run) obligation_id of
        None \<Rightarrow> Ok run
      | Some obligation \<Rightarrow>
          if ob_resolved obligation = resolved then Ok run
          else
           let unresolved = dx_unresolved_blocking_obligations (rn_derived run) in
           rbind (if ob_blocking obligation then
                    if resolved then
                      if obligation_id |\<in>| unresolved
                      then Ok (unresolved |-| {|obligation_id|}) else Err Validation
                    else if obligation_id |\<in>| unresolved then Err Validation
                         else Ok (finsert obligation_id unresolved)
                  else Ok unresolved) (\<lambda>unresolved.
           Ok (run\<lparr>rn_obligations := fmupd obligation_id (obligation\<lparr>ob_resolved := resolved\<rparr>)
                     (rn_obligations run),
                   rn_derived := (rn_derived run)
                     \<lparr>dx_unresolved_blocking_obligations := unresolved\<rparr>\<rparr>)))"

definition update_obligation :: "run_projection \<Rightarrow> string \<Rightarrow> core_error + run_projection" where
  "update_obligation run intent_id =
     (let resolved = (case fmlookup (rn_effects run) intent_id of
                        None \<Rightarrow> False | Some effect \<Rightarrow> effect_resolved effect);
          obligation_ids =
            lookup_default {||} (dx_obligation_by_intent (rn_derived run)) intent_id
      in rfold (update_one_obligation resolved) (sorted_list_of_fset obligation_ids) run)"

definition apply_effect_transitioned ::
  "run_projection \<Rightarrow> string \<Rightarrow> effect_transition \<Rightarrow> core_error + run_projection" where
  "apply_effect_transitioned run intent_id transition =
     rbind (ok_or NotFound (fmlookup (rn_effects run) intent_id)) (\<lambda>previous.
     rbind (ok_or NotFound (fmlookup (rn_scopes run) (ep_scope_id previous))) (\<lambda>scope.
     rbind (apply_effect_transition previous (sc_status scope) transition) (\<lambda>next.
     rbind (remove_effect_state (rn_derived run) previous (sc_status scope)) (\<lambda>index.
     rbind (add_effect_state index next (sc_status scope)) (\<lambda>index.
     rbind (update_obligation
              (run\<lparr>rn_effects := fmupd intent_id next (rn_effects run), rn_derived := index\<rparr>)
              intent_id) (\<lambda>run.
     Ok (update_world_settlement run)))))))"

definition open_scope_close_index ::
  "run_projection \<Rightarrow> string \<Rightarrow> core_error + open_scope_effect_index" where
  "open_scope_close_index run scope_id =
     rbind (ok_or NotFound (fmlookup (rn_scopes run) scope_id)) (\<lambda>scope.
     if sc_status scope \<noteq> Open then Err IllegalTransition
     else if lookup_default 0 (dx_open_descendants (rn_derived run)) scope_id \<noteq> 0
       then Err IllegalTransition
     else ok_or Validation (fmlookup (dx_open_scope_effects (rn_derived run)) scope_id))"

definition derived_scope_obligations ::
  "host \<Rightarrow> run_projection \<Rightarrow> open_scope_effect_index
   \<Rightarrow> core_error + (string, obligation_projection) fmap" where
  "derived_scope_obligations h run scope_index =
     rfold (\<lambda>intent_id expected.
       rbind (ok_or NotFound (fmlookup (rn_effects run) intent_id)) (\<lambda>effect.
       rbind (obligation_for_effect h effect) (\<lambda>obligation.
       if fmlookup expected (ob_obligation_id obligation) \<noteq> None then Err Validation
       else Ok (fmupd (ob_obligation_id obligation) obligation expected))))
     (oi_mutating_intent_order scope_index) fmempty"

definition index_closed_scope ::
  "run_projection \<Rightarrow> string \<Rightarrow> bool \<Rightarrow> core_error + run_projection" where
  "index_closed_scope run scope_id committed =
     (let parent = (case fmlookup (rn_scopes run) scope_id of
                      None \<Rightarrow> None | Some scope \<Rightarrow> sc_parent_scope scope);
          index = rn_derived run
      in if scope_id |\<notin>| dx_open_scope_ids index then Err Validation
         else
          let index = index\<lparr>dx_open_scope_ids := dx_open_scope_ids index |-| {|scope_id|}\<rparr> in
          rbind (ok_or Validation (fmlookup (dx_open_scope_effects index) scope_id)) (\<lambda>effects.
          let index = index\<lparr>dx_open_scope_effects :=
                              fmdrop scope_id (dx_open_scope_effects index)\<rparr> in
          rbind (if committed
                 then rbind (ok_or Validation (exact_add (dx_committed_effect_count index)
                               (fcard (oi_all_intents effects))))
                        (\<lambda>n. Ok (index\<lparr>dx_committed_effect_count := n\<rparr>))
                 else Ok index) (\<lambda>index.
          case parent of
            None \<Rightarrow> Ok (run\<lparr>rn_derived := index\<rparr>)
          | Some parent_id \<Rightarrow>
              rbind (ok_or Validation (fmlookup (dx_open_descendants index) parent_id)) (\<lambda>count.
              rbind (ok_or Validation (checked_sub count 1)) (\<lambda>count.
              Ok (run\<lparr>rn_derived := index\<lparr>dx_open_descendants :=
                    (if count = 0 then fmdrop parent_id (dx_open_descendants index)
                     else fmupd parent_id count (dx_open_descendants index))\<rparr>\<rparr>))))))"

definition insert_scope_obligation ::
  "open_scope_effect_index \<Rightarrow> obligation_projection \<Rightarrow> run_projection
   \<Rightarrow> core_error + run_projection" where
  "insert_scope_obligation scope_index obligation run =
     (let index = rn_derived run;
          ids = lookup_default {||} (dx_obligation_by_intent index) (ob_intent_id obligation)
      in if ob_intent_id obligation |\<notin>| oi_mutating_intents scope_index
         then Err IllegalTransition
         else if fmlookup (rn_obligations run) (ob_obligation_id obligation) \<noteq> None
         then Err IllegalTransition
         else if ob_obligation_id obligation |\<in>| ids then Err Validation
         else
          let run = run\<lparr>rn_obligations :=
                          fmupd (ob_obligation_id obligation) obligation (rn_obligations run)\<rparr>;
              index = index\<lparr>dx_obligation_by_intent :=
                              fmupd (ob_intent_id obligation)
                                (finsert (ob_obligation_id obligation) ids)
                                (dx_obligation_by_intent index)\<rparr>
          in if ob_blocking obligation \<and> \<not> ob_resolved obligation then
               if ob_obligation_id obligation |\<in>| dx_unresolved_blocking_obligations index
               then Err Validation
               else Ok (run\<lparr>rn_derived := index\<lparr>dx_unresolved_blocking_obligations :=
                              finsert (ob_obligation_id obligation)
                                (dx_unresolved_blocking_obligations index)\<rparr>\<rparr>)
             else Ok (run\<lparr>rn_derived := index\<rparr>))"

definition insert_scope_obligations ::
  "run_projection \<Rightarrow> open_scope_effect_index \<Rightarrow> (string, obligation_projection) fmap
   \<Rightarrow> core_error + run_projection" where
  "insert_scope_obligations run scope_index expected =
     rfold (insert_scope_obligation scope_index) (values_of expected) run"

definition apply_scope_committed ::
  "host \<Rightarrow> run_projection \<Rightarrow> string \<Rightarrow> nat \<Rightarrow> string \<Rightarrow> core_error + run_projection" where
  "apply_scope_committed h run scope_id obligation_count obligation_commitment =
     rbind (open_scope_close_index run scope_id) (\<lambda>scope_index.
     rbind (derived_scope_obligations h run scope_index) (\<lambda>expected.
     rbind (rmap (\<lambda>intent_id. rbind (effect_obligation_id h intent_id) (\<lambda>id.
                    ok_or NotFound (fmlookup expected id)))
             (oi_mutating_intent_order scope_index)) (\<lambda>expected_order.
     rbind (scope_obligation_summary h expected_order) (\<lambda>(expected_count, expected_commitment).
     if obligation_count \<noteq> expected_count \<or> obligation_commitment \<noteq> expected_commitment
     then Err IllegalTransition
     else
      rbind (ok_or NotFound (fmlookup (rn_scopes run) scope_id)) (\<lambda>scope.
      rbind (index_closed_scope
               (run\<lparr>rn_scopes :=
                      fmupd scope_id (scope\<lparr>sc_status := ClosedCommitted\<rparr>) (rn_scopes run)\<rparr>)
               scope_id True) (\<lambda>run.
      insert_scope_obligations run scope_index expected))))))"

definition abort_effect :: "string \<Rightarrow> run_projection \<Rightarrow> core_error + run_projection" where
  "abort_effect intent_id run =
     rbind (ok_or NotFound (fmlookup (rn_effects run) intent_id)) (\<lambda>previous.
     let next = previous\<lparr>ef_phase := CancelledBeforeRelease, ef_outcome := NotApplied,
                         ef_reconciliation := Resolved\<rparr> in
     rbind (remove_effect_state (rn_derived run) previous Open) (\<lambda>index.
     rbind (add_effect_state index next Open) (\<lambda>index.
     Ok (run\<lparr>rn_effects := fmupd intent_id next (rn_effects run), rn_derived := index\<rparr>))))"

definition apply_scope_aborted :: "run_projection \<Rightarrow> string \<Rightarrow> core_error + run_projection" where
  "apply_scope_aborted run scope_id =
     rbind (open_scope_close_index run scope_id) (\<lambda>scope_index.
     if oi_abort_blockers scope_index \<noteq> {||} then Err IllegalTransition else
     rbind (rfold abort_effect
              (sorted_list_of_fset (oi_abort_transition_intents scope_index)) run) (\<lambda>run.
     rbind (ok_or NotFound (fmlookup (rn_scopes run) scope_id)) (\<lambda>scope.
     rbind (index_closed_scope
              (run\<lparr>rn_scopes :=
                     fmupd scope_id (scope\<lparr>sc_status := ClosedAborted\<rparr>) (rn_scopes run)\<rparr>)
              scope_id False) (\<lambda>run.
     Ok (update_world_settlement run)))))"

definition apply_binding_updated ::
  "run_projection \<Rightarrow> string \<Rightarrow> string \<Rightarrow> core_error + run_projection" where
  "apply_binding_updated run previous current =
     (if rn_current_binding_context run \<noteq> previous then Err IllegalTransition
      else Ok (run\<lparr>rn_current_binding_context := current,
                   rn_binding_lineage := rn_binding_lineage run @ [current]\<rparr>))"

definition apply_run_migrated ::
  "run_projection \<Rightarrow> string \<Rightarrow> string \<Rightarrow> string \<Rightarrow> string \<Rightarrow> nat \<Rightarrow> core_error + run_projection" where
  "apply_run_migrated run from_plan to_plan from_binding to_binding target_epoch =
     (if rn_current_plan run \<noteq> from_plan
         \<or> rn_current_binding_context run \<noteq> from_binding
         \<or> dx_active_attempt (rn_derived run) \<noteq> None
         \<or> checked_add (rn_epoch run) 1 \<noteq> Some target_epoch
         \<or> MAX_EXACT_INTEGER < target_epoch
      then Err IllegalTransition
      else Ok (run\<lparr>rn_current_plan := to_plan, rn_current_binding_context := to_binding,
                   rn_plan_lineage := rn_plan_lineage run @ [to_plan],
                   rn_binding_lineage := rn_binding_lineage run @ [to_binding],
                   rn_epoch := target_epoch\<rparr>))"

definition apply_run_completed ::
  "run_projection \<Rightarrow> artifact_ref option \<Rightarrow> core_error + run_projection" where
  "apply_run_completed run result =
     (if dx_active_attempt (rn_derived run) \<noteq> None then Err IllegalTransition
      else if dx_unresolved_blocking_obligations (rn_derived run) \<noteq> {||}
        then Err IllegalTransition
      else if dx_open_scope_ids (rn_derived run) \<noteq> {||} then Err IllegalTransition
      else if settlement (rn_derived run) \<noteq> Settled then Err IllegalTransition
      else Ok (run\<lparr>rn_execution_status := Completed, rn_result := result\<rparr>))"

definition terminate_effect :: "string \<Rightarrow> run_projection \<Rightarrow> core_error + run_projection" where
  "terminate_effect intent_id run =
     rbind (ok_or Validation (fmlookup (rn_effects run) intent_id)) (\<lambda>previous.
     rbind (ok_or Validation (fmlookup (rn_scopes run) (ep_scope_id previous))) (\<lambda>scope.
     let next = terminalized_effect previous in
     rbind (remove_effect_state (rn_derived run) previous (sc_status scope)) (\<lambda>index.
     rbind (add_effect_state index next (sc_status scope)) (\<lambda>index.
     Ok (run\<lparr>rn_effects := fmupd intent_id next (rn_effects run), rn_derived := index\<rparr>)))))"

definition close_aborted :: "string \<Rightarrow> run_projection \<Rightarrow> core_error + run_projection" where
  "close_aborted scope_id run =
     rbind (ok_or Validation (fmlookup (rn_scopes run) scope_id)) (\<lambda>scope.
     Ok (run\<lparr>rn_scopes := fmupd scope_id (scope\<lparr>sc_status := ClosedAborted\<rparr>) (rn_scopes run)\<rparr>))"

definition terminate_attempt :: "run_projection \<Rightarrow> core_error + run_projection" where
  "terminate_attempt run =
     (case dx_active_attempt (rn_derived run) of
        None \<Rightarrow> Ok run
      | Some attempt_id \<Rightarrow>
          rbind (ok_or Validation (fmlookup (rn_attempts run) attempt_id)) (\<lambda>attempt.
          Ok (run\<lparr>rn_attempts :=
                    fmupd attempt_id (attempt\<lparr>at_active := False\<rparr>) (rn_attempts run),
                  rn_derived := (rn_derived run)\<lparr>dx_active_attempt := None\<rparr>\<rparr>)))"

definition terminate_run_execution :: "run_projection \<Rightarrow> nat \<Rightarrow> core_error + run_projection" where
  "terminate_run_execution run epoch =
     rbind (ok_or IllegalTransition (exact_add (rn_epoch run) 1)) (\<lambda>expected.
     if epoch \<noteq> expected then Err IllegalTransition else
     rbind (terminate_attempt (run\<lparr>rn_epoch := epoch\<rparr>)) (\<lambda>run.
     let transition_effects =
           sorted_list_of_fset (dx_terminal_transition_effects (rn_derived run)) in
     rbind (rfold terminate_effect transition_effects run) (\<lambda>run.
     rbind (rfold (\<lambda>intent_id run. update_obligation run intent_id) transition_effects run) (\<lambda>run.
     let open_scope_ids = sorted_list_of_fset (dx_open_scope_ids (rn_derived run));
         run = run\<lparr>rn_derived := (rn_derived run)\<lparr>dx_open_scope_ids := {||}\<rparr>\<rparr> in
     rbind (rfold close_aborted open_scope_ids run) (\<lambda>run.
     Ok (update_world_settlement
       (run\<lparr>rn_derived := (rn_derived run)
          \<lparr>dx_open_scope_effects := fmempty, dx_open_descendants := fmempty\<rparr>\<rparr>)))))))"

section \<open>The reducer\<close>

definition verify_run_event_gate ::
  "run_execution_status \<Rightarrow> event_payload \<Rightarrow> core_error + unit" where
  "verify_run_event_gate status payload =
     (let terminal_reconciliation =
            (case status of Failed _ \<Rightarrow> True | Cancelled _ \<Rightarrow> True | _ \<Rightarrow> False)
            \<and> (case payload of EffectTransitioned _ (Reconcile _) \<Rightarrow> True | _ \<Rightarrow> False)
      in if status \<noteq> Active \<and> \<not> terminal_reconciliation then Err IllegalTransition
         else Ok ())"

definition apply_run_payload ::
  "host \<Rightarrow> run_projection \<Rightarrow> event \<Rightarrow> core_error + run_projection" where
  "apply_run_payload h run event =
     (case ev_payload event of
        RunStarted _ _ _ _ \<Rightarrow> Ok run
      | FactRecorded _ _ \<Rightarrow> Ok run
      | AttemptStarted attempt_id continuation_id occurrence_binding epoch fence \<Rightarrow>
          apply_attempt_started run attempt_id continuation_id occurrence_binding epoch fence
      | AttemptYielded attempt_id epoch fence \<Rightarrow> apply_attempt_yielded run attempt_id epoch fence
      | EpochAdvanced epoch \<Rightarrow> apply_epoch_advanced run epoch
      | ScopeOpened scope_id parent_scope invocation_id path definition_id region_path site_id \<Rightarrow>
          apply_scope_opened run scope_id parent_scope invocation_id path definition_id
            region_path site_id
      | EffectProposed p \<Rightarrow> apply_effect_proposed h run (ev_run_id event) p
      | EffectTransitioned intent_id transition \<Rightarrow>
          apply_effect_transitioned run intent_id transition
      | ScopeCommitted scope_id count commitment \<Rightarrow>
          apply_scope_committed h run scope_id count commitment
      | ScopeAborted scope_id \<Rightarrow> apply_scope_aborted run scope_id
      | BindingUpdated previous current \<Rightarrow> apply_binding_updated run previous current
      | RunMigrated from_plan to_plan from_binding to_binding _ target_epoch _ \<Rightarrow>
          apply_run_migrated run from_plan to_plan from_binding to_binding target_epoch
      | RunCompleted result \<Rightarrow> apply_run_completed run result
      | RunFailed failure epoch \<Rightarrow>
          rbind (terminate_run_execution run epoch)
            (\<lambda>run. Ok (run\<lparr>rn_execution_status := Failed failure\<rparr>))
      | RunCancelled reason epoch \<Rightarrow>
          rbind (terminate_run_execution run epoch)
            (\<lambda>run. Ok (run\<lparr>rn_execution_status := Cancelled reason\<rparr>)))"

definition ensure_projection_derived_index ::
  "projection \<Rightarrow> event \<Rightarrow> core_error + projection" where
  "ensure_projection_derived_index projection event =
     (case fmlookup (pj_runs projection) (ev_run_id event) of
        None \<Rightarrow> Ok projection
      | Some run \<Rightarrow>
          if dx_initialized (rn_derived run) then Ok projection
          else rbind (rebuild run) (\<lambda>index.
               Ok (projection\<lparr>pj_runs :=
                     fmupd (ev_run_id event) (run\<lparr>rn_derived := index\<rparr>) (pj_runs projection)\<rparr>)))"

definition apply_projection_global_event ::
  "host \<Rightarrow> projection \<Rightarrow> event \<Rightarrow> core_error + (bool \<times> projection)" where
  "apply_projection_global_event h projection event =
     (case ev_payload event of
        RunStarted plan_id entry_definition binding_context _ \<Rightarrow>
          rbind (apply_run_started h projection event plan_id entry_definition binding_context)
            (\<lambda>projection. Ok (True, projection))
      | FactRecorded key value \<Rightarrow>
          (case fmlookup (pj_facts projection) key of
             Some existing \<Rightarrow>
               if existing \<noteq> value then Err IllegalTransition else Ok (False, projection)
           | None \<Rightarrow> Ok (False, projection\<lparr>pj_facts := fmupd key value (pj_facts projection)\<rparr>))
      | _ \<Rightarrow> Ok (False, projection))"

definition apply_event :: "host \<Rightarrow> projection \<Rightarrow> event \<Rightarrow> core_error + projection" where
  "apply_event h projection event =
     rbind (ensure_projection_derived_index projection event) (\<lambda>projection.
     rbind (apply_projection_global_event h projection event) (\<lambda>(finished, projection).
     if finished then Ok projection
     else
      rbind (ok_or NotFound (fmlookup (pj_runs projection) (ev_run_id event))) (\<lambda>run.
      rbind (verify_run_event_gate (rn_execution_status run) (ev_payload event)) (\<lambda>_.
      rbind (apply_run_payload h run event) (\<lambda>run.
      Ok (projection\<lparr>pj_runs := fmupd (ev_run_id event)
            (run\<lparr>rn_last_event := ev_event_id event\<rparr>) (pj_runs projection)\<rparr>))))))"

text \<open>Replaying an ordered Event history.\<close>

definition reduce_events :: "host \<Rightarrow> event list \<Rightarrow> core_error + projection" where
  "reduce_events h events = rfold (\<lambda>event projection. apply_event h projection event) events
     empty_projection"

end
