(* ===== verification/Reducer_Index.thy ===== *)
theory Reducer_Index
  imports Reducer
begin

text \<open>
  The derived index as a function of the canonical fields: \<open>mk_index\<close> says, component by
  component, what \<^verbatim>\<open>RunDerivedIndex\<close> must contain for given attempts, scopes, effects and
  obligations. The lemmas of this theory show how each index operation of the reducer moves
  from one such index to the next; the event handlers (theory \<^verbatim>\<open>Reducer_Preserve\<close>) and
  \<open>rebuild\<close> (theory \<^verbatim>\<open>Reducer_Rebuild\<close>) both rest on them.
\<close>

section \<open>The index of given canonical fields\<close>

abbreviation effect_at :: "(string, effect_projection) fmap \<Rightarrow> string \<Rightarrow> effect_projection" where
  "effect_at E i \<equiv> the (fmlookup E i)"

definition scope_index ::
  "(string, effect_projection) fmap \<Rightarrow> string list \<Rightarrow> open_scope_effect_index" where
  "scope_index E os =
     (let ms = filter (\<lambda>i. pf_mutation (ep_profile (effect_at E i)) = Mutating) os in
      \<lparr>oi_all_intents = fset_of_list os, oi_all_intent_order = os,
       oi_mutating_intents = fset_of_list ms, oi_mutating_intent_order = ms,
       oi_abort_transition_intents =
         fset_of_list (filter (\<lambda>i. needs_scope_abort_transition (effect_at E i)) os),
       oi_abort_blockers =
         fset_of_list (filter (\<lambda>i. blocks_scope_abort (effect_at E i)) os)\<rparr>)"

definition effects_where ::
  "(effect_projection \<Rightarrow> bool) \<Rightarrow> (string, effect_projection) fmap \<Rightarrow> string fset" where
  "effects_where P E = ffilter (\<lambda>i. P (effect_at E i)) (fmdom E)"

definition active_attempts :: "(string, attempt_projection) fmap \<Rightarrow> string fset" where
  "active_attempts A = ffilter (\<lambda>a. at_active (the (fmlookup A a))) (fmdom A)"

definition active_of :: "(string, attempt_projection) fmap \<Rightarrow> string option" where
  "active_of A = (case sorted_list_of_fset (active_attempts A) of
     [] \<Rightarrow> None | a # _ \<Rightarrow> Some a)"

definition open_scopes :: "(string, scope_projection) fmap \<Rightarrow> string fset" where
  "open_scopes S = ffilter (\<lambda>s. sc_status (the (fmlookup S s)) = Open) (fmdom S)"

definition open_children :: "(string, scope_projection) fmap \<Rightarrow> string \<Rightarrow> string fset" where
  "open_children S p =
     ffilter (\<lambda>s. sc_parent_scope (the (fmlookup S s)) = Some p) (open_scopes S)"

definition obligations_of :: "(string, obligation_projection) fmap \<Rightarrow> string \<Rightarrow> string fset" where
  "obligations_of B i = ffilter (\<lambda>b. ob_intent_id (the (fmlookup B b)) = i) (fmdom B)"

definition unresolved_of :: "(string, obligation_projection) fmap \<Rightarrow> string fset" where
  "unresolved_of B = ffilter (\<lambda>b. ob_blocking (the (fmlookup B b))
                                 \<and> \<not> ob_resolved (the (fmlookup B b))) (fmdom B)"

definition committed_weight :: "scope_projection \<Rightarrow> nat" where
  "committed_weight sc =
     (if sc_status sc = ClosedCommitted then length (sc_intent_order sc) else 0)"

definition committed_effects :: "(string, scope_projection) fmap \<Rightarrow> nat" where
  "committed_effects S = (\<Sum>s\<in>fset (fmdom S). committed_weight (the (fmlookup S s)))"

definition mk_index ::
  "(string, attempt_projection) fmap \<Rightarrow> (string, scope_projection) fmap
   \<Rightarrow> (string, effect_projection) fmap \<Rightarrow> (string, obligation_projection) fmap
   \<Rightarrow> run_derived_index" where
  "mk_index A S E B =
     \<lparr>dx_initialized = True,
      dx_active_attempt = active_of A,
      dx_governance_effects = effects_where (\<lambda>e. effect_settlement_class e = ClassGovernance) E,
      dx_unknown_effects = effects_where (\<lambda>e. effect_settlement_class e = ClassUnknown) E,
      dx_pending_effects = effects_where (\<lambda>e. effect_settlement_class e = ClassPending) E,
      dx_terminal_transition_effects = effects_where needs_terminal_transition E,
      dx_unresolved_blocking_obligations = unresolved_of B,
      dx_obligation_by_intent =
        fmmap_keys (\<lambda>i _. obligations_of B i) (fmfilter (\<lambda>i. obligations_of B i \<noteq> {||}) E),
      dx_open_descendants =
        fmmap_keys (\<lambda>p _. fcard (open_children S p)) (fmfilter (\<lambda>p. open_children S p \<noteq> {||}) S),
      dx_open_scope_ids = open_scopes S,
      dx_open_scope_effects =
        fmmap_keys (\<lambda>_ sc. scope_index E (sc_intent_order sc))
          (fmfilter (\<lambda>s. s |\<in>| open_scopes S) S),
      dx_effect_count_by_scope =
        fmmap_keys (\<lambda>_ sc. length (sc_intent_order sc))
          (fmfilter (\<lambda>s. sc_intent_order (the (fmlookup S s)) \<noteq> []) S),
      dx_committed_effect_count = committed_effects S\<rparr>"

definition run_index :: "run_projection \<Rightarrow> run_derived_index" where
  "run_index run = mk_index (rn_attempts run) (rn_scopes run) (rn_effects run) (rn_obligations run)"

section \<open>Reading the index\<close>

lemma effects_where_iff [simp]:
  "i |\<in>| effects_where P E \<longleftrightarrow> (\<exists>e. fmlookup E i = Some e \<and> P e)"
  by (auto simp: effects_where_def fmlookup_dom_iff)

lemma effects_where_empty_iff:
  "effects_where P E = {||} \<longleftrightarrow> (\<forall>i e. fmlookup E i = Some e \<longrightarrow> \<not> P e)"
  by (metis effects_where_iff fempty_iff fequalityI fsubsetI)

lemma effects_where_upd:
  "effects_where P (fmupd i e E) =
     (if P e then finsert i (effects_where P E) else effects_where P E |-| {|i|})"
  by (rule fset_eqI) (auto split: if_splits)

lemma open_scopes_iff [simp]:
  "s |\<in>| open_scopes S \<longleftrightarrow> (\<exists>sc. fmlookup S s = Some sc \<and> sc_status sc = Open)"
  by (auto simp: open_scopes_def fmlookup_dom_iff)

lemma open_children_iff [simp]:
  "s |\<in>| open_children S p \<longleftrightarrow>
     (\<exists>sc. fmlookup S s = Some sc \<and> sc_status sc = Open \<and> sc_parent_scope sc = Some p)"
  by (auto simp: open_children_def)

lemma obligations_of_iff [simp]:
  "b |\<in>| obligations_of B i \<longleftrightarrow> (\<exists>ob. fmlookup B b = Some ob \<and> ob_intent_id ob = i)"
  by (auto simp: obligations_of_def fmlookup_dom_iff)

lemma unresolved_of_iff [simp]:
  "b |\<in>| unresolved_of B \<longleftrightarrow>
     (\<exists>ob. fmlookup B b = Some ob \<and> ob_blocking ob \<and> \<not> ob_resolved ob)"
  by (auto simp: unresolved_of_def fmlookup_dom_iff)

lemma active_attempts_iff [simp]:
  "a |\<in>| active_attempts A \<longleftrightarrow> (\<exists>t. fmlookup A a = Some t \<and> at_active t)"
  by (auto simp: active_attempts_def fmlookup_dom_iff)

lemma sorted_list_of_fset_empty_iff [simp]: "sorted_list_of_fset F = [] \<longleftrightarrow> F = {||}"
  by (metis fset_of_list_simps(1) set_empty2 sorted_list_of_fset_simps bot_fset.rep_eq fset_inject)

lemma sorted_list_of_fset_empty [simp]: "sorted_list_of_fset {||} = []"
  by simp

lemma active_of_None: "active_of A = None \<longleftrightarrow> (\<forall>a t. fmlookup A a = Some t \<longrightarrow> \<not> at_active t)"
proof -
  have "active_of A = None \<longleftrightarrow> sorted_list_of_fset (active_attempts A) = []"
    by (auto simp only: active_of_def split: list.splits)
  also have "\<dots> \<longleftrightarrow> active_attempts A = {||}"
    by simp
  also have "\<dots> \<longleftrightarrow> (\<forall>a t. fmlookup A a = Some t \<longrightarrow> \<not> at_active t)"
    by (metis active_attempts_iff fempty_iff fequalityI fsubsetI)
  finally show ?thesis .
qed

definition one_active :: "(string, attempt_projection) fmap \<Rightarrow> bool" where
  "one_active A \<longleftrightarrow>
     (\<forall>a b t u. fmlookup A a = Some t \<longrightarrow> at_active t \<longrightarrow>
        fmlookup A b = Some u \<longrightarrow> at_active u \<longrightarrow> a = b)"

lemma active_of_Some:
  assumes "one_active A"
  shows "active_of A = Some a \<longleftrightarrow> (\<exists>t. fmlookup A a = Some t \<and> at_active t)"
proof
  assume "active_of A = Some a"
  then have "a \<in> set (sorted_list_of_fset (active_attempts A))"
    by (auto simp only: active_of_def list.set_intros split: list.splits)
  then have "a |\<in>| active_attempts A" by (simp only: sorted_list_of_fset_simps)
  then show "\<exists>t. fmlookup A a = Some t \<and> at_active t" by simp
next
  assume a: "\<exists>t. fmlookup A a = Some t \<and> at_active t"
  then have "active_attempts A \<noteq> {||}" using active_attempts_iff by (metis fempty_iff)
  then obtain b bs where bs: "sorted_list_of_fset (active_attempts A) = b # bs"
    by (cases "sorted_list_of_fset (active_attempts A)") auto
  then have "b |\<in>| active_attempts A"
    by (metis list.set_intros(1) sorted_list_of_fset_simps(1))
  with a assms have "b = a" unfolding one_active_def active_attempts_iff by blast
  with bs show "active_of A = Some a" by (simp add: active_of_def)
qed

lemma mk_index_simps [simp]:
  "dx_initialized (mk_index A S E B) = True"
  "dx_active_attempt (mk_index A S E B) = active_of A"
  "dx_governance_effects (mk_index A S E B) =
     effects_where (\<lambda>e. effect_settlement_class e = ClassGovernance) E"
  "dx_unknown_effects (mk_index A S E B) =
     effects_where (\<lambda>e. effect_settlement_class e = ClassUnknown) E"
  "dx_pending_effects (mk_index A S E B) =
     effects_where (\<lambda>e. effect_settlement_class e = ClassPending) E"
  "dx_terminal_transition_effects (mk_index A S E B) = effects_where needs_terminal_transition E"
  "dx_unresolved_blocking_obligations (mk_index A S E B) = unresolved_of B"
  "dx_open_scope_ids (mk_index A S E B) = open_scopes S"
  "dx_committed_effect_count (mk_index A S E B) = committed_effects S"
  by (simp_all add: mk_index_def)

lemma mk_index_lookups [simp]:
  "fmlookup (dx_obligation_by_intent (mk_index A S E B)) i =
     (if fmlookup E i = None \<or> obligations_of B i = {||} then None else Some (obligations_of B i))"
  "fmlookup (dx_open_descendants (mk_index A S E B)) p =
     (if fmlookup S p = None \<or> open_children S p = {||} then None
      else Some (fcard (open_children S p)))"
  "fmlookup (dx_open_scope_effects (mk_index A S E B)) s =
     (if s |\<in>| open_scopes S then Some (scope_index E (sc_intent_order (the (fmlookup S s))))
      else None)"
  "fmlookup (dx_effect_count_by_scope (mk_index A S E B)) s =
     (case fmlookup S s of None \<Rightarrow> None
      | Some sc \<Rightarrow> if sc_intent_order sc = [] then None else Some (length (sc_intent_order sc)))"
  by (auto simp: mk_index_def split: option.splits)

text \<open>Two indexes are equal when every component agrees, maps pointwise.\<close>

lemma index_eqI:
  assumes "dx_initialized d = dx_initialized d'"
    and "dx_active_attempt d = dx_active_attempt d'"
    and "dx_governance_effects d = dx_governance_effects d'"
    and "dx_unknown_effects d = dx_unknown_effects d'"
    and "dx_pending_effects d = dx_pending_effects d'"
    and "dx_terminal_transition_effects d = dx_terminal_transition_effects d'"
    and "dx_unresolved_blocking_obligations d = dx_unresolved_blocking_obligations d'"
    and "\<And>k. fmlookup (dx_obligation_by_intent d) k = fmlookup (dx_obligation_by_intent d') k"
    and "\<And>k. fmlookup (dx_open_descendants d) k = fmlookup (dx_open_descendants d') k"
    and "dx_open_scope_ids d = dx_open_scope_ids d'"
    and "\<And>k. fmlookup (dx_open_scope_effects d) k = fmlookup (dx_open_scope_effects d') k"
    and "\<And>k. fmlookup (dx_effect_count_by_scope d) k = fmlookup (dx_effect_count_by_scope d') k"
    and "dx_committed_effect_count d = dx_committed_effect_count d'"
  shows "d = (d' :: run_derived_index)"
  using assms by (intro run_derived_index.equality fmap_ext) simp_all

lemma mk_index_cong_effects:
  assumes "\<And>i. fmlookup E i = fmlookup E' i"
  shows "mk_index A S E B = mk_index A S E' B"
  using assms fmap_ext by blast

end
