(* ===== verification/Reducer_Moves.thy ===== *)
theory Reducer_Moves
  imports Reducer_Index
begin

text \<open>
  How each index operation of the reducer moves from the index of one set of canonical fields
  to the index of the next: registering an Effect, replacing an Effect's state, opening and
  closing a scope, inserting and updating obligations, and starting and ending attempts.
\<close>

section \<open>Updates of the canonical maps\<close>

lemma open_scopes_upd:
  "open_scopes (fmupd s sc S) =
     (if sc_status sc = Open then finsert s (open_scopes S) else open_scopes S |-| {|s|})"
  by (rule fset_eqI) (auto split: if_splits)

lemma open_children_upd:
  "open_children (fmupd s sc S) p =
     (if sc_status sc = Open \<and> sc_parent_scope sc = Some p then finsert s (open_children S p)
      else open_children S p |-| {|s|})"
  by (rule fset_eqI) (auto split: if_splits)

lemma open_scopes_same:
  "fmlookup S s = Some sc \<Longrightarrow> sc_status sc' = sc_status sc
   \<Longrightarrow> open_scopes (fmupd s sc' S) = open_scopes S"
  by (rule fset_eqI) auto

lemma open_children_same:
  "fmlookup S s = Some sc \<Longrightarrow> sc_status sc' = sc_status sc
   \<Longrightarrow> sc_parent_scope sc' = sc_parent_scope sc
   \<Longrightarrow> open_children (fmupd s sc' S) p = open_children S p"
  by (rule fset_eqI) auto

lemma committed_effects_fresh:
  assumes "fmlookup S s = None"
  shows "committed_effects (fmupd s sc S) = committed_effects S + committed_weight sc"
proof -
  have "s \<notin> fset (fmdom S)" using assms by (simp add: fmdom_notI)
  moreover have "(\<Sum>t\<in>fset (fmdom S). committed_weight (the (fmlookup (fmupd s sc S) t)))
      = committed_effects S"
    unfolding committed_effects_def using calculation by (intro sum.cong) auto
  ultimately show ?thesis by (simp add: committed_effects_def)
qed

lemma committed_effects_drop:
  assumes "fmlookup S s = Some sc"
  shows "committed_effects (fmdrop s S) + committed_weight sc = committed_effects S"
proof -
  have "fmupd s sc (fmdrop s S) = S" using assms by (intro fmap_ext) auto
  then show ?thesis using committed_effects_fresh [of "fmdrop s S" s sc] by simp
qed

lemma committed_effects_upd:
  assumes "fmlookup S s = Some sc"
  shows "committed_effects (fmupd s sc' S) + committed_weight sc
       = committed_effects S + committed_weight sc'"
proof -
  have "fmupd s sc' (fmdrop s S) = fmupd s sc' S" by (intro fmap_ext) auto
  then show ?thesis
    using committed_effects_fresh [of "fmdrop s S" s sc'] committed_effects_drop [OF assms] by simp
qed

lemma filter_effect_at_other [simp]:
  "i \<notin> set os \<Longrightarrow> filter (\<lambda>j. P (effect_at (fmupd i e E) j)) os = filter (\<lambda>j. P (effect_at E j)) os"
  by (rule filter_cong) auto

lemma scope_index_other [simp]: "i \<notin> set os \<Longrightarrow> scope_index (fmupd i e E) os = scope_index E os"
  unfolding scope_index_def by (subst filter_effect_at_other, assumption)+ (rule refl)

lemma scope_index_Nil [simp]: "scope_index E [] = open_scope_effect_index_default"
  by (simp add: scope_index_def open_scope_effect_index_default_def)

lemma scope_index_simps [simp]:
  "oi_all_intents (scope_index E os) = fset_of_list os"
  "oi_all_intent_order (scope_index E os) = os"
  "oi_mutating_intent_order (scope_index E os) =
     filter (\<lambda>i. pf_mutation (ep_profile (effect_at E i)) = Mutating) os"
  "oi_mutating_intents (scope_index E os) =
     fset_of_list (filter (\<lambda>i. pf_mutation (ep_profile (effect_at E i)) = Mutating) os)"
  "oi_abort_transition_intents (scope_index E os) =
     fset_of_list (filter (\<lambda>i. needs_scope_abort_transition (effect_at E i)) os)"
  "oi_abort_blockers (scope_index E os) =
     fset_of_list (filter (\<lambda>i. blocks_scope_abort (effect_at E i)) os)"
  by (simp_all add: scope_index_def Let_def)

lemma fset_of_list_append_single [simp]:
  "fset_of_list (xs @ [x]) = finsert x (fset_of_list xs)"
  by (rule fset_eqI) (auto simp: fset_of_list_elem)

section \<open>Closed forms of the index operations\<close>

abbreviation mark :: "bool \<Rightarrow> 'a \<Rightarrow> 'a fset \<Rightarrow> 'a fset" where
  "mark c x F \<equiv> (if c then finsert x F else F)"

lemma add_effect_state_eq:
  assumes "\<not> settled_elsewhere d (ep_intent_id e)"
    and "st = Open \<Longrightarrow> fmlookup (dx_open_scope_effects d) (ep_scope_id e) = Some os"
  shows "add_effect_state d e st = Ok (d\<lparr>
     dx_governance_effects := mark (effect_settlement_class e = ClassGovernance) (ep_intent_id e)
       (dx_governance_effects d),
     dx_unknown_effects := mark (effect_settlement_class e = ClassUnknown) (ep_intent_id e)
       (dx_unknown_effects d),
     dx_pending_effects := mark (effect_settlement_class e = ClassPending) (ep_intent_id e)
       (dx_pending_effects d),
     dx_terminal_transition_effects := mark (needs_terminal_transition e) (ep_intent_id e)
       (dx_terminal_transition_effects d),
     dx_open_scope_effects := (if st = Open then fmupd (ep_scope_id e)
       (os\<lparr>oi_abort_transition_intents := mark (needs_scope_abort_transition e) (ep_intent_id e)
             (oi_abort_transition_intents os),
           oi_abort_blockers := mark (blocks_scope_abort e) (ep_intent_id e)
             (oi_abort_blockers os)\<rparr>)
       (dx_open_scope_effects d) else dx_open_scope_effects d)\<rparr>)"
  using assms
  by (cases "effect_settlement_class e")
    (auto simp: add_effect_state_def insert_settlement_def Let_def
      needs_scope_abort_transition_def blocks_scope_abort_def)

lemma remove_effect_state_eq:
  assumes "effect_settlement_class e = ClassGovernance \<Longrightarrow> ep_intent_id e |\<in>| dx_governance_effects d"
    and "effect_settlement_class e = ClassUnknown \<Longrightarrow> ep_intent_id e |\<in>| dx_unknown_effects d"
    and "effect_settlement_class e = ClassPending \<Longrightarrow> ep_intent_id e |\<in>| dx_pending_effects d"
    and "st = Open \<Longrightarrow> fmlookup (dx_open_scope_effects d) (ep_scope_id e) = Some os"
  shows "remove_effect_state d e st = Ok (d\<lparr>
     dx_governance_effects := (if effect_settlement_class e = ClassGovernance
       then dx_governance_effects d |-| {|ep_intent_id e|} else dx_governance_effects d),
     dx_unknown_effects := (if effect_settlement_class e = ClassUnknown
       then dx_unknown_effects d |-| {|ep_intent_id e|} else dx_unknown_effects d),
     dx_pending_effects := (if effect_settlement_class e = ClassPending
       then dx_pending_effects d |-| {|ep_intent_id e|} else dx_pending_effects d),
     dx_terminal_transition_effects := dx_terminal_transition_effects d |-| {|ep_intent_id e|},
     dx_open_scope_effects := (if st = Open then fmupd (ep_scope_id e)
       (os\<lparr>oi_abort_transition_intents := oi_abort_transition_intents os |-| {|ep_intent_id e|},
           oi_abort_blockers := oi_abort_blockers os |-| {|ep_intent_id e|}\<rparr>)
       (dx_open_scope_effects d) else dx_open_scope_effects d)\<rparr>)"
  using assms
  by (cases "effect_settlement_class e")
    (auto simp: remove_effect_state_def remove_settlement_def Let_def)

lemma register_open_scope_index:
  assumes "ep_intent_id e = i" "i \<notin> set os"
  shows "register_open e (scope_index E os) = Ok ((scope_index E os)
     \<lparr>oi_all_intents := finsert i (fset_of_list os), oi_all_intent_order := os @ [i],
      oi_mutating_intents := mark (pf_mutation (ep_profile e) = Mutating) i
        (oi_mutating_intents (scope_index E os)),
      oi_mutating_intent_order := (if pf_mutation (ep_profile e) = Mutating
        then oi_mutating_intent_order (scope_index E os) @ [i]
        else oi_mutating_intent_order (scope_index E os))\<rparr>)"
  using assms by (simp add: register_open_def Let_def fset_of_list_elem)

lemma scope_index_snoc:
  assumes "i \<notin> set os"
  shows "scope_index (fmupd i e E) (os @ [i]) = (scope_index E os)
     \<lparr>oi_all_intents := finsert i (fset_of_list os), oi_all_intent_order := os @ [i],
      oi_mutating_intents := mark (pf_mutation (ep_profile e) = Mutating) i
        (oi_mutating_intents (scope_index E os)),
      oi_mutating_intent_order := (if pf_mutation (ep_profile e) = Mutating
        then oi_mutating_intent_order (scope_index E os) @ [i]
        else oi_mutating_intent_order (scope_index E os)),
      oi_abort_transition_intents := mark (needs_scope_abort_transition e) i
        (oi_abort_transition_intents (scope_index E os)),
      oi_abort_blockers := mark (blocks_scope_abort e) i (oi_abort_blockers (scope_index E os))\<rparr>"
  by (rule open_scope_effect_index.equality)
    (use assms in \<open>auto intro!: fset_eqI filter_cong simp: fset_of_list_elem\<close>)

lemma scope_index_replace:
  assumes "distinct os" "i \<in> set os" "ep_profile e' = ep_profile (effect_at E i)"
  shows "scope_index (fmupd i e' E) os = (scope_index E os)
     \<lparr>oi_abort_transition_intents := mark (needs_scope_abort_transition e') i
        (oi_abort_transition_intents (scope_index E os) |-| {|i|}),
      oi_abort_blockers := mark (blocks_scope_abort e') i
        (oi_abort_blockers (scope_index E os) |-| {|i|})\<rparr>"
  by (rule open_scope_effect_index.equality)
    (use assms in \<open>auto intro!: fset_eqI filter_cong simp: fset_of_list_elem\<close>)

lemma minus_absent: "x |\<notin>| F \<Longrightarrow> F |-| {|x|} = F"
  by (rule fset_eqI) auto

section \<open>Registering an Effect\<close>

lemma register_effect_index:
  assumes S: "fmlookup S s = Some sc"
    and e: "ep_intent_id e = i" "ep_scope_id e = s"
    and sc': "sc_status sc' = sc_status sc" "sc_parent_scope sc' = sc_parent_scope sc"
      "sc_intent_order sc' = sc_intent_order sc @ [i]"
    and fresh: "fmlookup E i = None" "obligations_of B i = {||}"
      "\<And>t u. fmlookup S t = Some u \<Longrightarrow> i \<notin> set (sc_intent_order u)"
    and small: "length (sc_intent_order sc) + 1 < 2 ^ 64"
      "sc_status sc = ClosedCommitted \<Longrightarrow> committed_effects S + 1 \<le> MAX_EXACT_INTEGER"
  shows "register_effect (mk_index A S E B) e (sc_status sc)
       = Ok (mk_index A (fmupd s sc' S) (fmupd i e E) B)"
proof -
  let ?d = "mk_index A S E B"
  let ?os = "sc_intent_order sc"
  have fi: "i \<notin> set ?os" using fresh(3) [OF S] .
  have weight: "committed_effects (fmupd s sc' S) =
      (if sc_status sc = ClosedCommitted then committed_effects S + 1 else committed_effects S)"
    using committed_effects_upd [OF S, of sc'] sc'
    by (auto simp: committed_weight_def split: if_splits)
  have count: "lookup_default 0 (dx_effect_count_by_scope ?d) s = length ?os"
    using S by (auto simp: lookup_default_def)
  define d where "d = ?d\<lparr>dx_effect_count_by_scope :=
        fmupd s (length ?os + 1) (dx_effect_count_by_scope ?d),
      dx_committed_effect_count := committed_effects (fmupd s sc' S),
      dx_open_scope_effects := (if sc_status sc = Open then fmupd s
        ((scope_index E ?os)
          \<lparr>oi_all_intents := finsert i (fset_of_list ?os), oi_all_intent_order := ?os @ [i],
           oi_mutating_intents := mark (pf_mutation (ep_profile e) = Mutating) i
             (oi_mutating_intents (scope_index E ?os)),
           oi_mutating_intent_order := (if pf_mutation (ep_profile e) = Mutating
             then oi_mutating_intent_order (scope_index E ?os) @ [i]
             else oi_mutating_intent_order (scope_index E ?os))\<rparr>)
        (dx_open_scope_effects ?d) else dx_open_scope_effects ?d)\<rparr>"
  have "register_effect ?d e (sc_status sc) = add_effect_state d e (sc_status sc)"
    using small S unfolding d_def
    by (cases "sc_status sc"; simp add: register_effect_def count e Let_def weight
        register_open_scope_index [OF e(1) fi]; simp add: mk_index_def)
  also have "\<dots> = Ok (mk_index A (fmupd s sc' S) (fmupd i e E) B)"
  proof (subst add_effect_state_eq)
    show "\<not> settled_elsewhere d (ep_intent_id e)"
      using fresh(1) by (simp add: d_def settled_elsewhere_def e)
    show "fmlookup (dx_open_scope_effects d) (ep_scope_id e)
        = Some (the (fmlookup (dx_open_scope_effects d) (ep_scope_id e)))"
      if "sc_status sc = Open" using that by (simp add: d_def e)
  qed (rule arg_cong [where f = Inr], rule index_eqI; use S fi fresh in \<open>auto simp: d_def e sc' effects_where_upd
      open_scopes_same [OF S] open_children_same [OF S] scope_index_snoc\<close>)
  finally show ?thesis .
qed

lemma register_effect_bounds:
  assumes "register_effect (mk_index A S E B) e st = Ok d" "fmlookup S (ep_scope_id e) = Some sc"
  shows "length (sc_intent_order sc) + 1 < 2 ^ 64"
  using assms by (auto simp: register_effect_def lookup_default_def split: if_splits)

section \<open>Replacing an Effect's state\<close>

lemma replace_effect_index:
  assumes E: "fmlookup E i = Some e"
    and S: "fmlookup S s = Some sc"
    and e: "ep_intent_id e = i" "ep_scope_id e = s"
    and e': "ep_intent_id e' = i" "ep_scope_id e' = s" "ep_profile e' = ep_profile e"
    and order: "distinct (sc_intent_order sc)" "i \<in> set (sc_intent_order sc)"
    and only: "\<And>t u. fmlookup S t = Some u \<Longrightarrow> i \<in> set (sc_intent_order u) \<Longrightarrow> t = s"
  shows "rbind (remove_effect_state (mk_index A S E B) e (sc_status sc))
           (\<lambda>d. add_effect_state d e' (sc_status sc))
       = Ok (mk_index A S (fmupd i e' E) B)"
proof -
  let ?d = "mk_index A S E B" and ?os = "scope_index E (sc_intent_order sc)"
  define d where "d = ?d\<lparr>
     dx_governance_effects := (if effect_settlement_class e = ClassGovernance
       then dx_governance_effects ?d |-| {|i|} else dx_governance_effects ?d),
     dx_unknown_effects := (if effect_settlement_class e = ClassUnknown
       then dx_unknown_effects ?d |-| {|i|} else dx_unknown_effects ?d),
     dx_pending_effects := (if effect_settlement_class e = ClassPending
       then dx_pending_effects ?d |-| {|i|} else dx_pending_effects ?d),
     dx_terminal_transition_effects := dx_terminal_transition_effects ?d |-| {|i|},
     dx_open_scope_effects := (if sc_status sc = Open then fmupd s
       (?os\<lparr>oi_abort_transition_intents := oi_abort_transition_intents ?os |-| {|i|},
           oi_abort_blockers := oi_abort_blockers ?os |-| {|i|}\<rparr>)
       (dx_open_scope_effects ?d) else dx_open_scope_effects ?d)\<rparr>"
  have scopes: "fmlookup (dx_open_scope_effects (mk_index A S (fmupd i e' E) B)) t =
      (if t = s \<and> sc_status sc = Open
       then Some (?os\<lparr>oi_abort_transition_intents := mark (needs_scope_abort_transition e') i
                      (oi_abort_transition_intents ?os |-| {|i|}),
                    oi_abort_blockers := mark (blocks_scope_abort e') i
                      (oi_abort_blockers ?os |-| {|i|})\<rparr>)
       else fmlookup (dx_open_scope_effects ?d) t)" for t
  proof (cases "t = s")
    case True
    then show ?thesis using S order E e'(3) by (simp add: scope_index_replace)
  next
    case False
    then have "scope_index (fmupd i e' E) (sc_intent_order u) = scope_index E (sc_intent_order u)"
      if "fmlookup S t = Some u" for u using that only by (intro scope_index_other) auto
    with False show ?thesis by auto
  qed
  have "remove_effect_state ?d e (sc_status sc) = Ok d"
    unfolding d_def e [symmetric]
    by (rule remove_effect_state_eq) (use E S e in auto)
  moreover have "add_effect_state d e' (sc_status sc) = Ok (mk_index A S (fmupd i e' E) B)"
  proof (subst add_effect_state_eq)
    show "\<not> settled_elsewhere d (ep_intent_id e')"
      using E e by (auto simp: d_def settled_elsewhere_def e')
    show "fmlookup (dx_open_scope_effects d) (ep_scope_id e')
        = Some (the (fmlookup (dx_open_scope_effects d) (ep_scope_id e')))"
      if "sc_status sc = Open" using that by (simp add: d_def e')
  qed (rule arg_cong [where f = Inr], rule index_eqI;
      use S E in \<open>auto simp: d_def e' effects_where_upd minus_absent scopes
        simp del: mk_index_lookups(3)\<close>)
  ultimately show ?thesis by simp
qed

section \<open>Opening and closing scopes\<close>

lemma index_opened_scope_index:
  assumes d: "rn_derived run = mk_index A S E B" and scopes: "rn_scopes run = fmupd s sc S"
    and fresh: "fmlookup S s = None" "open_children S s = {||}"
    and sc: "sc_status sc = Open" "sc_parent_scope sc = Some p" "sc_intent_order sc = []"
    and p: "fmlookup S p \<noteq> None"
  shows "index_opened_scope run s =
     (if fcard (open_children S p) + 1 \<le> MAX_EXACT_INTEGER
      then Ok (run\<lparr>rn_derived := mk_index A (fmupd s sc S) E B\<rparr>) else Err Validation)"
proof -
  have count: "lookup_default 0 (dx_open_descendants (mk_index A S E B)) p = fcard (open_children S p)"
    using p by (auto simp: lookup_default_def)
  have new: "s |\<notin>| open_children S p" using fresh(1) by simp
  have ps: "p \<noteq> s" using p fresh(1) by auto
  have "mk_index A S E B\<lparr>dx_open_scope_ids := finsert s (open_scopes S),
      dx_open_scope_effects := fmupd s open_scope_effect_index_default
        (dx_open_scope_effects (mk_index A S E B)),
      dx_open_descendants := fmupd p (fcard (open_children S p) + 1)
        (dx_open_descendants (mk_index A S E B))\<rparr>
    = mk_index A (fmupd s sc S) E B" (is "?l = ?r")
    by (rule index_eqI)
      (use fresh sc p new ps in \<open>auto simp: open_scopes_upd open_children_upd
        committed_effects_fresh committed_weight_def fcard_finsert_disjoint
        split: option.splits\<close>)
  then show ?thesis
    using fresh by (simp add: index_opened_scope_def d scopes sc count Let_def)
qed

lemma fcard_order: "distinct xs \<Longrightarrow> fcard (fset_of_list xs) = length xs"
  by (simp add: fcard.rep_eq fset_of_list.rep_eq distinct_card)

lemma index_closed_scope_index:
  assumes d: "rn_derived run = mk_index A S E B" and scopes: "rn_scopes run = fmupd s sc' S"
    and S: "fmlookup S s = Some sc" "sc_status sc = Open" "open_children S s = {||}"
    and sc': "sc_status sc' = (if committed then ClosedCommitted else ClosedAborted)"
      "sc_parent_scope sc' = sc_parent_scope sc" "sc_intent_order sc' = sc_intent_order sc"
      "distinct (sc_intent_order sc)"
    and p: "\<And>p. sc_parent_scope sc = Some p \<Longrightarrow> fmlookup S p \<noteq> None"
  shows "index_closed_scope run s committed =
     (if committed \<and> MAX_EXACT_INTEGER < committed_effects S + length (sc_intent_order sc)
      then Err Validation
      else Ok (run\<lparr>rn_derived := mk_index A (fmupd s sc' S) E B\<rparr>))"
proof -
  let ?d = "mk_index A S E B"
  have weight: "committed_effects (fmupd s sc' S) =
      (if committed then committed_effects S + length (sc_intent_order sc) else committed_effects S)"
    using committed_effects_upd [OF S(1), of sc'] S(2) sc'
    by (auto simp: committed_weight_def split: if_splits)
  have child: "s |\<in>| open_children S q \<longleftrightarrow> sc_parent_scope sc = Some q" for q using S by auto
  have down: "fmlookup (dx_open_descendants (mk_index A (fmupd s sc' S) E B)) q =
      (if sc_parent_scope sc = Some q
       then (if fcard (open_children S q) - 1 = 0 then None else Some (fcard (open_children S q) - 1))
       else fmlookup (dx_open_descendants ?d) q)" for q
  proof (cases "sc_parent_scope sc = Some q")
    case True
    then have s: "s |\<in>| open_children S q" using child by simp
    then have "fcard (open_children S q |-| {|s|}) = fcard (open_children S q) - 1"
      by (simp add: fcard_fminus_fsingleton)
    moreover have "fcard (open_children S q |-| {|s|}) = 0 \<longleftrightarrow> open_children S q |-| {|s|} = {||}"
      by (rule fcard_0_eq)
    ultimately show ?thesis using True p [OF True] sc'(1) by (auto simp: open_children_upd)
  next
    case False
    then have "s |\<notin>| open_children S q" using child by simp
    then show ?thesis using False sc'(1) S by (auto simp: open_children_upd minus_absent)
  qed
  show ?thesis
  proof (cases "sc_parent_scope sc")
    case None
    have eq: "?d\<lparr>dx_open_scope_ids := open_scopes S |-| {|s|},
        dx_open_scope_effects := fmdrop s (dx_open_scope_effects ?d),
        dx_committed_effect_count := committed_effects (fmupd s sc' S)\<rparr>
      = mk_index A (fmupd s sc' S) E B"
      by (rule index_eqI) (use S sc' None in \<open>auto simp: open_scopes_upd down
        simp del: mk_index_lookups(2) split: option.splits\<close>)
    show ?thesis
      unfolding index_closed_scope_def d scopes Let_def eq [symmetric]
      by (cases committed; simp add: S sc' None weight fcard_order; simp add: mk_index_def)
  next
    case (Some q)
    then have eq: "?d\<lparr>dx_open_scope_ids := open_scopes S |-| {|s|},
        dx_open_scope_effects := fmdrop s (dx_open_scope_effects ?d),
        dx_committed_effect_count := committed_effects (fmupd s sc' S),
        dx_open_descendants := (if fcard (open_children S q) - 1 = 0
            then fmdrop q (dx_open_descendants ?d)
            else fmupd q (fcard (open_children S q) - 1) (dx_open_descendants ?d))\<rparr>
      = mk_index A (fmupd s sc' S) E B"
      by (intro index_eqI) (use S sc' in \<open>auto simp: open_scopes_upd down
        simp del: mk_index_lookups(2) split: option.splits\<close>)
    have "s |\<in>| open_children S q" using Some child by simp
    then have ne: "open_children S q \<noteq> {||}" by (metis fempty_iff)
    then obtain n where n: "fcard (open_children S q) = Suc n" by (metis fcard_0_eq not0_implies_Suc)
    have found: "fmlookup (dx_open_descendants ?d) q = Some (Suc n)"
      using ne p [OF Some] n by simp
    show ?thesis
      unfolding index_closed_scope_def d scopes Let_def eq [symmetric] n
      by (cases committed; simp add: S sc' Some weight fcard_order found checked_sub_def
          del: mk_index_lookups(2))
  qed
qed

section \<open>Obligations\<close>

lemma obligations_of_upd:
  "obligations_of (fmupd b ob B) i =
     (if ob_intent_id ob = i then finsert b (obligations_of B i) else obligations_of B i |-| {|b|})"
  by (rule fset_eqI) (auto split: if_splits)

lemma unresolved_of_upd:
  "unresolved_of (fmupd b ob B) =
     (if ob_blocking ob \<and> \<not> ob_resolved ob then finsert b (unresolved_of B)
      else unresolved_of B |-| {|b|})"
  by (rule fset_eqI) (auto split: if_splits)

lemma add_obligation_index:
  assumes fresh: "fmlookup B b = None" and i: "fmlookup E (ob_intent_id ob) \<noteq> None"
  shows "mk_index A S E B\<lparr>dx_obligation_by_intent := fmupd (ob_intent_id ob)
        (finsert b (obligations_of B (ob_intent_id ob)))
        (dx_obligation_by_intent (mk_index A S E B)),
      dx_unresolved_blocking_obligations :=
        mark (ob_blocking ob \<and> \<not> ob_resolved ob) b (unresolved_of B)\<rparr>
    = mk_index A S E (fmupd b ob B)"
  by (rule index_eqI) (use assms in \<open>auto simp: obligations_of_upd unresolved_of_upd minus_absent\<close>)

lemma obligation_ids_index:
  "fmlookup E i \<noteq> None \<Longrightarrow>
   lookup_default {||} (dx_obligation_by_intent (mk_index A S E B)) i = obligations_of B i"
  by (auto simp: lookup_default_def)

lemma rebuild_obligation_index:
  assumes "fmlookup B (ob_obligation_id ob) = None" "fmlookup E (ob_intent_id ob) \<noteq> None"
  shows "rebuild_obligation ob (mk_index A S E B) =
     Ok (mk_index A S E (fmupd (ob_obligation_id ob) ob B))"
proof -
  have new: "ob_obligation_id ob |\<notin>| obligations_of B (ob_intent_id ob)" using assms(1) by simp
  show ?thesis
    unfolding add_obligation_index [OF assms, symmetric] rebuild_obligation_def Let_def
      obligation_ids_index [OF assms(2)]
    by (simp add: new del: obligations_of_iff)
qed

lemma insert_scope_obligation_index:
  assumes d: "rn_derived run = mk_index A S E B" "rn_obligations run = B"
    and ob: "ob_obligation_id ob = b" "ob_intent_id ob |\<in>| oi_mutating_intents os"
    and B: "fmlookup B b = None" "fmlookup E (ob_intent_id ob) \<noteq> None"
  shows "insert_scope_obligation os ob run =
     Ok (run\<lparr>rn_obligations := fmupd b ob B, rn_derived := mk_index A S E (fmupd b ob B)\<rparr>)"
proof -
  have "b |\<notin>| obligations_of B (ob_intent_id ob)" using B(1) by simp
  then show ?thesis
    unfolding add_obligation_index [OF B, symmetric] insert_scope_obligation_def d ob(1) Let_def
      obligation_ids_index [OF B(2)]
    using B(1) ob by (simp del: obligations_of_iff)
qed

lemma update_one_obligation_index:
  assumes d: "rn_derived run = mk_index A S E B" "rn_obligations run = B"
    and b: "fmlookup B b = Some ob"
  shows "update_one_obligation r b run =
     Ok (run\<lparr>rn_obligations := fmupd b (ob\<lparr>ob_resolved := r\<rparr>) B,
             rn_derived := mk_index A S E (fmupd b (ob\<lparr>ob_resolved := r\<rparr>) B)\<rparr>)"
proof (cases "ob_resolved ob = r")
  case True
  then have same: "ob\<lparr>ob_resolved := r\<rparr> = ob" by simp
  have upd: "fmupd b ob B = B" using b by (intro fmap_ext) auto
  have run: "run\<lparr>rn_obligations := B, rn_derived := mk_index A S E B\<rparr> = run"
    using d by (cases run) simp
  show ?thesis unfolding same upd run update_one_obligation_def d(2) b by (simp add: True)
next
  case False
  have same: "obligations_of (fmupd b (ob\<lparr>ob_resolved := r\<rparr>) B) i = obligations_of B i" for i
    by (rule fset_eqI) (use b in auto)
  have eq: "mk_index A S E B\<lparr>dx_unresolved_blocking_obligations :=
      unresolved_of (fmupd b (ob\<lparr>ob_resolved := r\<rparr>) B)\<rparr>
    = mk_index A S E (fmupd b (ob\<lparr>ob_resolved := r\<rparr>) B)"
    by (rule index_eqI) (simp_all add: same)
  show ?thesis
    unfolding eq [symmetric] update_one_obligation_def d Let_def
    using False b by (auto simp: unresolved_of_upd minus_absent)
qed

definition resolve_obligations ::
  "string \<Rightarrow> bool \<Rightarrow> (string, obligation_projection) fmap \<Rightarrow> (string, obligation_projection) fmap" where
  "resolve_obligations i r B =
     fmmap (\<lambda>ob. if ob_intent_id ob = i then ob\<lparr>ob_resolved := r\<rparr> else ob) B"

lemma lookup_resolve_obligations [simp]:
  "fmlookup (resolve_obligations i r B) b =
     map_option (\<lambda>ob. if ob_intent_id ob = i then ob\<lparr>ob_resolved := r\<rparr> else ob) (fmlookup B b)"
  by (simp add: resolve_obligations_def)

lemma update_obligations_index:
  assumes "rn_derived run = mk_index A S E B" "rn_obligations run = B"
    and "set ids \<subseteq> fset (obligations_of B i)"
  shows "rfold (update_one_obligation r) ids run =
     (let B' = fmmap_keys (\<lambda>b ob. if b \<in> set ids then ob\<lparr>ob_resolved := r\<rparr> else ob) B
      in Ok (run\<lparr>rn_obligations := B', rn_derived := mk_index A S E B'\<rparr>))"
  using assms
proof (induction ids arbitrary: run B)
  case Nil
  have "fmmap_keys (\<lambda>b ob. ob) B = B" by (rule fmap_ext) (simp add: option.map_ident)
  moreover have "run\<lparr>rn_obligations := B, rn_derived := mk_index A S E B\<rparr> = run"
    using Nil by (cases run) simp
  ultimately show ?case by simp
next
  case (Cons b ids)
  from Cons.prems(3) obtain ob where b: "fmlookup B b = Some ob" by auto
  let ?B = "fmupd b (ob\<lparr>ob_resolved := r\<rparr>) B"
  have sub: "set ids \<subseteq> fset (obligations_of ?B i)"
    using Cons.prems(3) b by (auto simp: obligations_of_upd)
  have "fmmap_keys (\<lambda>c u. if c \<in> set ids then u\<lparr>ob_resolved := r\<rparr> else u) ?B
      = fmmap_keys (\<lambda>c u. if c \<in> set (b # ids) then u\<lparr>ob_resolved := r\<rparr> else u) B"
    by (rule fmap_ext) (use b in auto)
  with Cons.IH [OF _ _ sub] show ?case
    by (simp add: update_one_obligation_index [OF Cons.prems(1,2) b])
qed

lemma update_obligation_index:
  assumes d: "rn_derived run = mk_index A S E B" "rn_obligations run = B" "rn_effects run = E"
    and i: "fmlookup E i = Some e"
  shows "update_obligation run i =
     (let B' = resolve_obligations i (effect_resolved e) B
      in Ok (run\<lparr>rn_obligations := B', rn_derived := mk_index A S E B'\<rparr>))"
proof -
  have "fmmap_keys (\<lambda>b ob. if b |\<in>| obligations_of B i
        then ob\<lparr>ob_resolved := effect_resolved e\<rparr> else ob) B
      = resolve_obligations i (effect_resolved e) B"
    by (rule fmap_ext) (auto intro!: map_option_cong)
  then show ?thesis
    using update_obligations_index [OF d(1,2), of "sorted_list_of_fset (obligations_of B i)" i] i
    by (simp add: update_obligation_def obligation_ids_index d Let_def del: obligations_of_iff)
qed

section \<open>Attempts\<close>

lemma mk_index_attempts: "mk_index A' S E B = (mk_index A S E B)\<lparr>dx_active_attempt := active_of A'\<rparr>"
  by (simp add: mk_index_def)

lemma active_of_start:
  assumes "active_of A = None" "at_active t"
  shows "active_of (fmupd a t A) = Some a" "one_active (fmupd a t A)"
proof -
  show one: "one_active (fmupd a t A)"
    using assms(1) by (auto simp: one_active_def active_of_None split: if_splits)
  show "active_of (fmupd a t A) = Some a" using assms(2) by (simp add: active_of_Some [OF one])
qed

lemma active_of_stop:
  assumes "one_active A" "fmlookup A a = Some t" "at_active t" "\<not> at_active t'"
  shows "active_of (fmupd a t' A) = None" "one_active (fmupd a t' A)"
  using assms by (auto simp: one_active_def active_of_None split: if_splits)

section \<open>Aborting every open scope\<close>

definition abort_open_scopes :: "(string, scope_projection) fmap \<Rightarrow> (string, scope_projection) fmap" where
  "abort_open_scopes S =
     fmmap (\<lambda>sc. if sc_status sc = Open then sc\<lparr>sc_status := ClosedAborted\<rparr> else sc) S"

lemma lookup_abort_open_scopes [simp]:
  "fmlookup (abort_open_scopes S) s =
     map_option (\<lambda>sc. if sc_status sc = Open then sc\<lparr>sc_status := ClosedAborted\<rparr> else sc)
       (fmlookup S s)"
  by (simp add: abort_open_scopes_def)

lemma abort_open_scopes_index:
  "mk_index A (abort_open_scopes S) E B = (mk_index A S E B)\<lparr>dx_open_scope_ids := {||},
     dx_open_scope_effects := fmempty, dx_open_descendants := fmempty\<rparr>"
proof -
  have "open_scopes (abort_open_scopes S) = {||}" by (rule fset_eqI) auto
  moreover have "open_children (abort_open_scopes S) p = {||}" for p by (rule fset_eqI) auto
  moreover have "committed_effects (abort_open_scopes S) = committed_effects S"
    unfolding committed_effects_def
    by (auto simp: abort_open_scopes_def committed_weight_def fmlookup_dom_iff intro!: sum.cong)
  ultimately show ?thesis
    by (intro index_eqI) (auto split: option.splits)
qed

end
