(* ===== verification/Reducer_Rebuild.thy ===== *)
theory Reducer_Rebuild
  imports Reducer_Moves
begin

text \<open>
  The from-scratch \<open>rebuild\<close> of \<^verbatim>\<open>RunDerivedIndex\<close> computes exactly \<open>run_index\<close> for every Run
  whose canonical fields are well keyed and within the counter bounds.
\<close>

section \<open>Well-keyed canonical fields\<close>

definition scopes_keyed :: "run_projection \<Rightarrow> bool" where
  "scopes_keyed run \<longleftrightarrow>
     (\<forall>s sc. fmlookup (rn_scopes run) s = Some sc \<longrightarrow>
        sc_scope_id sc = s \<and> distinct (sc_intent_order sc)
        \<and> sc_intents sc = fset_of_list (sc_intent_order sc)
        \<and> length (sc_intent_order sc) < 2 ^ 64
        \<and> (\<forall>i\<in>set (sc_intent_order sc). \<exists>e. fmlookup (rn_effects run) i = Some e \<and> ep_scope_id e = s)
        \<and> (\<forall>p. sc_parent_scope sc = Some p \<longrightarrow> fmlookup (rn_scopes run) p \<noteq> None))"

definition effects_keyed :: "run_projection \<Rightarrow> bool" where
  "effects_keyed run \<longleftrightarrow>
     (\<forall>i e. fmlookup (rn_effects run) i = Some e \<longrightarrow>
        ep_intent_id e = i
        \<and> (\<exists>sc. fmlookup (rn_scopes run) (ep_scope_id e) = Some sc \<and> i \<in> set (sc_intent_order sc)))"

definition obligations_keyed :: "run_projection \<Rightarrow> bool" where
  "obligations_keyed run \<longleftrightarrow>
     (\<forall>b ob. fmlookup (rn_obligations run) b = Some ob \<longrightarrow>
        ob_obligation_id ob = b \<and> fmlookup (rn_effects run) (ob_intent_id ob) \<noteq> None)"

definition attempts_keyed :: "run_projection \<Rightarrow> bool" where
  "attempts_keyed run \<longleftrightarrow> one_active (rn_attempts run) \<and>
     (\<forall>a t. fmlookup (rn_attempts run) a = Some t \<longrightarrow> at_attempt_id t = a)"

definition counts_bounded :: "run_projection \<Rightarrow> bool" where
  "counts_bounded run \<longleftrightarrow> committed_effects (rn_scopes run) \<le> MAX_EXACT_INTEGER
     \<and> (\<forall>p. fcard (open_children (rn_scopes run) p) \<le> MAX_EXACT_INTEGER)"

definition run_keyed :: "run_projection \<Rightarrow> bool" where
  "run_keyed run \<longleftrightarrow> scopes_keyed run \<and> effects_keyed run \<and> obligations_keyed run
     \<and> attempts_keyed run \<and> counts_bounded run"

lemma scopes_keyedD:
  assumes "scopes_keyed run" "fmlookup (rn_scopes run) s = Some sc"
  shows "sc_scope_id sc = s" "distinct (sc_intent_order sc)"
    "sc_intents sc = fset_of_list (sc_intent_order sc)" "length (sc_intent_order sc) < 2 ^ 64"
    "\<And>i. i \<in> set (sc_intent_order sc) \<Longrightarrow> \<exists>e. fmlookup (rn_effects run) i = Some e \<and> ep_scope_id e = s"
    "\<And>p. sc_parent_scope sc = Some p \<Longrightarrow> fmlookup (rn_scopes run) p \<noteq> None"
  using assms unfolding scopes_keyed_def by blast+

lemma effects_keyedD:
  assumes "effects_keyed run" "fmlookup (rn_effects run) i = Some e"
  shows "ep_intent_id e = i"
    "\<exists>sc. fmlookup (rn_scopes run) (ep_scope_id e) = Some sc \<and> i \<in> set (sc_intent_order sc)"
  using assms unfolding effects_keyed_def by blast+

lemma run_keyedD:
  assumes "run_keyed run"
  shows "scopes_keyed run" "effects_keyed run" "obligations_keyed run" "attempts_keyed run"
    "counts_bounded run"
  using assms by (simp_all add: run_keyed_def)

section \<open>Loops over all values of a map\<close>

lemma fmsubset_lookup: "m \<subseteq>\<^sub>f M \<Longrightarrow> fmlookup m k = Some v \<Longrightarrow> fmlookup M k = Some v"
  by (auto simp: fmsubset_alt_def fmpred_iff)

lemma rfold_values_build:
  assumes step: "\<And>k v m. fmlookup M k = Some v \<Longrightarrow> fmlookup m k = None \<Longrightarrow> m \<subseteq>\<^sub>f M
                   \<Longrightarrow> f v (D m) = Ok (D (fmupd k v m))"
  shows "rfold f (values_of M) (D fmempty) = Ok (D M)"
proof -
  have "rfold f (map snd ys) (D m) = Ok (D M)"
    if "distinct (map fst ys)" "\<And>k v. (k, v) \<in> set ys \<Longrightarrow> fmlookup M k = Some v \<and> fmlookup m k = None"
      "\<And>k v. fmlookup M k = Some v \<Longrightarrow> (k, v) \<in> set ys \<or> fmlookup m k = Some v" "m \<subseteq>\<^sub>f M"
    for ys m
    using that
  proof (induction ys arbitrary: m)
    case Nil
    have "fmlookup m k = fmlookup M k" for k
      using Nil.prems(3) [of k] fmsubset_lookup [OF Nil.prems(4), of k]
      by (cases "fmlookup M k"; cases "fmlookup m k") auto
    then have "m = M" by (rule fmap_ext)
    then show ?case by simp
  next
    case (Cons y ys)
    obtain k v where y: "y = (k, v)" by (cases y)
    have kv: "fmlookup M k = Some v" "fmlookup m k = None" using Cons.prems(2) [of k v] y by auto
    have "fmupd k v m \<subseteq>\<^sub>f M"
      using Cons.prems(4) kv by (auto simp: fmsubset_alt_def fmpred_iff split: if_splits)
    moreover have "fmlookup M k' = Some v' \<and> fmlookup (fmupd k v m) k' = None"
      if "(k', v') \<in> set ys" for k' v'
      using that Cons.prems(1,2) y by (force simp: image_iff)
    moreover have "(k', v') \<in> set ys \<or> fmlookup (fmupd k v m) k' = Some v'"
      if "fmlookup M k' = Some v'" for k' v'
      using Cons.prems(3) [OF that] kv that y by auto
    ultimately have "rfold f (map snd ys) (D (fmupd k v m)) = Ok (D M)"
      using Cons.IH [of "fmupd k v m"] Cons.prems(1) by simp
    then show ?case using step [OF kv Cons.prems(4)] by (simp add: y)
  qed
  from this [of "entries_of M" fmempty] show ?thesis
    by (simp add: distinct_keys_entries_of fmsubset_alt_def)
qed

section \<open>The four stages\<close>

lemma empty_index:
  "run_derived_index_default\<lparr>dx_initialized := True\<rparr> = mk_index fmempty fmempty fmempty fmempty"
proof -
  have "effects_where P fmempty = {||}" "open_scopes fmempty = {||}" "unresolved_of fmempty = {||}" for P
    by (auto intro!: fset_eqI)
  moreover have "active_of fmempty = None" by (simp add: active_of_None)
  ultimately show ?thesis
    by (intro index_eqI) (simp_all add: run_derived_index_default_def committed_effects_def)
qed

lemma rebuild_attempts:
  assumes "attempts_keyed run"
  shows "rfold rebuild_attempt (values_of (rn_attempts run)) (mk_index fmempty S E B)
       = Ok (mk_index (rn_attempts run) S E B)"
proof (rule rfold_values_build)
  fix k v m
  assume kv: "fmlookup (rn_attempts run) k = Some v" "fmlookup m k = None" "m \<subseteq>\<^sub>f rn_attempts run"
  have one: "one_active (fmupd k v m)" "one_active m"
    using assms kv fmsubset_lookup [OF kv(3)] unfolding attempts_keyed_def one_active_def
    by (auto split: if_splits)
  have id: "at_attempt_id v = k" using assms kv(1) by (simp add: attempts_keyed_def)
  have none: "active_of m = None" if "at_active v"
    using one(1) that kv(2) unfolding active_of_None one_active_def
    by (metis fmupd_lookup option.distinct(1))
  have "active_of (fmupd k v m) = (if at_active v then Some k else active_of m)"
  proof (cases "at_active v")
    case True
    then show ?thesis using active_of_start(1) [OF none] by simp
  next
    case False
    have "active_attempts (fmupd k v m) = active_attempts m"
      by (rule fset_eqI) (use False kv(2) in auto)
    with False show ?thesis by (simp add: active_of_def)
  qed
  then show "rebuild_attempt v (mk_index m S E B) = Ok (mk_index (fmupd k v m) S E B)"
    using none by (simp add: rebuild_attempt_def id mk_index_attempts [of "fmupd k v m" S E B m])
qed

definition trunc_scopes ::
  "string fset \<Rightarrow> (string, scope_projection) fmap \<Rightarrow> (string, scope_projection) fmap" where
  "trunc_scopes P S =
     fmmap_keys (\<lambda>s sc. if s |\<in>| P then sc else sc\<lparr>sc_intent_order := []\<rparr>) S"

lemma lookup_trunc_scopes [simp]:
  "fmlookup (trunc_scopes P S) s =
     map_option (\<lambda>sc. if s |\<in>| P then sc else sc\<lparr>sc_intent_order := []\<rparr>) (fmlookup S s)"
  by (simp add: trunc_scopes_def)

definition open_index ::
  "(string, attempt_projection) fmap \<Rightarrow> (string, scope_projection) fmap
   \<Rightarrow> (string, scope_projection) fmap \<Rightarrow> run_derived_index" where
  "open_index A S m = (mk_index A (trunc_scopes {||} m) fmempty fmempty)\<lparr>dx_open_descendants :=
     fmmap_keys (\<lambda>p _. fcard (open_children m p)) (fmfilter (\<lambda>p. open_children m p \<noteq> {||}) S)\<rparr>"

lemma open_trunc [simp]:
  "open_scopes (trunc_scopes P m) = open_scopes m"
  "open_children (trunc_scopes P m) p = open_children m p"
proof -
  have "s |\<in>| open_scopes (trunc_scopes P m) \<longleftrightarrow> s |\<in>| open_scopes m"
    "s |\<in>| open_children (trunc_scopes P m) p \<longleftrightarrow> s |\<in>| open_children m p" for s
    by (cases "fmlookup m s"; simp)+
  then show "open_scopes (trunc_scopes P m) = open_scopes m"
    "open_children (trunc_scopes P m) p = open_children m p"
    by (auto intro!: fset_eqI simp del: open_scopes_iff open_children_iff)
qed

lemma committed_empty [simp]: "committed_effects fmempty = 0"
  by (simp add: committed_effects_def)

lemma committed_trunc_none [simp]: "committed_effects (trunc_scopes {||} m) = 0"
  by (auto simp: committed_effects_def committed_weight_def fmlookup_dom_iff)

lemma rebuild_open_scopes:
  assumes "scopes_keyed run" "counts_bounded run"
  shows "rfold rebuild_open_scope (values_of (rn_scopes run)) (mk_index A fmempty fmempty fmempty)
       = Ok (mk_index A (trunc_scopes {||} (rn_scopes run)) fmempty fmempty)"
proof -
  let ?S = "rn_scopes run"
  have "rfold rebuild_open_scope (values_of ?S) (open_index A ?S fmempty) = Ok (open_index A ?S ?S)"
  proof (rule rfold_values_build)
    fix k sc m
    assume kv: "fmlookup ?S k = Some sc" "fmlookup m k = None" "m \<subseteq>\<^sub>f ?S"
    note keyed = scopes_keyedD [OF assms(1) kv(1)]
    have new: "k |\<notin>| open_scopes m" "\<And>p. k |\<notin>| open_children m p" using kv(2) by simp_all
    show "rebuild_open_scope sc (open_index A ?S m) = Ok (open_index A ?S (fmupd k sc m))"
    proof (cases "sc_status sc = Open")
      case False
      then have same: "open_scopes (fmupd k sc m) = open_scopes m"
        "\<And>p. open_children (fmupd k sc m) p = open_children m p"
        using kv(2) by (simp_all add: open_scopes_upd open_children_upd minus_absent)
      have "open_index A ?S (fmupd k sc m) = open_index A ?S m"
        unfolding open_index_def
        by (rule index_eqI)
          (use False new kv(2) in \<open>auto simp: same simp del: open_scopes_iff open_children_iff\<close>)
      with False show ?thesis by (simp add: rebuild_open_scope_def)
    next
      case True
      have card: "fcard (finsert k (open_children m p)) = fcard (open_children m p) + 1" for p
        using kv(2) by (simp add: fcard_finsert_disjoint)
      have small: "fcard (open_children m p) + 1 < 2 ^ 64" if "sc_parent_scope sc = Some p" for p
      proof -
        have "finsert k (open_children m p) |\<subseteq>| open_children ?S p"
          using kv fmsubset_lookup [OF kv(3)] True that by auto
        then have "fcard (open_children m p) + 1 \<le> fcard (open_children ?S p)"
          using fcard_mono [of "finsert k (open_children m p)" "open_children ?S p"] card [of p]
          by simp
        also have "\<dots> \<le> MAX_EXACT_INTEGER" using assms(2) by (simp add: counts_bounded_def)
        finally show ?thesis using MAX_EXACT_INTEGER_u64 by (rule order.strict_trans1)
      qed
      have eq: "open_index A ?S (fmupd k sc m) = (open_index A ?S m)
          \<lparr>dx_open_scope_ids := finsert k (open_scopes m),
           dx_open_scope_effects := fmupd k open_scope_effect_index_default
             (dx_open_scope_effects (open_index A ?S m)),
           dx_open_descendants := (case sc_parent_scope sc of
             None \<Rightarrow> dx_open_descendants (open_index A ?S m)
           | Some p \<Rightarrow> fmupd p (fcard (open_children m p) + 1)
               (dx_open_descendants (open_index A ?S m)))\<rparr>"
        unfolding open_index_def
        by (rule index_eqI) (use True new kv(2) keyed(6) card in \<open>auto simp: open_scopes_upd
            open_children_upd minus_absent simp del: open_scopes_iff open_children_iff
            split: option.splits\<close>)
      have count: "lookup_default 0 (dx_open_descendants (open_index A ?S m)) p
          = fcard (open_children m p)" if "sc_parent_scope sc = Some p" for p
        using keyed(6) [OF that] by (auto simp: lookup_default_def open_index_def)
      have ids: "dx_open_scope_ids (open_index A ?S m) = open_scopes m" by (simp add: open_index_def)
      show ?thesis
        unfolding eq rebuild_open_scope_def Let_def keyed(1)
        using True count small ids
        by (cases "sc_parent_scope sc"; simp; simp add: open_index_def mk_index_def)
    qed
  qed
  moreover have "open_index A ?S fmempty = mk_index A fmempty fmempty fmempty"
    unfolding open_index_def by (rule index_eqI) (auto intro!: fset_eqI)
  moreover have "open_index A ?S ?S = mk_index A (trunc_scopes {||} ?S) fmempty fmempty"
    unfolding open_index_def by (rule index_eqI) auto
  ultimately show ?thesis by simp
qed

lemma committed_effects_mono:
  assumes "fmdom S' = fmdom S"
    and "\<And>s sc sc'. fmlookup S s = Some sc \<Longrightarrow> fmlookup S' s = Some sc'
       \<Longrightarrow> sc_status sc' = sc_status sc \<and> length (sc_intent_order sc') \<le> length (sc_intent_order sc)"
  shows "committed_effects S' \<le> committed_effects S"
  unfolding committed_effects_def assms(1)
proof (rule sum_mono)
  fix s assume "s |\<in>| fmdom S"
  then obtain sc sc' where "fmlookup S s = Some sc" "fmlookup S' s = Some sc'"
    using assms(1) by (metis fmlookup_dom_iff)
  with assms(2) [OF this] show "committed_weight (the (fmlookup S' s)) \<le> committed_weight (the (fmlookup S s))"
    by (simp add: committed_weight_def)
qed

definition effects_in :: "(string \<Rightarrow> effect_projection \<Rightarrow> bool) \<Rightarrow> (string, effect_projection) fmap
   \<Rightarrow> (string, effect_projection) fmap" where
  "effects_in P E = fmfilter (\<lambda>i. P i (effect_at E i)) E"

lemma lookup_effects_in [simp]:
  "fmlookup (effects_in P E) i =
     (case fmlookup E i of None \<Rightarrow> None | Some e \<Rightarrow> if P i e then Some e else None)"
  by (auto simp: effects_in_def split: option.splits)

lemma rebuild_scope_effects_stage:
  assumes keyed: "scopes_keyed run" "effects_keyed run" and bounded: "counts_bounded run"
    and s: "fmlookup (rn_scopes run) s = Some sc" "s |\<notin>| P"
    and split: "sc_intent_order sc = is @ js"
  shows "rfold (\<lambda>intent_id index.
        rbind (ok_or Validation (fmlookup (rn_effects run) intent_id)) (\<lambda>effect.
        if ep_scope_id effect \<noteq> sc_scope_id sc then Err Validation
        else register_effect index effect (sc_status sc))) js
       (mk_index A (fmupd s (sc\<lparr>sc_intent_order := is\<rparr>) (trunc_scopes P (rn_scopes run)))
         (effects_in (\<lambda>i e. ep_scope_id e |\<in>| P \<or> i \<in> set is) (rn_effects run)) fmempty)
     = Ok (mk_index A (fmupd s sc (trunc_scopes P (rn_scopes run)))
         (effects_in (\<lambda>i e. ep_scope_id e |\<in>| P \<or> i \<in> set (sc_intent_order sc)) (rn_effects run))
         fmempty)"
  using split
proof (induction js arbitrary: "is")
  case Nil
  then have same: "sc\<lparr>sc_intent_order := is\<rparr> = sc" by (cases sc) simp
  show ?case unfolding same using Nil by simp
next
  case (Cons i js)
  let ?S = "fmupd s (sc\<lparr>sc_intent_order := is\<rparr>) (trunc_scopes P (rn_scopes run))"
  let ?E = "effects_in (\<lambda>i e. ep_scope_id e |\<in>| P \<or> i \<in> set is) (rn_effects run)"
  note sk = scopes_keyedD [OF keyed(1) s(1)]
  obtain e where e: "fmlookup (rn_effects run) i = Some e" "ep_scope_id e = s"
    using sk(5) [of i] Cons.prems by auto
  have new: "i \<notin> set is" using sk(2) Cons.prems by auto
  have S': "fmupd s (sc\<lparr>sc_intent_order := is @ [i]\<rparr>) ?S
      = fmupd s (sc\<lparr>sc_intent_order := is @ [i]\<rparr>) (trunc_scopes P (rn_scopes run))"
    by (rule fmap_ext) auto
  have E': "fmupd i e ?E = effects_in (\<lambda>j e. ep_scope_id e |\<in>| P \<or> j \<in> set (is @ [i])) (rn_effects run)"
    by (rule fmap_ext) (auto simp: e split: option.splits)
  have "register_effect (mk_index A ?S ?E fmempty) e (sc_status (sc\<lparr>sc_intent_order := is\<rparr>))
      = Ok (mk_index A (fmupd s (sc\<lparr>sc_intent_order := is @ [i]\<rparr>) ?S) (fmupd i e ?E) fmempty)"
  proof (rule register_effect_index)
    show "fmlookup ?S s = Some (sc\<lparr>sc_intent_order := is\<rparr>)" by simp
    show "ep_intent_id e = i" using effects_keyedD [OF keyed(2) e(1)] by simp
    show "fmlookup ?E i = None" using e s(2) new by simp
    show "obligations_of fmempty i = {||}" by (rule fset_eqI) simp
    show "i \<notin> set (sc_intent_order u)" if "fmlookup ?S t = Some u" for t u
    proof (cases "t = s")
      case True
      then show ?thesis using that new by auto
    next
      case False
      with that obtain v where v: "fmlookup (rn_scopes run) t = Some v"
        "u = (if t |\<in>| P then v else v\<lparr>sc_intent_order := []\<rparr>)" by auto
      then show ?thesis using scopes_keyedD(5) [OF keyed(1) v(1), of i] e False by auto
    qed
    show "length (sc_intent_order (sc\<lparr>sc_intent_order := is\<rparr>)) + 1 < 2 ^ 64"
      using sk(4) Cons.prems by simp
    show "committed_effects ?S + 1 \<le> MAX_EXACT_INTEGER"
      if "sc_status (sc\<lparr>sc_intent_order := is\<rparr>) = ClosedCommitted"
    proof -
      have "committed_effects (fmupd s (sc\<lparr>sc_intent_order := is @ [i]\<rparr>) ?S)
          \<le> committed_effects (rn_scopes run)"
        by (rule committed_effects_mono)
          (use s Cons.prems in \<open>auto split: if_splits simp: fmdom_fmmap_keys trunc_scopes_def
            fmlookup_dom_iff intro!: fset_eqI\<close>)
      then show ?thesis
        using committed_effects_upd [of ?S s "sc\<lparr>sc_intent_order := is\<rparr>" "sc\<lparr>sc_intent_order := is @ [i]\<rparr>"]
          that bounded by (simp add: committed_weight_def counts_bounded_def)
    qed
  qed (simp_all add: e)
  with Cons.IH [of "is @ [i]"] Cons.prems show ?case
    by (simp add: e sk(1) S' E')
qed

lemma rebuild_effects:
  assumes keyed: "scopes_keyed run" "effects_keyed run" and bounded: "counts_bounded run"
  shows "rfold (rebuild_scope_effects run) (values_of (rn_scopes run))
           (mk_index A (trunc_scopes {||} (rn_scopes run)) fmempty fmempty)
       = Ok (mk_index A (rn_scopes run) (rn_effects run) fmempty)"
proof -
  let ?S = "rn_scopes run" and ?E = "rn_effects run"
  let ?D = "\<lambda>m :: (string, scope_projection) fmap. mk_index A (trunc_scopes (fmdom m) ?S)
    (effects_in (\<lambda>i e. ep_scope_id e |\<in>| fmdom m) ?E) fmempty"
  have "rfold (rebuild_scope_effects run) (values_of ?S) (?D fmempty) = Ok (?D ?S)"
  proof (rule rfold_values_build [where D = ?D])
    fix s sc and m :: "(string, scope_projection) fmap"
    assume s: "fmlookup ?S s = Some sc" "fmlookup m s = None" "m \<subseteq>\<^sub>f ?S"
    have new: "s |\<notin>| fmdom m" using s(2) by (rule fmdom_notI)
    have start: "fmupd s (sc\<lparr>sc_intent_order := []\<rparr>) (trunc_scopes (fmdom m) ?S)
        = trunc_scopes (fmdom m) ?S"
      by (rule fmap_ext) (use s(1) new in auto)
    have full: "fmupd s sc (trunc_scopes (fmdom m) ?S) = trunc_scopes (fmdom (fmupd s sc m)) ?S"
      by (rule fmap_ext) (use s(1) in \<open>auto intro!: map_option_cong\<close>)
    have here: "i \<in> set (sc_intent_order sc) \<longleftrightarrow> ep_scope_id e = s" if "fmlookup ?E i = Some e" for i e
      using effects_keyedD(2) [OF keyed(2) that] scopes_keyedD(5) [OF keyed(1) s(1), of i] that s(1)
      by auto
    have all: "effects_in (\<lambda>i e. ep_scope_id e |\<in>| fmdom m \<or> i \<in> set (sc_intent_order sc)) ?E
        = effects_in (\<lambda>i e. ep_scope_id e |\<in>| fmdom (fmupd s sc m)) ?E"
      by (rule fmap_ext) (auto simp: here split: option.splits)
    show "rebuild_scope_effects run sc (?D m) = Ok (?D (fmupd s sc m))"
      using rebuild_scope_effects_stage [OF keyed bounded s(1) new, of "[]" "sc_intent_order sc" A]
      unfolding rebuild_scope_effects_def start full all by simp
  qed
  moreover have "trunc_scopes (fmdom ?S) ?S = ?S"
  proof (rule fmap_ext)
    show "fmlookup (trunc_scopes (fmdom ?S) ?S) s = fmlookup ?S s" for s
      by (cases "fmlookup ?S s") (simp_all add: fmdomI)
  qed
  moreover have "effects_in (\<lambda>i e. ep_scope_id e |\<in>| fmdom ?S) ?E = ?E"
    using effects_keyedD(2) [OF keyed(2)]
    by (intro fmap_ext) (fastforce split: option.splits simp: fmdomI)
  moreover have "effects_in (\<lambda>i e. False) ?E = fmempty"
    by (rule fmap_ext) (auto split: option.splits)
  ultimately show ?thesis by simp
qed

lemma rebuild_obligations:
  assumes "obligations_keyed run"
  shows "rfold rebuild_obligation (values_of (rn_obligations run)) (mk_index A S (rn_effects run) fmempty)
       = Ok (mk_index A S (rn_effects run) (rn_obligations run))"
proof (rule rfold_values_build)
  fix b ob and m :: "(string, obligation_projection) fmap"
  assume "fmlookup (rn_obligations run) b = Some ob" "fmlookup m b = None"
  with assms show "rebuild_obligation ob (mk_index A S (rn_effects run) m)
      = Ok (mk_index A S (rn_effects run) (fmupd b ob m))"
    using rebuild_obligation_index [of m ob "rn_effects run" A S]
    unfolding obligations_keyed_def by auto
qed

theorem rebuild_run_index:
  assumes "run_keyed run"
  shows "rebuild run = Ok (run_index run)"
  using run_keyedD [OF assms]
  by (simp add: rebuild_def empty_index rebuild_attempts rebuild_open_scopes rebuild_effects
      rebuild_obligations run_index_def)

end
