(* ===== verification/Reducer_Audit.thy ===== *)
theory Reducer_Audit
  imports Reducer
begin

text \<open>
  The from-scratch audits of \<^verbatim>\<open>crates/cymule-core/src/model.rs\<close>, used by restore and by
  full verification: \<open>verify_reducer_invariants\<close> re-checks every canonical field of a
  projection against the states the reducer can reach, and \<open>verify_derived_indexes\<close> compares
  every hot index with a rebuild.
\<close>

section \<open>World settlement\<close>

definition derive_world_settlement :: "run_projection \<Rightarrow> world_settlement_status" where
  "derive_world_settlement run =
     (if list_ex (\<lambda>effect. ef_reconciliation effect = GovernanceRequired)
           (values_of (rn_effects run))
      then SettlementGovernanceRequired
      else if list_ex (\<lambda>effect. ef_outcome effect = Unknown) (values_of (rn_effects run))
      then SettlementUnknown
      else if list_ex (\<lambda>effect. ef_phase effect \<noteq> CancelledBeforeRelease
                               \<and> ef_outcome effect = Unobserved) (values_of (rn_effects run))
      then SettlementPending
      else Settled)"

definition verify_execution_numbers :: "projection \<Rightarrow> core_error + unit" where
  "verify_execution_numbers projection =
     rcheck (\<lambda>run.
       if MAX_EXACT_INTEGER < rn_epoch run then Err Validation else
       rcheck (\<lambda>attempt.
         if MAX_EXACT_INTEGER < at_continuation_epoch attempt \<or> at_execution_fence attempt = 0
            \<or> MAX_EXACT_INTEGER < at_execution_fence attempt
         then Err Validation else Ok ()) (values_of (rn_attempts run)))
     (values_of (pj_runs projection))"

definition verify_world_settlement_invariants :: "projection \<Rightarrow> core_error + unit" where
  "verify_world_settlement_invariants projection =
     rcheck (\<lambda>run.
       let derived = derive_world_settlement run in
       if rn_world_settlement run \<noteq> derived then Err Validation
       else if rn_execution_status run = Completed \<and> derived \<noteq> Settled then Err Validation
       else Ok ()) (values_of (pj_runs projection))"

section \<open>Scopes\<close>

text \<open>The ancestor walk of one scope: every ancestor exists, none repeats, and an open
  scope has only open ancestors. The set of seen scopes grows inside the scope map, so the
  walk ends.\<close>

function verify_ancestors ::
  "(string, scope_projection) fmap \<Rightarrow> scope_projection \<Rightarrow> string fset \<Rightarrow> string option
   \<Rightarrow> core_error + unit" where
  "verify_ancestors scopes scope seen ancestor =
     (case ancestor of
        None \<Rightarrow> Ok ()
      | Some ancestor_id \<Rightarrow>
          if ancestor_id |\<in>| seen then Err Validation
          else
           (case fmlookup scopes ancestor_id of
              None \<Rightarrow> Err Validation
            | Some ancestor_scope \<Rightarrow>
                if sc_status scope = Open \<and> sc_status ancestor_scope \<noteq> Open then Err Validation
                else verify_ancestors scopes scope (finsert ancestor_id seen)
                       (sc_parent_scope ancestor_scope)))"
  by pat_completeness auto
termination
proof (relation "measure (\<lambda>(scopes, scope, seen, ancestor). fcard (fmdom scopes |-| seen))")
  fix scopes :: "(string, scope_projection) fmap"
  fix scope ancestor_scope :: scope_projection
  fix seen :: "string fset" and ancestor :: "string option" and ancestor_id :: string
  assume "ancestor = Some ancestor_id" "ancestor_id |\<notin>| seen"
    "fmlookup scopes ancestor_id = Some ancestor_scope"
  then have "ancestor_id |\<in>| fmdom scopes |-| seen" by (simp add: fmdomI)
  moreover have "fmdom scopes |-| finsert ancestor_id seen
      = (fmdom scopes |-| seen) |-| {|ancestor_id|}" by (rule fset_eqI) (simp, blast)
  ultimately have "fcard (fmdom scopes |-| finsert ancestor_id seen)
      < fcard (fmdom scopes |-| seen)" by (simp only: fcard_fminus1_less)
  then show "((scopes, scope, finsert ancestor_id seen, sc_parent_scope ancestor_scope),
      (scopes, scope, seen, ancestor))
      \<in> measure (\<lambda>(scopes, scope, seen, ancestor). fcard (fmdom scopes |-| seen))"
    by simp
qed simp

declare verify_ancestors.simps [simp del]

definition verify_one_scope ::
  "run_projection \<Rightarrow> string \<times> scope_projection \<Rightarrow> core_error + unit" where
  "verify_one_scope run = (\<lambda>(scope_id, scope).
     if scope_id \<noteq> sc_scope_id scope then Err Validation else
     let ordered = fset_of_list (sc_intent_order scope) in
     if fcard ordered \<noteq> length (sc_intent_order scope) \<or> ordered \<noteq> sc_intents scope
     then Err Validation else
     rbind (rcheck validate_content_id (sc_intent_order scope)) (\<lambda>_.
     if scope_id = ROOT_SCOPE_ID then Ok ()
     else if sc_site_id scope = None \<or> sc_region_path scope = [] then Err Validation
     else
      rbind (ok_or Validation (sc_parent_scope scope)) (\<lambda>parent_id.
      if parent_id = scope_id \<or> fmlookup (rn_scopes run) parent_id = None then Err Validation
      else verify_ancestors (rn_scopes run) scope {|scope_id|} (Some parent_id))))"

definition verify_scope_projection :: "run_projection \<Rightarrow> core_error + unit" where
  "verify_scope_projection run =
     rbind (ok_or Validation (fmlookup (rn_scopes run) ROOT_SCOPE_ID)) (\<lambda>root.
     if sc_scope_id root \<noteq> ROOT_SCOPE_ID \<or> sc_parent_scope root \<noteq> None
        \<or> sc_site_id root \<noteq> None \<or> sc_invocation_path root \<noteq> [] \<or> sc_region_path root \<noteq> []
     then Err Validation
     else rcheck (verify_one_scope run) (entries_of (rn_scopes run)))"

section \<open>Effects and obligations\<close>

definition verify_effect_scope_state ::
  "effect_projection \<Rightarrow> scope_projection \<Rightarrow> core_error + unit" where
  "verify_effect_scope_state effect scope =
     (let eager_observation = (pf_dispatch (ep_profile effect) = Eager
                               \<and> pf_mutation (ep_profile effect) = Observational);
          released = (ef_phase effect = ReleaseAuthorized \<or> ef_phase effect = DispatchStarted);
          release_is_legal =
            (case pf_dispatch (ep_profile effect) of
               Eager \<Rightarrow> eager_observation
             | OnScopeCommit \<Rightarrow> sc_status scope = ClosedCommitted
             | Explicit \<Rightarrow> sc_status scope = ClosedCommitted);
          aborted_scope_is_legal =
            (sc_status scope \<noteq> ClosedAborted \<or> ef_phase effect = CancelledBeforeRelease
             \<or> (eager_observation \<and> released))
      in if (pf_dispatch (ep_profile effect) = Eager \<and> \<not> eager_observation)
            \<or> (released \<and> \<not> release_is_legal) \<or> \<not> aborted_scope_is_legal
         then Err Validation else Ok ())"

definition effect_reducer_legal :: "effect_projection \<Rightarrow> bool" where
  "effect_reducer_legal effect =
     (case ef_phase effect of
        CancelledBeforeRelease \<Rightarrow>
          ef_outcome effect = NotApplied \<and> ef_reconciliation effect = Resolved
      | DispatchStarted \<Rightarrow>
          (case (ef_execution_availability effect, ef_outcome effect, ef_reconciliation effect) of
             (Available, Unobserved, NotRequired) \<Rightarrow> True
           | (Available, Applied, NotRequired) \<Rightarrow> True
           | (Available, NotApplied, NotRequired) \<Rightarrow> True
           | (Available, Applied, Resolved) \<Rightarrow> True
           | (Available, NotApplied, Resolved) \<Rightarrow> True
           | (Unavailable, Unknown, GovernanceRequired) \<Rightarrow> True
           | (Unavailable, Applied, Resolved) \<Rightarrow> True
           | (Unavailable, NotApplied, Resolved) \<Rightarrow> True
           | (Available, Unknown, Pending) \<Rightarrow>
               pf_reconciliation (ep_profile effect) = Queryable
               \<or> pf_reconciliation (ep_profile effect) = ExternallyAttested
           | (Available, Unknown, GovernanceRequired) \<Rightarrow>
               pf_reconciliation (ep_profile effect) = Human
               \<or> pf_reconciliation (ep_profile effect) = Impossible
           | _ \<Rightarrow> False)
      | _ \<Rightarrow> ef_execution_availability effect = Available
             \<and> ef_outcome effect = Unobserved \<and> ef_reconciliation effect = NotRequired)"

definition verify_effect_reducer_state :: "effect_projection \<Rightarrow> core_error + unit" where
  "verify_effect_reducer_state effect =
     (if effect_reducer_legal effect then Ok () else Err Validation)"

definition verify_one_effect ::
  "run_projection \<Rightarrow> string \<times> effect_projection \<Rightarrow> core_error + unit" where
  "verify_one_effect run = (\<lambda>(intent_id, effect).
     if intent_id \<noteq> ep_intent_id effect then Err Validation else
     rbind (ok_or Validation (fmlookup (rn_scopes run) (ep_scope_id effect))) (\<lambda>scope.
     if intent_id |\<notin>| sc_intents scope then Err Validation else
     rbind (validate_effect_args_reference (ep_args effect)) (\<lambda>_.
     rbind (artifact_ref_validate (ep_execution_binding effect)) (\<lambda>_.
     if ar_kind (ep_execution_binding effect) \<noteq> EXECUTION_BINDING_ARTIFACT_KIND
     then Err Validation else
     rbind (verify_effect_reducer_state effect) (\<lambda>_.
     verify_effect_scope_state effect scope)))))"

definition verify_effect_projection :: "run_projection \<Rightarrow> core_error + unit" where
  "verify_effect_projection run =
     rbind (rcheck (verify_one_effect run) (entries_of (rn_effects run))) (\<lambda>_.
     rcheck (\<lambda>scope.
       rcheck (\<lambda>intent_id.
         rbind (ok_or Validation (fmlookup (rn_effects run) intent_id)) (\<lambda>effect.
         if ep_scope_id effect \<noteq> sc_scope_id scope then Err Validation else Ok ()))
       (sorted_list_of_fset (sc_intents scope)))
     (values_of (rn_scopes run)))"

text \<open>An Effect without its scope would panic here (\<^verbatim>\<open>expect\<close>); the audit runs this check
  after \<open>verify_effect_projection\<close>, which has rejected such a Run.\<close>

definition expected_obligation ::
  "host \<Rightarrow> run_projection \<Rightarrow> effect_projection \<Rightarrow> (string, obligation_projection) fmap
   \<Rightarrow> core_error + (string, obligation_projection) fmap" where
  "expected_obligation h run effect expected =
     rbind (ok_or Validation (fmlookup (rn_scopes run) (ep_scope_id effect))) (\<lambda>scope.
     if pf_mutation (ep_profile effect) = Mutating \<and> sc_status scope = ClosedCommitted then
       rbind (effect_obligation_id h (ep_intent_id effect)) (\<lambda>obligation_id.
       Ok (fmupd obligation_id
             \<lparr>ob_obligation_id = obligation_id, ob_intent_id = ep_intent_id effect,
              ob_blocking = True, ob_resolved = effect_resolved effect\<rparr> expected))
     else Ok expected)"

definition verify_obligation_projection :: "host \<Rightarrow> run_projection \<Rightarrow> core_error + unit" where
  "verify_obligation_projection h run =
     rbind (rfold (expected_obligation h run) (values_of (rn_effects run)) fmempty) (\<lambda>expected.
     if rn_obligations run \<noteq> expected then Err Validation else Ok ())"

section \<open>Run failures and terminal Runs\<close>

definition validate_failure_code :: "string \<Rightarrow> core_error + unit" where
  "validate_failure_code c =
     (if c \<noteq> [] \<and> length c \<le> 200
         \<and> list_all (\<lambda>(index, byte). is_ascii_lowercase byte
              \<or> (0 < index \<and> (is_ascii_digit byte \<or> byte = CHR ''_''))) (enumerate 0 c)
      then Ok () else Err Validation)"

definition run_failure_verify :: "run_failure \<Rightarrow> core_error + unit" where
  "run_failure_verify failure =
     rbind (validate_failure_code (rf_code failure)) (\<lambda>_.
     artifact_ref_validate (rf_detail failure))"

definition verify_terminal_run :: "run_projection \<Rightarrow> bool \<Rightarrow> bool \<Rightarrow> core_error + unit" where
  "verify_terminal_run run has_active_attempt has_open_scope =
     (if rn_epoch run = 0 \<or> rn_result run \<noteq> None \<or> has_active_attempt \<or> has_open_scope
         \<or> rn_world_settlement run = SettlementPending
         \<or> list_ex (\<lambda>attempt. rn_epoch run \<le> at_continuation_epoch attempt)
             (values_of (rn_attempts run))
         \<or> list_ex (\<lambda>effect.
              \<not> (ef_phase effect = DispatchStarted
                 \<or> (ef_phase effect = CancelledBeforeRelease \<and> ef_outcome effect = NotApplied
                    \<and> ef_reconciliation effect = Resolved))) (values_of (rn_effects run))
      then Err Validation else Ok ())"

definition verify_one_attempt ::
  "run_projection \<Rightarrow> string \<times> attempt_projection \<Rightarrow> core_error + unit" where
  "verify_one_attempt run = (\<lambda>(attempt_id, attempt).
     rbind (validate_content_id attempt_id) (\<lambda>_.
     rbind (validate_content_id (at_continuation_id attempt)) (\<lambda>_.
     rbind (validate_content_id (at_occurrence_binding attempt)) (\<lambda>_.
     if attempt_id \<noteq> at_attempt_id attempt
        \<or> rn_epoch run < at_continuation_epoch attempt
        \<or> (at_active attempt \<and> at_continuation_epoch attempt \<noteq> rn_epoch run)
     then Err Validation else Ok ()))))"

definition verify_one_run ::
  "host \<Rightarrow> string \<times> run_projection \<Rightarrow> core_error + unit" where
  "verify_one_run h = (\<lambda>(run_id, run).
     if run_id \<noteq> rn_run_id run then Err Validation
     else if rn_plan_lineage run = [] \<or> rn_binding_lineage run = [] \<or> rn_last_event run = []
        \<or> hd (rn_plan_lineage run) \<noteq> rn_initial_plan run
        \<or> last (rn_plan_lineage run) \<noteq> rn_current_plan run
        \<or> hd (rn_binding_lineage run) \<noteq> rn_initial_binding_context run
        \<or> last (rn_binding_lineage run) \<noteq> rn_current_binding_context run
     then Err Validation else
     rbind (case rn_result run of None \<Rightarrow> Ok () | Some r \<Rightarrow> artifact_ref_validate r) (\<lambda>_.
     rbind (verify_scope_projection run) (\<lambda>_.
     rbind (verify_effect_projection run) (\<lambda>_.
     rbind (verify_obligation_projection h run) (\<lambda>_.
     rbind (rcheck (verify_one_attempt run) (entries_of (rn_attempts run))) (\<lambda>_.
     let active_attempts = length (filter at_active (values_of (rn_attempts run))) in
     if 1 < active_attempts then Err Validation else
     let has_active_attempt = (active_attempts = 1);
         has_open_scope = list_ex (\<lambda>scope. sc_status scope = Open) (values_of (rn_scopes run))
     in case rn_execution_status run of
          Active \<Rightarrow> if rn_result run \<noteq> None then Err Validation else Ok ()
        | Completed \<Rightarrow> if has_active_attempt \<or> has_open_scope then Err Validation else Ok ()
        | Failed failure \<Rightarrow>
            rbind (run_failure_verify failure) (\<lambda>_.
            verify_terminal_run run has_active_attempt has_open_scope)
        | Cancelled reason \<Rightarrow>
            rbind (artifact_ref_validate reason) (\<lambda>_.
            verify_terminal_run run has_active_attempt has_open_scope)))))))"

definition verify_reducer_invariants :: "host \<Rightarrow> projection \<Rightarrow> core_error + unit" where
  "verify_reducer_invariants h projection =
     rbind (verify_execution_numbers projection) (\<lambda>_.
     rbind (verify_world_settlement_invariants projection) (\<lambda>_.
     rcheck (verify_one_run h) (entries_of (pj_runs projection))))"

definition verify_derived_indexes :: "projection \<Rightarrow> core_error + unit" where
  "verify_derived_indexes projection =
     rcheck (\<lambda>run.
       if dx_initialized (rn_derived run) then
         rbind (rebuild run) (\<lambda>index.
         if rn_derived run \<noteq> index then Err Validation else Ok ())
       else Ok ()) (values_of (pj_runs projection))"

end
