(* ===== verification/Reducer_Inv.thy ===== *)
theory Reducer_Inv
  imports Reducer_Rebuild Reducer_Audit
begin

text \<open>
  The reachable-state invariant of a Run projection, component by component, and its
  consequence: a projection that satisfies it passes both from-scratch audits of the source,
  \<open>verify_reducer_invariants\<close> and \<open>verify_derived_indexes\<close>.
\<close>

section \<open>The invariant\<close>

definition scopes_shaped :: "run_projection \<Rightarrow> bool" where
  "scopes_shaped run \<longleftrightarrow>
     (\<exists>root. fmlookup (rn_scopes run) ROOT_SCOPE_ID = Some root \<and> sc_parent_scope root = None
        \<and> sc_site_id root = None \<and> sc_invocation_path root = [] \<and> sc_region_path root = [])
     \<and> (\<forall>s sc. fmlookup (rn_scopes run) s = Some sc \<longrightarrow>
          (\<forall>i\<in>set (sc_intent_order sc). validate_content_id i = Ok ())
          \<and> (s \<noteq> ROOT_SCOPE_ID \<longrightarrow>
               sc_site_id sc \<noteq> None \<and> sc_region_path sc \<noteq> [] \<and> sc_parent_scope sc \<noteq> None)
          \<and> (sc_status sc = Open \<longrightarrow> (\<forall>p. sc_parent_scope sc = Some p \<longrightarrow>
               (\<exists>parent. fmlookup (rn_scopes run) p = Some parent \<and> sc_status parent = Open))))"

definition parents_acyclic :: "(string, scope_projection) fmap \<Rightarrow> bool" where
  "parents_acyclic S \<longleftrightarrow>
     (\<exists>rank :: string \<Rightarrow> nat. \<forall>s sc p. fmlookup S s = Some sc \<longrightarrow> sc_parent_scope sc = Some p
        \<longrightarrow> rank p < rank s)"

definition effect_ok :: "run_projection \<Rightarrow> effect_projection \<Rightarrow> bool" where
  "effect_ok run e \<longleftrightarrow> effect_reducer_legal e
     \<and> validate_effect_args_reference (ep_args e) = Ok ()
     \<and> artifact_ref_validate (ep_execution_binding e) = Ok ()
     \<and> ar_kind (ep_execution_binding e) = EXECUTION_BINDING_ARTIFACT_KIND
     \<and> (\<forall>sc. fmlookup (rn_scopes run) (ep_scope_id e) = Some sc
          \<longrightarrow> verify_effect_scope_state e sc = Ok ())"

definition effects_ok :: "run_projection \<Rightarrow> bool" where
  "effects_ok run \<longleftrightarrow> (\<forall>i e. fmlookup (rn_effects run) i = Some e \<longrightarrow> effect_ok run e)"

definition committed_mutation :: "run_projection \<Rightarrow> string \<Rightarrow> effect_projection \<Rightarrow> bool" where
  "committed_mutation run i e \<longleftrightarrow> fmlookup (rn_effects run) i = Some e
     \<and> pf_mutation (ep_profile e) = Mutating
     \<and> (\<exists>sc. fmlookup (rn_scopes run) (ep_scope_id e) = Some sc \<and> sc_status sc = ClosedCommitted)"

definition obligation_of :: "string \<Rightarrow> string \<Rightarrow> effect_projection \<Rightarrow> obligation_projection" where
  "obligation_of b i e = \<lparr>ob_obligation_id = b, ob_intent_id = i, ob_blocking = True,
     ob_resolved = effect_resolved e\<rparr>"

text \<open>Exactly one obligation for each mutating Effect of a committed scope, and no other.\<close>

definition obligations_exact :: "host \<Rightarrow> run_projection \<Rightarrow> bool" where
  "obligations_exact h run \<longleftrightarrow>
     (\<forall>b ob. fmlookup (rn_obligations run) b = Some ob \<longleftrightarrow>
        (\<exists>i e. committed_mutation run i e \<and> effect_obligation_id h i = Ok b
               \<and> ob = obligation_of b i e))"

definition attempts_ok :: "run_projection \<Rightarrow> bool" where
  "attempts_ok run \<longleftrightarrow> rn_epoch run \<le> MAX_EXACT_INTEGER
     \<and> (\<forall>a t. fmlookup (rn_attempts run) a = Some t \<longrightarrow>
          validate_content_id a = Ok () \<and> validate_content_id (at_continuation_id t) = Ok ()
          \<and> validate_content_id (at_occurrence_binding t) = Ok ()
          \<and> at_continuation_epoch t \<le> rn_epoch run
          \<and> (at_active t \<longrightarrow> at_continuation_epoch t = rn_epoch run)
          \<and> 0 < at_execution_fence t \<and> at_execution_fence t \<le> MAX_EXACT_INTEGER)"

definition no_active_attempt :: "run_projection \<Rightarrow> bool" where
  "no_active_attempt run \<longleftrightarrow> active_of (rn_attempts run) = None"

definition no_open_scope :: "run_projection \<Rightarrow> bool" where
  "no_open_scope run \<longleftrightarrow> open_scopes (rn_scopes run) = {||}"

definition terminal_ok :: "run_projection \<Rightarrow> bool" where
  "terminal_ok run \<longleftrightarrow> rn_epoch run \<noteq> 0 \<and> rn_result run = None \<and> no_active_attempt run
     \<and> no_open_scope run
     \<and> (\<forall>a t. fmlookup (rn_attempts run) a = Some t \<longrightarrow> at_continuation_epoch t < rn_epoch run)
     \<and> (\<forall>i e. fmlookup (rn_effects run) i = Some e \<longrightarrow> \<not> needs_terminal_transition e)"

definition status_ok :: "run_projection \<Rightarrow> bool" where
  "status_ok run =
     (case rn_execution_status run of
        Active \<Rightarrow> rn_result run = None
      | Completed \<Rightarrow> rn_world_settlement run = Settled \<and> no_active_attempt run \<and> no_open_scope run
          \<and> (\<forall>r. rn_result run = Some r \<longrightarrow> artifact_ref_validate r = Ok ())
      | Failed failure \<Rightarrow> run_failure_verify failure = Ok () \<and> terminal_ok run
      | Cancelled reason \<Rightarrow> artifact_ref_validate reason = Ok () \<and> terminal_ok run)"

definition lineage_ok :: "run_projection \<Rightarrow> bool" where
  "lineage_ok run \<longleftrightarrow> rn_plan_lineage run \<noteq> [] \<and> rn_binding_lineage run \<noteq> []
     \<and> hd (rn_plan_lineage run) = rn_initial_plan run
     \<and> last (rn_plan_lineage run) = rn_current_plan run
     \<and> hd (rn_binding_lineage run) = rn_initial_binding_context run
     \<and> last (rn_binding_lineage run) = rn_current_binding_context run"

definition run_inv :: "host \<Rightarrow> run_projection \<Rightarrow> bool" where
  "run_inv h run \<longleftrightarrow> run_keyed run \<and> rn_derived run = run_index run
     \<and> scopes_shaped run \<and> parents_acyclic (rn_scopes run) \<and> effects_ok run
     \<and> obligations_exact h run \<and> attempts_ok run \<and> status_ok run \<and> lineage_ok run
     \<and> rn_world_settlement run = settlement (run_index run)"

definition projection_inv :: "host \<Rightarrow> projection \<Rightarrow> bool" where
  "projection_inv h projection \<longleftrightarrow>
     (\<forall>r run. fmlookup (pj_runs projection) r = Some run \<longrightarrow>
        run_inv h run \<and> rn_run_id run = r \<and> rn_last_event run \<noteq> [])"

lemma run_invD:
  assumes "run_inv h run"
  shows "run_keyed run" "rn_derived run = run_index run" "scopes_shaped run"
    "parents_acyclic (rn_scopes run)" "effects_ok run" "obligations_exact h run" "attempts_ok run"
    "status_ok run" "lineage_ok run" "rn_world_settlement run = settlement (run_index run)"
  using assms by (simp_all add: run_inv_def)

section \<open>Settlement\<close>

lemma settlement_index:
  "settlement (run_index run) = derive_world_settlement run"
proof -
  have g: "effects_where (\<lambda>e. effect_settlement_class e = ClassGovernance) (rn_effects run) = {||}
      \<longleftrightarrow> \<not> list_ex (\<lambda>e. ef_reconciliation e = GovernanceRequired) (values_of (rn_effects run))"
    by (auto simp: effects_where_empty_iff list_ex_iff effect_settlement_class_def split: if_splits)
  have u: "effects_where (\<lambda>e. effect_settlement_class e = ClassUnknown) (rn_effects run) = {||}
      \<longleftrightarrow> \<not> list_ex (\<lambda>e. ef_outcome e = Unknown) (values_of (rn_effects run))"
    if "\<not> list_ex (\<lambda>e. ef_reconciliation e = GovernanceRequired) (values_of (rn_effects run))"
    using that
    by (auto simp: effects_where_empty_iff list_ex_iff effect_settlement_class_def split: if_splits)
  have p: "effects_where (\<lambda>e. effect_settlement_class e = ClassPending) (rn_effects run) = {||}
      \<longleftrightarrow> \<not> list_ex (\<lambda>e. ef_phase e \<noteq> CancelledBeforeRelease \<and> ef_outcome e = Unobserved)
            (values_of (rn_effects run))"
    if "\<not> list_ex (\<lambda>e. ef_reconciliation e = GovernanceRequired) (values_of (rn_effects run))"
      "\<not> list_ex (\<lambda>e. ef_outcome e = Unknown) (values_of (rn_effects run))"
    using that
    by (auto simp: effects_where_empty_iff list_ex_iff effect_settlement_class_def split: if_splits)
  show ?thesis
    using g u p by (simp add: settlement_def derive_world_settlement_def run_index_def
        del: set_values_of)
qed

section \<open>The scope audit\<close>

lemma verify_ancestors_ok:
  assumes rank: "\<And>s sc p. fmlookup S s = Some sc \<Longrightarrow> sc_parent_scope sc = Some p \<Longrightarrow> rank p < (rank s :: nat)"
    and known: "\<And>s sc p. fmlookup S s = Some sc \<Longrightarrow> sc_parent_scope sc = Some p \<Longrightarrow> fmlookup S p \<noteq> None"
    and opened: "\<And>s sc p psc. fmlookup S s = Some sc \<Longrightarrow> sc_status sc = Open
        \<Longrightarrow> sc_parent_scope sc = Some p \<Longrightarrow> fmlookup S p = Some psc \<Longrightarrow> sc_status psc = Open"
    and start: "\<And>a. ancestor = Some a \<Longrightarrow>
        (\<exists>sc. fmlookup S a = Some sc \<and> (sc_status scope = Open \<longrightarrow> sc_status sc = Open))
        \<and> (\<forall>t. t |\<in>| seen \<longrightarrow> rank a < rank t)"
  shows "verify_ancestors S scope seen ancestor = Ok ()"
  using start
proof (induction "case ancestor of None \<Rightarrow> 0 | Some a \<Rightarrow> Suc (rank a)" arbitrary: ancestor seen
    rule: less_induct)
  case less
  show ?case
  proof (cases ancestor)
    case None
    then show ?thesis by (simp add: verify_ancestors.simps)
  next
    case (Some a)
    from less.prems [OF Some] obtain sc where sc: "fmlookup S a = Some sc"
      "sc_status scope = Open \<longrightarrow> sc_status sc = Open" "\<And>t. t |\<in>| seen \<Longrightarrow> rank a < rank t" by auto
    have "verify_ancestors S scope (finsert a seen) (sc_parent_scope sc) = Ok ()"
    proof (rule less.hyps)
      show "(case sc_parent_scope sc of None \<Rightarrow> 0 | Some a \<Rightarrow> Suc (rank a))
          < (case ancestor of None \<Rightarrow> 0 | Some a \<Rightarrow> Suc (rank a))"
        using rank [OF sc(1)] Some by (auto split: option.splits)
      show "(\<exists>u. fmlookup S p = Some u \<and> (sc_status scope = Open \<longrightarrow> sc_status u = Open))
          \<and> (\<forall>t. t |\<in>| finsert a seen \<longrightarrow> rank p < rank t)" if "sc_parent_scope sc = Some p" for p
        using known [OF sc(1) that] opened [OF sc(1) _ that] rank [OF sc(1) that] sc(2,3)
        by (metis finsert_iff not_None_eq order.strict_trans)
    qed
    moreover have "a |\<notin>| seen" using sc(3) by blast
    ultimately show ?thesis
      using sc(1,2) unfolding Some by (simp add: verify_ancestors.simps [of S scope seen "Some a"])
  qed
qed

lemma verify_scope_projection_ok:
  assumes keyed: "scopes_keyed run" and shaped: "scopes_shaped run"
    and acyclic: "parents_acyclic (rn_scopes run)"
  shows "verify_scope_projection run = Ok ()"
proof -
  let ?S = "rn_scopes run"
  obtain root where root: "fmlookup ?S ROOT_SCOPE_ID = Some root" "sc_parent_scope root = None"
      "sc_site_id root = None" "sc_invocation_path root = []" "sc_region_path root = []"
    using shaped unfolding scopes_shaped_def by blast
  obtain rank :: "string \<Rightarrow> nat" where rank: "\<And>s sc p. fmlookup ?S s = Some sc
      \<Longrightarrow> sc_parent_scope sc = Some p \<Longrightarrow> rank p < rank s"
    using acyclic unfolding parents_acyclic_def by blast
  have opened: "sc_status psc = Open" if "fmlookup ?S s = Some sc" "sc_status sc = Open"
      "sc_parent_scope sc = Some p" "fmlookup ?S p = Some psc" for s sc p psc
    using shaped that unfolding scopes_shaped_def by fastforce
  have "verify_one_scope run (s, sc) = Ok ()" if s: "fmlookup ?S s = Some sc" for s sc
  proof -
    note k = scopes_keyedD [OF keyed s]
    have ids: "\<forall>i\<in>set (sc_intent_order sc). validate_content_id i = Ok ()"
      and inner: "s \<noteq> ROOT_SCOPE_ID \<Longrightarrow> sc_site_id sc \<noteq> None \<and> sc_region_path sc \<noteq> []
        \<and> sc_parent_scope sc \<noteq> None"
      using shaped s unfolding scopes_shaped_def by blast+
    have "verify_ancestors ?S sc {|s|} (Some p) = Ok ()" if "sc_parent_scope sc = Some p" for p
    proof (rule verify_ancestors_ok [OF rank scopes_keyedD(6) [OF keyed] opened])
      fix a
      assume "Some p = Some a"
      then show "(\<exists>u. fmlookup ?S a = Some u \<and> (sc_status sc = Open \<longrightarrow> sc_status u = Open))
          \<and> (\<forall>t. t |\<in>| {|s|} \<longrightarrow> rank a < rank t)"
        using k(6) [OF that] opened [OF s _ that] rank [OF s that] by auto
    qed
    moreover have "p \<noteq> s" if "sc_parent_scope sc = Some p" for p using rank [OF s that] by auto
    ultimately show ?thesis
      using k ids inner by (auto simp: verify_one_scope_def Let_def fcard_order)
  qed
  then show ?thesis
    using root scopes_keyedD(1) [OF keyed root(1)] by (auto simp: verify_scope_projection_def)
qed

section \<open>The Effect and obligation audits\<close>

lemma verify_effect_projection_ok:
  assumes "scopes_keyed run" "effects_keyed run" "effects_ok run"
  shows "verify_effect_projection run = Ok ()"
proof -
  have "verify_one_effect run (i, e) = Ok ()" if i: "fmlookup (rn_effects run) i = Some e" for i e
  proof -
    obtain sc where sc: "fmlookup (rn_scopes run) (ep_scope_id e) = Some sc" "i \<in> set (sc_intent_order sc)"
      using effects_keyedD(2) [OF assms(2) i] by blast
    have "effect_ok run e" using assms(3) i by (auto simp: effects_ok_def)
    then show ?thesis
      using sc scopes_keyedD(3) [OF assms(1) sc(1)] effects_keyedD(1) [OF assms(2) i]
      by (simp add: verify_one_effect_def effect_ok_def verify_effect_reducer_state_def fset_of_list_elem)
  qed
  moreover have "\<exists>e. fmlookup (rn_effects run) i = Some e \<and> ep_scope_id e = sc_scope_id sc"
    if "fmlookup (rn_scopes run) s = Some sc" "i |\<in>| sc_intents sc" for s sc i
    using scopes_keyedD [OF assms(1) that(1)] that(2) by (simp add: fset_of_list_elem)
  ultimately show ?thesis
    by (fastforce simp: verify_effect_projection_def)
qed

lemma effect_obligation_id_total: "\<exists>b. effect_obligation_id h i = Ok b"
  by (simp add: effect_obligation_id_def content_id_def canonical_bytes_eq)

lemma obligations_exactD:
  assumes "obligations_exact h run" "fmlookup (rn_obligations run) b = Some ob"
  shows "\<exists>e. committed_mutation run (ob_intent_id ob) e
     \<and> effect_obligation_id h (ob_intent_id ob) = Ok b \<and> ob = obligation_of b (ob_intent_id ob) e"
proof -
  obtain i e where "committed_mutation run i e" "effect_obligation_id h i = Ok b"
    "ob = obligation_of b i e"
    using assms unfolding obligations_exact_def by blast
  moreover from this(3) have "ob_intent_id ob = i" by (simp add: obligation_of_def)
  ultimately show ?thesis by metis
qed

lemma obligations_exactI:
  assumes "obligations_exact h run" "committed_mutation run i e" "effect_obligation_id h i = Ok b"
  shows "fmlookup (rn_obligations run) b = Some (obligation_of b i e)"
  using assms unfolding obligations_exact_def by blast

lemma verify_obligation_projection_ok:
  assumes keyed: "effects_keyed run" and exact: "obligations_exact h run"
  shows "verify_obligation_projection h run = Ok ()"
proof -
  let ?E = "rn_effects run"
  let ?D = "\<lambda>m. fmfilter (\<lambda>b. ob_intent_id (the (fmlookup (rn_obligations run) b)) |\<in>| fmdom m)
    (rn_obligations run)"
  have "rfold (expected_obligation h run) (values_of ?E) (?D (fmempty :: (string, effect_projection) fmap)) = Ok (?D ?E)"
  proof (rule rfold_values_build [where D = ?D])
    fix i e and m :: "(string, effect_projection) fmap"
    assume i: "fmlookup ?E i = Some e" "fmlookup m i = None"
    obtain sc where sc: "fmlookup (rn_scopes run) (ep_scope_id e) = Some sc"
      using effects_keyedD(2) [OF keyed i(1)] by blast
    obtain b where b: "effect_obligation_id h i = Ok b" using effect_obligation_id_total by blast
    have id: "ep_intent_id e = i" using effects_keyedD(1) [OF keyed i(1)] .
    show "expected_obligation h run e (?D m) = Ok (?D (fmupd i e m))"
    proof (cases "committed_mutation run i e")
      case True
      then have here: "pf_mutation (ep_profile e) = Mutating" "sc_status sc = ClosedCommitted"
        using sc by (auto simp: committed_mutation_def)
      have at_b: "fmlookup (rn_obligations run) b = Some (obligation_of b i e)"
        by (rule obligations_exactI [OF exact True b])
      have "fmupd b (obligation_of b i e) (?D m) = ?D (fmupd i e m)"
      proof (rule fmap_ext)
        fix x
        show "fmlookup (fmupd b (obligation_of b i e) (?D m)) x = fmlookup (?D (fmupd i e m)) x"
        proof (cases "x = b")
          case True
          then show ?thesis using at_b by (simp add: obligation_of_def)
        next
          case False
          have "ob_intent_id ob \<noteq> i" if "fmlookup (rn_obligations run) x = Some ob" for ob
            using obligations_exactD [OF exact that] b False by auto
          then show ?thesis using False by (cases "fmlookup (rn_obligations run) x") auto
        qed
      qed
      then show ?thesis using sc b here by (simp add: expected_obligation_def id obligation_of_def)
    next
      case False
      have "ob_intent_id ob \<noteq> i" if "fmlookup (rn_obligations run) x = Some ob" for x ob
        using obligations_exactD [OF exact that] False i(1) by (auto simp: committed_mutation_def)
      then have "?D (fmupd i e m) = ?D m" by (intro fmap_ext) (metis (mono_tags, lifting) finsert_iff fmdom_fmupd fmlookup_filter option.sel not_None_eq)
      with False i(1) sc show ?thesis
        by (auto simp: expected_obligation_def committed_mutation_def)
    qed
  qed
  moreover have "?D ?E = rn_obligations run"
  proof (rule fmap_ext)
    show "fmlookup (?D ?E) x = fmlookup (rn_obligations run) x" for x
      using obligations_exactD [OF exact, of x]
      by (cases "fmlookup (rn_obligations run) x") (auto simp: committed_mutation_def fmdomI)
  qed
  moreover have "?D (fmempty :: (string, effect_projection) fmap) = fmempty" by (rule fmap_ext) auto
  ultimately show ?thesis by (simp add: verify_obligation_projection_def)
qed

section \<open>The whole audit\<close>

lemma active_count:
  assumes "one_active A"
  shows "length (filter at_active (values_of A)) \<le> 1"
    and "length (filter at_active (values_of A)) = 1 \<longleftrightarrow> active_of A \<noteq> None"
proof -
  let ?xs = "filter (\<lambda>kv. at_active (snd kv)) (entries_of A)"
  have len: "length (filter at_active (values_of A)) = length ?xs"
    by (simp add: filter_map comp_def)
  have "distinct ?xs" using distinct_entries_of by (rule distinct_filter)
  moreover have same: "x = y" if "x \<in> set ?xs" "y \<in> set ?xs" for x y
  proof -
    have x: "fmlookup A (fst x) = Some (snd x)" "at_active (snd x)"
      and y: "fmlookup A (fst y) = Some (snd y)" "at_active (snd y)" using that by auto
    with assms have "fst x = fst y" unfolding one_active_def by blast
    with x y show ?thesis by (simp add: prod_eq_iff)
  qed
  ultimately have le: "length ?xs \<le> 1"
    by (metis One_nat_def distinct_card card_le_Suc0_iff_eq finite_set)
  then show "length (filter at_active (values_of A)) \<le> 1" using len by simp
  have "?xs = [] \<longleftrightarrow> active_of A = None"
    by (auto simp: filter_empty_conv active_of_None)
  then show "length (filter at_active (values_of A)) = 1 \<longleftrightarrow> active_of A \<noteq> None"
    using le len by (cases ?xs) auto
qed

lemma verify_terminal_run_ok:
  assumes "terminal_ok run" "effects_ok run"
    and "rn_world_settlement run = derive_world_settlement run"
  shows "verify_terminal_run run False False = Ok ()"
proof -
  have legal: "effect_reducer_legal e" "\<not> needs_terminal_transition e"
    if "fmlookup (rn_effects run) i = Some e" for i e
    using assms(1,2) that by (auto simp: terminal_ok_def effects_ok_def effect_ok_def)
  have "\<not> (ef_phase e \<noteq> CancelledBeforeRelease \<and> ef_outcome e = Unobserved)"
    if "fmlookup (rn_effects run) i = Some e" for i e
    using legal [OF that] by (auto simp: needs_terminal_transition_def)
  then have "rn_world_settlement run \<noteq> SettlementPending"
    unfolding assms(3) by (auto simp: derive_world_settlement_def list_ex_iff)
  moreover have "ef_phase e = DispatchStarted \<or> (ef_phase e = CancelledBeforeRelease
      \<and> ef_outcome e = NotApplied \<and> ef_reconciliation e = Resolved)"
    if "fmlookup (rn_effects run) i = Some e" for i e
    using legal [OF that]
    by (cases "ef_phase e") (auto simp: needs_terminal_transition_def effect_reducer_legal_def)
  ultimately show ?thesis
    using assms(1) by (fastforce simp: verify_terminal_run_def terminal_ok_def list_ex_iff)
qed

lemma verify_one_run_ok:
  assumes inv: "run_inv h run" and "rn_run_id run = r" "rn_last_event run \<noteq> []"
  shows "verify_one_run h (r, run) = Ok ()"
proof -
  note i = run_invD [OF inv] run_keyedD [OF run_invD(1) [OF inv]]
  have one: "one_active (rn_attempts run)" using i(14) by (simp add: attempts_keyed_def)
  have att: "verify_one_attempt run (a, t) = Ok ()" if "fmlookup (rn_attempts run) a = Some t" for a t
  proof -
    have "at_attempt_id t = a" using i(14) that by (simp add: attempts_keyed_def)
    moreover have "at_continuation_epoch t \<le> rn_epoch run"
      "at_active t \<longrightarrow> at_continuation_epoch t = rn_epoch run" "validate_content_id a = Ok ()"
      "validate_content_id (at_continuation_id t) = Ok ()"
      "validate_content_id (at_occurrence_binding t) = Ok ()"
      using i(7) that by (auto simp: attempts_ok_def)
    ultimately show ?thesis by (simp add: verify_one_attempt_def)
  qed
  have active: "length (filter at_active (values_of (rn_attempts run))) = 1 \<longleftrightarrow> \<not> no_active_attempt run"
    using active_count(2) [OF one] by (simp add: no_active_attempt_def)
  have few: "\<not> 1 < length (filter at_active (values_of (rn_attempts run)))"
    using active_count(1) [OF one] by simp
  have opened: "list_ex (\<lambda>scope. sc_status scope = Open) (values_of (rn_scopes run)) \<longleftrightarrow> \<not> no_open_scope run"
    by (auto simp: no_open_scope_def list_ex_iff) (metis open_scopes_iff fempty_iff ex_fin_conv)
  have terminal: "verify_terminal_run run False False = Ok ()" if "terminal_ok run"
    using verify_terminal_run_ok [OF that i(5)] i(10) settlement_index by simp
  note audits = verify_scope_projection_ok [OF i(11,3,4)] verify_effect_projection_ok [OF i(11,12,5)]
    verify_obligation_projection_ok [OF i(12,6)]
  show ?thesis
    using i(8,9) assms(2,3) att few terminal
    unfolding verify_one_run_def prod.case audits active opened Let_def status_ok_def lineage_ok_def
    by (auto simp: terminal_ok_def split: run_execution_status.splits option.splits)
qed

theorem projection_inv_audits:
  assumes "projection_inv h projection"
  shows "verify_reducer_invariants h projection = Ok ()"
    and "verify_derived_indexes projection = Ok ()"
proof -
  have inv: "run_inv h run" "rn_run_id run = r" "rn_last_event run \<noteq> []"
    if "fmlookup (pj_runs projection) r = Some run" for r run
    using assms that by (auto simp: projection_inv_def)
  have index: "rebuild run = Ok (rn_derived run)" if "fmlookup (pj_runs projection) r = Some run" for r run
    using rebuild_run_index run_invD(1,2) [OF inv(1) [OF that]] by simp
  then show "verify_derived_indexes projection = Ok ()"
    by (auto simp: verify_derived_indexes_def)
  have numbers: "rn_epoch run \<le> MAX_EXACT_INTEGER \<and> (\<forall>a t. fmlookup (rn_attempts run) a = Some t \<longrightarrow>
      at_continuation_epoch t \<le> MAX_EXACT_INTEGER \<and> 0 < at_execution_fence t
      \<and> at_execution_fence t \<le> MAX_EXACT_INTEGER)"
    if "fmlookup (pj_runs projection) r = Some run" for r run
    using run_invD(7) [OF inv(1) [OF that]] by (auto simp: attempts_ok_def) (meson le_trans)
  have exact: "verify_execution_numbers projection = Ok ()"
    unfolding verify_execution_numbers_def by (auto dest!: numbers simp: not_less)
  have settled: "rn_world_settlement run = derive_world_settlement run"
      "rn_execution_status run = Completed \<Longrightarrow> derive_world_settlement run = Settled"
    if "fmlookup (pj_runs projection) r = Some run" for r run
    using run_invD(8,10) [OF inv(1) [OF that]] by (simp_all add: status_ok_def settlement_index)
  have "verify_world_settlement_invariants projection = Ok ()"
    unfolding verify_world_settlement_invariants_def using settled by (auto simp: Let_def)
  with exact show "verify_reducer_invariants h projection = Ok ()"
    using verify_one_run_ok [OF inv] by (auto simp: verify_reducer_invariants_def)
qed

end
