(* ===== verification/Event_Verify.thy ===== *)
theory Event_Verify
  imports Reducer_Audit
begin

text \<open>
  What an Event must satisfy before the Machine hands it to the reducer: the payload checks of
  \<^verbatim>\<open>Event::verify\<close> (\<^verbatim>\<open>model.rs\<close>), the identity checks of
  \<^verbatim>\<open>Machine::validate_event_authority\<close> (\<^verbatim>\<open>machine.rs\<close>), and \<open>event_admitted\<close>, the conjunction of
  these with the two facts the Machine reads off the sealed Plan.
\<close>

definition RUN_INPUT_ARTIFACT_KIND :: string where
  "RUN_INPUT_ARTIFACT_KIND = ''cymule.input/1''"

text \<open>\<^verbatim>\<open>validate_identity\<close> counts Unicode scalar values and rejects control characters; over
  UTF-8 bytes a scalar value is a byte that is no continuation byte, and the control
  characters are the bytes below 0x20, 0x7F, and the pairs 0xC2 0x80 to 0xC2 0x9F.\<close>

definition is_continuation_byte :: "char \<Rightarrow> bool" where
  "is_continuation_byte c = (CHR 0x80 \<le> c \<and> c \<le> CHR 0xBF)"

fun has_control :: "string \<Rightarrow> bool" where
  "has_control [] = False"
| "has_control [c] = (c < CHR 0x20 \<or> c = CHR 0x7F)"
| "has_control (c # d # cs) =
     (c < CHR 0x20 \<or> c = CHR 0x7F \<or> (c = CHR 0xC2 \<and> CHR 0x80 \<le> d \<and> d \<le> CHR 0x9F)
      \<or> has_control (d # cs))"

definition validate_identity :: "string \<Rightarrow> core_error + unit" where
  "validate_identity value =
     (if value = [] \<or> 512 < length (filter (\<lambda>c. \<not> is_continuation_byte c) value)
         \<or> has_control value
      then Err Validation else Ok ())"

definition event_verify_payload :: "event_payload \<Rightarrow> core_error + unit" where
  "event_verify_payload payload =
     (case payload of
        RunStarted _ _ _ input \<Rightarrow>
          rbind (artifact_ref_validate input) (\<lambda>_.
          if ar_kind input \<noteq> RUN_INPUT_ARTIFACT_KIND then Err Validation else Ok ())
      | EffectProposed p \<Rightarrow>
          rbind (validate_effect_args_reference (ep_args p)) (\<lambda>_.
          rbind (artifact_ref_validate (ep_execution_binding p)) (\<lambda>_.
          if ar_kind (ep_execution_binding p) \<noteq> EXECUTION_BINDING_ARTIFACT_KIND
          then Err Validation else Ok ()))
      | ScopeCommitted _ obligation_count obligation_commitment \<Rightarrow>
          if MAX_EXACT_INTEGER < obligation_count then Err Validation
          else validate_content_id obligation_commitment
      | RunCompleted (Some result) \<Rightarrow> artifact_ref_validate result
      | RunFailed failure _ \<Rightarrow> run_failure_verify failure
      | RunCancelled reason _ \<Rightarrow> artifact_ref_validate reason
      | FactRecorded key value \<Rightarrow>
          rbind (validate_identity key) (\<lambda>_. validate_content_id value)
      | _ \<Rightarrow> Ok ())"

definition event_authority_identities :: "event_payload \<Rightarrow> core_error + unit" where
  "event_authority_identities payload =
     (case payload of
        EffectProposed p \<Rightarrow> validate_content_id (ep_occurrence_binding p)
      | AttemptStarted attempt_id continuation_id occurrence_binding _ _ \<Rightarrow>
          rbind (validate_content_id attempt_id) (\<lambda>_.
          rbind (validate_content_id continuation_id) (\<lambda>_.
          validate_content_id occurrence_binding))
      | AttemptYielded attempt_id _ _ \<Rightarrow> validate_content_id attempt_id
      | _ \<Rightarrow> Ok ())"

text \<open>From the sealed Plan the Machine takes that an opened scope has a non-empty Region path
  (\<^verbatim>\<open>Machine::validate_scope_open\<close>) and that a proposed Effect has the profile of a validated
  contract, where a mutating Effect is never dispatched eagerly (\<^verbatim>\<open>PlanCandidate::validate\<close>).\<close>

definition event_plan_facts :: "event_payload \<Rightarrow> bool" where
  "event_plan_facts payload =
     (case payload of
        ScopeOpened _ _ _ _ _ region_path _ \<Rightarrow> region_path \<noteq> []
      | EffectProposed p \<Rightarrow>
          \<not> (pf_mutation (ep_profile p) = Mutating \<and> pf_dispatch (ep_profile p) = Eager)
      | _ \<Rightarrow> True)"

definition event_admitted :: "event \<Rightarrow> bool" where
  "event_admitted event \<longleftrightarrow> ev_event_id event \<noteq> []
     \<and> event_verify_payload (ev_payload event) = Ok ()
     \<and> event_authority_identities (ev_payload event) = Ok ()
     \<and> event_plan_facts (ev_payload event)"

end
