(* ===== verification/Reducer_Preserve.thy ===== *)
theory Reducer_Preserve
  imports Reducer_Inv Event_Verify
begin

text \<open>
  Every Event handler keeps the invariant \<open>run_inv\<close>: in particular the incrementally
  maintained index stays equal to the index of the new canonical fields.
\<close>

section \<open>Frame rules\<close>

lemma frame_scopes:
  assumes "rn_scopes run' = rn_scopes run" "rn_effects run' = rn_effects run"
  shows "scopes_keyed run' = scopes_keyed run" "effects_keyed run' = effects_keyed run"
    "scopes_shaped run' = scopes_shaped run" "effects_ok run' = effects_ok run"
    "counts_bounded run' = counts_bounded run"
  by (simp_all add: scopes_keyed_def effects_keyed_def scopes_shaped_def effects_ok_def effect_ok_def
      counts_bounded_def assms)

lemma frame_obligations:
  assumes "rn_scopes run' = rn_scopes run" "rn_effects run' = rn_effects run"
    "rn_obligations run' = rn_obligations run"
  shows "obligations_keyed run' = obligations_keyed run"
    "obligations_exact h run' = obligations_exact h run"
  by (simp_all add: obligations_keyed_def obligations_exact_def committed_mutation_def assms)

lemma effect_ok_status:
  assumes "effect_ok run e"
    and "\<And>sc'. fmlookup (rn_scopes run') (ep_scope_id e) = Some sc' \<Longrightarrow>
      \<exists>sc. fmlookup (rn_scopes run) (ep_scope_id e) = Some sc \<and> sc_status sc = sc_status sc'"
  shows "effect_ok run' e"
proof -
  have "verify_effect_scope_state e sc' = verify_effect_scope_state e sc"
    if "sc_status sc = sc_status sc'" for sc sc'
    unfolding verify_effect_scope_state_def that ..
  then show ?thesis using assms unfolding effect_ok_def by metis
qed

lemma effects_okD: "effects_ok run \<Longrightarrow> fmlookup (rn_effects run) i = Some e \<Longrightarrow> effect_ok run e"
  by (simp add: effects_ok_def)

text \<open>An Event that changes no scope, Effect or obligation.\<close>

lemma run_inv_control:
  assumes inv: "run_inv h run"
    and same: "rn_scopes run' = rn_scopes run" "rn_effects run' = rn_effects run"
      "rn_obligations run' = rn_obligations run" "rn_world_settlement run' = rn_world_settlement run"
    and derived: "rn_derived run' = (rn_derived run)\<lparr>dx_active_attempt := active_of (rn_attempts run')\<rparr>"
    and attempts: "attempts_keyed run'" "attempts_ok run'"
    and rest: "status_ok run'" "lineage_ok run'"
  shows "run_inv h run'"
proof -
  note i = run_invD [OF inv] run_keyedD [OF run_invD(1) [OF inv]]
  have "run_index run' = rn_derived run'"
    unfolding derived i(2) run_index_def same by (rule mk_index_attempts)
  moreover have "settlement (run_index run') = settlement (run_index run)"
    by (simp add: settlement_def run_index_def same)
  ultimately show ?thesis
    using i attempts rest
    by (simp add: run_inv_def run_keyed_def frame_scopes [of run' run] frame_obligations [of run' run] same)
qed

lemma run_inv_derived: "run_inv h run \<Longrightarrow> rn_derived run = mk_index (rn_attempts run) (rn_scopes run)
    (rn_effects run) (rn_obligations run)"
  by (simp add: run_inv_def run_index_def)

section \<open>Attempts and epochs\<close>

lemma apply_attempt_started_inv:
  assumes inv: "run_inv h run" and active: "rn_execution_status run = Active"
    and ids: "event_authority_identities (AttemptStarted a c b ep fence) = Ok ()"
    and ok: "apply_attempt_started run a c b ep fence = Ok run'"
  shows "run_inv h run'"
proof -
  note i = run_invD [OF inv] run_keyedD [OF run_invD(1) [OF inv]]
  let ?t = "\<lparr>at_attempt_id = a, at_continuation_id = c, at_occurrence_binding = b,
    at_continuation_epoch = ep, at_execution_fence = fence, at_active = True\<rparr>"
  have ep: "ep = rn_epoch run" "0 < fence" "fence \<le> MAX_EXACT_INTEGER"
    and none: "active_of (rn_attempts run) = None" "fmlookup (rn_attempts run) a = None"
    and run': "run' = run\<lparr>rn_attempts := fmupd a ?t (rn_attempts run),
      rn_derived := (rn_derived run)\<lparr>dx_active_attempt := Some a\<rparr>\<rparr>"
    using ok by (auto simp: apply_attempt_started_def verify_attempt_numbers_def
        run_inv_derived [OF inv] split: if_splits)
  have start: "active_of (fmupd a ?t (rn_attempts run)) = Some a" "one_active (fmupd a ?t (rn_attempts run))"
    using active_of_start [OF none(1), of ?t a] by simp_all
  show ?thesis
  proof (rule run_inv_control [OF inv])
    show "attempts_keyed run'" using i(14) start(2) by (auto simp: attempts_keyed_def run')
    show "attempts_ok run'" using i(7) ids ep
      by (auto simp: attempts_ok_def run' event_authority_identities_def)
    show "status_ok run'" using i(8) active by (simp add: status_ok_def run')
    show "lineage_ok run'" using i(9) by (simp add: lineage_ok_def run')
  qed (simp_all add: run' start)
qed

lemma apply_attempt_yielded_inv:
  assumes inv: "run_inv h run" and active: "rn_execution_status run = Active"
    and ok: "apply_attempt_yielded run a ep fence = Ok run'"
  shows "run_inv h run'"
proof -
  note i = run_invD [OF inv] run_keyedD [OF run_invD(1) [OF inv]]
  obtain t where t: "fmlookup (rn_attempts run) a = Some t" "at_active t"
    and run': "run' = run\<lparr>rn_attempts := fmupd a (t\<lparr>at_active := False\<rparr>) (rn_attempts run),
      rn_derived := (rn_derived run)\<lparr>dx_active_attempt := None\<rparr>\<rparr>"
    using ok by (auto simp: apply_attempt_yielded_def split: if_splits)
  have one: "one_active (rn_attempts run)" using i(14) by (simp add: attempts_keyed_def)
  note stop = active_of_stop [OF one t, of "t\<lparr>at_active := False\<rparr>"]
  show ?thesis
  proof (rule run_inv_control [OF inv])
    show "attempts_keyed run'" using i(14) stop t by (auto simp: attempts_keyed_def run')
    show "attempts_ok run'" using i(7) t by (auto simp: attempts_ok_def run')
    show "status_ok run'" using i(8) active by (simp add: status_ok_def run')
    show "lineage_ok run'" using i(9) by (simp add: lineage_ok_def run')
  qed (use stop in \<open>simp_all add: run'\<close>)
qed

lemma attempts_ok_later:
  assumes "attempts_ok run" "active_of A = None" "ep \<le> MAX_EXACT_INTEGER" "rn_epoch run \<le> ep"
    and "\<And>a t. fmlookup A a = Some t \<Longrightarrow> \<exists>u. fmlookup (rn_attempts run) a = Some u
          \<and> t = u\<lparr>at_active := at_active t\<rparr>"
    and "rn_attempts run' = A" "rn_epoch run' = ep"
  shows "attempts_ok run'"
  unfolding attempts_ok_def
proof (intro conjI allI impI)
  fix a t
  assume a: "fmlookup (rn_attempts run') a = Some t"
  from assms(5) [of a t] a assms(6) obtain u b where u: "fmlookup (rn_attempts run) a = Some u"
    "t = u\<lparr>at_active := b\<rparr>" by blast
  have "\<not> at_active t" using assms(2,6) a by (auto simp: active_of_None)
  with assms(1,4,7) u show "validate_content_id a = Ok ()" "validate_content_id (at_continuation_id t) = Ok ()"
    "validate_content_id (at_occurrence_binding t) = Ok ()" "at_continuation_epoch t \<le> rn_epoch run'"
    "at_active t \<Longrightarrow> at_continuation_epoch t = rn_epoch run'" "0 < at_execution_fence t"
    "at_execution_fence t \<le> MAX_EXACT_INTEGER"
    by (auto simp: attempts_ok_def intro: order.trans)
qed (use assms in simp)

text \<open>Deactivating the active attempt, as an epoch advance and a termination do.\<close>

definition deactivated :: "(string, attempt_projection) fmap \<Rightarrow> (string, attempt_projection) fmap" where
  "deactivated A = fmmap (\<lambda>t. t\<lparr>at_active := False\<rparr>) A"

lemma lookup_deactivated [simp]:
  "fmlookup (deactivated A) a = map_option (\<lambda>t. t\<lparr>at_active := False\<rparr>) (fmlookup A a)"
  by (simp add: deactivated_def)

lemma active_of_deactivated [simp]: "active_of (deactivated A) = None"
  by (auto simp: active_of_None)

lemma deactivate_active:
  assumes "one_active A"
  shows "active_of A = None \<Longrightarrow> deactivated A = A"
    and "active_of A = Some a \<Longrightarrow> \<exists>t. fmlookup A a = Some t
          \<and> fmupd a (t\<lparr>at_active := False\<rparr>) A = deactivated A"
proof -
  have same: "t\<lparr>at_active := False\<rparr> = t" if "\<not> at_active t" for t :: attempt_projection
    using that by (cases t) simp
  show "deactivated A = A" if "active_of A = None"
  proof (rule fmap_ext)
    show "fmlookup (deactivated A) a = fmlookup A a" for a
      using that same by (cases "fmlookup A a") (auto simp: active_of_None)
  qed
  assume "active_of A = Some a"
  then obtain t where t: "fmlookup A a = Some t" "at_active t" using active_of_Some [OF assms] by blast
  have "fmupd a (t\<lparr>at_active := False\<rparr>) A = deactivated A"
  proof (rule fmap_ext)
    fix x
    show "fmlookup (fmupd a (t\<lparr>at_active := False\<rparr>) A) x = fmlookup (deactivated A) x"
    proof (cases "fmlookup A x")
      case None
      then show ?thesis using t by auto
    next
      case (Some u)
      then have "x = a \<or> \<not> at_active u" using assms t unfolding one_active_def by blast
      then show ?thesis using t Some same by auto
    qed
  qed
  with t show "\<exists>t. fmlookup A a = Some t \<and> fmupd a (t\<lparr>at_active := False\<rparr>) A = deactivated A" by blast
qed

lemma deactivated_keyed: "attempts_keyed run \<Longrightarrow> rn_attempts run' = deactivated (rn_attempts run)
    \<Longrightarrow> attempts_keyed run'"
  by (auto simp: attempts_keyed_def one_active_def)

lemma apply_epoch_advanced_eq:
  assumes inv: "run_inv h run" and ok: "apply_epoch_advanced run ep = Ok run'"
  shows "ep = rn_epoch run + 1" "ep \<le> MAX_EXACT_INTEGER"
    "run' = run\<lparr>rn_epoch := ep, rn_attempts := deactivated (rn_attempts run),
       rn_derived := (rn_derived run)\<lparr>dx_active_attempt := None\<rparr>\<rparr>"
proof -
  have one: "one_active (rn_attempts run)"
    using run_keyedD(4) [OF run_invD(1) [OF inv]] by (simp add: attempts_keyed_def)
  note d = deactivate_active [OF one]
  show "ep = rn_epoch run + 1" "ep \<le> MAX_EXACT_INTEGER"
    using ok by (auto simp: apply_epoch_advanced_def split: if_splits)
  show "run' = run\<lparr>rn_epoch := ep, rn_attempts := deactivated (rn_attempts run),
       rn_derived := (rn_derived run)\<lparr>dx_active_attempt := None\<rparr>\<rparr>"
  proof (cases "active_of (rn_attempts run)")
    case None
    then show ?thesis using ok d(1) by (auto simp: apply_epoch_advanced_def Let_def
          run_inv_derived [OF inv] split: if_splits)
  next
    case (Some a)
    then show ?thesis using ok d(2) [OF Some] by (auto simp: apply_epoch_advanced_def Let_def
          run_inv_derived [OF inv] split: if_splits)
  qed
qed

lemma apply_epoch_advanced_inv:
  assumes inv: "run_inv h run" and active: "rn_execution_status run = Active"
    and ok: "apply_epoch_advanced run ep = Ok run'"
  shows "run_inv h run'"
proof -
  note i = run_invD [OF inv] run_keyedD [OF run_invD(1) [OF inv]]
  note run' = apply_epoch_advanced_eq [OF inv ok]
  show ?thesis
  proof (rule run_inv_control [OF inv])
    show "attempts_keyed run'" by (rule deactivated_keyed [OF i(14)]) (simp add: run')
    show "attempts_ok run'"
      by (rule attempts_ok_later [OF i(7), of "deactivated (rn_attempts run)" ep])
        (use run' in auto)
    show "status_ok run'" using i(8) active by (simp add: status_ok_def run'(3))
    show "lineage_ok run'" using i(9) by (simp add: lineage_ok_def run'(3))
  qed (simp_all add: run'(3))
qed

section \<open>Bindings, migration and completion\<close>

lemma derived_attempt: "run_inv h run \<Longrightarrow> dx_active_attempt (rn_derived run) = active_of (rn_attempts run)"
  by (simp add: run_inv_derived)

lemma derived_attempt_upd:
  "run_inv h run \<Longrightarrow> (rn_derived run)\<lparr>dx_active_attempt := active_of (rn_attempts run)\<rparr> = rn_derived run"
  by (simp add: run_inv_derived mk_index_def)

lemma apply_binding_updated_inv:
  assumes inv: "run_inv h run" and active: "rn_execution_status run = Active"
    and ok: "apply_binding_updated run previous current = Ok run'"
  shows "run_inv h run'"
proof -
  note i = run_invD [OF inv] run_keyedD [OF run_invD(1) [OF inv]]
  have run': "run' = run\<lparr>rn_current_binding_context := current,
      rn_binding_lineage := rn_binding_lineage run @ [current]\<rparr>"
    using ok by (auto simp: apply_binding_updated_def split: if_splits)
  show ?thesis
  proof (rule run_inv_control [OF inv])
    show "attempts_keyed run'" "attempts_ok run'" using i(7,14)
      by (simp_all add: attempts_keyed_def attempts_ok_def run')
    show "status_ok run'" using i(8) active by (simp add: status_ok_def run')
    show "lineage_ok run'" using i(9) by (simp add: lineage_ok_def run')
  qed (simp_all add: run' derived_attempt_upd [OF inv])
qed

lemma apply_run_migrated_inv:
  assumes inv: "run_inv h run" and active: "rn_execution_status run = Active"
    and ok: "apply_run_migrated run from_plan to_plan from_binding to_binding ep = Ok run'"
  shows "run_inv h run'"
proof -
  note i = run_invD [OF inv] run_keyedD [OF run_invD(1) [OF inv]]
  have run': "run' = run\<lparr>rn_current_plan := to_plan, rn_current_binding_context := to_binding,
      rn_plan_lineage := rn_plan_lineage run @ [to_plan],
      rn_binding_lineage := rn_binding_lineage run @ [to_binding], rn_epoch := ep\<rparr>"
    and ep: "ep = rn_epoch run + 1" "ep \<le> MAX_EXACT_INTEGER"
    and none: "active_of (rn_attempts run) = None"
    using ok by (auto simp: apply_run_migrated_def derived_attempt [OF inv] split: if_splits)
  show ?thesis
  proof (rule run_inv_control [OF inv])
    show "attempts_keyed run'" using i(14) by (simp add: attempts_keyed_def run')
    show "attempts_ok run'"
      by (rule attempts_ok_later [OF i(7) none ep(2)]) (use ep in \<open>simp_all add: run'\<close>)
    show "status_ok run'" using i(8) active by (simp add: status_ok_def run')
    show "lineage_ok run'" using i(9) by (simp add: lineage_ok_def run')
  qed (simp_all add: run' derived_attempt_upd [OF inv])
qed

lemma apply_run_completed_inv:
  assumes inv: "run_inv h run" and active: "rn_execution_status run = Active"
    and ver: "event_verify_payload (RunCompleted result) = Ok ()"
    and ok: "apply_run_completed run result = Ok run'"
  shows "run_inv h run'"
proof -
  note i = run_invD [OF inv] run_keyedD [OF run_invD(1) [OF inv]]
  have run': "run' = run\<lparr>rn_execution_status := Completed, rn_result := result\<rparr>"
    and guards: "active_of (rn_attempts run) = None" "open_scopes (rn_scopes run) = {||}"
      "settlement (run_index run) = Settled"
    using ok i(2) by (auto simp: apply_run_completed_def derived_attempt [OF inv] run_index_def
        simp del: open_scopes_iff split: if_splits)
  have result: "\<forall>r. result = Some r \<longrightarrow> artifact_ref_validate r = Ok ()"
    using ver by (auto simp: event_verify_payload_def)
  show ?thesis
  proof (rule run_inv_control [OF inv])
    show "attempts_keyed run'" "attempts_ok run'" using i(7,14)
      by (simp_all add: attempts_keyed_def attempts_ok_def run')
    show "status_ok run'" using guards i(10) result
      by (simp add: status_ok_def run' no_active_attempt_def no_open_scope_def)
    show "lineage_ok run'" using i(9) by (simp add: lineage_ok_def run')
  qed (simp_all add: run' derived_attempt_upd [OF inv])
qed

section \<open>Opening a scope\<close>

lemma no_children_of_absent:
  assumes "scopes_keyed run" "fmlookup (rn_scopes run) s = None"
  shows "open_children (rn_scopes run) s = {||}"
  using scopes_keyedD(6) [OF assms(1)] assms(2)
  by (metis (no_types, lifting) fequalityI fempty_iff fsubsetI open_children_iff)

lemma acyclic_extend:
  assumes "parents_acyclic S" "fmlookup S s = None" "\<And>t sc p. fmlookup S t = Some sc
      \<Longrightarrow> sc_parent_scope sc = Some p \<Longrightarrow> fmlookup S p \<noteq> None"
    and "sc_parent_scope sc = Some p" "p \<noteq> s"
  shows "parents_acyclic (fmupd s sc S)"
proof -
  obtain rank :: "string \<Rightarrow> nat" where rank: "\<And>t u q. fmlookup S t = Some u
      \<Longrightarrow> sc_parent_scope u = Some q \<Longrightarrow> rank q < rank t"
    using assms(1) unfolding parents_acyclic_def by blast
  let ?rank = "rank(s := Suc (rank p))"
  have "?rank q < ?rank t" if "fmlookup (fmupd s sc S) t = Some u" "sc_parent_scope u = Some q" for t u q
    using that rank [of t u q] assms(3) [of t u q] assms(2,4,5) by (auto split: if_splits)
  then show ?thesis unfolding parents_acyclic_def by blast
qed

lemma acyclic_same:
  assumes "parents_acyclic S" "\<And>s sc. fmlookup S' s = Some sc \<Longrightarrow>
      \<exists>u. fmlookup S s = Some u \<and> sc_parent_scope u = sc_parent_scope sc"
  shows "parents_acyclic S'"
proof -
  obtain rank :: "string \<Rightarrow> nat" where rank: "\<And>t u q. fmlookup S t = Some u
      \<Longrightarrow> sc_parent_scope u = Some q \<Longrightarrow> rank q < rank t"
    using assms(1) unfolding parents_acyclic_def by blast
  then show ?thesis unfolding parents_acyclic_def using assms(2) by (metis (no_types, lifting))
qed

lemma apply_scope_opened_eq:
  assumes inv: "run_inv h run"
    and ok: "apply_scope_opened run s p inv_id path d region site = Ok run'"
  defines "sc \<equiv> \<lparr>sc_scope_id = s, sc_parent_scope = Some p, sc_invocation_id = inv_id,
     sc_invocation_path = path, sc_definition_id = d, sc_region_path = region,
     sc_site_id = Some site, sc_status = Open, sc_intents = {||}, sc_intent_order = []\<rparr>"
  shows "fmlookup (rn_scopes run) s = None"
    "\<exists>parent. fmlookup (rn_scopes run) p = Some parent \<and> sc_status parent = Open"
    "fcard (open_children (rn_scopes run) p) + 1 \<le> MAX_EXACT_INTEGER"
    "run' = run\<lparr>rn_scopes := fmupd s sc (rn_scopes run), rn_derived :=
       mk_index (rn_attempts run) (fmupd s sc (rn_scopes run)) (rn_effects run) (rn_obligations run)\<rparr>"
proof -
  note i = run_invD [OF inv] run_keyedD [OF run_invD(1) [OF inv]]
  show fresh: "fmlookup (rn_scopes run) s = None"
    and parent: "\<exists>parent. fmlookup (rn_scopes run) p = Some parent \<and> sc_status parent = Open"
    using ok by (auto simp: apply_scope_opened_def split: if_splits)
  have "index_opened_scope (run\<lparr>rn_scopes := fmupd s sc (rn_scopes run)\<rparr>) s = Ok run'"
    using ok by (auto simp: apply_scope_opened_def sc_def split: if_splits)
  moreover have "index_opened_scope (run\<lparr>rn_scopes := fmupd s sc (rn_scopes run)\<rparr>) s =
     (if fcard (open_children (rn_scopes run) p) + 1 \<le> MAX_EXACT_INTEGER
      then Ok (run\<lparr>rn_scopes := fmupd s sc (rn_scopes run), rn_derived :=
         mk_index (rn_attempts run) (fmupd s sc (rn_scopes run)) (rn_effects run) (rn_obligations run)\<rparr>)
      else Err Validation)"
    by (subst index_opened_scope_index [where p = p and sc = sc])
      (use fresh parent no_children_of_absent [OF i(11) fresh] in
        \<open>auto simp: run_inv_derived [OF inv] sc_def\<close>)
  ultimately show "fcard (open_children (rn_scopes run) p) + 1 \<le> MAX_EXACT_INTEGER"
    "run' = run\<lparr>rn_scopes := fmupd s sc (rn_scopes run), rn_derived :=
       mk_index (rn_attempts run) (fmupd s sc (rn_scopes run)) (rn_effects run) (rn_obligations run)\<rparr>"
    by (auto split: if_splits)
qed

lemma apply_scope_opened_inv:
  assumes inv: "run_inv h run" and active: "rn_execution_status run = Active"
    and region: "event_plan_facts (ScopeOpened s p inv_id path d region site)"
    and ok: "apply_scope_opened run s p inv_id path d region site = Ok run'"
  shows "run_inv h run'"
proof -
  note i = run_invD [OF inv] run_keyedD [OF run_invD(1) [OF inv]]
  note o = apply_scope_opened_eq [OF inv ok]
  note run' = o(4)
  let ?S = "rn_scopes run"
  from o(2) obtain parent where parent: "fmlookup ?S p = Some parent" "sc_status parent = Open" by blast
  have notin: "ep_scope_id e \<noteq> s" if "fmlookup (rn_effects run) j = Some e" for j e
    using effects_keyedD(2) [OF i(12) that] o(1) by auto
  have committed: "committed_mutation run' = committed_mutation run"
    using notin by (intro ext) (auto simp: committed_mutation_def run')
  have "scopes_keyed run'" using i(11) o(1) parent unfolding scopes_keyed_def run' by auto
  moreover have "effects_keyed run'"
    using effects_keyedD [OF i(12)] notin unfolding effects_keyed_def run' by fastforce
  moreover have "obligations_keyed run'" using i(13) unfolding obligations_keyed_def run' by simp
  moreover have "attempts_keyed run'" using i(14) unfolding attempts_keyed_def run' by simp
  moreover have "counts_bounded run'"
    using i(15) o(1,3) unfolding counts_bounded_def run'
    by (auto simp: committed_effects_fresh committed_weight_def open_children_upd
        fcard_finsert_disjoint minus_absent)
  moreover have "scopes_shaped run'"
    using i(3) o(1) parent region unfolding scopes_shaped_def run' event_plan_facts_def
    by (auto split: if_splits)
  moreover have "parents_acyclic (rn_scopes run')"
    unfolding run' using i(4) o(1) parent scopes_keyedD(6) [OF i(11)]
    by (auto intro!: acyclic_extend [where p = p])
  moreover have "effects_ok run'"
    unfolding effects_ok_def
  proof (intro allI impI)
    fix j e
    assume "fmlookup (rn_effects run') j = Some e"
    then have e: "fmlookup (rn_effects run) j = Some e" by (simp add: run')
    show "effect_ok run' e"
      by (rule effect_ok_status [OF effects_okD [OF i(5) e]]) (use notin [OF e] in \<open>simp add: run'\<close>)
  qed
  moreover have "obligations_exact h run'"
    using i(6) committed unfolding obligations_exact_def by (simp add: run')
  moreover have "attempts_ok run'" using i(7) unfolding attempts_ok_def run' by simp
  moreover have "status_ok run'" using i(8) active by (simp add: status_ok_def run')
  moreover have "lineage_ok run'" using i(9) by (simp add: lineage_ok_def run')
  moreover have "rn_world_settlement run' = settlement (run_index run')"
    using i(10) by (simp add: run' settlement_def run_index_def)
  moreover have "rn_derived run' = run_index run'" by (simp add: run' run_index_def)
  ultimately show ?thesis by (simp add: run_inv_def run_keyed_def)
qed

section \<open>Proposing an Effect\<close>

lemma content_id_valid:
  assumes "\<And>bs. length (sha256 h bs) = 32" "content_id h domain v = Ok b"
  shows "validate_content_id b = Ok ()"
  using assms sha256_bytes_length sha256_bytes_hex
  by (auto simp: content_id_def validate_content_id_iff)

lemma admitted_effect_simps [simp]:
  "ep_intent_id (admitted_effect p) = ep_intent_id p"
  "ep_scope_id (admitted_effect p) = ep_scope_id p"
  "ep_profile (admitted_effect p) = ep_profile p"
  "ep_args (admitted_effect p) = ep_args p"
  "ep_execution_binding (admitted_effect p) = ep_execution_binding p"
  "ef_phase (admitted_effect p) = Admitted"
  "ef_outcome (admitted_effect p) = Unobserved"
  "ef_reconciliation (admitted_effect p) = NotRequired"
  "ef_execution_availability (admitted_effect p) = Available"
  by (simp_all add: admitted_effect_def effect_proposal.defs)

lemma apply_effect_proposed_eq:
  assumes inv: "run_inv h run" and ok: "apply_effect_proposed h run run_id p = Ok run'"
  defines "i \<equiv> ep_intent_id p" and "s \<equiv> ep_scope_id p"
  shows "\<exists>sc. fmlookup (rn_scopes run) s = Some sc \<and> sc_status sc = Open
      \<and> length (sc_intent_order sc) + 1 < 2 ^ 64
      \<and> run' = (let S = fmupd s (sc\<lparr>sc_intents := finsert i (sc_intents sc),
                          sc_intent_order := sc_intent_order sc @ [i]\<rparr>) (rn_scopes run);
                   E = fmupd i (admitted_effect p) (rn_effects run);
                   d = mk_index (rn_attempts run) S E (rn_obligations run)
               in run\<lparr>rn_scopes := S, rn_effects := E, rn_derived := d,
                      rn_world_settlement := settlement d\<rparr>)"
    "fmlookup (rn_effects run) i = None"
    "\<exists>v. content_id h ''cymule.effect-intent/2'' v = Ok i"
proof -
  note k = run_keyedD [OF run_invD(1) [OF inv]]
  show fresh: "fmlookup (rn_effects run) i = None"
    using ok by (auto simp: apply_effect_proposed_def validate_effect_proposal_header_def i_def
        split: if_splits)
  show "\<exists>v. content_id h ''cymule.effect-intent/2'' v = Ok i"
    using ok by (auto simp: apply_effect_proposed_def effect_intent_id_def i_def split: if_splits)
  obtain sc d where sc: "fmlookup (rn_scopes run) s = Some sc" "sc_status sc = Open"
    and reg: "register_effect (rn_derived run) (admitted_effect p) Open = Ok d"
    and run': "run' = update_world_settlement
       (run\<lparr>rn_scopes := fmupd s (sc\<lparr>sc_intents := finsert i (sc_intents sc),
              sc_intent_order := sc_intent_order sc @ [i]\<rparr>) (rn_scopes run),
            rn_effects := fmupd i (admitted_effect p) (rn_effects run), rn_derived := d\<rparr>)"
    using ok unfolding i_def s_def by (auto simp: apply_effect_proposed_def Let_def split: if_splits)
  have small: "length (sc_intent_order sc) + 1 < 2 ^ 64"
    using register_effect_bounds [OF reg [unfolded run_inv_derived [OF inv]], of sc] sc(1)
    by (simp add: s_def)
  have "i \<notin> set (sc_intent_order u)" if "fmlookup (rn_scopes run) t = Some u" for t u
    using scopes_keyedD(5) [OF k(1) that, of i] fresh by auto
  moreover have "obligations_of (rn_obligations run) i = {||}"
    using k(3) fresh unfolding obligations_keyed_def
    by (metis (no_types, lifting) fequalityI fempty_iff fsubsetI obligations_of_iff)
  ultimately have "d = mk_index (rn_attempts run)
      (fmupd s (sc\<lparr>sc_intents := finsert i (sc_intents sc),
                  sc_intent_order := sc_intent_order sc @ [i]\<rparr>) (rn_scopes run))
      (fmupd i (admitted_effect p) (rn_effects run)) (rn_obligations run)"
    using reg register_effect_index [OF sc(1), of "admitted_effect p" i
        "sc\<lparr>sc_intents := finsert i (sc_intents sc), sc_intent_order := sc_intent_order sc @ [i]\<rparr>"
        "rn_effects run" "rn_obligations run" "rn_attempts run"] small fresh sc(2)
    by (simp add: run_inv_derived [OF inv] i_def s_def)
  with sc small run' show "\<exists>sc. fmlookup (rn_scopes run) s = Some sc \<and> sc_status sc = Open
      \<and> length (sc_intent_order sc) + 1 < 2 ^ 64
      \<and> run' = (let S = fmupd s (sc\<lparr>sc_intents := finsert i (sc_intents sc),
                          sc_intent_order := sc_intent_order sc @ [i]\<rparr>) (rn_scopes run);
                   E = fmupd i (admitted_effect p) (rn_effects run);
                   d = mk_index (rn_attempts run) S E (rn_obligations run)
               in run\<lparr>rn_scopes := S, rn_effects := E, rn_derived := d,
                      rn_world_settlement := settlement d\<rparr>)"
    by (auto simp: Let_def update_world_settlement_def)
qed

lemma apply_effect_proposed_inv:
  assumes sha: "\<And>bs. length (sha256 h bs) = 32"
    and inv: "run_inv h run" and active: "rn_execution_status run = Active"
    and ver: "event_verify_payload (EffectProposed p) = Ok ()" and plan: "event_plan_facts (EffectProposed p)"
    and ok: "apply_effect_proposed h run run_id p = Ok run'"
  shows "run_inv h run'"
proof -
  note i = run_invD [OF inv] run_keyedD [OF run_invD(1) [OF inv]]
  let ?i = "ep_intent_id p" and ?s = "ep_scope_id p"
  note o = apply_effect_proposed_eq [OF inv ok]
  from o(1) obtain sc where sc: "fmlookup (rn_scopes run) ?s = Some sc" "sc_status sc = Open"
      "length (sc_intent_order sc) + 1 < 2 ^ 64"
    and run': "run' = (let S = fmupd ?s (sc\<lparr>sc_intents := finsert ?i (sc_intents sc),
                          sc_intent_order := sc_intent_order sc @ [?i]\<rparr>) (rn_scopes run);
                   E = fmupd ?i (admitted_effect p) (rn_effects run);
                   d = mk_index (rn_attempts run) S E (rn_obligations run)
               in run\<lparr>rn_scopes := S, rn_effects := E, rn_derived := d,
                      rn_world_settlement := settlement d\<rparr>)"
    by blast
  let ?sc = "sc\<lparr>sc_intents := finsert ?i (sc_intents sc), sc_intent_order := sc_intent_order sc @ [?i]\<rparr>"
  let ?S = "fmupd ?s ?sc (rn_scopes run)" and ?E = "fmupd ?i (admitted_effect p) (rn_effects run)"
  have sel [simp]: "rn_scopes run' = ?S" "rn_effects run' = ?E" "rn_obligations run' = rn_obligations run"
    "rn_attempts run' = rn_attempts run" "rn_derived run' = run_index run'"
    "rn_world_settlement run' = settlement (run_index run')" "rn_epoch run' = rn_epoch run"
    "rn_execution_status run' = rn_execution_status run" "rn_result run' = rn_result run"
    by (simp_all add: run' Let_def run_index_def)
  have notin: "?i \<notin> set (sc_intent_order u)" if "fmlookup (rn_scopes run) t = Some u" for t u
    using scopes_keyedD(5) [OF i(11) that, of ?i] o(2) by auto
  have valid: "validate_content_id ?i = Ok ()" using content_id_valid [OF sha] o(3) by blast
  have committed: "committed_mutation run' = committed_mutation run"
    using sc o(2) by (intro ext) (auto simp: committed_mutation_def)
  have "scopes_keyed run'"
    unfolding scopes_keyed_def
  proof (intro allI impI)
    fix s u
    assume u: "fmlookup (rn_scopes run') s = Some u"
    have parent: "fmlookup (rn_scopes run') q \<noteq> None" if "fmlookup (rn_scopes run) q \<noteq> None" for q
      using that by simp
    have old: "\<exists>e. fmlookup (rn_effects run') j = Some e \<and> ep_scope_id e = t"
      if "j \<in> set (sc_intent_order v)" "fmlookup (rn_scopes run) t = Some v" for j t v
      using scopes_keyedD(5) [OF i(11) that(2,1)] o(2) by auto
    show "sc_scope_id u = s \<and> distinct (sc_intent_order u) \<and> sc_intents u = fset_of_list (sc_intent_order u)
        \<and> length (sc_intent_order u) < 2 ^ 64
        \<and> (\<forall>j\<in>set (sc_intent_order u). \<exists>e. fmlookup (rn_effects run') j = Some e \<and> ep_scope_id e = s)
        \<and> (\<forall>p. sc_parent_scope u = Some p \<longrightarrow> fmlookup (rn_scopes run') p \<noteq> None)"
    proof (cases "s = ?s")
      case True
      then have "u = ?sc" using u by simp
      with True show ?thesis
        using scopes_keyedD [OF i(11) sc(1)] notin [OF sc(1)] sc(3) old [OF _ sc(1)] parent by auto
    next
      case False
      then have "fmlookup (rn_scopes run) s = Some u" using u by simp
      then show ?thesis using scopes_keyedD [OF i(11)] old parent by blast
    qed
  qed
  moreover have "effects_keyed run'"
    unfolding effects_keyed_def
  proof (intro allI impI)
    fix j e
    assume j: "fmlookup (rn_effects run') j = Some e"
    show "ep_intent_id e = j \<and>
        (\<exists>sc. fmlookup (rn_scopes run') (ep_scope_id e) = Some sc \<and> j \<in> set (sc_intent_order sc))"
    proof (cases "j = ?i")
      case True
      then show ?thesis using j by auto
    next
      case False
      then have e: "fmlookup (rn_effects run) j = Some e" using j by simp
      show ?thesis using effects_keyedD [OF i(12) e] sc(1) by auto
    qed
  qed
  moreover have "obligations_keyed run'" using i(13) unfolding obligations_keyed_def by auto
  moreover have "attempts_keyed run'" using i(14) unfolding attempts_keyed_def by simp
  moreover have "counts_bounded run'"
    using i(15) sc committed_effects_upd [OF sc(1), of ?sc] unfolding counts_bounded_def
    by (simp add: committed_weight_def open_children_same [OF sc(1)])
  moreover have "scopes_shaped run'"
    using i(3) sc valid unfolding scopes_shaped_def by auto
  moreover have "parents_acyclic (rn_scopes run')"
    using sc by (intro acyclic_same [OF i(4)]) (auto split: if_splits)
  moreover have "effects_ok run'"
    unfolding effects_ok_def
  proof (intro allI impI)
    fix j e
    assume j: "fmlookup (rn_effects run') j = Some e"
    show "effect_ok run' e"
    proof (cases "j = ?i")
      case True
      then have "e = admitted_effect p" using j by simp
      then show ?thesis using ver plan sc(2)
        by (cases "pf_mutation (ep_profile p)")
          (auto simp: effect_ok_def effect_reducer_legal_def event_verify_payload_def
            event_plan_facts_def verify_effect_scope_state_def Let_def)
    next
      case False
      then have e: "fmlookup (rn_effects run) j = Some e" using j by simp
      show ?thesis
        by (rule effect_ok_status [OF effects_okD [OF i(5) e]]) (use sc in \<open>auto split: if_splits\<close>)
    qed
  qed
  moreover have "obligations_exact h run'" using i(6) committed unfolding obligations_exact_def by simp
  moreover have "attempts_ok run'" using i(7) unfolding attempts_ok_def by simp
  moreover have "status_ok run'" using i(8) active by (simp add: status_ok_def)
  moreover have "lineage_ok run'" using i(9) by (simp add: lineage_ok_def run' Let_def)
  ultimately show ?thesis by (simp add: run_inv_def run_keyed_def)
qed

end
