(* ===== verification/Reducer_Lifecycle.thy ===== *)
theory Reducer_Lifecycle
  imports Reducer_Preserve
begin

text \<open>
  The handlers that move Effects and close scopes: Effect transitions, scope commit and abort,
  and Run termination. Each is first brought into a closed form on the canonical fields; the
  invariant then follows from two simulation facts, that Effects keep their proposal and scopes
  keep everything but their status.
\<close>

section \<open>Effect transitions\<close>

definition same_proposal :: "effect_projection \<Rightarrow> effect_projection \<Rightarrow> bool" where
  "same_proposal e e' \<longleftrightarrow> e' = e\<lparr>ef_execution_availability := ef_execution_availability e',
     ef_phase := ef_phase e', ef_outcome := ef_outcome e', ef_reconciliation := ef_reconciliation e'\<rparr>"

lemma same_proposalD:
  assumes "same_proposal e e'"
  shows "ep_intent_id e' = ep_intent_id e" "ep_scope_id e' = ep_scope_id e"
    "ep_profile e' = ep_profile e" "ep_args e' = ep_args e"
    "ep_execution_binding e' = ep_execution_binding e"
  using assms unfolding same_proposal_def
  by (metis effect_projection.ext_inject effect_projection.surjective effect_projection.update_convs
      effect_proposal.ext_inject effect_proposal.surjective)+

lemma same_proposal_refl [simp]: "same_proposal e e"
  by (simp add: same_proposal_def)

lemma apply_effect_transition_same:
  "apply_effect_transition e st t = Ok e' \<Longrightarrow> same_proposal e e'"
  by (cases t) (auto simp: same_proposal_def resolve_effect_def Let_def
      split: if_splits reconciliation_resolution.splits)

lemma terminalized_effect_same: "same_proposal e (terminalized_effect e)"
  by (cases "ef_phase e"; cases "ef_outcome e") (simp_all add: same_proposal_def terminalized_effect_def)

lemma legal_waiting:
  "ef_phase e = Admitted \<or> ef_phase e = Prepared \<or> ef_phase e = ReleaseAuthorized \<Longrightarrow>
   effect_reducer_legal e \<longleftrightarrow> ef_execution_availability e = Available
     \<and> ef_outcome e = Unobserved \<and> ef_reconciliation e = NotRequired"
  by (auto simp: effect_reducer_legal_def)

lemma legal_cancelled:
  "ef_phase e = CancelledBeforeRelease \<Longrightarrow>
   effect_reducer_legal e \<longleftrightarrow> ef_outcome e = NotApplied \<and> ef_reconciliation e = Resolved"
  by (simp add: effect_reducer_legal_def)

definition automatic_mode :: "effect_projection \<Rightarrow> bool" where
  "automatic_mode e \<longleftrightarrow> pf_reconciliation (ep_profile e) = Queryable
     \<or> pf_reconciliation (ep_profile e) = ExternallyAttested"

lemma not_automatic_mode:
  "\<not> automatic_mode e \<longleftrightarrow> pf_reconciliation (ep_profile e) = Human
     \<or> pf_reconciliation (ep_profile e) = Impossible"
  by (cases "pf_reconciliation (ep_profile e)") (auto simp: automatic_mode_def)

lemma legal_dispatched:
  "ef_phase e = DispatchStarted \<Longrightarrow> effect_reducer_legal e \<longleftrightarrow>
     (case ef_outcome e of
        Unobserved \<Rightarrow> ef_execution_availability e = Available \<and> ef_reconciliation e = NotRequired
      | Unknown \<Rightarrow> ef_reconciliation e =
          (if ef_execution_availability e = Available \<and> automatic_mode e
           then Pending else GovernanceRequired)
      | _ \<Rightarrow> ef_reconciliation e = Resolved
          \<or> (ef_execution_availability e = Available \<and> ef_reconciliation e = NotRequired))"
  using not_automatic_mode [of e]
  by (cases "ef_outcome e"; cases "ef_reconciliation e"; cases "ef_execution_availability e")
    (simp_all add: effect_reducer_legal_def automatic_mode_def)

lemmas legal_by_phase = legal_waiting legal_cancelled legal_dispatched

lemma unknown_state_mode:
  "reconciliation_state_for_unknown (ep_profile e) = (if automatic_mode e then Pending else GovernanceRequired)"
  by (cases "pf_reconciliation (ep_profile e)")
    (simp_all add: reconciliation_state_for_unknown_def automatic_mode_def)

text \<open>The states the audit accepts are closed under every legal transition.\<close>

lemma apply_effect_transition_legal:
  assumes legal: "effect_reducer_legal e" and ok: "apply_effect_transition e st t = Ok e'"
  shows "effect_reducer_legal e'"
proof -
  have mode: "automatic_mode e' = automatic_mode e"
    using same_proposalD(3) [OF apply_effect_transition_same [OF ok]] by (simp add: automatic_mode_def)
  show ?thesis
  proof (cases t)
    case (Observe outcome)
    with ok legal mode show ?thesis
      by (cases outcome) (auto simp: legal_by_phase unknown_state_mode split: if_splits)
  next
    case (Reconcile resolution)
    with ok legal mode show ?thesis
      by (cases resolution) (auto simp: legal_by_phase reconciliation_transition_allowed_def
          resolve_effect_def automatic_mode_def split: if_splits)
  next
    case MarkUnavailable
    with ok legal show ?thesis
      by (auto simp: legal_by_phase Let_def split: if_splits)
  qed (use ok legal in \<open>auto simp: legal_by_phase split: if_splits\<close>)
qed

lemma apply_effect_transition_scope:
  assumes "verify_effect_scope_state e sc = Ok ()" "apply_effect_transition e (sc_status sc) t = Ok e'"
  shows "verify_effect_scope_state e' sc = Ok ()"
  using assms
  by (cases t; cases "pf_dispatch (ep_profile e)"; cases "sc_status sc")
    (auto simp: verify_effect_scope_state_def resolve_effect_def Let_def
      split: if_splits reconciliation_resolution.splits)

lemma terminalized_effect_legal:
  "effect_reducer_legal e \<Longrightarrow> effect_reducer_legal (terminalized_effect e)"
  by (cases "ef_phase e"; cases "ef_outcome e")
    (auto simp: legal_by_phase terminalized_effect_def unknown_state_mode automatic_mode_def)

lemma terminalized_effect_done:
  "needs_terminal_transition e \<Longrightarrow> \<not> needs_terminal_transition (terminalized_effect e)"
  by (cases "ef_phase e"; cases "ef_outcome e")
    (auto simp: needs_terminal_transition_def terminalized_effect_def)

section \<open>Simulations between canonical fields\<close>

definition effects_sim ::
  "(string, effect_projection) fmap \<Rightarrow> (string, effect_projection) fmap \<Rightarrow> bool" where
  "effects_sim E E' \<longleftrightarrow> (\<forall>i. rel_option same_proposal (fmlookup E i) (fmlookup E' i))"

definition scopes_sim ::
  "(string, scope_projection) fmap \<Rightarrow> (string, scope_projection) fmap \<Rightarrow> bool" where
  "scopes_sim S S' \<longleftrightarrow>
     (\<forall>s. rel_option (\<lambda>sc sc'. sc' = sc\<lparr>sc_status := sc_status sc'\<rparr>) (fmlookup S s) (fmlookup S' s))"

lemma effects_sim_refl [simp]: "effects_sim E E"
  by (simp add: effects_sim_def option.rel_refl)

lemma scopes_sim_refl [simp]: "scopes_sim S S"
  by (simp add: scopes_sim_def option.rel_refl)

lemma effects_sim_upd:
  "fmlookup E i = Some e \<Longrightarrow> same_proposal e e' \<Longrightarrow> effects_sim E (fmupd i e' E)"
  by (auto simp: effects_sim_def option.rel_refl)

lemma scopes_sim_upd:
  "fmlookup S s = Some sc \<Longrightarrow> scopes_sim S (fmupd s (sc\<lparr>sc_status := st\<rparr>) S)"
  by (auto simp: scopes_sim_def option.rel_refl)

lemma effects_simD:
  assumes "effects_sim E E'"
  shows "fmlookup E' i = Some e' \<Longrightarrow> \<exists>e. fmlookup E i = Some e \<and> same_proposal e e'"
    and "fmlookup E i = Some e \<Longrightarrow> \<exists>e'. fmlookup E' i = Some e' \<and> same_proposal e e'"
    and "fmlookup E' i = None \<longleftrightarrow> fmlookup E i = None"
  using assms [unfolded effects_sim_def, rule_format, of i]
  by (auto simp: option_rel_Some1 option_rel_Some2 elim: option.rel_cases)

lemma scopes_simD:
  assumes "scopes_sim S S'"
  shows "fmlookup S' s = Some sc' \<Longrightarrow> \<exists>sc. fmlookup S s = Some sc \<and> sc' = sc\<lparr>sc_status := sc_status sc'\<rparr>"
    and "fmlookup S s = Some sc \<Longrightarrow> \<exists>st. fmlookup S' s = Some (sc\<lparr>sc_status := st\<rparr>)"
    and "fmlookup S' s = None \<longleftrightarrow> fmlookup S s = None"
proof -
  note sim = assms [unfolded scopes_sim_def, rule_format, of s]
  show "\<exists>sc. fmlookup S s = Some sc \<and> sc' = sc\<lparr>sc_status := sc_status sc'\<rparr>" if "fmlookup S' s = Some sc'"
    using sim that by (simp add: option_rel_Some2)
  show "\<exists>st. fmlookup S' s = Some (sc\<lparr>sc_status := st\<rparr>)" if "fmlookup S s = Some sc"
    using sim that by (auto simp: option_rel_Some1)
  show "fmlookup S' s = None \<longleftrightarrow> fmlookup S s = None"
    using sim by (auto elim: option.rel_cases)
qed

lemma keyed_sim:
  assumes keyed: "scopes_keyed run" "effects_keyed run" "parents_acyclic (rn_scopes run)"
    and E: "effects_sim (rn_effects run) (rn_effects run')" and S: "scopes_sim (rn_scopes run) (rn_scopes run')"
  shows "scopes_keyed run'" "effects_keyed run'" "parents_acyclic (rn_scopes run')"
proof -
  show "scopes_keyed run'"
    unfolding scopes_keyed_def
  proof (intro allI impI)
    fix s sc'
    assume "fmlookup (rn_scopes run') s = Some sc'"
    then obtain sc where sc: "fmlookup (rn_scopes run) s = Some sc" "sc' = sc\<lparr>sc_status := sc_status sc'\<rparr>"
      using scopes_simD(1) [OF S] by blast
    obtain st where st: "sc' = sc\<lparr>sc_status := st\<rparr>" using sc(2) by blast
    have "\<exists>e'. fmlookup (rn_effects run') i = Some e' \<and> ep_scope_id e' = s"
      if "i \<in> set (sc_intent_order sc)" for i
      using scopes_keyedD(5) [OF keyed(1) sc(1) that] effects_simD(2) [OF E] same_proposalD(2) by metis
    then show "sc_scope_id sc' = s \<and> distinct (sc_intent_order sc')
        \<and> sc_intents sc' = fset_of_list (sc_intent_order sc') \<and> length (sc_intent_order sc') < 2 ^ 64
        \<and> (\<forall>i\<in>set (sc_intent_order sc'). \<exists>e. fmlookup (rn_effects run') i = Some e \<and> ep_scope_id e = s)
        \<and> (\<forall>p. sc_parent_scope sc' = Some p \<longrightarrow> fmlookup (rn_scopes run') p \<noteq> None)"
      using scopes_keyedD [OF keyed(1) sc(1)] scopes_simD(3) [OF S] by (simp add: st)
  qed
  show "effects_keyed run'"
    unfolding effects_keyed_def
  proof (intro allI impI)
    fix i e'
    assume "fmlookup (rn_effects run') i = Some e'"
    then obtain e where e: "fmlookup (rn_effects run) i = Some e" "same_proposal e e'"
      using effects_simD(1) [OF E] by blast
    obtain sc where sc: "fmlookup (rn_scopes run) (ep_scope_id e) = Some sc" "i \<in> set (sc_intent_order sc)"
      using effects_keyedD(2) [OF keyed(2) e(1)] by blast
    then show "ep_intent_id e' = i \<and>
        (\<exists>sc. fmlookup (rn_scopes run') (ep_scope_id e') = Some sc \<and> i \<in> set (sc_intent_order sc))"
      using effects_keyedD(1) [OF keyed(2) e(1)] scopes_simD(2) [OF S sc(1)] same_proposalD [OF e(2)]
      by force
  qed
  show "parents_acyclic (rn_scopes run')"
    by (rule acyclic_same [OF keyed(3)]) (metis scopes_simD(1) [OF S] scope_projection.select_convs(2)
        scope_projection.surjective scope_projection.update_convs(8))
qed

lemma obligations_exact_keyed:
  assumes "obligations_exact h run"
  shows "obligations_keyed run"
  unfolding obligations_keyed_def
proof (intro allI impI)
  fix b ob
  assume "fmlookup (rn_obligations run) b = Some ob"
  from obligations_exactD [OF assms this]
  show "ob_obligation_id ob = b \<and> fmlookup (rn_effects run) (ob_intent_id ob) \<noteq> None"
    by (metis committed_mutation_def obligation_of_def obligation_projection.select_convs(1) option.distinct(1))
qed

end
