(* ===== verification/Reducer_Handlers.thy ===== *)
theory Reducer_Handlers
  imports Reducer_Lifecycle
begin

text \<open>
  The invariant through Effect transitions, scope commit and abort, and Run termination.
\<close>

section \<open>Obligations follow their Effects\<close>

definition refresh_obligations ::
  "(string, effect_projection) fmap \<Rightarrow> (string, obligation_projection) fmap
   \<Rightarrow> (string, obligation_projection) fmap" where
  "refresh_obligations E B =
     fmmap (\<lambda>ob. ob\<lparr>ob_resolved := effect_resolved (effect_at E (ob_intent_id ob))\<rparr>) B"

lemma lookup_refresh_obligations [simp]:
  "fmlookup (refresh_obligations E B) b =
     map_option (\<lambda>ob. ob\<lparr>ob_resolved := effect_resolved (effect_at E (ob_intent_id ob))\<rparr>)
       (fmlookup B b)"
  by (simp add: refresh_obligations_def)

definition same_committed ::
  "(string, scope_projection) fmap \<Rightarrow> (string, scope_projection) fmap \<Rightarrow> bool" where
  "same_committed S S' \<longleftrightarrow> (\<forall>s. (\<exists>sc. fmlookup S s = Some sc \<and> sc_status sc = ClosedCommitted)
     \<longleftrightarrow> (\<exists>sc. fmlookup S' s = Some sc \<and> sc_status sc = ClosedCommitted))"

lemma committed_mutation_sim:
  assumes "effects_sim (rn_effects run) (rn_effects run')"
    and "same_committed (rn_scopes run) (rn_scopes run')"
  shows "committed_mutation run' i e' \<longleftrightarrow>
     fmlookup (rn_effects run') i = Some e' \<and> (\<exists>e. committed_mutation run i e)"
proof
  assume c: "committed_mutation run' i e'"
  then have e': "fmlookup (rn_effects run') i = Some e'" by (simp add: committed_mutation_def)
  then obtain e where e: "fmlookup (rn_effects run) i = Some e" "same_proposal e e'"
    using effects_simD(1) [OF assms(1)] by blast
  then have "committed_mutation run i e"
    using c assms(2) same_proposalD [OF e(2)] by (simp add: committed_mutation_def same_committed_def)
  with e' show "fmlookup (rn_effects run') i = Some e' \<and> (\<exists>e. committed_mutation run i e)" by blast
next
  assume r: "fmlookup (rn_effects run') i = Some e' \<and> (\<exists>e. committed_mutation run i e)"
  then obtain e where e: "committed_mutation run i e" "fmlookup (rn_effects run) i = Some e"
    by (auto simp: committed_mutation_def)
  then have "same_proposal e e'" using r effects_simD(2) [OF assms(1) e(2)] by auto
  with r e assms(2) show "committed_mutation run' i e'"
    by (simp add: committed_mutation_def same_committed_def same_proposalD)
qed

lemma obligations_exact_refresh:
  assumes exact: "obligations_exact h run"
    and sim: "effects_sim (rn_effects run) (rn_effects run')"
      "same_committed (rn_scopes run) (rn_scopes run')"
    and B: "rn_obligations run' = refresh_obligations (rn_effects run') (rn_obligations run)"
  shows "obligations_exact h run'"
  unfolding obligations_exact_def
proof (intro allI iffI)
  fix b ob'
  assume "fmlookup (rn_obligations run') b = Some ob'"
  then obtain ob where ob: "fmlookup (rn_obligations run) b = Some ob"
    "ob' = ob\<lparr>ob_resolved := effect_resolved (effect_at (rn_effects run') (ob_intent_id ob))\<rparr>"
    unfolding B by auto
  obtain e where e: "committed_mutation run (ob_intent_id ob) e"
    "effect_obligation_id h (ob_intent_id ob) = Ok b" "ob = obligation_of b (ob_intent_id ob) e"
    using obligations_exactD [OF exact ob(1)] by blast
  obtain e' where e': "fmlookup (rn_effects run') (ob_intent_id ob) = Some e'"
    using effects_simD(2) [OF sim(1)] e(1) by (auto simp: committed_mutation_def)
  then have "committed_mutation run' (ob_intent_id ob) e'"
    using committed_mutation_sim [OF sim] e(1) by blast
  moreover have "ob' = obligation_of b (ob_intent_id ob) e'"
    unfolding ob(2) using e(3) e' by (metis (no_types, lifting) obligation_of_def
        obligation_projection.update_convs(4) option.sel)
  ultimately show "\<exists>i e. committed_mutation run' i e \<and> effect_obligation_id h i = Ok b
      \<and> ob' = obligation_of b i e" using e(2) by blast
next
  fix b ob'
  assume "\<exists>i e. committed_mutation run' i e \<and> effect_obligation_id h i = Ok b \<and> ob' = obligation_of b i e"
  then obtain i e' where e': "committed_mutation run' i e'" "effect_obligation_id h i = Ok b"
    "ob' = obligation_of b i e'" by blast
  then obtain e where "committed_mutation run i e" "fmlookup (rn_effects run') i = Some e'"
    using committed_mutation_sim [OF sim] by blast
  then show "fmlookup (rn_obligations run') b = Some ob'"
    using obligations_exactI [OF exact _ e'(2)] e'(3) by (simp add: B obligation_of_def)
qed

lemma same_committed_refl [simp]: "same_committed S S"
  by (simp add: same_committed_def)

lemma resolve_is_refresh:
  assumes exact: "obligations_exact h run"
  shows "resolve_obligations i (effect_resolved e') (rn_obligations run)
       = refresh_obligations (fmupd i e' (rn_effects run)) (rn_obligations run)"
proof (rule fmap_ext)
  fix b
  show "fmlookup (resolve_obligations i (effect_resolved e') (rn_obligations run)) b
      = fmlookup (refresh_obligations (fmupd i e' (rn_effects run)) (rn_obligations run)) b"
  proof (cases "fmlookup (rn_obligations run) b")
    case (Some ob)
    obtain e where e: "fmlookup (rn_effects run) (ob_intent_id ob) = Some e"
      "ob = obligation_of b (ob_intent_id ob) e"
      using obligations_exactD [OF exact Some] by (auto simp: committed_mutation_def)
    have "ob\<lparr>ob_resolved := effect_resolved e\<rparr> = ob"
      by (subst (2) e(2), subst e(2)) (simp add: obligation_of_def)
    then show ?thesis using Some e(1) by simp
  qed simp
qed

section \<open>One Effect transition\<close>

lemma apply_effect_transitioned_eq:
  assumes inv: "run_inv h run" and ok: "apply_effect_transitioned run i t = Ok run'"
  shows "\<exists>e sc e'. fmlookup (rn_effects run) i = Some e
     \<and> fmlookup (rn_scopes run) (ep_scope_id e) = Some sc
     \<and> apply_effect_transition e (sc_status sc) t = Ok e'
     \<and> run' = (let E = fmupd i e' (rn_effects run); B = refresh_obligations E (rn_obligations run);
                  d = mk_index (rn_attempts run) (rn_scopes run) E B
              in run\<lparr>rn_effects := E, rn_obligations := B, rn_derived := d,
                     rn_world_settlement := settlement d\<rparr>)"
proof -
  note k = run_keyedD [OF run_invD(1) [OF inv]]
  obtain e sc e' where e: "fmlookup (rn_effects run) i = Some e"
    and sc: "fmlookup (rn_scopes run) (ep_scope_id e) = Some sc"
    and e': "apply_effect_transition e (sc_status sc) t = Ok e'"
    and rest: "rbind (rbind (remove_effect_state (rn_derived run) e (sc_status sc))
        (\<lambda>index. add_effect_state index e' (sc_status sc))) (\<lambda>index.
        rbind (update_obligation (run\<lparr>rn_effects := fmupd i e' (rn_effects run), rn_derived := index\<rparr>) i)
          (\<lambda>run. Ok (update_world_settlement run))) = Ok run'"
    using ok unfolding rbind_assoc by (auto simp: apply_effect_transitioned_def)
  note same = same_proposalD [OF apply_effect_transition_same [OF e']]
  have "i \<in> set (sc_intent_order sc)" using effects_keyedD(2) [OF k(2) e] sc by auto
  moreover have "t = ep_scope_id e" if "fmlookup (rn_scopes run) t = Some u" "i \<in> set (sc_intent_order u)" for t u
    using scopes_keyedD(5) [OF k(1) that] e by auto
  ultimately have "rbind (remove_effect_state (rn_derived run) e (sc_status sc))
        (\<lambda>index. add_effect_state index e' (sc_status sc))
      = Ok (mk_index (rn_attempts run) (rn_scopes run) (fmupd i e' (rn_effects run)) (rn_obligations run))"
    unfolding run_inv_derived [OF inv]
    using effects_keyedD(1) [OF k(2) e] scopes_keyedD(2) [OF k(1) sc] same
    by (intro replace_effect_index [OF e sc]) simp_all
  with rest e sc e' show ?thesis
    by (fastforce simp: update_obligation_index Let_def update_world_settlement_def
        resolve_is_refresh [OF run_invD(6) [OF inv]])
qed

lemma scopes_shaped_sim:
  assumes shaped: "scopes_shaped run" and S: "scopes_sim (rn_scopes run) (rn_scopes run')"
    and opened: "\<And>s sc p. fmlookup (rn_scopes run') s = Some sc \<Longrightarrow> sc_status sc = Open
      \<Longrightarrow> sc_parent_scope sc = Some p \<Longrightarrow> \<exists>u. fmlookup (rn_scopes run') p = Some u \<and> sc_status u = Open"
  shows "scopes_shaped run'"
proof -
  obtain root where root: "fmlookup (rn_scopes run) ROOT_SCOPE_ID = Some root" "sc_parent_scope root = None"
      "sc_site_id root = None" "sc_invocation_path root = []" "sc_region_path root = []"
    using shaped unfolding scopes_shaped_def by blast
  obtain st where "fmlookup (rn_scopes run') ROOT_SCOPE_ID = Some (root\<lparr>sc_status := st\<rparr>)"
    using scopes_simD(2) [OF S root(1)] by blast
  then have "\<exists>root. fmlookup (rn_scopes run') ROOT_SCOPE_ID = Some root \<and> sc_parent_scope root = None
        \<and> sc_site_id root = None \<and> sc_invocation_path root = [] \<and> sc_region_path root = []"
    using root by auto
  moreover have "(\<forall>i\<in>set (sc_intent_order sc'). validate_content_id i = Ok ()) \<and> (s \<noteq> ROOT_SCOPE_ID \<longrightarrow>
      sc_site_id sc' \<noteq> None \<and> sc_region_path sc' \<noteq> [] \<and> sc_parent_scope sc' \<noteq> None)"
    if s': "fmlookup (rn_scopes run') s = Some sc'" for s sc'
  proof -
    obtain sc st where sc: "fmlookup (rn_scopes run) s = Some sc" "sc' = sc\<lparr>sc_status := st\<rparr>"
      using scopes_simD(1) [OF S s'] by blast
    then show ?thesis using shaped unfolding scopes_shaped_def by auto
  qed
  ultimately show ?thesis using opened unfolding scopes_shaped_def by blast
qed

lemma run_inv_sim:
  assumes inv: "run_inv h run"
    and sim: "effects_sim (rn_effects run) (rn_effects run')" "scopes_sim (rn_scopes run) (rn_scopes run')"
    and derived: "rn_derived run' = run_index run'" "rn_world_settlement run' = settlement (run_index run')"
    and opened: "\<And>s sc p. fmlookup (rn_scopes run') s = Some sc \<Longrightarrow> sc_status sc = Open
      \<Longrightarrow> sc_parent_scope sc = Some p \<Longrightarrow> \<exists>u. fmlookup (rn_scopes run') p = Some u \<and> sc_status u = Open"
    and parts: "counts_bounded run'" "effects_ok run'" "obligations_exact h run'"
      "attempts_keyed run'" "attempts_ok run'" "status_ok run'" "lineage_ok run'"
  shows "run_inv h run'"
proof -
  note i = run_invD [OF inv] run_keyedD [OF run_invD(1) [OF inv]]
  show ?thesis
    using keyed_sim [OF i(11,12,4) sim] scopes_shaped_sim [OF i(3) sim(2) opened]
      obligations_exact_keyed [OF parts(3)] derived parts
    by (simp add: run_inv_def run_keyed_def)
qed

lemma open_parent:
  assumes "scopes_shaped run" "fmlookup (rn_scopes run) s = Some sc" "sc_status sc = Open"
    "sc_parent_scope sc = Some p"
  shows "\<exists>u. fmlookup (rn_scopes run) p = Some u \<and> sc_status u = Open"
  using assms unfolding scopes_shaped_def by blast

lemma reconcile_terminal:
  "apply_effect_transition e st (Reconcile r) = Ok e' \<Longrightarrow> \<not> needs_terminal_transition e'"
  by (cases r) (auto simp: resolve_effect_def needs_terminal_transition_def split: if_splits)

lemma apply_effect_transitioned_inv:
  assumes inv: "run_inv h run"
    and gate: "verify_run_event_gate (rn_execution_status run) (EffectTransitioned i t) = Ok ()"
    and ok: "apply_effect_transitioned run i t = Ok run'"
  shows "run_inv h run'"
proof -
  note iv = run_invD [OF inv] run_keyedD [OF run_invD(1) [OF inv]]
  obtain e sc e' where e: "fmlookup (rn_effects run) i = Some e"
    and sc: "fmlookup (rn_scopes run) (ep_scope_id e) = Some sc"
    and e': "apply_effect_transition e (sc_status sc) t = Ok e'"
    and run': "run' = (let E = fmupd i e' (rn_effects run); B = refresh_obligations E (rn_obligations run);
                  d = mk_index (rn_attempts run) (rn_scopes run) E B
              in run\<lparr>rn_effects := E, rn_obligations := B, rn_derived := d,
                     rn_world_settlement := settlement d\<rparr>)"
    using apply_effect_transitioned_eq [OF inv ok] by blast
  note same = apply_effect_transition_same [OF e']
  have sel: "rn_scopes run' = rn_scopes run" "rn_effects run' = fmupd i e' (rn_effects run)"
    "rn_obligations run' = refresh_obligations (rn_effects run') (rn_obligations run)"
    "rn_attempts run' = rn_attempts run" "rn_epoch run' = rn_epoch run" "rn_result run' = rn_result run"
    "rn_execution_status run' = rn_execution_status run"
    "rn_derived run' = run_index run'" "rn_world_settlement run' = settlement (run_index run')"
    by (simp_all add: run' Let_def run_index_def)
  have sim: "effects_sim (rn_effects run) (rn_effects run')"
    unfolding sel(2) by (rule effects_sim_upd [OF e same])
  show ?thesis
  proof (rule run_inv_sim [OF inv sim])
    show "effects_ok run'"
      unfolding effects_ok_def
    proof (intro allI impI)
      fix j u
      assume j: "fmlookup (rn_effects run') j = Some u"
      show "effect_ok run' u"
      proof (cases "j = i")
        case True
        then have "u = e'" using j sel by simp
        then show ?thesis
          using effects_okD [OF iv(5) e] apply_effect_transition_legal [OF _ e'] sc
            apply_effect_transition_scope [OF _ e'] same_proposalD [OF same]
          by (simp add: effect_ok_def sel)
      next
        case False
        then show ?thesis using j sel effects_okD [OF iv(5), of j u] by (simp add: effect_ok_def)
      qed
    qed
    show "obligations_exact h run'"
      by (rule obligations_exact_refresh [OF iv(6) sim]) (simp_all add: sel)
    show "status_ok run'"
    proof (cases "rn_execution_status run = Active")
      case True
      then show ?thesis using iv(8) sel by (simp add: status_ok_def)
    next
      case False
      then obtain r where r: "t = Reconcile r" and terminal: "terminal_ok run"
        using gate iv(8) by (auto simp: verify_run_event_gate_def Let_def status_ok_def
            split: run_execution_status.splits effect_transition.splits if_splits)
      then have "terminal_ok run'"
        using reconcile_terminal e' by (auto simp: terminal_ok_def sel no_active_attempt_def
            no_open_scope_def simp del: open_scopes_iff)
      then show ?thesis using iv(8) False gate
        by (auto simp: status_ok_def sel verify_run_event_gate_def Let_def
            split: run_execution_status.splits if_splits)
    qed
    show "\<exists>u. fmlookup (rn_scopes run') p = Some u \<and> sc_status u = Open"
      if "fmlookup (rn_scopes run') s = Some v" "sc_status v = Open" "sc_parent_scope v = Some p" for s v p
      using open_parent [OF iv(3)] that sel by simp
  qed (use iv sel in \<open>simp_all add: counts_bounded_def attempts_keyed_def attempts_ok_def
      lineage_ok_def run' Let_def\<close>)
qed

end
