(* ===== verification/Reducer_Close.thy ===== *)
theory Reducer_Close
  imports Reducer_Handlers
begin

text \<open>
  Scope commit and abort keep the invariant.
\<close>

section \<open>The closing scope\<close>

lemma open_scope_close_index_eq:
  assumes inv: "run_inv h run" and ok: "open_scope_close_index run s = Ok os"
  shows "\<exists>sc. fmlookup (rn_scopes run) s = Some sc \<and> sc_status sc = Open
     \<and> open_children (rn_scopes run) s = {||} \<and> os = scope_index (rn_effects run) (sc_intent_order sc)"
proof -
  obtain sc where sc: "fmlookup (rn_scopes run) s = Some sc" "sc_status sc = Open"
    using ok by (auto simp: open_scope_close_index_def split: if_splits)
  then have "lookup_default 0 (dx_open_descendants (rn_derived run)) s = 0"
    and os: "os = scope_index (rn_effects run) (sc_intent_order sc)"
    using ok by (auto simp: open_scope_close_index_def run_inv_derived [OF inv] split: if_splits)
  then have "open_children (rn_scopes run) s = {||}"
    using sc by (auto simp: run_inv_derived [OF inv] lookup_default_def split: if_splits)
  with sc os show ?thesis by blast
qed

lemma in_order_iff:
  assumes "scopes_keyed run" "effects_keyed run" "fmlookup (rn_scopes run) s = Some sc"
    "fmlookup (rn_effects run) i = Some e"
  shows "i \<in> set (sc_intent_order sc) \<longleftrightarrow> ep_scope_id e = s"
  using scopes_keyedD(5) [OF assms(1,3), of i] effects_keyedD(2) [OF assms(2,4)] assms(3,4) by auto

lemma closed_still_open_parents:
  assumes shaped: "scopes_shaped run" and none: "open_children (rn_scopes run) s = {||}"
    and S': "S' = fmupd s sc' (rn_scopes run)" "sc_status sc' \<noteq> Open"
    and t: "fmlookup S' t = Some u" "sc_status u = Open" "sc_parent_scope u = Some p"
  shows "\<exists>v. fmlookup S' p = Some v \<and> sc_status v = Open"
proof -
  have t': "fmlookup (rn_scopes run) t = Some u" using t S' by (auto split: if_splits)
  then have "t |\<in>| open_children (rn_scopes run) p" using t by auto
  then have "p \<noteq> s" using none by (metis fempty_iff)
  then show ?thesis using open_parent [OF shaped t' t(2,3)] S' by simp
qed

lemma counts_closed:
  assumes "counts_bounded run" "fmlookup (rn_scopes run) s = Some sc" "sc_status sc = Open"
    and "rn_scopes run' = fmupd s sc' (rn_scopes run)" "sc_status sc' \<noteq> Open"
    and "sc_status sc' = ClosedCommitted \<Longrightarrow>
      committed_effects (rn_scopes run) + length (sc_intent_order sc') \<le> MAX_EXACT_INTEGER"
  shows "counts_bounded run'"
proof -
  have "committed_effects (rn_scopes run') \<le> MAX_EXACT_INTEGER"
    using committed_effects_upd [OF assms(2), of sc'] assms
    by (auto simp: counts_bounded_def committed_weight_def split: if_splits)
  moreover have "fcard (open_children (rn_scopes run') p) \<le> MAX_EXACT_INTEGER" for p
  proof -
    have "open_children (rn_scopes run') p |\<subseteq>| open_children (rn_scopes run) p"
      using assms(4,5) by (auto split: if_splits)
    then have "fcard (open_children (rn_scopes run') p) \<le> fcard (open_children (rn_scopes run) p)"
      by (rule fcard_mono)
    then show ?thesis using assms(1) unfolding counts_bounded_def by (meson order.trans)
  qed
  ultimately show ?thesis by (simp add: counts_bounded_def)
qed

section \<open>Commit: the expected obligations\<close>

lemma rfold_values_ok:
  assumes run: "rfold f (values_of M) (D fmempty) = Ok r"
    and step: "\<And>k v m r'. fmlookup M k = Some v \<Longrightarrow> fmlookup m k = None \<Longrightarrow> m \<subseteq>\<^sub>f M
       \<Longrightarrow> f v (D m) = Ok r' \<Longrightarrow> r' = D (fmupd k v m) \<and> Q k v"
  shows "r = D M \<and> (\<forall>k v. fmlookup M k = Some v \<longrightarrow> Q k v)"
proof -
  have "r = D M \<and> (\<forall>(k, v)\<in>set ys. Q k v)"
    if "distinct (map fst ys)" "\<And>k v. (k, v) \<in> set ys \<Longrightarrow> fmlookup M k = Some v \<and> fmlookup m k = None"
      "\<And>k v. fmlookup M k = Some v \<Longrightarrow> (k, v) \<in> set ys \<or> fmlookup m k = Some v" "m \<subseteq>\<^sub>f M"
      "rfold f (map snd ys) (D m) = Ok r"
    for ys m
    using that
  proof (induction ys arbitrary: m)
    case Nil
    have "fmlookup m k = fmlookup M k" for k
      using Nil.prems(3) [of k] fmsubset_lookup [OF Nil.prems(4), of k]
      by (cases "fmlookup M k"; cases "fmlookup m k") auto
    then have "m = M" by (rule fmap_ext)
    then show ?case using Nil.prems(5) by simp
  next
    case (Cons y ys)
    obtain k v where y: "y = (k, v)" by (cases y)
    have kv: "fmlookup M k = Some v" "fmlookup m k = None" using Cons.prems(2) [of k v] y by auto
    obtain r' where r': "f v (D m) = Ok r'" "rfold f (map snd ys) r' = Ok r"
      using Cons.prems(5) y by auto
    note st = step [OF kv Cons.prems(4) r'(1)]
    have "fmupd k v m \<subseteq>\<^sub>f M"
      using Cons.prems(4) kv by (auto simp: fmsubset_alt_def fmpred_iff split: if_splits)
    moreover have "fmlookup M k' = Some v' \<and> fmlookup (fmupd k v m) k' = None"
      if "(k', v') \<in> set ys" for k' v'
      using that Cons.prems(1,2) y by (force simp: image_iff)
    moreover have "(k', v') \<in> set ys \<or> fmlookup (fmupd k v m) k' = Some v'"
      if "fmlookup M k' = Some v'" for k' v'
      using Cons.prems(3) [OF that] kv that y by auto
    ultimately have "r = D M \<and> (\<forall>(k, v)\<in>set ys. Q k v)"
      using Cons.IH [of "fmupd k v m"] Cons.prems(1) r'(2) st by simp
    then show ?case using st y by simp
  qed
  from this [of "entries_of M" fmempty] show ?thesis
    using run by (auto simp: distinct_keys_entries_of fmsubset_alt_def)
qed

lemma obligation_for_effect_legal:
  assumes "effect_reducer_legal e" "obligation_for_effect h e = Ok ob"
  shows "effect_obligation_id h (ep_intent_id e) = Ok (ob_obligation_id ob)"
    "ob = obligation_of (ob_obligation_id ob) (ep_intent_id e) e" "pf_mutation (ep_profile e) = Mutating"
proof -
  have "effect_resolved e \<longleftrightarrow> ef_outcome e = Applied \<or> ef_outcome e = NotApplied"
    using assms(1) by (auto simp: effect_resolved_def legal_by_phase)
  then show "effect_obligation_id h (ep_intent_id e) = Ok (ob_obligation_id ob)"
    "ob = obligation_of (ob_obligation_id ob) (ep_intent_id e) e" "pf_mutation (ep_profile e) = Mutating"
    using assms(2) by (auto simp: obligation_for_effect_def obligation_of_def split: if_splits)
qed

lemma derived_scope_obligations_eq:
  assumes inv: "run_inv h run"
    and ok: "derived_scope_obligations h run (scope_index (rn_effects run) os) = Ok B"
  shows "fmlookup B b = Some ob \<longleftrightarrow> (\<exists>i e. i \<in> set os \<and> fmlookup (rn_effects run) i = Some e
     \<and> pf_mutation (ep_profile e) = Mutating \<and> effect_obligation_id h i = Ok b \<and> ob = obligation_of b i e)"
proof -
  note iv = run_invD [OF inv] run_keyedD [OF run_invD(1) [OF inv]]
  let ?ms = "filter (\<lambda>i. pf_mutation (ep_profile (effect_at (rn_effects run) i)) = Mutating) os"
  have "\<forall>b ob. fmlookup B b = Some ob \<longleftrightarrow> (\<exists>i e. i \<in> set ?ms \<and> fmlookup (rn_effects run) i = Some e
     \<and> effect_obligation_id h i = Ok b \<and> ob = obligation_of b i e)"
  proof (rule rfold_invariant [where I = "\<lambda>is B. \<forall>b ob. fmlookup B b = Some ob \<longleftrightarrow> (\<exists>i e. i \<in> set is
      \<and> fmlookup (rn_effects run) i = Some e \<and> effect_obligation_id h i = Ok b \<and> ob = obligation_of b i e)"])
    show "rfold (\<lambda>intent_id expected.
       rbind (ok_or NotFound (fmlookup (rn_effects run) intent_id)) (\<lambda>effect.
       rbind (obligation_for_effect h effect) (\<lambda>obligation.
       if fmlookup expected (ob_obligation_id obligation) \<noteq> None then Err Validation
       else Ok (fmupd (ob_obligation_id obligation) obligation expected)))) ?ms fmempty = Ok B"
      using ok by (simp add: derived_scope_obligations_def)
  next
    fix ys x zs u v
    assume I: "\<forall>b ob. fmlookup u b = Some ob \<longleftrightarrow> (\<exists>i e. i \<in> set ys
      \<and> fmlookup (rn_effects run) i = Some e \<and> effect_obligation_id h i = Ok b \<and> ob = obligation_of b i e)"
      and st: "rbind (ok_or NotFound (fmlookup (rn_effects run) x)) (\<lambda>effect.
       rbind (obligation_for_effect h effect) (\<lambda>obligation.
       if fmlookup u (ob_obligation_id obligation) \<noteq> None then Err Validation
       else Ok (fmupd (ob_obligation_id obligation) obligation u))) = Ok v"
    from st obtain e ob where e: "fmlookup (rn_effects run) x = Some e" and ob: "obligation_for_effect h e = Ok ob"
      and fresh: "fmlookup u (ob_obligation_id ob) = None" and v: "v = fmupd (ob_obligation_id ob) ob u"
      by (auto split: if_splits)
    have "effect_reducer_legal e" using effects_okD [OF iv(5) e] by (simp add: effect_ok_def)
    note o = obligation_for_effect_legal [OF this ob]
    have x: "ep_intent_id e = x" using effects_keyedD(1) [OF iv(12) e] .
    show "\<forall>b ob'. fmlookup v b = Some ob' \<longleftrightarrow> (\<exists>i e. i \<in> set (ys @ [x])
      \<and> fmlookup (rn_effects run) i = Some e \<and> effect_obligation_id h i = Ok b \<and> ob' = obligation_of b i e)"
    proof (intro allI)
      fix b ob'
      show "fmlookup v b = Some ob' \<longleftrightarrow> (\<exists>i e. i \<in> set (ys @ [x])
        \<and> fmlookup (rn_effects run) i = Some e \<and> effect_obligation_id h i = Ok b \<and> ob' = obligation_of b i e)"
      proof (cases "b = ob_obligation_id ob")
        case True
        have "\<not> (\<exists>i e. i \<in> set ys \<and> fmlookup (rn_effects run) i = Some e \<and> effect_obligation_id h i = Ok b)"
          using I fresh True by (metis option.distinct(1))
        moreover have "fmlookup v b = Some ob' \<longleftrightarrow> ob' = obligation_of b x e"
          using True v o(2) x by auto
        ultimately show ?thesis using o(1) e x True by auto
      next
        case False
        then have "effect_obligation_id h x \<noteq> Ok b" using o(1) x by auto
        moreover have "fmlookup v b = Some ob' \<longleftrightarrow> fmlookup u b = Some ob'" using False v by simp
        ultimately show ?thesis using I by auto
      qed
    qed
  qed simp
  then have "fmlookup B b = Some ob \<longleftrightarrow> (\<exists>i e. i \<in> set ?ms \<and> fmlookup (rn_effects run) i = Some e
     \<and> effect_obligation_id h i = Ok b \<and> ob = obligation_of b i e)" by blast
  then show ?thesis by auto
qed

lemma insert_scope_obligations_eq:
  assumes d: "rn_derived run = mk_index A S E B" "rn_obligations run = B"
    and ex: "\<And>b ob. fmlookup X b = Some ob \<Longrightarrow> ob_obligation_id ob = b \<and> fmlookup E (ob_intent_id ob) \<noteq> None"
    and ok: "insert_scope_obligations run os X = Ok run'"
  shows "run' = run\<lparr>rn_obligations := B ++\<^sub>f X, rn_derived := mk_index A S E (B ++\<^sub>f X)\<rparr>
     \<and> (\<forall>b ob. fmlookup X b = Some ob \<longrightarrow> fmlookup B b = None)"
proof -
  let ?D = "\<lambda>m. run\<lparr>rn_obligations := B ++\<^sub>f m, rn_derived := mk_index A S E (B ++\<^sub>f m)\<rparr>"
  have "?D fmempty = run" using d by (cases run) simp
  then have "rfold (insert_scope_obligation os) (values_of X) (?D fmempty) = Ok run'"
    using ok by (simp add: insert_scope_obligations_def)
  then show ?thesis
  proof (rule rfold_values_ok [where D = ?D and Q = "\<lambda>b ob. fmlookup B b = None"])
    fix b ob m r'
    assume b: "fmlookup X b = Some ob" "fmlookup m b = None"
      and st: "insert_scope_obligation os ob (?D m) = Ok r'"
    have guards: "ob_intent_id ob |\<in>| oi_mutating_intents os" "fmlookup (B ++\<^sub>f m) b = None"
      using st ex [OF b(1)] by (auto simp: insert_scope_obligation_def Let_def split: if_splits)
    have "insert_scope_obligation os ob (?D m) = Ok (?D (fmupd b ob m))"
      using insert_scope_obligation_index [of "?D m" A S E "B ++\<^sub>f m" ob b os] ex [OF b(1)] guards
      by simp
    then have "r' = ?D (fmupd b ob m)" using st by simp
    moreover have "fmlookup B b = None" using guards(2) by (auto split: if_splits)
    ultimately show "r' = ?D (fmupd b ob m) \<and> fmlookup B b = None" by blast
  qed
qed

text \<open>The closed form of a commit: the scope closes and exactly the obligations of its mutating
  Effects are added.\<close>

lemma apply_scope_committed_eq:
  assumes inv: "run_inv h run" and ok: "apply_scope_committed h run s n c = Ok run'"
  shows "\<exists>sc X. fmlookup (rn_scopes run) s = Some sc \<and> sc_status sc = Open
     \<and> open_children (rn_scopes run) s = {||}
     \<and> committed_effects (rn_scopes run) + length (sc_intent_order sc) \<le> MAX_EXACT_INTEGER
     \<and> derived_scope_obligations h run (scope_index (rn_effects run) (sc_intent_order sc)) = Ok X
     \<and> (\<forall>b ob. fmlookup X b = Some ob \<longrightarrow> fmlookup (rn_obligations run) b = None)
     \<and> run' = (let S = fmupd s (sc\<lparr>sc_status := ClosedCommitted\<rparr>) (rn_scopes run);
                  B = rn_obligations run ++\<^sub>f X
              in run\<lparr>rn_scopes := S, rn_obligations := B,
                     rn_derived := mk_index (rn_attempts run) S (rn_effects run) B\<rparr>)"
proof -
  note iv = run_invD [OF inv] run_keyedD [OF run_invD(1) [OF inv]]
  obtain os X run1 where os: "open_scope_close_index run s = Ok os"
    and X: "derived_scope_obligations h run os = Ok X"
    and close: "\<exists>sc. fmlookup (rn_scopes run) s = Some sc \<and> index_closed_scope (run\<lparr>rn_scopes :=
        fmupd s (sc\<lparr>sc_status := ClosedCommitted\<rparr>) (rn_scopes run)\<rparr>) s True = Ok run1"
    and ins: "insert_scope_obligations run1 os X = Ok run'"
    using ok by (auto simp: apply_scope_committed_def split: if_splits prod.splits)
  obtain sc where sc: "fmlookup (rn_scopes run) s = Some sc" "sc_status sc = Open"
      "open_children (rn_scopes run) s = {||}"
    and os': "os = scope_index (rn_effects run) (sc_intent_order sc)"
    using open_scope_close_index_eq [OF inv os] by blast
  let ?S = "fmupd s (sc\<lparr>sc_status := ClosedCommitted\<rparr>) (rn_scopes run)"
  have "index_closed_scope (run\<lparr>rn_scopes := ?S\<rparr>) s True =
     (if True \<and> MAX_EXACT_INTEGER < committed_effects (rn_scopes run) + length (sc_intent_order sc)
      then Err Validation
      else Ok (run\<lparr>rn_scopes := ?S, rn_derived :=
             mk_index (rn_attempts run) ?S (rn_effects run) (rn_obligations run)\<rparr>))"
    by (subst index_closed_scope_index [OF _ _ sc])
      (use scopes_keyedD [OF iv(11) sc(1)] in \<open>auto simp: run_inv_derived [OF inv]\<close>)
  then have small: "committed_effects (rn_scopes run) + length (sc_intent_order sc) \<le> MAX_EXACT_INTEGER"
    and run1: "run1 = run\<lparr>rn_scopes := ?S, rn_derived :=
             mk_index (rn_attempts run) ?S (rn_effects run) (rn_obligations run)\<rparr>"
    using close sc(1) by (auto split: if_splits)
  have "ob_obligation_id ob = b \<and> fmlookup (rn_effects run) (ob_intent_id ob) \<noteq> None"
    if "fmlookup X b = Some ob" for b ob
    using that derived_scope_obligations_eq [OF inv X [unfolded os'], of b ob]
    by (auto simp: obligation_of_def)
  from insert_scope_obligations_eq [OF _ _ this ins, of "rn_attempts run" ?S]
  have "run' = run1\<lparr>rn_obligations := rn_obligations run ++\<^sub>f X,
      rn_derived := mk_index (rn_attempts run) ?S (rn_effects run) (rn_obligations run ++\<^sub>f X)\<rparr>"
    and "\<forall>b ob. fmlookup X b = Some ob \<longrightarrow> fmlookup (rn_obligations run) b = None"
    by (auto simp: run1)
  with sc small X os' run1 show ?thesis by (auto simp: Let_def)
qed

lemma effect_scope_commit:
  "verify_effect_scope_state e sc = Ok () \<Longrightarrow> sc_status sc = Open \<Longrightarrow> sc_status sc' = ClosedCommitted
   \<Longrightarrow> verify_effect_scope_state e sc' = Ok ()"
  by (cases "pf_dispatch (ep_profile e)") (auto simp: verify_effect_scope_state_def Let_def)

lemma apply_scope_committed_inv:
  assumes inv: "run_inv h run" and active: "rn_execution_status run = Active"
    and ok: "apply_scope_committed h run s n c = Ok run'"
  shows "run_inv h run'"
proof -
  note iv = run_invD [OF inv] run_keyedD [OF run_invD(1) [OF inv]]
  obtain sc X where sc: "fmlookup (rn_scopes run) s = Some sc" "sc_status sc = Open"
      "open_children (rn_scopes run) s = {||}"
    and small: "committed_effects (rn_scopes run) + length (sc_intent_order sc) \<le> MAX_EXACT_INTEGER"
    and X: "derived_scope_obligations h run (scope_index (rn_effects run) (sc_intent_order sc)) = Ok X"
    and fresh: "\<And>b ob. fmlookup X b = Some ob \<Longrightarrow> fmlookup (rn_obligations run) b = None"
    and run': "run' = (let S = fmupd s (sc\<lparr>sc_status := ClosedCommitted\<rparr>) (rn_scopes run);
                  B = rn_obligations run ++\<^sub>f X
              in run\<lparr>rn_scopes := S, rn_obligations := B,
                     rn_derived := mk_index (rn_attempts run) S (rn_effects run) B\<rparr>)"
    using apply_scope_committed_eq [OF inv ok] by blast
  have sel: "rn_scopes run' = fmupd s (sc\<lparr>sc_status := ClosedCommitted\<rparr>) (rn_scopes run)"
    "rn_effects run' = rn_effects run" "rn_obligations run' = rn_obligations run ++\<^sub>f X"
    "rn_attempts run' = rn_attempts run" "rn_derived run' = run_index run'"
    "rn_execution_status run' = rn_execution_status run" "rn_result run' = rn_result run"
    "rn_epoch run' = rn_epoch run" "rn_world_settlement run' = rn_world_settlement run"
    by (simp_all add: run' Let_def run_index_def)
  have inX: "fmlookup X b = Some ob \<longleftrightarrow> (\<exists>i e. ep_scope_id e = s \<and> fmlookup (rn_effects run) i = Some e
     \<and> pf_mutation (ep_profile e) = Mutating \<and> effect_obligation_id h i = Ok b \<and> ob = obligation_of b i e)" for b ob
    using derived_scope_obligations_eq [OF inv X, of b ob] in_order_iff [OF iv(11,12) sc(1)] by auto
  have committed: "committed_mutation run' i e \<longleftrightarrow> committed_mutation run i e
      \<or> (fmlookup (rn_effects run) i = Some e \<and> pf_mutation (ep_profile e) = Mutating \<and> ep_scope_id e = s)" for i e
    using sc by (auto simp: committed_mutation_def sel)
  show ?thesis
  proof (rule run_inv_sim [OF inv])
    show "scopes_sim (rn_scopes run) (rn_scopes run')" unfolding sel by (rule scopes_sim_upd [OF sc(1)])
    show "counts_bounded run'"
      by (rule counts_closed [OF iv(15) sc(1,2) sel(1)]) (use small in auto)
    show "obligations_exact h run'"
      unfolding obligations_exact_def
    proof (intro allI)
      fix b ob
      have "fmlookup (rn_obligations run') b = Some ob \<longleftrightarrow>
          fmlookup X b = Some ob \<or> fmlookup (rn_obligations run) b = Some ob"
        using fresh [of b] by (cases "fmlookup X b") (auto simp: sel fmdom_notI fmdomI)
      also have "\<dots> \<longleftrightarrow> (\<exists>i e. committed_mutation run' i e \<and> effect_obligation_id h i = Ok b
          \<and> ob = obligation_of b i e)"
        unfolding inX committed using iv(6) unfolding obligations_exact_def by blast
      finally show "fmlookup (rn_obligations run') b = Some ob \<longleftrightarrow> (\<exists>i e. committed_mutation run' i e
          \<and> effect_obligation_id h i = Ok b \<and> ob = obligation_of b i e)" .
    qed
    show "effects_ok run'"
      unfolding effects_ok_def
    proof (intro allI impI)
      fix i e
      assume "fmlookup (rn_effects run') i = Some e"
      then have "effect_ok run e" using effects_okD [OF iv(5)] sel by simp
      then show "effect_ok run' e"
        using effect_scope_commit [of e sc] sc(1,2) by (auto simp: effect_ok_def sel)
    qed
    show "rn_world_settlement run' = settlement (run_index run')"
      using iv(10) by (simp add: sel settlement_def run_index_def)
    show "\<exists>v. fmlookup (rn_scopes run') p = Some v \<and> sc_status v = Open"
      if "fmlookup (rn_scopes run') t = Some u" "sc_status u = Open" "sc_parent_scope u = Some p" for t u p
      using closed_still_open_parents [OF iv(3) sc(3) sel(1) _ that] by simp
  qed (use iv active in \<open>simp_all add: sel attempts_keyed_def attempts_ok_def lineage_ok_def status_ok_def
      run' Let_def run_index_def\<close>)
qed

section \<open>Replacing several Effects\<close>

definition replace_effects ::
  "string set \<Rightarrow> (effect_projection \<Rightarrow> effect_projection) \<Rightarrow> (string, effect_projection) fmap
   \<Rightarrow> (string, effect_projection) fmap" where
  "replace_effects I g E = fmmap_keys (\<lambda>i e. if i \<in> I then g e else e) E"

lemma lookup_replace_effects [simp]:
  "fmlookup (replace_effects I g E) i = map_option (\<lambda>e. if i \<in> I then g e else e) (fmlookup E i)"
  by (simp add: replace_effects_def)

lemma replace_effects_sim: "(\<And>e. same_proposal e (g e)) \<Longrightarrow> effects_sim E (replace_effects I g E)"
  unfolding effects_sim_def by (auto simp: option.rel_map option.rel_refl)

lemma replace_effects_fold:
  assumes keyed: "scopes_keyed run" "effects_keyed run" "parents_acyclic (rn_scopes run)"
    and derived: "rn_derived run = run_index run" and ids: "distinct ids"
    and g: "\<And>e. same_proposal e (g e)"
    and step: "\<And>i r e. i \<in> set ids \<Longrightarrow> rn_scopes r = rn_scopes run \<Longrightarrow> fmlookup (rn_effects r) i = Some e
      \<Longrightarrow> fmlookup (rn_effects run) i = Some e
      \<Longrightarrow> \<exists>sc. fmlookup (rn_scopes run) (ep_scope_id e) = Some sc \<and>
        f i r = rbind (rbind (remove_effect_state (rn_derived r) e (sc_status sc))
                        (\<lambda>d. add_effect_state d (g e) (sc_status sc)))
                  (\<lambda>d. Ok (r\<lparr>rn_effects := fmupd i (g e) (rn_effects r), rn_derived := d\<rparr>))"
    and known: "\<And>i. i \<in> set ids \<Longrightarrow> fmlookup (rn_effects run) i \<noteq> None"
  shows "rfold f ids run = (let E = replace_effects (set ids) g (rn_effects run) in
     Ok (run\<lparr>rn_effects := E, rn_derived := mk_index (rn_attempts run) (rn_scopes run) E (rn_obligations run)\<rparr>))"
  using assms
proof (induction ids arbitrary: run)
  case Nil
  have "replace_effects {} g (rn_effects run) = rn_effects run"
    by (rule fmap_ext) (simp add: option.map_ident)
  then show ?case using Nil.prems(4) by (cases run) (simp add: run_index_def)
next
  case (Cons i ids)
  obtain e where e: "fmlookup (rn_effects run) i = Some e" using Cons.prems(8) [of i] by auto
  obtain sc where sc: "fmlookup (rn_scopes run) (ep_scope_id e) = Some sc"
    and f: "f i run = rbind (rbind (remove_effect_state (rn_derived run) e (sc_status sc))
                        (\<lambda>d. add_effect_state d (g e) (sc_status sc)))
                  (\<lambda>d. Ok (run\<lparr>rn_effects := fmupd i (g e) (rn_effects run), rn_derived := d\<rparr>))"
    using Cons.prems(7) [of i run e] e by auto
  let ?E = "fmupd i (g e) (rn_effects run)"
  let ?run = "run\<lparr>rn_effects := ?E, rn_derived :=
      mk_index (rn_attempts run) (rn_scopes run) ?E (rn_obligations run)\<rparr>"
  have order: "i \<in> set (sc_intent_order sc)"
    using effects_keyedD(2) [OF Cons.prems(2) e] sc by auto
  have eq: "rbind (remove_effect_state (rn_derived run) e (sc_status sc))
      (\<lambda>d. add_effect_state d (g e) (sc_status sc))
    = Ok (mk_index (rn_attempts run) (rn_scopes run) ?E (rn_obligations run))"
    unfolding Cons.prems(4) run_index_def
  proof (rule replace_effect_index [OF e sc])
    show "t = ep_scope_id e" if "fmlookup (rn_scopes run) t = Some u" "i \<in> set (sc_intent_order u)" for t u
      using scopes_keyedD(5) [OF Cons.prems(1) that] e by auto
  qed (use order effects_keyedD(1) [OF Cons.prems(2) e] scopes_keyedD(2) [OF Cons.prems(1) sc]
      same_proposalD [OF Cons.prems(6), of e] in simp_all)
  have fi: "f i run = Ok ?run" unfolding f eq by simp
  have sim: "effects_sim (rn_effects run) (rn_effects ?run)"
    using effects_sim_upd [OF e Cons.prems(6)] by simp
  have "rfold f ids ?run = (let E = replace_effects (set ids) g (rn_effects ?run) in
     Ok (?run\<lparr>rn_effects := E, rn_derived :=
       mk_index (rn_attempts ?run) (rn_scopes ?run) E (rn_obligations ?run)\<rparr>))"
  proof (rule Cons.IH)
    show "scopes_keyed ?run" "effects_keyed ?run" "parents_acyclic (rn_scopes ?run)"
      using keyed_sim [OF Cons.prems(1,2,3) sim] by simp_all
    show "distinct ids" using Cons.prems(5) by simp
    show "\<exists>sc. fmlookup (rn_scopes ?run) (ep_scope_id u) = Some sc \<and>
        f j r = rbind (rbind (remove_effect_state (rn_derived r) u (sc_status sc))
                        (\<lambda>d. add_effect_state d (g u) (sc_status sc)))
                  (\<lambda>d. Ok (r\<lparr>rn_effects := fmupd j (g u) (rn_effects r), rn_derived := d\<rparr>))"
      if "j \<in> set ids" "rn_scopes r = rn_scopes ?run" "fmlookup (rn_effects r) j = Some u"
        "fmlookup (rn_effects ?run) j = Some u" for j r u
      using Cons.prems(7) [of j r u] that Cons.prems(5) by (auto split: if_splits)
    show "fmlookup (rn_effects ?run) j \<noteq> None" if "j \<in> set ids" for j
      using Cons.prems(8) [of j] that by simp
  qed (use Cons.prems(6) in \<open>simp_all add: run_index_def\<close>)
  moreover have "replace_effects (set ids) g ?E = replace_effects (set (i # ids)) g (rn_effects run)"
    by (rule fmap_ext) (use Cons.prems(5) e in auto)
  ultimately show ?case using fi by (simp add: Let_def)
qed

section \<open>Abort\<close>

definition cancelled :: "effect_projection \<Rightarrow> effect_projection" where
  "cancelled e = e\<lparr>ef_phase := CancelledBeforeRelease, ef_outcome := NotApplied,
     ef_reconciliation := Resolved\<rparr>"

lemma cancelled_same [simp]: "same_proposal e (cancelled e)"
  by (simp add: same_proposal_def cancelled_def)

definition abort_intents :: "run_projection \<Rightarrow> scope_projection \<Rightarrow> string set" where
  "abort_intents run sc = {i \<in> set (sc_intent_order sc).
     needs_scope_abort_transition (effect_at (rn_effects run) i)}"

text \<open>The closed form of an abort: every unreleased Effect of the scope is cancelled, and the
  scope closes.\<close>

lemma apply_scope_aborted_eq:
  assumes inv: "run_inv h run" and ok: "apply_scope_aborted run s = Ok run'"
  shows "\<exists>sc. fmlookup (rn_scopes run) s = Some sc \<and> sc_status sc = Open
     \<and> open_children (rn_scopes run) s = {||}
     \<and> (\<forall>i\<in>set (sc_intent_order sc). \<not> blocks_scope_abort (effect_at (rn_effects run) i))
     \<and> run' = (let S = fmupd s (sc\<lparr>sc_status := ClosedAborted\<rparr>) (rn_scopes run);
                  E = replace_effects (abort_intents run sc) cancelled (rn_effects run);
                  d = mk_index (rn_attempts run) S E (rn_obligations run)
              in run\<lparr>rn_scopes := S, rn_effects := E, rn_derived := d,
                     rn_world_settlement := settlement d\<rparr>)"
proof -
  note iv = run_invD [OF inv] run_keyedD [OF run_invD(1) [OF inv]]
  obtain os where os: "open_scope_close_index run s = Ok os"
    using ok by (auto simp: apply_scope_aborted_def)
  obtain sc where sc: "fmlookup (rn_scopes run) s = Some sc" "sc_status sc = Open"
      "open_children (rn_scopes run) s = {||}"
    and os': "os = scope_index (rn_effects run) (sc_intent_order sc)"
    using open_scope_close_index_eq [OF inv os] by blast
  note k = scopes_keyedD [OF iv(11) sc(1)]
  let ?ids = "sorted_list_of_fset (oi_abort_transition_intents os)"
  let ?E = "replace_effects (abort_intents run sc) cancelled (rn_effects run)"
  let ?run = "run\<lparr>rn_effects := ?E, rn_derived :=
      mk_index (rn_attempts run) (rn_scopes run) ?E (rn_obligations run)\<rparr>"
  have ids: "set ?ids = abort_intents run sc"
    by (auto simp: os' abort_intents_def fset_of_list_elem)
  have blockers: "\<forall>i\<in>set (sc_intent_order sc). \<not> blocks_scope_abort (effect_at (rn_effects run) i)"
  proof -
    have "oi_abort_blockers os = {||}"
      using ok os unfolding apply_scope_aborted_def by (auto split: if_splits)
    then have "i |\<notin>| oi_abort_blockers os" for i by (metis fempty_iff)
    then show ?thesis by (auto simp: os' fset_of_list_elem)
  qed
  have fold: "rfold abort_effect ?ids run = Ok ?run"
  proof (subst replace_effects_fold [where g = cancelled])
    show "\<exists>sc'. fmlookup (rn_scopes run) (ep_scope_id e) = Some sc' \<and>
        abort_effect i r = rbind (rbind (remove_effect_state (rn_derived r) e (sc_status sc'))
                        (\<lambda>d. add_effect_state d (cancelled e) (sc_status sc')))
                  (\<lambda>d. Ok (r\<lparr>rn_effects := fmupd i (cancelled e) (rn_effects r), rn_derived := d\<rparr>))"
      if i: "i \<in> set ?ids" "fmlookup (rn_effects r) i = Some e" "fmlookup (rn_effects run) i = Some e" for i r e
    proof -
      have "ep_scope_id e = s"
        using i in_order_iff [OF iv(11,12) sc(1) i(3)] unfolding ids by (auto simp: abort_intents_def)
      then show ?thesis using sc(1,2) i(2)
        by (intro exI [of _ sc]) (simp add: abort_effect_def cancelled_def rbind_assoc Let_def)
    qed
    show "fmlookup (rn_effects run) i \<noteq> None" if "i \<in> set ?ids" for i
      using that k(5) unfolding ids by (auto simp: abort_intents_def)
  qed (use iv ids in \<open>simp_all add: Let_def\<close>)
  let ?S = "fmupd s (sc\<lparr>sc_status := ClosedAborted\<rparr>) (rn_scopes run)"
  have "index_closed_scope (?run\<lparr>rn_scopes := ?S\<rparr>) s False =
      (if False \<and> MAX_EXACT_INTEGER < committed_effects (rn_scopes run) + length (sc_intent_order sc)
      then Err Validation
      else Ok (?run\<lparr>rn_scopes := ?S, rn_derived :=
             mk_index (rn_attempts run) ?S ?E (rn_obligations run)\<rparr>))"
    by (subst index_closed_scope_index [OF _ _ sc]) (use k in auto)
  then have "run' = update_world_settlement (?run\<lparr>rn_scopes := ?S, rn_derived :=
             mk_index (rn_attempts run) ?S ?E (rn_obligations run)\<rparr>)"
    using ok os fold sc(1) unfolding apply_scope_aborted_def by (auto split: if_splits)
  with sc blockers show ?thesis
    by (auto simp: Let_def update_world_settlement_def)
qed

lemma refresh_same:
  assumes exact: "obligations_exact h run"
    and same: "\<And>i e. committed_mutation run i e \<Longrightarrow> fmlookup E i = Some e"
  shows "refresh_obligations E (rn_obligations run) = rn_obligations run"
proof (rule fmap_ext)
  fix b
  show "fmlookup (refresh_obligations E (rn_obligations run)) b = fmlookup (rn_obligations run) b"
  proof (cases "fmlookup (rn_obligations run) b")
    case (Some ob)
    obtain e where e: "committed_mutation run (ob_intent_id ob) e" "ob = obligation_of b (ob_intent_id ob) e"
      using obligations_exactD [OF exact Some] by blast
    have "ob\<lparr>ob_resolved := effect_resolved e\<rparr> = ob"
      by (subst (2) e(2), subst e(2)) (simp add: obligation_of_def)
    then show ?thesis using Some same [OF e(1)] by simp
  qed simp
qed

lemma effect_scope_abort:
  assumes "verify_effect_scope_state e sc = Ok ()" "sc_status sc = Open" "\<not> needs_scope_abort_transition e"
  shows "verify_effect_scope_state e (sc\<lparr>sc_status := ClosedAborted\<rparr>) = Ok ()"
  using assms
  by (cases "pf_dispatch (ep_profile e)"; cases "ef_phase e")
    (auto simp: verify_effect_scope_state_def Let_def needs_scope_abort_transition_def)

lemma effect_scope_cancelled:
  "verify_effect_scope_state e sc = Ok () \<Longrightarrow> ef_phase e' = CancelledBeforeRelease
   \<Longrightarrow> ep_profile e' = ep_profile e \<Longrightarrow> verify_effect_scope_state e' sc' = Ok ()"
  by (auto simp: verify_effect_scope_state_def Let_def split: if_splits)

lemma apply_scope_aborted_inv:
  assumes inv: "run_inv h run" and active: "rn_execution_status run = Active"
    and ok: "apply_scope_aborted run s = Ok run'"
  shows "run_inv h run'"
proof -
  note iv = run_invD [OF inv] run_keyedD [OF run_invD(1) [OF inv]]
  obtain sc where sc: "fmlookup (rn_scopes run) s = Some sc" "sc_status sc = Open"
      "open_children (rn_scopes run) s = {||}"
    and run': "run' = (let S = fmupd s (sc\<lparr>sc_status := ClosedAborted\<rparr>) (rn_scopes run);
                  E = replace_effects (abort_intents run sc) cancelled (rn_effects run);
                  d = mk_index (rn_attempts run) S E (rn_obligations run)
              in run\<lparr>rn_scopes := S, rn_effects := E, rn_derived := d,
                     rn_world_settlement := settlement d\<rparr>)"
    using apply_scope_aborted_eq [OF inv ok] by blast
  have sel: "rn_scopes run' = fmupd s (sc\<lparr>sc_status := ClosedAborted\<rparr>) (rn_scopes run)"
    "rn_effects run' = replace_effects (abort_intents run sc) cancelled (rn_effects run)"
    "rn_obligations run' = rn_obligations run" "rn_attempts run' = rn_attempts run"
    "rn_derived run' = run_index run'" "rn_world_settlement run' = settlement (run_index run')"
    "rn_execution_status run' = rn_execution_status run" "rn_result run' = rn_result run"
    "rn_epoch run' = rn_epoch run"
    by (simp_all add: run' Let_def run_index_def)
  have here: "i \<in> abort_intents run sc \<longleftrightarrow> ep_scope_id e = s \<and> needs_scope_abort_transition e"
    if "fmlookup (rn_effects run) i = Some e" for i e
    using in_order_iff [OF iv(11,12) sc(1) that] that by (auto simp: abort_intents_def)
  have sim: "effects_sim (rn_effects run) (rn_effects run')"
    unfolding sel by (rule replace_effects_sim) simp
  show ?thesis
  proof (rule run_inv_sim [OF inv sim])
    show "scopes_sim (rn_scopes run) (rn_scopes run')" unfolding sel by (rule scopes_sim_upd [OF sc(1)])
    show "counts_bounded run'" by (rule counts_closed [OF iv(15) sc(1,2) sel(1)]) simp_all
    show "obligations_exact h run'"
    proof (rule obligations_exact_refresh [OF iv(6) sim])
      show "same_committed (rn_scopes run) (rn_scopes run')"
        unfolding same_committed_def sel using sc by auto
      have "fmlookup (rn_effects run') i = Some e" if "committed_mutation run i e" for i e
        using that sc here [of i e] by (auto simp: committed_mutation_def sel)
      from refresh_same [OF iv(6) this]
      show "rn_obligations run' = refresh_obligations (rn_effects run') (rn_obligations run)"
        by (simp add: sel)
    qed
    show "effects_ok run'"
      unfolding effects_ok_def
    proof (intro allI impI)
      fix i e'
      assume "fmlookup (rn_effects run') i = Some e'"
      then obtain e where e: "fmlookup (rn_effects run) i = Some e"
        "e' = (if i \<in> abort_intents run sc then cancelled e else e)" by (auto simp: sel)
      note okE = effects_okD [OF iv(5) e(1)] here [OF e(1)]
      show "effect_ok run' e'"
      proof (cases "i \<in> abort_intents run sc")
        case True
        then show ?thesis using okE e(2) sc effect_scope_cancelled [of e sc "cancelled e"]
          by (auto simp: effect_ok_def sel cancelled_def legal_by_phase)
      next
        case False
        then show ?thesis using okE e(2) sc effect_scope_abort [of e sc]
          by (auto simp: effect_ok_def sel)
      qed
    qed
    show "\<exists>v. fmlookup (rn_scopes run') p = Some v \<and> sc_status v = Open"
      if "fmlookup (rn_scopes run') t = Some u" "sc_status u = Open" "sc_parent_scope u = Some p" for t u p
      using closed_still_open_parents [OF iv(3) sc(3) sel(1) _ that] by simp
  qed (use iv active in \<open>simp_all add: sel attempts_keyed_def attempts_ok_def lineage_ok_def status_ok_def
      run' Let_def run_index_def\<close>)
qed

end
