(* ===== verification/Reducer_Terminate.thy ===== *)
theory Reducer_Terminate
  imports Reducer_Close
begin

text \<open>
  Failing or cancelling a Run: one closed form for \<open>terminate_run_execution\<close> and the invariant
  of the terminal Run it leaves.
\<close>

section \<open>The loops of a termination\<close>

definition resolve_many ::
  "string set \<Rightarrow> (string, effect_projection) fmap \<Rightarrow> (string, obligation_projection) fmap
   \<Rightarrow> (string, obligation_projection) fmap" where
  "resolve_many I E B = fmmap (\<lambda>ob. if ob_intent_id ob \<in> I
     then ob\<lparr>ob_resolved := effect_resolved (effect_at E (ob_intent_id ob))\<rparr> else ob) B"

lemma lookup_resolve_many [simp]:
  "fmlookup (resolve_many I E B) b = map_option (\<lambda>ob. if ob_intent_id ob \<in> I
     then ob\<lparr>ob_resolved := effect_resolved (effect_at E (ob_intent_id ob))\<rparr> else ob) (fmlookup B b)"
  by (simp add: resolve_many_def)

lemma update_obligation_fold:
  assumes "rn_derived run = run_index run" "\<And>i. i \<in> set ids \<Longrightarrow> fmlookup (rn_effects run) i \<noteq> None"
  shows "rfold (\<lambda>i run. update_obligation run i) ids run =
     (let B = resolve_many (set ids) (rn_effects run) (rn_obligations run) in
      Ok (run\<lparr>rn_obligations := B, rn_derived :=
        mk_index (rn_attempts run) (rn_scopes run) (rn_effects run) B\<rparr>))"
  using assms
proof (induction ids arbitrary: run)
  case Nil
  have "resolve_many {} (rn_effects run) (rn_obligations run) = rn_obligations run"
    by (rule fmap_ext) (simp add: option.map_ident)
  then show ?case using Nil.prems(1) by (cases run) (simp add: run_index_def)
next
  case (Cons i ids)
  obtain e where e: "fmlookup (rn_effects run) i = Some e" using Cons.prems(2) [of i] by auto
  let ?B = "resolve_obligations i (effect_resolved e) (rn_obligations run)"
  let ?run = "run\<lparr>rn_obligations := ?B, rn_derived :=
      mk_index (rn_attempts run) (rn_scopes run) (rn_effects run) ?B\<rparr>"
  have step: "update_obligation run i = Ok ?run"
    using update_obligation_index [OF Cons.prems(1) [unfolded run_index_def] refl refl e]
    by (simp add: Let_def)
  have "resolve_many (set ids) (rn_effects run) ?B
      = resolve_many (set (i # ids)) (rn_effects run) (rn_obligations run)"
    by (rule fmap_ext) (use e in \<open>auto simp: option.map_comp comp_def intro!: map_option_cong\<close>)
  moreover have "rfold (\<lambda>i run. update_obligation run i) ids ?run =
     (let B = resolve_many (set ids) (rn_effects ?run) (rn_obligations ?run) in
      Ok (?run\<lparr>rn_obligations := B, rn_derived :=
        mk_index (rn_attempts ?run) (rn_scopes ?run) (rn_effects ?run) B\<rparr>))"
    by (rule Cons.IH) (use Cons.prems(2) in \<open>simp_all add: run_index_def\<close>)
  ultimately show ?case by (simp add: step Let_def)
qed

lemma close_aborted_fold:
  assumes "\<And>s. s \<in> set ids \<Longrightarrow> fmlookup (rn_scopes run) s \<noteq> None"
  shows "rfold close_aborted ids run = Ok (run\<lparr>rn_scopes :=
     fmmap_keys (\<lambda>s sc. if s \<in> set ids then sc\<lparr>sc_status := ClosedAborted\<rparr> else sc) (rn_scopes run)\<rparr>)"
  using assms
proof (induction ids arbitrary: run)
  case Nil
  have "fmmap_keys (\<lambda>s sc. sc) (rn_scopes run) = rn_scopes run"
    by (rule fmap_ext) (simp add: option.map_ident)
  then show ?case by (cases run) simp
next
  case (Cons s ids)
  obtain sc where sc: "fmlookup (rn_scopes run) s = Some sc" using Cons.prems [of s] by auto
  let ?S = "fmupd s (sc\<lparr>sc_status := ClosedAborted\<rparr>) (rn_scopes run)"
  have "close_aborted s run = Ok (run\<lparr>rn_scopes := ?S\<rparr>)" by (simp add: close_aborted_def sc)
  moreover have "rfold close_aborted ids (run\<lparr>rn_scopes := ?S\<rparr>) = Ok (run\<lparr>rn_scopes :=
     fmmap_keys (\<lambda>s sc. if s \<in> set ids then sc\<lparr>sc_status := ClosedAborted\<rparr> else sc) ?S\<rparr>)"
    using Cons.IH [of "run\<lparr>rn_scopes := ?S\<rparr>"] Cons.prems by simp
  moreover have "fmmap_keys (\<lambda>s sc. if s \<in> set ids then sc\<lparr>sc_status := ClosedAborted\<rparr> else sc) ?S
      = fmmap_keys (\<lambda>t sc. if t \<in> set (s # ids) then sc\<lparr>sc_status := ClosedAborted\<rparr> else sc) (rn_scopes run)"
    by (rule fmap_ext) (use sc in auto)
  ultimately show ?case by simp
qed

lemma close_open_scopes:
  "fmmap_keys (\<lambda>s sc. if s \<in> fset (open_scopes S) then sc\<lparr>sc_status := ClosedAborted\<rparr> else sc) S
   = abort_open_scopes S"
  by (rule fmap_ext) (auto intro!: map_option_cong)

lemma terminate_attempt_eq:
  assumes one: "one_active (rn_attempts run)" and derived: "rn_derived run = run_index run"
  shows "terminate_attempt run = Ok (run\<lparr>rn_attempts := deactivated (rn_attempts run),
     rn_derived := mk_index (deactivated (rn_attempts run)) (rn_scopes run) (rn_effects run)
       (rn_obligations run)\<rparr>)"
proof -
  have d: "mk_index (deactivated (rn_attempts run)) (rn_scopes run) (rn_effects run) (rn_obligations run)
      = (rn_derived run)\<lparr>dx_active_attempt := None\<rparr>"
    unfolding derived run_index_def by (subst mk_index_attempts) simp
  show ?thesis
  proof (cases "active_of (rn_attempts run)")
    case None
    then have same: "deactivated (rn_attempts run) = rn_attempts run" by (rule deactivate_active(1) [OF one])
    show ?thesis unfolding same using None derived
      by (cases run) (simp add: terminate_attempt_def run_index_def)
  next
    case (Some a)
    then show ?thesis using deactivate_active(2) [OF one Some] unfolding d
      by (auto simp: terminate_attempt_def derived run_index_def)
  qed
qed

section \<open>The closed form of a termination\<close>

definition terminal_intents :: "run_projection \<Rightarrow> string set" where
  "terminal_intents run = {i. \<exists>e. fmlookup (rn_effects run) i = Some e \<and> needs_terminal_transition e}"

definition terminated_effects :: "run_projection \<Rightarrow> (string, effect_projection) fmap" where
  "terminated_effects run =
     replace_effects (terminal_intents run) terminalized_effect (rn_effects run)"

lemma resolve_terminal_refresh:
  assumes exact: "obligations_exact h run"
  shows "resolve_many (terminal_intents run) (terminated_effects run) (rn_obligations run)
       = refresh_obligations (terminated_effects run) (rn_obligations run)"
proof (rule fmap_ext)
  fix b
  show "fmlookup (resolve_many (terminal_intents run) (terminated_effects run) (rn_obligations run)) b
      = fmlookup (refresh_obligations (terminated_effects run) (rn_obligations run)) b"
  proof (cases "fmlookup (rn_obligations run) b")
    case (Some ob)
    obtain e where e: "fmlookup (rn_effects run) (ob_intent_id ob) = Some e"
      "ob = obligation_of b (ob_intent_id ob) e"
      using obligations_exactD [OF exact Some] by (auto simp: committed_mutation_def)
    have "ob\<lparr>ob_resolved := effect_resolved e\<rparr> = ob"
      by (subst (2) e(2), subst e(2)) (simp add: obligation_of_def)
    then show ?thesis using Some e(1) by (auto simp: terminated_effects_def)
  qed simp
qed

lemma terminate_run_execution_total:
  assumes inv: "run_inv h run" and ep: "ep = rn_epoch run + 1" "ep \<le> MAX_EXACT_INTEGER"
  shows "terminate_run_execution run ep = Ok (let A = deactivated (rn_attempts run); S = abort_open_scopes (rn_scopes run);
                  E = terminated_effects run; B = refresh_obligations E (rn_obligations run);
                  d = mk_index A S E B
              in run\<lparr>rn_epoch := ep, rn_attempts := A, rn_scopes := S, rn_effects := E,
                     rn_obligations := B, rn_derived := d, rn_world_settlement := settlement d\<rparr>)"
proof -
  note iv = run_invD [OF inv] run_keyedD [OF run_invD(1) [OF inv]]
  let ?A = "deactivated (rn_attempts run)" and ?E = "terminated_effects run"
  let ?run1 = "run\<lparr>rn_epoch := ep, rn_attempts := ?A,
     rn_derived := mk_index ?A (rn_scopes run) (rn_effects run) (rn_obligations run)\<rparr>"
  have one: "one_active (rn_attempts run)" using iv(14) by (simp add: attempts_keyed_def)
  have run1: "terminate_attempt (run\<lparr>rn_epoch := ep\<rparr>) = Ok ?run1"
    using terminate_attempt_eq [of "run\<lparr>rn_epoch := ep\<rparr>"] one iv(2) by (simp add: run_index_def)
  let ?ids = "sorted_list_of_fset (effects_where needs_terminal_transition (rn_effects run))"
  have ids: "set ?ids = terminal_intents run" by (auto simp: terminal_intents_def)
  let ?run2 = "?run1\<lparr>rn_effects := ?E,
     rn_derived := mk_index ?A (rn_scopes run) ?E (rn_obligations run)\<rparr>"
  have run2: "rfold terminate_effect ?ids ?run1 = Ok ?run2"
  proof (subst replace_effects_fold [where g = terminalized_effect])
    have keyed: "scopes_keyed ?run1" "effects_keyed ?run1"
      using iv(11,12) frame_scopes [of ?run1 run] by simp_all
    then show "scopes_keyed ?run1" "effects_keyed ?run1" .
    show "\<exists>sc. fmlookup (rn_scopes ?run1) (ep_scope_id e) = Some sc \<and>
        terminate_effect i r = rbind (rbind (remove_effect_state (rn_derived r) e (sc_status sc))
                        (\<lambda>d. add_effect_state d (terminalized_effect e) (sc_status sc)))
                  (\<lambda>d. Ok (r\<lparr>rn_effects := fmupd i (terminalized_effect e) (rn_effects r), rn_derived := d\<rparr>))"
      if i: "rn_scopes r = rn_scopes ?run1" "fmlookup (rn_effects r) i = Some e"
        "fmlookup (rn_effects ?run1) i = Some e" for i r e
    proof -
      obtain sc where "fmlookup (rn_scopes run) (ep_scope_id e) = Some sc"
        using effects_keyedD(2) [OF iv(12), of i e] i(3) by auto
      then show ?thesis using i by (simp add: terminate_effect_def rbind_assoc Let_def)
    qed
    show "fmlookup (rn_effects ?run1) i \<noteq> None" if "i \<in> set ?ids" for i
      using that unfolding ids by (auto simp: terminal_intents_def)
  qed (use iv(4) ids terminalized_effect_same in
      \<open>simp_all add: Let_def run_index_def terminated_effects_def\<close>)
  let ?B = "refresh_obligations ?E (rn_obligations run)"
  let ?run3 = "?run2\<lparr>rn_obligations := ?B, rn_derived := mk_index ?A (rn_scopes run) ?E ?B\<rparr>"
  have known: "fmlookup (rn_effects ?run2) i \<noteq> None" if "i \<in> set ?ids" for i
    using that unfolding ids by (auto simp: terminal_intents_def terminated_effects_def)
  have derived2: "rn_derived ?run2 = run_index ?run2" by (simp add: run_index_def)
  have run3: "rfold (\<lambda>i run. update_obligation run i) ?ids ?run2 = Ok ?run3"
    using update_obligation_fold [OF derived2, of ?ids, OF known]
    unfolding ids by (simp add: Let_def resolve_terminal_refresh [OF iv(6)])
  let ?scopes = "sorted_list_of_fset (open_scopes (rn_scopes run))"
  have run4: "rfold close_aborted ?scopes (?run3\<lparr>rn_derived := (rn_derived ?run3)\<lparr>dx_open_scope_ids := {||}\<rparr>\<rparr>)
      = Ok (?run3\<lparr>rn_derived := (rn_derived ?run3)\<lparr>dx_open_scope_ids := {||}\<rparr>,
                  rn_scopes := abort_open_scopes (rn_scopes run)\<rparr>)"
    by (subst close_aborted_fold) (auto simp: close_open_scopes simp del: open_scopes_iff, auto)
  show ?thesis
    using ep run1 run2 run3 run4
    by (simp add: terminate_run_execution_def Let_def update_world_settlement_def abort_open_scopes_index)
qed

lemma terminate_run_execution_eq:
  assumes inv: "run_inv h run" and ok: "terminate_run_execution run ep = Ok run'"
  shows "ep = rn_epoch run + 1 \<and> ep \<le> MAX_EXACT_INTEGER
     \<and> run' = (let A = deactivated (rn_attempts run); S = abort_open_scopes (rn_scopes run);
                  E = terminated_effects run; B = refresh_obligations E (rn_obligations run);
                  d = mk_index A S E B
              in run\<lparr>rn_epoch := ep, rn_attempts := A, rn_scopes := S, rn_effects := E,
                     rn_obligations := B, rn_derived := d, rn_world_settlement := settlement d\<rparr>)"
proof -
  have ep: "ep = rn_epoch run + 1" "ep \<le> MAX_EXACT_INTEGER"
    using ok by (auto simp: terminate_run_execution_def split: if_splits)
  with terminate_run_execution_total [OF inv ep] ok show ?thesis by simp
qed


section \<open>The terminal Run satisfies the invariant\<close>

lemma effect_scope_phase:
  "ef_phase e' = ef_phase e \<Longrightarrow> ep_profile e' = ep_profile e
   \<Longrightarrow> verify_effect_scope_state e' sc = verify_effect_scope_state e sc"
  by (simp only: verify_effect_scope_state_def)

lemma terminated_scope_ok:
  assumes state: "verify_effect_scope_state e sc = Ok ()"
    and sc': "sc' = (if sc_status sc = Open then sc\<lparr>sc_status := ClosedAborted\<rparr> else sc)"
    and e': "e' = (if needs_terminal_transition e then terminalized_effect e else e)"
  shows "verify_effect_scope_state e' sc' = Ok ()"
proof (cases "ef_phase e' = CancelledBeforeRelease")
  case True
  then show ?thesis
    using effect_scope_cancelled [OF state True] same_proposalD(3) [OF terminalized_effect_same] e' by simp
next
  case False
  then have phase: "ef_phase e = DispatchStarted" "ef_phase e' = ef_phase e"
    unfolding e' by (cases "ef_phase e"; cases "ef_outcome e";
        simp add: needs_terminal_transition_def terminalized_effect_def)+
  then have "verify_effect_scope_state e sc' = Ok ()"
    using effect_scope_abort [OF state] state unfolding sc'
    by (simp add: needs_scope_abort_transition_def)
  then show ?thesis
    using effect_scope_phase [OF phase(2)] same_proposalD(3) [OF terminalized_effect_same] e' by simp
qed

lemma abort_open_scopes_sim: "scopes_sim S (abort_open_scopes S)"
  unfolding scopes_sim_def
proof
  show "rel_option (\<lambda>sc sc'. sc' = sc\<lparr>sc_status := sc_status sc'\<rparr>) (fmlookup S s)
      (fmlookup (abort_open_scopes S) s)" for s
    by (cases "fmlookup S s") simp_all
qed

lemma abort_open_scopes_closed: "open_scopes (abort_open_scopes S) = {||}"
  using arg_cong [OF abort_open_scopes_index, of dx_open_scope_ids] by simp

lemma terminate_run_inv:
  assumes inv: "run_inv h run" and active: "rn_execution_status run = Active"
    and ok: "terminate_run_execution run ep = Ok run1"
    and run': "run' = run1\<lparr>rn_execution_status := status\<rparr>"
    and status: "(\<exists>f. status = Failed f \<and> run_failure_verify f = Ok ())
      \<or> (\<exists>r. status = Cancelled r \<and> artifact_ref_validate r = Ok ())"
  shows "run_inv h run'"
proof -
  note iv = run_invD [OF inv] run_keyedD [OF run_invD(1) [OF inv]]
  have ep: "ep = rn_epoch run + 1" "ep \<le> MAX_EXACT_INTEGER"
    and run1: "run1 = (let A = deactivated (rn_attempts run); S = abort_open_scopes (rn_scopes run);
                  E = terminated_effects run; B = refresh_obligations E (rn_obligations run);
                  d = mk_index A S E B
              in run\<lparr>rn_epoch := ep, rn_attempts := A, rn_scopes := S, rn_effects := E,
                     rn_obligations := B, rn_derived := d, rn_world_settlement := settlement d\<rparr>)"
    using terminate_run_execution_eq [OF inv ok] by simp_all
  have sel: "rn_scopes run' = abort_open_scopes (rn_scopes run)" "rn_effects run' = terminated_effects run"
    "rn_obligations run' = refresh_obligations (rn_effects run') (rn_obligations run)"
    "rn_attempts run' = deactivated (rn_attempts run)" "rn_epoch run' = ep"
    "rn_derived run' = run_index run'" "rn_world_settlement run' = settlement (run_index run')"
    "rn_execution_status run' = status" "rn_result run' = rn_result run"
    by (simp_all add: run' run1 Let_def run_index_def)
  have lookup: "fmlookup (rn_effects run') i = Some e' \<longleftrightarrow> (\<exists>e. fmlookup (rn_effects run) i = Some e
      \<and> e' = (if needs_terminal_transition e then terminalized_effect e else e))" for i e'
    by (cases "fmlookup (rn_effects run) i")
      (simp_all only: sel terminated_effects_def lookup_replace_effects terminal_intents_def, auto)
  have sim: "effects_sim (rn_effects run) (rn_effects run')"
    unfolding sel terminated_effects_def by (rule replace_effects_sim) (rule terminalized_effect_same)
  have closed: "open_scopes (rn_scopes run') = {||}"
    unfolding sel by (rule abort_open_scopes_closed)
  show ?thesis
  proof (rule run_inv_sim [OF inv sim])
    show "scopes_sim (rn_scopes run) (rn_scopes run')"
      unfolding sel by (rule abort_open_scopes_sim)
    show "counts_bounded run'"
    proof -
      have "open_children (rn_scopes run') p = {||}" for p
        using closed by (auto simp: open_children_def)
      moreover have "committed_effects (rn_scopes run') = committed_effects (rn_scopes run)"
        using arg_cong [OF abort_open_scopes_index, of dx_committed_effect_count] by (simp add: sel)
      ultimately show ?thesis using iv(15) by (simp add: counts_bounded_def fcard_fempty)
    qed
    show "obligations_exact h run'"
    proof (rule obligations_exact_refresh [OF iv(6) sim])
      have "(\<exists>sc. fmlookup (rn_scopes run) s = Some sc \<and> sc_status sc = ClosedCommitted) \<longleftrightarrow>
          (\<exists>sc. fmlookup (rn_scopes run') s = Some sc \<and> sc_status sc = ClosedCommitted)" for s
        by (cases "fmlookup (rn_scopes run) s") (simp_all add: sel)
      then show "same_committed (rn_scopes run) (rn_scopes run')" by (simp add: same_committed_def)
    qed (rule sel)
    show "effects_ok run'"
      unfolding effects_ok_def
    proof (intro allI impI)
      fix i e'
      assume "fmlookup (rn_effects run') i = Some e'"
      then obtain e where e: "fmlookup (rn_effects run) i = Some e"
        "e' = (if needs_terminal_transition e then terminalized_effect e else e)" using lookup by blast
      have "same_proposal e e'" using e(2) terminalized_effect_same by simp
      note same = same_proposalD [OF this]
      note old = effects_okD [OF iv(5) e(1), unfolded effect_ok_def]
      have "effect_reducer_legal e'" using old e(2) terminalized_effect_legal by simp
      moreover have "verify_effect_scope_state e' sc' = Ok ()"
        if sc': "fmlookup (rn_scopes run') (ep_scope_id e') = Some sc'" for sc'
      proof -
        obtain sc where "fmlookup (rn_scopes run) (ep_scope_id e) = Some sc"
          "sc' = (if sc_status sc = Open then sc\<lparr>sc_status := ClosedAborted\<rparr> else sc)"
          using sc' unfolding sel(1) same by auto
        then show ?thesis using terminated_scope_ok [OF _ _ e(2)] old by blast
      qed
      ultimately show "effect_ok run' e'" using old same by (simp add: effect_ok_def)
    qed
    show "attempts_keyed run'" by (rule deactivated_keyed [OF iv(14)]) (simp add: sel)
    show "attempts_ok run'"
      by (rule attempts_ok_later [OF iv(7), of "deactivated (rn_attempts run)" ep])
        (use ep in \<open>auto simp: sel\<close>)
    show "status_ok run'"
    proof -
      have "at_continuation_epoch t < ep" if "fmlookup (rn_attempts run') a = Some t" for a t
        using iv(7) that ep by (auto simp: sel attempts_ok_def less_Suc_eq_le)
      moreover have "\<not> needs_terminal_transition e" if "fmlookup (rn_effects run') i = Some e" for i e
        using that terminalized_effect_done unfolding lookup by metis
      ultimately have "terminal_ok run'"
        using ep iv(8) active closed unfolding terminal_ok_def no_active_attempt_def no_open_scope_def sel(4,5,9)
        by (simp add: sel status_ok_def del: open_scopes_iff)
      then show ?thesis using status by (auto simp: status_ok_def sel)
    qed
    show "lineage_ok run'" using iv(9) by (simp add: lineage_ok_def run' run1 Let_def)
    show "\<exists>v. fmlookup (rn_scopes run') p = Some v \<and> sc_status v = Open"
      if "fmlookup (rn_scopes run') t = Some u" "sc_status u = Open" for t u p
      using that closed by (metis fempty_iff open_scopes_iff)
  qed (rule sel)+
qed

end
