(* ===== verification/Reducer_History.thy ===== *)
theory Reducer_History
  imports Reducer_Terminate "HOL-Library.Sublist"
begin

text \<open>
  The projection as an append-only history: a handler never forgets a scope, Effect,
  obligation or attempt, never reopens or reorders a closed scope, and never changes a settled
  Effect, an ended attempt or a terminal status. \<open>run_extends\<close> is the preorder that says so.
\<close>

section \<open>The order\<close>

definition map_extends :: "('v \<Rightarrow> 'v \<Rightarrow> bool) \<Rightarrow> (string, 'v) fmap \<Rightarrow> (string, 'v) fmap \<Rightarrow> bool" where
  "map_extends R m m' \<longleftrightarrow>
     (\<forall>k v. fmlookup m k = Some v \<longrightarrow> (\<exists>v'. fmlookup m' k = Some v' \<and> R v v'))"

definition effect_extends :: "effect_projection \<Rightarrow> effect_projection \<Rightarrow> bool" where
  "effect_extends e e' \<longleftrightarrow> same_proposal e e' \<and> (effect_resolved e \<longrightarrow> e' = e)
     \<and> (ef_phase e = DispatchStarted \<longrightarrow> ef_phase e' = DispatchStarted)
     \<and> (ef_outcome e = Unknown \<longrightarrow> ef_outcome e' \<noteq> Unobserved)"

definition scope_extends :: "scope_projection \<Rightarrow> scope_projection \<Rightarrow> bool" where
  "scope_extends sc sc' \<longleftrightarrow>
     sc_scope_id sc' = sc_scope_id sc \<and> sc_parent_scope sc' = sc_parent_scope sc
     \<and> sc_invocation_id sc' = sc_invocation_id sc \<and> sc_invocation_path sc' = sc_invocation_path sc
     \<and> sc_definition_id sc' = sc_definition_id sc \<and> sc_region_path sc' = sc_region_path sc
     \<and> sc_site_id sc' = sc_site_id sc
     \<and> prefix (sc_intent_order sc) (sc_intent_order sc') \<and> (sc_status sc \<noteq> Open \<longrightarrow> sc' = sc)"

definition attempt_extends :: "attempt_projection \<Rightarrow> attempt_projection \<Rightarrow> bool" where
  "attempt_extends t t' \<longleftrightarrow> at_attempt_id t' = at_attempt_id t
     \<and> at_continuation_id t' = at_continuation_id t
     \<and> at_occurrence_binding t' = at_occurrence_binding t
     \<and> at_continuation_epoch t' = at_continuation_epoch t
     \<and> at_execution_fence t' = at_execution_fence t \<and> (\<not> at_active t \<longrightarrow> t' = t)"

definition obligation_extends :: "obligation_projection \<Rightarrow> obligation_projection \<Rightarrow> bool" where
  "obligation_extends ob ob' \<longleftrightarrow> ob_obligation_id ob' = ob_obligation_id ob
     \<and> ob_intent_id ob' = ob_intent_id ob \<and> ob_blocking ob' = ob_blocking ob \<and> (ob_resolved ob \<longrightarrow> ob' = ob)"

definition run_extends :: "run_projection \<Rightarrow> run_projection \<Rightarrow> bool" where
  "run_extends run run' \<longleftrightarrow> rn_run_id run' = rn_run_id run
     \<and> rn_initial_plan run' = rn_initial_plan run
     \<and> rn_initial_binding_context run' = rn_initial_binding_context run
     \<and> prefix (rn_plan_lineage run) (rn_plan_lineage run')
     \<and> prefix (rn_binding_lineage run) (rn_binding_lineage run')
     \<and> rn_epoch run \<le> rn_epoch run'
     \<and> (rn_execution_status run \<noteq> Active \<longrightarrow> rn_execution_status run' = rn_execution_status run
          \<and> rn_epoch run' = rn_epoch run \<and> rn_result run' = rn_result run)
     \<and> map_extends scope_extends (rn_scopes run) (rn_scopes run')
     \<and> map_extends effect_extends (rn_effects run) (rn_effects run')
     \<and> map_extends obligation_extends (rn_obligations run) (rn_obligations run')
     \<and> map_extends attempt_extends (rn_attempts run) (rn_attempts run')"

section \<open>It is a preorder\<close>

lemma map_extends_refl [simp]: "(\<And>v. R v v) \<Longrightarrow> map_extends R m m"
  by (auto simp: map_extends_def)

lemma map_extends_trans:
  "(\<And>a b c. R a b \<Longrightarrow> R b c \<Longrightarrow> R a c) \<Longrightarrow> map_extends R m n \<Longrightarrow> map_extends R n k \<Longrightarrow> map_extends R m k"
  unfolding map_extends_def by metis

lemma map_extends_upd:
  "(\<And>v. R v v) \<Longrightarrow> (\<And>v. fmlookup m k = Some v \<Longrightarrow> R v w) \<Longrightarrow> map_extends R m (fmupd k w m)"
  by (auto simp: map_extends_def)

lemma same_proposal_truncate:
  "same_proposal e e' \<longleftrightarrow> effect_proposal.truncate e' = effect_proposal.truncate e"
  by (cases e; cases e') (simp add: same_proposal_def effect_proposal.truncate_def)

lemma same_proposal_trans: "same_proposal a b \<Longrightarrow> same_proposal b c \<Longrightarrow> same_proposal a c"
  by (simp add: same_proposal_truncate)

lemma effect_extends_refl [simp]: "effect_extends e e"
  by (simp add: effect_extends_def)

lemma effect_extends_trans:
  assumes ab: "effect_extends a b" and bc: "effect_extends b c"
  shows "effect_extends a c"
proof -
  have "effect_resolved a \<longrightarrow> c = a" using ab bc unfolding effect_extends_def by auto
  moreover have "ef_outcome c \<noteq> Unobserved" if "ef_outcome a = Unknown"
  proof (cases "ef_outcome b = Unknown")
    case False
    then have "effect_resolved b" using ab that
      by (cases "ef_outcome b") (auto simp: effect_extends_def effect_resolved_def)
    then show ?thesis using ab bc that by (auto simp: effect_extends_def)
  qed (use bc in \<open>auto simp: effect_extends_def\<close>)
  ultimately show ?thesis
    using ab bc same_proposal_trans [of a b c] unfolding effect_extends_def by blast
qed

lemma scope_extends_refl [simp]: "scope_extends sc sc"
  by (simp add: scope_extends_def)

lemma scope_extends_trans: "scope_extends a b \<Longrightarrow> scope_extends b c \<Longrightarrow> scope_extends a c"
  unfolding scope_extends_def by (metis prefix_order.trans)

lemma attempt_extends_refl [simp]: "attempt_extends t t"
  by (simp add: attempt_extends_def)

lemma attempt_extends_trans: "attempt_extends a b \<Longrightarrow> attempt_extends b c \<Longrightarrow> attempt_extends a c"
  unfolding attempt_extends_def by metis

lemma obligation_extends_refl [simp]: "obligation_extends ob ob"
  by (simp add: obligation_extends_def)

lemma obligation_extends_trans:
  "obligation_extends a b \<Longrightarrow> obligation_extends b c \<Longrightarrow> obligation_extends a c"
  unfolding obligation_extends_def by metis

lemma run_extends_refl [simp]: "run_extends run run"
  by (simp add: run_extends_def)

lemma run_extends_trans: "run_extends a b \<Longrightarrow> run_extends b c \<Longrightarrow> run_extends a c"
  unfolding run_extends_def
  by (auto intro: prefix_order.trans map_extends_trans [OF scope_extends_trans]
      map_extends_trans [OF effect_extends_trans] map_extends_trans [OF obligation_extends_trans]
      map_extends_trans [OF attempt_extends_trans])

section \<open>Every handler extends the history\<close>

lemma resolved_effect_final:
  assumes "effect_reducer_legal e" "effect_resolved e"
  shows "apply_effect_transition e st t = Err IllegalTransition"
  using assms by (cases t) (auto simp: effect_resolved_def legal_by_phase)

lemma apply_effect_transition_extends:
  assumes "effect_reducer_legal e" "apply_effect_transition e st t = Ok e'"
  shows "effect_extends e e'"
proof -
  have "\<not> effect_resolved e" using resolved_effect_final [OF assms(1)] assms(2) by auto
  moreover have "ef_phase e = DispatchStarted \<longrightarrow> ef_phase e' = DispatchStarted"
    "ef_outcome e = Unknown \<longrightarrow> ef_outcome e' \<noteq> Unobserved"
    using assms(2) by (cases t; auto simp: resolve_effect_def Let_def
        split: if_splits reconciliation_resolution.splits)+
  ultimately show ?thesis
    using apply_effect_transition_same [OF assms(2)] by (simp add: effect_extends_def)
qed

lemma terminalized_effect_extends:
  assumes "needs_terminal_transition e" "effect_reducer_legal e"
  shows "effect_extends e (terminalized_effect e)"
proof -
  have "ef_outcome e = Unobserved" "ef_phase e \<noteq> CancelledBeforeRelease"
    using assms by (cases "ef_phase e"; simp add: needs_terminal_transition_def legal_by_phase)+
  then show ?thesis
    using terminalized_effect_same [of e]
    by (simp add: effect_extends_def effect_resolved_def terminalized_effect_def)
qed

lemma cancelled_extends:
  "needs_scope_abort_transition e \<Longrightarrow> effect_reducer_legal e \<Longrightarrow> effect_extends e (cancelled e)"
  by (auto simp: effect_extends_def effect_resolved_def needs_scope_abort_transition_def legal_by_phase)

lemma refresh_extends:
  assumes exact: "obligations_exact h run" and E: "map_extends effect_extends (rn_effects run) E"
  shows "map_extends obligation_extends (rn_obligations run) (refresh_obligations E (rn_obligations run))"
  unfolding map_extends_def
proof (intro allI impI)
  fix b ob
  assume b: "fmlookup (rn_obligations run) b = Some ob"
  obtain e where e: "fmlookup (rn_effects run) (ob_intent_id ob) = Some e"
    "ob = obligation_of b (ob_intent_id ob) e"
    using obligations_exactD [OF exact b] by (auto simp: committed_mutation_def)
  then obtain e' where e': "fmlookup E (ob_intent_id ob) = Some e'" "effect_extends e e'"
    using E unfolding map_extends_def by blast
  have "ob_resolved ob = effect_resolved e" by (subst e(2)) (simp add: obligation_of_def)
  then have "obligation_extends ob (ob\<lparr>ob_resolved := effect_resolved e'\<rparr>)"
    using e'(2) by (auto simp: obligation_extends_def effect_extends_def)
  then show "\<exists>v'. fmlookup (refresh_obligations E (rn_obligations run)) b = Some v' \<and> obligation_extends ob v'"
    using b e'(1) by simp
qed

lemma deactivated_extends: "map_extends attempt_extends A (deactivated A)"
  by (auto simp: map_extends_def attempt_extends_def)

lemma abort_open_scopes_extends: "map_extends scope_extends S (abort_open_scopes S)"
  by (auto simp: map_extends_def scope_extends_def)

lemma apply_effect_transitioned_extends:
  assumes inv: "run_inv h run" and ok: "apply_effect_transitioned run i t = Ok run'"
  shows "run_extends run run'"
proof -
  obtain e sc e' where e: "fmlookup (rn_effects run) i = Some e"
    "fmlookup (rn_scopes run) (ep_scope_id e) = Some sc"
    and e': "apply_effect_transition e (sc_status sc) t = Ok e'"
    and run': "run' = (let E = fmupd i e' (rn_effects run); B = refresh_obligations E (rn_obligations run);
                  d = mk_index (rn_attempts run) (rn_scopes run) E B
              in run\<lparr>rn_effects := E, rn_obligations := B, rn_derived := d,
                     rn_world_settlement := settlement d\<rparr>)"
    using apply_effect_transitioned_eq [OF inv ok] by blast
  have "effect_reducer_legal e" using effects_okD [OF run_invD(5) [OF inv] e(1)] by (simp add: effect_ok_def)
  then have E: "map_extends effect_extends (rn_effects run) (fmupd i e' (rn_effects run))"
    using apply_effect_transition_extends [OF _ e'] e by (intro map_extends_upd) auto
  then show ?thesis
    using refresh_extends [OF run_invD(6) [OF inv] E] by (simp add: run_extends_def run' Let_def)
qed

lemma terminate_extends:
  assumes inv: "run_inv h run" and active: "rn_execution_status run = Active"
    and ok: "terminate_run_execution run ep = Ok run1"
  shows "run_extends run (run1\<lparr>rn_execution_status := st\<rparr>)"
proof -
  have run1: "run1 = (let A = deactivated (rn_attempts run); S = abort_open_scopes (rn_scopes run);
                  E = terminated_effects run; B = refresh_obligations E (rn_obligations run);
                  d = mk_index A S E B
              in run\<lparr>rn_epoch := ep, rn_attempts := A, rn_scopes := S, rn_effects := E,
                     rn_obligations := B, rn_derived := d, rn_world_settlement := settlement d\<rparr>)"
    and ep: "rn_epoch run \<le> ep"
    using terminate_run_execution_eq [OF inv ok] by simp_all
  have legal: "effect_reducer_legal e" if "fmlookup (rn_effects run) i = Some e" for i e
    using effects_okD [OF run_invD(5) [OF inv] that] by (simp add: effect_ok_def)
  have E: "map_extends effect_extends (rn_effects run) (terminated_effects run)"
    using terminalized_effect_extends legal
    by (auto simp: map_extends_def terminated_effects_def terminal_intents_def)
  show ?thesis
    using refresh_extends [OF run_invD(6) [OF inv] E] E ep active deactivated_extends abort_open_scopes_extends
    by (simp add: run_extends_def run1 Let_def)
qed

lemma attempt_handlers_extend:
  assumes active: "rn_execution_status run = Active"
  shows "apply_attempt_started run a c b ep fence = Ok run' \<Longrightarrow> run_extends run run'"
    "apply_attempt_yielded run a ep fence = Ok run' \<Longrightarrow> run_extends run run'"
    "apply_binding_updated run previous current = Ok run' \<Longrightarrow> run_extends run run'"
    "apply_run_migrated run from_plan to_plan from_binding to_binding ep = Ok run' \<Longrightarrow> run_extends run run'"
    "apply_run_completed run result = Ok run' \<Longrightarrow> run_extends run run'"
proof -
  show "run_extends run run'" if ok: "apply_attempt_started run a c b ep fence = Ok run'"
    using ok active by (auto simp: apply_attempt_started_def run_extends_def intro!: map_extends_upd
        split: if_splits)
  show "run_extends run run'" if ok: "apply_attempt_yielded run a ep fence = Ok run'"
    using ok active by (auto simp: apply_attempt_yielded_def run_extends_def attempt_extends_def
        intro!: map_extends_upd split: if_splits)
  show "run_extends run run'" if ok: "apply_binding_updated run previous current = Ok run'"
    using ok active by (auto simp: apply_binding_updated_def run_extends_def split: if_splits)
  show "run_extends run run'"
    if ok: "apply_run_migrated run from_plan to_plan from_binding to_binding ep = Ok run'"
    using ok active by (auto simp: apply_run_migrated_def run_extends_def split: if_splits)
  show "run_extends run run'" if ok: "apply_run_completed run result = Ok run'"
    using ok active by (auto simp: apply_run_completed_def run_extends_def split: if_splits)
qed

lemma scope_handlers_extend:
  assumes inv: "run_inv h run" and active: "rn_execution_status run = Active"
  shows "apply_epoch_advanced run ep = Ok run' \<Longrightarrow> run_extends run run'"
    "apply_scope_opened run s q inv_id path d region site = Ok run' \<Longrightarrow> run_extends run run'"
    "apply_effect_proposed h run run_id p = Ok run' \<Longrightarrow> run_extends run run'"
    "apply_scope_committed h run s n c = Ok run' \<Longrightarrow> run_extends run run'"
    "apply_scope_aborted run s = Ok run' \<Longrightarrow> run_extends run run'"
proof -
  note iv = run_invD [OF inv] run_keyedD [OF run_invD(1) [OF inv]]
  show "run_extends run run'" if ok: "apply_epoch_advanced run ep = Ok run'"
    using apply_epoch_advanced_eq [OF inv ok] active deactivated_extends by (simp add: run_extends_def)
  show "run_extends run run'" if ok: "apply_scope_opened run s q inv_id path d region site = Ok run'"
    using apply_scope_opened_eq(1,4) [OF inv ok] active
    by (auto simp: run_extends_def intro!: map_extends_upd)
  show "run_extends run run'" if ok: "apply_effect_proposed h run run_id p = Ok run'"
  proof -
    note o = apply_effect_proposed_eq [OF inv ok]
    from o(1) obtain sc where sc: "fmlookup (rn_scopes run) (ep_scope_id p) = Some sc" "sc_status sc = Open"
      and run': "run' = (let S = fmupd (ep_scope_id p) (sc\<lparr>sc_intents := finsert (ep_intent_id p) (sc_intents sc),
                          sc_intent_order := sc_intent_order sc @ [ep_intent_id p]\<rparr>) (rn_scopes run);
                   E = fmupd (ep_intent_id p) (admitted_effect p) (rn_effects run);
                   d = mk_index (rn_attempts run) S E (rn_obligations run)
               in run\<lparr>rn_scopes := S, rn_effects := E, rn_derived := d,
                      rn_world_settlement := settlement d\<rparr>)" by blast
    show ?thesis using sc o(2) active
      by (auto simp: run' Let_def run_extends_def scope_extends_def intro!: map_extends_upd)
  qed
  show "run_extends run run'" if ok: "apply_scope_committed h run s n c = Ok run'"
  proof -
    obtain sc X where sc: "fmlookup (rn_scopes run) s = Some sc" "sc_status sc = Open"
      and fresh: "\<forall>b ob. fmlookup X b = Some ob \<longrightarrow> fmlookup (rn_obligations run) b = None"
      and run': "run' = (let S = fmupd s (sc\<lparr>sc_status := ClosedCommitted\<rparr>) (rn_scopes run);
                  B = rn_obligations run ++\<^sub>f X
              in run\<lparr>rn_scopes := S, rn_obligations := B,
                     rn_derived := mk_index (rn_attempts run) S (rn_effects run) B\<rparr>)"
      using apply_scope_committed_eq [OF inv ok] by (elim exE conjE) (rule that)
    have "map_extends obligation_extends (rn_obligations run) (rn_obligations run ++\<^sub>f X)"
      using fresh by (fastforce simp: map_extends_def fmlookup_dom_iff)
    then show ?thesis using sc active
      by (auto simp: run' Let_def run_extends_def scope_extends_def intro!: map_extends_upd)
  qed
  show "run_extends run run'" if ok: "apply_scope_aborted run s = Ok run'"
  proof -
    obtain sc where sc: "fmlookup (rn_scopes run) s = Some sc" "sc_status sc = Open"
      and run': "run' = (let S = fmupd s (sc\<lparr>sc_status := ClosedAborted\<rparr>) (rn_scopes run);
                  E = replace_effects (abort_intents run sc) cancelled (rn_effects run);
                  d = mk_index (rn_attempts run) S E (rn_obligations run)
              in run\<lparr>rn_scopes := S, rn_effects := E, rn_derived := d,
                     rn_world_settlement := settlement d\<rparr>)"
      using apply_scope_aborted_eq [OF inv ok] by (elim exE conjE) (rule that)
    have "map_extends effect_extends (rn_effects run) (replace_effects (abort_intents run sc) cancelled (rn_effects run))"
      using cancelled_extends effects_okD [OF iv(5)]
      by (auto simp: map_extends_def abort_intents_def effect_ok_def)
    then show ?thesis using sc active
      by (auto simp: run' Let_def run_extends_def scope_extends_def intro!: map_extends_upd)
  qed
qed

lemma apply_run_payload_extends:
  assumes inv: "run_inv h run"
    and gate: "verify_run_event_gate (rn_execution_status run) (ev_payload event) = Ok ()"
    and ok: "apply_run_payload h run event = Ok run'"
  shows "run_extends run run'"
proof -
  have active: "rn_execution_status run = Active"
    if "\<And>i r. ev_payload event \<noteq> EffectTransitioned i (Reconcile r)"
    using gate that by (auto simp: verify_run_event_gate_def Let_def
        split: if_splits event_payload.splits effect_transition.splits)
  note ok' = ok [unfolded apply_run_payload_def]
  show ?thesis
  proof (cases "\<exists>i t. ev_payload event = EffectTransitioned i t")
    case True
    then show ?thesis using apply_effect_transitioned_extends [OF inv] ok' by auto
  next
    case False
    then have act: "rn_execution_status run = Active" using active by blast
    show ?thesis
      using ok' False attempt_handlers_extend [OF act] scope_handlers_extend [OF inv act]
        terminate_extends [OF inv act]
      by (cases "ev_payload event") auto
  qed
qed

lemma run_extends_last_event: "run_extends run run' \<Longrightarrow> run_extends run (run'\<lparr>rn_last_event := e\<rparr>)"
  by (simp add: run_extends_def)

end
