(* ===== verification/Reducer_Reach.thy ===== *)
theory Reducer_Reach
  imports Reducer_History
begin

text \<open>
  Reachability: replaying admitted Events from the empty projection. The generic part is the
  locale \<open>fallible_system\<close>, an invariant-preserving step function that may fail; it is interpreted
  for the reducer, so that every reachable projection satisfies \<open>projection_inv\<close>.
\<close>

section \<open>Replaying a fallible step function\<close>

locale fallible_system =
  fixes step :: "'e \<Rightarrow> 's \<Rightarrow> 'err + 's"
    and inv :: "'s \<Rightarrow> bool"
    and admitted :: "'e \<Rightarrow> bool"
  assumes step_inv: "inv s \<Longrightarrow> admitted e \<Longrightarrow> step e s = Ok s' \<Longrightarrow> inv s'"
begin

lemma replay_inv:
  "inv s \<Longrightarrow> (\<And>e. e \<in> set es \<Longrightarrow> admitted e) \<Longrightarrow> rfold step es s = Ok s' \<Longrightarrow> inv s'"
  by (induction es arbitrary: s) (auto intro: step_inv)

end

text \<open>Where every step also moves the state along a preorder, so does a replay.\<close>

locale progressive_system = fallible_system step inv admitted
  for step :: "'e \<Rightarrow> 's \<Rightarrow> 'err + 's" and inv :: "'s \<Rightarrow> bool" and admitted :: "'e \<Rightarrow> bool" +
  fixes le :: "'s \<Rightarrow> 's \<Rightarrow> bool"
  assumes le_refl: "le s s"
    and le_trans: "le s t \<Longrightarrow> le t u \<Longrightarrow> le s u"
    and step_le: "inv s \<Longrightarrow> admitted e \<Longrightarrow> step e s = Ok s' \<Longrightarrow> le s s'"
begin

lemma replay_le:
  "inv s \<Longrightarrow> (\<And>e. e \<in> set es \<Longrightarrow> admitted e) \<Longrightarrow> rfold step es s = Ok s' \<Longrightarrow> le s s'"
proof (induction es arbitrary: s)
  case Nil
  then show ?case using le_refl by simp
next
  case (Cons e es)
  then obtain t where "step e s = Ok t" "rfold step es t = Ok s'" by auto
  with Cons show ?case by (meson le_trans step_inv step_le list.set_intros)
qed

end

section \<open>The reducer keeps the invariant\<close>

definition host_ok :: "host \<Rightarrow> bool" where
  "host_ok h \<longleftrightarrow> (\<forall>bs. length (sha256 h bs) = 32)"

lemma active_of_empty [simp]: "active_of fmempty = None"
  by (simp add: active_of_None)

lemma started_run_index:
  "rn_derived (started_run r e p d b i) = run_index (started_run r e p d b i)"
  by (rule index_eqI) (auto simp: started_run_def run_index_def run_derived_index_default_def
      root_scope_def committed_effects_def committed_weight_def intro!: fset_eqI split: if_splits)

lemma started_run_inv: "run_inv h (started_run r e p d b i)"
proof -
  let ?run = "started_run r e p d b i"
  have sel: "rn_scopes ?run = fmupd ROOT_SCOPE_ID (root_scope i d) fmempty" "rn_effects ?run = fmempty"
    "rn_obligations ?run = fmempty" "rn_attempts ?run = fmempty" "rn_epoch ?run = 0"
    "rn_execution_status ?run = Active" "rn_result ?run = None" "rn_world_settlement ?run = Settled"
    by (simp_all add: started_run_def)
  have scope: "fmlookup (rn_scopes ?run) s = Some sc \<longleftrightarrow> s = ROOT_SCOPE_ID \<and> sc = root_scope i d" for s sc
    by (auto simp: sel)
  have "open_children (rn_scopes ?run) q = {||}" for q
    by (rule fset_eqI) (auto simp: sel root_scope_def split: if_splits)
  then have "counts_bounded ?run"
    by (simp add: counts_bounded_def sel committed_effects_def committed_weight_def root_scope_def
        fcard_fempty)
  moreover have "scopes_keyed ?run" "scopes_shaped ?run" "parents_acyclic (rn_scopes ?run)"
    by (auto simp: scopes_keyed_def scopes_shaped_def parents_acyclic_def scope root_scope_def)
  moreover have "settlement (run_index ?run) = Settled"
    by (auto simp: settlement_index derive_world_settlement_def sel)
  ultimately show ?thesis
    by (simp add: run_inv_def run_keyed_def started_run_index effects_keyed_def obligations_keyed_def
        attempts_keyed_def one_active_def effects_ok_def obligations_exact_def committed_mutation_def
        attempts_ok_def status_ok_def sel) (simp add: lineage_ok_def started_run_def)
qed

lemma apply_run_payload_inv:
  assumes host: "host_ok h" and inv: "run_inv h run" and adm: "event_admitted event"
    and gate: "verify_run_event_gate (rn_execution_status run) (ev_payload event) = Ok ()"
    and ok: "apply_run_payload h run event = Ok run'"
  shows "run_inv h run'"
proof -
  have ver: "event_verify_payload (ev_payload event) = Ok ()"
    "event_authority_identities (ev_payload event) = Ok ()" "event_plan_facts (ev_payload event)"
    using adm by (simp_all add: event_admitted_def)
  have active: "rn_execution_status run = Active"
    if "\<And>i r. ev_payload event \<noteq> EffectTransitioned i (Reconcile r)"
    using gate that by (auto simp: verify_run_event_gate_def Let_def
        split: if_splits event_payload.splits effect_transition.splits)
  have sha: "length (sha256 h bs) = 32" for bs using host by (simp add: host_ok_def)
  note ok' = ok [unfolded apply_run_payload_def]
  show ?thesis
  proof (cases "ev_payload event")
    case (RunFailed f ep)
    with ok' obtain run1 where "terminate_run_execution run ep = Ok run1"
      "run' = run1\<lparr>rn_execution_status := Failed f\<rparr>" by auto
    then show ?thesis
      using terminate_run_inv [OF inv active] RunFailed ver(1) by (auto simp: event_verify_payload_def)
  next
    case (RunCancelled r ep)
    with ok' obtain run1 where "terminate_run_execution run ep = Ok run1"
      "run' = run1\<lparr>rn_execution_status := Cancelled r\<rparr>" by auto
    then show ?thesis
      using terminate_run_inv [OF inv active] RunCancelled ver(1) by (auto simp: event_verify_payload_def)
  next
    case (AttemptStarted a c b ep fence)
    have act: "rn_execution_status run = Active" by (rule active) (simp add: AttemptStarted)
    show ?thesis using apply_attempt_started_inv [OF inv act] ok' ver(2) AttemptStarted by auto
  next
    case (AttemptYielded a ep fence)
    have act: "rn_execution_status run = Active" by (rule active) (simp add: AttemptYielded)
    show ?thesis using apply_attempt_yielded_inv [OF inv act] ok'  AttemptYielded by auto
  next
    case (EpochAdvanced ep)
    have act: "rn_execution_status run = Active" by (rule active) (simp add: EpochAdvanced)
    show ?thesis using apply_epoch_advanced_inv [OF inv act] ok'  EpochAdvanced by auto
  next
    case (ScopeOpened s q inv_id path d region site)
    have act: "rn_execution_status run = Active" by (rule active) (simp add: ScopeOpened)
    show ?thesis using apply_scope_opened_inv [OF inv act] ok' ver(3) ScopeOpened by auto
  next
    case (EffectProposed p)
    have act: "rn_execution_status run = Active" by (rule active) (simp add: EffectProposed)
    show ?thesis using apply_effect_proposed_inv [OF sha inv act] ok' ver(1,3) EffectProposed by auto
  next
    case (ScopeCommitted s n c)
    have act: "rn_execution_status run = Active" by (rule active) (simp add: ScopeCommitted)
    show ?thesis using apply_scope_committed_inv [OF inv act] ok'  ScopeCommitted by auto
  next
    case (ScopeAborted s)
    have act: "rn_execution_status run = Active" by (rule active) (simp add: ScopeAborted)
    show ?thesis using apply_scope_aborted_inv [OF inv act] ok'  ScopeAborted by auto
  next
    case (BindingUpdated b b')
    have act: "rn_execution_status run = Active" by (rule active) (simp add: BindingUpdated)
    show ?thesis using apply_binding_updated_inv [OF inv act] ok'  BindingUpdated by auto
  next
    case (RunMigrated p p' b b' sp ep dg)
    have act: "rn_execution_status run = Active" by (rule active) (simp add: RunMigrated)
    show ?thesis using apply_run_migrated_inv [OF inv act] ok'  RunMigrated by auto
  next
    case (RunCompleted r)
    have act: "rn_execution_status run = Active" by (rule active) (simp add: RunCompleted)
    show ?thesis using apply_run_completed_inv [OF inv act] ok' ver(1) RunCompleted by auto
  next
    case (EffectTransitioned i t)
    then show ?thesis using apply_effect_transitioned_inv [OF inv] gate ok' by auto
  qed (use inv ok' in auto)
qed

lemma run_inv_last_event:
  assumes "run_inv h run"
  shows "run_inv h (run\<lparr>rn_last_event := e\<rparr>)"
proof (rule run_inv_control [OF assms])
  note iv = run_invD [OF assms] run_keyedD [OF run_invD(1) [OF assms]]
  let ?run = "run\<lparr>rn_last_event := e\<rparr>"
  show "attempts_keyed ?run" "attempts_ok ?run" "lineage_ok ?run"
    using iv(7,9,14) by (simp_all add: attempts_keyed_def attempts_ok_def lineage_ok_def)
  show "status_ok ?run"
    using iv(8) by (simp add: status_ok_def terminal_ok_def no_active_attempt_def no_open_scope_def
        cong: run_execution_status.case_cong)
qed (simp_all add: derived_attempt_upd [OF assms])

text \<open>One Event either starts a fresh Run, or rewrites one existing Run and perhaps records a
  fact; the lazy index initialization does nothing on an indexed projection.\<close>

lemma apply_event_cases:
  assumes inv: "projection_inv h p" and ok: "apply_event h p event = Ok p'"
  obtains (started) plan entry bnd input i where "ev_payload event = RunStarted plan entry bnd input"
      "fmlookup (pj_runs p) (ev_run_id event) = None"
      "p' = p\<lparr>pj_runs := fmupd (ev_run_id event) (started_run (ev_run_id event) (ev_event_id event)
          plan entry bnd i) (pj_runs p)\<rparr>"
  | (stepped) run run' facts where "fmlookup (pj_runs p) (ev_run_id event) = Some run"
      "verify_run_event_gate (rn_execution_status run) (ev_payload event) = Ok ()"
      "apply_run_payload h run event = Ok run'"
      "map_extends (=) (pj_facts p) facts"
      "p' = \<lparr>pj_runs = fmupd (ev_run_id event) (run'\<lparr>rn_last_event := ev_event_id event\<rparr>) (pj_runs p),
             pj_facts = facts\<rparr>"
proof -
  have init: "ensure_projection_derived_index p event = Ok p"
  proof (cases "fmlookup (pj_runs p) (ev_run_id event)")
    case (Some run)
    then have "run_inv h run" using inv by (auto simp: projection_inv_def)
    then have "dx_initialized (rn_derived run)" by (simp add: run_inv_derived)
    then show ?thesis using Some by (simp add: ensure_projection_derived_index_def)
  qed (simp add: ensure_projection_derived_index_def)
  obtain fin q where global: "apply_projection_global_event h p event = Ok (fin, q)"
    and rest: "(if fin then Ok q else
      rbind (ok_or NotFound (fmlookup (pj_runs q) (ev_run_id event))) (\<lambda>run.
      rbind (verify_run_event_gate (rn_execution_status run) (ev_payload event)) (\<lambda>_.
      rbind (apply_run_payload h run event) (\<lambda>run.
      Ok (q\<lparr>pj_runs := fmupd (ev_run_id event)
            (run\<lparr>rn_last_event := ev_event_id event\<rparr>) (pj_runs q)\<rparr>))))) = Ok p'"
    using ok init by (auto simp: apply_event_def)
  show ?thesis
  proof (cases fin)
    case True
    then obtain plan entry bnd input i where "ev_payload event = RunStarted plan entry bnd input"
      "fmlookup (pj_runs p) (ev_run_id event) = None"
      "q = p\<lparr>pj_runs := fmupd (ev_run_id event) (started_run (ev_run_id event) (ev_event_id event)
          plan entry bnd i) (pj_runs p)\<rparr>"
      using global by (auto simp: apply_projection_global_event_def apply_run_started_def
          split: event_payload.splits option.splits if_splits)
    moreover have "p' = q" using rest True by simp
    ultimately show ?thesis using started by blast
  next
    case False
    have runs: "pj_runs q = pj_runs p" and facts: "map_extends (=) (pj_facts p) (pj_facts q)"
      using global False by (auto simp: apply_projection_global_event_def map_extends_def
          split: event_payload.splits option.splits if_splits)
    obtain run run' where run: "fmlookup (pj_runs p) (ev_run_id event) = Some run"
      "verify_run_event_gate (rn_execution_status run) (ev_payload event) = Ok ()"
      "apply_run_payload h run event = Ok run'"
      and p': "p' = q\<lparr>pj_runs := fmupd (ev_run_id event)
            (run'\<lparr>rn_last_event := ev_event_id event\<rparr>) (pj_runs q)\<rparr>"
      using rest False runs by auto
    have "p' = \<lparr>pj_runs = fmupd (ev_run_id event) (run'\<lparr>rn_last_event := ev_event_id event\<rparr>) (pj_runs p),
             pj_facts = pj_facts q\<rparr>" unfolding p' runs by simp
    then show ?thesis using stepped [OF run facts] by blast
  qed
qed

lemma apply_event_inv:
  assumes host: "host_ok h" and inv: "projection_inv h p" and adm: "event_admitted event"
    and ok: "apply_event h p event = Ok p'"
  shows "projection_inv h p'"
  using inv ok
proof (cases rule: apply_event_cases)
  case (started plan entry bnd input i)
  have "rn_run_id (started_run r e pl d b j) = r" "rn_last_event (started_run r e pl d b j) = e"
    for r e pl d b j by (simp_all add: started_run_def)
  then show ?thesis
    using inv adm started_run_inv unfolding projection_inv_def started(3)
    by (simp add: event_admitted_def)
next
  case (stepped run run' facts)
  have run: "run_inv h run" "rn_run_id run = ev_run_id event"
    using inv stepped(1) by (auto simp: projection_inv_def)
  have "run_inv h (run'\<lparr>rn_last_event := ev_event_id event\<rparr>)"
    by (rule run_inv_last_event [OF apply_run_payload_inv [OF host run(1) adm stepped(2,3)]])
  moreover have "rn_run_id run' = rn_run_id run"
    using apply_run_payload_extends [OF run(1) stepped(2,3)] by (simp add: run_extends_def)
  ultimately show ?thesis
    using inv adm run(2) unfolding projection_inv_def stepped(5) by (simp add: event_admitted_def)
qed

definition projection_extends :: "projection \<Rightarrow> projection \<Rightarrow> bool" where
  "projection_extends p p' \<longleftrightarrow> map_extends run_extends (pj_runs p) (pj_runs p')
     \<and> map_extends (=) (pj_facts p) (pj_facts p')"

lemma projection_extends_trans:
  assumes "projection_extends p q" "projection_extends q r"
  shows "projection_extends p r"
proof -
  have "map_extends run_extends (pj_runs p) (pj_runs r)"
  proof (rule map_extends_trans)
    show "map_extends run_extends (pj_runs p) (pj_runs q)" "map_extends run_extends (pj_runs q) (pj_runs r)"
      using assms by (simp_all add: projection_extends_def)
  qed (rule run_extends_trans)
  moreover have "map_extends (=) (pj_facts p) (pj_facts r)"
    using assms by (auto simp: projection_extends_def map_extends_def)
  ultimately show ?thesis by (simp add: projection_extends_def)
qed

lemma apply_event_extends:
  assumes inv: "projection_inv h p" and ok: "apply_event h p event = Ok p'"
  shows "projection_extends p p'"
  using inv ok
proof (cases rule: apply_event_cases)
  case started
  then show ?thesis by (auto simp: projection_extends_def intro!: map_extends_upd)
next
  case (stepped run run' facts)
  have "run_inv h run" using inv stepped(1) by (auto simp: projection_inv_def)
  from run_extends_last_event [OF apply_run_payload_extends [OF this stepped(2,3)]]
  show ?thesis using stepped by (auto simp: projection_extends_def intro!: map_extends_upd)
qed

interpretation reducer: progressive_system "\<lambda>event p. apply_event h p event" "projection_inv h"
  "\<lambda>event. host_ok h \<and> event_admitted event" projection_extends for h
proof
  show "projection_extends p p" for p by (simp add: projection_extends_def)
  show "projection_extends p r" if "projection_extends p q" "projection_extends q r" for p q r
    using that by (rule projection_extends_trans)
  show "projection_inv h p'" if "projection_inv h p" "host_ok h \<and> event_admitted e" "apply_event h p e = Ok p'" for p e p'
    using that by (blast intro: apply_event_inv)
  show "projection_extends p p'"
    if "projection_inv h p" "host_ok h \<and> event_admitted e" "apply_event h p e = Ok p'" for p e p'
    using that by (blast intro: apply_event_extends)
qed

lemma empty_projection_inv: "projection_inv h empty_projection"
  by (simp add: projection_inv_def empty_projection_def)

lemma reduce_events_inv:
  assumes "host_ok h" "\<forall>event\<in>set events. event_admitted event" "reduce_events h events = Ok p"
  shows "projection_inv h p"
  using reducer.replay_inv [OF empty_projection_inv] assms by (auto simp: reduce_events_def)

end
