(* ===== verification/Reducer_Demo.thy ===== *)
theory Reducer_Demo
  imports Reducer_Reach "HOL-Library.Code_Target_Nat"
begin

text \<open>
  Concrete histories at which the reducer's properties are instantiated: a Run that opens a
  scope, proposes a mutating Effect, commits, dispatches it, observes the outcome and completes,
  and a Run that fails while its Effect is in flight. The host functions are simple stand-ins of
  the right shape: 32-byte digests that keep a prefix of the input, and a plain rendering of
  JSON values.
\<close>

fun demo_jcs :: "json \<Rightarrow> string" where
  "demo_jcs JNull = ''n''"
| "demo_jcs (JBool b) = (if b then ''t'' else ''f'')"
| "demo_jcs (JInt i) = replicate (nat i) (CHR ''1'')"
| "demo_jcs (JStr s) = s"
| "demo_jcs (JArr vs) = concat (map demo_jcs vs)"
| "demo_jcs (JObj kvs) = concat (map (\<lambda>kv. demo_jcs (snd kv)) kvs)"

definition demo_host :: host where
  "demo_host = \<lparr>sha256 = (\<lambda>bs. take 32 (bs @ replicate 32 CHR 0x00)), jcs = demo_jcs\<rparr>"

lemma demo_host_ok: "host_ok demo_host"
  by (auto simp: host_ok_def demo_host_def min_def)

definition demo_id :: "char \<Rightarrow> string" where
  "demo_id c = ''sha256:'' @ replicate 64 c"

definition demo_ref :: "string \<Rightarrow> artifact_ref" where
  "demo_ref kind = \<lparr>ar_identity_version = ''cymule.artifact/2'', ar_artifact_id = demo_id CHR ''b'',
     ar_kind = kind\<rparr>"

definition demo_profile :: effect_profile where
  "demo_profile = \<lparr>pf_mutation = Mutating, pf_dispatch = OnScopeCommit, pf_reconciliation = Queryable,
     pf_keyed_idempotency = False, pf_irreversible = False\<rparr>"

definition or_empty :: "core_error + string \<Rightarrow> string" where
  "or_empty r = (case r of Inl _ \<Rightarrow> [] | Inr x \<Rightarrow> x)"

definition demo_intent :: string where
  "demo_intent = or_empty (effect_intent_id demo_host \<lparr>ii_run_id = ''run'', ii_plan_id = ''plan'',
     ii_invocation_id = ''inv'', ii_site_id = ''pay'', ii_scope_id = ''scope:child'',
     ii_occurrence = ''0'', ii_args = demo_ref ''cymule.effect-args/1'',
     ii_effect_schema_version = ''cymule.effect-schema/1''\<rparr>)"

definition demo_proposal :: effect_proposal where
  "demo_proposal = \<lparr>ep_intent_id = demo_intent, ep_origin_plan_id = ''plan'',
     ep_scope_id = ''scope:child'', ep_invocation_id = ''inv'', ep_invocation_path = [],
     ep_definition_id = ''main'', ep_region_path = [0], ep_site_id = ''pay'', ep_occurrence = ''0'',
     ep_effect_schema_version = ''cymule.effect-schema/1'', ep_operation = ''charge'',
     ep_profile = demo_profile, ep_args = demo_ref ''cymule.effect-args/1'',
     ep_execution_binding = demo_ref ''cymule.execution-binding/2'',
     ep_occurrence_binding = demo_id CHR ''c''\<rparr>"

definition demo_genesis :: string where
  "demo_genesis = or_empty (scope_obligation_commitment_genesis demo_host)"

definition demo_obligation :: obligation_projection where
  "demo_obligation = \<lparr>ob_obligation_id = or_empty (effect_obligation_id demo_host demo_intent),
     ob_intent_id = demo_intent, ob_blocking = True, ob_resolved = False\<rparr>"

definition demo_commitment :: string where
  "demo_commitment = or_empty (scope_obligation_commitment_append demo_host demo_genesis demo_obligation)"

definition demo_event :: "event_payload \<Rightarrow> event" where
  "demo_event payload = \<lparr>ev_event_id = ''event'', ev_run_id = ''run'', ev_payload = payload\<rparr>"

definition demo_opening :: "event list" where
  "demo_opening = map demo_event [
     RunStarted ''plan'' ''main'' (demo_id CHR ''b'') (demo_ref ''cymule.input/1''),
     FactRecorded ''region'' (demo_id CHR ''a''),
     AttemptStarted (demo_id CHR ''1'') (demo_id CHR ''2'') (demo_id CHR ''3'') 0 1,
     ScopeOpened ''scope:child'' ''scope:root'' ''inv'' [] ''main'' [0] ''step'',
     EffectProposed demo_proposal,
     ScopeCommitted ''scope:child'' 1 demo_commitment,
     EffectTransitioned demo_intent Prepare,
     EffectTransitioned demo_intent AuthorizeRelease,
     EffectTransitioned demo_intent StartDispatch]"

definition demo_closing :: "event list" where
  "demo_closing = map demo_event [
     EffectTransitioned demo_intent (Observe Applied),
     AttemptYielded (demo_id CHR ''1'') 0 1,
     ScopeCommitted ''scope:root'' 0 demo_genesis,
     RunCompleted None]"

definition demo_completed :: "event list" where
  "demo_completed = demo_opening @ demo_closing"

definition demo_failed :: "event list" where
  "demo_failed = demo_opening @ map demo_event [
     RunFailed \<lparr>rf_class = Substrate, rf_code = ''lost'', rf_detail = demo_ref ''cymule.detail/1''\<rparr> 1]"

definition demo_aborted :: "event list" where
  "demo_aborted = map demo_event [
     RunStarted ''plan'' ''main'' (demo_id CHR ''b'') (demo_ref ''cymule.input/1''),
     ScopeOpened ''scope:child'' ''scope:root'' ''inv'' [] ''main'' [0] ''step'',
     EffectProposed demo_proposal,
     ScopeAborted ''scope:child'']"

definition demo_projection :: "event list \<Rightarrow> projection" where
  "demo_projection events = (case reduce_events demo_host events of
     Inl _ \<Rightarrow> empty_projection | Inr p \<Rightarrow> p)"

definition demo_run :: "event list \<Rightarrow> run_projection" where
  "demo_run events = (case fmlookup (pj_runs (demo_projection events)) ''run'' of
     Some run \<Rightarrow> run | None \<Rightarrow> started_run [] [] [] [] [] [])"

definition demo_effect :: "event list \<Rightarrow> effect_projection" where
  "demo_effect events = (case fmlookup (rn_effects (demo_run events)) demo_intent of
     Some e \<Rightarrow> e | None \<Rightarrow> admitted_effect demo_proposal)"

definition is_ok :: "'e + 'a \<Rightarrow> bool" where
  "is_ok r = (case r of Inl _ \<Rightarrow> False | Inr _ \<Rightarrow> True)"

text \<open>One evaluation per history: it replays, and the final Run and Effect satisfy \<open>P\<close>.\<close>

definition demo_check ::
  "event list \<Rightarrow> (projection \<Rightarrow> run_projection \<Rightarrow> bool) \<Rightarrow> (effect_projection \<Rightarrow> bool) \<Rightarrow> bool" where
  "demo_check events P Q =
     (case reduce_events demo_host events of
        Inl _ \<Rightarrow> False
      | Inr p \<Rightarrow>
          (case fmlookup (pj_runs p) ''run'' of
             None \<Rightarrow> False
           | Some run \<Rightarrow> P p run \<and>
               (case fmlookup (rn_effects run) demo_intent of None \<Rightarrow> False | Some e \<Rightarrow> Q e)))"

lemma demo_checkD:
  assumes "demo_check events P Q"
  shows "reduce_events demo_host events = Ok (demo_projection events)"
    "fmlookup (pj_runs (demo_projection events)) ''run'' = Some (demo_run events)"
    "fmlookup (rn_effects (demo_run events)) demo_intent = Some (demo_effect events)"
    "P (demo_projection events) (demo_run events)" "Q (demo_effect events)"
  using assms
  by (auto simp: demo_check_def demo_projection_def demo_run_def demo_effect_def
      split: sum.splits option.splits)

lemma demo_opening_check:
  "demo_check demo_opening
     (\<lambda>p run. rn_execution_status run = Active \<and> rn_epoch run = 0
        \<and> fmlookup (pj_facts p) ''region'' = Some (demo_id CHR ''a'')
        \<and> (case fmlookup (rn_attempts run) (demo_id CHR ''1'') of
             None \<Rightarrow> False | Some t \<Rightarrow> at_active t \<and> at_execution_fence t = 1))
     (\<lambda>e. ef_phase e = DispatchStarted \<and> pf_mutation (ep_profile e) = Mutating)"
  by code_simp

lemma demo_completed_check:
  "demo_check demo_completed (\<lambda>p run. rn_execution_status run = Completed) (\<lambda>e. ef_outcome e = Applied)"
  by code_simp

lemma demo_failed_check:
  "demo_check demo_failed (\<lambda>p run. rn_execution_status run \<noteq> Active) (\<lambda>e. ef_outcome e = Unknown)"
  by code_simp

lemma demo_aborted_check:
  "demo_check demo_aborted
     (\<lambda>p run. case fmlookup (rn_scopes run) ''scope:child'' of
        None \<Rightarrow> False | Some sc \<Rightarrow> sc_status sc = ClosedAborted)
     (\<lambda>e. ep_scope_id e = ''scope:child'' \<and> pf_mutation (ep_profile e) = Mutating)"
  by code_simp

lemmas demo_opening_facts = demo_checkD [OF demo_opening_check]

lemmas demo_completed_facts = demo_checkD [OF demo_completed_check]

lemmas demo_failed_facts = demo_checkD [OF demo_failed_check]

lemmas demo_aborted_facts = demo_checkD [OF demo_aborted_check]

lemma demo_admitted:
  "list_all event_admitted demo_completed" "list_all event_admitted demo_failed"
  "list_all event_admitted demo_aborted"
  by code_simp+

lemma demo_opening_admitted: "list_all event_admitted demo_opening"
  using demo_admitted(1) by (simp add: demo_completed_def)

end
