(* ===== verification/Reducer_Properties.thy ===== *)
theory Reducer_Properties
  imports Reducer_Demo
begin

text \<open>
  The correctness properties of the reducer, each a short consequence of the invariant and the
  closed forms of the handlers, with an instance at a concrete history.
\<close>

section \<open>Reachable projections\<close>

lemma reachable_run:
  assumes "host_ok h" "\<forall>event\<in>set events. event_admitted event" "reduce_events h events = Ok p"
    "fmlookup (pj_runs p) r = Some run"
  shows "run_inv h run"
  using reduce_events_inv [OF assms(1-3)] assms(4) by (simp add: projection_inv_def)

text \<open>C1: Replaying any sequence of admitted Events from the empty projection leaves a projection
  that passes both from-scratch audits of the source, the reducer-invariant audit and the
  derived-index audit.\<close>

theorem replay_passes_audits:
  assumes "host_ok h" "\<forall>event\<in>set events. event_admitted event" "reduce_events h events = Ok p"
  shows "verify_reducer_invariants h p = Ok () \<and> verify_derived_indexes p = Ok ()"
  using projection_inv_audits [OF reduce_events_inv [OF assms]] by simp

theorem replay_passes_audits_witness:
  "verify_reducer_invariants demo_host (demo_projection demo_completed) = Ok ()
   \<and> verify_derived_indexes (demo_projection demo_completed) = Ok ()"
  using replay_passes_audits [OF demo_host_ok _ demo_completed_facts(1)] demo_admitted(1)
  by (simp add: list_all_iff)

text \<open>C2: In every reachable projection the hot index that the handlers maintain incrementally is
  initialized and equals, component by component, the index rebuilt from the canonical fields
  alone, and the rebuild does not fail.\<close>

theorem incremental_index_is_rebuild:
  assumes "host_ok h" "\<forall>event\<in>set events. event_admitted event" "reduce_events h events = Ok p"
    and "fmlookup (pj_runs p) r = Some run"
  shows "dx_initialized (rn_derived run) \<and> rebuild run = Ok (rn_derived run)"
proof -
  have "run_inv h run" using reachable_run [OF assms] .
  then show ?thesis using rebuild_run_index run_invD(1,2) run_inv_derived by (metis mk_index_simps(1))
qed

theorem incremental_index_is_rebuild_witness:
  "rebuild (demo_run demo_failed) = Ok (rn_derived (demo_run demo_failed))"
  using incremental_index_is_rebuild [OF demo_host_ok _ demo_failed_facts(1,2)] demo_admitted(2)
  by (simp add: list_all_iff)

text \<open>C3: Histories are append-only: replaying further admitted Events keeps every fact, Run,
  scope, Effect, obligation and attempt, only extends lineages and intent orders, never lowers an
  epoch, and leaves closed scopes, settled Effects, ended attempts and terminal statuses
  unchanged.\<close>

theorem history_append_only:
  assumes "host_ok h" "\<forall>event\<in>set (events @ later). event_admitted event"
    and "reduce_events h events = Ok p" "reduce_events h (events @ later) = Ok p'"
  shows "projection_extends p p'"
proof -
  have "projection_inv h p" using assms by (intro reduce_events_inv [OF assms(1) _ assms(3)]) simp
  moreover have "rfold (\<lambda>event p. apply_event h p event) later p = Ok p'"
    using assms(3,4) by (simp add: reduce_events_def)
  ultimately show ?thesis using reducer.replay_le [of h p later p'] assms(1,2) by simp
qed

theorem history_append_only_witness:
  "projection_extends (demo_projection demo_opening) (demo_projection demo_completed)"
  using history_append_only [OF demo_host_ok _ demo_opening_facts(1), of demo_closing]
    demo_completed_facts(1) demo_admitted(1)
  unfolding demo_completed_def [symmetric] by (simp add: list_all_iff)

section \<open>Completion\<close>

lemma settled_effect:
  assumes "derive_world_settlement run = Settled" "fmlookup (rn_effects run) i = Some e"
    and "effect_reducer_legal e"
  shows "ef_outcome e = Applied \<or> ef_outcome e = NotApplied" "effect_resolved e"
proof -
  have "ef_outcome e \<noteq> Unknown" "ef_phase e = CancelledBeforeRelease \<or> ef_outcome e \<noteq> Unobserved"
    using assms(1,2) by (auto simp: derive_world_settlement_def list_ex_iff split: if_splits)
  then show "ef_outcome e = Applied \<or> ef_outcome e = NotApplied"
    using assms(3) legal_cancelled [of e] by (cases "ef_outcome e") auto
  then show "effect_resolved e" by (auto simp: effect_resolved_def)
qed

text \<open>C4: A Run reports completion only when nothing is left in doubt: no scope is open, no
  attempt is active, every Effect has a definite outcome (applied or not applied) and every
  obligation is resolved.\<close>

theorem completed_run_settled:
  assumes "host_ok h" "\<forall>event\<in>set events. event_admitted event" "reduce_events h events = Ok p"
    and "fmlookup (pj_runs p) r = Some run" "rn_execution_status run = Completed"
  shows "(\<nexists>s sc. fmlookup (rn_scopes run) s = Some sc \<and> sc_status sc = Open)
     \<and> (\<nexists>a t. fmlookup (rn_attempts run) a = Some t \<and> at_active t)
     \<and> (\<nexists>i e. fmlookup (rn_effects run) i = Some e \<and> \<not> (ef_outcome e = Applied \<or> ef_outcome e = NotApplied))
     \<and> (\<nexists>b ob. fmlookup (rn_obligations run) b = Some ob \<and> \<not> ob_resolved ob)"
proof -
  have inv: "run_inv h run" using reachable_run [OF assms(1-4)] .
  note iv = run_invD [OF inv]
  have status: "derive_world_settlement run = Settled" "no_active_attempt run" "no_open_scope run"
    using iv(8,10) assms(5) by (simp_all add: status_ok_def settlement_index)
  have eff: "ef_outcome e = Applied \<or> ef_outcome e = NotApplied" "effect_resolved e"
    if "fmlookup (rn_effects run) i = Some e" for i e
    using settled_effect [OF status(1) that] effects_okD [OF iv(5) that] by (auto simp: effect_ok_def)
  have "ob_resolved ob" if "fmlookup (rn_obligations run) b = Some ob" for b ob
    using obligations_exactD [OF iv(6) that] eff(2)
    by (metis committed_mutation_def obligation_of_def obligation_projection.select_convs(4))
  moreover have "\<nexists>s sc. fmlookup (rn_scopes run) s = Some sc \<and> sc_status sc = Open"
    using status(3) unfolding no_open_scope_def by (metis open_scopes_iff fempty_iff)
  moreover have "\<nexists>a t. fmlookup (rn_attempts run) a = Some t \<and> at_active t"
    using status(2) unfolding no_active_attempt_def active_of_None by blast
  ultimately show ?thesis using eff(1) by blast
qed

theorem completed_run_settled_witness:
  "\<nexists>i e. fmlookup (rn_effects (demo_run demo_completed)) i = Some e
     \<and> \<not> (ef_outcome e = Applied \<or> ef_outcome e = NotApplied)"
  using completed_run_settled [OF demo_host_ok _ demo_completed_facts(1,2,4)] demo_admitted(1)
  by (simp add: list_all_iff)

section \<open>Mutations and scopes\<close>

text \<open>C5: A mutating Effect is released or dispatched only after its scope has committed, and
  then the Run carries a blocking obligation for it under the obligation identity derived from
  its intent.\<close>

theorem mutation_after_commit:
  assumes "host_ok h" "\<forall>event\<in>set events. event_admitted event" "reduce_events h events = Ok p"
    and "fmlookup (pj_runs p) r = Some run" "fmlookup (rn_effects run) i = Some e"
    and "pf_mutation (ep_profile e) = Mutating" "ef_phase e = ReleaseAuthorized \<or> ef_phase e = DispatchStarted"
  shows "\<exists>sc b ob. fmlookup (rn_scopes run) (ep_scope_id e) = Some sc \<and> sc_status sc = ClosedCommitted
     \<and> effect_obligation_id h i = Ok b \<and> fmlookup (rn_obligations run) b = Some ob
     \<and> ob_intent_id ob = i \<and> ob_blocking ob
     \<and> ob_resolved ob = (ef_outcome e = Applied \<or> ef_outcome e = NotApplied)"
proof -
  have inv: "run_inv h run" using reachable_run [OF assms(1-4)] .
  note iv = run_invD [OF inv] run_keyedD [OF run_invD(1) [OF inv]]
  obtain sc where sc: "fmlookup (rn_scopes run) (ep_scope_id e) = Some sc"
    using effects_keyedD(2) [OF iv(12) assms(5)] by blast
  then have "verify_effect_scope_state e sc = Ok ()"
    using effects_okD [OF iv(5) assms(5)] by (simp add: effect_ok_def)
  then have closed: "sc_status sc = ClosedCommitted"
    using assms(6,7) by (cases "pf_dispatch (ep_profile e)")
      (auto simp: verify_effect_scope_state_def Let_def split: if_splits)
  then have "committed_mutation run i e" using sc assms(5,6) by (simp add: committed_mutation_def)
  moreover obtain b where "effect_obligation_id h i = Ok b" using effect_obligation_id_total by blast
  ultimately show ?thesis
    using obligations_exactI [OF iv(6)] sc closed assms(7)
    by (auto simp: obligation_of_def effect_resolved_def)
qed

theorem mutation_after_commit_witness:
  "\<exists>sc. fmlookup (rn_scopes (demo_run demo_opening)) (ep_scope_id (demo_effect demo_opening)) = Some sc
     \<and> sc_status sc = ClosedCommitted"
proof -
  have e: "pf_mutation (ep_profile (demo_effect demo_opening)) = Mutating"
    "ef_phase (demo_effect demo_opening) = ReleaseAuthorized \<or> ef_phase (demo_effect demo_opening) = DispatchStarted"
    using demo_opening_facts(5) by simp_all
  show ?thesis
    using mutation_after_commit [OF demo_host_ok _ demo_opening_facts(1,2,3) e] demo_opening_admitted
    by (auto simp: list_all_iff)
qed

text \<open>C6: In an aborted scope no mutating Effect has happened: each one is cancelled before
  release and recorded as not applied.\<close>

theorem aborted_scope_mutates_nothing:
  assumes "host_ok h" "\<forall>event\<in>set events. event_admitted event" "reduce_events h events = Ok p"
    and "fmlookup (pj_runs p) r = Some run" "fmlookup (rn_effects run) i = Some e"
    and "fmlookup (rn_scopes run) (ep_scope_id e) = Some sc" "sc_status sc = ClosedAborted"
    and "pf_mutation (ep_profile e) = Mutating"
  shows "ef_phase e = CancelledBeforeRelease \<and> ef_outcome e = NotApplied"
proof -
  have inv: "run_inv h run" using reachable_run [OF assms(1-4)] .
  have "effect_reducer_legal e" "verify_effect_scope_state e sc = Ok ()"
    using effects_okD [OF run_invD(5) [OF inv] assms(5)] assms(6) by (auto simp: effect_ok_def)
  then show ?thesis
    using assms(7,8) legal_cancelled [of e]
    by (auto simp: verify_effect_scope_state_def Let_def split: if_splits)
qed

theorem aborted_scope_mutates_nothing_witness:
  "ef_phase (demo_effect demo_aborted) = CancelledBeforeRelease
   \<and> ef_outcome (demo_effect demo_aborted) = NotApplied"
proof -
  obtain sc where sc: "fmlookup (rn_scopes (demo_run demo_aborted)) (ep_scope_id (demo_effect demo_aborted)) = Some sc"
    "sc_status sc = ClosedAborted"
    using demo_aborted_facts(4,5) by (auto split: option.splits)
  show ?thesis
    using aborted_scope_mutates_nothing [OF demo_host_ok _ demo_aborted_facts(1,2,3) sc]
      demo_admitted(3) demo_aborted_facts(5) by (simp add: list_all_iff)
qed

section \<open>Attempts and fencing\<close>



text \<open>A worker cannot yield an attempt it has lost: a yield whose attempt has already ended,
  or whose epoch or fence is not the recorded one, is rejected as an illegal transition.\<close>

theorem stale_yield_rejected:
  assumes "fmlookup (rn_attempts run) a = Some t"
    and "verify_attempt_numbers epoch fence = Ok ()"
    and "\<not> at_active t \<or> at_continuation_epoch t \<noteq> epoch \<or> at_execution_fence t \<noteq> fence"
  shows "apply_attempt_yielded run a epoch fence = Err IllegalTransition"
  using assms by (simp add: apply_attempt_yielded_def)

theorem stale_yield_rejected_witness:
  "apply_attempt_yielded (demo_run demo_opening) (demo_id CHR ''1'') 0 2 = Err IllegalTransition"
proof -
  obtain t where t: "fmlookup (rn_attempts (demo_run demo_opening)) (demo_id CHR ''1'') = Some t"
    "at_execution_fence t = 1" using demo_opening_facts(4) by (auto split: option.splits)
  show ?thesis
    by (rule stale_yield_rejected [OF t(1)])
      (simp_all add: t(2) verify_attempt_numbers_def MAX_EXACT_INTEGER_def)
qed

section \<open>Terminal Runs\<close>

text \<open>C9: Once a Run has completed, failed or been cancelled, the reducer rejects every further
  Event of that Run as an illegal transition, except a reconciliation of an Effect in a failed
  or cancelled Run.\<close>

theorem terminal_run_rejects:
  assumes "host_ok h" "\<forall>event\<in>set events. event_admitted event" "reduce_events h events = Ok p"
    and "fmlookup (pj_runs p) (ev_run_id event) = Some run" "rn_execution_status run \<noteq> Active"
    and "rn_execution_status run = Completed
         \<or> (\<nexists>i resolution. ev_payload event = EffectTransitioned i (Reconcile resolution))"
  shows "apply_event h p event = Err IllegalTransition"
proof -
  have inv: "run_inv h run" using reachable_run [OF assms(1-4)] .
  have init: "ensure_projection_derived_index p event = Ok p"
    using assms(4) by (simp add: ensure_projection_derived_index_def run_inv_derived [OF inv])
  have gate: "verify_run_event_gate (rn_execution_status run) (ev_payload event) = Err IllegalTransition"
    using assms(5,6) by (auto simp: verify_run_event_gate_def Let_def
        split: event_payload.splits effect_transition.splits run_execution_status.splits)
  show ?thesis
  proof (cases "apply_projection_global_event h p event")
    case (Inl e)
    then have "e = IllegalTransition"
      using assms(4) by (auto simp: apply_projection_global_event_def apply_run_started_def
          split: event_payload.splits option.splits if_splits)
    then show ?thesis using init Inl by (simp add: apply_event_def)
  next
    case (Inr g)
    then obtain q where "g = (False, q)" "pj_runs q = pj_runs p"
      using assms(4) by (auto simp: apply_projection_global_event_def apply_run_started_def
          split: event_payload.splits option.splits if_splits)
    then show ?thesis using init Inr assms(4) gate by (simp add: apply_event_def)
  qed
qed

theorem terminal_run_rejects_witness:
  "apply_event demo_host (demo_projection demo_failed) (demo_event (EpochAdvanced 2)) = Err IllegalTransition"
  using terminal_run_rejects [OF demo_host_ok _ demo_failed_facts(1), of "demo_event (EpochAdvanced 2)"
      "demo_run demo_failed"] demo_failed_facts(2,4) demo_admitted(2)
  by (simp add: list_all_iff demo_event_def)



text \<open>C11: An active Run can always be stopped: below the epoch bound, a cancellation at the next
  epoch is accepted whatever scopes, attempts and Effects are in flight.\<close>

theorem active_run_cancellable:
  assumes "host_ok h" "\<forall>event\<in>set events. event_admitted event" "reduce_events h events = Ok p"
    and "fmlookup (pj_runs p) r = Some run" "rn_execution_status run = Active"
    and "rn_epoch run + 1 \<le> MAX_EXACT_INTEGER"
  shows "\<exists>p' run'. apply_event h p \<lparr>ev_event_id = ident, ev_run_id = r,
      ev_payload = RunCancelled reason (rn_epoch run + 1)\<rparr> = Ok p'
     \<and> fmlookup (pj_runs p') r = Some run' \<and> rn_execution_status run' = Cancelled reason"
proof -
  have inv: "run_inv h run" using reachable_run [OF assms(1-4)] .
  obtain run1 where "terminate_run_execution run (rn_epoch run + 1) = Ok run1"
    using terminate_run_execution_total [OF inv refl assms(6)] by blast
  then show ?thesis
    using assms(4,5) by (simp add: apply_event_def ensure_projection_derived_index_def
        run_inv_derived [OF inv] apply_projection_global_event_def verify_run_event_gate_def
        apply_run_payload_def Let_def)
qed

theorem active_run_cancellable_witness:
  "\<exists>p' run'. apply_event demo_host (demo_projection demo_opening)
      (demo_event (RunCancelled (demo_ref ''cymule.reason/1'') 1)) = Ok p'
     \<and> fmlookup (pj_runs p') ''run'' = Some run'
     \<and> rn_execution_status run' = Cancelled (demo_ref ''cymule.reason/1'')"
  using active_run_cancellable [OF demo_host_ok _ demo_opening_facts(1,2), where ident = "''event''"
      and reason = "demo_ref ''cymule.reason/1''"]
    demo_opening_facts(4) demo_opening_admitted
  by (simp add: demo_event_def list_all_iff MAX_EXACT_INTEGER_def)

section \<open>The Effect lifecycle\<close>

text \<open>The Effect states that the audit accepts are closed under the lifecycle: from a legal
  state in a scope that permits it, every accepted transition leads to a legal state that the
  same scope permits, and changes nothing of the proposal.\<close>

theorem lifecycle_stays_legal:
  assumes "effect_reducer_legal e" "verify_effect_scope_state e sc = Ok ()"
    and "apply_effect_transition e (sc_status sc) t = Ok e'"
  shows "effect_reducer_legal e' \<and> verify_effect_scope_state e' sc = Ok () \<and> same_proposal e e'"
  using apply_effect_transition_legal apply_effect_transition_scope apply_effect_transition_same assms
  by blast

theorem lifecycle_stays_legal_witness:
  "effect_reducer_legal ((admitted_effect demo_proposal)\<lparr>ef_phase := Prepared\<rparr>)"
  using lifecycle_stays_legal [of "admitted_effect demo_proposal" "root_scope [] []" Prepare
      "(admitted_effect demo_proposal)\<lparr>ef_phase := Prepared\<rparr>"]
  by (simp add: legal_waiting verify_effect_scope_state_def demo_proposal_def demo_profile_def
      root_scope_def)

text \<open>An outcome is final: once a legal Effect is applied, not applied or cancelled, every
  transition is rejected as illegal.\<close>

theorem settled_effect_final:
  assumes "effect_reducer_legal e" "effect_resolved e"
  shows "apply_effect_transition e st t = Err IllegalTransition"
  using resolved_effect_final [OF assms] .

theorem settled_effect_final_witness:
  "apply_effect_transition ((admitted_effect demo_proposal)\<lparr>ef_phase := DispatchStarted,
     ef_outcome := Applied\<rparr>) ClosedCommitted (Observe NotApplied) = Err IllegalTransition"
  by (rule settled_effect_final) (simp_all add: legal_dispatched effect_resolved_def)

text \<open>C14: An unknown outcome is neither forgotten nor stuck: the only accepted transitions that
  leave it are the two definite reconciliations, and both are accepted from every legal unknown
  state, whatever the reconciliation mode and even when the adapter has become unavailable.\<close>

theorem unknown_left_by_reconciliation:
  assumes "effect_reducer_legal e" "ef_phase e = DispatchStarted" "ef_outcome e = Unknown"
  shows "(\<exists>e'. apply_effect_transition e st t = Ok e' \<and> ef_outcome e' \<noteq> Unknown) \<longleftrightarrow>
     t = Reconcile ResolvedApplied \<or> t = Reconcile ResolvedNotApplied"
proof (cases t)
  case (Reconcile r)
  have allowed: "reconciliation_transition_allowed (pf_reconciliation (ep_profile e)) (ef_reconciliation e) r
      \<or> (ef_execution_availability e = Unavailable \<and> ef_reconciliation e = GovernanceRequired)"
    if "r = ResolvedApplied \<or> r = ResolvedNotApplied"
    using assms that by (auto simp: legal_dispatched reconciliation_transition_allowed_def
        automatic_mode_def split: if_splits) (metis effect_execution_availability.exhaust)+
  show ?thesis
    using assms Reconcile allowed by (cases r) (auto simp: resolve_effect_def)
qed (use assms in \<open>auto simp: Let_def\<close>)

theorem unknown_left_by_reconciliation_witness:
  "\<exists>e'. apply_effect_transition ((admitted_effect demo_proposal)\<lparr>ef_phase := DispatchStarted,
       ef_outcome := Unknown, ef_reconciliation := Pending\<rparr>) ClosedAborted (Reconcile ResolvedApplied) = Ok e'
     \<and> ef_outcome e' \<noteq> Unknown"
  using unknown_left_by_reconciliation [of "(admitted_effect demo_proposal)\<lparr>ef_phase := DispatchStarted,
       ef_outcome := Unknown, ef_reconciliation := Pending\<rparr>" ClosedAborted "Reconcile ResolvedApplied"]
  by (simp add: legal_dispatched automatic_mode_def demo_proposal_def demo_profile_def)

section \<open>Scope commitment\<close>

lemma scope_obligation_summary_count:
  assumes "scope_obligation_summary h obs = Ok (n, c)"
  shows "n = length obs"
proof -
  obtain genesis where fold: "rfold (\<lambda>obligation (count, commitment).
       rbind (effect_obligation_id h (ob_intent_id obligation)) (\<lambda>expected.
       if ob_obligation_id obligation \<noteq> expected \<or> \<not> ob_blocking obligation
       then Err Validation
       else
         rbind (ok_or Validation (exact_add count 1)) (\<lambda>count.
         rbind (scope_obligation_commitment_append h commitment obligation) (\<lambda>commitment.
         Ok (count, commitment))))) obs (0, genesis) = Ok (n, c)"
    using assms unfolding scope_obligation_summary_def rbind_eq_Ok by blast
  have "fst (n, c) = length obs"
    by (rule rfold_invariant [where I = "\<lambda>xs s. fst s = length xs", OF fold])
      (auto split: if_splits prod.splits)
  then show ?thesis by simp
qed

text \<open>C15: Committing a scope closes it and creates exactly the obligations it declared: the
  declared count is the number of mutating Effects in its proposal order, and afterwards the
  obligation map holds the earlier obligations and one obligation for each of these Effects,
  nothing else.\<close>

theorem commit_creates_declared_obligations:
  assumes "host_ok h" "\<forall>event\<in>set events. event_admitted event" "reduce_events h events = Ok p"
    and "fmlookup (pj_runs p) r = Some run" "apply_scope_committed h run s count commitment = Ok run'"
  shows "\<exists>sc. fmlookup (rn_scopes run) s = Some sc \<and> sc_status sc = Open
     \<and> fmlookup (rn_scopes run') s = Some (sc\<lparr>sc_status := ClosedCommitted\<rparr>)
     \<and> count = length (filter (\<lambda>i. pf_mutation (ep_profile (effect_at (rn_effects run) i)) = Mutating)
                   (sc_intent_order sc))
     \<and> (\<forall>b ob. fmlookup (rn_obligations run') b = Some ob \<longleftrightarrow>
          fmlookup (rn_obligations run) b = Some ob
          \<or> (\<exists>i e. i \<in> set (sc_intent_order sc) \<and> fmlookup (rn_effects run) i = Some e
               \<and> pf_mutation (ep_profile e) = Mutating \<and> effect_obligation_id h i = Ok b
               \<and> ob = obligation_of b i e))"
proof -
  have inv: "run_inv h run" using reachable_run [OF assms(1-4)] .
  obtain sc X where sc: "fmlookup (rn_scopes run) s = Some sc" "sc_status sc = Open"
    and X: "derived_scope_obligations h run (scope_index (rn_effects run) (sc_intent_order sc)) = Ok X"
    and fresh: "\<And>b ob. fmlookup X b = Some ob \<Longrightarrow> fmlookup (rn_obligations run) b = None"
    and S: "rn_scopes run' = fmupd s (sc\<lparr>sc_status := ClosedCommitted\<rparr>) (rn_scopes run)"
    and B: "rn_obligations run' = rn_obligations run ++\<^sub>f X"
    using apply_scope_committed_eq [OF inv assms(5)] by (auto simp: Let_def)
  obtain os where os: "open_scope_close_index run s = Ok os"
    using assms(5) by (auto simp: apply_scope_committed_def)
  then have os': "os = scope_index (rn_effects run) (sc_intent_order sc)"
    using open_scope_close_index_eq [OF inv os] sc(1) by auto
  obtain obs where "rmap (\<lambda>intent_id. rbind (effect_obligation_id h intent_id) (\<lambda>id.
        ok_or NotFound (fmlookup X id))) (oi_mutating_intent_order os) = Ok obs"
      "scope_obligation_summary h obs = Ok (count, commitment)"
    using assms(5) os X unfolding apply_scope_committed_def os'
    by (auto split: if_splits prod.splits)
  then have "count = length (oi_mutating_intent_order os)"
    using scope_obligation_summary_count rmap_length by metis
  moreover have "fmlookup (rn_obligations run') b = Some ob \<longleftrightarrow>
      fmlookup (rn_obligations run) b = Some ob \<or> fmlookup X b = Some ob" for b ob
    using fresh [of b] unfolding B by (cases "fmlookup X b") (auto simp: fmdom_notI fmdomI)
  ultimately show ?thesis
    using sc S derived_scope_obligations_eq [OF inv X] by (auto simp: os')
qed

theorem commit_creates_declared_obligations_witness:
  "\<exists>run'. apply_scope_committed demo_host (demo_run (take 5 demo_opening)) ''scope:child'' 1
       demo_commitment = Ok run'
     \<and> (\<exists>sc. fmlookup (rn_scopes run') ''scope:child'' = Some sc \<and> sc_status sc = ClosedCommitted)"
proof -
  have check: "demo_check (take 5 demo_opening)
      (\<lambda>p run. is_ok (apply_scope_committed demo_host run ''scope:child'' 1 demo_commitment)) (\<lambda>e. True)"
    by code_simp
  note facts = demo_checkD [OF check]
  obtain run' where run': "apply_scope_committed demo_host (demo_run (take 5 demo_opening))
      ''scope:child'' 1 demo_commitment = Ok run'"
    using facts(4) by (auto simp: is_ok_def split: sum.splits)
  have "\<forall>event\<in>set (take 5 demo_opening). event_admitted event"
    using demo_opening_admitted by (auto simp: list_all_iff dest: in_set_takeD)
  from commit_creates_declared_obligations [OF demo_host_ok this facts(1,2) run'] run'
  show ?thesis by auto
qed

section \<open>Facts and identities\<close>

text \<open>Facts are write-once: recording a different value under a recorded key is rejected as
  an illegal transition, whichever Run records it.\<close>

theorem fact_write_once:
  assumes "host_ok h" "\<forall>event\<in>set events. event_admitted event" "reduce_events h events = Ok p"
    and "fmlookup (pj_facts p) key = Some recorded" "ev_payload event = FactRecorded key value"
    and "value \<noteq> recorded"
  shows "apply_event h p event = Err IllegalTransition"
proof -
  have "dx_initialized (rn_derived run)" if "fmlookup (pj_runs p) (ev_run_id event) = Some run" for run
    using run_inv_derived [OF reachable_run [OF assms(1-3) that]] by simp
  then have "ensure_projection_derived_index p event = Ok p"
    by (auto simp: ensure_projection_derived_index_def split: option.splits)
  then show ?thesis using assms(4-6) by (simp add: apply_event_def apply_projection_global_event_def)
qed

theorem fact_write_once_witness:
  "apply_event demo_host (demo_projection demo_opening)
     (demo_event (FactRecorded ''region'' (demo_id CHR ''9''))) = Err IllegalTransition"
  using fact_write_once [OF demo_host_ok _ demo_opening_facts(1), of "''region''" "demo_id CHR ''a''"
      "demo_event (FactRecorded ''region'' (demo_id CHR ''9''))" "demo_id CHR ''9''"]
    demo_opening_facts(4) demo_opening_admitted
  by (simp add: list_all_iff demo_event_def demo_id_def)

fun json_ints :: "json \<Rightarrow> int list" where
  "json_ints (JInt i) = [i]"
| "json_ints (JArr vs) = concat (map json_ints vs)"
| "json_ints (JObj kvs) = concat (map (\<lambda>kv. json_ints (snd kv)) kvs)"
| "json_ints _ = []"

lemma rcheck_Err:
  "(\<And>x. x \<in> set xs \<Longrightarrow> f x = Ok () \<or> f x = Err e) \<Longrightarrow> rcheck f xs = Ok () \<or> rcheck f xs = Err e"
proof (induction xs)
  case (Cons x xs)
  then have "rcheck f xs = Ok () \<or> rcheck f xs = Err e" by (simp del: rcheck_eq_Ok)
  moreover have "f x = Ok () \<or> f x = Err e" using Cons.prems by simp
  ultimately show ?case by (elim disjE) (simp_all del: rcheck_eq_Ok)
qed simp

lemma number_probe_total: "number_probe v = Ok () \<or> number_probe v = Err Encoding"
proof (induction v)
  case (JObj kvs)
  have "number_probe (snd kv) = Ok () \<or> number_probe (snd kv) = Err Encoding" if "kv \<in> set kvs" for kv
    using JObj.IH [OF that, of "snd kv"] by (cases kv) simp
  then show ?case using rcheck_Err [of kvs "\<lambda>kv. number_probe (snd kv)"] by (simp del: rcheck_eq_Ok)
next
  case (JArr vs)
  then show ?case using rcheck_Err [of vs number_probe] by (simp del: rcheck_eq_Ok)
qed (simp_all add: ensure_def)

lemma number_probe_ints:
  "number_probe v = Ok () \<longleftrightarrow> (\<forall>i\<in>set (json_ints v). \<bar>i\<bar> \<le> int MAX_EXACT_INTEGER)"
proof (induction v)
  case (JObj kvs)
  have "number_probe (snd kv) = Ok () \<longleftrightarrow> (\<forall>i\<in>set (json_ints (snd kv)). \<bar>i\<bar> \<le> int MAX_EXACT_INTEGER)"
    if "kv \<in> set kvs" for kv
    using JObj.IH [OF that, of "snd kv"] by (cases kv) simp
  then show ?case by auto
qed auto

text \<open>Canonical encoding succeeds exactly on values whose integers all lie in the exact
  cross-language range, then yields the canonical rendering itself, and otherwise fails as an
  encoding error; the second rendering pass never disagrees with the first.\<close>

theorem canonical_bytes_exact_range:
  "canonical_bytes h v =
     (if list_all (\<lambda>i. \<bar>i\<bar> \<le> int MAX_EXACT_INTEGER) (json_ints v) then Ok (jcs h v) else Err Encoding)"
  using number_probe_total [of v] number_probe_ints [of v]
  by (auto simp: canonical_bytes_eq list_all_iff)

text \<open>Every content identity the core derives is well formed: with a 32-byte digest function,
  the result of \<open>content_id\<close> passes \<open>validate_content_id\<close>.\<close>

theorem content_id_wellformed:
  assumes "host_ok h" "content_id h domain v = Ok identity"
  shows "validate_content_id identity = Ok ()"
  using assms content_id_valid [of h domain v identity] by (simp add: host_ok_def)

theorem content_id_wellformed_witness:
  "\<exists>x. content_id demo_host ''cymule.effect-intent/2'' (JInt 7) = Ok x \<and> validate_content_id x = Ok ()"
proof -
  obtain x where x: "content_id demo_host ''cymule.effect-intent/2'' (JInt 7) = Ok x"
    by (auto simp: content_id_def canonical_bytes_eq MAX_EXACT_INTEGER_def ensure_def)
  with content_id_wellformed [OF demo_host_ok x] show ?thesis by blast
qed

end
