(* ===== verification/Plan_IR.thy ===== *)
theory Plan_IR
  imports Run_Model
begin

text \<open>
  Plans: the intermediate representation of \<^verbatim>\<open>crates/cymule-core/src/ir.rs\<close> and its validation. A Plan is a set of definitions whose bodies are structured regions of steps. As in
  \<open>Canonical\<close>, JSON numbers are integers. Whether the \<^verbatim>\<open>jsonschema\<close> crate compiles a
  schema is an argument (\<open>compiles\<close>). Record fields carry a prefix (\<open>cc\<close> component contract, \<open>ec\<close> effect
  contract, \<open>df\<close> definition, \<open>pn\<close> Plan candidate, \<open>sl\<close> sealed Plan).
\<close>

section \<open>Syntax\<close>

text \<open>A \<^verbatim>\<open>BTreeMap\<close> of expressions is the list of its entries in key order.\<close>

datatype expression =
    ExInput
  | ExLiteral json
  | ExBinding string
  | ExObject "(string \<times> expression) list"
  | ExArray "expression list"

datatype wait_spec =
    WaitSignal string bool
  | WaitTimer string
  | WaitInput string json

datatype region = Region "step list" expression
and step = Step string operation
and operation =
    OpCall string expression "string option"
  | OpInvoke string expression "string option"
  | OpWait wait_spec "string option"
  | OpEffect string expression string "string option"
  | OpScope region "string option"

record component_contract =
  cc_id :: string
  cc_input_schema :: json
  cc_output_schema :: json
  cc_output_artifact_kind :: string
  cc_requirements :: "(string, string) fmap"

record effect_contract =
  ec_id :: string
  ec_input_schema :: json
  ec_output_schema :: json
  ec_profile :: effect_profile
  ec_requirements :: "(string, string) fmap"

record flow_definition =
  df_id :: string
  df_input_schema :: json
  df_output_schema :: json
  df_body :: region

record plan_candidate =
  pn_ir_version :: string
  pn_name :: string
  pn_entry :: string
  pn_components :: "component_contract list"
  pn_effects :: "effect_contract list"
  pn_definitions :: "flow_definition list"
  pn_metadata :: "(string, string) fmap"

record sealed_plan =
  sl_plan_id :: string
  sl_candidate :: plan_candidate

definition IR_VERSION :: string where
  "IR_VERSION = ''cymule.ir/3''"

definition PLAN_ID_DOMAIN :: string where
  "PLAN_ID_DOMAIN = ''cymule.plan/1''"

definition JSON_SCHEMA_DIALECT :: string where
  "JSON_SCHEMA_DIALECT = ''https://json-schema.org/draft/2020-12/schema''"

section \<open>Identifiers, schemas and expressions\<close>

definition is_ascii_uppercase :: "char \<Rightarrow> bool" where
  "is_ascii_uppercase c = (CHR ''A'' \<le> c \<and> c \<le> CHR ''Z'')"

definition semantic_byte :: "char \<Rightarrow> bool" where
  "semantic_byte c = (is_ascii_lowercase c \<or> is_ascii_uppercase c \<or> is_ascii_digit c \<or> c \<in> set ''._-/:'')"

definition validate_semantic_id :: "string \<Rightarrow> core_error + unit" where
  "validate_semantic_id i =
     (if i \<noteq> [] \<and> length i \<le> 160 \<and> list_all semantic_byte i then Ok () else Err Validation)"

definition validate_schema :: "(json \<Rightarrow> bool) \<Rightarrow> json \<Rightarrow> core_error + unit" where
  "validate_schema compiles schema =
     (if \<not> (case schema of JObj _ \<Rightarrow> True | JBool _ \<Rightarrow> True | _ \<Rightarrow> False) then Err Validation
      else if (case schema of
                 JObj kvs \<Rightarrow> (case map_of kvs ''$schema'' of
                    None \<Rightarrow> False | Some declared \<Rightarrow> declared \<noteq> JStr JSON_SCHEMA_DIALECT)
               | _ \<Rightarrow> False) then Err Validation
      else if \<not> compiles schema then Err Validation
      else Ok ())"

fun validate_expression :: "expression \<Rightarrow> string fset \<Rightarrow> core_error + unit" where
  "validate_expression ExInput bindings = Ok ()"
| "validate_expression (ExLiteral v) bindings = Ok ()"
| "validate_expression (ExBinding name) bindings = (if name |\<in>| bindings then Ok () else Err Validation)"
| "validate_expression (ExObject fs) bindings = rcheck (\<lambda>f. validate_expression (snd f) bindings) fs"
| "validate_expression (ExArray items) bindings = rcheck (\<lambda>e. validate_expression e bindings) items"

fun validate_wait :: "(json \<Rightarrow> bool) \<Rightarrow> wait_spec \<Rightarrow> core_error + unit" where
  "validate_wait compiles (WaitSignal key _) = validate_semantic_id key"
| "validate_wait compiles (WaitTimer timer_id) = validate_semantic_id timer_id"
| "validate_wait compiles (WaitInput correlation schema) =
     rbind (validate_semantic_id correlation) (\<lambda>_. validate_schema compiles schema)"

section \<open>Regions\<close>

text \<open>What a region may refer to.\<close>

record plan_names =
  nm_components :: "string fset"
  nm_effects :: "(string, effect_profile) fmap"
  nm_definitions :: "string fset"

text \<open>The end of the loop body: a step's result binding is new.\<close>

definition bind_result :: "string option \<Rightarrow> string fset \<Rightarrow> core_error + string fset" where
  "bind_result result_binding bindings =
     (case result_binding of
        None \<Rightarrow> Ok bindings
      | Some binding \<Rightarrow>
          rbind (validate_semantic_id binding) (\<lambda>_.
          if binding |\<in>| bindings then Err Validation else Ok (finsert binding bindings)))"

text \<open>The match over the operations, threading the set of sites through nested scopes.\<close>

fun validate_region :: "(json \<Rightarrow> bool) \<Rightarrow> plan_names \<Rightarrow> region \<Rightarrow> string fset \<Rightarrow> string fset \<Rightarrow> core_error + string fset"
and validate_steps :: "(json \<Rightarrow> bool) \<Rightarrow> plan_names \<Rightarrow> step list \<Rightarrow> string fset \<Rightarrow> string fset
      \<Rightarrow> core_error + (string fset \<times> string fset)"
and validate_operation :: "(json \<Rightarrow> bool) \<Rightarrow> plan_names \<Rightarrow> operation \<Rightarrow> string fset \<Rightarrow> string fset
      \<Rightarrow> core_error + (string fset \<times> string option)" where
  "validate_region compiles names (Region steps result) sites inherited =
     rbind (validate_steps compiles names steps sites inherited) (\<lambda>(sites, bindings).
     rbind (validate_expression result bindings) (\<lambda>_. Ok sites))"
| "validate_steps compiles names [] sites bindings = Ok (sites, bindings)"
| "validate_steps compiles names (Step i operation # steps) sites bindings =
     rbind (validate_semantic_id i) (\<lambda>_.
     if i |\<in>| sites then Err Validation
     else rbind (validate_operation compiles names operation (finsert i sites) bindings) (\<lambda>(sites, result_binding).
     rbind (bind_result result_binding bindings) (\<lambda>bindings.
     validate_steps compiles names steps sites bindings)))"
| "validate_operation compiles names (OpCall component input bind) sites bindings =
     (if component |\<notin>| nm_components names then Err Validation
      else rbind (validate_expression input bindings) (\<lambda>_. Ok (sites, bind)))"
| "validate_operation compiles names (OpInvoke definition input bind) sites bindings =
     (if definition |\<notin>| nm_definitions names then Err Validation
      else rbind (validate_expression input bindings) (\<lambda>_. Ok (sites, bind)))"
| "validate_operation compiles names (OpWait wait bind) sites bindings =
     rbind (validate_wait compiles wait) (\<lambda>_. Ok (sites, bind))"
| "validate_operation compiles names (OpEffect effect input occurrence bind) sites bindings =
     rbind (ok_or Validation (fmlookup (nm_effects names) effect)) (\<lambda>profile.
     if bind \<noteq> None \<and> (pf_mutation profile \<noteq> Observational \<or> pf_dispatch profile \<noteq> Eager) then Err Validation
     else rbind (validate_semantic_id occurrence) (\<lambda>_.
     rbind (validate_expression input bindings) (\<lambda>_. Ok (sites, bind))))"
| "validate_operation compiles names (OpScope body bind) sites bindings =
     rbind (validate_region compiles names body sites bindings) (\<lambda>sites. Ok (sites, bind))"

section \<open>The invocation graph\<close>

fun collect_invocations :: "region \<Rightarrow> string fset \<Rightarrow> string fset"
and collect_step_invocations :: "step list \<Rightarrow> string fset \<Rightarrow> string fset" where
  "collect_invocations (Region steps result) targets = collect_step_invocations steps targets"
| "collect_step_invocations [] targets = targets"
| "collect_step_invocations (Step i operation # steps) targets =
     collect_step_invocations steps
      (case operation of
         OpInvoke definition _ _ \<Rightarrow> finsert definition targets
       | OpScope body _ \<Rightarrow> collect_invocations body targets
       | _ \<Rightarrow> targets)"

text \<open>Indexing a \<^verbatim>\<open>BTreeMap\<close> by an absent key panics; the model has this as a value.\<close>

datatype plan_failure = Refused core_error | Panic

definition refused :: "core_error + 'a \<Rightarrow> plan_failure + 'a" where
  "refused m = (case m of Inl e \<Rightarrow> Err (Refused e) | Inr x \<Rightarrow> Ok x)"

datatype visit = Enter string | Exit string

type_synonym plan_graph = "(string, string fset) fmap"

text \<open>The inner loop. The head of the list is the top of the stack.\<close>

function visit_definitions ::
  "plan_graph \<Rightarrow> visit list \<Rightarrow> string fset \<Rightarrow> string fset \<Rightarrow> plan_failure + (string fset \<times> string fset)" where
  "visit_definitions graph [] visiting complete = Ok (visiting, complete)"
| "visit_definitions graph (Enter definition # stack) visiting complete =
     (if definition |\<in>| complete then visit_definitions graph stack visiting complete
      else if definition |\<in>| visiting then Err (Refused Validation)
      else case fmlookup graph definition of
        None \<Rightarrow> Err Panic
      | Some targets \<Rightarrow>
          visit_definitions graph
            (map Enter (filter (\<lambda>target. target |\<notin>| complete) (sorted_list_of_fset targets)) @ Exit definition # stack)
            (finsert definition visiting) complete)"
| "visit_definitions graph (Exit definition # stack) visiting complete =
     visit_definitions graph stack (visiting |-| {|definition|}) (finsert definition complete)"
  by pat_completeness auto
termination
proof (relation "measures [\<lambda>(graph, stack, visiting, complete). fcard (fmdom graph |-| (visiting |\<union>| complete)),
    \<lambda>(graph, stack, visiting, complete). length stack]", goal_cases)
  case (3 graph d stack visiting complete targets)
  then have "d |\<in>| fmdom graph |-| (visiting |\<union>| complete)" by (auto intro: fmdomI)
  then have "fcard (fmdom graph |-| (finsert d visiting |\<union>| complete))
      < fcard (fmdom graph |-| (visiting |\<union>| complete))"
    by (intro pfsubset_fcard_mono) auto
  then show ?case by simp
next
  case (4 graph d stack visiting complete)
  have "fcard (fmdom graph |-| ((visiting |-| {|d|}) |\<union>| finsert d complete))
      \<le> fcard (fmdom graph |-| (visiting |\<union>| complete))"
    by (intro fcard_mono) auto
  then show ?case by auto
qed auto

declare visit_definitions.simps [simp del]

definition visit_root ::
  "plan_graph \<Rightarrow> string \<Rightarrow> string fset \<times> string fset \<Rightarrow> plan_failure + (string fset \<times> string fset)" where
  "visit_root graph definition s =
     (case s of (visiting, complete) \<Rightarrow>
      if definition |\<in>| complete then Ok (visiting, complete)
      else visit_definitions graph [Enter definition] visiting complete)"

definition validate_acyclic_graph :: "plan_graph \<Rightarrow> plan_failure + unit" where
  "validate_acyclic_graph graph =
     rbind (rfold (visit_root graph) (sorted_list_of_fset (fmdom graph)) ({||}, {||})) (\<lambda>_. Ok ())"

definition invocation_graph :: "flow_definition list \<Rightarrow> plan_graph" where
  "invocation_graph definitions =
     fold (\<lambda>d. fmupd (df_id d) (collect_invocations (df_body d) {||})) definitions fmempty"

definition validate_invocation_graph :: "flow_definition list \<Rightarrow> plan_failure + unit" where
  "validate_invocation_graph definitions = validate_acyclic_graph (invocation_graph definitions)"

section \<open>Candidates\<close>

definition unique_contract_id :: "string \<Rightarrow> string fset \<Rightarrow> core_error + string fset" where
  "unique_contract_id i unique =
     rbind (validate_semantic_id i) (\<lambda>_. if i |\<in>| unique then Err Validation else Ok (finsert i unique))"

definition unique_contract_ids :: "string list \<Rightarrow> core_error + string fset" where
  "unique_contract_ids ids = rfold unique_contract_id ids {||}"

definition validate_component :: "(json \<Rightarrow> bool) \<Rightarrow> component_contract \<Rightarrow> core_error + unit" where
  "validate_component compiles contract =
     rbind (validate_schema compiles (cc_input_schema contract)) (\<lambda>_.
     rbind (validate_schema compiles (cc_output_schema contract)) (\<lambda>_.
     validate_artifact_kind (cc_output_artifact_kind contract)))"

definition validate_effect :: "(json \<Rightarrow> bool) \<Rightarrow> effect_contract \<Rightarrow> core_error + unit" where
  "validate_effect compiles contract =
     rbind (validate_schema compiles (ec_input_schema contract)) (\<lambda>_.
     rbind (validate_schema compiles (ec_output_schema contract)) (\<lambda>_.
     if pf_mutation (ec_profile contract) = Mutating \<and> pf_dispatch (ec_profile contract) = Eager
     then Err Validation else Ok ()))"

definition validate_definition ::
  "(json \<Rightarrow> bool) \<Rightarrow> plan_names \<Rightarrow> flow_definition \<Rightarrow> string fset \<Rightarrow> core_error + string fset" where
  "validate_definition compiles names d sites =
     rbind (validate_schema compiles (df_input_schema d)) (\<lambda>_.
     rbind (validate_schema compiles (df_output_schema d)) (\<lambda>_.
     validate_region compiles names (df_body d) sites {||}))"

definition effect_profiles :: "effect_contract list \<Rightarrow> (string, effect_profile) fmap" where
  "effect_profiles contracts = fold (\<lambda>c. fmupd (ec_id c) (ec_profile c)) contracts fmempty"

definition validate_plan :: "(json \<Rightarrow> bool) \<Rightarrow> plan_candidate \<Rightarrow> plan_failure + unit" where
  "validate_plan compiles p =
     (if pn_ir_version p \<noteq> IR_VERSION then Err (Refused Validation)
      else
       rbind (refused (validate_semantic_id (pn_name p))) (\<lambda>_.
       rbind (refused (unique_contract_ids (map cc_id (pn_components p)))) (\<lambda>component_ids.
       rbind (refused (unique_contract_ids (map ec_id (pn_effects p)))) (\<lambda>_.
       rbind (refused (rcheck (validate_component compiles) (pn_components p))) (\<lambda>_.
       rbind (refused (rcheck (validate_effect compiles) (pn_effects p))) (\<lambda>_.
       rbind (refused (unique_contract_ids (map df_id (pn_definitions p)))) (\<lambda>definition_ids.
       if pn_entry p |\<notin>| definition_ids then Err (Refused Validation)
       else
        let names = \<lparr>nm_components = component_ids, nm_effects = effect_profiles (pn_effects p),
                     nm_definitions = definition_ids\<rparr> in
        rbind (refused (rfold (validate_definition compiles names) (pn_definitions p) {||})) (\<lambda>_.
        validate_invocation_graph (pn_definitions p)))))))))"

end
