(* ===== verification/Plan_Graph.thy ===== *)
theory Plan_Graph
  imports Plan_IR
begin

text \<open>
  The iterative depth-first search over the invocation graph decides acyclicity. The entries of the
  stack that are still to be left form the path from the root of the search to the definition being
  explored; an entry reached on that path closes a cycle. What has been left is kept in an
  order in which every definition comes after those it invokes.
\<close>

section \<open>The invocation relation\<close>

definition targets_of :: "plan_graph \<Rightarrow> string \<Rightarrow> string set" where
  "targets_of g d = (case fmlookup g d of None \<Rightarrow> {} | Some ts \<Rightarrow> fset ts)"

definition invokes :: "plan_graph \<Rightarrow> (string \<times> string) set" where
  "invokes g = {(d, t). t \<in> targets_of g d}"

definition closed_graph :: "plan_graph \<Rightarrow> bool" where
  "closed_graph g \<longleftrightarrow> (\<forall>d. targets_of g d \<subseteq> fset (fmdom g))"

text \<open>An order in which invoked definitions come first.\<close>

inductive settled :: "plan_graph \<Rightarrow> string list \<Rightarrow> bool" for g where
  "settled g []"
| "settled g ds \<Longrightarrow> targets_of g d \<subseteq> set ds \<Longrightarrow> d \<notin> set ds \<Longrightarrow> settled g (ds @ [d])"

lemma settled_before:
  assumes "settled g ds" "d \<in> set ds" "t \<in> targets_of g d"
  shows "t \<in> set ds \<and> length (takeWhile ((\<noteq>) t) ds) < length (takeWhile ((\<noteq>) d) ds)"
  using assms
proof (induction ds rule: settled.induct)
  case (2 ds e)
  show ?case
  proof (cases "d \<in> set ds")
    case True
    with 2 have "t \<in> set ds" "length (takeWhile ((\<noteq>) t) ds) < length (takeWhile ((\<noteq>) d) ds)" by simp_all
    then show ?thesis using True takeWhile_append1 [of d ds "(\<noteq>) d"] takeWhile_append1 [of t ds "(\<noteq>) t"] by simp
  next
    case False
    with 2 have t: "t \<in> set ds" "d = e" by auto
    have d: "takeWhile ((\<noteq>) d) (ds @ [e]) = ds" using False t(2) by (simp add: takeWhile_append)
    have "takeWhile ((\<noteq>) t) ds \<noteq> ds" using t(1) by (auto simp: takeWhile_eq_all_conv)
    then have "length (takeWhile ((\<noteq>) t) ds) < length ds"
      by (metis length_takeWhile_le nat_less_le takeWhile_eq_take take_all_iff order_refl)
    then show ?thesis using t d takeWhile_append1 [of t ds "(\<noteq>) t"] by simp
  qed
qed simp

lemma settled_acyclic:
  assumes "settled g ds" "fset (fmdom g) \<subseteq> set ds"
  shows "acyclic (invokes g)"
proof -
  have "(t, d) \<in> measure (\<lambda>x. length (takeWhile ((\<noteq>) x) ds))" if "(d, t) \<in> invokes g" for d t
  proof -
    have "d \<in> set ds" using that assms(2) by (auto simp: invokes_def targets_of_def split: option.splits dest: fmdomI)
    then show ?thesis using settled_before [OF assms(1), of d t] that by (simp add: invokes_def)
  qed
  then have "(invokes g)\<inverse> \<subseteq> measure (\<lambda>x. length (takeWhile ((\<noteq>) x) ds))" by auto
  then have "acyclic ((invokes g)\<inverse>)" by (meson wf_measure wf_subset wf_acyclic)
  then show ?thesis by (simp add: acyclic_converse)
qed

section \<open>The stack of the search\<close>

fun visit_node :: "visit \<Rightarrow> string" where
  "visit_node (Enter d) = d"
| "visit_node (Exit d) = d"

fun open_path :: "visit list \<Rightarrow> string list" where
  "open_path [] = []"
| "open_path (Enter d # stack) = open_path stack"
| "open_path (Exit d # stack) = d # open_path stack"

text \<open>Every entry was pushed for the nearest open definition below it.\<close>

fun linked :: "plan_graph \<Rightarrow> visit list \<Rightarrow> bool" where
  "linked g [] \<longleftrightarrow> True"
| "linked g (v # stack) \<longleftrightarrow> linked g stack \<and> (open_path stack \<noteq> [] \<longrightarrow> (hd (open_path stack), visit_node v) \<in> invokes g)"

text \<open>What an open definition invokes has been left or is above it.\<close>

fun covered :: "plan_graph \<Rightarrow> string set \<Rightarrow> visit list \<Rightarrow> bool" where
  "covered g seen [] \<longleftrightarrow> True"
| "covered g seen (Enter d # stack) \<longleftrightarrow> covered g (insert d seen) stack"
| "covered g seen (Exit d # stack) \<longleftrightarrow> targets_of g d \<subseteq> seen \<and> covered g (insert d seen) stack"

lemma covered_mono: "covered g A stack \<Longrightarrow> A \<subseteq> B \<Longrightarrow> covered g B stack"
proof (induction stack arbitrary: A B)
  case (Cons v stack)
  have "covered g (insert (visit_node v) A) stack" using Cons.prems(1) by (cases v) auto
  from Cons.IH [OF this, of "insert (visit_node v) B"] Cons.prems show ?case by (cases v) auto
qed simp

lemma covered_enters: "covered g seen (map Enter ts @ stack) \<longleftrightarrow> covered g (set ts \<union> seen) stack"
  by (induction ts arbitrary: seen) simp_all

lemma open_path_enters [simp]: "open_path (map Enter ts @ stack) = open_path stack"
  by (induction ts) simp_all

lemma linked_enters:
  "linked g (map Enter ts @ Exit d # stack) \<longleftrightarrow> linked g (Exit d # stack) \<and> (\<forall>t\<in>set ts. (d, t) \<in> invokes g)"
  by (induction ts) auto

lemma linked_path:
  assumes "linked g stack" "d \<in> set (open_path stack)"
  shows "(d, hd (open_path stack)) \<in> (invokes g)\<^sup>*"
  using assms
proof (induction stack)
  case (Cons v stack)
  show ?case
  proof (cases v)
    case (Enter x)
    with Cons show ?thesis by simp
  next
    case (Exit x)
    show ?thesis
    proof (cases "d \<in> set (open_path stack)")
      case True
      then have "open_path stack \<noteq> []" by auto
      with Cons True Exit show ?thesis by (auto intro: rtrancl_into_rtrancl)
    next
      case False
      with Cons.prems(2) Exit show ?thesis by simp
    qed
  qed
qed simp

lemma linked_cycle:
  assumes "linked g (Enter d # stack)" "d \<in> set (open_path stack)"
  shows "\<not> acyclic (invokes g)"
proof -
  have "open_path stack \<noteq> []" using assms(2) by auto
  with assms have "(hd (open_path stack), d) \<in> invokes g" "(d, hd (open_path stack)) \<in> (invokes g)\<^sup>*"
    using linked_path by simp_all
  then have "(d, d) \<in> (invokes g)\<^sup>+" by (rule rtrancl_into_trancl1 [rotated])
  then show ?thesis by (auto simp: acyclic_def)
qed

section \<open>The search\<close>

definition search_inv :: "plan_graph \<Rightarrow> visit list \<Rightarrow> string fset \<Rightarrow> string list \<Rightarrow> bool" where
  "search_inv g stack visiting ds \<longleftrightarrow> settled g ds \<and> linked g stack \<and> covered g (set ds) stack
     \<and> distinct (open_path stack) \<and> fset visiting = set (open_path stack) \<and> set (open_path stack) \<inter> set ds = {}
     \<and> visit_node ` set stack \<subseteq> fset (fmdom g)"

lemma search_inv_skip:
  "search_inv g (Enter d # stack) visiting ds \<Longrightarrow> d \<in> set ds \<Longrightarrow> search_inv g stack visiting ds"
  by (auto simp: search_inv_def insert_absorb)

lemma search_inv_enter:
  assumes "search_inv g (Enter d # stack) visiting ds" "d \<notin> set ds" "d |\<notin>| visiting" "fmlookup g d = Some ts" "closed_graph g"
  shows "search_inv g (map Enter (filter (\<lambda>t. t \<notin> set ds) (sorted_list_of_fset ts)) @ Exit d # stack) (finsert d visiting) ds"
proof -
  have t: "targets_of g d = fset ts" using assms(4) by (simp add: targets_of_def)
  have s: "set (sorted_list_of_fset ts) = fset ts" by (simp add: sorted_list_of_fset.rep_eq)
  have "covered g (insert d (set ds)) stack" using assms(1) by (simp add: search_inv_def)
  then have "covered g (set (filter (\<lambda>t. t \<notin> set ds) (sorted_list_of_fset ts)) \<union> set ds) (Exit d # stack)"
    using t s by (auto intro: covered_mono)
  moreover have "fset ts \<subseteq> fset (fmdom g)" using assms(5) t unfolding closed_graph_def by blast
  ultimately show ?thesis
    using assms(1-3) t s unfolding search_inv_def linked_enters covered_enters by (auto simp: invokes_def)
qed

lemma search_inv_exit:
  assumes "search_inv g (Exit d # stack) visiting ds"
  shows "search_inv g stack (visiting |-| {|d|}) (ds @ [d])"
  using assms by (auto simp: search_inv_def intro: settled.intros)

text \<open>A search either refuses a cyclic graph or has settled all of \<open>X\<close>.\<close>

definition searched ::
  "plan_graph \<Rightarrow> string set \<Rightarrow> plan_failure + (string fset \<times> string fset) \<Rightarrow> bool" where
  "searched g X res = (case res of
      Inl e \<Rightarrow> e = Refused Validation \<and> \<not> acyclic (invokes g)
    | Inr (visiting, complete) \<Rightarrow> visiting = {||} \<and> (\<exists>ds. settled g ds \<and> fset complete = set ds \<and> X \<subseteq> set ds))"

lemma searched_mono: "searched g X res \<Longrightarrow> Y \<subseteq> X \<Longrightarrow> searched g Y res"
  by (fastforce simp: searched_def split: sum.splits)

lemma visit_definitions_correct:
  assumes "search_inv g stack visiting ds" "fset complete = set ds" "closed_graph g"
  shows "searched g (set ds \<union> visit_node ` set stack) (visit_definitions g stack visiting complete)"
  using assms
proof (induction g stack visiting complete arbitrary: ds rule: visit_definitions.induct)
  case (1 g visiting complete)
  then have "visiting = {||}" "settled g ds" by (auto simp: search_inv_def)
  with 1 show ?case by (auto simp: searched_def visit_definitions.simps(1))
next
  case (2 g d stack visiting complete)
  note run = visit_definitions.simps(2) [of g d stack visiting complete]
  have mem: "d |\<in>| complete \<longleftrightarrow> d \<in> set ds" using "2.prems"(2) by simp
  consider (left) "d \<in> set ds" | (cycle) "d \<notin> set ds" "d |\<in>| visiting" | (fresh) "d \<notin> set ds" "d |\<notin>| visiting" by blast
  then show ?case
  proof cases
    case left
    with mem have "searched g (set ds \<union> visit_node ` set stack) (visit_definitions g stack visiting complete)"
      using "2.IH"(1) [OF _ search_inv_skip [OF "2.prems"(1) left] "2.prems"(2,3)] by blast
    then show ?thesis using left mem run by (simp add: insert_absorb)
  next
    case cycle
    then have "\<not> acyclic (invokes g)" using "2.prems"(1) linked_cycle [of g d stack] by (auto simp: search_inv_def)
    with cycle mem run show ?thesis by (simp add: searched_def)
  next
    case fresh
    obtain ts where ts: "fmlookup g d = Some ts" using "2.prems"(1) by (auto simp: search_inv_def fmlookup_dom_iff)
    let ?stack = "map Enter (filter (\<lambda>t. t |\<notin>| complete) (sorted_list_of_fset ts)) @ Exit d # stack"
    have "search_inv g ?stack (finsert d visiting) ds"
      using search_inv_enter [OF "2.prems"(1) fresh ts "2.prems"(3)] "2.prems"(2) by simp
    then have "searched g (set ds \<union> visit_node ` set ?stack) (visit_definitions g ?stack (finsert d visiting) complete)"
      using "2.IH"(2) [OF _ fresh(2) ts _ "2.prems"(2,3)] mem fresh(1) by blast
    then have "searched g (set ds \<union> visit_node ` set (Enter d # stack)) (visit_definitions g ?stack (finsert d visiting) complete)"
      by (rule searched_mono) auto
    then show ?thesis unfolding run using fresh mem ts by simp
  qed
next
  case (3 g d stack visiting complete)
  have "fset (finsert d complete) = set (ds @ [d])" using "3.prems"(2) by simp
  from "3.IH" [OF search_inv_exit [OF "3.prems"(1)] this "3.prems"(3)]
  show ?case unfolding visit_definitions.simps(3) by simp
qed

lemma visit_root_correct:
  assumes "settled g ds" "fset complete = set ds" "closed_graph g" "d |\<in>| fmdom g"
  shows "searched g (insert d (set ds)) (visit_root g d ({||}, complete))"
proof (cases "d |\<in>| complete")
  case True
  then show ?thesis using assms(1,2) by (auto simp: visit_root_def searched_def)
next
  case False
  have "search_inv g [Enter d] {||} ds" using assms(1,4) by (simp add: search_inv_def)
  from visit_definitions_correct [OF this assms(2,3)] False show ?thesis by (simp add: visit_root_def)
qed

lemma visit_roots_correct:
  assumes "settled g ds" "fset complete = set ds" "closed_graph g" "set roots \<subseteq> fset (fmdom g)"
  shows "searched g (set ds \<union> set roots) (rfold (visit_root g) roots ({||}, complete))"
  using assms
proof (induction roots arbitrary: ds complete)
  case (Cons d roots)
  then have d: "searched g (insert d (set ds)) (visit_root g d ({||}, complete))" by (intro visit_root_correct) auto
  show ?case
  proof (cases "visit_root g d ({||}, complete)")
    case (Inl e)
    with d show ?thesis by (simp add: searched_def)
  next
    case (Inr s)
    with d obtain complete' ds' where
      s: "s = ({||}, complete')" "settled g ds'" "fset complete' = set ds'" "insert d (set ds) \<subseteq> set ds'"
      by (cases s) (auto simp: searched_def)
    have "searched g (set ds' \<union> set roots) (rfold (visit_root g) roots s)"
      using Cons.IH [OF s(2,3) Cons.prems(3)] Cons.prems(4) s(1) by simp
    then have "searched g (set ds \<union> set (d # roots)) (rfold (visit_root g) roots s)" by (rule searched_mono) (use s(4) in auto)
    then show ?thesis using Inr by simp
  qed
qed (auto simp: searched_def)

text \<open>The check decides acyclicity of a graph whose targets are all defined, and does not panic.\<close>

lemma acyclic_graph_iff:
  assumes "closed_graph g"
  shows "validate_acyclic_graph g = (if acyclic (invokes g) then Ok () else Err (Refused Validation))"
proof -
  let ?roots = "sorted_list_of_fset (fmdom g)"
  have roots: "set ?roots = fset (fmdom g)" by (simp add: sorted_list_of_fset.rep_eq)
  have "searched g (set [] \<union> set ?roots) (rfold (visit_root g) ?roots ({||}, {||}))"
    using roots assms by (intro visit_roots_correct) (auto intro: settled.intros)
  then show ?thesis using settled_acyclic [of g] roots
    by (auto simp: validate_acyclic_graph_def searched_def split: sum.splits)
qed

end
