(* ===== verification/Plan_Spec.thy ===== *)
theory Plan_Spec
  imports Plan_Graph
begin

text \<open>
  What a valid Plan is, stated without the validator's traversal: the steps of a region as a flat
  list of sites, conditions on each operation alone, one global condition on the sites, and a scoping
  discipline on bindings. The lemmas show that each check of \<open>Plan_IR\<close> decides its part, in
  particular that every refusal is \<open>Validation\<close> and that the search never panics.
\<close>

section \<open>Single checks\<close>

lemma rcheck_if:
  "(\<And>x. x \<in> set xs \<Longrightarrow> f x = (if P x then Ok () else Err e)) \<Longrightarrow>
   rcheck f xs = (if \<forall>x\<in>set xs. P x then Ok () else Err e)"
  by (induction xs) auto

definition valid_id :: "string \<Rightarrow> bool" where
  "valid_id i \<longleftrightarrow> i \<noteq> [] \<and> length i \<le> 160 \<and> list_all semantic_byte i"

lemma validate_semantic_id_eq: "validate_semantic_id i = (if valid_id i then Ok () else Err Validation)"
  by (simp add: validate_semantic_id_def valid_id_def)

text \<open>A schema is a boolean, or an object that names no other dialect, and compiles.\<close>

definition schema_ok :: "(json \<Rightarrow> bool) \<Rightarrow> json \<Rightarrow> bool" where
  "schema_ok compiles schema \<longleftrightarrow> compiles schema \<and>
     ((\<exists>b. schema = JBool b) \<or>
      (\<exists>kvs. schema = JObj kvs \<and> map_of kvs ''$schema'' \<in> {None, Some (JStr JSON_SCHEMA_DIALECT)}))"

lemma validate_schema_eq:
  "validate_schema compiles s = (if schema_ok compiles s then Ok () else Err Validation)"
  by (cases s) (auto simp: validate_schema_def schema_ok_def split: option.splits)

fun uses :: "expression \<Rightarrow> string set" where
  "uses ExInput = {}"
| "uses (ExLiteral v) = {}"
| "uses (ExBinding name) = {name}"
| "uses (ExObject fs) = (\<Union>f\<in>set fs. uses (snd f))"
| "uses (ExArray es) = (\<Union>e\<in>set es. uses e)"

lemma validate_expression_eq:
  "validate_expression e bs = (if uses e \<subseteq> fset bs then Ok () else Err Validation)"
proof (induction e bs rule: validate_expression.induct)
  case (4 fs bs)
  then have "rcheck (\<lambda>f. validate_expression (snd f) bs) fs
      = (if \<forall>f\<in>set fs. uses (snd f) \<subseteq> fset bs then Ok () else Err Validation)"
    by (intro rcheck_if) (auto simp: snds.simps)
  then show ?case by auto
next
  case (5 es bs)
  then have "rcheck (\<lambda>e. validate_expression e bs) es
      = (if \<forall>e\<in>set es. uses e \<subseteq> fset bs then Ok () else Err Validation)"
    by (intro rcheck_if) auto
  then show ?case by auto
qed auto

fun wait_ok :: "(json \<Rightarrow> bool) \<Rightarrow> wait_spec \<Rightarrow> bool" where
  "wait_ok compiles (WaitSignal key _) \<longleftrightarrow> valid_id key"
| "wait_ok compiles (WaitTimer timer_id) \<longleftrightarrow> valid_id timer_id"
| "wait_ok compiles (WaitInput correlation schema) \<longleftrightarrow> valid_id correlation \<and> schema_ok compiles schema"

lemma validate_wait_eq: "validate_wait compiles w = (if wait_ok compiles w then Ok () else Err Validation)"
  by (cases w) (auto simp: validate_semantic_id_eq validate_schema_eq)

lemmas plan_checks = validate_semantic_id_eq validate_schema_eq validate_expression_eq validate_wait_eq

section \<open>Regions\<close>

text \<open>The sites of a region with their operations, nested scopes included, in program order.\<close>

fun region_sites :: "region \<Rightarrow> (string \<times> operation) list"
and step_sites :: "step list \<Rightarrow> (string \<times> operation) list"
and nested_sites :: "operation \<Rightarrow> (string \<times> operation) list" where
  "region_sites (Region steps result) = step_sites steps"
| "step_sites [] = []"
| "step_sites (Step i op # steps) = (i, op) # nested_sites op @ step_sites steps"
| "nested_sites (OpScope body bind) = region_sites body"
| "nested_sites (OpCall _ _ _) = []"
| "nested_sites (OpInvoke _ _ _) = []"
| "nested_sites (OpWait _ _) = []"
| "nested_sites (OpEffect _ _ _ _) = []"

fun op_bind :: "operation \<Rightarrow> string option" where
  "op_bind (OpCall _ _ bind) = bind"
| "op_bind (OpInvoke _ _ bind) = bind"
| "op_bind (OpWait _ bind) = bind"
| "op_bind (OpEffect _ _ _ bind) = bind"
| "op_bind (OpScope _ bind) = bind"

text \<open>What is required of an operation alone: what it names exists, and only an eager observation
  binds the result of an effect.\<close>

fun op_ok :: "(json \<Rightarrow> bool) \<Rightarrow> plan_names \<Rightarrow> operation \<Rightarrow> bool" where
  "op_ok compiles names (OpCall component _ _) \<longleftrightarrow> component |\<in>| nm_components names"
| "op_ok compiles names (OpInvoke target _ _) \<longleftrightarrow> target |\<in>| nm_definitions names"
| "op_ok compiles names (OpWait wait _) \<longleftrightarrow> wait_ok compiles wait"
| "op_ok compiles names (OpEffect effect _ occurrence bind) \<longleftrightarrow> valid_id occurrence \<and>
     (\<exists>profile. fmlookup (nm_effects names) effect = Some profile \<and>
        (bind = None \<or> pf_mutation profile = Observational \<and> pf_dispatch profile = Eager))"
| "op_ok compiles names (OpScope _ _) \<longleftrightarrow> True"

definition site_ok :: "(json \<Rightarrow> bool) \<Rightarrow> plan_names \<Rightarrow> string \<times> operation \<Rightarrow> bool" where
  "site_ok compiles names s \<longleftrightarrow>
     valid_id (fst s) \<and> op_ok compiles names (snd s) \<and> pred_option valid_id (op_bind (snd s))"

fun step_binds :: "step list \<Rightarrow> string fset" where
  "step_binds [] = {||}"
| "step_binds (Step i op # steps) = (case op_bind op of None \<Rightarrow> step_binds steps | Some b \<Rightarrow> finsert b (step_binds steps))"

text \<open>Scoping: an expression uses only what an earlier step of its region, or of a region around it,
  has bound, and no step rebinds a visible name.\<close>

fun region_scoped :: "region \<Rightarrow> string set \<Rightarrow> bool"
and steps_scoped :: "step list \<Rightarrow> string set \<Rightarrow> bool"
and op_scoped :: "operation \<Rightarrow> string set \<Rightarrow> bool" where
  "region_scoped (Region steps result) B \<longleftrightarrow>
     steps_scoped steps B \<and> uses result \<subseteq> B \<union> fset (step_binds steps)"
| "steps_scoped [] B \<longleftrightarrow> True"
| "steps_scoped (Step i op # steps) B \<longleftrightarrow>
     op_scoped op B \<and> set_option (op_bind op) \<inter> B = {} \<and> steps_scoped steps (set_option (op_bind op) \<union> B)"
| "op_scoped (OpCall _ input _) B \<longleftrightarrow> uses input \<subseteq> B"
| "op_scoped (OpInvoke _ input _) B \<longleftrightarrow> uses input \<subseteq> B"
| "op_scoped (OpWait _ _) B \<longleftrightarrow> True"
| "op_scoped (OpEffect _ input _ _) B \<longleftrightarrow> uses input \<subseteq> B"
| "op_scoped (OpScope body _) B \<longleftrightarrow> region_scoped body B"

definition sites_ok :: "(json \<Rightarrow> bool) \<Rightarrow> plan_names \<Rightarrow> (string \<times> operation) list \<Rightarrow> string fset \<Rightarrow> bool" where
  "sites_ok compiles names ss used \<longleftrightarrow> (\<forall>s\<in>set ss. site_ok compiles names s)
     \<and> distinct (map fst ss) \<and> fst ` set ss \<inter> fset used = {}"

lemma sites_ok_Nil [simp]: "sites_ok compiles names [] used"
  by (simp add: sites_ok_def)

lemma sites_ok_Cons:
  "sites_ok compiles names (s # ss) used \<longleftrightarrow>
     site_ok compiles names s \<and> fst s |\<notin>| used \<and> sites_ok compiles names ss (finsert (fst s) used)"
  by (auto simp: sites_ok_def)

lemma sites_ok_append:
  "sites_ok compiles names (ss @ ts) used \<longleftrightarrow>
     sites_ok compiles names ss used \<and> sites_ok compiles names ts (used |\<union>| fset_of_list (map fst ss))"
  by (auto simp: sites_ok_def fset_of_list.rep_eq)

lemma bind_result_eq:
  "bind_result b bs =
     (if pred_option valid_id b \<and> set_option b \<inter> fset bs = {} then Ok (case b of None \<Rightarrow> bs | Some n \<Rightarrow> finsert n bs)
      else Err Validation)"
  by (cases b) (auto simp: bind_result_def plan_checks)

lemma validate_region_eq:
  "validate_region compiles names r used bs =
     (if sites_ok compiles names (region_sites r) used \<and> region_scoped r (fset bs)
      then Ok (used |\<union>| fset_of_list (map fst (region_sites r))) else Err Validation)"
and validate_steps_eq:
  "validate_steps compiles names ss used bs =
     (if sites_ok compiles names (step_sites ss) used \<and> steps_scoped ss (fset bs)
      then Ok (used |\<union>| fset_of_list (map fst (step_sites ss)), bs |\<union>| step_binds ss) else Err Validation)"
and validate_operation_eq:
  "validate_operation compiles names op used bs =
     (if op_ok compiles names op \<and> sites_ok compiles names (nested_sites op) used \<and> op_scoped op (fset bs)
      then Ok (used |\<union>| fset_of_list (map fst (nested_sites op)), op_bind op) else Err Validation)"
proof (induction compiles names r used bs and compiles names ss used bs and compiles names op used bs
    rule: validate_region_validate_steps_validate_operation.induct)
  case (3 compiles names i op steps used bs)
  show ?case
  proof (cases "valid_id i \<and> i |\<notin>| used \<and> op_ok compiles names op \<and> sites_ok compiles names (nested_sites op) (finsert i used)
      \<and> op_scoped op (fset bs) \<and> pred_option valid_id (op_bind op) \<and> set_option (op_bind op) \<inter> fset bs = {}")
    case True
    let ?used = "finsert i used |\<union>| fset_of_list (map fst (nested_sites op))"
    let ?bs = "case op_bind op of None \<Rightarrow> bs | Some n \<Rightarrow> finsert n bs"
    have op: "validate_operation compiles names op (finsert i used) bs = Ok (?used, op_bind op)"
      using 3(1) [of "()"] True by (simp add: plan_checks)
    have bind: "bind_result (op_bind op) bs = Ok ?bs" using True by (simp add: bind_result_eq)
    from op bind have "validate_steps compiles names (Step i op # steps) used bs
        = validate_steps compiles names steps ?used ?bs" using True by (simp add: plan_checks)
    also have "\<dots> = (if sites_ok compiles names (step_sites steps) ?used \<and> steps_scoped steps (fset ?bs)
        then Ok (?used |\<union>| fset_of_list (map fst (step_sites steps)), ?bs |\<union>| step_binds steps) else Err Validation)"
      using 3(2) [OF _ _ op refl bind] True by (simp add: plan_checks)
    finally show ?thesis using True
      by (cases "op_bind op") (auto simp: sites_ok_Cons sites_ok_append site_ok_def)
  next
    case False
    with 3(1) [of "()"] show ?thesis
      by (auto simp: plan_checks bind_result_eq sites_ok_Cons sites_ok_append site_ok_def)
  qed
qed (auto simp: plan_checks ok_or_def  split: option.splits)

section \<open>Invocations\<close>

definition invoked :: "region \<Rightarrow> string set" where
  "invoked r = {t. \<exists>i e b. (i, OpInvoke t e b) \<in> set (region_sites r)}"

lemma collect_invocations_eq:
  "fset (collect_invocations r T) = fset T \<union> invoked r"
  "fset (collect_step_invocations ss T) = fset T \<union> {t. \<exists>i e b. (i, OpInvoke t e b) \<in> set (step_sites ss)}"
proof (induction r T and ss T rule: collect_invocations_collect_step_invocations.induct)
  case (3 i op steps T)
  then show ?case by (cases op) (auto simp: invoked_def)
qed (auto simp: invoked_def)

lemma fmlookup_fold_upd:
  assumes "distinct (map k xs)"
  shows "fmlookup (fold (\<lambda>x. fmupd (k x) (v x)) xs m) y
    = (case find (\<lambda>x. k x = y) xs of Some x \<Rightarrow> Some (v x) | None \<Rightarrow> fmlookup m y)"
  using assms
proof (induction xs arbitrary: m)
  case (Cons x xs)
  moreover have "find (\<lambda>z. k z = k x) xs = None" using Cons.prems by (simp add: find_None_iff image_iff) metis
  ultimately show ?case by (auto split: option.splits)
qed simp

lemma find_distinct:
  assumes "distinct (map k xs)" "x \<in> set xs"
  shows "find (\<lambda>z. k z = k x) xs = Some x"
  using assms by (induction xs) (auto simp: rev_image_eqI)

text \<open>The invocation relation of a Plan: between definitions.\<close>

definition calls :: "flow_definition list \<Rightarrow> (string \<times> string) set" where
  "calls ds = {(c, t). \<exists>d\<in>set ds. df_id d = c \<and> t \<in> invoked (df_body d)}"

lemma targets_of_invocation_graph:
  assumes "distinct (map df_id ds)"
  shows "targets_of (invocation_graph ds) c = {t. (c, t) \<in> calls ds}"
proof (cases "\<exists>d\<in>set ds. df_id d = c")
  case True
  then obtain d where d: "d \<in> set ds" "df_id d = c" by blast
  then have found: "find (\<lambda>e. df_id e = c) ds = Some d" using find_distinct [OF assms d(1)] by simp
  have "e = d" if "e \<in> set ds" "df_id e = c" for e 
    using assms d that by (metis distinct_map inj_onD)
  then have "{t. (c, t) \<in> calls ds} = invoked (df_body d)" unfolding calls_def using d by blast
  with found show ?thesis
    by (simp add: targets_of_def invocation_graph_def fmlookup_fold_upd [OF assms] collect_invocations_eq)
next
  case False
  then have "find (\<lambda>d. df_id d = c) ds = None" by (auto simp: find_None_iff)
  with False show ?thesis by (auto simp: targets_of_def invocation_graph_def fmlookup_fold_upd [OF assms] calls_def)
qed

lemma fmdom_invocation_graph: "fset (fmdom (invocation_graph ds)) = set (map df_id ds)"
proof -
  have "fset (fmdom (fold (\<lambda>d. fmupd (df_id d) (collect_invocations (df_body d) {||})) ds m)) = fset (fmdom m) \<union> set (map df_id ds)" for m
    by (induction ds arbitrary: m) auto
  then show ?thesis by (simp add: invocation_graph_def)
qed

lemma validate_invocation_graph_eq:
  assumes "distinct (map df_id ds)" "\<And>d. d \<in> set ds \<Longrightarrow> invoked (df_body d) \<subseteq> df_id ` set ds"
  shows "validate_invocation_graph ds = (if acyclic (calls ds) then Ok () else Err (Refused Validation))"
proof -
  have "closed_graph (invocation_graph ds)"
    unfolding closed_graph_def targets_of_invocation_graph [OF assms(1)] fmdom_invocation_graph
    using assms(2) by (fastforce simp: calls_def)
  moreover have "invokes (invocation_graph ds) = calls ds"
    by (auto simp: invokes_def targets_of_invocation_graph [OF assms(1)])
  ultimately show ?thesis by (simp add: validate_invocation_graph_def acyclic_graph_iff)
qed

section \<open>Plans\<close>

lemma unique_contract_ids_eq:
  "unique_contract_ids ids
     = (if (\<forall>i\<in>set ids. valid_id i) \<and> distinct ids then Ok (fset_of_list ids) else Err Validation)"
proof -
  have "rfold unique_contract_id ids used
     = (if (\<forall>i\<in>set ids. valid_id i) \<and> distinct ids \<and> set ids \<inter> fset used = {}
        then Ok (used |\<union>| fset_of_list ids) else Err Validation)" for used
  proof (induction ids arbitrary: used)
    case (Cons i ids)
    show ?case
    proof (cases "valid_id i \<and> i |\<notin>| used")
      case True
      then have "rfold unique_contract_id (i # ids) used = rfold unique_contract_id ids (finsert i used)"
        by (simp add: unique_contract_id_def plan_checks)
      with True show ?thesis unfolding Cons.IH by auto
    qed (auto simp: unique_contract_id_def plan_checks)
  qed simp
  then show ?thesis by (simp add: unique_contract_ids_def)
qed

definition plan_names_of :: "plan_candidate \<Rightarrow> plan_names" where
  "plan_names_of p = \<lparr>nm_components = fset_of_list (map cc_id (pn_components p)),
     nm_effects = effect_profiles (pn_effects p), nm_definitions = fset_of_list (map df_id (pn_definitions p))\<rparr>"

definition plan_sites :: "flow_definition list \<Rightarrow> (string \<times> operation) list" where
  "plan_sites ds = concat (map (\<lambda>d. region_sites (df_body d)) ds)"

definition ids_ok :: "string list \<Rightarrow> bool" where
  "ids_ok ids \<longleftrightarrow> (\<forall>i\<in>set ids. valid_id i) \<and> distinct ids"

definition component_ok :: "(json \<Rightarrow> bool) \<Rightarrow> component_contract \<Rightarrow> bool" where
  "component_ok compiles c \<longleftrightarrow> schema_ok compiles (cc_input_schema c) \<and> schema_ok compiles (cc_output_schema c)
     \<and> validate_artifact_kind (cc_output_artifact_kind c) = Ok ()"

definition effect_contract_ok :: "(json \<Rightarrow> bool) \<Rightarrow> effect_contract \<Rightarrow> bool" where
  "effect_contract_ok compiles c \<longleftrightarrow> schema_ok compiles (ec_input_schema c) \<and> schema_ok compiles (ec_output_schema c)
     \<and> \<not> (pf_mutation (ec_profile c) = Mutating \<and> pf_dispatch (ec_profile c) = Eager)"

definition flow_ok :: "(json \<Rightarrow> bool) \<Rightarrow> flow_definition \<Rightarrow> bool" where
  "flow_ok compiles d \<longleftrightarrow> schema_ok compiles (df_input_schema d) \<and> schema_ok compiles (df_output_schema d)
     \<and> region_scoped (df_body d) {}"

definition plan_wf :: "(json \<Rightarrow> bool) \<Rightarrow> plan_candidate \<Rightarrow> bool" where
  "plan_wf compiles p \<longleftrightarrow>
     pn_ir_version p = IR_VERSION \<and> valid_id (pn_name p)
     \<and> ids_ok (map cc_id (pn_components p)) \<and> ids_ok (map ec_id (pn_effects p)) \<and> ids_ok (map df_id (pn_definitions p))
     \<and> (\<forall>c\<in>set (pn_components p). component_ok compiles c)
     \<and> (\<forall>c\<in>set (pn_effects p). effect_contract_ok compiles c)
     \<and> (\<forall>d\<in>set (pn_definitions p). flow_ok compiles d)
     \<and> pn_entry p \<in> df_id ` set (pn_definitions p)
     \<and> sites_ok compiles (plan_names_of p) (plan_sites (pn_definitions p)) {||}
     \<and> acyclic (calls (pn_definitions p))"

lemma validate_component_eq: "validate_component compiles c = (if component_ok compiles c then Ok () else Err Validation)"
  by (auto simp: validate_component_def component_ok_def plan_checks validate_artifact_kind_def)

lemma validate_effect_eq: "validate_effect compiles c = (if effect_contract_ok compiles c then Ok () else Err Validation)"
  by (auto simp: validate_effect_def effect_contract_ok_def plan_checks)

lemma validate_definitions_eq:
  "rfold (validate_definition compiles names) ds used =
     (if (\<forall>d\<in>set ds. flow_ok compiles d) \<and> sites_ok compiles names (plan_sites ds) used
      then Ok (used |\<union>| fset_of_list (map fst (plan_sites ds))) else Err Validation)"
proof (induction ds arbitrary: used)
  case (Cons d ds)
  show ?case
  proof (cases "flow_ok compiles d \<and> sites_ok compiles names (region_sites (df_body d)) used")
    case True
    then have "rfold (validate_definition compiles names) (d # ds) used
        = rfold (validate_definition compiles names) ds (used |\<union>| fset_of_list (map fst (region_sites (df_body d))))"
      by (simp add: validate_definition_def flow_ok_def plan_checks validate_region_eq)
    with True show ?thesis unfolding Cons.IH by (auto simp: plan_sites_def sites_ok_append)
  next
    case False
    then show ?thesis
      by (auto simp: validate_definition_def flow_ok_def plan_checks validate_region_eq plan_sites_def sites_ok_append)
  qed
qed (simp add: plan_sites_def)

lemma sites_ok_invoked:
  assumes "sites_ok compiles (plan_names_of p) (plan_sites (pn_definitions p)) used" "d \<in> set (pn_definitions p)"
  shows "invoked (df_body d) \<subseteq> df_id ` set (pn_definitions p)"
proof
  fix t
  assume "t \<in> invoked (df_body d)"
  then obtain i e b where "(i, OpInvoke t e b) \<in> set (plan_sites (pn_definitions p))"
    using assms(2) by (auto simp: invoked_def plan_sites_def)
  then have "site_ok compiles (plan_names_of p) (i, OpInvoke t e b)" using assms(1) by (simp add: sites_ok_def)
  then show "t \<in> df_id ` set (pn_definitions p)" by (simp add: site_ok_def plan_names_of_def fset_of_list.rep_eq)
qed

lemma refused_if [simp]:
  "rbind (refused (if P then Ok x else Err e)) f = (if P then f x else Err (Refused e))"
  by (simp add: refused_def)

lemma validate_plan_eq:
  "validate_plan compiles p = (if plan_wf compiles p then Ok () else Err (Refused Validation))"
proof -
  let ?graph = "validate_invocation_graph (pn_definitions p)"
  let ?sites = "sites_ok compiles (plan_names_of p) (plan_sites (pn_definitions p)) {||}"
  have graph: "?graph = (if acyclic (calls (pn_definitions p)) then Ok () else Err (Refused Validation))"
    if "ids_ok (map df_id (pn_definitions p))" ?sites
    using that sites_ok_invoked [OF that(2)] by (intro validate_invocation_graph_eq) (simp_all add: ids_ok_def)
  have comps: "rcheck (validate_component compiles) cs = (if \<forall>c\<in>set cs. component_ok compiles c then Ok () else Err Validation)" for cs
    by (intro rcheck_if) (simp add: validate_component_eq)
  have effs: "rcheck (validate_effect compiles) es = (if \<forall>c\<in>set es. effect_contract_ok compiles c then Ok () else Err Validation)" for es
    by (intro rcheck_if) (simp add: validate_effect_eq)
  have entry: "pn_entry p |\<in>| fset_of_list (map df_id (pn_definitions p)) \<longleftrightarrow> pn_entry p \<in> df_id ` set (pn_definitions p)"
    by (simp add: fset_of_list.rep_eq)
  show ?thesis
    unfolding validate_plan_def Let_def unique_contract_ids_eq comps effs validate_definitions_eq plan_names_of_def [symmetric]
      refused_if validate_semantic_id_eq ids_ok_def [symmetric] entry plan_wf_def
    using graph by simp
qed

end
