(* ===== verification/Plan_Seal.thy ===== *)
theory Plan_Seal
  imports Plan_Spec
begin

text \<open>
  Sealing a Plan: the JSON tree that Serde derives from a candidate (field names, tags, flattening
  and skipped absent bindings as the attributes of \<^verbatim>\<open>ir.rs\<close> say), the canonical round trip of
  \<^verbatim>\<open>canonical_plan_candidate\<close>, \<^verbatim>\<open>seal_plan\<close> and \<^verbatim>\<open>SealedPlan::verify\<close>. The typed decoding
  of bytes, which Serde derives, is the argument \<open>decode\<close>.
\<close>

section \<open>The Serde encoding\<close>

fun json_of_expression :: "expression \<Rightarrow> json" where
  "json_of_expression ExInput = JObj [(''kind'', JStr ''input'')]"
| "json_of_expression (ExLiteral v) = JObj [(''kind'', JStr ''literal''), (''value'', v)]"
| "json_of_expression (ExBinding name) = JObj [(''kind'', JStr ''binding''), (''name'', JStr name)]"
| "json_of_expression (ExObject fs) =
     JObj [(''kind'', JStr ''object''), (''fields'', JObj (map (\<lambda>f. (fst f, json_of_expression (snd f))) fs))]"
| "json_of_expression (ExArray items) =
     JObj [(''kind'', JStr ''array''), (''items'', JArr (map json_of_expression items))]"

fun json_of_wait :: "wait_spec \<Rightarrow> json" where
  "json_of_wait (WaitSignal key consume_once) =
     JObj [(''kind'', JStr ''signal''), (''key'', JStr key), (''consume_once'', JBool consume_once)]"
| "json_of_wait (WaitTimer timer_id) = JObj [(''kind'', JStr ''timer''), (''timer_id'', JStr timer_id)]"
| "json_of_wait (WaitInput correlation schema) =
     JObj [(''kind'', JStr ''input''), (''correlation'', JStr correlation), (''schema'', schema)]"

definition bind_member :: "string option \<Rightarrow> (string \<times> json) list" where
  "bind_member bind = (case bind of None \<Rightarrow> [] | Some b \<Rightarrow> [(''bind'', JStr b)])"

fun json_of_region :: "region \<Rightarrow> json"
and json_of_steps :: "step list \<Rightarrow> json list"
and operation_members :: "operation \<Rightarrow> (string \<times> json) list" where
  "json_of_region (Region steps result) =
     JObj [(''steps'', JArr (json_of_steps steps)), (''result'', json_of_expression result)]"
| "json_of_steps [] = []"
| "json_of_steps (Step i operation # steps) =
     JObj ((''id'', JStr i) # operation_members operation) # json_of_steps steps"
| "operation_members (OpCall component input bind) =
     [(''op'', JStr ''call''), (''component'', JStr component), (''input'', json_of_expression input)] @ bind_member bind"
| "operation_members (OpInvoke target input bind) =
     [(''op'', JStr ''invoke''), (''definition'', JStr target), (''input'', json_of_expression input)] @ bind_member bind"
| "operation_members (OpWait wait bind) =
     [(''op'', JStr ''wait''), (''wait'', json_of_wait wait)] @ bind_member bind"
| "operation_members (OpEffect effect input occurrence bind) =
     [(''op'', JStr ''effect''), (''effect'', JStr effect), (''input'', json_of_expression input),
      (''occurrence'', JStr occurrence)] @ bind_member bind"
| "operation_members (OpScope body bind) =
     [(''op'', JStr ''scope''), (''body'', json_of_region body)] @ bind_member bind"

fun json_of_mutation :: "mutation_kind \<Rightarrow> json" where
  "json_of_mutation Observational = JStr ''observational''"
| "json_of_mutation Mutating = JStr ''mutating''"

fun json_of_dispatch :: "dispatch_policy \<Rightarrow> json" where
  "json_of_dispatch Eager = JStr ''eager''"
| "json_of_dispatch OnScopeCommit = JStr ''on_scope_commit''"
| "json_of_dispatch Explicit = JStr ''explicit''"

fun json_of_reconciliation :: "reconciliation_mode \<Rightarrow> json" where
  "json_of_reconciliation Queryable = JStr ''queryable''"
| "json_of_reconciliation ExternallyAttested = JStr ''externally_attested''"
| "json_of_reconciliation Human = JStr ''human''"
| "json_of_reconciliation Impossible = JStr ''impossible''"

definition json_of_profile :: "effect_profile \<Rightarrow> json" where
  "json_of_profile profile = JObj [(''mutation'', json_of_mutation (pf_mutation profile)),
     (''dispatch'', json_of_dispatch (pf_dispatch profile)),
     (''reconciliation'', json_of_reconciliation (pf_reconciliation profile)),
     (''keyed_idempotency'', JBool (pf_keyed_idempotency profile)),
     (''irreversible'', JBool (pf_irreversible profile))]"

definition json_of_strings :: "(string, string) fmap \<Rightarrow> json" where
  "json_of_strings m = JObj (map (\<lambda>kv. (fst kv, JStr (snd kv))) (entries_of m))"

definition json_of_component :: "component_contract \<Rightarrow> json" where
  "json_of_component c = JObj [(''id'', JStr (cc_id c)), (''input_schema'', cc_input_schema c),
     (''output_schema'', cc_output_schema c), (''output_artifact_kind'', JStr (cc_output_artifact_kind c)),
     (''requirements'', json_of_strings (cc_requirements c))]"

definition json_of_effect :: "effect_contract \<Rightarrow> json" where
  "json_of_effect c = JObj [(''id'', JStr (ec_id c)), (''input_schema'', ec_input_schema c),
     (''output_schema'', ec_output_schema c), (''profile'', json_of_profile (ec_profile c)),
     (''requirements'', json_of_strings (ec_requirements c))]"

definition json_of_definition :: "flow_definition \<Rightarrow> json" where
  "json_of_definition d = JObj [(''id'', JStr (df_id d)), (''input_schema'', df_input_schema d),
     (''output_schema'', df_output_schema d), (''body'', json_of_region (df_body d))]"

definition json_of_plan :: "plan_candidate \<Rightarrow> json" where
  "json_of_plan p = JObj [(''ir_version'', JStr (pn_ir_version p)), (''name'', JStr (pn_name p)),
     (''entry'', JStr (pn_entry p)), (''components'', JArr (map json_of_component (pn_components p))),
     (''effects'', JArr (map json_of_effect (pn_effects p))),
     (''definitions'', JArr (map json_of_definition (pn_definitions p))),
     (''metadata'', json_of_strings (pn_metadata p))]"

section \<open>Sealing and verification\<close>

type_synonym plan_decoder = "string \<Rightarrow> core_error + plan_candidate"

definition canonical_plan_candidate :: "host \<Rightarrow> plan_decoder \<Rightarrow> plan_candidate \<Rightarrow> core_error + plan_candidate" where
  "canonical_plan_candidate h decode candidate = rbind (canonical_bytes h (json_of_plan candidate)) decode"

definition seal_plan ::
  "host \<Rightarrow> plan_decoder \<Rightarrow> (json \<Rightarrow> bool) \<Rightarrow> plan_candidate \<Rightarrow> plan_failure + sealed_plan" where
  "seal_plan h decode compiles candidate =
     rbind (refused (canonical_plan_candidate h decode candidate)) (\<lambda>normalized.
     let candidate = (if normalized = candidate then candidate else normalized) in
     rbind (validate_plan compiles candidate) (\<lambda>_.
     rbind (refused (content_id h PLAN_ID_DOMAIN (json_of_plan candidate))) (\<lambda>plan_id.
     Ok \<lparr>sl_plan_id = plan_id, sl_candidate = candidate\<rparr>)))"

definition verify_sealed :: "host \<Rightarrow> plan_decoder \<Rightarrow> (json \<Rightarrow> bool) \<Rightarrow> sealed_plan \<Rightarrow> plan_failure + unit" where
  "verify_sealed h decode compiles plan =
     rbind (refused (canonical_plan_candidate h decode (sl_candidate plan))) (\<lambda>canonical.
     if canonical \<noteq> sl_candidate plan then Err (Refused Validation)
     else
      rbind (validate_plan compiles (sl_candidate plan)) (\<lambda>_.
      rbind (refused (content_id h PLAN_ID_DOMAIN (json_of_plan (sl_candidate plan)))) (\<lambda>expected.
      if expected \<noteq> sl_plan_id plan then Err (Refused IdentityMismatch) else Ok ())))"

section \<open>Facts\<close>

lemma refused_eq_Ok [simp]: "refused m = Ok x \<longleftrightarrow> m = Ok x"
  by (cases m) (auto simp: refused_def)

lemma seal_plan_eq_Ok:
  "seal_plan h decode compiles c = Ok s \<longleftrightarrow>
     canonical_plan_candidate h decode c = Ok (sl_candidate s) \<and> plan_wf compiles (sl_candidate s)
     \<and> content_id h PLAN_ID_DOMAIN (json_of_plan (sl_candidate s)) = Ok (sl_plan_id s)"
  by (cases s) (auto simp: seal_plan_def Let_def validate_plan_eq)

lemma verify_sealed_eq_Ok:
  "verify_sealed h decode compiles s = Ok () \<longleftrightarrow>
     canonical_plan_candidate h decode (sl_candidate s) = Ok (sl_candidate s) \<and> plan_wf compiles (sl_candidate s)
     \<and> content_id h PLAN_ID_DOMAIN (json_of_plan (sl_candidate s)) = Ok (sl_plan_id s)"
  by (auto simp: verify_sealed_def validate_plan_eq)

text \<open>Verification accepts exactly the fixed points of sealing.\<close>

lemma verify_sealed_iff_seal:
  "verify_sealed h decode compiles s = Ok () \<longleftrightarrow> seal_plan h decode compiles (sl_candidate s) = Ok s"
  by (auto simp: verify_sealed_eq_Ok seal_plan_eq_Ok)

text \<open>Canonical bytes are stable: what they decode to encodes to the same bytes.\<close>

definition stable_decoder :: "host \<Rightarrow> plan_decoder \<Rightarrow> bool" where
  "stable_decoder h decode \<longleftrightarrow> (\<forall>c bytes c'. canonical_bytes h (json_of_plan c) = Ok bytes \<longrightarrow>
     decode bytes = Ok c' \<longrightarrow> canonical_bytes h (json_of_plan c') = Ok bytes)"

lemma canonical_plan_candidate_stable:
  assumes "stable_decoder h decode" "canonical_plan_candidate h decode c = Ok c'"
  shows "canonical_plan_candidate h decode c' = Ok c'"
    and "canonical_bytes h (json_of_plan c') = canonical_bytes h (json_of_plan c)"
proof -
  obtain bytes where bytes: "canonical_bytes h (json_of_plan c) = Ok bytes" "decode bytes = Ok c'"
    using assms(2) by (auto simp: canonical_plan_candidate_def)
  then have "canonical_bytes h (json_of_plan c') = Ok bytes" using assms(1) unfolding stable_decoder_def by blast
  with bytes show "canonical_plan_candidate h decode c' = Ok c'"
    and "canonical_bytes h (json_of_plan c') = canonical_bytes h (json_of_plan c)"
    by (simp_all add: canonical_plan_candidate_def)
qed

lemma seal_plan_verifies:
  assumes "stable_decoder h decode" "seal_plan h decode compiles c = Ok s"
  shows "verify_sealed h decode compiles s = Ok ()"
  using assms by (auto simp: verify_sealed_eq_Ok seal_plan_eq_Ok dest: canonical_plan_candidate_stable(1))

text \<open>The identity is that of the candidate as submitted, canonicalised or not.\<close>

lemma seal_plan_identity:
  assumes "stable_decoder h decode" "seal_plan h decode compiles c = Ok s"
  shows "content_id h PLAN_ID_DOMAIN (json_of_plan c) = Ok (sl_plan_id s)"
proof -
  have canon: "canonical_plan_candidate h decode c = Ok (sl_candidate s)"
    and id: "content_id h PLAN_ID_DOMAIN (json_of_plan (sl_candidate s)) = Ok (sl_plan_id s)"
    using assms(2) unfolding seal_plan_eq_Ok by blast+
  show ?thesis using id unfolding content_id_def canonical_plan_candidate_stable(2) [OF assms(1) canon] .
qed

lemma content_id_eq_Ok:
  "content_id h domain v = Ok i \<longleftrightarrow>
     number_probe v = Ok () \<and> i = ''sha256:'' @ sha256_bytes h (domain @ [CHR 0x00] @ jcs h v)"
  by (auto simp: content_id_def canonical_bytes_eq)

text \<open>The encoding loses nothing: every field of a candidate is part of its identity preimage.\<close>

lemma bind_member_inj [simp]: "bind_member a = bind_member b \<longleftrightarrow> a = b"
  by (auto simp: bind_member_def split: option.splits)

lemma map_eq_injD:
  assumes "\<And>x y. x \<in> set xs \<Longrightarrow> f x = f y \<Longrightarrow> x = y" "map f xs = map f ys"
  shows "xs = ys"
proof -
  have "length xs = length ys" using assms(2) map_eq_imp_length_eq by blast
  moreover have "xs ! i = ys ! i" if "i < length xs" for i
    using that assms calculation by (metis nth_map nth_mem)
  ultimately show ?thesis by (simp add: list_eq_iff_nth_eq)
qed

lemma json_of_expression_inj: "json_of_expression e = json_of_expression f \<Longrightarrow> e = f"
proof (induction e arbitrary: f)
  case (ExObject fs)
  then obtain gs where f: "f = ExObject gs"
    and gs: "map (\<lambda>f. (fst f, json_of_expression (snd f))) fs = map (\<lambda>f. (fst f, json_of_expression (snd f))) gs"
    by (cases f) auto
  have "x = y" if "x \<in> set fs" "(fst x, json_of_expression (snd x)) = (fst y, json_of_expression (snd y))" for x y
    using that ExObject.IH [of x "snd x" "snd y"] by (simp add: prod_eq_iff snds.simps)
  then have "fs = gs" by (rule map_eq_injD [OF _ gs])
  with f show ?case by simp
next
  case (ExArray es)
  then obtain fs where f: "f = ExArray fs" and fs: "map json_of_expression es = map json_of_expression fs"
    by (cases f) auto
  have "es = fs" by (rule map_eq_injD [OF ExArray.IH fs])
  with f show ?case by simp
next
  case (ExInput f)
  then show ?case by (cases f) auto
next
  case (ExLiteral v f)
  then show ?case by (cases f) auto
next
  case (ExBinding n f)
  then show ?case by (cases f) auto
qed

lemma json_of_wait_inj: "json_of_wait w = json_of_wait v \<Longrightarrow> w = v"
  by (cases w; cases v) auto

lemma json_of_region_inj:
  "json_of_region r = json_of_region r' \<Longrightarrow> r = r'"
  "json_of_steps ss = json_of_steps ss' \<Longrightarrow> ss = ss'"
  "operation_members op = operation_members op' \<Longrightarrow> op = op'"
proof (induction r and ss and op arbitrary: r' and ss' and op'
    rule: json_of_region_json_of_steps_operation_members.induct)
  case (1 steps result r')
  then show ?case by (cases r') (auto dest: json_of_expression_inj)
next
  case (2 ss')
  then show ?case by (cases ss' rule: json_of_steps.cases) auto
next
  case (3 i op steps ss')
  then show ?case by (cases ss' rule: json_of_steps.cases) auto
next
  case (4 c e b op')
  then show ?case by (cases op') (auto dest: json_of_expression_inj)
next
  case (5 c e b op')
  then show ?case by (cases op') (auto dest: json_of_expression_inj)
next
  case (6 w b op')
  then show ?case by (cases op') (auto dest: json_of_wait_inj)
next
  case (7 c e k b op')
  then show ?case by (cases op') (auto dest: json_of_expression_inj)
next
  case (8 body b op')
  then show ?case by (cases op') auto
qed

lemma json_of_strings_inj: "json_of_strings m = json_of_strings n \<Longrightarrow> m = n"
proof -
  assume "json_of_strings m = json_of_strings n"
  then have "entries_of m = entries_of n" unfolding json_of_strings_def
    by (intro map_eq_injD [of _ "\<lambda>kv. (fst kv, JStr (snd kv))"]) (auto simp: prod_eq_iff)
  then have "set (entries_of m) = set (entries_of n)" by simp
  then have "\<And>k v. fmlookup m k = Some v \<longleftrightarrow> fmlookup n k = Some v" unfolding set_entries_of by blast
  then show "m = n" by (metis fmap_ext not_Some_eq)
qed

lemma json_of_profile_inj: "json_of_profile p = json_of_profile q \<Longrightarrow> p = q"
proof -
  have "json_of_mutation a = json_of_mutation b \<longleftrightarrow> a = b" for a b by (cases a; cases b) auto
  moreover have "json_of_dispatch a = json_of_dispatch b \<longleftrightarrow> a = b" for a b by (cases a; cases b) auto
  moreover have "json_of_reconciliation a = json_of_reconciliation b \<longleftrightarrow> a = b" for a b by (cases a; cases b) auto
  ultimately show "json_of_profile p = json_of_profile q \<Longrightarrow> p = q" by (simp add: json_of_profile_def)
qed

lemma json_of_component_inj: "json_of_component c = json_of_component d \<Longrightarrow> c = d"
  by (simp add: json_of_component_def json_of_strings_inj)

lemma json_of_effect_inj: "json_of_effect c = json_of_effect d \<Longrightarrow> c = d"
  by (simp add: json_of_effect_def json_of_strings_inj json_of_profile_inj)

lemma json_of_definition_inj: "json_of_definition c = json_of_definition d \<Longrightarrow> c = d"
  by (simp add: json_of_definition_def json_of_region_inj)

lemma json_of_plan_inj: "json_of_plan p = json_of_plan q \<Longrightarrow> p = q"
  using map_eq_injD [of "pn_components p" json_of_component "pn_components q", OF json_of_component_inj]
    map_eq_injD [of "pn_effects p" json_of_effect "pn_effects q", OF json_of_effect_inj]
    map_eq_injD [of "pn_definitions p" json_of_definition "pn_definitions q", OF json_of_definition_inj]
  by (simp add: json_of_plan_def json_of_strings_inj)

end
