(* ===== verification/Plan_Properties.thy ===== *)
theory Plan_Properties
  imports Plan_Seal Reducer_Demo
begin

text \<open>
  The properties of Plan validation and sealing, with a small Plan at which they are instantiated:
  an entry definition that calls a component, proposes an Effect in a nested scope and invokes a
  second definition.
\<close>

section \<open>A small Plan\<close>

definition demo_component :: component_contract where
  "demo_component = \<lparr>cc_id = ''price'', cc_input_schema = JBool True, cc_output_schema = JObj [(''type'', JStr ''integer'')],
     cc_output_artifact_kind = ''shop.price/1'', cc_requirements = fmempty\<rparr>"

definition demo_charge :: effect_contract where
  "demo_charge = \<lparr>ec_id = ''charge'', ec_input_schema = JBool True, ec_output_schema = JBool True,
     ec_profile = demo_profile, ec_requirements = fmempty\<rparr>"

definition demo_main :: flow_definition where
  "demo_main = \<lparr>df_id = ''main'', df_input_schema = JBool True, df_output_schema = JBool True,
     df_body = Region
       [Step ''ask'' (OpCall ''price'' ExInput (Some ''p'')),
        Step ''pay'' (OpScope (Region [Step ''charge'' (OpEffect ''charge'' (ExBinding ''p'') ''0'' None)] (ExBinding ''p'')) None),
        Step ''note'' (OpInvoke ''receipt'' (ExObject [(''amount'', ExBinding ''p'')]) (Some ''r''))]
       (ExBinding ''r'')\<rparr>"

definition demo_receipt :: "operation list \<Rightarrow> flow_definition" where
  "demo_receipt ops = \<lparr>df_id = ''receipt'', df_input_schema = JBool True, df_output_schema = JBool True,
     df_body = Region (map (Step ''again'') ops) ExInput\<rparr>"

definition demo_plan :: "operation list \<Rightarrow> plan_candidate" where
  "demo_plan ops = \<lparr>pn_ir_version = IR_VERSION, pn_name = ''shop'', pn_entry = ''main'',
     pn_components = [demo_component], pn_effects = [demo_charge],
     pn_definitions = [demo_main, demo_receipt ops], pn_metadata = fmempty\<rparr>"

lemma demo_plan_valid: "validate_plan (\<lambda>_. True) (demo_plan []) = Ok ()"
  by code_simp

lemma demo_plan_cyclic:
  "validate_plan (\<lambda>_. True) (demo_plan [OpInvoke ''main'' ExInput None]) = Err (Refused Validation)"
  by code_simp

definition demo_graph :: plan_graph where
  "demo_graph = invocation_graph (pn_definitions (demo_plan []))"

lemma demo_graph_closed: "closed_graph demo_graph"
proof -
  have "distinct (map df_id (pn_definitions (demo_plan [])))" by code_simp
  note targets = targets_of_invocation_graph [OF this]
  show ?thesis unfolding closed_graph_def demo_graph_def targets fmdom_invocation_graph
    by (auto simp: calls_def invoked_def demo_plan_def demo_main_def demo_receipt_def)
qed

text \<open>A decoder that knows the bytes of this one Plan.\<close>

definition demo_decode :: plan_decoder where
  "demo_decode bytes =
     (if bytes = jcs demo_host (json_of_plan (demo_plan [])) then Ok (demo_plan []) else Err Encoding)"

definition demo_sealed :: sealed_plan where
  "demo_sealed = \<lparr>sl_plan_id = or_empty (content_id demo_host PLAN_ID_DOMAIN (json_of_plan (demo_plan []))),
     sl_candidate = demo_plan []\<rparr>"

lemma demo_plan_bytes:
  "canonical_bytes demo_host (json_of_plan (demo_plan [])) = Ok (jcs demo_host (json_of_plan (demo_plan [])))"
proof -
  have "number_probe (json_of_plan (demo_plan [])) = Ok ()" by code_simp
  then show ?thesis by (simp add: canonical_bytes_eq)
qed

lemma demo_decode_stable: "stable_decoder demo_host demo_decode"
proof -
  have "canonical_bytes demo_host (json_of_plan c') = Ok bytes" if "demo_decode bytes = Ok c'" for bytes c'
  proof -
    from that have "bytes = jcs demo_host (json_of_plan (demo_plan []))" "c' = demo_plan []"
      by (simp_all add: demo_decode_def split: if_splits)
    then show ?thesis by (simp only: demo_plan_bytes)
  qed
  then show ?thesis unfolding stable_decoder_def by blast
qed

lemma demo_plan_seals: "seal_plan demo_host demo_decode (\<lambda>_. True) (demo_plan []) = Ok demo_sealed"
proof -
  have "canonical_plan_candidate demo_host demo_decode (demo_plan []) = Ok (demo_plan [])"
    unfolding canonical_plan_candidate_def demo_plan_bytes by (simp add: demo_decode_def)
  moreover have "plan_wf (\<lambda>_. True) (demo_plan [])" using demo_plan_valid unfolding validate_plan_eq by (simp split: if_splits)
  moreover have "content_id demo_host PLAN_ID_DOMAIN (json_of_plan (demo_plan [])) = Ok (sl_plan_id demo_sealed)"
    unfolding demo_sealed_def content_id_def demo_plan_bytes by (simp add: or_empty_def)
  ultimately show ?thesis unfolding seal_plan_eq_Ok by (simp add: demo_sealed_def)
qed

section \<open>Properties\<close>

text \<open>
  C12: Plan validation decides the declarative well-formedness \<open>plan_wf\<close>: known version, valid and
  unique identifiers, compiling schemas, no eager mutation, an existing entry, resolved references,
  globally unique step sites, bindings used only where an earlier step bound them and never rebound,
  effect results bound only for eager observations, and no recursive invocation. Anything else is
  refused with \<open>Validation\<close>; the traversal never panics.
\<close>

theorem plan_validation_exact:
  "validate_plan compiles p = (if plan_wf compiles p then Ok () else Err (Refused Validation))"
  by (rule validate_plan_eq)

text \<open>
  The iterative search with an explicit stack accepts an invocation graph whose targets are all
  defined exactly when the invocation relation is acyclic; it always ends, and never indexes a missing
  definition.
\<close>

theorem acyclic_check_decides:
  assumes "closed_graph g"
  shows "validate_acyclic_graph g = (if acyclic (invokes g) then Ok () else Err (Refused Validation))"
  using assms by (rule acyclic_graph_iff)

theorem acyclic_check_decides_witness:
  "closed_graph demo_graph \<and>
   validate_acyclic_graph demo_graph = (if acyclic (invokes demo_graph) then Ok () else Err (Refused Validation))"
  using demo_graph_closed acyclic_check_decides [OF demo_graph_closed] by blast

text \<open>
  C16: Sealing and verifying agree. When canonical bytes decode to a candidate with the same canonical
  bytes, a sealed Plan verifies, sealing its candidate again gives the same sealed Plan, and its
  identity is the content identity of the candidate as it was submitted. A sealed Plan whose identity
  is altered fails with \<open>IdentityMismatch\<close>.
\<close>

theorem seal_verify_roundtrip:
  assumes "stable_decoder h decode" "seal_plan h decode compiles c = Ok s"
  shows "verify_sealed h decode compiles s = Ok ()
    \<and> seal_plan h decode compiles (sl_candidate s) = Ok s
    \<and> content_id h PLAN_ID_DOMAIN (json_of_plan c) = Ok (sl_plan_id s)
    \<and> (\<forall>i. i \<noteq> sl_plan_id s \<longrightarrow>
          verify_sealed h decode compiles (s\<lparr>sl_plan_id := i\<rparr>) = Err (Refused IdentityMismatch))"
proof -
  have v: "verify_sealed h decode compiles s = Ok ()" using assms by (rule seal_plan_verifies)
  then have "seal_plan h decode compiles (sl_candidate s) = Ok s" unfolding verify_sealed_iff_seal .
  moreover have "content_id h PLAN_ID_DOMAIN (json_of_plan c) = Ok (sl_plan_id s)" using assms by (rule seal_plan_identity)
  moreover have "verify_sealed h decode compiles (s\<lparr>sl_plan_id := i\<rparr>) = Err (Refused IdentityMismatch)"
    if "i \<noteq> sl_plan_id s" for i
    using v that unfolding verify_sealed_eq_Ok by (auto simp: verify_sealed_def validate_plan_eq refused_def)
  ultimately show ?thesis using v by blast
qed

theorem seal_verify_roundtrip_witness:
  "verify_sealed demo_host demo_decode (\<lambda>_. True) demo_sealed = Ok ()
   \<and> verify_sealed demo_host demo_decode (\<lambda>_. True) (demo_sealed\<lparr>sl_plan_id := []\<rparr>) = Err (Refused IdentityMismatch)"
proof -
  have "[] \<noteq> sl_plan_id demo_sealed"
    unfolding demo_sealed_def content_id_def demo_plan_bytes by (simp add: or_empty_def)
  then show ?thesis
    using seal_verify_roundtrip [OF demo_decode_stable demo_plan_seals] by blast
qed



end
