(* ===== verification/Plan_Contracts.thy ===== *)
theory Plan_Contracts
  imports Plan_Seal Event_Verify
begin

text \<open>
  The executable contracts of a Plan, \<^verbatim>\<open>crates/cymule-runtime/src/contract.rs\<close>: every schema of a
  candidate is compiled once and selected by its boundary when a value crosses it. The
  \<^verbatim>\<open>jsonschema\<close> crate is two arguments, whether it compiles a schema (\<open>compiles\<close>) and whether the
  compiled schema accepts a value (\<open>accepts\<close>). The bounded list of issues of a violation holds
  messages of that crate and is not modelled.
\<close>

section \<open>Targets, violations and validators\<close>

datatype contract_phase = AdmissionPhase | ExecutionPhase

datatype contract_boundary = DefinitionBoundary | ComponentBoundary | EffectBoundary | WaitBoundary

datatype contract_side = InputSide | OutputSide

record contract_target =
  ct_boundary :: contract_boundary
  ct_id :: string
  ct_side :: contract_side

record contract_violation =
  cv_phase :: contract_phase
  cv_target :: contract_target

record contract_validator =
  cx_target :: contract_target
  cx_schema :: json

definition CONTRACT_SCHEMA_DIALECT :: string where
  "CONTRACT_SCHEMA_DIALECT = ''https://json-schema.org/draft/2020-12/schema''"

definition INVALID_CONTRACT_TARGET_ID :: string where
  "INVALID_CONTRACT_TARGET_ID = ''invalid-contract-target''"

definition contract_target_for :: "contract_boundary \<Rightarrow> string \<Rightarrow> contract_side \<Rightarrow> contract_target" where
  "contract_target_for boundary i side = \<lparr>ct_boundary = boundary, ct_id = i, ct_side = side\<rparr>"

definition wait_target :: "string \<Rightarrow> contract_target" where
  "wait_target site_id = \<lparr>ct_boundary = WaitBoundary, ct_id = site_id, ct_side = InputSide\<rparr>"

definition target_verify :: "contract_target \<Rightarrow> core_error + unit" where
  "target_verify target = validate_identity (ct_id target)"

definition invalid_projection :: "contract_target \<Rightarrow> contract_target" where
  "invalid_projection target = target\<lparr>ct_id := INVALID_CONTRACT_TARGET_ID\<rparr>"

definition admission_issue :: "contract_target \<Rightarrow> contract_violation" where
  "admission_issue target = \<lparr>cv_phase = AdmissionPhase, cv_target = target\<rparr>"

definition execution_issue :: "contract_target \<Rightarrow> contract_violation" where
  "execution_issue target = \<lparr>cv_phase = ExecutionPhase, cv_target = target\<rparr>"

definition missing_contract :: "contract_target \<Rightarrow> contract_violation" where
  "missing_contract target = \<lparr>cv_phase = ExecutionPhase, cv_target = target\<rparr>"

definition compile_contract ::
  "(json \<Rightarrow> bool) \<Rightarrow> contract_target \<Rightarrow> json \<Rightarrow> contract_violation + contract_validator" where
  "compile_contract compiles target schema =
     (case target_verify target of
        Inl _ \<Rightarrow> Err (admission_issue (invalid_projection target))
      | Inr _ \<Rightarrow>
          if (case schema of
                JObj kvs \<Rightarrow> (case map_of kvs ''$schema'' of
                   None \<Rightarrow> False | Some declared \<Rightarrow> declared \<noteq> JStr CONTRACT_SCHEMA_DIALECT)
              | _ \<Rightarrow> False)
          then Err (admission_issue target)
          else if \<not> compiles schema then Err (admission_issue target)
          else Ok \<lparr>cx_target = target, cx_schema = schema\<rparr>)"

definition validator_validate ::
  "(json \<Rightarrow> json \<Rightarrow> bool) \<Rightarrow> contract_validator \<Rightarrow> json \<Rightarrow> contract_violation + unit" where
  "validator_validate accepts validator v =
     (if accepts (cx_schema validator) v then Ok () else Err (execution_issue (cx_target validator)))"

section \<open>The contracts of a Plan\<close>

type_synonym contract_table = "(string \<times> contract_side, contract_validator) fmap"

record plan_contracts =
  pc_definitions :: contract_table
  pc_components :: contract_table
  pc_effects :: contract_table
  pc_waits :: "(string, contract_validator) fmap"

text \<open>The body of each of the three loops: the input contract, then the output contract.\<close>

definition compile_pair ::
  "(json \<Rightarrow> bool) \<Rightarrow> contract_boundary \<Rightarrow> string \<Rightarrow> json \<Rightarrow> json \<Rightarrow> contract_table
    \<Rightarrow> contract_violation + contract_table" where
  "compile_pair compiles boundary i input_schema output_schema table =
     rbind (compile_contract compiles (contract_target_for boundary i InputSide) input_schema) (\<lambda>input.
     let table = fmupd (i, InputSide) input table in
     rbind (compile_contract compiles (contract_target_for boundary i OutputSide) output_schema) (\<lambda>output.
     Ok (fmupd (i, OutputSide) output table)))"

fun compile_waits :: "(json \<Rightarrow> bool) \<Rightarrow> region \<Rightarrow> (string, contract_validator) fmap
      \<Rightarrow> contract_violation + (string, contract_validator) fmap"
and compile_step_waits :: "(json \<Rightarrow> bool) \<Rightarrow> step list \<Rightarrow> (string, contract_validator) fmap
      \<Rightarrow> contract_violation + (string, contract_validator) fmap" where
  "compile_waits compiles (Region steps result) validators = compile_step_waits compiles steps validators"
| "compile_step_waits compiles [] validators = Ok validators"
| "compile_step_waits compiles (Step i operation # steps) validators =
     rbind (case operation of
         OpWait (WaitInput _ schema) _ \<Rightarrow>
           rbind (compile_contract compiles (wait_target i) schema) (\<lambda>validator.
           Ok (fmupd i validator validators))
       | OpScope body _ \<Rightarrow> compile_waits compiles body validators
       | _ \<Rightarrow> Ok validators)
     (compile_step_waits compiles steps)"

definition compile_contracts :: "(json \<Rightarrow> bool) \<Rightarrow> plan_candidate \<Rightarrow> contract_violation + plan_contracts" where
  "compile_contracts compiles candidate =
     rbind (rfold (\<lambda>d. compile_pair compiles DefinitionBoundary (df_id d) (df_input_schema d) (df_output_schema d))
        (pn_definitions candidate) fmempty) (\<lambda>definitions.
     rbind (rfold (\<lambda>c. compile_pair compiles ComponentBoundary (cc_id c) (cc_input_schema c) (cc_output_schema c))
        (pn_components candidate) fmempty) (\<lambda>components.
     rbind (rfold (\<lambda>c. compile_pair compiles EffectBoundary (ec_id c) (ec_input_schema c) (ec_output_schema c))
        (pn_effects candidate) fmempty) (\<lambda>effects.
     rbind (rfold (\<lambda>d. compile_waits compiles (df_body d)) (pn_definitions candidate) fmempty) (\<lambda>waits.
     Ok \<lparr>pc_definitions = definitions, pc_components = components, pc_effects = effects, pc_waits = waits\<rparr>))))"

definition validate_selected ::
  "(json \<Rightarrow> json \<Rightarrow> bool) \<Rightarrow> contract_table \<Rightarrow> contract_target \<Rightarrow> json \<Rightarrow> contract_violation + unit" where
  "validate_selected accepts validators target v =
     (case target_verify target of
        Inl _ \<Rightarrow> Err (execution_issue (invalid_projection target))
      | Inr _ \<Rightarrow>
         (case fmlookup validators (ct_id target, ct_side target) of
            None \<Rightarrow> Err (missing_contract target)
          | Some validator \<Rightarrow> validator_validate accepts validator v))"

type_synonym value_check = "(json \<Rightarrow> json \<Rightarrow> bool) \<Rightarrow> plan_contracts \<Rightarrow> string \<Rightarrow> json \<Rightarrow> contract_violation + unit"

definition validate_definition_input :: value_check where
  "validate_definition_input accepts contracts i =
     validate_selected accepts (pc_definitions contracts) (contract_target_for DefinitionBoundary i InputSide)"

definition validate_definition_output :: value_check where
  "validate_definition_output accepts contracts i =
     validate_selected accepts (pc_definitions contracts) (contract_target_for DefinitionBoundary i OutputSide)"

definition validate_component_input :: value_check where
  "validate_component_input accepts contracts i =
     validate_selected accepts (pc_components contracts) (contract_target_for ComponentBoundary i InputSide)"

definition validate_component_output :: value_check where
  "validate_component_output accepts contracts i =
     validate_selected accepts (pc_components contracts) (contract_target_for ComponentBoundary i OutputSide)"

definition validate_effect_input :: value_check where
  "validate_effect_input accepts contracts i =
     validate_selected accepts (pc_effects contracts) (contract_target_for EffectBoundary i InputSide)"

definition validate_effect_output :: value_check where
  "validate_effect_output accepts contracts i =
     validate_selected accepts (pc_effects contracts) (contract_target_for EffectBoundary i OutputSide)"

definition validate_wait_input :: value_check where
  "validate_wait_input accepts contracts site_id v =
     (case target_verify (wait_target site_id) of
        Inl _ \<Rightarrow> Err (execution_issue (invalid_projection (wait_target site_id)))
      | Inr _ \<Rightarrow>
         (case fmlookup (pc_waits contracts) site_id of
            None \<Rightarrow> Err (missing_contract (wait_target site_id))
          | Some validator \<Rightarrow> validator_validate accepts validator v))"

section \<open>A well-formed Plan has all its contracts\<close>

lemma no_control: "list_all (\<lambda>c. CHR 0x20 \<le> c \<and> c < CHR 0x7F) s \<Longrightarrow> \<not> has_control s"
proof (induction s rule: has_control.induct)
  case (3 c d cs)
  then show ?case by (auto simp: not_less)
qed (auto simp: not_less)

lemma valid_id_identity:
  assumes "valid_id i"
  shows "validate_identity i = Ok ()"
proof -
  have "list_all (\<lambda>c. CHR 0x20 \<le> c \<and> c < CHR 0x7F) i"
    using assms by (auto simp: valid_id_def list_all_iff semantic_byte_def is_ascii_lowercase_def
        is_ascii_uppercase_def is_ascii_digit_def less_eq_char_def less_char_def)
  then have "\<not> has_control i" by (rule no_control)
  moreover have "length (filter (\<lambda>c. \<not> is_continuation_byte c) i) \<le> 512"
    using assms length_filter_le [of "\<lambda>c. \<not> is_continuation_byte c" i] unfolding valid_id_def by linarith
  ultimately show ?thesis using assms by (simp add: validate_identity_def valid_id_def)
qed

lemma compile_contract_ok:
  assumes "valid_id (ct_id target)" "schema_ok compiles schema"
  shows "compile_contract compiles target schema = Ok \<lparr>cx_target = target, cx_schema = schema\<rparr>"
  using assms
  by (auto simp: compile_contract_def target_verify_def valid_id_identity schema_ok_def JSON_SCHEMA_DIALECT_def
      CONTRACT_SCHEMA_DIALECT_def)

definition pair_of :: "contract_boundary \<Rightarrow> string \<Rightarrow> json \<Rightarrow> json \<Rightarrow> contract_table \<Rightarrow> contract_table" where
  "pair_of boundary i input_schema output_schema table =
     fmupd (i, OutputSide) \<lparr>cx_target = contract_target_for boundary i OutputSide, cx_schema = output_schema\<rparr>
       (fmupd (i, InputSide) \<lparr>cx_target = contract_target_for boundary i InputSide, cx_schema = input_schema\<rparr> table)"

lemma compile_pairs_ok:
  assumes "\<forall>x\<in>set xs. valid_id (k x) \<and> schema_ok compiles (si x) \<and> schema_ok compiles (so x)"
  shows "rfold (\<lambda>x. compile_pair compiles b (k x) (si x) (so x)) xs table
    = Ok (fold (\<lambda>x. pair_of b (k x) (si x) (so x)) xs table)"
  using assms
proof (induction xs arbitrary: table)
  case (Cons x xs)
  then have "compile_pair compiles b (k x) (si x) (so x) table = Ok (pair_of b (k x) (si x) (so x) table)"
    by (simp add: compile_pair_def compile_contract_ok contract_target_for_def pair_of_def Let_def)
  with Cons show ?case by simp
qed simp

lemma pairs_lookup:
  assumes "distinct (map k xs)" "x \<in> set xs"
  shows "fmlookup (fold (\<lambda>x. pair_of b (k x) (si x) (so x)) xs table) (k x, InputSide)
      = Some \<lparr>cx_target = contract_target_for b (k x) InputSide, cx_schema = si x\<rparr>"
    and "fmlookup (fold (\<lambda>x. pair_of b (k x) (si x) (so x)) xs table) (k x, OutputSide)
      = Some \<lparr>cx_target = contract_target_for b (k x) OutputSide, cx_schema = so x\<rparr>"
proof -
  have other: "fmlookup (fold (\<lambda>x. pair_of b (k x) (si x) (so x)) ys t) (i, side) = fmlookup t (i, side)"
    if "i \<notin> k ` set ys" for ys t i side
    using that by (induction ys arbitrary: t) (auto simp: pair_of_def)
  obtain ys zs where xs: "xs = ys @ x # zs" using assms(2) by (meson split_list)
  with assms(1) have "k x \<notin> k ` set zs" by auto
  note other = other [OF this]
  show "fmlookup (fold (\<lambda>x. pair_of b (k x) (si x) (so x)) xs table) (k x, InputSide)
      = Some \<lparr>cx_target = contract_target_for b (k x) InputSide, cx_schema = si x\<rparr>"
    and "fmlookup (fold (\<lambda>x. pair_of b (k x) (si x) (so x)) xs table) (k x, OutputSide)
      = Some \<lparr>cx_target = contract_target_for b (k x) OutputSide, cx_schema = so x\<rparr>"
    unfolding xs by (simp_all add: other) (simp_all add: pair_of_def)
qed

lemma compile_waits_ok:
  "(\<And>s. s \<in> set (region_sites r) \<Longrightarrow> site_ok compiles names s) \<Longrightarrow> \<exists>t'. compile_waits compiles r t = Ok t'"
  "(\<And>s. s \<in> set (step_sites ss) \<Longrightarrow> site_ok compiles names s) \<Longrightarrow> \<exists>t'. compile_step_waits compiles ss t = Ok t'"
proof (induction compiles r t and compiles ss t rule: compile_waits_compile_step_waits.induct)
  case (3 compiles i op steps t)
  let ?head = "case op of
      OpWait (WaitInput _ schema) _ \<Rightarrow>
        rbind (compile_contract compiles (wait_target i) schema) (\<lambda>validator. Ok (fmupd i validator t))
    | OpScope body _ \<Rightarrow> compile_waits compiles body t
    | _ \<Rightarrow> Ok t"
  have "site_ok compiles names (i, op)" using "3.prems" by simp
  then have i: "valid_id i" "op_ok compiles names op" by (simp_all add: site_ok_def)
  have "\<exists>u. ?head = Ok u"
  proof (cases op)
    case (OpWait w bind)
    with i show ?thesis by (cases w) (auto simp: compile_contract_ok wait_target_def)
  next
    case (OpScope body bind)
    then have "\<exists>t'. compile_waits compiles body t = Ok t'" using 3(1) "3.prems" by simp
    with OpScope show ?thesis by simp
  qed simp_all
  then obtain u where u: "?head = Ok u" by blast
  then have "\<exists>t'. compile_step_waits compiles steps u = Ok t'" using 3(2) [OF u] "3.prems" by simp
  with u show ?case by simp
qed auto

lemma compile_all_waits_ok:
  assumes "\<forall>s\<in>set (plan_sites ds). site_ok compiles names s"
  shows "\<exists>t'. rfold (\<lambda>d. compile_waits compiles (df_body d)) ds t = Ok t'"
  using assms
proof (induction ds arbitrary: t)
  case (Cons d ds)
  then obtain u where "compile_waits compiles (df_body d) t = Ok u"
    using compile_waits_ok(1) [of "df_body d" compiles names t] by (auto simp: plan_sites_def)
  moreover have "\<exists>t'. rfold (\<lambda>d. compile_waits compiles (df_body d)) ds u = Ok t'"
    using Cons by (simp add: plan_sites_def)
  ultimately show ?case by simp
qed simp

text \<open>What the contracts of a Plan decide: the declared schemas.\<close>

definition decides ::
  "(json \<Rightarrow> json \<Rightarrow> bool) \<Rightarrow> contract_target \<Rightarrow> json \<Rightarrow> (json \<Rightarrow> contract_violation + unit) \<Rightarrow> bool" where
  "decides accepts target schema check \<longleftrightarrow>
     (\<forall>v. check v = (if accepts schema v then Ok () else Err \<lparr>cv_phase = ExecutionPhase, cv_target = target\<rparr>))"

definition contracts_of :: "(json \<Rightarrow> json \<Rightarrow> bool) \<Rightarrow> plan_candidate \<Rightarrow> plan_contracts \<Rightarrow> bool" where
  "contracts_of accepts p cs \<longleftrightarrow>
     (\<forall>d\<in>set (pn_definitions p).
        decides accepts (contract_target_for DefinitionBoundary (df_id d) InputSide) (df_input_schema d)
          (validate_definition_input accepts cs (df_id d))
      \<and> decides accepts (contract_target_for DefinitionBoundary (df_id d) OutputSide) (df_output_schema d)
          (validate_definition_output accepts cs (df_id d)))
   \<and> (\<forall>c\<in>set (pn_components p).
        decides accepts (contract_target_for ComponentBoundary (cc_id c) InputSide) (cc_input_schema c)
          (validate_component_input accepts cs (cc_id c))
      \<and> decides accepts (contract_target_for ComponentBoundary (cc_id c) OutputSide) (cc_output_schema c)
          (validate_component_output accepts cs (cc_id c)))
   \<and> (\<forall>c\<in>set (pn_effects p).
        decides accepts (contract_target_for EffectBoundary (ec_id c) InputSide) (ec_input_schema c)
          (validate_effect_input accepts cs (ec_id c))
      \<and> decides accepts (contract_target_for EffectBoundary (ec_id c) OutputSide) (ec_output_schema c)
          (validate_effect_output accepts cs (ec_id c)))"

lemma selected_decides:
  assumes "fmlookup table (i, side) = Some \<lparr>cx_target = contract_target_for b i side, cx_schema = schema\<rparr>" "valid_id i"
  shows "decides accepts (contract_target_for b i side) schema (validate_selected accepts table (contract_target_for b i side))"
  using assms
  by (simp add: decides_def validate_selected_def target_verify_def valid_id_identity contract_target_for_def
      validator_validate_def execution_issue_def)

lemma compile_contracts_ok:
  assumes "plan_wf compiles p"
  shows "\<exists>cs. compile_contracts compiles p = Ok cs \<and> contracts_of accepts p cs"
proof -
  have ids: "ids_ok (map df_id (pn_definitions p))" "ids_ok (map cc_id (pn_components p))" "ids_ok (map ec_id (pn_effects p))"
    and ok: "\<forall>d\<in>set (pn_definitions p). flow_ok compiles d" "\<forall>c\<in>set (pn_components p). component_ok compiles c"
      "\<forall>c\<in>set (pn_effects p). effect_contract_ok compiles c"
    and sites: "\<forall>s\<in>set (plan_sites (pn_definitions p)). site_ok compiles (plan_names_of p) s"
    using assms unfolding plan_wf_def sites_ok_def by blast+
  define defs where "defs = fold (\<lambda>d. pair_of DefinitionBoundary (df_id d) (df_input_schema d) (df_output_schema d)) (pn_definitions p) fmempty"
  define comps where "comps = fold (\<lambda>c. pair_of ComponentBoundary (cc_id c) (cc_input_schema c) (cc_output_schema c)) (pn_components p) fmempty"
  define effs where "effs = fold (\<lambda>c. pair_of EffectBoundary (ec_id c) (ec_input_schema c) (ec_output_schema c)) (pn_effects p) fmempty"
  have runs: "rfold (\<lambda>d. compile_pair compiles DefinitionBoundary (df_id d) (df_input_schema d) (df_output_schema d))
        (pn_definitions p) fmempty = Ok defs"
      "rfold (\<lambda>c. compile_pair compiles ComponentBoundary (cc_id c) (cc_input_schema c) (cc_output_schema c))
        (pn_components p) fmempty = Ok comps"
      "rfold (\<lambda>c. compile_pair compiles EffectBoundary (ec_id c) (ec_input_schema c) (ec_output_schema c))
        (pn_effects p) fmempty = Ok effs"
    unfolding defs_def comps_def effs_def using ids ok
    by (intro compile_pairs_ok; simp add: ids_ok_def flow_ok_def component_ok_def effect_contract_ok_def)+
  obtain ws where ws: "rfold (\<lambda>d. compile_waits compiles (df_body d)) (pn_definitions p) fmempty = Ok ws"
    using compile_all_waits_ok [OF sites] by blast
  have valid: "\<And>d. d \<in> set (pn_definitions p) \<Longrightarrow> valid_id (df_id d)" "\<And>c. c \<in> set (pn_components p) \<Longrightarrow> valid_id (cc_id c)"
      "\<And>c. c \<in> set (pn_effects p) \<Longrightarrow> valid_id (ec_id c)"
    and dist: "distinct (map df_id (pn_definitions p))" "distinct (map cc_id (pn_components p))" "distinct (map ec_id (pn_effects p))"
    using ids by (simp_all add: ids_ok_def)
  have "contracts_of accepts p \<lparr>pc_definitions = defs, pc_components = comps, pc_effects = effs, pc_waits = ws\<rparr>"
    unfolding contracts_of_def validate_definition_input_def validate_definition_output_def validate_component_input_def
      validate_component_output_def validate_effect_input_def validate_effect_output_def
    by (auto simp: defs_def comps_def effs_def intro!: selected_decides valid pairs_lookup dist)
  then show ?thesis unfolding compile_contracts_def runs ws by simp
qed

end
