(* ===== verification/Engine_Host.thy ===== *)
theory Engine_Host
  imports Plan_Contracts
begin

text \<open>
  What the embedded runtime (\<^verbatim>\<open>crates/cymule-runtime/src/engine.rs\<close>) talks to. Commands, plugin
  requests and responses and runtime errors are data of the code. The Machine and the plugin are
  one mutable \<open>world\<close>, of any type, with the operations the runtime calls as the fields of
  \<open>runtime_env\<close>; nothing is assumed about them, so that every statement holds whatever the Machine
  accepts and whatever a plugin answers.
\<close>

section \<open>Commands\<close>

record initial_attempt_spec =
  ia_attempt_id :: string
  ia_continuation_id :: string
  ia_occurrence_binding :: string
  ia_continuation_epoch :: nat
  ia_execution_fence :: nat

datatype command =
    StartRun string string artifact_ref string initial_attempt_spec
      \<comment> \<open>plan, binding context, input, material digest, initial Attempt\<close>
  | BeginAttempt string string string nat nat
  | YieldAttempt string nat nat
  | AdvanceEpoch
  | OpenScope string string string "invocation_path_segment list" string "nat list" string
      \<comment> \<open>scope, parent, invocation, invocation path, definition, region path, site\<close>
  | ProposeEffect string string "invocation_path_segment list" string "nat list" string string string
      artifact_ref artifact_ref string
      \<comment> \<open>scope, invocation, invocation path, definition, region path, site, occurrence, operation, args,
        execution binding, occurrence binding\<close>
  | TransitionEffect string effect_transition
  | CommitScope string
  | AbortScope string
  | UpdateBinding string
  | MigrateRun string string string string string nat string
  | RecordFact string string
  | CompleteRun "artifact_ref option"
  | FailRun run_failure
  | CancelRun artifact_ref

record command_envelope =
  cm_command_version :: string
  cm_command_id :: string
  cm_actor :: string
  cm_run_id :: string
  cm_expected_precondition :: "string option"
  cm_command :: command

datatype receipt_status = ReceiptApplied | ReceiptConflict

record artifact_record =
  ak_reference :: artifact_ref
  ak_bytes :: string

definition COMMAND_VERSION :: string where
  "COMMAND_VERSION = ''cymule.command/6''"

definition DECLARED_FAILURE_ARTIFACT_KIND :: string where
  "DECLARED_FAILURE_ARTIFACT_KIND = ''cymule.declared-failure/1''"

definition EXECUTION_BINDING_ARTIFACT_KIND :: string where
  "EXECUTION_BINDING_ARTIFACT_KIND = ''cymule.execution-binding/2''"

definition RESULT_ARTIFACT_KIND :: string where
  "RESULT_ARTIFACT_KIND = ''cymule.result/1''"

definition EFFECT_PROVIDER_ATTEMPT_VERSION :: string where
  "EFFECT_PROVIDER_ATTEMPT_VERSION = ''cymule.effect-provider-attempt/1''"

section \<open>Plugin protocol\<close>

record provider_attempt =
  pa_attempt_version :: string
  pa_attempt_id :: string
  pa_claim_owner :: string
  pa_claim_epoch :: nat

datatype reconciliation_decision = ObserveState | ResolveApplied | ResolveNotApplied

text \<open>Operation, intent, attempt, decision, resolution value and input, as far as a request has them.\<close>

datatype plugin_request =
    Describe
  | CallRequest string json
  | PrepareEffect string string json
  | DispatchEffect string string provider_attempt json
  | ReconcileEffect string string provider_attempt reconciliation_decision "json option" json

record plugin_failure =
  pl_code :: string
  pl_message :: string

text \<open>The content of a capability advertisement is not modelled.\<close>

datatype plugin_response =
    ManifestResponse
  | CallResult json
  | ExpectedFailure plugin_failure
  | PreparedResponse
  | EffectResult provider_attempt world_outcome "json option"
  | ReconciliationResult provider_attempt reconciliation_resolution "json option"
  | DefectResponse string string

section \<open>Errors\<close>

record suspension_boundary =
  sb_run_id :: string
  sb_plan_id :: string
  sb_definition_id :: string
  sb_invocation_id :: string
  sb_site_id :: string
  sb_wait :: wait_spec
  sb_result_bind :: "string option"

datatype runtime_error =
    CoreFailure core_error
  | ContractFailure contract_violation
  | CompositionFailure
  | ExpectedPluginFailure plugin_failure
  | PluginDefect string string
  | SuspendedError suspension_boundary
  | ReleaseRequiredError "string list"
  | SubstrateFailure string string
  | CancelledError string string
  | TimedOutError string string
  | UnknownWorldError string string
  | EncodingFailure

text \<open>The \<^verbatim>\<open>PluginDefect\<close> errors that \<^verbatim>\<open>engine.rs\<close> raises itself, one constructor per cause.\<close>

datatype engine_defect =
    EntryDisappeared
  | BindingIdentityInconsistent
  | BindingArtifactMissing
  | InputArtifactMissing
  | RunMissing
  | CommandConflicted
  | CommandSequenceExhausted
  | UnavailableBinding string
  | InvokedDefinitionMissing
  | EffectContractMissing
  | EffectProjectionMissing
  | InvalidCallResponse
  | InvalidPrepareResponse
  | PrepareExpectedFailure
  | FailureNotClosed
  | InvalidIntent
  | InvalidClaimEpoch
  | InvalidReconciliation

text \<open>\<open>OutOfFuel\<close> is not an error of the code: it is the model's bound on nested invocations.
  \<open>Panicked\<close> stands for a panic in Plan validation.\<close>

datatype engine_error =
    Raised runtime_error
  | Internal engine_defect
  | Panicked
  | OutOfFuel

definition raising :: "('e \<Rightarrow> runtime_error) \<Rightarrow> 'e + 'a \<Rightarrow> engine_error + 'a" where
  "raising f m = (case m of Inl e \<Rightarrow> Err (Raised (f e)) | Inr x \<Rightarrow> Ok x)"

abbreviation of_core :: "core_error + 'a \<Rightarrow> engine_error + 'a" where
  "of_core \<equiv> raising CoreFailure"

abbreviation of_contract :: "contract_violation + 'a \<Rightarrow> engine_error + 'a" where
  "of_contract \<equiv> raising ContractFailure"

abbreviation of_runtime :: "runtime_error + 'a \<Rightarrow> engine_error + 'a" where
  "of_runtime \<equiv> raising (\<lambda>e. e)"

definition of_plan :: "plan_failure + 'a \<Rightarrow> engine_error + 'a" where
  "of_plan m = (case m of
      Inl (Refused e) \<Rightarrow> Err (Raised (CoreFailure e))
    | Inl Panic \<Rightarrow> Err Panicked
    | Inr x \<Rightarrow> Ok x)"

section \<open>The environment and the runtime\<close>

text \<open>The Machine's operations, the bound plugin host, and the selected execution binding.\<close>

record 'w runtime_env =
  re_host :: host
  re_decode :: plan_decoder
  re_compiles :: "json \<Rightarrow> bool"
  re_accepts :: "json \<Rightarrow> json \<Rightarrow> bool"
  re_insert_plan :: "sealed_plan \<Rightarrow> 'w \<Rightarrow> (core_error + unit) \<times> 'w"
  re_put_artifact :: "string \<Rightarrow> string \<Rightarrow> 'w \<Rightarrow> (core_error + artifact_ref) \<times> 'w"
  re_artifact :: "'w \<Rightarrow> artifact_ref \<Rightarrow> artifact_record option"
  re_material_digest :: "string \<Rightarrow> sealed_plan \<Rightarrow> artifact_record \<Rightarrow> artifact_record \<Rightarrow> core_error + string"
  re_submit :: "command_envelope \<Rightarrow> 'w \<Rightarrow> (core_error + receipt_status) \<times> 'w"
  re_projection :: "'w \<Rightarrow> projection"
  re_digest :: "projection \<Rightarrow> core_error + string"
  re_verify_replay :: "'w \<Rightarrow> core_error + unit"
  re_invoke_bound :: "plugin_request \<Rightarrow> 'w \<Rightarrow> (runtime_error + plugin_response) \<times> 'w"
  re_admit_plan :: "sealed_plan \<Rightarrow> runtime_error + unit"
  re_binding_bytes :: "runtime_error + string"
  re_binding_ref :: "runtime_error + artifact_ref"
  re_occurrence_binding :: "string \<Rightarrow> runtime_error + string"

record 'w runtime =
  rt_world :: 'w
  rt_command_sequence :: nat

section \<open>Sequencing with \<^verbatim>\<open>&mut self\<close>\<close>

text \<open>An action may change the runtime even when it fails.\<close>

type_synonym ('w, 'a) act = "'w runtime \<Rightarrow> (engine_error + 'a) \<times> 'w runtime"

definition aret :: "'a \<Rightarrow> ('w, 'a) act" where
  "aret x s = (Ok x, s)"

definition afail :: "engine_error \<Rightarrow> ('w, 'a) act" where
  "afail e s = (Err e, s)"

definition lifted :: "engine_error + 'a \<Rightarrow> ('w, 'a) act" where
  "lifted m s = (m, s)"

definition abind :: "('w, 'a) act \<Rightarrow> ('a \<Rightarrow> ('w, 'b) act) \<Rightarrow> ('w, 'b) act" where
  "abind m f s = (case m s of (Inl e, t) \<Rightarrow> (Err e, t) | (Inr x, t) \<Rightarrow> f x t)"

text \<open>A call into the world, its error left as a value or raised.\<close>

definition world_step :: "('w \<Rightarrow> 'r \<times> 'w) \<Rightarrow> ('w, 'r) act" where
  "world_step g s = (case g (rt_world s) of (r, w) \<Rightarrow> (Ok r, s\<lparr>rt_world := w\<rparr>))"

definition calling :: "('e \<Rightarrow> runtime_error) \<Rightarrow> ('w \<Rightarrow> ('e + 'a) \<times> 'w) \<Rightarrow> ('w, 'a) act" where
  "calling f g = abind (world_step g) (\<lambda>r. lifted (raising f r))"

text \<open>A read of \<^verbatim>\<open>self\<close>.\<close>

definition reading :: "('w runtime \<Rightarrow> engine_error + 'a) \<Rightarrow> ('w, 'a) act" where
  "reading g s = (g s, s)"

end
