(* ===== verification/Engine.thy ===== *)
theory Engine
  imports Engine_Host
begin

text \<open>
  The embedded runtime of \<^verbatim>\<open>crates/cymule-runtime/src/engine.rs\<close>: the interpreter of sealed Plans over
  the Machine and a plugin host, from request admission to the terminal result. Definitions follow the
  methods of \<^verbatim>\<open>EmbeddedRuntime\<close>; \<^verbatim>\<open>&mut environment\<close> is returned updated. The handlers receive the
  operands of their operation, so the branch in which a handler was given another operation is gone.
  Nested invocations consume fuel; \<open>Engine_Depth\<close> shows how much is enough.
\<close>

section \<open>Contexts and outcomes\<close>

type_synonym environment = "(string, json) fmap"

record pending_effect =
  pe_intent_id :: string
  pe_operation :: string
  pe_input :: json
  pe_dispatch :: dispatch_policy

datatype region_outcome =
    RegionCompleted json "pending_effect list"
  | RegionSuspended suspension_boundary
  | RegionReconciliationRequired string

record region_execution =
  rx_run_id :: string
  rx_plan :: sealed_plan
  rx_contracts :: plan_contracts
  rx_input :: json
  rx_scope_id :: string
  rx_invocation_id :: string
  rx_invocation_path :: "invocation_path_segment list"
  rx_definition_id :: string
  rx_region_path :: "nat list"
  rx_result_definition :: "string option"

text \<open>\<^verbatim>\<open>RegionStepOutcome\<close>; a step that continues also hands back the environment.\<close>

datatype region_step_outcome =
    Continue "pending_effect list" environment
  | Return region_outcome

datatype effect_dispatch_outcome =
    DispatchSettled "json option"
  | DispatchReconciliationRequired string

record effect_dispatch =
  ed_run_id :: string
  ed_contracts :: plan_contracts
  ed_operation :: string
  ed_intent_id :: string
  ed_input :: json
  ed_provider_attempt :: provider_attempt

datatype pending_dispatch_outcome =
    PendingSettled "pending_effect list"
  | PendingReconciliationRequired string

record execution_result =
  er_run_id :: string
  er_plan_id :: string
  er_value :: json
  er_projection_digest :: string
  er_precondition_token :: string
  er_effects :: "string list"

text \<open>The last two carry the Run, the Plan and the exact intents.\<close>

datatype execution_outcome =
    ExecutionCompleted execution_result
  | ExecutionSuspended suspension_boundary
  | ExecutionReleaseRequired string string "string list"
  | ExecutionReconciliationRequired string string string

section \<open>Expressions\<close>

fun evaluate :: "expression \<Rightarrow> json \<Rightarrow> environment \<Rightarrow> engine_error + json" where
  "evaluate ExInput input environment = Ok input"
| "evaluate (ExLiteral v) input environment = Ok v"
| "evaluate (ExBinding name) input environment =
     ok_or (Internal (UnavailableBinding name)) (fmlookup environment name)"
| "evaluate (ExObject fs) input environment =
     rbind (rmap (\<lambda>f. rbind (evaluate (snd f) input environment) (\<lambda>v. Ok (fst f, v))) fs) (\<lambda>kvs. Ok (JObj kvs))"
| "evaluate (ExArray items) input environment =
     rbind (rmap (\<lambda>e. evaluate e input environment) items) (\<lambda>vs. Ok (JArr vs))"

section \<open>Commands\<close>

text \<open>The decimal digits of \<^verbatim>\<open>format!\<close>.\<close>

fun decimal :: "nat \<Rightarrow> string" where
  "decimal n = (if n < 10 then [char_of (48 + n)] else decimal (n div 10) @ [char_of (48 + n mod 10)])"

declare decimal.simps [simp del]

definition precondition_token :: "run_projection \<Rightarrow> string" where
  "precondition_token run = ''pre:'' @ decimal (rn_epoch run) @ '':'' @ rn_last_event run"

definition next_embedded_command_sequence :: "nat \<Rightarrow> engine_error + nat" where
  "next_embedded_command_sequence current = ok_or (Internal CommandSequenceExhausted) (exact_add current 1)"

definition next_command_id :: "'w runtime_env \<Rightarrow> string \<Rightarrow> ('w, string) act" where
  "next_command_id E run_id s =
     (case next_embedded_command_sequence (rt_command_sequence s) of
        Inl e \<Rightarrow> (Err e, s)
      | Inr n \<Rightarrow>
          (of_core (content_id (re_host E) COMMAND_VERSION
             (JArr [JStr ''embedded-runtime'', JStr run_id, JInt (int n)])),
           s\<lparr>rt_command_sequence := n\<rparr>))"

definition find_run :: "'w runtime_env \<Rightarrow> string \<Rightarrow> ('w, run_projection) act" where
  "find_run E run_id =
     reading (\<lambda>s. ok_or (Internal RunMissing) (fmlookup (pj_runs (re_projection E (rt_world s))) run_id))"

definition submit_with_id :: "'w runtime_env \<Rightarrow> string \<Rightarrow> string \<Rightarrow> command \<Rightarrow> ('w, unit) act" where
  "submit_with_id E run_id command_id command =
     abind (case command of
         StartRun _ _ _ _ _ \<Rightarrow> aret None
       | _ \<Rightarrow> abind (find_run E run_id) (\<lambda>run. aret (Some (precondition_token run)))) (\<lambda>expected_precondition.
     abind (calling CoreFailure (re_submit E
        \<lparr>cm_command_version = COMMAND_VERSION, cm_command_id = command_id, cm_actor = ''actor:embedded-runtime'',
         cm_run_id = run_id, cm_expected_precondition = expected_precondition, cm_command = command\<rparr>)) (\<lambda>status.
     if status \<noteq> ReceiptApplied then afail (Internal CommandConflicted) else aret ()))"

definition submit :: "'w runtime_env \<Rightarrow> string \<Rightarrow> command \<Rightarrow> ('w, unit) act" where
  "submit E run_id command =
     abind (next_command_id E run_id) (\<lambda>command_id. submit_with_id E run_id command_id command)"

definition submit_start_run ::
  "'w runtime_env \<Rightarrow> string \<Rightarrow> sealed_plan \<Rightarrow> artifact_ref \<Rightarrow> artifact_ref \<Rightarrow> string \<Rightarrow> initial_attempt_spec
    \<Rightarrow> ('w, unit) act" where
  "submit_start_run E run_id plan binding input binding_context initial_attempt =
     abind (next_command_id E run_id) (\<lambda>command_id.
     abind (reading (\<lambda>s. ok_or (Internal BindingArtifactMissing) (re_artifact E (rt_world s) binding))) (\<lambda>binding_record.
     abind (reading (\<lambda>s. ok_or (Internal InputArtifactMissing) (re_artifact E (rt_world s) input))) (\<lambda>input_record.
     abind (lifted (of_core (re_material_digest E command_id plan binding_record input_record))) (\<lambda>material_digest.
     submit_with_id E run_id command_id
       (StartRun (sl_plan_id plan) binding_context input material_digest initial_attempt)))))"

definition EMBEDDED_CONTINUATION_ID_DOMAIN :: string where
  "EMBEDDED_CONTINUATION_ID_DOMAIN = ''cymule.embedded-continuation/1''"

definition EMBEDDED_ATTEMPT_ID_DOMAIN :: string where
  "EMBEDDED_ATTEMPT_ID_DOMAIN = ''cymule.embedded-attempt/1''"

definition root_continuation_id :: "host \<Rightarrow> string \<Rightarrow> engine_error + string" where
  "root_continuation_id h run_id =
     of_core (content_id h EMBEDDED_CONTINUATION_ID_DOMAIN (JObj [(''run_id'', JStr run_id), (''role'', JStr ''root'')]))"

definition root_attempt_id :: "host \<Rightarrow> string \<Rightarrow> engine_error + string" where
  "root_attempt_id h run_id =
     rbind (root_continuation_id h run_id) (\<lambda>continuation_id.
     of_core (content_id h EMBEDDED_ATTEMPT_ID_DOMAIN
       (JObj [(''continuation_id'', JStr continuation_id), (''continuation_epoch'', JInt 0), (''execution_fence'', JInt 1)])))"

definition yield_root_attempt :: "'w runtime_env \<Rightarrow> string \<Rightarrow> ('w, unit) act" where
  "yield_root_attempt E run_id =
     abind (lifted (root_attempt_id (re_host E) run_id)) (\<lambda>attempt_id.
     submit E run_id (YieldAttempt attempt_id 0 1))"

section \<open>Plugin calls\<close>

definition plugin_failure_verify :: "plugin_failure \<Rightarrow> engine_error + unit" where
  "plugin_failure_verify failure =
     (if validate_failure_code (pl_code failure) \<noteq> Ok () then Err (Internal FailureNotClosed)
      else if pl_message failure = []
        \<or> 2000 < length (filter (\<lambda>c. \<not> is_continuation_byte c) (pl_message failure))
        \<or> has_control (pl_message failure) then Err (Internal FailureNotClosed)
      else Ok ())"

definition json_of_plugin_failure :: "plugin_failure \<Rightarrow> json" where
  "json_of_plugin_failure failure =
     JObj [(''code'', JStr (pl_code failure)), (''message'', JStr (pl_message failure))]"

definition plugin_reported_defect :: "string \<Rightarrow> string \<Rightarrow> engine_error + runtime_error" where
  "plugin_reported_defect c message =
     rbind (plugin_failure_verify \<lparr>pl_code = c, pl_message = message\<rparr>) (\<lambda>_. Ok (PluginDefect c message))"

definition expected_failure :: "'w runtime_env \<Rightarrow> string \<Rightarrow> plugin_failure \<Rightarrow> ('w, runtime_error) act" where
  "expected_failure E run_id error =
     abind (lifted (plugin_failure_verify error)) (\<lambda>_.
     abind (lifted (of_core (canonical_bytes (re_host E) (json_of_plugin_failure error)))) (\<lambda>bytes.
     abind (calling CoreFailure (re_put_artifact E DECLARED_FAILURE_ARTIFACT_KIND bytes)) (\<lambda>detail.
     abind (submit E run_id (FailRun \<lparr>rf_class = DeclaredFailure, rf_code = pl_code error, rf_detail = detail\<rparr>)) (\<lambda>_.
     aret (ExpectedPluginFailure error)))))"

definition invoke_bound :: "'w runtime_env \<Rightarrow> plugin_request \<Rightarrow> ('w, plugin_response) act" where
  "invoke_bound E request = calling (\<lambda>e. e) (re_invoke_bound E request)"

definition invoke_effect_prepare :: "'w runtime_env \<Rightarrow> string \<Rightarrow> string \<Rightarrow> json \<Rightarrow> ('w, unit) act" where
  "invoke_effect_prepare E effect intent_id v =
     abind (invoke_bound E (PrepareEffect effect intent_id v)) (\<lambda>response.
     case response of
       PreparedResponse \<Rightarrow> aret ()
     | ExpectedFailure error \<Rightarrow> afail (Internal PrepareExpectedFailure)
     | DefectResponse c message \<Rightarrow> abind (lifted (plugin_reported_defect c message)) (\<lambda>e. afail (Raised e))
     | _ \<Rightarrow> afail (Internal InvalidPrepareResponse))"

definition effect_provider_attempt_id :: "host \<Rightarrow> string \<Rightarrow> string \<Rightarrow> nat \<Rightarrow> engine_error + string" where
  "effect_provider_attempt_id h intent_id claim_owner claim_epoch =
     rbind (if validate_content_id intent_id \<noteq> Ok () then Err (Internal InvalidIntent) else Ok ()) (\<lambda>_.
     rbind (of_core (validate_identity claim_owner)) (\<lambda>_.
     if claim_epoch = 0 \<or> MAX_EXACT_INTEGER < claim_epoch then Err (Internal InvalidClaimEpoch)
     else of_core (content_id h EFFECT_PROVIDER_ATTEMPT_VERSION
            (JArr [JStr intent_id, JStr claim_owner, JInt (int claim_epoch)]))))"

definition provider_attempt_new :: "host \<Rightarrow> string \<Rightarrow> string \<Rightarrow> nat \<Rightarrow> engine_error + provider_attempt" where
  "provider_attempt_new h intent_id claim_owner claim_epoch =
     rbind (effect_provider_attempt_id h intent_id claim_owner claim_epoch) (\<lambda>attempt_id.
     Ok \<lparr>pa_attempt_version = EFFECT_PROVIDER_ATTEMPT_VERSION, pa_attempt_id = attempt_id,
         pa_claim_owner = claim_owner, pa_claim_epoch = claim_epoch\<rparr>)"

section \<open>Dispatch\<close>

definition validate_optional_effect_output ::
  "'w runtime_env \<Rightarrow> plan_contracts \<Rightarrow> string \<Rightarrow> world_outcome \<Rightarrow> json option \<Rightarrow> contract_violation + unit" where
  "validate_optional_effect_output E contracts operation outcome v =
     (case v of
        Some v \<Rightarrow> validate_effect_output (re_accepts E) contracts operation v
      | None \<Rightarrow>
          if outcome = Applied then validate_effect_output (re_accepts E) contracts operation JNull else Ok ())"

definition validate_optional_reconciliation_output ::
  "'w runtime_env \<Rightarrow> plan_contracts \<Rightarrow> string \<Rightarrow> reconciliation_resolution \<Rightarrow> json option
    \<Rightarrow> contract_violation + unit" where
  "validate_optional_reconciliation_output E contracts operation resolution v =
     (case v of
        Some v \<Rightarrow> validate_effect_output (re_accepts E) contracts operation v
      | None \<Rightarrow>
          if resolution = ResolvedApplied then validate_effect_output (re_accepts E) contracts operation JNull
          else Ok ())"

definition observe_unknown :: "'w runtime_env \<Rightarrow> string \<Rightarrow> string \<Rightarrow> ('w, unit) act" where
  "observe_unknown E run_id intent_id = submit E run_id (TransitionEffect intent_id (Observe Unknown))"

definition invoke_effect_dispatch ::
  "'w runtime_env \<Rightarrow> effect_dispatch \<Rightarrow> ('w, (world_outcome \<times> json option) option) act" where
  "invoke_effect_dispatch E dispatch =
     abind (world_step (re_invoke_bound E
        (DispatchEffect (ed_operation dispatch) (ed_intent_id dispatch) (ed_provider_attempt dispatch) (ed_input dispatch))))
     (\<lambda>response.
      case response of
        Inr (EffectResult attempt outcome v) \<Rightarrow>
          if attempt \<noteq> ed_provider_attempt dispatch
             \<or> validate_optional_effect_output E (ed_contracts dispatch) (ed_operation dispatch) outcome v \<noteq> Ok ()
          then abind (observe_unknown E (ed_run_id dispatch) (ed_intent_id dispatch)) (\<lambda>_. aret None)
          else aret (Some (outcome, v))
      | _ \<Rightarrow> abind (observe_unknown E (ed_run_id dispatch) (ed_intent_id dispatch)) (\<lambda>_. aret None))"

text \<open>The reconciliation mode the Machine's projection records for the intent.\<close>

definition projected_reconciliation :: "projection \<Rightarrow> string \<Rightarrow> string \<Rightarrow> reconciliation_mode option" where
  "projected_reconciliation p run_id intent_id =
     Option.bind (fmlookup (pj_runs p) run_id) (\<lambda>run.
     map_option (\<lambda>effect. pf_reconciliation (ep_profile effect)) (fmlookup (rn_effects run) intent_id))"

definition reconcile_unknown_effect ::
  "'w runtime_env \<Rightarrow> effect_dispatch \<Rightarrow> json option \<Rightarrow> ('w, effect_dispatch_outcome) act" where
  "reconcile_unknown_effect E dispatch observed_value =
     abind (reading (\<lambda>s. ok_or (Internal EffectProjectionMissing)
        (projected_reconciliation (re_projection E (rt_world s)) (ed_run_id dispatch) (ed_intent_id dispatch)))) (\<lambda>mode.
     if mode \<noteq> Queryable then aret (DispatchReconciliationRequired (ed_intent_id dispatch))
     else
     abind (world_step (re_invoke_bound E
        (ReconcileEffect (ed_operation dispatch) (ed_intent_id dispatch) (ed_provider_attempt dispatch) ObserveState None
          (ed_input dispatch)))) (\<lambda>response.
     case response of
       Inl (PluginDefect c message) \<Rightarrow>
         if c = ''invalid_reconciliation_resolution'' then afail (Raised (PluginDefect c message))
         else aret (DispatchReconciliationRequired (ed_intent_id dispatch))
     | Inr (ReconciliationResult attempt resolution v) \<Rightarrow>
         if attempt \<noteq> ed_provider_attempt dispatch
            \<or> validate_optional_reconciliation_output E (ed_contracts dispatch) (ed_operation dispatch) resolution v \<noteq> Ok ()
         then aret (DispatchReconciliationRequired (ed_intent_id dispatch))
         else if resolution = ResolutionGovernanceRequired then afail (Internal InvalidReconciliation)
         else
          abind (submit E (ed_run_id dispatch) (TransitionEffect (ed_intent_id dispatch) (Reconcile resolution))) (\<lambda>_.
          case resolution of
            ResolvedApplied \<Rightarrow> aret (DispatchSettled (case v of Some x \<Rightarrow> Some x | None \<Rightarrow> observed_value))
          | ResolvedNotApplied \<Rightarrow> aret (DispatchSettled None)
          | StillUnknown \<Rightarrow> aret (DispatchReconciliationRequired (ed_intent_id dispatch))
          | ResolutionGovernanceRequired \<Rightarrow> afail (Internal InvalidReconciliation))
     | _ \<Rightarrow> aret (DispatchReconciliationRequired (ed_intent_id dispatch))))"

definition dispatch_effect ::
  "'w runtime_env \<Rightarrow> string \<Rightarrow> plan_contracts \<Rightarrow> string \<Rightarrow> string \<Rightarrow> json \<Rightarrow> ('w, effect_dispatch_outcome) act" where
  "dispatch_effect E run_id contracts operation intent_id input =
     abind (lifted (of_contract (validate_effect_input (re_accepts E) contracts operation input))) (\<lambda>_.
     abind (submit E run_id (TransitionEffect intent_id AuthorizeRelease)) (\<lambda>_.
     abind (submit E run_id (TransitionEffect intent_id StartDispatch)) (\<lambda>_.
     abind (lifted (provider_attempt_new (re_host E) intent_id ''runtime:embedded'' 1)) (\<lambda>provider_attempt.
     let dispatch = \<lparr>ed_run_id = run_id, ed_contracts = contracts, ed_operation = operation, ed_intent_id = intent_id,
                     ed_input = input, ed_provider_attempt = provider_attempt\<rparr> in
     abind (invoke_effect_dispatch E dispatch) (\<lambda>observed.
     case observed of
       None \<Rightarrow> aret (DispatchReconciliationRequired intent_id)
     | Some (outcome, v) \<Rightarrow>
         abind (submit E run_id (TransitionEffect intent_id (Observe outcome))) (\<lambda>_.
         if outcome = Unknown then reconcile_unknown_effect E dispatch v
         else aret (DispatchSettled v)))))))"

text \<open>The loop over pending Effects, with the explicit ones put aside.\<close>

fun dispatch_each ::
  "'w runtime_env \<Rightarrow> string \<Rightarrow> plan_contracts \<Rightarrow> pending_effect list \<Rightarrow> pending_effect list
    \<Rightarrow> ('w, pending_dispatch_outcome) act" where
  "dispatch_each E run_id contracts [] explicit = aret (PendingSettled explicit)"
| "dispatch_each E run_id contracts (effect # pending) explicit =
     (if pe_dispatch effect = Explicit then dispatch_each E run_id contracts pending (explicit @ [effect])
      else
       abind (dispatch_effect E run_id contracts (pe_operation effect) (pe_intent_id effect) (pe_input effect)) (\<lambda>result.
       case result of
         DispatchSettled _ \<Rightarrow> dispatch_each E run_id contracts pending explicit
       | DispatchReconciliationRequired intent_id \<Rightarrow> aret (PendingReconciliationRequired intent_id)))"

definition dispatch_pending ::
  "'w runtime_env \<Rightarrow> string \<Rightarrow> plan_contracts \<Rightarrow> pending_effect list \<Rightarrow> ('w, pending_dispatch_outcome) act" where
  "dispatch_pending E run_id contracts pending = dispatch_each E run_id contracts pending []"

section \<open>Steps\<close>

definition find_definition :: "sealed_plan \<Rightarrow> string \<Rightarrow> flow_definition option" where
  "find_definition plan i = find (\<lambda>d. df_id d = i) (pn_definitions (sl_candidate plan))"

definition find_effect :: "sealed_plan \<Rightarrow> string \<Rightarrow> effect_contract option" where
  "find_effect plan i = find (\<lambda>c. ec_id c = i) (pn_effects (sl_candidate plan))"

definition bind_value :: "string option \<Rightarrow> json \<Rightarrow> environment \<Rightarrow> environment" where
  "bind_value bind v environment = (case bind of None \<Rightarrow> environment | Some b \<Rightarrow> fmupd b v environment)"

definition execute_call_step ::
  "'w runtime_env \<Rightarrow> region_execution \<Rightarrow> string \<Rightarrow> expression \<Rightarrow> string option \<Rightarrow> environment
    \<Rightarrow> ('w, environment) act" where
  "execute_call_step E context component expression bind environment =
     abind (lifted (evaluate expression (rx_input context) environment)) (\<lambda>input.
     abind (lifted (of_contract (validate_component_input (re_accepts E) (rx_contracts context) component input))) (\<lambda>_.
     abind (invoke_bound E (CallRequest component input)) (\<lambda>response.
     abind (case response of
         CallResult v \<Rightarrow> aret v
       | ExpectedFailure error \<Rightarrow> abind (expected_failure E (rx_run_id context) error) (\<lambda>e. afail (Raised e))
       | DefectResponse c message \<Rightarrow> abind (lifted (plugin_reported_defect c message)) (\<lambda>e. afail (Raised e))
       | _ \<Rightarrow> afail (Internal InvalidCallResponse)) (\<lambda>v.
     abind (lifted (of_contract (validate_component_output (re_accepts E) (rx_contracts context) component v))) (\<lambda>_.
     aret (bind_value bind v environment))))))"

definition prepare_effect ::
  "'w runtime_env \<Rightarrow> region_execution \<Rightarrow> string \<Rightarrow> string \<Rightarrow> expression \<Rightarrow> string \<Rightarrow> environment
    \<Rightarrow> ('w, pending_effect \<times> bool) act" where
  "prepare_effect E context site_id effect expression occurrence environment =
     abind (lifted (evaluate expression (rx_input context) environment)) (\<lambda>v.
     abind (lifted (of_contract (validate_effect_input (re_accepts E) (rx_contracts context) effect v))) (\<lambda>_.
     abind (lifted (of_core (canonical_bytes (re_host E) v))) (\<lambda>bytes.
     abind (calling CoreFailure (re_put_artifact E EFFECT_ARGS_ARTIFACT_KIND bytes)) (\<lambda>args.
     abind (lifted (of_runtime (re_occurrence_binding E effect))) (\<lambda>occurrence_binding.
     abind (lifted (of_core (effect_intent_id (re_host E)
        \<lparr>ii_run_id = rx_run_id context, ii_plan_id = sl_plan_id (rx_plan context),
         ii_invocation_id = rx_invocation_id context, ii_site_id = site_id, ii_scope_id = rx_scope_id context,
         ii_occurrence = occurrence, ii_args = args, ii_effect_schema_version = EFFECT_SCHEMA_VERSION\<rparr>))) (\<lambda>intent_id.
     abind (lifted (of_runtime (re_binding_ref E))) (\<lambda>execution_binding.
     abind (submit E (rx_run_id context)
        (ProposeEffect (rx_scope_id context) (rx_invocation_id context) (rx_invocation_path context)
          (rx_definition_id context) (rx_region_path context) site_id occurrence effect args execution_binding
          occurrence_binding)) (\<lambda>_.
     abind (invoke_effect_prepare E effect intent_id v) (\<lambda>_.
     abind (submit E (rx_run_id context) (TransitionEffect intent_id Prepare)) (\<lambda>_.
     abind (lifted (ok_or (Internal EffectContractMissing) (find_effect (rx_plan context) effect))) (\<lambda>contract.
     aret (\<lparr>pe_intent_id = intent_id, pe_operation = effect, pe_input = v,
            pe_dispatch = pf_dispatch (ec_profile contract)\<rparr>,
           pf_mutation (ec_profile contract) = Observational \<and> pf_dispatch (ec_profile contract) = Eager))))))))))))"

text \<open>A settled observation without a value leaves its binding unset.\<close>

definition execute_effect_step ::
  "'w runtime_env \<Rightarrow> region_execution \<Rightarrow> string \<Rightarrow> string \<Rightarrow> expression \<Rightarrow> string \<Rightarrow> string option \<Rightarrow> environment
    \<Rightarrow> ('w, region_step_outcome) act" where
  "execute_effect_step E context site_id effect expression occurrence bind environment =
     abind (prepare_effect E context site_id effect expression occurrence environment) (\<lambda>(pending, eager_observational).
     if \<not> eager_observational then aret (Continue [pending] environment)
     else
     abind (dispatch_effect E (rx_run_id context) (rx_contracts context) effect (pe_intent_id pending) (pe_input pending))
      (\<lambda>outcome.
       case outcome of
         DispatchSettled result \<Rightarrow>
           aret (Continue [] (case (bind, result) of
             (Some b, Some v) \<Rightarrow> fmupd b v environment | _ \<Rightarrow> environment))
       | DispatchReconciliationRequired intent_id \<Rightarrow> aret (Return (RegionReconciliationRequired intent_id))))"

text \<open>\<^verbatim>\<open>execute_region\<close>, its loop, and the two steps that enter another region.\<close>

function execute_region ::
  "'w runtime_env \<Rightarrow> nat \<Rightarrow> region \<Rightarrow> region_execution \<Rightarrow> environment \<Rightarrow> ('w, region_outcome) act"
and execute_steps ::
  "'w runtime_env \<Rightarrow> nat \<Rightarrow> nat \<Rightarrow> step list \<Rightarrow> region_execution \<Rightarrow> pending_effect list \<Rightarrow> environment
    \<Rightarrow> ('w, region_step_outcome) act"
and execute_invoke_step ::
  "'w runtime_env \<Rightarrow> nat \<Rightarrow> region_execution \<Rightarrow> string \<Rightarrow> string \<Rightarrow> expression \<Rightarrow> string option \<Rightarrow> environment
    \<Rightarrow> ('w, region_step_outcome) act"
and execute_scope_step ::
  "'w runtime_env \<Rightarrow> nat \<Rightarrow> region_execution \<Rightarrow> nat \<Rightarrow> string \<Rightarrow> region \<Rightarrow> string option \<Rightarrow> environment
    \<Rightarrow> ('w, region_step_outcome) act" where
  "execute_region E fuel (Region steps result) context environment =
     abind (execute_steps E fuel 0 steps context [] environment) (\<lambda>outcome.
     case outcome of
       Return outcome \<Rightarrow> aret outcome
     | Continue pending environment \<Rightarrow>
         abind (lifted (evaluate result (rx_input context) environment)) (\<lambda>v.
         abind (case rx_result_definition context of
             None \<Rightarrow> aret ()
           | Some d \<Rightarrow> lifted (of_contract (validate_definition_output (re_accepts E) (rx_contracts context) d v))) (\<lambda>_.
         aret (RegionCompleted v pending))))"
| "execute_steps E fuel step_index [] context pending environment = aret (Continue pending environment)"
| "execute_steps E fuel step_index (Step i op # steps) context pending environment =
     abind (case op of
         OpCall component input bind \<Rightarrow>
           abind (execute_call_step E context component input bind environment) (\<lambda>environment.
           aret (Continue [] environment))
       | OpInvoke target input bind \<Rightarrow> execute_invoke_step E fuel context i target input bind environment
       | OpWait wait bind \<Rightarrow>
           aret (Return (RegionSuspended \<lparr>sb_run_id = [], sb_plan_id = [], sb_definition_id = rx_definition_id context,
             sb_invocation_id = rx_invocation_id context, sb_site_id = i, sb_wait = wait, sb_result_bind = bind\<rparr>))
       | OpEffect effect input occurrence bind \<Rightarrow>
           execute_effect_step E context i effect input occurrence bind environment
       | OpScope body bind \<Rightarrow> execute_scope_step E fuel context step_index i body bind environment) (\<lambda>outcome.
     case outcome of
       Return outcome \<Rightarrow> aret (Return outcome)
     | Continue child_pending environment \<Rightarrow>
         execute_steps E fuel (Suc step_index) steps context (pending @ child_pending) environment)"
| "execute_invoke_step E fuel context i target expression bind environment =
     abind (lifted (evaluate expression (rx_input context) environment)) (\<lambda>v.
     abind (lifted (ok_or (Internal InvokedDefinitionMissing) (find_definition (rx_plan context) target))) (\<lambda>d.
     abind (lifted (of_contract (validate_definition_input (re_accepts E) (rx_contracts context) target v))) (\<lambda>_.
     let child_path = rx_invocation_path context @
           [\<lparr>ip_site_id = i, ip_region_path = rx_region_path context, ip_scope_id = rx_scope_id context\<rparr>] in
     abind (lifted (of_core (plan_invocation_id (re_host E) (rx_run_id context) (sl_plan_id (rx_plan context))
        (pn_entry (sl_candidate (rx_plan context))) child_path))) (\<lambda>child_invocation.
     abind (case fuel of
         0 \<Rightarrow> afail OutOfFuel
       | Suc fuel \<Rightarrow>
           execute_region E fuel (df_body d)
             (context\<lparr>rx_input := v, rx_invocation_id := child_invocation, rx_invocation_path := child_path,
               rx_definition_id := target, rx_region_path := [], rx_result_definition := Some target\<rparr>) fmempty) (\<lambda>child.
     case child of
       RegionCompleted child_value child_pending \<Rightarrow>
         aret (Continue child_pending (bind_value bind child_value environment))
     | _ \<Rightarrow> aret (Return child))))))"
| "execute_scope_step E fuel context step_index i body bind environment =
     (let child_path = rx_region_path context @ [step_index] in
     abind (lifted (of_core (plan_scope_id (re_host E) (rx_run_id context) (sl_plan_id (rx_plan context))
        (rx_invocation_id context) (rx_definition_id context) child_path))) (\<lambda>child_scope.
     abind (submit E (rx_run_id context)
        (OpenScope child_scope (rx_scope_id context) (rx_invocation_id context) (rx_invocation_path context)
          (rx_definition_id context) (rx_region_path context) i)) (\<lambda>_.
     abind (execute_region E fuel body
        (context\<lparr>rx_scope_id := child_scope, rx_region_path := child_path, rx_result_definition := None\<rparr>) environment) (\<lambda>child.
     case child of
       RegionCompleted child_value child_pending \<Rightarrow>
         abind (submit E (rx_run_id context) (CommitScope child_scope)) (\<lambda>_.
         abind (dispatch_pending E (rx_run_id context) (rx_contracts context) child_pending) (\<lambda>dispatched.
         case dispatched of
           PendingSettled child_pending \<Rightarrow> aret (Continue child_pending (bind_value bind child_value environment))
         | PendingReconciliationRequired intent_id \<Rightarrow> aret (Return (RegionReconciliationRequired intent_id))))
     | _ \<Rightarrow> aret (Return child)))))"
  by pat_completeness auto

termination
  by (relation "measures [\<lambda>x. case x of
        Inl (Inl (E, fuel, r, c, e)) \<Rightarrow> fuel | Inl (Inr (E, fuel, k, ss, c, p, e)) \<Rightarrow> fuel
      | Inr (Inl (E, fuel, c, i, t, ex, b, e)) \<Rightarrow> fuel | Inr (Inr (E, fuel, c, k, i, r, b, e)) \<Rightarrow> fuel,
      \<lambda>x. case x of
        Inl (Inl (E, fuel, r, c, e)) \<Rightarrow> size r | Inl (Inr (E, fuel, k, ss, c, p, e)) \<Rightarrow> size_list size ss
      | Inr (Inl (E, fuel, c, i, t, ex, b, e)) \<Rightarrow> 0 | Inr (Inr (E, fuel, c, k, i, r, b, e)) \<Rightarrow> Suc (size r)]") auto

declare execute_region.simps [simp del] execute_steps.simps [simp del] execute_invoke_step.simps [simp del]
  execute_scope_step.simps [simp del]

section \<open>Admission\<close>

definition verify_plan :: "'w runtime_env \<Rightarrow> sealed_plan \<Rightarrow> engine_error + plan_contracts" where
  "verify_plan E plan =
     rbind (of_plan (verify_sealed (re_host E) (re_decode E) (re_compiles E) plan)) (\<lambda>_.
     of_contract (compile_contracts (re_compiles E) (sl_candidate plan)))"

definition admit_execution_request ::
  "'w runtime_env \<Rightarrow> sealed_plan \<Rightarrow> json \<Rightarrow> string \<Rightarrow> engine_error + (plan_contracts \<times> flow_definition)" where
  "admit_execution_request E plan input run_id =
     rbind (of_core (validate_identity run_id)) (\<lambda>_.
     rbind (verify_plan E plan) (\<lambda>contracts.
     rbind (ok_or (Internal EntryDisappeared) (find_definition plan (pn_entry (sl_candidate plan)))) (\<lambda>d.
     rbind (of_contract (validate_definition_input (re_accepts E) contracts (df_id d) input)) (\<lambda>_.
     Ok (contracts, d)))))"

definition prepare_execution ::
  "'w runtime_env \<Rightarrow> sealed_plan \<Rightarrow> json \<Rightarrow> string \<Rightarrow> ('w, plan_contracts \<times> flow_definition) act" where
  "prepare_execution E plan input run_id =
     abind (lifted (admit_execution_request E plan input run_id)) (\<lambda>(contracts, d).
     abind (lifted (of_runtime (re_admit_plan E plan))) (\<lambda>_.
     abind (calling CoreFailure (re_insert_plan E plan)) (\<lambda>_.
     abind (lifted (of_runtime (re_binding_bytes E))) (\<lambda>binding_bytes.
     abind (calling CoreFailure (re_put_artifact E EXECUTION_BINDING_ARTIFACT_KIND binding_bytes)) (\<lambda>binding_ref.
     abind (lifted (of_runtime (re_binding_ref E))) (\<lambda>expected_ref.
     if binding_ref \<noteq> expected_ref then afail (Internal BindingIdentityInconsistent)
     else
     abind (lifted (of_core (canonical_bytes (re_host E) input))) (\<lambda>input_bytes.
     abind (calling CoreFailure (re_put_artifact E RUN_INPUT_ARTIFACT_KIND input_bytes)) (\<lambda>input_ref.
     abind (lifted (root_attempt_id (re_host E) run_id)) (\<lambda>attempt_id.
     abind (lifted (root_continuation_id (re_host E) run_id)) (\<lambda>continuation_id.
     abind (submit_start_run E run_id plan binding_ref input_ref (ar_artifact_id binding_ref)
        \<lparr>ia_attempt_id = attempt_id, ia_continuation_id = continuation_id,
         ia_occurrence_binding = ar_artifact_id binding_ref, ia_continuation_epoch = 0, ia_execution_fence = 1\<rparr>) (\<lambda>_.
     aret (contracts, d))))))))))))"

section \<open>Execution\<close>

definition execute_root_region ::
  "'w runtime_env \<Rightarrow> nat \<Rightarrow> string \<Rightarrow> sealed_plan \<Rightarrow> plan_contracts \<Rightarrow> flow_definition \<Rightarrow> json
    \<Rightarrow> ('w, region_outcome) act" where
  "execute_root_region E fuel run_id plan contracts d input =
     abind (lifted (of_core (plan_invocation_id (re_host E) run_id (sl_plan_id plan) (pn_entry (sl_candidate plan)) [])))
      (\<lambda>root_invocation.
       execute_region E fuel (df_body d)
         \<lparr>rx_run_id = run_id, rx_plan = plan, rx_contracts = contracts, rx_input = input, rx_scope_id = ROOT_SCOPE_ID,
          rx_invocation_id = root_invocation, rx_invocation_path = [], rx_definition_id = df_id d, rx_region_path = [],
          rx_result_definition = Some (df_id d)\<rparr> fmempty)"

definition verify_replay :: "'w runtime_env \<Rightarrow> ('w, unit) act" where
  "verify_replay E = reading (\<lambda>s. of_core (re_verify_replay E (rt_world s)))"

definition reconciliation_outcome ::
  "'w runtime_env \<Rightarrow> string \<Rightarrow> string \<Rightarrow> string \<Rightarrow> ('w, execution_outcome) act" where
  "reconciliation_outcome E run_id plan_id intent_id =
     abind (yield_root_attempt E run_id) (\<lambda>_.
     abind (verify_replay E) (\<lambda>_.
     aret (ExecutionReconciliationRequired run_id plan_id intent_id)))"

definition finish_completed_execution ::
  "'w runtime_env \<Rightarrow> string \<Rightarrow> string \<Rightarrow> plan_contracts \<Rightarrow> json \<Rightarrow> pending_effect list
    \<Rightarrow> ('w, execution_outcome) act" where
  "finish_completed_execution E run_id plan_id contracts v pending =
     abind (submit E run_id (CommitScope ROOT_SCOPE_ID)) (\<lambda>_.
     abind (dispatch_pending E run_id contracts pending) (\<lambda>dispatched.
     case dispatched of
       PendingReconciliationRequired intent_id \<Rightarrow> reconciliation_outcome E run_id plan_id intent_id
     | PendingSettled pending \<Rightarrow>
         let explicit = remdups_adj (sort (map pe_intent_id pending)) in
         if explicit \<noteq> [] then
           abind (yield_root_attempt E run_id) (\<lambda>_.
           abind (verify_replay E) (\<lambda>_.
           aret (ExecutionReleaseRequired run_id plan_id explicit)))
         else
           abind (yield_root_attempt E run_id) (\<lambda>_.
           abind (lifted (of_core (canonical_bytes (re_host E) v))) (\<lambda>result_bytes.
           abind (calling CoreFailure (re_put_artifact E RESULT_ARTIFACT_KIND result_bytes)) (\<lambda>result_ref.
           abind (submit E run_id (CompleteRun (Some result_ref))) (\<lambda>_.
           abind (verify_replay E) (\<lambda>_.
           abind (find_run E run_id) (\<lambda>run.
           abind (reading (\<lambda>s. of_core (re_digest E (re_projection E (rt_world s))))) (\<lambda>digest.
           aret (ExecutionCompleted \<lparr>er_run_id = run_id, er_plan_id = plan_id, er_value = v, er_projection_digest = digest,
             er_precondition_token = precondition_token run, er_effects = map fst (entries_of (rn_effects run))\<rparr>))))))))))"

definition finish_execution ::
  "'w runtime_env \<Rightarrow> string \<Rightarrow> sealed_plan \<Rightarrow> plan_contracts \<Rightarrow> region_outcome \<Rightarrow> ('w, execution_outcome) act" where
  "finish_execution E run_id plan contracts outcome =
     (case outcome of
        RegionSuspended suspension \<Rightarrow>
          abind (yield_root_attempt E run_id) (\<lambda>_.
          abind (verify_replay E) (\<lambda>_.
          aret (ExecutionSuspended (suspension\<lparr>sb_run_id := run_id, sb_plan_id := sl_plan_id plan\<rparr>))))
      | RegionReconciliationRequired intent_id \<Rightarrow> reconciliation_outcome E run_id (sl_plan_id plan) intent_id
      | RegionCompleted v pending \<Rightarrow>
          finish_completed_execution E run_id (sl_plan_id plan) contracts v pending)"

definition execute ::
  "'w runtime_env \<Rightarrow> nat \<Rightarrow> sealed_plan \<Rightarrow> json \<Rightarrow> string \<Rightarrow> ('w, execution_outcome) act" where
  "execute E fuel plan input run_id =
     abind (prepare_execution E plan input run_id) (\<lambda>(contracts, d).
     abind (execute_root_region E fuel run_id plan contracts d input) (\<lambda>outcome.
     finish_execution E run_id plan contracts outcome))"

text \<open>\<^verbatim>\<open>EmbeddedRuntime::seal\<close> and \<^verbatim>\<open>ExecutionOutcome::into_completed\<close>.\<close>

definition runtime_seal :: "'w runtime_env \<Rightarrow> plan_candidate \<Rightarrow> ('w, sealed_plan) act" where
  "runtime_seal E candidate =
     abind (lifted (of_plan (seal_plan (re_host E) (re_decode E) (re_compiles E) candidate))) (\<lambda>plan.
     abind (calling CoreFailure (re_insert_plan E plan)) (\<lambda>_.
     aret plan))"

fun into_completed :: "execution_outcome \<Rightarrow> runtime_error + execution_result" where
  "into_completed (ExecutionCompleted result) = Ok result"
| "into_completed (ExecutionSuspended suspension) = Err (SuspendedError suspension)"
| "into_completed (ExecutionReleaseRequired _ _ intent_ids) = Err (ReleaseRequiredError intent_ids)"
| "into_completed (ExecutionReconciliationRequired _ _ intent_id) =
     Err (UnknownWorldError ''effect_reconciliation_required'' (''effect '' @ intent_id @ '' requires reconciliation''))"

end
