(* ===== verification/Engine_Rules.thy ===== *)
theory Engine_Rules
  imports Engine
begin

text \<open>
  Reasoning about actions of the runtime whatever the Machine and the plugin do: \<open>sound P Q m\<close> says
  that from every state \<open>m\<close> fails only with errors in \<open>P\<close> and succeeds only with values in \<open>Q\<close>. The
  rules follow the combinators; \<open>host_error\<close> bounds the errors of everything that does not look at the
  Plan.
\<close>

named_theorems sound_intros \<open>rules for the combinators and the operations that do not read the Plan\<close>

definition sound :: "(engine_error \<Rightarrow> bool) \<Rightarrow> ('a \<Rightarrow> bool) \<Rightarrow> ('w, 'a) act \<Rightarrow> bool" where
  "sound P Q m \<longleftrightarrow> (\<forall>s. case fst (m s) of Inl e \<Rightarrow> P e | Inr x \<Rightarrow> Q x)"

lemma sound_aret: "Q x \<Longrightarrow> sound P Q (aret x)"
  by (simp add: sound_def aret_def)

lemma sound_afail: "P e \<Longrightarrow> sound P Q (afail e)"
  by (simp add: sound_def afail_def)

lemma sound_lifted: "(\<And>e. m = Err e \<Longrightarrow> P e) \<Longrightarrow> (\<And>x. m = Ok x \<Longrightarrow> Q x) \<Longrightarrow> sound P Q (lifted m)"
  by (cases m) (simp_all add: sound_def lifted_def)

lemma sound_reading:
  "(\<And>s e. g s = Err e \<Longrightarrow> P e) \<Longrightarrow> (\<And>s x. g s = Ok x \<Longrightarrow> Q x) \<Longrightarrow> sound P Q (reading g)"
  by (auto simp: sound_def reading_def split: sum.splits)

lemma sound_world_step: "sound P (\<lambda>_. True) (world_step g)"
  by (auto simp: sound_def world_step_def split: prod.splits sum.splits)

lemma sound_abind:
  assumes "sound P R m" "\<And>x. R x \<Longrightarrow> sound P Q (f x)"
  shows "sound P Q (abind m f)"
  unfolding sound_def
proof
  fix s
  show "case fst (abind m f s) of Inl e \<Rightarrow> P e | Inr x \<Rightarrow> Q x"
  proof (cases "m s")
    case (Pair r t)
    with assms(1) have "case r of Inl e \<Rightarrow> P e | Inr x \<Rightarrow> R x" unfolding sound_def by (metis fst_conv)
    with Pair assms(2) show ?thesis by (cases r) (simp_all add: abind_def sound_def)
  qed
qed

lemma sound_mono:
  assumes "sound P Q m" "\<And>e. P e \<Longrightarrow> P' e" "\<And>x. Q x \<Longrightarrow> Q' x"
  shows "sound P' Q' m"
  unfolding sound_def
proof
  fix s
  have "case fst (m s) of Inl e \<Rightarrow> P e | Inr x \<Rightarrow> Q x" using assms(1) by (simp add: sound_def)
  with assms(2,3) show "case fst (m s) of Inl e \<Rightarrow> P' e | Inr x \<Rightarrow> Q' x" by (auto split: sum.splits)
qed

text \<open>A bind whose first action guarantees nothing about its value.\<close>

lemma sound_seq: "sound P (\<lambda>_. True) m \<Longrightarrow> (\<And>x. sound P Q (f x)) \<Longrightarrow> sound P Q (abind m f)"
  by (rule sound_abind)

lemma raising_Err: "raising f m = Err e \<Longrightarrow> \<exists>x. e = Raised (f x)"
  by (auto simp: raising_def split: sum.splits)

lemma raising_Ok [simp]: "raising f m = Ok x \<longleftrightarrow> m = Ok x"
  by (auto simp: raising_def split: sum.splits)

lemma sound_error: "sound P Q m \<Longrightarrow> fst (m s) = Err e \<Longrightarrow> P e"
  unfolding sound_def by (metis sum.case(1))

section \<open>Errors of the host\<close>

text \<open>Defects that mean the runtime lost track of the Plan it verified.\<close>

definition plan_defects :: "engine_defect set" where
  "plan_defects = {EntryDisappeared, InvokedDefinitionMissing, EffectContractMissing}"

fun host_error :: "engine_error \<Rightarrow> bool" where
  "host_error (Raised e) \<longleftrightarrow> True"
| "host_error (Internal d) \<longleftrightarrow> d \<notin> plan_defects \<and> (\<forall>b. d \<noteq> UnavailableBinding b)"
| "host_error Panicked \<longleftrightarrow> False"
| "host_error OutOfFuel \<longleftrightarrow> False"

lemma host_error_Internal [simp]:
  "host_error (Internal RunMissing)" "host_error (Internal CommandConflicted)"
  "host_error (Internal CommandSequenceExhausted)" "host_error (Internal EffectProjectionMissing)"
  "host_error (Internal InvalidCallResponse)" "host_error (Internal InvalidPrepareResponse)"
  "host_error (Internal PrepareExpectedFailure)" "host_error (Internal FailureNotClosed)"
  "host_error (Internal InvalidIntent)" "host_error (Internal InvalidClaimEpoch)"
  "host_error (Internal InvalidReconciliation)" "host_error (Internal BindingIdentityInconsistent)"
  "host_error (Internal BindingArtifactMissing)" "host_error (Internal InputArtifactMissing)"
  by (simp_all add: plan_defects_def)

declare host_error.simps(2) [simp del]

abbreviation hosted :: "('w, 'a) act \<Rightarrow> bool" where
  "hosted \<equiv> sound host_error (\<lambda>_. True)"

lemma hosted_aret [sound_intros]: "hosted (aret x)"
  by (rule sound_aret) simp

lemma hosted_afail [sound_intros]: "host_error e \<Longrightarrow> hosted (afail e)"
  by (rule sound_afail)

lemma hosted_raising [sound_intros]: "hosted (lifted (raising f m))"
  by (rule sound_lifted) (auto dest: raising_Err)

lemma hosted_abind [sound_intros]: "hosted m \<Longrightarrow> (\<And>x. hosted (f x)) \<Longrightarrow> hosted (abind m f)"
  by (rule sound_seq)

lemma hosted_world_step [sound_intros]: "hosted (world_step g)"
  by (rule sound_world_step)

lemma hosted_calling [sound_intros]: "hosted (calling f g)"
  unfolding calling_def by (intro sound_intros)

lemma hosted_lifted [sound_intros]: "(\<And>e. m = Err e \<Longrightarrow> host_error e) \<Longrightarrow> hosted (lifted m)"
  by (rule sound_lifted) simp_all

lemma hosted_reading_raising: "hosted (reading (\<lambda>s. raising f (g s)))"
  by (rule sound_reading) (auto dest: raising_Err)

lemma hosted_reading_ok_or: "host_error e \<Longrightarrow> hosted (reading (\<lambda>s. ok_or e (g s)))"
  by (rule sound_reading) (auto simp: ok_or_def split: option.splits)

lemma hosted_next_command_id [sound_intros]: "hosted (next_command_id E run_id)"
  by (auto simp: sound_def next_command_id_def next_embedded_command_sequence_def
      split: sum.splits if_splits dest: raising_Err)

lemma hosted_find_run [sound_intros]: "hosted (find_run E run_id)"
  unfolding find_run_def by (rule hosted_reading_ok_or) simp

lemma hosted_submit_with_id [sound_intros]: "hosted (submit_with_id E run_id i c)"
  unfolding submit_with_id_def by (cases c) (auto intro!: sound_intros)

lemma hosted_submit [sound_intros]: "hosted (submit E run_id c)"
  unfolding submit_def by (intro sound_intros)

lemma hosted_invoke_bound [sound_intros]: "hosted (invoke_bound E request)"
  unfolding invoke_bound_def by (intro sound_intros)

lemma plugin_failure_verify_host: "plugin_failure_verify f = Err e \<Longrightarrow> host_error e"
  by (auto simp: plugin_failure_verify_def split: if_splits)

lemma plugin_reported_defect_host: "plugin_reported_defect c m = Err e \<Longrightarrow> host_error e"
  by (auto simp: plugin_reported_defect_def rbind_def split: sum.splits dest: plugin_failure_verify_host)

lemma provider_attempt_host: "provider_attempt_new h i owner n = Err e \<Longrightarrow> host_error e"
  by (auto simp: provider_attempt_new_def effect_provider_attempt_id_def rbind_def
      split: sum.splits if_splits dest!: raising_Err)

lemma root_attempt_host: "root_attempt_id h run_id = Err e \<Longrightarrow> host_error e"
  by (auto simp: root_attempt_id_def root_continuation_id_def rbind_def split: sum.splits dest!: raising_Err)

lemma root_continuation_host: "root_continuation_id h run_id = Err e \<Longrightarrow> host_error e"
  by (auto simp: root_continuation_id_def dest!: raising_Err)

lemmas host_errors = plugin_failure_verify_host plugin_reported_defect_host provider_attempt_host root_attempt_host
  root_continuation_host

lemma hosted_expected_failure [sound_intros]: "hosted (expected_failure E run_id f)"
  unfolding expected_failure_def by (intro sound_intros) (erule host_errors)

lemma hosted_yield [sound_intros]: "hosted (yield_root_attempt E run_id)"
  unfolding yield_root_attempt_def by (intro sound_intros) (erule host_errors)

lemma hosted_prepare [sound_intros]: "hosted (invoke_effect_prepare E effect i v)"
  unfolding invoke_effect_prepare_def by (auto split: plugin_response.split intro!: sound_intros dest: host_errors)

lemma hosted_observe_unknown [sound_intros]: "hosted (observe_unknown E run_id i)"
  unfolding observe_unknown_def by (intro sound_intros)

lemma hosted_invoke_dispatch [sound_intros]: "hosted (invoke_effect_dispatch E d)"
  unfolding invoke_effect_dispatch_def by (auto split: plugin_response.split sum.split intro!: sound_intros)

lemma hosted_reconcile [sound_intros]: "hosted (reconcile_unknown_effect E d v)"
  unfolding reconcile_unknown_effect_def
  by (auto split: plugin_response.split sum.split runtime_error.split reconciliation_resolution.split
      intro!: sound_intros hosted_reading_ok_or)

lemma hosted_dispatch [sound_intros]: "hosted (dispatch_effect E run_id cs op i v)"
  unfolding dispatch_effect_def Let_def
  by (auto split: option.split prod.split intro!: sound_intros dest: host_errors)

lemma hosted_dispatch_pending [sound_intros]: "hosted (dispatch_pending E run_id cs pending)"
proof -
  have "hosted (dispatch_each E run_id cs pending explicit)" for explicit
    by (induction pending arbitrary: explicit) (auto split: effect_dispatch_outcome.split intro!: sound_intros)
  then show ?thesis by (simp add: dispatch_pending_def)
qed

lemma hosted_finish [sound_intros]: "hosted (finish_execution E run_id plan cs outcome)"
  unfolding finish_execution_def finish_completed_execution_def reconciliation_outcome_def verify_replay_def Let_def
  by (auto split: region_outcome.split pending_dispatch_outcome.split intro!: sound_intros hosted_reading_raising)

lemma hosted_submit_start_run [sound_intros]: "hosted (submit_start_run E run_id plan b i ctx ia)"
  unfolding submit_start_run_def by (intro sound_intros hosted_reading_ok_or) simp_all

end
