(* ===== verification/Engine_Depth.thy ===== *)
theory Engine_Depth
  imports Engine_Rules
begin

text \<open>
  A verified Plan executes without losing its way. Nested invocations descend along the acyclic
  invocation relation, so the number of definitions bounds their depth and is enough fuel; names are
  resolved as validation resolved them. What remains is the binding of an Effect result: it may stay
  unset, and \<open>effect_binds\<close> are the names for which a later use can fail.
\<close>

section \<open>Rank of a definition\<close>

definition rank :: "flow_definition list \<Rightarrow> string \<Rightarrow> nat" where
  "rank ds c = card {t. (c, t) \<in> (calls ds)\<^sup>+}"

lemma finite_region_sites: "finite (invoked r)"
proof -
  have "invoked r \<subseteq> (\<lambda>s. case snd s of OpInvoke t _ _ \<Rightarrow> t | _ \<Rightarrow> []) ` set (region_sites r)"
    by (force simp: invoked_def)
  then show ?thesis using finite_surj by blast
qed

lemma finite_calls: "finite (calls ds)"
proof -
  have "calls ds = (\<Union>d\<in>set ds. {df_id d} \<times> invoked (df_body d))" by (auto simp: calls_def)
  then show ?thesis by (simp add: finite_region_sites)
qed

lemma finite_reached: "finite {t. (c, t) \<in> (calls ds)\<^sup>+}"
proof -
  have "{t. (c, t) \<in> (calls ds)\<^sup>+} \<subseteq> snd ` (calls ds)\<^sup>+" by force
  moreover have "finite ((calls ds)\<^sup>+)" using finite_calls by (simp add: finite_trancl)
  ultimately show ?thesis by (meson finite_imageI finite_subset)
qed

lemma rank_decreases:
  assumes "acyclic (calls ds)" "(c, t) \<in> calls ds"
  shows "rank ds t < rank ds c"
  unfolding rank_def
proof (rule psubset_card_mono [OF finite_reached])
  have "{u. (t, u) \<in> (calls ds)\<^sup>+} \<subseteq> {u. (c, u) \<in> (calls ds)\<^sup>+}"
    using assms(2) by (auto intro: trancl_into_trancl2)
  moreover have "t \<in> {u. (c, u) \<in> (calls ds)\<^sup>+}" using assms(2) by auto
  moreover have "t \<notin> {u. (t, u) \<in> (calls ds)\<^sup>+}" using assms(1) by (simp add: acyclic_def)
  ultimately show "{u. (t, u) \<in> (calls ds)\<^sup>+} \<subset> {u. (c, u) \<in> (calls ds)\<^sup>+}" by blast
qed

lemma rank_bound:
  assumes "acyclic (calls ds)" "\<And>d. d \<in> set ds \<Longrightarrow> invoked (df_body d) \<subseteq> df_id ` set ds" "c \<in> df_id ` set ds"
  shows "rank ds c < length ds"
proof -
  have "snd ` calls ds \<subseteq> df_id ` set ds" using assms(2) by (force simp: calls_def)
  then have "{t. (c, t) \<in> (calls ds)\<^sup>+} \<subseteq> df_id ` set ds" by (auto dest!: tranclD2)
  moreover have "c \<notin> {t. (c, t) \<in> (calls ds)\<^sup>+}" using assms(1) by (simp add: acyclic_def)
  ultimately have "{t. (c, t) \<in> (calls ds)\<^sup>+} \<subset> df_id ` set ds" using assms(3) by blast
  then have "rank ds c < card (df_id ` set ds)" unfolding rank_def by (intro psubset_card_mono) simp_all
  also have "\<dots> \<le> length ds" by (metis List.finite_set card_image_le card_length le_trans)
  finally show ?thesis .
qed

section \<open>Expressions\<close>

definition effect_binds :: "plan_candidate \<Rightarrow> string set" where
  "effect_binds p = {b. \<exists>i e x k. (i, OpEffect e x k (Some b)) \<in> set (plan_sites (pn_definitions p))}"

text \<open>The errors that a verified Plan can still end with.\<close>

definition admissible :: "plan_candidate \<Rightarrow> engine_error \<Rightarrow> bool" where
  "admissible p e \<longleftrightarrow> host_error e \<or> (\<exists>b\<in>effect_binds p. e = Internal (UnavailableBinding b))"

lemma rmap_Err: "rmap f xs = Err e \<Longrightarrow> \<exists>x\<in>set xs. f x = Err e"
  by (induction xs) (auto simp: rbind_def split: sum.splits)

lemma evaluate_error:
  "evaluate ex input env = Err e \<Longrightarrow> \<exists>b\<in>uses ex. b |\<notin>| fmdom env \<and> e = Internal (UnavailableBinding b)"
proof (induction ex input env rule: evaluate.induct)
  case (3 name input env)
  then show ?case by (auto simp: ok_or_def fmdom_notI split: option.splits)
next
  case (4 fs input env)
  then have "rmap (\<lambda>f. rbind (evaluate (snd f) input env) (\<lambda>v. Ok (fst f, v))) fs = Err e"
    by (auto simp: rbind_def split: sum.splits)
  then obtain f where "f \<in> set fs" "evaluate (snd f) input env = Err e"
    by (auto dest!: rmap_Err simp: rbind_def split: sum.splits)
  moreover have "\<exists>b\<in>uses (snd f). b |\<notin>| fmdom env \<and> e = Internal (UnavailableBinding b)"
    using 4(1) [of f] calculation by simp
  ultimately show ?case by auto
next
  case (5 es input env)
  then have "rmap (\<lambda>e. evaluate e input env) es = Err e" by (auto simp: rbind_def split: sum.splits)
  then obtain x where "x \<in> set es" "evaluate x input env = Err e" by (auto dest: rmap_Err)
  with 5(1) [of x] show ?case by auto
qed simp_all

text \<open>The bindings in scope are set, but for those of Effect results.\<close>

definition bound_in :: "plan_candidate \<Rightarrow> string set \<Rightarrow> environment \<Rightarrow> bool" where
  "bound_in p B env \<longleftrightarrow> B - effect_binds p \<subseteq> fset (fmdom env)"

lemma bound_in_evaluate:
  "evaluate ex input env = Err e \<Longrightarrow> uses ex \<subseteq> B \<Longrightarrow> bound_in p B env \<Longrightarrow> admissible p e"
  using evaluate_error [of ex input env e] by (auto simp: admissible_def bound_in_def)

lemma bound_in_bind_value: "bound_in p B env \<Longrightarrow> bound_in p (set_option bind \<union> B) (bind_value bind v env)"
  by (cases bind) (auto simp: bound_in_def bind_value_def)

lemma bound_in_empty [simp]: "bound_in p {} env"
  by (simp add: bound_in_def)

lemma hosted_admissible: "hosted m \<Longrightarrow> sound (admissible p) (\<lambda>_. True) m"
  by (erule sound_mono) (simp_all add: admissible_def)

section \<open>Execution\<close>

text \<open>What the sites of a region guarantee, with the ranks of the definitions they invoke.\<close>

definition runs_in :: "plan_candidate \<Rightarrow> (json \<Rightarrow> bool) \<Rightarrow> nat \<Rightarrow> (string \<times> operation) list \<Rightarrow> bool" where
  "runs_in p compiles fuel ss \<longleftrightarrow>
     (\<forall>s\<in>set ss. site_ok compiles (plan_names_of p) s)
     \<and> (\<forall>i e x k b. (i, OpEffect e x k (Some b)) \<in> set ss \<longrightarrow> b \<in> effect_binds p)
     \<and> (\<forall>i t x b. (i, OpInvoke t x b) \<in> set ss \<longrightarrow> rank (pn_definitions p) t < fuel)"

lemma runs_in_subset: "runs_in p compiles fuel ss \<Longrightarrow> set ts \<subseteq> set ss \<Longrightarrow> runs_in p compiles fuel ts"
  unfolding runs_in_def by blast

lemma runs_in_definition:
  assumes "plan_wf compiles p" "d \<in> set (pn_definitions p)"
  shows "runs_in p compiles (rank (pn_definitions p) (df_id d)) (region_sites (df_body d))"
proof -
  have sites: "set (region_sites (df_body d)) \<subseteq> set (plan_sites (pn_definitions p))"
    using assms(2) by (auto simp: plan_sites_def)
  have acyclic: "acyclic (calls (pn_definitions p))"
    and ok: "\<forall>s\<in>set (plan_sites (pn_definitions p)). site_ok compiles (plan_names_of p) s"
    using assms(1) unfolding plan_wf_def sites_ok_def by blast+
  have "rank (pn_definitions p) t < rank (pn_definitions p) (df_id d)" if "(i, OpInvoke t x b) \<in> set (region_sites (df_body d))"
    for i t x b
    using assms(2) that by (intro rank_decreases [OF acyclic]) (auto simp: calls_def invoked_def)
  moreover have "b \<in> effect_binds p" if "(i, OpEffect e x k (Some b)) \<in> set (region_sites (df_body d))" for i e x k b
    using that sites unfolding effect_binds_def by blast
  ultimately show ?thesis using ok sites unfolding runs_in_def by blast
qed

lemma runs_in_fuel: "runs_in p compiles m ss \<Longrightarrow> m \<le> n \<Longrightarrow> runs_in p compiles n ss"
  unfolding runs_in_def by (meson less_le_trans)

lemma find_definition_some:
  assumes "t \<in> df_id ` set (pn_definitions (sl_candidate plan))"
  obtains d where "find_definition plan t = Some d" "d \<in> set (pn_definitions (sl_candidate plan))" "df_id d = t"
proof (cases "find_definition plan t")
  case None
  with assms show ?thesis by (auto simp: find_definition_def find_None_iff)
next
  case (Some d)
  then have "d \<in> set (pn_definitions (sl_candidate plan)) \<and> df_id d = t"
    unfolding find_definition_def find_Some_iff by (metis nth_mem)
  with Some that show ?thesis by blast
qed

definition steps_post :: "plan_candidate \<Rightarrow> string set \<Rightarrow> region_step_outcome \<Rightarrow> bool" where
  "steps_post p B outcome = (case outcome of Continue _ env \<Rightarrow> bound_in p B env | Return _ \<Rightarrow> True)"

lemma steps_post_simps [simp]:
  "steps_post p B (Continue pending env) = bound_in p B env" "steps_post p B (Return r)"
  by (simp_all add: steps_post_def)

lemma find_effect_some:
  assumes "fmlookup (effect_profiles (pn_effects (sl_candidate plan))) e = Some profile"
  shows "find_effect plan e \<noteq> None"
proof -
  have "fmlookup (fold (\<lambda>c. fmupd (ec_id c) (ec_profile c)) cs m) e = fmlookup m e" if "\<forall>c\<in>set cs. ec_id c \<noteq> e" for cs m
    using that by (induction cs arbitrary: m) auto
  from this [of "pn_effects (sl_candidate plan)" fmempty] assms have "\<not> (\<forall>c\<in>set (pn_effects (sl_candidate plan)). ec_id c \<noteq> e)"
    by (auto simp: effect_profiles_def)
  then show ?thesis by (auto simp: find_effect_def find_None_iff)
qed

lemma sound_evaluate:
  assumes "uses ex \<subseteq> B" "bound_in p B env"
  shows "sound (admissible p) (\<lambda>_. True) (lifted (evaluate ex input env))"
  using assms by (intro sound_lifted) (auto intro: bound_in_evaluate)

lemma sound_evaluate_then:
  assumes "uses ex \<subseteq> B" "bound_in p B env" "\<And>v. hosted (f v)"
  shows "sound (admissible p) (\<lambda>_. True) (abind (lifted (evaluate ex input env)) f)"
  by (rule sound_seq [OF sound_evaluate [OF assms(1,2)]]) (rule hosted_admissible [OF assms(3)])

lemma sound_call:
  assumes "uses x \<subseteq> B" "bound_in p B env"
  shows "sound (admissible p) (bound_in p (set_option bind \<union> B)) (execute_call_step E ctx c x bind env)"
  unfolding execute_call_step_def
  by (intro sound_seq [OF sound_evaluate [OF assms]] sound_seq [OF hosted_admissible] sound_aret bound_in_bind_value assms(2))
    (auto split: plugin_response.split intro!: sound_intros dest: host_errors)

lemma sound_prepare_effect:
  assumes "uses x \<subseteq> B" "bound_in p B env" "find_effect (rx_plan ctx) e \<noteq> None"
  shows "sound (admissible p) (\<lambda>_. True) (prepare_effect E ctx i e x k env)"
  unfolding prepare_effect_def
  by (intro sound_seq [OF sound_evaluate [OF assms(1,2)]] hosted_admissible sound_intros) (use assms(3) in auto)

lemma sound_effect:
  assumes "uses x \<subseteq> B" "bound_in p B env" "find_effect (rx_plan ctx) e \<noteq> None" "set_option bind \<subseteq> effect_binds p"
  shows "sound (admissible p) (steps_post p (set_option bind \<union> B)) (execute_effect_step E ctx i e x k bind env)"
proof -
  have keep: "bound_in p (set_option bind \<union> B) env" using assms(2,4) by (auto simp: bound_in_def)
  have "bound_in p (set_option bind \<union> B) (fmupd b v env)" for b v using keep by (auto simp: bound_in_def)
  with keep show ?thesis unfolding execute_effect_step_def
    by (intro sound_seq [OF sound_prepare_effect [OF assms(1-3)]])
      (auto split: prod.split effect_dispatch_outcome.split option.split
        intro!: sound_aret sound_seq [OF hosted_admissible] sound_intros)
qed

lemma sound_execution:
  assumes wf: "plan_wf compiles p"
  shows "runs_in p compiles fuel (region_sites r) \<Longrightarrow> region_scoped r B \<Longrightarrow> bound_in p B env \<Longrightarrow> sl_candidate (rx_plan ctx) = p \<Longrightarrow>
      sound (admissible p) (\<lambda>_. True) (execute_region E fuel r ctx env)"
  and "runs_in p compiles fuel (step_sites ss) \<Longrightarrow> steps_scoped ss B \<Longrightarrow> bound_in p B env \<Longrightarrow> sl_candidate (rx_plan ctx) = p \<Longrightarrow>
      sound (admissible p) (steps_post p (B \<union> fset (step_binds ss))) (execute_steps E fuel k ss ctx pending env)"
  and "t \<in> df_id ` set (pn_definitions p) \<Longrightarrow> rank (pn_definitions p) t < fuel \<Longrightarrow> uses x \<subseteq> B \<Longrightarrow> bound_in p B env \<Longrightarrow>
      sl_candidate (rx_plan ctx) = p \<Longrightarrow>
      sound (admissible p) (steps_post p (set_option bind \<union> B)) (execute_invoke_step E fuel ctx i t x bind env)"
  and "runs_in p compiles fuel (region_sites body) \<Longrightarrow> region_scoped body B \<Longrightarrow> bound_in p B env \<Longrightarrow> sl_candidate (rx_plan ctx) = p \<Longrightarrow>
      sound (admissible p) (steps_post p (set_option bind \<union> B)) (execute_scope_step E fuel ctx k i body bind env)"
proof (induction E fuel r ctx env and E fuel k ss ctx pending env and E fuel ctx i t x bind env and E fuel ctx k i body bind env
    arbitrary: B and B and B and B rule: execute_region_execute_steps_execute_invoke_step_execute_scope_step.induct)
  case (1 E fuel steps result ctx env)
  let ?B = "B \<union> fset (step_binds steps)"
  have "sound (admissible p) (steps_post p ?B) (execute_steps E fuel 0 steps ctx [] env)"
    using 1 by simp
  moreover have "uses result \<subseteq> ?B" using "1.prems"(2) by simp
  ultimately show ?case unfolding execute_region.simps
    by (intro sound_abind [where R = "steps_post p ?B"])
      (auto split: region_step_outcome.split option.split intro!: sound_aret sound_evaluate_then [where B = ?B] sound_intros)
next
  case (2 E fuel k ctx pending env)
  then show ?case by (simp add: execute_steps.simps sound_aret)
next
  case (3 E fuel k i op steps ctx pending env)
  let ?head = "case op of
         OpCall component input bind \<Rightarrow>
           abind (execute_call_step E ctx component input bind env) (\<lambda>env. aret (Continue [] env))
       | OpInvoke target input bind \<Rightarrow> execute_invoke_step E fuel ctx i target input bind env
       | OpWait wait bind \<Rightarrow>
           aret (Return (RegionSuspended \<lparr>sb_run_id = [], sb_plan_id = [], sb_definition_id = rx_definition_id ctx,
             sb_invocation_id = rx_invocation_id ctx, sb_site_id = i, sb_wait = wait, sb_result_bind = bind\<rparr>))
       | OpEffect effect input occurrence bind \<Rightarrow> execute_effect_step E ctx i effect input occurrence bind env
       | OpScope body bind \<Rightarrow> execute_scope_step E fuel ctx k i body bind env"
  let ?B = "set_option (op_bind op) \<union> B"
  have op: "site_ok compiles (plan_names_of p) (i, op)" "op_scoped op B" "steps_scoped steps ?B"
    and bind: "\<And>e x oc b. op = OpEffect e x oc (Some b) \<Longrightarrow> b \<in> effect_binds p"
    and invoke: "\<And>t x b. op = OpInvoke t x b \<Longrightarrow> rank (pn_definitions p) t < fuel"
    using "3.prems"(1,2) by (auto simp: runs_in_def)
  have sub: "runs_in p compiles fuel (nested_sites op)" "runs_in p compiles fuel (step_sites steps)"
    using "3.prems"(1) by (auto elim: runs_in_subset)
  have head: "sound (admissible p) (steps_post p ?B) ?head"
  proof (cases op)
    case (OpCall c x b)
    with op(2) "3.prems"(3) show ?thesis
      by (auto intro!: sound_abind [OF sound_call [where B = B]] sound_aret)
  next
    case (OpInvoke t x b)
    then have "t \<in> df_id ` set (pn_definitions p)"
      using op(1) by (simp add: site_ok_def plan_names_of_def fset_of_list.rep_eq)
    then show ?thesis using 3(1) [OF OpInvoke, of B] OpInvoke op(2) invoke "3.prems"(3,4) by simp
  next
    case (OpWait w b)
    then show ?thesis by (simp add: sound_aret)
  next
    case (OpEffect e x oc b)
    then have "find_effect (rx_plan ctx) e \<noteq> None"
      using op(1) "3.prems"(4) find_effect_some [of "rx_plan ctx" e] by (auto simp: site_ok_def plan_names_of_def)
    moreover have "set_option b \<subseteq> effect_binds p" using bind OpEffect by (cases b) auto
    moreover have "uses x \<subseteq> B" using OpEffect op(2) by simp
    ultimately have "sound (admissible p) (steps_post p (set_option b \<union> B)) (execute_effect_step E ctx i e x oc b env)"
      using "3.prems"(3) by (intro sound_effect)
    with OpEffect show ?thesis by simp
  next
    case (OpScope body b)
    then show ?thesis using 3(2) [OF OpScope, of B] op(2) sub(1) "3.prems"(3,4) by simp
  qed
  have rest: "sound (admissible p) (steps_post p (B \<union> fset (step_binds (Step i op # steps))))
      (execute_steps E fuel (Suc k) steps ctx (pending @ child) env')" if "bound_in p ?B env'" for child env'
  proof -
    have "?B \<union> fset (step_binds steps) = B \<union> fset (step_binds (Step i op # steps))"
      by (cases "op_bind op") auto
    with 3(3) [OF sub(2) op(3) that "3.prems"(4)] show ?thesis by simp
  qed
  show ?case unfolding execute_steps.simps
    by (rule sound_abind [OF head])
      (auto split: region_step_outcome.split simp del: step_binds.simps intro!: sound_aret rest)
next
  case (4 E fuel ctx i target x bind env)
  obtain d where d: "find_definition (rx_plan ctx) target = Some d" "d \<in> set (pn_definitions p)" "df_id d = target"
    using find_definition_some [of target "rx_plan ctx"] "4.prems"(1,5) by auto
  obtain n where n: "fuel = Suc n" "rank (pn_definitions p) target \<le> n" using "4.prems"(2) by (cases fuel) auto
  have runs: "runs_in p compiles n (region_sites (df_body d))"
    using runs_in_fuel [OF runs_in_definition [OF wf d(2)]] d(3) n(2) by simp
  have "flow_ok compiles d" using wf d(2) unfolding plan_wf_def by blast
  then have "region_scoped (df_body d) {}" by (simp add: flow_ok_def)
  note body = 4(1) [OF refl n(1) runs this bound_in_empty]
  have check: "sound (admissible p) (\<lambda>e. e = d) (lifted (ok_or (Internal InvokedDefinitionMissing) (Some d)))"
    by (rule sound_lifted) simp_all
  show ?case unfolding execute_invoke_step.simps Let_def n(1) nat.case d(1)
    by (rule sound_seq [OF sound_evaluate [OF "4.prems"(3,4)]], rule sound_abind [OF check], hypsubst,
        (rule sound_seq [OF hosted_admissible], rule sound_intros)+)
      (auto split: region_outcome.split simp: bound_in_bind_value "4.prems"(4,5) intro!: sound_aret sound_seq [OF body])
next
  case (5 E fuel ctx k i body bind env)
  note body = 5(1) [OF refl "5.prems"(1-3)]
  show ?case unfolding execute_scope_step.simps Let_def
    by ((rule sound_seq [OF hosted_admissible], rule sound_intros)+, rule sound_seq [OF body], simp add: "5.prems"(4))
      (auto split: region_outcome.split pending_dispatch_outcome.split simp: bound_in_bind_value "5.prems"(3)
        intro!: sound_aret sound_seq [OF hosted_admissible] sound_intros)
qed

section \<open>Whole executions\<close>

lemma verify_sealed_no_panic: "verify_sealed h decode compiles plan = Err e \<Longrightarrow> \<exists>c. e = Refused c"
  by (auto simp: verify_sealed_def validate_plan_eq refused_def rbind_def split: sum.splits if_splits)

lemma verify_plan_ok: "verify_plan E plan = Ok cs \<Longrightarrow> plan_wf (re_compiles E) (sl_candidate plan)"
  by (auto simp: verify_plan_def of_plan_def verify_sealed_eq_Ok split: sum.splits plan_failure.splits)

lemma verify_plan_error: "verify_plan E plan = Err e \<Longrightarrow> host_error e"
  by (auto simp: verify_plan_def of_plan_def rbind_def split: sum.splits plan_failure.splits
      dest!: verify_sealed_no_panic raising_Err)

lemma entry_defined:
  assumes "plan_wf compiles (sl_candidate plan)"
  obtains d where "find_definition plan (pn_entry (sl_candidate plan)) = Some d" "d \<in> set (pn_definitions (sl_candidate plan))"
proof -
  have "pn_entry (sl_candidate plan) \<in> df_id ` set (pn_definitions (sl_candidate plan))"
    using assms unfolding plan_wf_def by blast
  then show ?thesis using find_definition_some that by metis
qed

lemma admit_execution_request_cases:
  shows "admit_execution_request E plan input run_id = Err e \<Longrightarrow> host_error e"
    and "admit_execution_request E plan input run_id = Ok (cs, d) \<Longrightarrow>
      plan_wf (re_compiles E) (sl_candidate plan) \<and> d \<in> set (pn_definitions (sl_candidate plan))"
proof -
  assume err: "admit_execution_request E plan input run_id = Err e"
  show "host_error e"
  proof (cases "verify_plan E plan")
    case (Inl e')
    with err show ?thesis by (auto simp: admit_execution_request_def rbind_def split: sum.splits dest: verify_plan_error raising_Err)
  next
    case (Inr cs)
    obtain d where "find_definition plan (pn_entry (sl_candidate plan)) = Some d"
      using entry_defined [OF verify_plan_ok [OF Inr]] .
    with Inr err show ?thesis by (auto simp: admit_execution_request_def rbind_def split: sum.splits dest: raising_Err)
  qed
next
  assume "admit_execution_request E plan input run_id = Ok (cs, d)"
  then have "verify_plan E plan = Ok cs" "find_definition plan (pn_entry (sl_candidate plan)) = Some d"
    by (auto simp: admit_execution_request_def)
  moreover then have "d \<in> set (pn_definitions (sl_candidate plan))"
    unfolding find_definition_def find_Some_iff by (metis nth_mem)
  ultimately show "plan_wf (re_compiles E) (sl_candidate plan) \<and> d \<in> set (pn_definitions (sl_candidate plan))"
    using verify_plan_ok by blast
qed

lemma sound_prepare_execution:
  "sound (admissible (sl_candidate plan))
     (\<lambda>(cs, d). plan_wf (re_compiles E) (sl_candidate plan) \<and> d \<in> set (pn_definitions (sl_candidate plan)))
     (prepare_execution E plan input run_id)"
proof -
  have admit: "sound (admissible (sl_candidate plan))
     (\<lambda>(cs, d). plan_wf (re_compiles E) (sl_candidate plan) \<and> d \<in> set (pn_definitions (sl_candidate plan)))
     (lifted (admit_execution_request E plan input run_id))"
    by (rule sound_lifted) (auto simp: admissible_def dest: admit_execution_request_cases)
  show ?thesis unfolding prepare_execution_def
    by (rule sound_abind [OF admit])
      (auto intro!: sound_aret sound_afail sound_seq [OF hosted_admissible] sound_intros
        simp: admissible_def dest: host_errors)
qed

text \<open>The entry definition of a verified Plan, with the fuel its rank needs.\<close>

lemma entry_rank:
  assumes wf: "plan_wf compiles p" and d: "d \<in> set (pn_definitions p)"
  shows "rank (pn_definitions p) (df_id d) < length (pn_definitions p)" "region_scoped (df_body d) {}"
    "acyclic (calls (pn_definitions p))"
proof -
  have acyclic: "acyclic (calls (pn_definitions p))"
    and ok: "sites_ok compiles (plan_names_of p) (plan_sites (pn_definitions p)) {||}"
    and flow: "flow_ok compiles d"
    using wf d unfolding plan_wf_def by blast+
  have "df_id d \<in> df_id ` set (pn_definitions p)" using d by simp
  with acyclic show "rank (pn_definitions p) (df_id d) < length (pn_definitions p)"
    using rank_bound [of "pn_definitions p" "df_id d"] sites_ok_invoked [OF ok] by blast
  show "region_scoped (df_body d) {}" using flow by (simp add: flow_ok_def)
  show "acyclic (calls (pn_definitions p))" by (rule acyclic)
qed

lemma execute_admissible:
  assumes "length (pn_definitions (sl_candidate plan)) \<le> fuel"
  shows "sound (admissible (sl_candidate plan)) (\<lambda>_. True) (execute E fuel plan input run_id)"
proof -
  let ?p = "sl_candidate plan"
  have root: "sound (admissible ?p) (\<lambda>_. True) (execute_root_region E fuel run_id plan cs d input)"
    if wf: "plan_wf (re_compiles E) ?p" and d: "d \<in> set (pn_definitions ?p)" for cs d
  proof -
    have runs: "runs_in ?p (re_compiles E) fuel (region_sites (df_body d))"
      using runs_in_fuel [OF runs_in_definition [OF wf d], of fuel] entry_rank(1) [OF wf d] assms by simp
    note body = sound_execution(1) [OF wf runs entry_rank(2) [OF wf d] bound_in_empty]
    show ?thesis unfolding execute_root_region_def
      by (rule sound_seq [OF hosted_admissible], rule sound_intros, rule body) simp
  qed
  show ?thesis unfolding execute_def
    by (rule sound_abind [OF sound_prepare_execution]) (auto intro: sound_seq root hosted_admissible hosted_finish)
qed

section \<open>Fuel\<close>

text \<open>Beyond the rank more fuel changes nothing.\<close>

lemma abind_cong: "m = m' \<Longrightarrow> (\<And>x. f x = f' x) \<Longrightarrow> abind m f = abind m' f'"
  by presburger

lemma abind_lifted_Ok: "abind (lifted (Ok x)) f = f x"
  by (simp add: fun_eq_iff abind_def lifted_def)

definition deep_enough :: "plan_candidate \<Rightarrow> nat \<Rightarrow> (string \<times> operation) list \<Rightarrow> bool" where
  "deep_enough p fuel ss \<longleftrightarrow> (\<forall>i t x b. (i, OpInvoke t x b) \<in> set ss \<longrightarrow> rank (pn_definitions p) t < fuel)"

lemma deep_enough_simps [simp]:
  "deep_enough p fuel []" "deep_enough p fuel (ss @ ts) \<longleftrightarrow> deep_enough p fuel ss \<and> deep_enough p fuel ts"
  unfolding deep_enough_def set_append by (simp, blast)

lemma deep_enough_Cons:
  "deep_enough p fuel ((i, op) # ss) \<longleftrightarrow> (\<forall>t x b. op = OpInvoke t x b \<longrightarrow> rank (pn_definitions p) t < fuel) \<and> deep_enough p fuel ss"
  unfolding deep_enough_def list.set by blast

lemma deep_enough_definition:
  assumes "acyclic (calls (pn_definitions p))" "find_definition plan t = Some d" "sl_candidate plan = p"
    "rank (pn_definitions p) t \<le> n"
  shows "deep_enough p n (region_sites (df_body d))"
proof -
  have d: "d \<in> set (pn_definitions p)" "df_id d = t"
    using assms(2,3) unfolding find_definition_def find_Some_iff by auto
  have "rank (pn_definitions p) u < rank (pn_definitions p) t" if "(i, OpInvoke u x b) \<in> set (region_sites (df_body d))" for i u x b
    using d that by (intro rank_decreases [OF assms(1)]) (auto simp: calls_def invoked_def)
  then show ?thesis using assms(4) by (fastforce simp: deep_enough_def)
qed

lemma fuel_irrelevant:
  assumes "acyclic (calls (pn_definitions p))"
  shows "deep_enough p fuel (region_sites r) \<Longrightarrow> deep_enough p n (region_sites r) \<Longrightarrow> sl_candidate (rx_plan ctx) = p \<Longrightarrow>
      execute_region E n r ctx env = execute_region E fuel r ctx env"
  and "deep_enough p fuel (step_sites ss) \<Longrightarrow> deep_enough p n (step_sites ss) \<Longrightarrow> sl_candidate (rx_plan ctx) = p \<Longrightarrow>
      execute_steps E n k ss ctx pending env = execute_steps E fuel k ss ctx pending env"
  and "rank (pn_definitions p) t < fuel \<Longrightarrow> rank (pn_definitions p) t < n \<Longrightarrow> sl_candidate (rx_plan ctx) = p \<Longrightarrow>
      execute_invoke_step E n ctx i t x bind env = execute_invoke_step E fuel ctx i t x bind env"
  and "deep_enough p fuel (region_sites body) \<Longrightarrow> deep_enough p n (region_sites body) \<Longrightarrow> sl_candidate (rx_plan ctx) = p \<Longrightarrow>
      execute_scope_step E n ctx k i body bind env = execute_scope_step E fuel ctx k i body bind env"
proof (induction E fuel r ctx env and E fuel k ss ctx pending env and E fuel ctx i t x bind env and E fuel ctx k i body bind env
    arbitrary: n and n and n and n rule: execute_region_execute_steps_execute_invoke_step_execute_scope_step.induct)
  case (1 E fuel steps result ctx env)
  have "execute_steps E n 0 steps ctx [] env = execute_steps E fuel 0 steps ctx [] env"
    using 1(1) [of n] "1.prems" by simp
  then show ?case unfolding execute_region.simps by (rule arg_cong)
next
  case (2 E fuel k ctx pending env)
  show ?case unfolding execute_steps.simps by (rule refl)
next
  case (3 E fuel k i op steps ctx pending env)
  have rest: "execute_steps E n (Suc k) steps ctx (pending @ child) env' = execute_steps E fuel (Suc k) steps ctx (pending @ child) env'"
    for child env' using 3(3) [of n child env'] "3.prems" by (simp add: deep_enough_Cons)
  show ?case unfolding execute_steps.simps rest
    using 3(1) [of _ _ _ n] 3(2) [of _ _ n] "3.prems"
    by (cases op) (simp_all add: deep_enough_Cons del: region_sites.simps)
next
  case (4 E fuel ctx i target x bind env)
  show ?case
  proof (cases "find_definition (rx_plan ctx) target")
    case None
    then show ?thesis by (simp add: execute_invoke_step.simps abind_def lifted_def fun_eq_iff split: sum.splits)
  next
    case (Some d)
    obtain f m where f: "fuel = Suc f" "n = Suc m" "rank (pn_definitions p) target \<le> f" "rank (pn_definitions p) target \<le> m"
      using "4.prems"(1,2) by (cases fuel; cases n) auto
    have deep: "deep_enough p f (region_sites (df_body d))" "deep_enough p m (region_sites (df_body d))"
      using deep_enough_definition [OF assms Some "4.prems"(3)] f(3,4) by blast+
    have "execute_region E m (df_body d) c e = execute_region E f (df_body d) c e" if "c = ctx\<lparr>rx_input := v, rx_invocation_id := j,
        rx_invocation_path := rx_invocation_path ctx @ [\<lparr>ip_site_id = i, ip_region_path = rx_region_path ctx, ip_scope_id = rx_scope_id ctx\<rparr>],
        rx_definition_id := target, rx_region_path := [], rx_result_definition := Some target\<rparr>" "e = fmempty" for c e v j
      using 4(1) [OF refl f(1) deep, of j v] "4.prems"(3) that by simp
    then show ?thesis unfolding execute_invoke_step.simps Let_def f(1,2) nat.case Some ok_or_simps abind_lifted_Ok
      by (intro abind_cong refl) simp
  qed
next
  case (5 E fuel ctx k i body bind env)
  have "execute_region E n body c env = execute_region E fuel body c env"
    if "c = ctx\<lparr>rx_scope_id := s, rx_region_path := rx_region_path ctx @ [k], rx_result_definition := None\<rparr>" for s c
    using 5(1) [OF refl, of n s] "5.prems" that by simp
  then show ?case unfolding execute_scope_step.simps Let_def by (intro abind_cong refl) simp
qed

lemma abind_cong_sound:
  assumes "sound P R m" "\<And>x. R x \<Longrightarrow> f x = f' x"
  shows "abind m f = abind m f'"
proof
  fix s
  show "abind m f s = abind m f' s"
  proof (cases "m s")
    case (Pair r t)
    have "case fst (m s) of Inl e \<Rightarrow> P e | Inr x \<Rightarrow> R x" using assms(1) by (simp add: sound_def)
    with Pair assms(2) show ?thesis by (cases r) (simp_all add: abind_def)
  qed
qed

lemma execute_fuel:
  assumes "length (pn_definitions (sl_candidate plan)) \<le> fuel" "length (pn_definitions (sl_candidate plan)) \<le> n"
  shows "execute E n plan input run_id = execute E fuel plan input run_id"
proof -
  let ?p = "sl_candidate plan"
  have "execute_root_region E n run_id plan cs d input = execute_root_region E fuel run_id plan cs d input"
    if wf: "plan_wf (re_compiles E) ?p" and d: "d \<in> set (pn_definitions ?p)" for cs d
  proof -
    have deep: "deep_enough ?p m (region_sites (df_body d))" if "length (pn_definitions ?p) \<le> m" for m
      using runs_in_definition [OF wf d] entry_rank(1) [OF wf d] that
      unfolding runs_in_def deep_enough_def by (meson less_le_trans less_trans)
    note body = fuel_irrelevant(1) [OF entry_rank(3) [OF wf d] deep [OF assms(1)] deep [OF assms(2)]]
    show ?thesis unfolding execute_root_region_def by (intro abind_cong refl body) simp
  qed
  then show ?thesis unfolding execute_def
    by (intro abind_cong_sound [OF sound_prepare_execution]) (auto intro: abind_cong)
qed

end
