(* ===== verification/Engine_Release.thy ===== *)
theory Engine_Release
  imports Engine_Depth
begin

text \<open>
  When an Effect reaches its provider. Every environment can be made to record, in order, the commands
  the runtime submits, with whether they were applied, and the requests it sends to the plugin. The
  lemmas are Hoare triples on this record: \<open>keeps I P m Q\<close> says that \<open>m\<close> only extends it, keeps the
  invariant \<open>I\<close> even when it fails, and establishes \<open>Q\<close> of its value when it succeeds.
\<close>

section \<open>The record\<close>

datatype call = Submitted command bool | Asked plugin_request

definition traced :: "'w runtime_env \<Rightarrow> ('w \<times> call list) runtime_env" where
  "traced E = \<lparr>re_host = re_host E, re_decode = re_decode E, re_compiles = re_compiles E, re_accepts = re_accepts E,
     re_insert_plan = (\<lambda>plan (w, t). case re_insert_plan E plan w of (r, w) \<Rightarrow> (r, (w, t))),
     re_put_artifact = (\<lambda>kind bytes (w, t). case re_put_artifact E kind bytes w of (r, w) \<Rightarrow> (r, (w, t))),
     re_artifact = (\<lambda>(w, t). re_artifact E w),
     re_material_digest = re_material_digest E,
     re_submit = (\<lambda>envelope (w, t). case re_submit E envelope w of
        (r, w) \<Rightarrow> (r, (w, t @ [Submitted (cm_command envelope) (r = Ok ReceiptApplied)]))),
     re_projection = (\<lambda>(w, t). re_projection E w),
     re_digest = re_digest E,
     re_verify_replay = (\<lambda>(w, t). re_verify_replay E w),
     re_invoke_bound = (\<lambda>request (w, t). case re_invoke_bound E request w of (r, w) \<Rightarrow> (r, (w, t @ [Asked request]))),
     re_admit_plan = re_admit_plan E, re_binding_bytes = re_binding_bytes E, re_binding_ref = re_binding_ref E,
     re_occurrence_binding = re_occurrence_binding E\<rparr>"

abbreviation trace :: "('w \<times> call list) runtime \<Rightarrow> call list" where
  "trace s \<equiv> snd (rt_world s)"

section \<open>Triples\<close>

type_synonym trace_pred = "call list \<Rightarrow> bool"

definition keeps :: "trace_pred \<Rightarrow> trace_pred \<Rightarrow> ('w \<times> call list, 'a) act \<Rightarrow> ('a \<Rightarrow> trace_pred) \<Rightarrow> bool" where
  "keeps I P m Q \<longleftrightarrow> (\<forall>s r s'. m s = (r, s') \<longrightarrow> I (trace s) \<longrightarrow> P (trace s) \<longrightarrow>
     (\<exists>u. trace s' = trace s @ u) \<and> I (trace s') \<and> (\<forall>x. r = Ok x \<longrightarrow> Q x (trace s')))"

definition lasting :: "trace_pred \<Rightarrow> bool" where
  "lasting P \<longleftrightarrow> (\<forall>t u. P t \<longrightarrow> P (t @ u))"

lemma keeps_post: "keeps I P m Q \<Longrightarrow> (\<And>x t. Q x t \<Longrightarrow> Q' x t) \<Longrightarrow> keeps I P m Q'"
  unfolding keeps_def by blast

lemma keeps_pre: "keeps I P m Q \<Longrightarrow> (\<And>t. P' t \<Longrightarrow> P t) \<Longrightarrow> keeps I P' m Q"
  unfolding keeps_def by blast

lemma keeps_frame:
  assumes "keeps I P m Q" "lasting F"
  shows "keeps I (\<lambda>t. P t \<and> F t) m (\<lambda>x t. Q x t \<and> F t)"
  using assms unfolding keeps_def lasting_def by metis

lemma keeps_abind:
  assumes "keeps I P m R" "\<And>x. keeps I (R x) (f x) Q"
  shows "keeps I P (abind m f) Q"
  unfolding keeps_def
proof (intro allI impI)
  fix s r s'
  assume run: "abind m f s = (r, s')" and pre: "I (trace s)" "P (trace s)"
  obtain q t where m: "m s = (q, t)" by (cases "m s") auto
  have "(\<exists>u. trace t = trace s @ u) \<and> I (trace t) \<and> (\<forall>x. q = Ok x \<longrightarrow> R x (trace t))"
    using assms(1) m pre unfolding keeps_def by blast
  then obtain u where u: "trace t = trace s @ u" "I (trace t)" "\<And>x. q = Ok x \<Longrightarrow> R x (trace t)" by blast
  show "(\<exists>u. trace s' = trace s @ u) \<and> I (trace s') \<and> (\<forall>x. r = Ok x \<longrightarrow> Q x (trace s'))"
  proof (cases q)
    case (Inl e)
    with run m u show ?thesis by (auto simp: abind_def)
  next
    case (Inr x)
    with run m have f: "f x t = (r, s')" by (simp add: abind_def)
    have "R x (trace t)" using u(3) Inr by simp
    then have "(\<exists>v. trace s' = trace t @ v) \<and> I (trace s') \<and> (\<forall>x. r = Ok x \<longrightarrow> Q x (trace s'))"
      using assms(2) [of x] f u(2) unfolding keeps_def by blast
    with u(1) show ?thesis by auto
  qed
qed

lemma keeps_aret: "(\<And>t. P t \<Longrightarrow> Q x t) \<Longrightarrow> keeps I P (aret x) Q"
  by (auto simp: keeps_def aret_def)

lemma keeps_afail: "keeps I P (afail e) Q"
  by (auto simp: keeps_def afail_def)

lemma keeps_lifted: "keeps I P (lifted m) (\<lambda>x t. P t \<and> m = Ok x)"
  by (auto simp: keeps_def lifted_def)

lemma keeps_reading: "keeps I P (reading g) (\<lambda>_. P)"
  by (auto simp: keeps_def reading_def)

text \<open>Actions that record nothing.\<close>

definition quiet :: "('w \<times> call list, 'a) act \<Rightarrow> bool" where
  "quiet m \<longleftrightarrow> (\<forall>s. trace (snd (m s)) = trace s)"

lemma keeps_quiet: "quiet m \<Longrightarrow> keeps I P m (\<lambda>_. P)"
  unfolding quiet_def keeps_def by (metis append_Nil2 snd_conv)

lemma quiet_world_step: "(\<And>w t. snd (snd (g (w, t))) = t) \<Longrightarrow> quiet (world_step g)"
  by (auto simp: quiet_def world_step_def split: prod.splits) (metis snd_conv surjective_pairing)

lemma quiet_abind: "quiet m \<Longrightarrow> (\<And>x. quiet (f x)) \<Longrightarrow> quiet (abind m f)"
  by (auto simp: quiet_def abind_def split: prod.splits sum.splits) (metis snd_conv)+

lemma quiet_pure: "quiet (lifted m)" "quiet (aret x)" "quiet (afail e)" "quiet (reading g)"
  by (auto simp: quiet_def lifted_def aret_def afail_def reading_def)

lemma quiet_calls:
  "quiet (calling f (re_put_artifact (traced E) kind bytes))" "quiet (calling f (re_insert_plan (traced E) plan))"
  "quiet (next_command_id E' run_id)" "quiet (find_run E' run_id)"
  unfolding calling_def find_run_def
  by (auto intro!: quiet_abind quiet_world_step quiet_pure simp: traced_def split: prod.splits)
    (auto simp: quiet_def next_command_id_def split: sum.splits)

lemmas quiet = quiet_pure quiet_calls

section \<open>Authorised dispatch\<close>

text \<open>The three records of a prepared Effect.\<close>

definition preparation :: "string \<Rightarrow> string \<Rightarrow> string \<Rightarrow> json \<Rightarrow> call list \<Rightarrow> bool" where
  "preparation scope operation intent_id v u \<longleftrightarrow>
     (\<exists>inv path d region site oc args eb ob.
        u = [Submitted (ProposeEffect scope inv path d region site oc operation args eb ob) True,
             Asked (PrepareEffect operation intent_id v), Submitted (TransitionEffect intent_id Prepare) True])"

definition eager_observation :: "effect_contract \<Rightarrow> bool" where
  "eager_observation c \<longleftrightarrow> pf_mutation (ec_profile c) = Observational \<and> pf_dispatch (ec_profile c) = Eager"

text \<open>Prepared in a scope; and releasable: not explicit, and observed eagerly or its scope committed since.\<close>

definition held :: "sealed_plan \<Rightarrow> string \<Rightarrow> pending_effect \<Rightarrow> trace_pred" where
  "held plan scope p t \<longleftrightarrow>
     (\<exists>c ante u tail. find_effect plan (pe_operation p) = Some c \<and> pe_dispatch p = pf_dispatch (ec_profile c)
        \<and> preparation scope (pe_operation p) (pe_intent_id p) (pe_input p) u \<and> t = ante @ u @ tail)"

definition releasable :: "sealed_plan \<Rightarrow> string \<Rightarrow> string \<Rightarrow> json \<Rightarrow> trace_pred" where
  "releasable plan operation intent_id v t \<longleftrightarrow>
     (\<exists>c scope ante u tail. find_effect plan operation = Some c \<and> pf_dispatch (ec_profile c) \<noteq> Explicit
        \<and> preparation scope operation intent_id v u \<and> t = ante @ u @ tail
        \<and> (eager_observation c \<or> Submitted (CommitScope scope) True \<in> set tail))"

definition authorised :: "sealed_plan \<Rightarrow> string \<Rightarrow> string \<Rightarrow> json \<Rightarrow> trace_pred" where
  "authorised plan operation intent_id v t \<longleftrightarrow>
     (\<exists>t0. releasable plan operation intent_id v t0 \<and>
        t = t0 @ [Submitted (TransitionEffect intent_id AuthorizeRelease) True,
                  Submitted (TransitionEffect intent_id StartDispatch) True])"

definition dispatches_authorised :: "sealed_plan \<Rightarrow> trace_pred" where
  "dispatches_authorised plan t \<longleftrightarrow>
     (\<forall>pre operation intent_id a v post. t = pre @ Asked (DispatchEffect operation intent_id a v) # post \<longrightarrow>
        authorised plan operation intent_id v pre)"

lemma dispatches_authorised_Nil: "dispatches_authorised plan []"
  by (simp add: dispatches_authorised_def)

lemma dispatches_authorised_snoc:
  assumes "dispatches_authorised plan t"
    "\<And>operation intent_id a v. x = Asked (DispatchEffect operation intent_id a v) \<Longrightarrow> authorised plan operation intent_id v t"
  shows "dispatches_authorised plan (t @ [x])"
  unfolding dispatches_authorised_def
proof (intro allI impI)
  fix pre operation intent_id a v post
  assume t: "t @ [x] = pre @ Asked (DispatchEffect operation intent_id a v) # post"
  show "authorised plan operation intent_id v pre"
  proof (cases post rule: rev_cases)
    case Nil
    with t assms(2) show ?thesis by simp
  next
    case (snoc post' y)
    with t have "t = pre @ Asked (DispatchEffect operation intent_id a v) # post'" by simp
    with assms(1) show ?thesis unfolding dispatches_authorised_def by blast
  qed
qed

lemma lasting_held: "lasting (held plan scope p)"
  unfolding lasting_def held_def by (metis append.assoc)

lemma lasting_releasable: "lasting (releasable plan operation intent_id v)"
proof -
  have "releasable plan operation intent_id v (t @ w)" if r: "releasable plan operation intent_id v t" for t w
  proof -
    obtain c scope ante u tail where "find_effect plan operation = Some c" "pf_dispatch (ec_profile c) \<noteq> Explicit"
      "preparation scope operation intent_id v u" "t = ante @ u @ tail"
      "eager_observation c \<or> Submitted (CommitScope scope) True \<in> set tail"
      using r unfolding releasable_def by blast
    moreover from this have "t @ w = ante @ u @ (tail @ w)"
      "eager_observation c \<or> Submitted (CommitScope scope) True \<in> set (tail @ w)" by auto
    ultimately show ?thesis unfolding releasable_def by blast
  qed
  then show ?thesis by (simp add: lasting_def)
qed

lemma held_commit:
  assumes "held plan scope p t" "pe_dispatch p \<noteq> Explicit"
  shows "releasable plan (pe_operation p) (pe_intent_id p) (pe_input p) (t @ [Submitted (CommitScope scope) True])"
proof -
  obtain c ante u tail where "find_effect plan (pe_operation p) = Some c" "pe_dispatch p = pf_dispatch (ec_profile c)"
    "preparation scope (pe_operation p) (pe_intent_id p) (pe_input p) u" "t = ante @ u @ tail"
    using assms(1) unfolding held_def by blast
  moreover from this have "t @ [Submitted (CommitScope scope) True] = ante @ u @ (tail @ [Submitted (CommitScope scope) True])"
    by simp
  moreover have "Submitted (CommitScope scope) True \<in> set (tail @ [Submitted (CommitScope scope) True])" by simp
  ultimately show ?thesis using assms(2) unfolding releasable_def by metis
qed

section \<open>The recorded operations\<close>

abbreviation keeping :: "sealed_plan \<Rightarrow> trace_pred \<Rightarrow> ('w \<times> call list, 'a) act \<Rightarrow> ('a \<Rightarrow> trace_pred) \<Rightarrow> bool" where
  "keeping plan \<equiv> keeps (dispatches_authorised plan)"

text \<open>A record that a success appends.\<close>

definition after :: "trace_pred \<Rightarrow> call \<Rightarrow> trace_pred" where
  "after P x t \<longleftrightarrow> (\<exists>t0. P t0 \<and> t = t0 @ [x])"

lemma keeping_submit_world:
  "keeping plan P (calling CoreFailure (re_submit (traced E) envelope))
     (\<lambda>status t. after P (Submitted (cm_command envelope) (status = ReceiptApplied)) t)"
  unfolding keeps_def calling_def
  by (auto simp: abind_def world_step_def lifted_def raising_def traced_def after_def
      intro!: dispatches_authorised_snoc split: prod.splits sum.splits)

lemma keeping_submit: "keeping plan P (submit (traced E) run_id c) (\<lambda>_. after P (Submitted c True))"
proof -
  have expected: "keeping plan P (case c of StartRun _ _ _ _ _ \<Rightarrow> aret None
      | _ \<Rightarrow> abind (find_run (traced E) run_id) (\<lambda>run. aret (Some (precondition_token run)))) (\<lambda>_. P)"
    by (rule keeps_quiet) (auto split: command.split intro!: quiet quiet_abind)
  have "keeping plan P (submit_with_id (traced E) run_id i c) (\<lambda>_. after P (Submitted c True))" for i
    unfolding submit_with_id_def
    by (rule keeps_abind [OF expected], rule keeps_abind [OF keeping_submit_world])
      (auto intro!: keeps_aret keeps_afail)
  then show ?thesis unfolding submit_def by (rule keeps_abind [OF keeps_quiet [OF quiet(7)]])
qed

lemma keeping_ask:
  assumes "\<And>t operation intent_id a v. P t \<Longrightarrow> request = DispatchEffect operation intent_id a v \<Longrightarrow>
      authorised plan operation intent_id v t"
  shows "keeping plan P (world_step (re_invoke_bound (traced E) request)) (\<lambda>_. after P (Asked request))"
  unfolding keeps_def using assms
  by (auto simp: world_step_def traced_def after_def intro!: dispatches_authorised_snoc split: prod.splits)

lemma keeping_invoke_bound:
  assumes "\<And>operation intent_id a v. request \<noteq> DispatchEffect operation intent_id a v"
  shows "keeping plan P (invoke_bound (traced E) request) (\<lambda>_. after P (Asked request))"
  unfolding invoke_bound_def calling_def
  by (rule keeps_abind [OF keeping_ask]) (use assms in \<open>auto intro: keeps_post [OF keeps_lifted]\<close>)

text \<open>Actions that dispatch nothing.\<close>

named_theorems mild_intros \<open>actions that submit commands and send requests other than dispatches\<close>

abbreviation mild :: "sealed_plan \<Rightarrow> ('w \<times> call list, 'a) act \<Rightarrow> bool" where
  "mild plan m \<equiv> keeping plan (\<lambda>_. True) m (\<lambda>_ _. True)"

lemma mild_abind [mild_intros]: "mild plan m \<Longrightarrow> (\<And>x. mild plan (f x)) \<Longrightarrow> mild plan (abind m f)"
  by (rule keeps_abind [where R = "\<lambda>_ _. True"])

lemma mild_quiet: "quiet m \<Longrightarrow> mild plan m"
  by (rule keeps_post [OF keeps_quiet]) simp_all

lemmas mild_quiets [mild_intros] = quiet [THEN mild_quiet]

lemma mild_submit [mild_intros]: "mild plan (submit (traced E) run_id c)"
  by (rule keeps_post [OF keeping_submit]) simp

lemma mild_invoke_bound: "(\<And>o' i a v. request \<noteq> DispatchEffect o' i a v) \<Longrightarrow> mild plan (invoke_bound (traced E) request)"
  by (rule keeps_post [OF keeping_invoke_bound]) simp_all

lemma mild_ask: "(\<And>o' i a v. request \<noteq> DispatchEffect o' i a v) \<Longrightarrow>
    mild plan (world_step (re_invoke_bound (traced E) request))"
  by (rule keeps_post [OF keeping_ask]; blast)

lemma mild_observe_unknown [mild_intros]: "mild plan (observe_unknown (traced E) run_id i)"
  unfolding observe_unknown_def by (rule mild_submit)

lemma mild_expected_failure [mild_intros]: "mild plan (expected_failure (traced E) run_id f)"
  unfolding expected_failure_def by (intro mild_intros)

lemma mild_yield [mild_intros]: "mild plan (yield_root_attempt (traced E) run_id)"
  unfolding yield_root_attempt_def by (intro mild_intros)

lemma mild_call [mild_intros]: "mild plan (execute_call_step (traced E) ctx c x bind env)"
  unfolding execute_call_step_def
  by (auto split: plugin_response.split intro!: mild_intros mild_invoke_bound)

lemma mild_reconcile [mild_intros]: "mild plan (reconcile_unknown_effect (traced E) d v)"
  unfolding reconcile_unknown_effect_def
  by (auto split: plugin_response.split sum.split runtime_error.split reconciliation_resolution.split
      intro!: mild_intros mild_ask)

lemma keeps_mild: "mild plan m \<Longrightarrow> keeping plan P m (\<lambda>_ _. True)"
  by (erule keeps_pre) simp

section \<open>Dispatching\<close>

lemma keeping_dispatch_effect:
  "keeping plan (releasable plan operation intent_id v) (dispatch_effect (traced E) run_id cs operation intent_id v)
     (\<lambda>_ _. True)"
proof -
  have ask: "keeping plan (authorised plan operation intent_id v)
      (invoke_effect_dispatch (traced E) \<lparr>ed_run_id = run_id, ed_contracts = cs, ed_operation = operation,
         ed_intent_id = intent_id, ed_input = v, ed_provider_attempt = a\<rparr>) (\<lambda>_ _. True)" for a
    unfolding invoke_effect_dispatch_def
    by (rule keeps_abind [OF keeping_ask], simp, rule keeps_mild)
      (auto split: plugin_response.split sum.split intro!: mild_intros)
  have authorised: "after (after (releasable plan operation intent_id v) (Submitted (TransitionEffect intent_id AuthorizeRelease) True))
      (Submitted (TransitionEffect intent_id StartDispatch) True) t \<Longrightarrow> authorised plan operation intent_id v t" for t
    unfolding after_def authorised_def by fastforce
  show ?thesis unfolding dispatch_effect_def Let_def
    apply (rule keeps_abind [OF keeps_quiet], rule quiet)
    apply (rule keeps_abind [OF keeping_submit])
    apply (rule keeps_abind [OF keeping_submit])
    apply (rule keeps_abind [OF keeps_quiet], rule quiet)
    apply (rule keeps_pre [OF keeps_abind [OF ask] authorised])
    by (auto split: option.split prod.split intro!: mild_intros)
qed

definition pending_ok :: "sealed_plan \<Rightarrow> pending_effect list \<Rightarrow> trace_pred" where
  "pending_ok plan pending t \<longleftrightarrow> (\<forall>p\<in>set pending. pe_dispatch p = Explicit
     \<or> releasable plan (pe_operation p) (pe_intent_id p) (pe_input p) t)"

definition pending_held :: "sealed_plan \<Rightarrow> string \<Rightarrow> pending_effect list \<Rightarrow> trace_pred" where
  "pending_held plan scope pending t \<longleftrightarrow> (\<forall>p\<in>set pending. pe_dispatch p = Explicit \<or> held plan scope p t)"

lemma lasting_pending: "lasting (pending_ok plan pending)" "lasting (pending_held plan scope pending)"
  using lasting_releasable lasting_held unfolding lasting_def pending_ok_def pending_held_def by blast+

lemma pending_commit:
  "after (pending_held plan scope pending) (Submitted (CommitScope scope) True) t \<Longrightarrow> pending_ok plan pending t"
  by (auto simp: after_def pending_held_def pending_ok_def intro: held_commit)

text \<open>What is left after dispatching is explicit.\<close>

definition all_explicit :: "pending_dispatch_outcome \<Rightarrow> bool" where
  "all_explicit outcome = (case outcome of PendingSettled ps \<Rightarrow> \<forall>p\<in>set ps. pe_dispatch p = Explicit
     | PendingReconciliationRequired _ \<Rightarrow> True)"

lemma all_explicit_simps [simp]:
  "all_explicit (PendingSettled ps) \<longleftrightarrow> (\<forall>p\<in>set ps. pe_dispatch p = Explicit)"
  "all_explicit (PendingReconciliationRequired i)"
  by (simp_all add: all_explicit_def)

lemma keeping_dispatch_pending:
  "keeping plan (pending_ok plan pending) (dispatch_pending (traced E) run_id cs pending) (\<lambda>outcome _. all_explicit outcome)"
proof -
  have "keeping plan (pending_ok plan pending) (dispatch_each (traced E) run_id cs pending explicit) (\<lambda>outcome _. all_explicit outcome)"
    if "\<forall>p\<in>set explicit. pe_dispatch p = Explicit" for explicit
    using that
  proof (induction pending arbitrary: explicit)
    case Nil
    then show ?case by (auto intro!: keeps_aret)
  next
    case (Cons p pending)
    show ?case
    proof (cases "pe_dispatch p = Explicit")
      case True
      with Cons show ?thesis by (auto intro!: keeps_pre [OF Cons.IH] simp: pending_ok_def)
    next
      case False
      have "keeping plan (\<lambda>t. releasable plan (pe_operation p) (pe_intent_id p) (pe_input p) t \<and> pending_ok plan pending t)
          (dispatch_effect (traced E) run_id cs (pe_operation p) (pe_intent_id p) (pe_input p))
          (\<lambda>_ t. True \<and> pending_ok plan pending t)"
        by (rule keeps_frame [OF keeping_dispatch_effect lasting_pending(1)])
      then have "keeping plan (pending_ok plan (p # pending))
          (dispatch_effect (traced E) run_id cs (pe_operation p) (pe_intent_id p) (pe_input p)) (\<lambda>_. pending_ok plan pending)"
        using False by (auto elim!: keeps_pre [OF keeps_post] simp: pending_ok_def)
      then show ?thesis using False Cons.prems
        by (auto split: effect_dispatch_outcome.split intro!: keeps_abind Cons.IH keeps_aret)
    qed
  qed
  then show ?thesis by (simp add: dispatch_pending_def)
qed

section \<open>Steps and regions\<close>

lemma keeping_prepare: "keeping plan P (invoke_effect_prepare (traced E) effect i v) (\<lambda>_. after P (Asked (PrepareEffect effect i v)))"
  unfolding invoke_effect_prepare_def
  by (rule keeps_abind [OF keeping_invoke_bound], simp)
    (auto split: plugin_response.split intro!: keeps_aret keeps_afail keeps_abind [OF keeps_lifted])

definition prepared :: "region_execution \<Rightarrow> string \<Rightarrow> pending_effect \<times> bool \<Rightarrow> trace_pred" where
  "prepared context effect r t \<longleftrightarrow> (case r of (p, eager) \<Rightarrow>
     held (rx_plan context) (rx_scope_id context) p t
     \<and> (eager \<longrightarrow> releasable (rx_plan context) effect (pe_intent_id p) (pe_input p) t))"

lemma keeping_prepare_effect:
  "keeping (rx_plan ctx) (\<lambda>_. True) (prepare_effect (traced E) ctx i e x k env) (prepared ctx e)"
proof -
  have prepared: "prepared ctx e (\<lparr>pe_intent_id = j, pe_operation = e, pe_input = v, pe_dispatch = pf_dispatch (ec_profile c)\<rparr>,
        pf_mutation (ec_profile c) = Observational \<and> pf_dispatch (ec_profile c) = Eager) t"
    if t: "after (after (after (\<lambda>_. True) (Submitted (ProposeEffect (rx_scope_id ctx) inv path d region i k e args eb ob) True))
        (Asked (PrepareEffect e j v))) (Submitted (TransitionEffect j Prepare) True) t"
      and c: "ok_or (Internal EffectContractMissing) (find_effect (rx_plan ctx) e) = Ok c"
    for j v c inv path d region args eb ob t
  proof -
    have c: "find_effect (rx_plan ctx) e = Some c" using c by simp
    obtain ante u where u: "preparation (rx_scope_id ctx) e j v u" "t = ante @ u @ []"
      using t unfolding after_def preparation_def by fastforce
    show ?thesis unfolding prepared_def prod.case
    proof (intro conjI impI)
      show "held (rx_plan ctx) (rx_scope_id ctx)
          \<lparr>pe_intent_id = j, pe_operation = e, pe_input = v, pe_dispatch = pf_dispatch (ec_profile c)\<rparr> t"
        unfolding held_def using c u by fastforce
      assume "pf_mutation (ec_profile c) = Observational \<and> pf_dispatch (ec_profile c) = Eager"
      then have "eager_observation c" "pf_dispatch (ec_profile c) \<noteq> Explicit" by (simp_all add: eager_observation_def)
      then show "releasable (rx_plan ctx) e (pe_intent_id \<lparr>pe_intent_id = j, pe_operation = e, pe_input = v,
          pe_dispatch = pf_dispatch (ec_profile c)\<rparr>) (pe_input \<lparr>pe_intent_id = j, pe_operation = e, pe_input = v,
          pe_dispatch = pf_dispatch (ec_profile c)\<rparr>) t"
        unfolding releasable_def using c u by fastforce
    qed
  qed
  show ?thesis unfolding prepare_effect_def
    apply (rule keeps_abind [OF keeps_quiet], rule quiet)+
    apply (rule keeps_abind [OF keeping_submit])
    apply (rule keeps_abind [OF keeping_prepare])
    apply (rule keeps_abind [OF keeping_submit])
    apply (rule keeps_abind [OF keeps_lifted])
    apply (rule keeps_aret)
    using prepared by blast
qed

text \<open>A step ends its region early only with a suspension or a reconciliation.\<close>

fun interrupted :: "region_outcome \<Rightarrow> bool" where
  "interrupted (RegionCompleted _ _) \<longleftrightarrow> False"
| "interrupted (RegionSuspended _) \<longleftrightarrow> True"
| "interrupted (RegionReconciliationRequired _) \<longleftrightarrow> True"

definition step_held :: "sealed_plan \<Rightarrow> string \<Rightarrow> region_step_outcome \<Rightarrow> trace_pred" where
  "step_held plan scope outcome t = (case outcome of Continue pending _ \<Rightarrow> pending_held plan scope pending t | Return r \<Rightarrow> interrupted r)"

definition region_held :: "sealed_plan \<Rightarrow> string \<Rightarrow> region_outcome \<Rightarrow> trace_pred" where
  "region_held plan scope outcome t = (case outcome of RegionCompleted _ pending \<Rightarrow> pending_held plan scope pending t | _ \<Rightarrow> True)"

lemma held_simps [simp]:
  "step_held plan scope (Continue pending env) = pending_held plan scope pending" "step_held plan scope (Return r) t \<longleftrightarrow> interrupted r"
  "region_held plan scope (RegionCompleted v pending) = pending_held plan scope pending"
  "region_held plan scope (RegionSuspended b) t" "region_held plan scope (RegionReconciliationRequired i) t"
  by (simp_all add: step_held_def region_held_def fun_eq_iff)

lemma pending_held_simps [simp]:
  "pending_held plan scope [] t"
  "pending_held plan scope (ps @ qs) t \<longleftrightarrow> pending_held plan scope ps t \<and> pending_held plan scope qs t"
  by (auto simp: pending_held_def)

lemma keeping_effect_step:
  assumes "rx_plan ctx = plan" "rx_scope_id ctx = scope"
  shows "keeping plan (\<lambda>_. True) (execute_effect_step (traced E) ctx i e x k bind env) (step_held plan scope)"
proof -
  note prep = keeping_prepare_effect [of ctx E i e x k env, unfolded assms]
  show ?thesis unfolding execute_effect_step_def
  proof (rule keeps_abind [OF prep])
    fix r :: "pending_effect \<times> bool"
    obtain p eager where r: "r = (p, eager)" by (cases r)
    show "keeping plan (prepared ctx e r)
      (case r of (pending, eager_observational) \<Rightarrow>
        if \<not> eager_observational then aret (Continue [pending] env)
        else abind (dispatch_effect (traced E) (rx_run_id ctx) (rx_contracts ctx) e (pe_intent_id pending) (pe_input pending))
         (\<lambda>outcome. case outcome of
            DispatchSettled result \<Rightarrow> aret (Continue [] (case (bind, result) of (Some b, Some v) \<Rightarrow> fmupd b v env | _ \<Rightarrow> env))
          | DispatchReconciliationRequired intent_id \<Rightarrow> aret (Return (RegionReconciliationRequired intent_id))))
      (step_held plan scope)"
    proof (cases eager)
      case False
      with r assms show ?thesis by (auto intro!: keeps_aret simp: prepared_def pending_held_def)
    next
      case True
      then have "prepared ctx e r t \<Longrightarrow> releasable plan e (pe_intent_id p) (pe_input p) t" for t
        using r assms by (simp add: prepared_def)
      then show ?thesis unfolding r prod.case using True
        by (auto split: effect_dispatch_outcome.split
            intro!: keeps_abind [OF keeps_pre [OF keeping_dispatch_effect]] keeps_aret)
    qed
  qed
qed

lemma keeping_execution:
  shows "E' = traced E \<Longrightarrow> rx_plan ctx = plan \<Longrightarrow>
      keeping plan (\<lambda>_. True) (execute_region E' fuel r ctx env) (region_held plan (rx_scope_id ctx))"
  and "E' = traced E \<Longrightarrow> rx_plan ctx = plan \<Longrightarrow>
      keeping plan (pending_held plan (rx_scope_id ctx) pending) (execute_steps E' fuel k ss ctx pending env)
        (step_held plan (rx_scope_id ctx))"
  and "E' = traced E \<Longrightarrow> rx_plan ctx = plan \<Longrightarrow>
      keeping plan (\<lambda>_. True) (execute_invoke_step E' fuel ctx i t x bind env) (step_held plan (rx_scope_id ctx))"
  and "E' = traced E \<Longrightarrow> rx_plan ctx = plan \<Longrightarrow>
      keeping plan (\<lambda>_. True) (execute_scope_step E' fuel ctx k i body bind env) (step_held plan (rx_scope_id ctx))"
proof (induction E' fuel r ctx env and E' fuel k ss ctx pending env and E' fuel ctx i t x bind env and E' fuel ctx k i body bind env
    rule: execute_region_execute_steps_execute_invoke_step_execute_scope_step.induct)
  case (1 E' fuel steps result ctx env)
  have steps: "keeping plan (\<lambda>_. True) (execute_steps E' fuel 0 steps ctx [] env) (step_held plan (rx_scope_id ctx))"
    by (rule keeps_pre [OF 1(1) [OF 1(2,3)]]) simp
  have finish: "keeping plan (pending_held plan (rx_scope_id ctx) pending)
      (abind (lifted (evaluate result (rx_input ctx) env')) (\<lambda>v.
       abind (case rx_result_definition ctx of None \<Rightarrow> aret ()
         | Some d \<Rightarrow> lifted (of_contract (validate_definition_output (re_accepts E') (rx_contracts ctx) d v))) (\<lambda>_.
       aret (RegionCompleted v pending)))) (region_held plan (rx_scope_id ctx))" for pending env'
    by (rule keeps_abind [OF keeps_quiet], rule quiet, rule keeps_abind [OF keeps_quiet])
      (auto split: option.split intro!: quiet keeps_aret)
  have interrupted: "interrupted r \<Longrightarrow> region_held plan (rx_scope_id ctx) r t" for r t by (cases r) simp_all
  show ?case unfolding execute_region.simps
    by (rule keeps_abind [OF steps]) (auto split: region_step_outcome.split intro!: keeps_aret finish interrupted)
next
  case (2 E' fuel k ctx pending env)
  then show ?case by (simp add: execute_steps.simps keeps_aret)
next
  case (3 E' fuel k i op steps ctx pending env)
  let ?scope = "rx_scope_id ctx"
  let ?head = "case op of
         OpCall component input bind \<Rightarrow>
           abind (execute_call_step E' ctx component input bind env) (\<lambda>env. aret (Continue [] env))
       | OpInvoke target input bind \<Rightarrow> execute_invoke_step E' fuel ctx i target input bind env
       | OpWait wait bind \<Rightarrow>
           aret (Return (RegionSuspended \<lparr>sb_run_id = [], sb_plan_id = [], sb_definition_id = rx_definition_id ctx,
             sb_invocation_id = rx_invocation_id ctx, sb_site_id = i, sb_wait = wait, sb_result_bind = bind\<rparr>))
       | OpEffect effect input occurrence bind \<Rightarrow> execute_effect_step E' ctx i effect input occurrence bind env
       | OpScope body bind \<Rightarrow> execute_scope_step E' fuel ctx k i body bind env"
  have "keeping plan (\<lambda>_. True) ?head (step_held plan ?scope)"
  proof (cases op)
    case (OpCall c x b)
    then show ?thesis using 3(4) by (auto intro!: keeps_abind [OF mild_call] keeps_aret)
  next
    case (OpInvoke t x b)
    then show ?thesis using 3(1) [OF OpInvoke 3(4,5)] by simp
  next
    case (OpWait w b)
    then show ?thesis by (auto intro!: keeps_aret)
  next
    case (OpEffect e x k' b)
    then show ?thesis using keeping_effect_step [OF 3(5) refl] 3(4) by simp
  next
    case (OpScope body b)
    then show ?thesis using 3(2) [OF OpScope 3(4,5)] by simp
  qed
  then have head: "keeping plan (pending_held plan ?scope pending) ?head
      (\<lambda>outcome t. step_held plan ?scope outcome t \<and> pending_held plan ?scope pending t)"
    by (rule keeps_pre [OF keeps_frame [OF _ lasting_pending(2)]]) simp
  show ?case unfolding execute_steps.simps
  proof (rule keeps_abind [OF head])
    fix outcome
    show "keeping plan (\<lambda>t. step_held plan ?scope outcome t \<and> pending_held plan ?scope pending t)
      (case outcome of Return outcome \<Rightarrow> aret (Return outcome)
       | Continue child_pending env \<Rightarrow> execute_steps E' fuel (Suc k) steps ctx (pending @ child_pending) env)
      (step_held plan ?scope)"
    proof (cases outcome)
      case (Continue child env')
      show ?thesis unfolding Continue region_step_outcome.case
        by (rule keeps_pre [OF 3(3) [OF 3(4,5)]]) simp
    next
      case (Return r)
      then show ?thesis by (auto intro!: keeps_aret)
    qed
  qed
next
  case (4 E' fuel ctx i target x bind env)
  have body: "keeping plan (\<lambda>_. True)
      (case fuel of 0 \<Rightarrow> afail OutOfFuel | Suc fuel \<Rightarrow> execute_region E' fuel r (ctx\<lparr>rx_input := v, rx_invocation_id := j,
         rx_invocation_path := path, rx_definition_id := target, rx_region_path := [], rx_result_definition := Some target\<rparr>) fmempty)
      (region_held plan (rx_scope_id ctx))"
    if "path = rx_invocation_path ctx @ [\<lparr>ip_site_id = i, ip_region_path = rx_region_path ctx, ip_scope_id = rx_scope_id ctx\<rparr>]"
      "r = df_body d"
    for r v j path and d :: flow_definition
  proof (cases fuel)
    case (Suc n)
    show ?thesis unfolding Suc nat.case that(2) by (rule keeps_post [OF 4(1) [OF that(1) Suc 4(2)]]) (simp_all add: 4(3))
  qed (simp add: keeps_afail)
  show ?case unfolding execute_invoke_step.simps Let_def
    by (rule keeps_abind [OF keeps_quiet], rule quiet)+
      (rule keeps_abind [OF body], rule refl, rule refl, auto split: region_outcome.split intro!: keeps_aret)
next
  case (5 E' fuel ctx k i body bind env)
  have region: "keeping plan (\<lambda>_. True) (execute_region E' fuel body (ctx\<lparr>rx_scope_id := scope,
      rx_region_path := rx_region_path ctx @ [k], rx_result_definition := None\<rparr>) env) (region_held plan scope)" for scope
    using 5(1) [OF refl 5(2), of scope] 5(3) by simp
  have settle: "keeping plan (pending_held plan scope pending)
      (abind (submit E' (rx_run_id ctx) (CommitScope scope)) (\<lambda>_.
       abind (dispatch_pending E' (rx_run_id ctx) (rx_contracts ctx) pending) (\<lambda>dispatched.
       case dispatched of
         PendingSettled child_pending \<Rightarrow> aret (Continue child_pending (bind_value bind v env))
       | PendingReconciliationRequired intent_id \<Rightarrow> aret (Return (RegionReconciliationRequired intent_id)))))
      (step_held plan (rx_scope_id ctx))" for scope pending v
    unfolding 5(2)
    by (rule keeps_abind [OF keeping_submit], rule keeps_abind [OF keeps_pre [OF keeping_dispatch_pending pending_commit]])
      (auto split: pending_dispatch_outcome.split intro!: keeps_aret simp: pending_held_def)
  show ?case unfolding execute_scope_step.simps Let_def
    apply (rule keeps_abind [OF keeps_quiet], rule quiet)
    apply (unfold 5(2), rule keeps_abind [OF mild_submit], fold 5(2))
    apply (rule keeps_abind [OF region])
    by (auto split: region_outcome.split intro!: keeps_aret settle)
qed

section \<open>Whole executions\<close>

lemma mild_submit_with_id: "mild plan (submit_with_id (traced E) run_id i c)"
proof -
  have "mild plan (case c of StartRun _ _ _ _ _ \<Rightarrow> aret None
      | _ \<Rightarrow> abind (find_run (traced E) run_id) (\<lambda>run. aret (Some (precondition_token run))))"
    by (auto split: command.split intro!: mild_intros)
  moreover have "mild plan (calling CoreFailure (re_submit (traced E) envelope))" for envelope
    by (rule keeps_post [OF keeping_submit_world]) simp
  ultimately show ?thesis unfolding submit_with_id_def by (intro mild_abind) (auto intro: mild_intros)
qed

lemma mild_prepare_execution: "mild plan' (prepare_execution (traced E) plan input run_id)"
  unfolding prepare_execution_def submit_start_run_def
  by (auto split: prod.split intro!: mild_intros mild_submit_with_id)

lemma mild_finish_parts:
  "mild plan (verify_replay (traced E))" "mild plan (reconciliation_outcome (traced E) run_id plan_id intent_id)"
  unfolding verify_replay_def reconciliation_outcome_def by (intro mild_intros)+

lemma keeping_finish:
  "keeping plan (region_held plan ROOT_SCOPE_ID outcome) (finish_execution (traced E) run_id plan' cs outcome) (\<lambda>_ _. True)"
proof (cases outcome)
  case (RegionCompleted v pending)
  have rest: "keeping plan (\<lambda>t. all_explicit dispatched)
      (case dispatched of
       PendingReconciliationRequired intent_id \<Rightarrow> reconciliation_outcome (traced E) run_id plan_id intent_id
     | PendingSettled pending \<Rightarrow>
         let explicit = remdups_adj (sort (map pe_intent_id pending)) in
         if explicit \<noteq> [] then
           abind (yield_root_attempt (traced E) run_id) (\<lambda>_.
           abind (verify_replay (traced E)) (\<lambda>_.
           aret (ExecutionReleaseRequired run_id plan_id explicit)))
         else
           abind (yield_root_attempt (traced E) run_id) (\<lambda>_.
           abind (lifted (of_core (canonical_bytes (re_host (traced E)) v))) (\<lambda>result_bytes.
           abind (calling CoreFailure (re_put_artifact (traced E) RESULT_ARTIFACT_KIND result_bytes)) (\<lambda>result_ref.
           abind (submit (traced E) run_id (CompleteRun (Some result_ref))) (\<lambda>_.
           abind (verify_replay (traced E)) (\<lambda>_.
           abind (find_run (traced E) run_id) (\<lambda>run.
           abind (reading (\<lambda>s. of_core (re_digest (traced E) (re_projection (traced E) (rt_world s))))) (\<lambda>digest.
           aret (ExecutionCompleted \<lparr>er_run_id = run_id, er_plan_id = plan_id, er_value = v, er_projection_digest = digest,
             er_precondition_token = precondition_token run, er_effects = map fst (entries_of (rn_effects run))\<rparr>))))))))) (\<lambda>_ _. True)"
    for dispatched plan_id
    by (rule keeps_mild) (auto split: pending_dispatch_outcome.split simp: Let_def intro!: mild_intros mild_finish_parts)
  show ?thesis unfolding RegionCompleted finish_execution_def region_outcome.case finish_completed_execution_def held_simps
    by (rule keeps_abind [OF keeping_submit], rule keeps_abind [OF keeps_pre [OF keeping_dispatch_pending pending_commit]])
      (simp, rule rest)
qed (simp_all add: finish_execution_def, (rule keeps_mild, intro mild_intros mild_finish_parts)+)

lemma execution_dispatches_authorised:
  assumes "execute (traced E) fuel plan input run_id \<lparr>rt_world = (w, []), rt_command_sequence = n\<rparr> = (r, s)"
  shows "dispatches_authorised plan (trace s)"
proof -
  have root: "keeping plan (\<lambda>_. True) (execute_root_region (traced E) fuel run_id plan cs d input)
      (region_held plan ROOT_SCOPE_ID)" for cs d
    unfolding execute_root_region_def
    by (rule keeps_abind [OF keeps_quiet], rule quiet, rule keeps_post [OF keeping_execution(1) [OF refl]]) simp_all
  have "mild plan (execute (traced E) fuel plan input run_id)"
    unfolding execute_def
    by (rule mild_abind [OF mild_prepare_execution]) (auto intro: keeps_abind [OF root keeping_finish])
  with assms show ?thesis
    unfolding keeps_def by (auto simp: dispatches_authorised_Nil)
qed

end
