(* ===== verification/Engine_Properties.thy ===== *)
theory Engine_Properties
  imports Engine_Release Plan_Properties
begin

text \<open>
  The properties of the embedded runtime, with executions of small Plans over a Machine that accepts
  every command and a plugin that answers every request.
\<close>

section \<open>A cooperative environment\<close>

text \<open>The host of the demonstrations, a decoder for one Plan, and a plugin that reports one outcome.\<close>

definition demo_answer :: "world_outcome \<Rightarrow> plugin_request \<Rightarrow> plugin_response" where
  "demo_answer outcome request = (case request of
      CallRequest _ _ \<Rightarrow> CallResult (JInt 5)
    | PrepareEffect _ _ _ \<Rightarrow> PreparedResponse
    | DispatchEffect _ _ attempt _ \<Rightarrow> EffectResult attempt outcome None
    | _ \<Rightarrow> ManifestResponse)"

definition demo_env :: "plan_candidate \<Rightarrow> world_outcome \<Rightarrow> unit runtime_env" where
  "demo_env p outcome = \<lparr>re_host = demo_host, re_decode = (\<lambda>_. Ok p), re_compiles = (\<lambda>_. True), re_accepts = (\<lambda>_ _. True),
     re_insert_plan = (\<lambda>_ w. (Ok (), w)), re_put_artifact = (\<lambda>kind _ w. (Ok (demo_ref kind), w)),
     re_artifact = (\<lambda>_ r. Some \<lparr>ak_reference = r, ak_bytes = []\<rparr>), re_material_digest = (\<lambda>_ _ _ _. Ok (demo_id CHR ''d'')),
     re_submit = (\<lambda>_ w. (Ok ReceiptApplied, w)),
     re_projection = (\<lambda>_. \<lparr>pj_runs = fmap_of_list [(''run'', started_run ''run'' ''event'' ''plan'' ''main'' [] [])], pj_facts = fmempty\<rparr>),
     re_digest = (\<lambda>_. Ok (demo_id CHR ''e'')), re_verify_replay = (\<lambda>_. Ok ()),
     re_invoke_bound = (\<lambda>request w. (Ok (demo_answer outcome request), w)),
     re_admit_plan = (\<lambda>_. Ok ()), re_binding_bytes = Ok [],
     re_binding_ref = Ok (demo_ref EXECUTION_BINDING_ARTIFACT_KIND),
     re_occurrence_binding = (\<lambda>_. Ok (demo_id CHR ''c''))\<rparr>"



definition sealed_demo :: "plan_candidate \<Rightarrow> sealed_plan" where
  "sealed_demo p = \<lparr>sl_plan_id = or_empty (content_id demo_host PLAN_ID_DOMAIN (json_of_plan p)), sl_candidate = p\<rparr>"

definition demo_execution ::
  "plan_candidate \<Rightarrow> world_outcome \<Rightarrow> (engine_error + execution_outcome) \<times> (unit \<times> call list) runtime" where
  "demo_execution p outcome = execute (traced (demo_env p outcome)) (length (pn_definitions p)) (sealed_demo p) (JInt 1) ''run''
     \<lparr>rt_world = ((), []), rt_command_sequence = 0\<rparr>"

text \<open>The first Plan's execution dispatches its Effect after nine other calls; the second one's observation is
  not applied, has no value, and its result expression fails.\<close>

lemma demo_execution_dispatches:
  "case drop 9 (trace (snd (demo_execution (demo_plan []) Applied))) of
     Asked (DispatchEffect operation _ _ v) # _ \<Rightarrow> operation = ''charge'' \<and> v = JInt 5 | _ \<Rightarrow> False"
  by code_simp


section \<open>Properties\<close>

text \<open>
  C8: Effects are released in order. Whatever the Machine accepts and the plugin answers, a request that
  dispatches an Effect comes directly after the accepted commands that authorised its release and
  started its dispatch; before these the Effect was proposed in a scope, prepared by the plugin with the
  same input and recorded as prepared; and unless it is an eager observation, its scope was committed in
  between. An Effect whose contract asks for explicit release is never dispatched.
\<close>

theorem effects_released_in_order:
  assumes "execute (traced E) fuel plan input run_id \<lparr>rt_world = (w, []), rt_command_sequence = n\<rparr> = (r, s)"
    and "trace s = pre @ Asked (DispatchEffect operation intent_id attempt v) # post"
  shows "\<exists>contract scope ante prepared mid.
    find_effect plan operation = Some contract
    \<and> pf_dispatch (ec_profile contract) \<noteq> Explicit
    \<and> pre = ante @ prepared @ mid @
        [Submitted (TransitionEffect intent_id AuthorizeRelease) True, Submitted (TransitionEffect intent_id StartDispatch) True]
    \<and> preparation scope operation intent_id v prepared
    \<and> (eager_observation contract \<or> Submitted (CommitScope scope) True \<in> set mid)"
proof -
  have "authorised plan operation intent_id v pre"
    using execution_dispatches_authorised [OF assms(1)] assms(2) unfolding dispatches_authorised_def by blast
  then show ?thesis unfolding authorised_def releasable_def by (metis append.assoc)
qed

theorem effects_released_in_order_witness:
  "\<exists>pre intent_id attempt post contract scope ante prepared mid.
    trace (snd (demo_execution (demo_plan []) Applied)) = pre @ Asked (DispatchEffect ''charge'' intent_id attempt (JInt 5)) # post
    \<and> find_effect (sealed_demo (demo_plan [])) ''charge'' = Some contract
    \<and> pre = ante @ prepared @ mid @
        [Submitted (TransitionEffect intent_id AuthorizeRelease) True, Submitted (TransitionEffect intent_id StartDispatch) True]
    \<and> preparation scope ''charge'' intent_id (JInt 5) prepared
    \<and> (eager_observation contract \<or> Submitted (CommitScope scope) True \<in> set mid)"
proof -
  obtain r s where run: "demo_execution (demo_plan []) Applied = (r, s)" by (cases "demo_execution (demo_plan []) Applied")
  obtain intent_id attempt post where "drop 9 (trace s) = Asked (DispatchEffect ''charge'' intent_id attempt (JInt 5)) # post"
    using demo_execution_dispatches unfolding run by (auto split: list.splits call.splits plugin_request.splits)
  then have split: "trace s = take 9 (trace s) @ Asked (DispatchEffect ''charge'' intent_id attempt (JInt 5)) # post"
    by (metis append_take_drop_id)
  have "\<exists>contract scope ante prepared mid.
    find_effect (sealed_demo (demo_plan [])) ''charge'' = Some contract
    \<and> pf_dispatch (ec_profile contract) \<noteq> Explicit
    \<and> take 9 (trace s) = ante @ prepared @ mid @
        [Submitted (TransitionEffect intent_id AuthorizeRelease) True, Submitted (TransitionEffect intent_id StartDispatch) True]
    \<and> preparation scope ''charge'' intent_id (JInt 5) prepared
    \<and> (eager_observation contract \<or> Submitted (CommitScope scope) True \<in> set mid)"
    by (rule effects_released_in_order [OF run [unfolded demo_execution_def] split])
  then show ?thesis unfolding run snd_conv using split by blast
qed

text \<open>
  C24: Execution ends within a bounded depth. The number of definitions of the Plan is enough fuel: with
  it an execution, whatever its Plan, input and environment, never runs out, and more fuel gives the same
  result and the same final state.
\<close>

theorem execution_depth_bounded:
  assumes "length (pn_definitions (sl_candidate plan)) \<le> fuel"
  shows "fst (execute E fuel plan input run_id s) \<noteq> Err OutOfFuel
    \<and> execute E fuel plan input run_id s = execute E (length (pn_definitions (sl_candidate plan))) plan input run_id s"
proof
  have "\<not> admissible (sl_candidate plan) OutOfFuel" by (simp add: admissible_def)
  with sound_error [OF execute_admissible [OF assms, of E input run_id]]
  show "fst (execute E fuel plan input run_id s) \<noteq> Err OutOfFuel" by blast
qed (simp only: execute_fuel [OF order_refl assms])

theorem execution_depth_bounded_witness:
  "fst (execute (demo_env (demo_plan []) Applied) 7 (sealed_demo (demo_plan [])) (JInt 1) ''run''
     \<lparr>rt_world = (), rt_command_sequence = 0\<rparr>) \<noteq> Err OutOfFuel"
proof -
  have "length (pn_definitions (sl_candidate (sealed_demo (demo_plan [])))) \<le> 7" by (simp add: sealed_demo_def demo_plan_def)
  from execution_depth_bounded [OF this] show ?thesis by blast
qed





end
