(* ===== verification/Coll_Hash.thy ===== *)
theory Coll_Hash
  imports Canonical
begin

text \<open>
  The physical hash preimages and digest helpers of the authenticated-collections crate
  (\<^verbatim>\<open>crates/cymule-authenticated-collections/src/{hash,error,lib}.rs\<close>): its error values, its
  bounds, the length-framed preimage of every identity, and the bit-level view of a digest that
  the compressed map routes by. SHA-256 is the parameter \<open>sha\<close>; diagnostic messages are dropped,
  the closed categories and integrity codes are kept.
\<close>

section \<open>Errors and bounds\<close>

datatype provider_conflict =
    RevisionConflict "string option" "string option"
  | HistoryConflict string

datatype provider_failure =
    ProviderValidation
  | ProviderIntegrity string
  | ProviderConflicting provider_conflict
  | ProviderSubstrate string

datatype collection_error =
    CValidation
  | Integrity string
  | MissingObject string
  | CConflict
  | Provider provider_failure

definition MAX_MAP_PATH_NODES :: nat where
  "MAX_MAP_PATH_NODES = 257"

definition LOG_FANOUT :: nat where
  "LOG_FANOUT = 32"

definition MAX_LOG_HEIGHT :: nat where
  "MAX_LOG_HEIGHT = 76"

definition MAX_PAGE_ENTRIES :: nat where
  "MAX_PAGE_ENTRIES = 256"

definition MAX_PAGE_BYTES :: nat where
  "MAX_PAGE_BYTES = 1024 * 1024"

definition MAX_MAP_KEY_BYTES :: nat where
  "MAX_MAP_KEY_BYTES = MAX_PAGE_BYTES - 64 - 71"

definition MAX_MAP_MUTATIONS_PER_APPLY :: nat where
  "MAX_MAP_MUTATIONS_PER_APPLY = 256"

definition MAX_LOG_MUTATIONS_PER_APPLY :: nat where
  "MAX_LOG_MUTATIONS_PER_APPLY = 256"

definition MAX_LOG_VALUES_PER_APPLY :: nat where
  "MAX_LOG_VALUES_PER_APPLY = 256"

definition MAX_LOG_PREFIX_REPLACEMENT_VALUES :: nat where
  "MAX_LOG_PREFIX_REPLACEMENT_VALUES = 16"

definition MAX_MUTATION_BYTES :: nat where
  "MAX_MUTATION_BYTES = 4 * 1024 * 1024"

definition MAX_PROOF_BYTES :: nat where
  "MAX_PROOF_BYTES = 32 * 1024 * 1024"

section \<open>Framed preimages\<close>

text \<open>\<^verbatim>\<open>u64::to_be_bytes\<close>, and the single byte of a \<^verbatim>\<open>u8\<close>.\<close>

definition to_be_bytes :: "nat \<Rightarrow> string" where
  "to_be_bytes n = map (\<lambda>i. char_of (n div 256 ^ (7 - i) mod 256)) [0..<8]"

definition u8_byte :: "nat \<Rightarrow> string" where
  "u8_byte n = [char_of n]"

definition FRAME_VERSION :: string where
  "FRAME_VERSION = ''cymule.authenticated-collection-preimage/1''"

definition frame_into :: "string \<Rightarrow> string" where
  "frame_into bytes = to_be_bytes (length bytes) @ bytes"

definition hash_preimage :: "string \<Rightarrow> string list \<Rightarrow> string" where
  "hash_preimage domain fs =
     frame_into FRAME_VERSION @ frame_into domain
     @ frame_into (to_be_bytes (length fs))
     @ concat (map frame_into fs)"

definition hex_digest :: "string \<Rightarrow> string" where
  "hex_digest bytes = concat (map hex_byte bytes)"

definition hash_identifier :: "(string \<Rightarrow> string) \<Rightarrow> string \<Rightarrow> string list \<Rightarrow> string" where
  "hash_identifier sha domain fs = ''sha256:'' @ hex_digest (sha (hash_preimage domain fs))"

definition hash_digest :: "(string \<Rightarrow> string) \<Rightarrow> string \<Rightarrow> string list \<Rightarrow> string" where
  "hash_digest sha domain fs = the (strip_prefix ''sha256:'' (hash_identifier sha domain fs))"

text \<open>SHA-256 gives 32 bytes.\<close>

definition sha_ok :: "(string \<Rightarrow> string) \<Rightarrow> bool" where
  "sha_ok sha \<longleftrightarrow> (\<forall>bytes. length (sha bytes) = 32)"

section \<open>Digest syntax\<close>

definition is_lower_hex :: "string \<Rightarrow> bool" where
  "is_lower_hex s = list_all is_lower_hex_byte s"

definition validate_digest :: "string \<Rightarrow> collection_error + unit" where
  "validate_digest s =
     (if length s \<noteq> 64 \<or> \<not> is_lower_hex s then Err CValidation else Ok ())"

definition coll_validate_content_id :: "string \<Rightarrow> collection_error + unit" where
  "coll_validate_content_id s =
     (case strip_prefix ''sha256:'' s of
        None \<Rightarrow> Err CValidation
      | Some digest \<Rightarrow> validate_digest digest)"

section \<open>Digest bits\<close>

definition hex_value :: "char \<Rightarrow> nat option" where
  "hex_value c =
     (if CHR ''0'' \<le> c \<and> c \<le> CHR ''9'' then Some (of_char c - of_char (CHR ''0''))
      else if CHR ''a'' \<le> c \<and> c \<le> CHR ''f'' then Some (of_char c - of_char (CHR ''a'') + 10)
      else None)"

definition hex_digit :: "nat \<Rightarrow> char" where
  "hex_digit n = HEX ! n"

text \<open>\<^verbatim>\<open>nibble & (1 << bit)\<close> on a nibble, and \<^verbatim>\<open>nibble & (0x0f << k)\<close> (the mask is a \<^verbatim>\<open>u8\<close>, and the
  nibble has no bit above the third).\<close>

definition hash_bit :: "string \<Rightarrow> nat \<Rightarrow> collection_error + bool" where
  "hash_bit s depth =
     (if 256 \<le> depth then Err CValidation
      else rbind (validate_digest s) (\<lambda>_.
      let nibble_index = depth div 4; bit_index = 3 - depth mod 4 in
      rbind (ok_or CValidation (hex_value (s ! nibble_index))) (\<lambda>nibble.
      Ok (nibble div 2 ^ bit_index mod 2 \<noteq> 0))))"

fun common_prefix_from :: "string \<Rightarrow> string \<Rightarrow> nat list \<Rightarrow> collection_error + nat" where
  "common_prefix_from l r [] = Ok 256"
| "common_prefix_from l r (depth # depths) =
     rbind (hash_bit l depth) (\<lambda>a. rbind (hash_bit r depth) (\<lambda>b.
     if a \<noteq> b then Ok depth else common_prefix_from l r depths))"

definition common_prefix_bits :: "string \<Rightarrow> string \<Rightarrow> collection_error + nat" where
  "common_prefix_bits l r =
     rbind (validate_digest l) (\<lambda>_. rbind (validate_digest r) (\<lambda>_.
     common_prefix_from l r [0..<256]))"

definition normalized_hash_prefix :: "string \<Rightarrow> nat \<Rightarrow> collection_error + string" where
  "normalized_hash_prefix s depth =
     rbind (validate_digest s) (\<lambda>_.
     if 256 \<le> depth then Err CValidation else
     let full_nibbles = depth div 4;
         remaining_bits = depth mod 4;
         output = (if 0 < remaining_bits
                   then s[full_nibbles :=
                          hex_digit (the (hex_value (s ! full_nibbles))
                            div 2 ^ (4 - remaining_bits) * 2 ^ (4 - remaining_bits))]
                   else s);
         clear_from = full_nibbles + (if 0 < remaining_bits then 1 else 0)
     in Ok (take clear_from output @ replicate (length output - clear_from) (CHR ''0'')))"

definition hash_matches_prefix :: "string \<Rightarrow> string \<Rightarrow> nat \<Rightarrow> collection_error + bool" where
  "hash_matches_prefix s prefix depth =
     rbind (normalized_hash_prefix s depth) (\<lambda>p. Ok (p = prefix))"

section \<open>Framing is injective\<close>

lemma length_to_be_bytes [simp]: "length (to_be_bytes n) = 8"
  by (simp add: to_be_bytes_def)

lemma to_be_bytes_inject:
  assumes "to_be_bytes m = to_be_bytes n" "m < 2 ^ 64" "n < 2 ^ 64"
  shows "m = n"
proof -
  have digit: "m div 256 ^ (7 - i) mod 256 = n div 256 ^ (7 - i) mod 256" if "i < 8" for i
  proof -
    have "to_be_bytes m ! i = to_be_bytes n ! i" using assms(1) by simp
    then have "of_char (char_of (m div 256 ^ (7 - i) mod 256) :: char)
      = (of_char (char_of (n div 256 ^ (7 - i) mod 256) :: char) :: nat)"
      using that by (simp add: to_be_bytes_def)
    then show ?thesis by simp
  qed
  have low: "m mod 256 ^ k = n mod 256 ^ k" if "k \<le> 8" for k
    using that
  proof (induction k)
    case 0
    then show ?case by simp
  next
    case (Suc k)
    have split: "x mod 256 ^ Suc k = x mod 256 ^ k + 256 ^ k * (x div 256 ^ k mod 256)" for x :: nat
      by (simp add: mod_mult2_eq mult.commute [of 256])
    have "m div 256 ^ k mod 256 = n div 256 ^ k mod 256" using digit [of "7 - k"] Suc.prems by simp
    with Suc show ?case unfolding split by simp
  qed
  have "(256 :: nat) ^ 8 = 2 ^ 64" by simp
  with low [of 8] assms(2,3) show ?thesis by simp
qed

lemma frame_into_inject:
  assumes "frame_into a @ x = frame_into b @ y" "length a < 2 ^ 64" "length b < 2 ^ 64"
  shows "a = b \<and> x = y"
proof -
  have "to_be_bytes (length a) = to_be_bytes (length b)" "a @ x = b @ y"
    using assms(1) by (simp_all add: frame_into_def)
  with to_be_bytes_inject assms(2,3) have "length a = length b" by blast
  with \<open>a @ x = b @ y\<close> show ?thesis by simp
qed

lemma frames_inject:
  assumes "concat (map frame_into xs) = concat (map frame_into ys)" "length xs = length ys"
    and "\<forall>f\<in>set xs \<union> set ys. length f < 2 ^ 64"
  shows "xs = ys"
  using assms
proof (induction xs arbitrary: ys)
  case Nil
  then show ?case by simp
next
  case (Cons f xs)
  then obtain g ys' where ys: "ys = g # ys'" by (cases ys) auto
  with Cons.prems frame_into_inject [of f _ g] have "f = g"
    "concat (map frame_into xs) = concat (map frame_into ys')" by auto
  with Cons ys show ?case by simp
qed

text \<open>The framing version has 42 bytes.\<close>

lemma hash_preimage_inject:
  assumes "hash_preimage d fs = hash_preimage d' fs'"
    and "length d < 2 ^ 64" "length d' < 2 ^ 64" "length fs < 2 ^ 64" "length fs' < 2 ^ 64"
    and "\<forall>f\<in>set fs \<union> set fs'. length f < 2 ^ 64"
  shows "d = d' \<and> fs = fs'"
proof -
  have "frame_into d @ frame_into (to_be_bytes (length fs)) @ concat (map frame_into fs)
      = frame_into d' @ frame_into (to_be_bytes (length fs')) @ concat (map frame_into fs')"
    using assms(1) by (simp add: hash_preimage_def)
  with frame_into_inject assms(2,3) have d: "d = d'"
    and rest: "frame_into (to_be_bytes (length fs)) @ concat (map frame_into fs)
      = frame_into (to_be_bytes (length fs')) @ concat (map frame_into fs')" by blast+
  from frame_into_inject [OF rest] have "to_be_bytes (length fs) = to_be_bytes (length fs')"
    and fields: "concat (map frame_into fs) = concat (map frame_into fs')" by simp_all
  with to_be_bytes_inject assms(4,5) have "length fs = length fs'" by blast
  with frames_inject [OF fields] assms(6) d show ?thesis by simp
qed

section \<open>Identities are well formed\<close>

lemma hash_digest_eq: "hash_digest sha d fs = hex_digest (sha (hash_preimage d fs))"
  by (simp add: hash_digest_def hash_identifier_def)

lemma hex_digest_lower: "is_lower_hex (hex_digest bytes)"
  by (induction bytes) (auto simp: hex_digest_def is_lower_hex_def hex_byte_hex)

lemma length_hex_digest: "length (hex_digest bytes) = 2 * length bytes"
  by (induction bytes) (auto simp: hex_digest_def hex_byte_def Let_def)

lemma coll_validate_content_id_iff:
  "coll_validate_content_id s = Ok u \<longleftrightarrow>
     (\<exists>d. s = ''sha256:'' @ d \<and> length d = 64 \<and> is_lower_hex d)"
  by (auto simp: coll_validate_content_id_def validate_digest_def strip_prefix_eq_Some
      split: option.splits)

lemma hash_identifier_valid:
  "length (sha (hash_preimage d fs)) = 32 \<Longrightarrow> coll_validate_content_id (hash_identifier sha d fs) = Ok ()"
  by (simp add: coll_validate_content_id_iff hash_identifier_def length_hex_digest hex_digest_lower)

lemma content_id_length: "coll_validate_content_id s = Ok u \<Longrightarrow> length s = 71"
  by (auto simp: coll_validate_content_id_iff)

end
