(* ===== verification/Log_Node.thy ===== *)
theory Log_Node
  imports Coll_Hash
begin

text \<open>
  Nodes and roots of the ordered AVL log (\<^verbatim>\<open>log.rs\<close>): the immutable node with its closed
  preimage, local verification, and the root record. \<^verbatim>\<open>LogChild\<close> and \<^verbatim>\<open>NodeRef\<close> have the same
  three fields and convert into each other field by field; one record stands for both.
  Heights are \<^verbatim>\<open>u8\<close> and lengths \<^verbatim>\<open>u64\<close>, kept as naturals with their checks written out.
\<close>

section \<open>Data\<close>

record node_ref =
  nr_object_id :: string
  nr_len :: nat
  nr_height :: nat

datatype log_node_body =
    LogLeaf "string list"
  | LogBranch node_ref node_ref

record log_node =
  ln_node_version :: string
  ln_object_id :: string
  ln_body :: log_node_body

record log_root =
  lr_node :: "string option"
  lr_len :: nat
  lr_height :: nat
  lr_ordered_root :: string

definition LOG_NODE_VERSION :: string where
  "LOG_NODE_VERSION = ''cymule.authenticated-log-node/1''"

definition LOG_EMPTY_VERSION :: string where
  "LOG_EMPTY_VERSION = ''cymule.authenticated-log-empty/1''"

section \<open>Identities and local verification\<close>

fun log_node_fields :: "log_node_body \<Rightarrow> string list" where
  "log_node_fields (LogLeaf vs) = ''leaf'' # to_be_bytes (length vs) # vs"
| "log_node_fields (LogBranch l r) =
     [''branch'', nr_object_id l, to_be_bytes (nr_len l), u8_byte (nr_height l),
      nr_object_id r, to_be_bytes (nr_len r), u8_byte (nr_height r)]"

definition log_node_id :: "(string \<Rightarrow> string) \<Rightarrow> log_node_body \<Rightarrow> string" where
  "log_node_id sha body = hash_identifier sha LOG_NODE_VERSION (log_node_fields body)"

definition empty_log_commitment :: "(string \<Rightarrow> string) \<Rightarrow> string" where
  "empty_log_commitment sha = hash_identifier sha LOG_EMPTY_VERSION [''empty'', to_be_bytes 0]"

definition log_child_verify :: "node_ref \<Rightarrow> collection_error + unit" where
  "log_child_verify c =
     rbind (coll_validate_content_id (nr_object_id c)) (\<lambda>_.
     if nr_len c = 0 \<or> MAX_EXACT_INTEGER < nr_len c
        \<or> nr_height c = 0 \<or> MAX_LOG_HEIGHT < nr_height c
     then Err CValidation else Ok ())"

fun body_value_count :: "log_node_body \<Rightarrow> collection_error + nat" where
  "body_value_count (LogLeaf vs) = Ok (length vs)"
| "body_value_count (LogBranch l r) = ok_or CValidation (exact_add (nr_len l) (nr_len r))"

definition value_count :: "log_node \<Rightarrow> collection_error + nat" where
  "value_count node = body_value_count (ln_body node)"

text \<open>\<^verbatim>\<open>u8::checked_add(1)\<close> on the taller child, then the closed bound.\<close>

fun body_height :: "log_node_body \<Rightarrow> collection_error + nat" where
  "body_height (LogLeaf vs) = (if MAX_LOG_HEIGHT < 1 then Err CValidation else Ok 1)"
| "body_height (LogBranch l r) =
     (let taller = max (nr_height l) (nr_height r) in
      if 255 < taller + 1 then Err CValidation
      else if MAX_LOG_HEIGHT < taller + 1 then Err CValidation
      else Ok (taller + 1))"

definition node_height :: "log_node \<Rightarrow> collection_error + nat" where
  "node_height node = body_height (ln_body node)"

definition abs_diff :: "nat \<Rightarrow> nat \<Rightarrow> nat" where
  "abs_diff a b = (if a < b then b - a else a - b)"

definition log_body_verify :: "log_node_body \<Rightarrow> collection_error + unit" where
  "log_body_verify body =
     (case body of
        LogLeaf vs \<Rightarrow>
          if vs = [] \<or> LOG_FANOUT < length vs then Err CValidation
          else rcheck coll_validate_content_id vs
      | LogBranch l r \<Rightarrow>
          rbind (log_child_verify l) (\<lambda>_.
          rbind (log_child_verify r) (\<lambda>_.
          if 1 < abs_diff (nr_height l) (nr_height r) then Err CValidation
          else rbind (body_value_count body) (\<lambda>_.
               rbind (body_height body) (\<lambda>_. Ok ())))))"

definition log_node_verify :: "(string \<Rightarrow> string) \<Rightarrow> log_node \<Rightarrow> collection_error + unit" where
  "log_node_verify sha node =
     (if ln_node_version node \<noteq> LOG_NODE_VERSION then Err CValidation
      else rbind (log_body_verify (ln_body node)) (\<lambda>_.
      if ln_object_id node \<noteq> log_node_id sha (ln_body node)
      then Err (Integrity ''log_node_identity_mismatch'') else Ok ()))"

definition from_body :: "(string \<Rightarrow> string) \<Rightarrow> log_node_body \<Rightarrow> collection_error + log_node" where
  "from_body sha body =
     (let node = \<lparr>ln_node_version = LOG_NODE_VERSION, ln_object_id = log_node_id sha body,
                  ln_body = body\<rparr>
      in rbind (log_node_verify sha node) (\<lambda>_. Ok node))"

definition log_leaf :: "(string \<Rightarrow> string) \<Rightarrow> string list \<Rightarrow> collection_error + log_node" where
  "log_leaf sha vs = from_body sha (LogLeaf vs)"

definition log_branch ::
  "(string \<Rightarrow> string) \<Rightarrow> node_ref \<Rightarrow> node_ref \<Rightarrow> collection_error + log_node" where
  "log_branch sha l r = from_body sha (LogBranch l r)"

definition child_object_ids :: "log_node \<Rightarrow> string list" where
  "child_object_ids node = (case ln_body node of LogLeaf _ \<Rightarrow> []
     | LogBranch l r \<Rightarrow> [nr_object_id l, nr_object_id r])"

definition value_object_ids :: "log_node \<Rightarrow> string list" where
  "value_object_ids node = (case ln_body node of LogLeaf vs \<Rightarrow> vs | LogBranch _ _ \<Rightarrow> [])"

definition checked_sum :: "nat \<Rightarrow> nat list \<Rightarrow> collection_error + nat" where
  "checked_sum = (\<lambda>start ns. rfold (\<lambda>n total. ok_or CValidation (checked_add total n)) ns start)"

definition logical_bytes :: "log_node \<Rightarrow> collection_error + nat" where
  "logical_bytes node =
     rbind (ok_or CValidation (checked_add (length (ln_node_version node)) (length (ln_object_id node))))
      (\<lambda>fixed. case ln_body node of
         LogLeaf vs \<Rightarrow> checked_sum fixed (map length vs)
       | LogBranch l r \<Rightarrow>
           checked_sum fixed [length (nr_object_id l), length (nr_object_id r), 32])"

section \<open>Roots\<close>

definition log_root_empty :: "(string \<Rightarrow> string) \<Rightarrow> log_root" where
  "log_root_empty sha = \<lparr>lr_node = None, lr_len = 0, lr_height = 0,
     lr_ordered_root = empty_log_commitment sha\<rparr>"

definition log_root_verify :: "(string \<Rightarrow> string) \<Rightarrow> log_root \<Rightarrow> collection_error + unit" where
  "log_root_verify sha root =
     (if lr_len root = 0 then
        if lr_node root \<noteq> None \<or> lr_height root \<noteq> 0
           \<or> lr_ordered_root root \<noteq> empty_log_commitment sha
        then Err CValidation else Ok ()
      else
        rbind (ok_or CValidation (lr_node root)) (\<lambda>node.
        rbind (coll_validate_content_id node) (\<lambda>_.
        if MAX_EXACT_INTEGER < lr_len root \<or> lr_height root = 0
           \<or> MAX_LOG_HEIGHT < lr_height root \<or> lr_ordered_root root \<noteq> node
        then Err CValidation else Ok ())))"

definition root_ref :: "(string \<Rightarrow> string) \<Rightarrow> log_root \<Rightarrow> collection_error + node_ref option" where
  "root_ref sha root =
     rbind (log_root_verify sha root) (\<lambda>_.
     Ok (map_option (\<lambda>object_id. \<lparr>nr_object_id = object_id, nr_len = lr_len root,
       nr_height = lr_height root\<rparr>) (lr_node root)))"

definition ref_root :: "(string \<Rightarrow> string) \<Rightarrow> node_ref option \<Rightarrow> collection_error + log_root" where
  "ref_root sha reference =
     (case reference of
        None \<Rightarrow> Ok (log_root_empty sha)
      | Some c \<Rightarrow>
          let root = \<lparr>lr_node = Some (nr_object_id c), lr_len = nr_len c,
                      lr_height = nr_height c, lr_ordered_root = nr_object_id c\<rparr>
          in rbind (log_root_verify sha root) (\<lambda>_. Ok root))"

end
