(* ===== verification/Log_Overlay.thy ===== *)
theory Log_Overlay
  imports Log_Node
begin

text \<open>
  The mutation algorithms of the ordered log on stored nodes (\<^verbatim>\<open>log.rs\<close>): the overlay that loads
  and verifies immutable nodes and collects pending ones, AVL join and split on references,
  and the ordered mutation batch. The resolver behind the overlay is the function \<open>load\<close> of
  the trait \<^verbatim>\<open>CollectionResolver\<close>, threaded with its own state. The recursions end because
  \<^verbatim>\<open>Overlay::load\<close> has checked that a branch is one higher than its taller child.
\<close>

type_synonym 'r node_load = "string \<Rightarrow> 'r \<Rightarrow> collection_error + (log_node option \<times> 'r)"

record 'r overlay =
  ov_resolver :: 'r
  ov_pending :: "(string, log_node) fmap"
  ov_loaded :: "(string, log_node) fmap"

definition overlay_new :: "'r \<Rightarrow> 'r overlay" where
  "overlay_new r = \<lparr>ov_resolver = r, ov_pending = fmempty, ov_loaded = fmempty\<rparr>"

definition overlay_fetch ::
  "(string \<Rightarrow> string) \<Rightarrow> 'r node_load \<Rightarrow> node_ref \<Rightarrow> 'r overlay
   \<Rightarrow> collection_error + (log_node \<times> 'r overlay)" where
  "overlay_fetch sha load reference ov =
     (case fmlookup (ov_pending ov) (nr_object_id reference) of
        Some node \<Rightarrow> Ok (node, ov)
      | None \<Rightarrow>
         (case fmlookup (ov_loaded ov) (nr_object_id reference) of
            Some node \<Rightarrow> Ok (node, ov)
          | None \<Rightarrow>
             rbind (load (nr_object_id reference) (ov_resolver ov)) (\<lambda>(found, r).
             rbind (ok_or (MissingObject (nr_object_id reference)) found) (\<lambda>node.
             rbind (log_node_verify sha node) (\<lambda>_.
             if ln_object_id node \<noteq> nr_object_id reference
             then Err (Integrity ''log_node_locator_mismatch'')
             else Ok (node, ov\<lparr>ov_resolver := r,
                    ov_loaded := fmupd (ln_object_id node) node (ov_loaded ov)\<rparr>))))))"

definition overlay_load ::
  "(string \<Rightarrow> string) \<Rightarrow> 'r node_load \<Rightarrow> node_ref \<Rightarrow> 'r overlay
   \<Rightarrow> collection_error + (log_node \<times> 'r overlay)" where
  "overlay_load sha load reference ov =
     rbind (overlay_fetch sha load reference ov) (\<lambda>(node, ov).
     rbind (value_count node) (\<lambda>len.
     if len \<noteq> nr_len reference then Err (Integrity ''log_child_shape_mismatch'')
     else rbind (node_height node) (\<lambda>height.
     if height \<noteq> nr_height reference then Err (Integrity ''log_child_shape_mismatch'')
     else Ok (node, ov))))"

definition overlay_store ::
  "(string \<Rightarrow> string) \<Rightarrow> log_node \<Rightarrow> 'r overlay \<Rightarrow> collection_error + (node_ref \<times> 'r overlay)" where
  "overlay_store sha node ov =
     rbind (log_node_verify sha node) (\<lambda>_.
     rbind (value_count node) (\<lambda>len.
     rbind (node_height node) (\<lambda>height.
     if (case fmlookup (ov_pending ov) (ln_object_id node) of
           None \<Rightarrow> False | Some existing \<Rightarrow> existing \<noteq> node)
     then Err (Integrity ''log_node_identity_conflict'')
     else Ok (\<lparr>nr_object_id = ln_object_id node, nr_len = len, nr_height = height\<rparr>,
              ov\<lparr>ov_pending := fmupd (ln_object_id node) node (ov_pending ov)\<rparr>))))"

text \<open>\<^verbatim>\<open>overlay.store(LogNode::leaf(values)?)\<close>, used by several operations.\<close>

definition store_leaf ::
  "(string \<Rightarrow> string) \<Rightarrow> string list \<Rightarrow> 'r overlay \<Rightarrow> collection_error + (node_ref \<times> 'r overlay)" where
  "store_leaf sha vs ov = rbind (log_leaf sha vs) (\<lambda>node. overlay_store sha node ov)"

section \<open>Join\<close>

definition branch_children ::
  "(string \<Rightarrow> string) \<Rightarrow> 'r node_load \<Rightarrow> node_ref \<Rightarrow> 'r overlay
   \<Rightarrow> collection_error + ((node_ref \<times> node_ref) \<times> 'r overlay)" where
  "branch_children sha load reference ov =
     rbind (overlay_load sha load reference ov) (\<lambda>(node, ov).
     case ln_body node of
       LogBranch l r \<Rightarrow> Ok ((l, r), ov)
     | LogLeaf _ \<Rightarrow> Err (Integrity ''log_expected_branch''))"

definition make_branch ::
  "(string \<Rightarrow> string) \<Rightarrow> node_ref \<Rightarrow> node_ref \<Rightarrow> 'r overlay
   \<Rightarrow> collection_error + (node_ref \<times> 'r overlay)" where
  "make_branch sha l r ov =
     (if 1 < abs_diff (nr_height l) (nr_height r)
      then Err (Integrity ''log_unbalanced_branch_construction'')
      else rbind (log_branch sha l r) (\<lambda>node. overlay_store sha node ov))"

definition balance_refs ::
  "(string \<Rightarrow> string) \<Rightarrow> 'r node_load \<Rightarrow> node_ref \<Rightarrow> node_ref \<Rightarrow> 'r overlay
   \<Rightarrow> collection_error + (node_ref \<times> 'r overlay)" where
  "balance_refs sha load l r ov =
     (if abs_diff (nr_height l) (nr_height r) \<le> 1 then make_branch sha l r ov
      else if nr_height r < nr_height l then
        rbind (branch_children sha load l ov) (\<lambda>((left_left, left_right), ov).
        if nr_height left_right \<le> nr_height left_left then
          rbind (make_branch sha left_right r ov) (\<lambda>(rotated_right, ov).
          make_branch sha left_left rotated_right ov)
        else
          rbind (branch_children sha load left_right ov) (\<lambda>((middle_left, middle_right), ov).
          rbind (make_branch sha left_left middle_left ov) (\<lambda>(rotated_left, ov).
          rbind (make_branch sha middle_right r ov) (\<lambda>(rotated_right, ov).
          make_branch sha rotated_left rotated_right ov))))
      else
        rbind (branch_children sha load r ov) (\<lambda>((right_left, right_right), ov).
        if nr_height right_left \<le> nr_height right_right then
          rbind (make_branch sha l right_left ov) (\<lambda>(rotated_left, ov).
          make_branch sha rotated_left right_right ov)
        else
          rbind (branch_children sha load right_left ov) (\<lambda>((middle_left, middle_right), ov).
          rbind (make_branch sha l middle_left ov) (\<lambda>(rotated_left, ov).
          rbind (make_branch sha middle_right right_right ov) (\<lambda>(rotated_right, ov).
          make_branch sha rotated_left rotated_right ov)))))"

text \<open>The last part of \<^verbatim>\<open>join_refs\<close>, where the heights differ by at most one.\<close>

definition meet_refs ::
  "(string \<Rightarrow> string) \<Rightarrow> 'r node_load \<Rightarrow> node_ref \<Rightarrow> node_ref \<Rightarrow> 'r overlay
   \<Rightarrow> collection_error + (node_ref \<times> 'r overlay)" where
  "meet_refs sha load l r ov =
     (if nr_height l = 1 \<and> nr_height r = 1 then
        rbind (overlay_load sha load l ov) (\<lambda>(left_node, ov).
        rbind (overlay_load sha load r ov) (\<lambda>(right_node, ov).
        case (ln_body left_node, ln_body right_node) of
          (LogLeaf left_values, LogLeaf right_values) \<Rightarrow>
            if length left_values + length right_values \<le> LOG_FANOUT
            then store_leaf sha (left_values @ right_values) ov
            else make_branch sha l r ov
        | _ \<Rightarrow> make_branch sha l r ov))
      else make_branch sha l r ov)"

lemma overlay_load_height:
  assumes "overlay_load sha load reference ov = Ok (node, ov')" "ln_body node = LogBranch l r"
  shows "nr_height reference = max (nr_height l) (nr_height r) + 1"
  using assms
  by (auto simp: overlay_load_def node_height_def Let_def split: prod.splits if_splits)

lemma branch_children_height:
  assumes "branch_children sha load reference ov = Ok ((l, r), ov')"
  shows "nr_height reference = max (nr_height l) (nr_height r) + 1"
proof -
  from assms obtain node ov1 where node: "overlay_load sha load reference ov = Ok (node, ov1)"
    and "(case ln_body node of LogBranch l r \<Rightarrow> Ok ((l, r), ov1)
      | LogLeaf _ \<Rightarrow> Err (Integrity ''log_expected_branch'')) = Ok ((l, r), ov')"
    by (auto simp: branch_children_def)
  then have "ln_body node = LogBranch l r" by (cases "ln_body node") auto
  with node show ?thesis by (rule overlay_load_height)
qed

function join_refs ::
  "(string \<Rightarrow> string) \<Rightarrow> 'r node_load \<Rightarrow> node_ref \<Rightarrow> node_ref \<Rightarrow> 'r overlay
   \<Rightarrow> collection_error + (node_ref \<times> 'r overlay)" where
  "join_refs sha load l r ov =
     (if 255 < nr_height r + 1 then Err CValidation
      else if nr_height r + 1 < nr_height l then
        rbind (branch_children sha load l ov) (\<lambda>((left_left, left_right), ov).
        rbind (join_refs sha load left_right r ov) (\<lambda>(joined, ov).
        balance_refs sha load left_left joined ov))
      else if 255 < nr_height l + 1 then Err CValidation
      else if nr_height l + 1 < nr_height r then
        rbind (branch_children sha load r ov) (\<lambda>((right_left, right_right), ov).
        rbind (join_refs sha load l right_left ov) (\<lambda>(joined, ov).
        balance_refs sha load joined right_right ov))
      else meet_refs sha load l r ov)"
  by pat_completeness auto
termination
  by (relation "measure (\<lambda>(sha, load, l, r, ov). nr_height l + nr_height r)")
    (auto dest!: branch_children_height simp del: rbind_eq_Ok)

declare join_refs.simps [simp del]

definition concat_optional ::
  "(string \<Rightarrow> string) \<Rightarrow> 'r node_load \<Rightarrow> node_ref option \<Rightarrow> node_ref option \<Rightarrow> 'r overlay
   \<Rightarrow> collection_error + (node_ref option \<times> 'r overlay)" where
  "concat_optional sha load l r ov =
     (case (l, r) of
        (None, value) \<Rightarrow> Ok (value, ov)
      | (value, None) \<Rightarrow> Ok (value, ov)
      | (Some l, Some r) \<Rightarrow> rbind (join_refs sha load l r ov) (\<lambda>(j, ov). Ok (Some j, ov)))"

definition concat_roots ::
  "(string \<Rightarrow> string) \<Rightarrow> 'r node_load \<Rightarrow> log_root \<Rightarrow> log_root \<Rightarrow> 'r overlay
   \<Rightarrow> collection_error + (log_root \<times> 'r overlay)" where
  "concat_roots sha load l r ov =
     rbind (root_ref sha l) (\<lambda>left_ref.
     rbind (root_ref sha r) (\<lambda>right_ref.
     case (left_ref, right_ref) of
       (None, value) \<Rightarrow> rbind (ref_root sha value) (\<lambda>root. Ok (root, ov))
     | (value, None) \<Rightarrow> rbind (ref_root sha value) (\<lambda>root. Ok (root, ov))
     | (Some l, Some r) \<Rightarrow>
         rbind (join_refs sha load l r ov) (\<lambda>(j, ov).
         rbind (ref_root sha (Some j)) (\<lambda>root. Ok (root, ov)))))"

section \<open>Split\<close>

function split_ref ::
  "(string \<Rightarrow> string) \<Rightarrow> 'r node_load \<Rightarrow> node_ref \<Rightarrow> nat \<Rightarrow> 'r overlay
   \<Rightarrow> collection_error + ((node_ref option \<times> node_ref option) \<times> 'r overlay)" where
  "split_ref sha load reference index ov =
     (if index = 0 then Ok ((None, Some reference), ov)
      else if index = nr_len reference then Ok ((Some reference, None), ov)
      else if nr_len reference < index then Err (Integrity ''log_split_range_mismatch'')
      else
       rbind (overlay_load sha load reference ov) (\<lambda>(node, ov).
       case ln_body node of
         LogLeaf vs \<Rightarrow>
           rbind (store_leaf sha (take index vs) ov) (\<lambda>(left, ov).
           if index = length vs then Ok ((Some left, None), ov)
           else rbind (store_leaf sha (drop index vs) ov) (\<lambda>(right, ov).
                Ok ((Some left, Some right), ov)))
       | LogBranch left right \<Rightarrow>
           if index < nr_len left then
             rbind (split_ref sha load left index ov) (\<lambda>((prefix, remainder), ov).
             rbind (concat_optional sha load remainder (Some right) ov) (\<lambda>(suffix, ov).
             Ok ((prefix, suffix), ov)))
           else if index = nr_len left then Ok ((Some left, Some right), ov)
           else
             rbind (ok_or (Integrity ''log_split_index_underflow'')
                (checked_sub index (nr_len left))) (\<lambda>offset.
             rbind (split_ref sha load right offset ov) (\<lambda>((prefix_tail, suffix), ov).
             rbind (concat_optional sha load (Some left) prefix_tail ov) (\<lambda>(prefix, ov).
             Ok ((prefix, suffix), ov))))))"
  by pat_completeness auto
termination
  by (relation "measure (\<lambda>(sha, load, reference, index, ov). nr_height reference)")
    (auto dest!: overlay_load_height simp del: rbind_eq_Ok)

declare split_ref.simps [simp del]

definition split_root ::
  "(string \<Rightarrow> string) \<Rightarrow> 'r node_load \<Rightarrow> log_root \<Rightarrow> nat \<Rightarrow> 'r overlay
   \<Rightarrow> collection_error + ((log_root \<times> log_root) \<times> 'r overlay)" where
  "split_root sha load root index ov =
     (if lr_len root < index then Err CValidation
      else
       rbind (root_ref sha root) (\<lambda>found.
       case found of
         None \<Rightarrow> Ok ((log_root_empty sha, log_root_empty sha), ov)
       | Some reference \<Rightarrow>
           rbind (split_ref sha load reference index ov) (\<lambda>((left, right), ov).
           rbind (ref_root sha left) (\<lambda>left_root.
           rbind (ref_root sha right) (\<lambda>right_root.
           Ok ((left_root, right_root), ov))))))"

end
