(* ===== verification/Log_Mutation.thy ===== *)
theory Log_Mutation
  imports Log_Overlay
begin

text \<open>
  Ordered log mutations (\<^verbatim>\<open>log.rs\<close>): their closed shapes and bounds, the digest that binds a
  batch, and the batch itself applied through the overlay, mutation by mutation.
\<close>

section \<open>Mutations\<close>

datatype log_mutation =
    Append "string list"
  | InsertAt nat string
  | ReplaceAt nat string string
  | ReplacePrefix nat log_root "string list"
  | RemoveAt nat string

definition LOG_MUTATION_VERSION :: string where
  "LOG_MUTATION_VERSION = ''cymule.authenticated-log-mutation/1''"

fun log_mutation_verify :: "(string \<Rightarrow> string) \<Rightarrow> log_mutation \<Rightarrow> collection_error + unit" where
  "log_mutation_verify sha (Append vs) =
     (if vs = [] then Err CValidation else rcheck coll_validate_content_id vs)"
| "log_mutation_verify sha (InsertAt index v) =
     (if MAX_EXACT_INTEGER < index then Err CValidation else coll_validate_content_id v)"
| "log_mutation_verify sha (ReplaceAt index expected v) =
     (if MAX_EXACT_INTEGER < index then Err CValidation
      else rbind (coll_validate_content_id expected) (\<lambda>_.
      rbind (coll_validate_content_id v) (\<lambda>_.
      if expected = v then Err CValidation else Ok ())))"
| "log_mutation_verify sha (ReplacePrefix count expected_prefix replacement) =
     rbind (log_root_verify sha expected_prefix) (\<lambda>_.
     if count \<noteq> lr_len expected_prefix then Err CValidation
     else if MAX_LOG_PREFIX_REPLACEMENT_VALUES < length replacement then Err CValidation
     else if count = 0 \<and> replacement = [] then Err CValidation
     else rcheck coll_validate_content_id replacement)"
| "log_mutation_verify sha (RemoveAt index expected) =
     (if MAX_EXACT_INTEGER < index then Err CValidation else coll_validate_content_id expected)"

text \<open>How many primitive values and logical bytes a mutation counts for.\<close>

fun mutation_weight :: "log_mutation \<Rightarrow> collection_error + (nat \<times> nat)" where
  "mutation_weight (Append vs) =
     rbind (checked_sum 0 (map length vs)) (\<lambda>bytes. Ok (length vs, bytes))"
| "mutation_weight (InsertAt _ v) = Ok (1, length v)"
| "mutation_weight (ReplaceAt _ expected v) =
     rbind (ok_or CValidation (checked_add (length expected) (length v))) (\<lambda>bytes. Ok (1, bytes))"
| "mutation_weight (ReplacePrefix _ expected_prefix replacement) =
     rbind (ok_or CValidation (checked_add
         (case lr_node expected_prefix of None \<Rightarrow> 0 | Some n \<Rightarrow> length n)
         (length (lr_ordered_root expected_prefix)))) (\<lambda>fixed.
     rbind (checked_sum fixed (map length replacement)) (\<lambda>bytes. Ok (length replacement, bytes)))"
| "mutation_weight (RemoveAt _ expected) = Ok (1, length expected)"

text \<open>\<^verbatim>\<open>checked_add(..).filter(|total| *total <= bound)\<close>.\<close>

definition bounded_add :: "nat \<Rightarrow> nat \<Rightarrow> nat \<Rightarrow> collection_error + nat" where
  "bounded_add bound acc n =
     (case checked_add acc n of
        None \<Rightarrow> Err CValidation
      | Some s \<Rightarrow> if s \<le> bound then Ok s else Err CValidation)"

definition count_mutation ::
  "(string \<Rightarrow> string) \<Rightarrow> log_mutation \<Rightarrow> nat \<times> nat \<Rightarrow> collection_error + (nat \<times> nat)" where
  "count_mutation sha mutation = (\<lambda>(primitive_count, mutation_bytes).
     rbind (log_mutation_verify sha mutation) (\<lambda>_.
     rbind (mutation_weight mutation) (\<lambda>(primitives, bytes).
     rbind (bounded_add MAX_LOG_VALUES_PER_APPLY primitive_count primitives) (\<lambda>primitive_count.
     rbind (bounded_add MAX_MUTATION_BYTES mutation_bytes bytes) (\<lambda>mutation_bytes.
     Ok (primitive_count, mutation_bytes))))))"

definition validate_mutations ::
  "(string \<Rightarrow> string) \<Rightarrow> log_mutation list \<Rightarrow> collection_error + log_mutation list" where
  "validate_mutations sha mutations =
     (if mutations = [] \<or> MAX_LOG_MUTATIONS_PER_APPLY < length mutations then Err CValidation
      else rbind (rfold (count_mutation sha) mutations (0, 0)) (\<lambda>_. Ok mutations))"

fun mutation_fields :: "log_mutation \<Rightarrow> string list" where
  "mutation_fields (Append vs) = [''append'', to_be_bytes (length vs)] @ vs"
| "mutation_fields (RemoveAt index expected) = [''remove_at'', to_be_bytes index, expected]"
| "mutation_fields (InsertAt index v) = [''insert_at'', to_be_bytes index, v]"
| "mutation_fields (ReplaceAt index expected v) = [''replace_at'', to_be_bytes index, expected, v]"
| "mutation_fields (ReplacePrefix count expected_prefix replacement) =
     [''replace_prefix'', to_be_bytes count,
      (case lr_node expected_prefix of None \<Rightarrow> [] | Some n \<Rightarrow> n),
      to_be_bytes (lr_len expected_prefix), u8_byte (lr_height expected_prefix),
      lr_ordered_root expected_prefix, to_be_bytes (length replacement)] @ replacement"

definition mutation_digest :: "(string \<Rightarrow> string) \<Rightarrow> log_mutation list \<Rightarrow> string" where
  "mutation_digest sha mutations =
     hash_identifier sha LOG_MUTATION_VERSION (concat (map mutation_fields mutations))"

section \<open>Applying a batch\<close>

text \<open>The lookup loop runs at most \<^verbatim>\<open>0..=MAX_LOG_HEIGHT\<close> times.\<close>

fun overlay_get_from ::
  "(string \<Rightarrow> string) \<Rightarrow> 'r node_load \<Rightarrow> nat \<Rightarrow> node_ref \<Rightarrow> nat \<Rightarrow> 'r overlay
   \<Rightarrow> collection_error + (string \<times> 'r overlay)" where
  "overlay_get_from sha load 0 reference index ov = Err (Integrity ''log_path_bound_exceeded'')"
| "overlay_get_from sha load (Suc n) reference index ov =
     rbind (overlay_load sha load reference ov) (\<lambda>(node, ov).
     case ln_body node of
       LogLeaf vs \<Rightarrow>
         if index < length vs then Ok (vs ! index, ov)
         else Err (Integrity ''log_leaf_index_mismatch'')
     | LogBranch l r \<Rightarrow>
         if index < nr_len l then overlay_get_from sha load n l index ov
         else overlay_get_from sha load n r (index - nr_len l) ov)"

definition overlay_get ::
  "(string \<Rightarrow> string) \<Rightarrow> 'r node_load \<Rightarrow> log_root \<Rightarrow> nat \<Rightarrow> 'r overlay
   \<Rightarrow> collection_error + (string \<times> 'r overlay)" where
  "overlay_get sha load root index ov =
     (if lr_len root \<le> index then Err CConflict
      else rbind (root_ref sha root) (\<lambda>found.
      rbind (ok_or CConflict found) (\<lambda>reference.
      overlay_get_from sha load (Suc MAX_LOG_HEIGHT) reference index ov)))"

definition append_value ::
  "(string \<Rightarrow> string) \<Rightarrow> 'r node_load \<Rightarrow> string \<Rightarrow> log_root \<times> 'r overlay
   \<Rightarrow> collection_error + (log_root \<times> 'r overlay)" where
  "append_value sha load v = (\<lambda>(root, ov).
     rbind (store_leaf sha [v] ov) (\<lambda>(leaf, ov).
     rbind (ref_root sha (Some leaf)) (\<lambda>leaf_root.
     concat_roots sha load root leaf_root ov)))"

definition append_values ::
  "(string \<Rightarrow> string) \<Rightarrow> 'r node_load \<Rightarrow> log_root \<Rightarrow> string list \<Rightarrow> 'r overlay
   \<Rightarrow> collection_error + (log_root \<times> 'r overlay)" where
  "append_values sha load root vs ov = rfold (append_value sha load) vs (root, ov)"

text \<open>Splitting off the ordinal \<open>index\<close>: what stands before it and what stands after it.\<close>

definition split_around ::
  "(string \<Rightarrow> string) \<Rightarrow> 'r node_load \<Rightarrow> log_root \<Rightarrow> nat \<Rightarrow> 'r overlay
   \<Rightarrow> collection_error + ((log_root \<times> log_root) \<times> 'r overlay)" where
  "split_around sha load root index ov =
     rbind (split_root sha load root index ov) (\<lambda>((left, remainder), ov).
     rbind (split_root sha load remainder 1 ov) (\<lambda>((_, right), ov).
     Ok ((left, right), ov)))"

text \<open>A new one-value leaf between two roots.\<close>

definition insert_between ::
  "(string \<Rightarrow> string) \<Rightarrow> 'r node_load \<Rightarrow> log_root \<Rightarrow> string \<Rightarrow> log_root \<Rightarrow> 'r overlay
   \<Rightarrow> collection_error + (log_root \<times> 'r overlay)" where
  "insert_between sha load left v right ov =
     rbind (store_leaf sha [v] ov) (\<lambda>(leaf, ov).
     rbind (ref_root sha (Some leaf)) (\<lambda>inserted.
     rbind (concat_roots sha load left inserted ov) (\<lambda>(prefix, ov).
     concat_roots sha load prefix right ov)))"

fun apply_mutation ::
  "(string \<Rightarrow> string) \<Rightarrow> 'r node_load \<Rightarrow> log_mutation \<Rightarrow> log_root \<times> 'r overlay
   \<Rightarrow> collection_error + (log_root \<times> 'r overlay)" where
  "apply_mutation sha load (Append vs) (root, ov) = append_values sha load root vs ov"
| "apply_mutation sha load (InsertAt index v) (root, ov) =
     (if lr_len root < index then Err CConflict
      else rbind (split_root sha load root index ov) (\<lambda>((left, right), ov).
      insert_between sha load left v right ov))"
| "apply_mutation sha load (ReplaceAt index expected v) (root, ov) =
     rbind (overlay_get sha load root index ov) (\<lambda>(current, ov).
     if current \<noteq> expected then Err CConflict
     else rbind (split_around sha load root index ov) (\<lambda>((left, right), ov).
     insert_between sha load left v right ov))"
| "apply_mutation sha load (ReplacePrefix count expected_prefix replacement) (root, ov) =
     (if lr_len root < count then Err CConflict
      else rbind (split_root sha load root count ov) (\<lambda>((prefix, suffix), ov).
      if prefix \<noteq> expected_prefix then Err CConflict
      else rbind (append_values sha load (log_root_empty sha) replacement ov)
       (\<lambda>(replacement_root, ov).
        if replacement_root = prefix then Err CConflict
        else concat_roots sha load replacement_root suffix ov)))"
| "apply_mutation sha load (RemoveAt index expected) (root, ov) =
     rbind (overlay_get sha load root index ov) (\<lambda>(current, ov).
     if current \<noteq> expected then Err CConflict
     else rbind (split_around sha load root index ov) (\<lambda>((left, right), ov).
     concat_roots sha load left right ov))"

definition apply_log_internal ::
  "(string \<Rightarrow> string) \<Rightarrow> 'r node_load \<Rightarrow> log_root \<Rightarrow> log_mutation list \<Rightarrow> 'r overlay
   \<Rightarrow> collection_error + (log_root \<times> 'r overlay)" where
  "apply_log_internal sha load parent mutations ov =
     rbind (rfold (apply_mutation sha load) mutations (parent, ov)) (\<lambda>(root, ov).
     rbind (log_root_verify sha root) (\<lambda>_. Ok (root, ov)))"

end
