(* ===== verification/Log_Proof.thy ===== *)
theory Log_Proof
  imports Log_Mutation
begin

text \<open>
  Portable proofs over the ordered log (\<^verbatim>\<open>log.rs\<close>): the three resolvers the crate puts between an
  algorithm and its nodes, exact reads, bounded ranges, splits and mutation batches with their
  proofs, the complete audit and the bottom-up build. A verifier replays the same algorithm over
  the nodes of the proof alone and checks that it used them all.
\<close>

section \<open>Resolvers\<close>

record 'r recording_log_resolver =
  rc_inner :: 'r
  rc_nodes :: "(string, log_node) fmap"

definition recording_new :: "'r \<Rightarrow> 'r recording_log_resolver" where
  "recording_new r = \<lparr>rc_inner = r, rc_nodes = fmempty\<rparr>"

definition recording_load :: "'r node_load \<Rightarrow> 'r recording_log_resolver node_load" where
  "recording_load load object_id r =
     (case fmlookup (rc_nodes r) object_id of
        Some node \<Rightarrow> Ok (Some node, r)
      | None \<Rightarrow>
          rbind (load object_id (rc_inner r)) (\<lambda>(found, inner).
          Ok (found, r\<lparr>rc_inner := inner,
            rc_nodes := (case found of None \<Rightarrow> rc_nodes r | Some node \<Rightarrow> fmupd object_id node (rc_nodes r))\<rparr>)))"

definition verify_log_proof_bytes :: "log_node list \<Rightarrow> collection_error + unit" where
  "verify_log_proof_bytes nodes =
     rbind (rfold (\<lambda>node bytes. rbind (logical_bytes node) (bounded_add MAX_PROOF_BYTES bytes)) nodes 0)
      (\<lambda>_. Ok ())"

text \<open>Both proof resolvers index the supplied nodes the same way and differ in the code with
  which they report a repeated node.\<close>

definition index_proof_node ::
  "(string \<Rightarrow> string) \<Rightarrow> string \<Rightarrow> log_node \<Rightarrow> (string, log_node) fmap
   \<Rightarrow> collection_error + (string, log_node) fmap" where
  "index_proof_node sha duplicate node indexed =
     rbind (log_node_verify sha node) (\<lambda>_.
     if fmlookup indexed (ln_object_id node) \<noteq> None then Err (Integrity duplicate)
     else Ok (fmupd (ln_object_id node) node indexed))"

definition index_proof_nodes ::
  "(string \<Rightarrow> string) \<Rightarrow> string \<Rightarrow> log_node list \<Rightarrow> nat \<Rightarrow> collection_error + (string, log_node) fmap" where
  "index_proof_nodes sha duplicate nodes maximum =
     (if maximum < length nodes then Err CValidation
      else rbind (verify_log_proof_bytes nodes) (\<lambda>_.
      rfold (index_proof_node sha duplicate) nodes fmempty))"

record proof_log_resolver =
  pr_nodes :: "(string, log_node) fmap"
  pr_used :: "string fset"

definition proof_new ::
  "(string \<Rightarrow> string) \<Rightarrow> log_node list \<Rightarrow> nat \<Rightarrow> collection_error + proof_log_resolver" where
  "proof_new sha nodes maximum =
     rbind (index_proof_nodes sha ''log_proof_duplicate_node'' nodes maximum) (\<lambda>indexed.
     Ok \<lparr>pr_nodes = indexed, pr_used = {||}\<rparr>)"

definition proof_load :: "proof_log_resolver node_load" where
  "proof_load object_id r =
     (case fmlookup (pr_nodes r) object_id of
        None \<Rightarrow> Ok (None, r)
      | Some node \<Rightarrow> Ok (Some node, r\<lparr>pr_used := finsert object_id (pr_used r)\<rparr>))"

definition proof_finish :: "proof_log_resolver \<Rightarrow> collection_error + unit" where
  "proof_finish r =
     (if fcard (pr_used r) \<noteq> fcard (fmdom (pr_nodes r)) then Err (Integrity ''log_proof_unused_node'')
      else Ok ())"

record apply_proof_log_resolver =
  ap_nodes :: "(string, log_node) fmap"
  ap_requested :: "string fset"

definition apply_proof_new ::
  "(string \<Rightarrow> string) \<Rightarrow> log_node list \<Rightarrow> nat \<Rightarrow> collection_error + apply_proof_log_resolver" where
  "apply_proof_new sha nodes maximum =
     rbind (index_proof_nodes sha ''log_apply_duplicate_node'' nodes maximum) (\<lambda>indexed.
     Ok \<lparr>ap_nodes = indexed, ap_requested = {||}\<rparr>)"

definition apply_proof_load :: "apply_proof_log_resolver node_load" where
  "apply_proof_load object_id r =
     Ok (fmlookup (ap_nodes r) object_id, r\<lparr>ap_requested := finsert object_id (ap_requested r)\<rparr>)"

definition apply_proof_finish ::
  "string fset \<Rightarrow> apply_proof_log_resolver \<Rightarrow> collection_error + unit" where
  "apply_proof_finish loaded r =
     (if loaded \<noteq> fmdom (ap_nodes r) \<or> \<not> loaded |\<subseteq>| ap_requested r
      then Err (Integrity ''log_apply_node_closure_mismatch'') else Ok ())"

section \<open>Exact reads\<close>

definition load_resolved_log_node ::
  "(string \<Rightarrow> string) \<Rightarrow> 'r node_load \<Rightarrow> node_ref \<Rightarrow> 'r \<Rightarrow> collection_error + (log_node \<times> 'r)" where
  "load_resolved_log_node sha load reference r =
     rbind (load (nr_object_id reference) r) (\<lambda>(found, r).
     rbind (ok_or (MissingObject (nr_object_id reference)) found) (\<lambda>node.
     rbind (log_node_verify sha node) (\<lambda>_.
     if ln_object_id node \<noteq> nr_object_id reference then Err (Integrity ''log_resolved_child_mismatch'')
     else rbind (value_count node) (\<lambda>len.
     if len \<noteq> nr_len reference then Err (Integrity ''log_resolved_child_mismatch'')
     else rbind (node_height node) (\<lambda>height.
     if height \<noteq> nr_height reference then Err (Integrity ''log_resolved_child_mismatch'')
     else Ok (node, r))))))"

fun get_log_value_from ::
  "(string \<Rightarrow> string) \<Rightarrow> 'r node_load \<Rightarrow> nat \<Rightarrow> node_ref \<Rightarrow> nat \<Rightarrow> 'r
   \<Rightarrow> collection_error + (string \<times> 'r)" where
  "get_log_value_from sha load 0 reference index r = Err (Integrity ''log_path_bound_exceeded'')"
| "get_log_value_from sha load (Suc n) reference index r =
     rbind (load_resolved_log_node sha load reference r) (\<lambda>(node, r).
     case ln_body node of
       LogLeaf vs \<Rightarrow>
         if index < length vs then Ok (vs ! index, r)
         else Err (Integrity ''log_leaf_index_mismatch'')
     | LogBranch left right \<Rightarrow>
         if index < nr_len left then get_log_value_from sha load n left index r
         else rbind (ok_or (Integrity ''log_index_underflow'') (checked_sub index (nr_len left))) (\<lambda>index.
              get_log_value_from sha load n right index r))"

definition get_log_value ::
  "(string \<Rightarrow> string) \<Rightarrow> 'r node_load \<Rightarrow> log_root \<Rightarrow> nat \<Rightarrow> 'r \<Rightarrow> collection_error + (string \<times> 'r)" where
  "get_log_value sha load root index r =
     rbind (root_ref sha root) (\<lambda>found.
     rbind (ok_or CValidation found) (\<lambda>reference.
     get_log_value_from sha load (Suc MAX_LOG_HEIGHT) reference index r))"

record log_exact_proof =
  xp_root :: log_root
  xp_index :: nat
  xp_nodes :: "log_node list"

record verified_log_read =
  vr_root :: log_root
  vr_index :: nat
  vr_value :: string

definition prove_log_exact ::
  "(string \<Rightarrow> string) \<Rightarrow> 'r node_load \<Rightarrow> log_root \<Rightarrow> nat \<Rightarrow> 'r \<Rightarrow> collection_error + log_exact_proof" where
  "prove_log_exact sha load root index r =
     rbind (log_root_verify sha root) (\<lambda>_.
     if lr_len root \<le> index then Err CValidation
     else rbind (get_log_value sha (recording_load load) root index (recording_new r)) (\<lambda>(_, recorder).
     Ok \<lparr>xp_root = root, xp_index = index, xp_nodes = values_of (rc_nodes recorder)\<rparr>))"

definition verify_log_exact ::
  "(string \<Rightarrow> string) \<Rightarrow> log_root \<Rightarrow> nat \<Rightarrow> log_exact_proof \<Rightarrow> collection_error + verified_log_read" where
  "verify_log_exact sha expected_root expected_index prf =
     rbind (log_root_verify sha expected_root) (\<lambda>_.
     if xp_root prf \<noteq> expected_root \<or> xp_index prf \<noteq> expected_index
     then Err (Integrity ''log_exact_authority_mismatch'')
     else
      rbind (proof_new sha (xp_nodes prf) MAX_LOG_HEIGHT) (\<lambda>resolver.
      rbind (get_log_value sha proof_load expected_root expected_index resolver) (\<lambda>(v, resolver).
      rbind (proof_finish resolver) (\<lambda>_.
      Ok \<lparr>vr_root = expected_root, vr_index = expected_index, vr_value = v\<rparr>))))"

section \<open>Ranges\<close>

record log_range_selection =
  sel_values :: "string list"
  sel_used_bytes :: nat
  sel_boundary :: "string option"

record log_range_proof =
  rp_root :: log_root
  rp_start :: nat
  rp_limit :: nat
  rp_max_bytes :: nat
  rp_nodes :: "log_node list"

record verified_log_range =
  rg_root :: log_root
  rg_start :: nat
  rg_values :: "string list"
  rg_next_index :: "nat option"

definition MAX_LOG_RANGE_PROOF_NODES :: nat where
  "MAX_LOG_RANGE_PROOF_NODES = MAX_LOG_HEIGHT * 4 + MAX_PAGE_ENTRIES * 2 + 4"

text \<open>The loop over the values of a leaf, from the ordinal \<open>index\<close> of the first of them.\<close>

fun visit_leaf ::
  "nat \<Rightarrow> nat \<Rightarrow> nat \<Rightarrow> nat \<Rightarrow> string list \<Rightarrow> log_range_selection \<Rightarrow> collection_error + log_range_selection" where
  "visit_leaf start limit max_bytes index [] selection = Ok selection"
| "visit_leaf start limit max_bytes index (v # vs) selection =
     (if 2 ^ 64 \<le> index then Err (Integrity ''log_range_index_overflow'')
      else if index < start then visit_leaf start limit max_bytes (index + 1) vs selection
      else rbind (coll_validate_content_id v) (\<lambda>_.
      rbind (ok_or CValidation (checked_add (sel_used_bytes selection) (length v))) (\<lambda>next_bytes.
      if length (sel_values selection) = limit \<or> max_bytes < next_bytes
      then Ok (selection\<lparr>sel_boundary := Some v\<rparr>)
      else visit_leaf start limit max_bytes (index + 1) vs
             (selection\<lparr>sel_used_bytes := next_bytes, sel_values := sel_values selection @ [v]\<rparr>))))"

definition range_end :: "nat \<Rightarrow> nat \<Rightarrow> collection_error + nat" where
  "range_end base len = ok_or (Integrity ''log_range_index_overflow'') (exact_add base len)"

lemma load_resolved_height:
  assumes "load_resolved_log_node sha load reference r = Ok (node, r')" "ln_body node = LogBranch left right"
  shows "nr_height reference = max (nr_height left) (nr_height right) + 1"
  using assms
  by (auto simp: load_resolved_log_node_def node_height_def Let_def split: prod.splits if_splits)

function visit_log_range ::
  "(string \<Rightarrow> string) \<Rightarrow> 'r node_load \<Rightarrow> node_ref \<Rightarrow> nat \<Rightarrow> nat \<Rightarrow> nat \<Rightarrow> nat
   \<Rightarrow> log_range_selection \<Rightarrow> 'r \<Rightarrow> collection_error + (log_range_selection \<times> 'r)" where
  "visit_log_range sha load reference base start limit max_bytes selection r =
     (if sel_boundary selection \<noteq> None then Ok (selection, r)
      else
       rbind (range_end base (nr_len reference)) (\<lambda>end_index.
       if end_index \<le> start then Ok (selection, r)
       else
        rbind (load_resolved_log_node sha load reference r) (\<lambda>(node, r).
        case ln_body node of
          LogLeaf vs \<Rightarrow>
            rbind (visit_leaf start limit max_bytes base vs selection) (\<lambda>selection. Ok (selection, r))
        | LogBranch left right \<Rightarrow>
            rbind (visit_log_range sha load left base start limit max_bytes selection r) (\<lambda>(selection, r).
            rbind (range_end base (nr_len left)) (\<lambda>right_base.
            visit_log_range sha load right right_base start limit max_bytes selection r)))))"
  by pat_completeness auto
termination
  by (relation "measure (\<lambda>(sha, load, reference, _). nr_height reference)")
    (auto dest!: load_resolved_height simp del: rbind_eq_Ok)

declare visit_log_range.simps [simp del]

definition collect_log_range ::
  "(string \<Rightarrow> string) \<Rightarrow> 'r node_load \<Rightarrow> log_root \<Rightarrow> nat \<Rightarrow> nat \<Rightarrow> nat \<Rightarrow> 'r
   \<Rightarrow> collection_error + (log_range_selection \<times> 'r)" where
  "collect_log_range sha load root start limit max_bytes r =
     rbind (root_ref sha root) (\<lambda>found.
     rbind (case found of
              None \<Rightarrow> Ok (\<lparr>sel_values = [], sel_used_bytes = 0, sel_boundary = None\<rparr>, r)
            | Some reference \<Rightarrow> visit_log_range sha load reference 0 start limit max_bytes
                \<lparr>sel_values = [], sel_used_bytes = 0, sel_boundary = None\<rparr> r) (\<lambda>(selection, r).
     if sel_values selection = [] \<and> sel_boundary selection \<noteq> None then Err CValidation
     else Ok (selection, r)))"

definition validate_range_request ::
  "(string \<Rightarrow> string) \<Rightarrow> log_root \<Rightarrow> nat \<Rightarrow> nat \<Rightarrow> nat \<Rightarrow> collection_error + unit" where
  "validate_range_request sha root start limit max_bytes =
     rbind (log_root_verify sha root) (\<lambda>_.
     if lr_len root < start then Err CValidation
     else if limit < 1 \<or> MAX_PAGE_ENTRIES < limit then Err CValidation
     else if max_bytes < 1 \<or> MAX_PAGE_BYTES < max_bytes then Err CValidation
     else Ok ())"

definition prove_log_range ::
  "(string \<Rightarrow> string) \<Rightarrow> 'r node_load \<Rightarrow> log_root \<Rightarrow> nat \<Rightarrow> nat \<Rightarrow> nat \<Rightarrow> 'r
   \<Rightarrow> collection_error + log_range_proof" where
  "prove_log_range sha load root start limit max_bytes r =
     rbind (validate_range_request sha root start limit max_bytes) (\<lambda>_.
     rbind (collect_log_range sha (recording_load load) root start limit max_bytes (recording_new r))
      (\<lambda>(_, recorder).
      if 2 ^ 16 \<le> limit then Err CValidation
      else Ok \<lparr>rp_root = root, rp_start = start, rp_limit = limit, rp_max_bytes = max_bytes,
               rp_nodes = values_of (rc_nodes recorder)\<rparr>))"

definition verify_log_range ::
  "(string \<Rightarrow> string) \<Rightarrow> log_root \<Rightarrow> nat \<Rightarrow> nat \<Rightarrow> nat \<Rightarrow> log_range_proof
   \<Rightarrow> collection_error + verified_log_range" where
  "verify_log_range sha expected_root expected_start limit max_bytes prf =
     rbind (validate_range_request sha expected_root expected_start limit max_bytes) (\<lambda>_.
     if rp_root prf \<noteq> expected_root \<or> rp_start prf \<noteq> expected_start
        \<or> rp_limit prf \<noteq> limit \<or> rp_max_bytes prf \<noteq> max_bytes
     then Err (Integrity ''log_range_authority_mismatch'')
     else if MAX_LOG_RANGE_PROOF_NODES < length (rp_nodes prf) then Err CValidation
     else
      rbind (proof_new sha (rp_nodes prf) MAX_LOG_RANGE_PROOF_NODES) (\<lambda>resolver.
      rbind (collect_log_range sha proof_load expected_root expected_start limit max_bytes resolver)
       (\<lambda>(selection, resolver).
      rbind (proof_finish resolver) (\<lambda>_.
      rbind (ok_or (Integrity ''log_range_index_overflow'')
         (checked_add expected_start (length (sel_values selection)))) (\<lambda>next_index.
      Ok \<lparr>rg_root = expected_root, rg_start = expected_start, rg_values = sel_values selection,
          rg_next_index = map_option (\<lambda>_. next_index) (sel_boundary selection)\<rparr>)))))"

end
