(* ===== verification/Log_Apply.thy ===== *)
theory Log_Apply
  imports Log_Proof
begin

text \<open>
  The state-changing entry points of the ordered log (\<^verbatim>\<open>log.rs\<close>): split and mutation batches with
  their proofs and the nodes a provider must persist, the complete audit, and the bottom-up build
  of a genesis sequence.
\<close>

section \<open>Nodes to persist\<close>

text \<open>The depth-first walk over pending nodes. A node enters the stack with the length and height
  of its edge, which the walk checks, so a branch is replaced by two lower references.\<close>

definition stack_weight :: "node_ref list \<Rightarrow> nat" where
  "stack_weight stack = sum_list (map (\<lambda>c. 3 ^ nr_height c) stack)"

lemma stack_weight_Cons [simp]: "stack_weight (c # stack) = 3 ^ nr_height c + stack_weight stack"
  by (simp add: stack_weight_def)

lemma stack_weight_branch:
  assumes "nr_height c = max (nr_height l) (nr_height r) + 1"
  shows "stack_weight (l # r # stack) < stack_weight (c # stack)"
proof -
  have "(3::nat) ^ nr_height l \<le> 3 ^ max (nr_height l) (nr_height r)"
    "(3::nat) ^ nr_height r \<le> 3 ^ max (nr_height l) (nr_height r)"
    by (simp_all add: power_increasing)
  moreover have "(0::nat) < 3 ^ max (nr_height l) (nr_height r)" by simp
  ultimately have "(3::nat) ^ nr_height l + 3 ^ nr_height r < 3 * 3 ^ max (nr_height l) (nr_height r)"
    by linarith
  then show ?thesis by (simp add: assms)
qed

function collect_created ::
  "(string \<Rightarrow> string) \<Rightarrow> 'r node_load \<Rightarrow> node_ref list \<Rightarrow> string fset \<Rightarrow> (string, log_node) fmap
   \<Rightarrow> 'r overlay \<Rightarrow> collection_error + ((string, log_node) fmap \<times> 'r overlay)" where
  "collect_created sha load [] visited made ov = Ok (made, ov)"
| "collect_created sha load (c # stack) visited made ov =
     (if nr_object_id c |\<in>| visited then collect_created sha load stack visited made ov
      else
       let visited = finsert (nr_object_id c) visited in
       (case fmlookup (ov_pending ov) (nr_object_id c) of
          None \<Rightarrow> collect_created sha load stack visited made ov
        | Some node \<Rightarrow>
            rbind (log_node_verify sha node) (\<lambda>_.
            rbind (value_count node) (\<lambda>len.
            if len \<noteq> nr_len c then Err (Integrity ''log_created_child_shape_mismatch'')
            else rbind (node_height node) (\<lambda>height.
            if height \<noteq> nr_height c then Err (Integrity ''log_created_child_shape_mismatch'')
            else if fmlookup (ov_loaded ov) (ln_object_id node) \<noteq> None
            then collect_created sha load stack visited made ov
            else rbind (load (ln_object_id node) (ov_resolver ov)) (\<lambda>(found, r).
             let ov = ov\<lparr>ov_resolver := r\<rparr> in
             (case found of
                Some existing \<Rightarrow>
                  rbind (log_node_verify sha existing) (\<lambda>_.
                  if existing \<noteq> node then Err (Integrity ''log_existing_node_identity_conflict'')
                  else collect_created sha load stack visited made ov)
              | None \<Rightarrow>
                  let made = fmupd (ln_object_id node) node made in
                  (case ln_body node of
                     LogLeaf _ \<Rightarrow> collect_created sha load stack visited made ov
                   | LogBranch left right \<Rightarrow>
                       collect_created sha load (left # right # stack) visited made ov))))))))"
  by pat_completeness auto
termination
proof (relation "measure (\<lambda>(sha, load, stack, visited, made, ov). stack_weight stack)", goal_cases)
  case (6 sha load c stack visited made ov visited' node u len height x found r ov' made' left right)
  then have "nr_height c = max (nr_height left) (nr_height right) + 1"
    by (auto simp: node_height_def Let_def split: if_splits)
  then show ?case using stack_weight_branch [of c left right stack] by simp
qed auto

declare collect_created.simps [simp del]

definition collect_reachable_created_log_nodes_for_roots ::
  "(string \<Rightarrow> string) \<Rightarrow> 'r node_load \<Rightarrow> log_root list \<Rightarrow> 'r overlay \<Rightarrow> collection_error + log_node list" where
  "collect_reachable_created_log_nodes_for_roots sha load roots ov =
     rbind (rmap (root_ref sha) roots) (\<lambda>found.
     rbind (collect_created sha load (rev (List.map_filter id found)) {||} fmempty ov) (\<lambda>(made, _).
     Ok (values_of made)))"

section \<open>Splits\<close>

record log_split_proof =
  sp_parent :: log_root
  sp_index :: nat
  sp_prefix :: log_root
  sp_suffix :: log_root
  sp_nodes :: "log_node list"

record verified_log_split =
  vs_parent :: log_root
  vs_index :: nat
  vs_prefix :: log_root
  vs_suffix :: log_root

record log_split_output =
  so_verified :: verified_log_split
  so_proof :: log_split_proof
  so_objects :: "log_node list"

definition verify_log_split ::
  "(string \<Rightarrow> string) \<Rightarrow> log_root \<Rightarrow> nat \<Rightarrow> log_split_proof \<Rightarrow> collection_error + verified_log_split" where
  "verify_log_split sha expected_parent expected_index prf =
     rbind (log_root_verify sha expected_parent) (\<lambda>_.
     if lr_len expected_parent < expected_index then Err CValidation
     else if sp_parent prf \<noteq> expected_parent \<or> sp_index prf \<noteq> expected_index
     then Err (Integrity ''log_split_authority_mismatch'')
     else
      rbind (apply_proof_new sha (sp_nodes prf) (MAX_LOG_HEIGHT * 4)) (\<lambda>resolver.
      rbind (split_root sha apply_proof_load expected_parent expected_index (overlay_new resolver))
       (\<lambda>((prefix, suffix), ov).
      if prefix \<noteq> sp_prefix prf \<or> suffix \<noteq> sp_suffix prf
      then Err (Integrity ''log_split_result_mismatch'')
      else rbind (apply_proof_finish (fmdom (ov_loaded ov)) (ov_resolver ov)) (\<lambda>_.
      Ok \<lparr>vs_parent = expected_parent, vs_index = expected_index, vs_prefix = prefix,
          vs_suffix = suffix\<rparr>))))"

definition split_log ::
  "(string \<Rightarrow> string) \<Rightarrow> 'r node_load \<Rightarrow> log_root \<Rightarrow> nat \<Rightarrow> 'r \<Rightarrow> collection_error + log_split_output" where
  "split_log sha load parent index r =
     rbind (log_root_verify sha parent) (\<lambda>_.
     if lr_len parent < index then Err CValidation
     else
      rbind (split_root sha load parent index (overlay_new r)) (\<lambda>((prefix, suffix), ov).
      let proof_nodes = values_of (ov_loaded ov) in
      rbind (collect_reachable_created_log_nodes_for_roots sha load [prefix, suffix] ov) (\<lambda>objects.
      let prf = \<lparr>sp_parent = parent, sp_index = index, sp_prefix = prefix, sp_suffix = suffix,
                 sp_nodes = proof_nodes\<rparr> in
      rbind (verify_log_split sha parent index prf) (\<lambda>verified.
      Ok \<lparr>so_verified = verified, so_proof = prf, so_objects = objects\<rparr>))))"

section \<open>Mutation batches\<close>

record log_apply_proof =
  lp_parent :: log_root
  lp_result :: log_root
  lp_mutations :: "log_mutation list"
  lp_nodes :: "log_node list"

record verified_log_apply =
  va_parent :: log_root
  va_result :: log_root
  va_mutations :: "log_mutation list"
  va_mutation_digest :: string

record log_apply_output =
  ao_verified :: verified_log_apply
  ao_proof :: log_apply_proof
  ao_objects :: "log_node list"

definition verify_log_apply ::
  "(string \<Rightarrow> string) \<Rightarrow> log_root \<Rightarrow> log_mutation list \<Rightarrow> log_apply_proof
   \<Rightarrow> collection_error + verified_log_apply" where
  "verify_log_apply sha expected_parent expected_mutations prf =
     rbind (log_root_verify sha expected_parent) (\<lambda>_.
     rbind (validate_mutations sha expected_mutations) (\<lambda>mutations.
     if lp_parent prf \<noteq> expected_parent \<or> lp_mutations prf \<noteq> mutations
     then Err (Integrity ''log_apply_authority_mismatch'')
     else
      rbind (apply_proof_new sha (lp_nodes prf) (MAX_LOG_HEIGHT * MAX_LOG_VALUES_PER_APPLY * 4)) (\<lambda>resolver.
      rbind (apply_log_internal sha apply_proof_load expected_parent mutations (overlay_new resolver))
       (\<lambda>(result, ov).
      if result \<noteq> lp_result prf then Err (Integrity ''log_apply_result_mismatch'')
      else rbind (apply_proof_finish (fmdom (ov_loaded ov)) (ov_resolver ov)) (\<lambda>_.
      Ok \<lparr>va_parent = expected_parent, va_result = result, va_mutations = mutations,
          va_mutation_digest = mutation_digest sha mutations\<rparr>)))))"

definition apply_log_mutations ::
  "(string \<Rightarrow> string) \<Rightarrow> 'r node_load \<Rightarrow> log_root \<Rightarrow> log_mutation list \<Rightarrow> 'r
   \<Rightarrow> collection_error + log_apply_output" where
  "apply_log_mutations sha load parent mutations r =
     rbind (log_root_verify sha parent) (\<lambda>_.
     rbind (validate_mutations sha mutations) (\<lambda>mutations.
     rbind (apply_log_internal sha load parent mutations (overlay_new r)) (\<lambda>(result, ov).
     let proof_nodes = values_of (ov_loaded ov) in
     rbind (collect_reachable_created_log_nodes_for_roots sha load [result] ov) (\<lambda>objects.
     let prf = \<lparr>lp_parent = parent, lp_result = result, lp_mutations = mutations,
                lp_nodes = proof_nodes\<rparr> in
     rbind (verify_log_apply sha parent mutations prf) (\<lambda>verified.
     Ok \<lparr>ao_verified = verified, ao_proof = prf, ao_objects = objects\<rparr>)))))"

section \<open>Complete audit\<close>

record log_audit =
  la_values :: "string list"
  la_objects :: "log_node list"

function audit_stack ::
  "(string \<Rightarrow> string) \<Rightarrow> 'r node_load \<Rightarrow> node_ref list \<Rightarrow> string list \<Rightarrow> (string, log_node) fmap \<Rightarrow> 'r
   \<Rightarrow> collection_error + (string list \<times> (string, log_node) fmap \<times> 'r)" where
  "audit_stack sha load [] vs unique r = Ok (vs, unique, r)"
| "audit_stack sha load (c # stack) vs unique r =
     rbind (load_resolved_log_node sha load c r) (\<lambda>(node, r).
     let unique = (if fmlookup unique (ln_object_id node) = None
                   then fmupd (ln_object_id node) node unique else unique) in
     (case ln_body node of
        LogLeaf leaf_values \<Rightarrow> audit_stack sha load stack (vs @ leaf_values) unique r
      | LogBranch left right \<Rightarrow> audit_stack sha load (left # right # stack) vs unique r))"
  by pat_completeness auto
termination
proof (relation "measure (\<lambda>(sha, load, stack, _). stack_weight stack)", goal_cases)
  case (3 sha load c stack vs unique r x node r' unique' left right)
  then have "nr_height c = max (nr_height left) (nr_height right) + 1"
    using load_resolved_height by metis
  then show ?case using stack_weight_branch [of c left right stack] by simp
qed auto

declare audit_stack.simps [simp del]

definition audit_log ::
  "(string \<Rightarrow> string) \<Rightarrow> 'r node_load \<Rightarrow> log_root \<Rightarrow> 'r \<Rightarrow> collection_error + log_audit" where
  "audit_log sha load root r =
     rbind (log_root_verify sha root) (\<lambda>_.
     rbind (root_ref sha root) (\<lambda>found.
     case found of
       None \<Rightarrow> Ok \<lparr>la_values = [], la_objects = []\<rparr>
     | Some reference \<Rightarrow>
         rbind (audit_stack sha load [reference] [] fmempty r) (\<lambda>(vs, unique, _).
         if length vs \<noteq> lr_len root then Err (Integrity ''log_audit_count_mismatch'')
         else Ok \<lparr>la_values = vs, la_objects = values_of unique\<rparr>)))"

section \<open>Bottom-up build\<close>

record log_build_output =
  bo_root :: log_root
  bo_objects :: "log_node list"

definition store_built_log_node ::
  "(string \<Rightarrow> string) \<Rightarrow> log_node \<Rightarrow> (string, log_node) fmap
   \<Rightarrow> collection_error + (node_ref \<times> (string, log_node) fmap)" where
  "store_built_log_node sha node objects =
     rbind (log_node_verify sha node) (\<lambda>_.
     rbind (value_count node) (\<lambda>len.
     rbind (node_height node) (\<lambda>height.
     let reference = \<lparr>nr_object_id = ln_object_id node, nr_len = len, nr_height = height\<rparr> in
     (case fmlookup objects (ln_object_id node) of
        None \<Rightarrow> Ok (reference, fmupd (ln_object_id node) node objects)
      | Some existing \<Rightarrow>
          if existing \<noteq> node then Err (Integrity ''log_node_identity_conflict'')
          else Ok (reference, objects)))))"

definition store_built_leaf ::
  "(string \<Rightarrow> string) \<Rightarrow> string list \<Rightarrow> (string, log_node) fmap
   \<Rightarrow> collection_error + (node_ref \<times> (string, log_node) fmap)" where
  "store_built_leaf sha vs objects =
     rbind (log_leaf sha vs) (\<lambda>node. store_built_log_node sha node objects)"

text \<open>Full leaves alternate with single values, as appending one by one leaves them.\<close>

function build_append_log_leaves ::
  "(string \<Rightarrow> string) \<Rightarrow> string list \<Rightarrow> (string, log_node) fmap
   \<Rightarrow> collection_error + (node_ref list \<times> (string, log_node) fmap)" where
  "build_append_log_leaves sha vs objects =
     (if LOG_FANOUT < length vs then
        rbind (store_built_leaf sha (take LOG_FANOUT vs) objects) (\<lambda>(full, objects).
        rbind (store_built_leaf sha (take 1 (drop LOG_FANOUT vs)) objects) (\<lambda>(single, objects).
        rbind (build_append_log_leaves sha (drop (LOG_FANOUT + 1) vs) objects) (\<lambda>(leaves, objects).
        Ok (full # single # leaves, objects))))
      else if vs \<noteq> [] then
        rbind (store_built_leaf sha vs objects) (\<lambda>(leaf, objects). Ok ([leaf], objects))
      else Ok ([], objects))"
  by pat_completeness auto
termination
  by (relation "measure (\<lambda>(sha, vs, objects). length vs)") (auto simp: LOG_FANOUT_def)

declare build_append_log_leaves.simps [simp del]

text \<open>\<^verbatim>\<open>1 << (usize::BITS - 1 - leaves.leading_zeros())\<close>: the largest power of two not above.\<close>

fun power_below :: "nat \<Rightarrow> nat" where
  "power_below n = (if n < 2 then 1 else 2 * power_below (n div 2))"

declare power_below.simps [simp del]

definition append_log_tree_left_len :: "nat \<Rightarrow> nat" where
  "append_log_tree_left_len leaves =
     (let power = power_below leaves in
      if leaves = power then power div 2
      else if leaves = 3 then 2
      else let lower_half = power div 2 in
        if leaves \<le> power + lower_half then lower_half else power)"

lemma power_below_bounds: "0 < n \<Longrightarrow> power_below n \<le> n \<and> n < 2 * power_below n \<and> 0 < power_below n"
proof (induction n rule: power_below.induct)
  case (1 n)
  show ?case
  proof (cases "n < 2")
    case True
    then show ?thesis using 1(2) by (simp add: power_below.simps)
  next
    case False
    then show ?thesis using 1(1) by (simp add: power_below.simps [of n]) linarith
  qed
qed

lemma left_len_bounds:
  assumes "1 < n"
  shows "0 < append_log_tree_left_len n \<and> append_log_tree_left_len n < n"
proof -
  have "power_below n \<le> n" "n < 2 * power_below n" using power_below_bounds [of n] assms by simp_all
  moreover have "2 \<le> power_below n" using assms power_below.simps [of n] power_below_bounds [of "n div 2"] by simp
  ultimately show ?thesis using assms by (auto simp: append_log_tree_left_len_def Let_def)
qed

function build_append_log_tree ::
  "(string \<Rightarrow> string) \<Rightarrow> node_ref list \<Rightarrow> (string, log_node) fmap
   \<Rightarrow> collection_error + (node_ref \<times> (string, log_node) fmap)" where
  "build_append_log_tree sha leaves objects =
     (case leaves of
        [] \<Rightarrow> Err (Integrity ''log_build_empty_subtree'')
      | leaf # rest \<Rightarrow>
          if length leaves = 1 then Ok (leaf, objects)
          else
           let left_len = append_log_tree_left_len (length leaves) in
           rbind (build_append_log_tree sha (take left_len leaves) objects) (\<lambda>(left, objects).
           rbind (build_append_log_tree sha (drop left_len leaves) objects) (\<lambda>(right, objects).
           rbind (log_branch sha left right) (\<lambda>node. store_built_log_node sha node objects))))"
  by pat_completeness auto
termination
proof (relation "measure (\<lambda>(sha, leaves, objects). length leaves)", goal_cases)
  case (2 sha leaves objects leaf rest left_len)
  then have "1 < length leaves" by (cases rest) auto
  with left_len_bounds [of "length leaves"] 2 show ?case by simp
next
  case (3 sha leaves objects leaf rest left_len)
  then have "1 < length leaves" by (cases rest) auto
  with left_len_bounds [of "length leaves"] 3 show ?case by simp
qed auto

declare build_append_log_tree.simps [simp del]

definition build_log :: "(string \<Rightarrow> string) \<Rightarrow> string list \<Rightarrow> collection_error + log_build_output" where
  "build_log sha vs =
     (if MAX_EXACT_INTEGER < length vs then Err CValidation
      else if vs = [] then Ok \<lparr>bo_root = log_root_empty sha, bo_objects = []\<rparr>
      else
       rbind (rcheck coll_validate_content_id vs) (\<lambda>_.
       rbind (build_append_log_leaves sha vs fmempty) (\<lambda>(leaves, objects).
       rbind (build_append_log_tree sha leaves objects) (\<lambda>(reference, objects).
       rbind (ref_root sha (Some reference)) (\<lambda>root.
       if lr_len root \<noteq> length vs then Err (Integrity ''log_build_count_mismatch'')
       else Ok \<lparr>bo_root = root, bo_objects = values_of objects\<rparr>)))))"

end
