(* ===== verification/Log_Tree.thy ===== *)
theory Log_Tree
  imports Log_Node
begin

text \<open>
  The reference model of the ordered log: trees of value lists with the AVL join and split
  that the crate performs on stored nodes, here on whole trees. Every operation also returns
  the trees it creates, in order, which is what the stored version writes. The lemmas show
  that the operations keep the order of the values and the AVL shape, and that the height is
  logarithmic in the length.
\<close>

datatype log_tree = Tip "string list" | Fork log_tree log_tree

fun tvals :: "log_tree \<Rightarrow> string list" where
  "tvals (Tip vs) = vs"
| "tvals (Fork l r) = tvals l @ tvals r"

fun ht :: "log_tree \<Rightarrow> nat" where
  "ht (Tip vs) = 1"
| "ht (Fork l r) = max (ht l) (ht r) + 1"

fun subtrees :: "log_tree \<Rightarrow> log_tree set" where
  "subtrees (Tip vs) = {Tip vs}"
| "subtrees (Fork l r) = insert (Fork l r) (subtrees l \<union> subtrees r)"

fun avl :: "log_tree \<Rightarrow> bool" where
  "avl (Tip vs) \<longleftrightarrow> vs \<noteq> [] \<and> length vs \<le> LOG_FANOUT
     \<and> list_all (\<lambda>v. coll_validate_content_id v = Ok ()) vs"
| "avl (Fork l r) \<longleftrightarrow> avl l \<and> avl r \<and> abs_diff (ht l) (ht r) \<le> 1"

section \<open>Join\<close>

definition tree_balance :: "log_tree \<Rightarrow> log_tree \<Rightarrow> log_tree \<times> log_tree list" where
  "tree_balance l r =
     (if abs_diff (ht l) (ht r) \<le> 1 then (Fork l r, [Fork l r])
      else if ht r < ht l then
       (case l of
          Fork ll lr \<Rightarrow>
            if ht lr \<le> ht ll then (Fork ll (Fork lr r), [Fork lr r, Fork ll (Fork lr r)])
            else (case lr of
               Fork ml mr \<Rightarrow> (Fork (Fork ll ml) (Fork mr r),
                 [Fork ll ml, Fork mr r, Fork (Fork ll ml) (Fork mr r)])
             | Tip _ \<Rightarrow> (Fork l r, []))
        | Tip _ \<Rightarrow> (Fork l r, []))
      else
       (case r of
          Fork rl rr \<Rightarrow>
            if ht rl \<le> ht rr then (Fork (Fork l rl) rr, [Fork l rl, Fork (Fork l rl) rr])
            else (case rl of
               Fork ml mr \<Rightarrow> (Fork (Fork l ml) (Fork mr rr),
                 [Fork l ml, Fork mr rr, Fork (Fork l ml) (Fork mr rr)])
             | Tip _ \<Rightarrow> (Fork l r, []))
        | Tip _ \<Rightarrow> (Fork l r, [])))"

definition tree_meet :: "log_tree \<Rightarrow> log_tree \<Rightarrow> log_tree \<times> log_tree list" where
  "tree_meet l r =
     (case (l, r) of
        (Tip vs, Tip ws) \<Rightarrow>
          if length vs + length ws \<le> LOG_FANOUT then (Tip (vs @ ws), [Tip (vs @ ws)])
          else (Fork l r, [Fork l r])
      | _ \<Rightarrow> (Fork l r, [Fork l r]))"

fun tree_join :: "log_tree \<Rightarrow> log_tree \<Rightarrow> log_tree \<times> log_tree list" where
  "tree_join l r =
     (if ht r + 1 < ht l then
       (case l of
          Fork ll lr \<Rightarrow>
            let (j, made) = tree_join lr r; (b, made') = tree_balance ll j in (b, made @ made')
        | Tip _ \<Rightarrow> (Fork l r, []))
      else if ht l + 1 < ht r then
       (case r of
          Fork rl rr \<Rightarrow>
            let (j, made) = tree_join l rl; (b, made') = tree_balance j rr in (b, made @ made')
        | Tip _ \<Rightarrow> (Fork l r, []))
      else tree_meet l r)"

declare tree_join.simps [simp del]

fun tree_concat :: "log_tree option \<Rightarrow> log_tree option \<Rightarrow> log_tree option \<times> log_tree list" where
  "tree_concat None t = (t, [])"
| "tree_concat t None = (t, [])"
| "tree_concat (Some l) (Some r) = (let (t, made) = tree_join l r in (Some t, made))"

section \<open>Split\<close>

fun tree_split :: "log_tree \<Rightarrow> nat \<Rightarrow> log_tree option \<times> log_tree option \<times> log_tree list" where
  "tree_split t i =
     (if i = 0 then (None, Some t, [])
      else if i = length (tvals t) then (Some t, None, [])
      else (case t of
         Tip vs \<Rightarrow> (Some (Tip (take i vs)), Some (Tip (drop i vs)),
                    [Tip (take i vs), Tip (drop i vs)])
       | Fork l r \<Rightarrow>
          if i < length (tvals l) then
            let (p, q, made) = tree_split l i; (s, made') = tree_concat q (Some r)
            in (p, s, made @ made')
          else if i = length (tvals l) then (Some l, Some r, [])
          else
            let (p, s, made) = tree_split r (i - length (tvals l));
                (q, made') = tree_concat (Some l) p
            in (q, s, made @ made')))"

declare tree_split.simps [simp del]

abbreviation opt_values :: "log_tree option \<Rightarrow> string list" where
  "opt_values t \<equiv> (case t of None \<Rightarrow> [] | Some u \<Rightarrow> tvals u)"

definition opt_avl :: "log_tree option \<Rightarrow> bool" where
  "opt_avl t = (case t of None \<Rightarrow> True | Some u \<Rightarrow> avl u)"

lemma opt_avl_simps [simp]: "opt_avl None" "opt_avl (Some u) \<longleftrightarrow> avl u"
  by (simp_all add: opt_avl_def)

abbreviation opt_subtrees :: "log_tree option \<Rightarrow> log_tree set" where
  "opt_subtrees t \<equiv> (case t of None \<Rightarrow> {} | Some u \<Rightarrow> subtrees u)"

section \<open>Shape\<close>

lemma ht_pos [simp]: "0 < ht t" "ht t \<noteq> 0"
  by (cases t; simp)+

lemma abs_diff_le_1 [simp]: "abs_diff a b \<le> Suc 0 \<longleftrightarrow> a \<le> Suc b \<and> b \<le> Suc a"
  by (auto simp: abs_diff_def)

lemma self_in_subtrees [simp]: "t \<in> subtrees t"
  by (cases t) auto

lemma avl_tvals_ne: "avl t \<Longrightarrow> tvals t \<noteq> []"
  by (induction t) auto

lemma avl_subtrees: "avl t \<Longrightarrow> s \<in> subtrees t \<Longrightarrow> avl s"
  by (induction t) auto

lemma subtrees_length: "s \<in> subtrees t \<Longrightarrow> length (tvals s) \<le> length (tvals t)"
  by (induction t) auto

lemma ht_Suc: "1 < ht t \<Longrightarrow> \<exists>l r. t = Fork l r"
  by (cases t) auto

text \<open>What one rotation of adjacent subtrees does: same values, AVL shape, height the larger
  one or one more, and every created tree is AVL and made of the given parts.\<close>

definition joins_to :: "log_tree \<Rightarrow> log_tree \<Rightarrow> log_tree \<times> log_tree list \<Rightarrow> bool" where
  "joins_to l r res \<longleftrightarrow>
     (case res of (t, made) \<Rightarrow>
        tvals t = tvals l @ tvals r \<and> avl t
        \<and> ht t \<in> {max (ht l) (ht r), max (ht l) (ht r) + 1}
        \<and> (\<forall>m\<in>set made. avl m \<and> length (tvals m) \<le> length (tvals l) + length (tvals r))
        \<and> subtrees t \<subseteq> subtrees l \<union> subtrees r \<union> set made)"

lemma tree_balance_joins:
  assumes "avl l" "avl r" "ht l \<le> ht r + 2" "ht r \<le> ht l + 2"
  shows "joins_to l r (tree_balance l r)"
proof -
  consider (even) "abs_diff (ht l) (ht r) \<le> 1" | (left) "ht l = ht r + 2" | (right) "ht r = ht l + 2"
    using assms(3,4) by fastforce
  then show ?thesis
  proof cases
    case even
    then show ?thesis using assms by (auto simp: joins_to_def tree_balance_def)
  next
    case left
    then obtain ll lr where l: "l = Fork ll lr" using ht_Suc [of l] by auto
    show ?thesis
    proof (cases "ht lr \<le> ht ll")
      case True
      then show ?thesis using assms left l
        by (auto simp: joins_to_def tree_balance_def)
    next
      case False
      then have "1 < ht lr" using ht_pos(1) [of ll] by linarith
      then obtain ml mr where lr: "lr = Fork ml mr" using ht_Suc [of lr] by auto
      then show ?thesis using assms left l False
        by (auto simp: joins_to_def tree_balance_def max_def split: if_splits)
    qed
  next
    case right
    then obtain rl rr where r: "r = Fork rl rr" using ht_Suc [of r] by auto
    show ?thesis
    proof (cases "ht rl \<le> ht rr")
      case True
      then show ?thesis using assms right r
        by (auto simp: joins_to_def tree_balance_def)
    next
      case False
      then have "1 < ht rl" using ht_pos(1) [of rr] by linarith
      then obtain ml mr where rl: "rl = Fork ml mr" using ht_Suc [of rl] by auto
      then show ?thesis using assms right r False
        by (auto simp: joins_to_def tree_balance_def max_def split: if_splits)
    qed
  qed
qed

lemma tree_meet_joins:
  assumes "avl l" "avl r" "ht l \<le> ht r + 1" "ht r \<le> ht l + 1"
  shows "joins_to l r (tree_meet l r)"
  using assms by (cases l; cases r) (auto simp: joins_to_def tree_meet_def)

lemma joins_to_left:
  assumes "avl (Fork ll lr)" "ht r + 1 < ht (Fork ll lr)" "avl r"
    and j: "joins_to lr r (j, made)" and b: "tree_balance ll j = (b, made')"
  shows "joins_to (Fork ll lr) r (b, made @ made')"
proof -
  have "joins_to ll j (b, made')"
    unfolding b [symmetric] using j assms by (intro tree_balance_joins) (auto simp: joins_to_def)
  moreover have "ht b \<in> {ht (Fork ll lr), ht (Fork ll lr) + 1}"
  proof (cases "abs_diff (ht ll) (ht j) \<le> 1")
    case True
    then have "b = Fork ll j" using b by (simp add: tree_balance_def)
    then show ?thesis using j assms(1,2) by (auto simp: joins_to_def max_def split: if_splits)
  next
    case False
    then show ?thesis using calculation j assms(1,2)
      by (auto simp: joins_to_def max_def split: if_splits)
  qed
  ultimately show ?thesis using j assms(2) by (fastforce simp: joins_to_def)
qed

lemma joins_to_right:
  assumes "avl (Fork rl rr)" "ht l + 1 < ht (Fork rl rr)" "avl l"
    and j: "joins_to l rl (j, made)" and b: "tree_balance j rr = (b, made')"
  shows "joins_to l (Fork rl rr) (b, made @ made')"
proof -
  have "joins_to j rr (b, made')"
    unfolding b [symmetric] using j assms by (intro tree_balance_joins) (auto simp: joins_to_def)
  moreover have "ht b \<in> {ht (Fork rl rr), ht (Fork rl rr) + 1}"
  proof (cases "abs_diff (ht j) (ht rr) \<le> 1")
    case True
    then have "b = Fork j rr" using b by (simp add: tree_balance_def)
    then show ?thesis using j assms(1,2) by (auto simp: joins_to_def max_def split: if_splits)
  next
    case False
    then show ?thesis using calculation j assms(1,2)
      by (auto simp: joins_to_def max_def split: if_splits)
  qed
  ultimately show ?thesis using j assms(2) by (fastforce simp: joins_to_def)
qed

lemma tree_join_joins: "avl l \<Longrightarrow> avl r \<Longrightarrow> joins_to l r (tree_join l r)"
proof (induction l r rule: tree_join.induct)
  case (1 l r)
  consider (left) "ht r + 1 < ht l" | (right) "\<not> ht r + 1 < ht l" "ht l + 1 < ht r"
    | (meet) "ht l \<le> ht r + 1" "ht r \<le> ht l + 1" by linarith
  then show ?case
  proof cases
    case left
    then obtain ll lr where l: "l = Fork ll lr" using ht_Suc [of l] by auto
    obtain j made b made' where jb: "tree_join lr r = (j, made)" "tree_balance ll j = (b, made')"
      by force
    with 1(1) [OF left l] 1(3,4) l have "joins_to lr r (j, made)" by simp
    from joins_to_left [OF _ _ _ this jb(2)] 1(3,4) left l jb show ?thesis
      by (simp add: tree_join.simps [of "Fork ll lr" r])
  next
    case right
    then obtain rl rr where r: "r = Fork rl rr" using ht_Suc [of r] by auto
    obtain j made b made' where jb: "tree_join l rl = (j, made)" "tree_balance j rr = (b, made')"
      by force
    with 1(2) [OF right r] 1(3,4) r have "joins_to l rl (j, made)" by simp
    from joins_to_right [OF _ _ _ this jb(2)] 1(3,4) right r jb show ?thesis
      by (simp add: tree_join.simps [of l "Fork rl rr"])
  next
    case meet
    with tree_meet_joins [OF 1(3,4)] show ?thesis by (simp add: tree_join.simps [of l r])
  qed
qed


text \<open>The same summary for optional trees.\<close>

definition concats_to ::
  "log_tree option \<Rightarrow> log_tree option \<Rightarrow> log_tree option \<times> log_tree list \<Rightarrow> bool" where
  "concats_to l r res \<longleftrightarrow>
     (case res of (t, made) \<Rightarrow>
        opt_values t = opt_values l @ opt_values r \<and> opt_avl t
        \<and> (\<forall>m\<in>set made. avl m \<and> length (tvals m) \<le> length (opt_values l) + length (opt_values r))
        \<and> opt_subtrees t \<subseteq> opt_subtrees l \<union> opt_subtrees r \<union> set made)"

lemma tree_concat_concats: "opt_avl l \<Longrightarrow> opt_avl r \<Longrightarrow> concats_to l r (tree_concat l r)"
proof (cases "l = None \<or> r = None")
  case True
  then show "opt_avl l \<Longrightarrow> opt_avl r \<Longrightarrow> ?thesis" by (cases l; cases r) (auto simp: concats_to_def)
next
  case False
  then obtain u v where uv: "l = Some u" "r = Some v" by auto
  obtain t made where "tree_join u v = (t, made)" by force
  then show "opt_avl l \<Longrightarrow> opt_avl r \<Longrightarrow> ?thesis"
    using tree_join_joins [of u v] uv by (simp add: concats_to_def joins_to_def)
qed

text \<open>A split at any index up to the length.\<close>

definition splits_to ::
  "log_tree \<Rightarrow> nat \<Rightarrow> log_tree option \<times> log_tree option \<times> log_tree list \<Rightarrow> bool" where
  "splits_to t i res \<longleftrightarrow>
     (case res of (p, s, made) \<Rightarrow>
        opt_values p = take i (tvals t) \<and> opt_values s = drop i (tvals t) \<and> opt_avl p \<and> opt_avl s
        \<and> (\<forall>m\<in>set made. avl m \<and> length (tvals m) \<le> length (tvals t))
        \<and> opt_subtrees p \<union> opt_subtrees s \<subseteq> subtrees t \<union> set made)"

lemma tree_split_splits: "avl t \<Longrightarrow> i \<le> length (tvals t) \<Longrightarrow> splits_to t i (tree_split t i)"
proof (induction t i rule: tree_split.induct)
  case (1 t i)
  show ?case
  proof (cases "i = 0 \<or> i = length (tvals t)")
    case True
    then show ?thesis using 1(3) by (auto simp: splits_to_def tree_split.simps [of t i])
  next
    case inner: False
    show ?thesis
    proof (cases t)
      case (Tip vs)
      then show ?thesis using 1(3,4) inner
        by (auto simp: splits_to_def tree_split.simps list_all_iff dest: in_set_takeD in_set_dropD)
    next
      case t: (Fork l r)
      consider (less) "i < length (tvals l)" | (eq) "i = length (tvals l)"
        | (greater) "length (tvals l) < i" by linarith
      then show ?thesis
      proof cases
        case less
        obtain p q made where sp: "tree_split l i = (p, q, made)" by (cases "tree_split l i") auto
        obtain s made' where cc: "tree_concat q (Some r) = (s, made')" by force
        have ip: "splits_to l i (p, q, made)" using 1(1) inner t less 1(3,4) sp by simp
        have "concats_to q (Some r) (s, made')"
          using tree_concat_concats [of q "Some r"] ip 1(3) t cc by (simp add: splits_to_def)
        with ip show ?thesis using less inner t sp cc
          by (fastforce simp: tree_split.simps [of "Fork l r" i] splits_to_def concats_to_def)
      next
        case eq
        then show ?thesis using inner t 1(3) by (auto simp: tree_split.simps splits_to_def)
      next
        case greater
        obtain p s made where sp: "tree_split r (i - length (tvals l)) = (p, s, made)"
          by (cases "tree_split r (i - length (tvals l))") auto
        obtain q made' where cc: "tree_concat (Some l) p = (q, made')" by force
        have ip: "splits_to r (i - length (tvals l)) (p, s, made)"
          using 1(2) [of l r] inner t greater 1(3,4) sp by simp
        have "concats_to (Some l) p (q, made')"
          using tree_concat_concats [of "Some l" p] ip 1(3) t cc by (simp add: splits_to_def)
        with ip show ?thesis using greater inner t sp cc
          by (fastforce simp: tree_split.simps [of "Fork l r" i] splits_to_def concats_to_def)
      qed
    qed
  qed
qed

section \<open>Height\<close>

text \<open>An AVL tree of height \<open>h\<close> holds at least the Fibonacci number \<open>F (h + 1)\<close> values.\<close>

fun fib :: "nat \<Rightarrow> nat" where
  "fib 0 = 0"
| "fib (Suc 0) = 1"
| "fib (Suc (Suc n)) = fib (Suc n) + fib n"

lemma fib_Suc_mono: "fib n \<le> fib (Suc n)"
  by (induction n rule: fib.induct) auto

lemma fib_mono: "m \<le> n \<Longrightarrow> fib m \<le> fib n"
  by (rule lift_Suc_mono_le [of fib]) (rule fib_Suc_mono)

lemma avl_fib: "avl t \<Longrightarrow> fib (ht t + 1) \<le> length (tvals t)"
proof (induction t)
  case (Tip vs)
  then show ?case by (cases vs) auto
next
  case (Fork l r)
  have low: "fib (max a b + 2) \<le> fib (a + 1) + fib (b + 1)" if "a \<le> b + 1" "b \<le> a + 1" for a b
  proof -
    have "a = b \<or> a = Suc b \<or> b = Suc a" using that by linarith
    then show ?thesis using fib_Suc_mono [of a] by (auto simp: numeral_2_eq_2)
  qed
  show ?case using Fork low [of "ht l" "ht r"] by simp
qed

lemma avl_height_bound:
  assumes "avl t" "length (tvals t) < fib (h + 2)"
  shows "ht t \<le> h"
proof (rule ccontr)
  assume "\<not> ht t \<le> h"
  then have "fib (h + 2) \<le> fib (ht t + 1)" by (intro fib_mono) simp
  with avl_fib [OF assms(1)] assms(2) show False by simp
qed

end
