(* ===== verification/Log_Spec.thy ===== *)
theory Log_Spec
  imports Log_Tree Log_Mutation
begin

text \<open>
  What the stored log means. A tree is stored as the nodes of its subtrees, and a root names a
  tree. The mutations are given their meaning twice: on trees, exactly as the algorithm works,
  and on plain value lists, which is the contract a user of the log relies on.
\<close>

section \<open>Trees as stored nodes\<close>

fun body_of :: "(string \<Rightarrow> string) \<Rightarrow> log_tree \<Rightarrow> log_node_body" where
  "body_of sha (Tip vs) = LogLeaf vs"
| "body_of sha (Fork l r) =
     LogBranch
       \<lparr>nr_object_id = log_node_id sha (body_of sha l), nr_len = length (tvals l), nr_height = ht l\<rparr>
       \<lparr>nr_object_id = log_node_id sha (body_of sha r), nr_len = length (tvals r), nr_height = ht r\<rparr>"

definition tree_id :: "(string \<Rightarrow> string) \<Rightarrow> log_tree \<Rightarrow> string" where
  "tree_id sha t = log_node_id sha (body_of sha t)"

definition ref_of :: "(string \<Rightarrow> string) \<Rightarrow> log_tree \<Rightarrow> node_ref" where
  "ref_of sha t = \<lparr>nr_object_id = tree_id sha t, nr_len = length (tvals t), nr_height = ht t\<rparr>"

definition node_of :: "(string \<Rightarrow> string) \<Rightarrow> log_tree \<Rightarrow> log_node" where
  "node_of sha t = \<lparr>ln_node_version = LOG_NODE_VERSION, ln_object_id = tree_id sha t,
     ln_body = body_of sha t\<rparr>"

definition root_of :: "(string \<Rightarrow> string) \<Rightarrow> log_tree option \<Rightarrow> log_root" where
  "root_of sha t = (case t of
     None \<Rightarrow> log_root_empty sha
   | Some u \<Rightarrow> \<lparr>lr_node = Some (tree_id sha u), lr_len = length (tvals u), lr_height = ht u,
       lr_ordered_root = tree_id sha u\<rparr>)"

lemma body_of_Fork [simp]: "body_of sha (Fork l r) = LogBranch (ref_of sha l) (ref_of sha r)"
  by (simp add: ref_of_def tree_id_def)

declare body_of.simps(2) [simp del]

lemma ref_of_simps [simp]:
  "nr_object_id (ref_of sha t) = tree_id sha t"
  "nr_len (ref_of sha t) = length (tvals t)"
  "nr_height (ref_of sha t) = ht t"
  by (simp_all add: ref_of_def)

lemma node_of_simps [simp]:
  "ln_node_version (node_of sha t) = LOG_NODE_VERSION"
  "ln_object_id (node_of sha t) = tree_id sha t"
  "ln_body (node_of sha t) = body_of sha t"
  by (simp_all add: node_of_def)

lemma root_of_simps [simp]:
  "lr_len (root_of sha t) = length (opt_values t)"
  "lr_node (root_of sha t) = map_option (tree_id sha) t"
  by (auto simp: root_of_def log_root_empty_def split: option.splits)

text \<open>A tree within the shared bounds of lengths and heights.\<close>

definition sized :: "log_tree \<Rightarrow> bool" where
  "sized t \<longleftrightarrow> length (tvals t) \<le> MAX_EXACT_INTEGER \<and> ht t \<le> MAX_LOG_HEIGHT"

section \<open>Mutations on trees\<close>

definition tree_split_root ::
  "log_tree option \<Rightarrow> nat \<Rightarrow> log_tree option \<times> log_tree option \<times> log_tree list" where
  "tree_split_root t i = (case t of None \<Rightarrow> (None, None, []) | Some u \<Rightarrow> tree_split u i)"

fun tree_append ::
  "log_tree option \<Rightarrow> string list \<Rightarrow> log_tree option \<times> log_tree list" where
  "tree_append t [] = (t, [])"
| "tree_append t (v # vs) =
     (let (u, made) = tree_concat t (Some (Tip [v])); (w, made') = tree_append u vs
      in (w, [Tip [v]] @ made @ made'))"

definition tree_insert_between ::
  "log_tree option \<Rightarrow> string \<Rightarrow> log_tree option \<Rightarrow> log_tree option \<times> log_tree list" where
  "tree_insert_between l v r =
     (let (p, made) = tree_concat l (Some (Tip [v])); (q, made') = tree_concat p r
      in (q, [Tip [v]] @ made @ made'))"

definition tree_split_around ::
  "log_tree option \<Rightarrow> nat \<Rightarrow> log_tree option \<times> log_tree option \<times> log_tree list" where
  "tree_split_around t i =
     (let (l, m, made) = tree_split_root t i; (_, r, made') = tree_split_root m 1
      in (l, r, made @ made'))"

text \<open>A mutation gives the new tree or a conflict; either way, the trees it may have created.\<close>

fun tree_mutate ::
  "(string \<Rightarrow> string) \<Rightarrow> log_mutation \<Rightarrow> log_tree option
   \<Rightarrow> (collection_error + log_tree option) \<times> log_tree list" where
  "tree_mutate sha (Append vs) t = (let (u, made) = tree_append t vs in (Ok u, made))"
| "tree_mutate sha (InsertAt i v) t =
     (if length (opt_values t) < i then (Err CConflict, [])
      else let (l, r, made) = tree_split_root t i; (u, made') = tree_insert_between l v r
           in (Ok u, made @ made'))"
| "tree_mutate sha (ReplaceAt i expected v) t =
     (if length (opt_values t) \<le> i \<or> opt_values t ! i \<noteq> expected then (Err CConflict, [])
      else let (l, r, made) = tree_split_around t i; (u, made') = tree_insert_between l v r
           in (Ok u, made @ made'))"
| "tree_mutate sha (ReplacePrefix i expected_prefix vs) t =
     (if length (opt_values t) < i then (Err CConflict, [])
      else let (p, s, made) = tree_split_root t i; (q, made') = tree_append None vs;
               (u, made'') = tree_concat q s
           in (if root_of sha p \<noteq> expected_prefix \<or> root_of sha q = root_of sha p
               then Err CConflict else Ok u, made @ made' @ made''))"
| "tree_mutate sha (RemoveAt i expected) t =
     (if length (opt_values t) \<le> i \<or> opt_values t ! i \<noteq> expected then (Err CConflict, [])
      else let (l, r, made) = tree_split_around t i; (u, made') = tree_concat l r
           in (Ok u, made @ made'))"

fun tree_mutations ::
  "(string \<Rightarrow> string) \<Rightarrow> log_mutation list \<Rightarrow> log_tree option
   \<Rightarrow> (collection_error + log_tree option) \<times> log_tree list" where
  "tree_mutations sha [] t = (Ok t, [])"
| "tree_mutations sha (m # ms) t =
     (case tree_mutate sha m t of
        (Inl e, made) \<Rightarrow> (Err e, made)
      | (Inr u, made) \<Rightarrow> (let (w, made') = tree_mutations sha ms u in (w, made @ made')))"

section \<open>Mutations on value lists\<close>

fun list_mutate :: "log_mutation \<Rightarrow> string list \<Rightarrow> string list" where
  "list_mutate (Append vs) xs = xs @ vs"
| "list_mutate (InsertAt i v) xs = take i xs @ [v] @ drop i xs"
| "list_mutate (ReplaceAt i expected v) xs = xs[i := v]"
| "list_mutate (ReplacePrefix i expected_prefix vs) xs = vs @ drop i xs"
| "list_mutate (RemoveAt i expected) xs = take i xs @ drop (Suc i) xs"

text \<open>What a mutation expects of the list it is applied to.\<close>

fun list_expects :: "log_mutation \<Rightarrow> string list \<Rightarrow> bool" where
  "list_expects (Append vs) xs \<longleftrightarrow> True"
| "list_expects (InsertAt i v) xs \<longleftrightarrow> i \<le> length xs"
| "list_expects (ReplaceAt i expected v) xs \<longleftrightarrow> i < length xs \<and> xs ! i = expected"
| "list_expects (ReplacePrefix i expected_prefix vs) xs \<longleftrightarrow> i \<le> length xs"
| "list_expects (RemoveAt i expected) xs \<longleftrightarrow> i < length xs \<and> xs ! i = expected"

fun list_mutations :: "log_mutation list \<Rightarrow> string list \<Rightarrow> string list option" where
  "list_mutations [] xs = Some xs"
| "list_mutations (m # ms) xs =
     (if list_expects m xs then list_mutations ms (list_mutate m xs) else None)"

text \<open>How many values a mutation can add.\<close>

fun added :: "log_mutation \<Rightarrow> nat" where
  "added (Append vs) = length vs"
| "added (InsertAt _ _) = 1"
| "added (ReplaceAt _ _ _) = 1"
| "added (ReplacePrefix _ _ vs) = length vs"
| "added (RemoveAt _ _) = 0"

fun mutation_values :: "log_mutation \<Rightarrow> string list" where
  "mutation_values (Append vs) = vs"
| "mutation_values (InsertAt _ v) = [v]"
| "mutation_values (ReplaceAt _ _ v) = [v]"
| "mutation_values (ReplacePrefix _ _ vs) = vs"
| "mutation_values (RemoveAt _ _) = []"

section \<open>Tree mutations implement list mutations\<close>

text \<open>Every operation on trees gives an AVL tree with the intended values, and every tree it
  creates is AVL and no longer than a bound.\<close>

definition yields :: "string list \<Rightarrow> nat \<Rightarrow> log_tree set \<Rightarrow> log_tree option \<times> log_tree list \<Rightarrow> bool" where
  "yields xs n old res \<longleftrightarrow>
     (case res of (t, made) \<Rightarrow>
        opt_values t = xs \<and> opt_avl t \<and> (\<forall>m\<in>set made. avl m \<and> length (tvals m) \<le> n)
        \<and> opt_subtrees t \<subseteq> old \<union> set made)"

abbreviation valid_values :: "string list \<Rightarrow> bool" where
  "valid_values vs \<equiv> list_all (\<lambda>v. coll_validate_content_id v = Ok ()) vs"

lemma yields_concat:
  assumes "opt_avl l" "opt_avl r" "length (opt_values l) + length (opt_values r) \<le> n"
  shows "yields (opt_values l @ opt_values r) n (opt_subtrees l \<union> opt_subtrees r) (tree_concat l r)"
  using tree_concat_concats [OF assms(1,2)] assms(3)
  by (fastforce simp: yields_def concats_to_def split: prod.splits)

lemma avl_Tip1: "coll_validate_content_id v = Ok () \<Longrightarrow> avl (Tip [v])"
  by (simp add: LOG_FANOUT_def)

lemma yields_append:
  assumes "opt_avl t" "valid_values vs" "length (opt_values t) + length vs \<le> n"
  shows "yields (opt_values t @ vs) n (opt_subtrees t) (tree_append t vs)"
  using assms
proof (induction t vs rule: tree_append.induct)
  case (1 t)
  then show ?case by (simp add: yields_def)
next
  case (2 t v vs)
  obtain u made where u: "tree_concat t (Some (Tip [v])) = (u, made)" by force
  obtain w made' where w: "tree_append u vs = (w, made')" by force
  have tip: "avl (Tip [v])" using 2(3) by (intro avl_Tip1) simp
  have yu: "yields (opt_values t @ [v]) n (opt_subtrees t \<union> {Tip [v]}) (u, made)"
    using yields_concat [of t "Some (Tip [v])" n] u 2(2,4) tip by simp
  have "yields (opt_values u @ vs) n (opt_subtrees u) (w, made')"
    unfolding w [symmetric] using yu 2(3,4) by (intro 2(1) [OF u [symmetric]]) (auto simp: yields_def)
  with yu have "yields (opt_values t @ v # vs) n (opt_subtrees t) (w, [Tip [v]] @ made @ made')"
    using tip 2(4) by (fastforce simp: yields_def)
  then show ?case by (simp add: u w)
qed

lemma yields_insert_between:
  assumes "opt_avl l" "opt_avl r" "coll_validate_content_id v = Ok ()"
    and "length (opt_values l) + 1 + length (opt_values r) \<le> n"
  shows "yields (opt_values l @ [v] @ opt_values r) n (opt_subtrees l \<union> opt_subtrees r)
    (tree_insert_between l v r)"
proof -
  obtain p made where p: "tree_concat l (Some (Tip [v])) = (p, made)" by force
  obtain q made' where q: "tree_concat p r = (q, made')" by force
  have tip: "avl (Tip [v])" using assms(3) by (rule avl_Tip1)
  have yp: "yields (opt_values l @ [v]) n (opt_subtrees l \<union> {Tip [v]}) (p, made)"
    using yields_concat [of l "Some (Tip [v])" n] p assms tip by simp
  then have "yields (opt_values p @ opt_values r) n (opt_subtrees p \<union> opt_subtrees r) (q, made')"
    using yields_concat [of p r n] q assms(2,4) by (simp add: yields_def)
  with yp tip assms(4) show ?thesis by (fastforce simp: tree_insert_between_def p q yields_def)
qed

text \<open>Splitting a root at any index up to its length.\<close>

definition parts ::
  "string list \<Rightarrow> string list \<Rightarrow> nat \<Rightarrow> log_tree set
   \<Rightarrow> log_tree option \<times> log_tree option \<times> log_tree list \<Rightarrow> bool" where
  "parts xs ys n old res \<longleftrightarrow>
     (case res of (p, s, made) \<Rightarrow>
        opt_values p = xs \<and> opt_values s = ys \<and> opt_avl p \<and> opt_avl s
        \<and> (\<forall>m\<in>set made. avl m \<and> length (tvals m) \<le> n)
        \<and> opt_subtrees p \<union> opt_subtrees s \<subseteq> old \<union> set made)"

lemma parts_split_root:
  assumes "opt_avl t" "i \<le> length (opt_values t)" "length (opt_values t) \<le> n"
  shows "parts (take i (opt_values t)) (drop i (opt_values t)) n (opt_subtrees t) (tree_split_root t i)"
proof (cases t)
  case None
  then show ?thesis by (simp add: parts_def tree_split_root_def)
next
  case (Some u)
  obtain p s made where "tree_split u i = (p, s, made)" by (cases "tree_split u i") auto
  with Some tree_split_splits [of u i] assms show ?thesis
    by (fastforce simp: parts_def splits_to_def tree_split_root_def)
qed

lemma parts_split_around:
  assumes "opt_avl t" "i < length (opt_values t)" "length (opt_values t) \<le> n"
  shows "parts (take i (opt_values t)) (drop (Suc i) (opt_values t)) n (opt_subtrees t)
    (tree_split_around t i)"
proof -
  obtain l m made where lm: "tree_split_root t i = (l, m, made)" by (cases "tree_split_root t i") auto
  obtain x r made' where xr: "tree_split_root m 1 = (x, r, made')" by (cases "tree_split_root m 1") auto
  have p1: "parts (take i (opt_values t)) (drop i (opt_values t)) n (opt_subtrees t) (l, m, made)"
    using parts_split_root [of t i n] assms lm by simp
  then have "1 \<le> length (opt_values m)" "length (opt_values m) \<le> n" "opt_avl m"
    using assms by (simp_all add: parts_def)
  then have "parts (take 1 (opt_values m)) (drop 1 (opt_values m)) n (opt_subtrees m) (x, r, made')"
    using parts_split_root [of m 1 n] xr by simp
  moreover have "tree_split_around t i = (l, r, made @ made')"
    by (simp add: tree_split_around_def lm xr [simplified])
  ultimately show ?thesis using p1 by (auto simp: parts_def)
qed

text \<open>Putting parts back together: what the split made is new for the whole operation.\<close>

lemma yields_of_parts:
  assumes "parts xs ys n old (l, r, made)"
    and "yields zs n (opt_subtrees l \<union> opt_subtrees r) (u, made')"
  shows "yields zs n old (u, made @ made')"
  using assms by (fastforce simp: yields_def parts_def)

lemma mutate_Append:
  assumes "opt_avl t" "valid_values vs" "length (opt_values t) + length vs \<le> n"
    and "tree_mutate sha (Append vs) t = (Ok u, made)"
  shows "yields (opt_values t @ vs) n (opt_subtrees t) (u, made)"
  using yields_append [OF assms(1-3)] assms(4) by (simp split: prod.splits)

lemma mutate_InsertAt:
  assumes "opt_avl t" "coll_validate_content_id v = Ok ()" "length (opt_values t) + 1 \<le> n"
    and "tree_mutate sha (InsertAt i v) t = (Ok u, made)"
  shows "i \<le> length (opt_values t)
    \<and> yields (take i (opt_values t) @ [v] @ drop i (opt_values t)) n (opt_subtrees t) (u, made)"
proof -
  obtain l r m1 where sp: "tree_split_root t i = (l, r, m1)" by (cases "tree_split_root t i") auto
  obtain w m2 where ib: "tree_insert_between l v r = (w, m2)" by force
  have i: "i \<le> length (opt_values t)" "u = w" "made = m1 @ m2"
    using assms(4) sp ib by (auto split: if_splits)
  then have pa: "parts (take i (opt_values t)) (drop i (opt_values t)) n (opt_subtrees t) (l, r, m1)"
    using parts_split_root [of t i n] assms sp by simp
  then have "yields (opt_values l @ [v] @ opt_values r) n (opt_subtrees l \<union> opt_subtrees r) (w, m2)"
    using yields_insert_between [of l r v n] ib assms i by (simp add: parts_def)
  from yields_of_parts [OF pa this] pa i show ?thesis by (simp add: parts_def)
qed

lemma mutate_ReplaceAt:
  assumes "opt_avl t" "coll_validate_content_id v = Ok ()" "length (opt_values t) \<le> n"
    and "tree_mutate sha (ReplaceAt i e v) t = (Ok u, made)"
  shows "i < length (opt_values t) \<and> opt_values t ! i = e
    \<and> yields ((opt_values t)[i := v]) n (opt_subtrees t) (u, made)"
proof -
  obtain l r m1 where sp: "tree_split_around t i = (l, r, m1)" by (cases "tree_split_around t i") auto
  obtain w m2 where ib: "tree_insert_between l v r = (w, m2)" by force
  have i: "i < length (opt_values t)" "opt_values t ! i = e" "u = w" "made = m1 @ m2"
    using assms(4) sp ib by (auto split: if_splits)
  then have pa: "parts (take i (opt_values t)) (drop (Suc i) (opt_values t)) n (opt_subtrees t) (l, r, m1)"
    using parts_split_around [of t i n] assms sp by simp
  then have "yields (opt_values l @ [v] @ opt_values r) n (opt_subtrees l \<union> opt_subtrees r) (w, m2)"
    using yields_insert_between [of l r v n] ib assms i by (simp add: parts_def)
  from yields_of_parts [OF pa this] pa i show ?thesis
    by (simp add: parts_def upd_conv_take_nth_drop)
qed

lemma mutate_ReplacePrefix:
  assumes "opt_avl t" "valid_values vs" "length (opt_values t) + length vs \<le> n"
    and "tree_mutate sha (ReplacePrefix i e vs) t = (Ok u, made)"
  shows "i \<le> length (opt_values t) \<and> yields (vs @ drop i (opt_values t)) n (opt_subtrees t) (u, made)"
proof -
  obtain p s m1 where sp: "tree_split_root t i = (p, s, m1)" by (cases "tree_split_root t i") auto
  obtain q m2 where ap: "tree_append None vs = (q, m2)" by force
  obtain w m3 where cc: "tree_concat q s = (w, m3)" by force
  have i: "i \<le> length (opt_values t)" "u = w" "made = m1 @ m2 @ m3"
    using assms(4) sp ap cc by (auto split: if_splits)
  then have pa: "parts (take i (opt_values t)) (drop i (opt_values t)) n (opt_subtrees t) (p, s, m1)"
    using parts_split_root [of t i n] assms sp by simp
  have yq: "yields vs n {} (q, m2)" using yields_append [of None vs n] ap assms by simp
  have "yields (opt_values q @ opt_values s) n (opt_subtrees q \<union> opt_subtrees s) (w, m3)"
    using yields_concat [of q s n] cc pa yq assms(3) by (simp add: parts_def yields_def)
  with yq have "yields (opt_values q @ opt_values s) n (opt_subtrees p \<union> opt_subtrees s) (w, m2 @ m3)"
    by (fastforce simp: yields_def)
  from yields_of_parts [OF pa this] pa yq i show ?thesis by (simp add: parts_def yields_def)
qed

lemma mutate_RemoveAt:
  assumes "opt_avl t" "length (opt_values t) \<le> n" "tree_mutate sha (RemoveAt i e) t = (Ok u, made)"
  shows "i < length (opt_values t) \<and> opt_values t ! i = e
    \<and> yields (take i (opt_values t) @ drop (Suc i) (opt_values t)) n (opt_subtrees t) (u, made)"
proof -
  obtain l r m1 where sp: "tree_split_around t i = (l, r, m1)" by (cases "tree_split_around t i") auto
  obtain w m2 where cc: "tree_concat l r = (w, m2)" by force
  have i: "i < length (opt_values t)" "opt_values t ! i = e" "u = w" "made = m1 @ m2"
    using assms(3) sp cc by (auto split: if_splits)
  then have pa: "parts (take i (opt_values t)) (drop (Suc i) (opt_values t)) n (opt_subtrees t) (l, r, m1)"
    using parts_split_around [of t i n] assms sp by simp
  then have "yields (opt_values l @ opt_values r) n (opt_subtrees l \<union> opt_subtrees r) (w, m2)"
    using yields_concat [of l r n] cc assms i by (simp add: parts_def)
  from yields_of_parts [OF pa this] pa i show ?thesis by (simp add: parts_def)
qed

lemma tree_mutate_yields:
  assumes "opt_avl t" "valid_values (mutation_values m)"
    and "length (opt_values t) + added m \<le> n" "tree_mutate sha m t = (Ok u, made)"
  shows "list_expects m (opt_values t) \<and> yields (list_mutate m (opt_values t)) n (opt_subtrees t) (u, made)"
  using assms mutate_InsertAt [of t _ n sha _ u made] mutate_ReplaceAt [of t _ n sha _ _ u made]
    mutate_ReplacePrefix [of t _ n sha _ _ u made] mutate_RemoveAt [of t n sha _ _ u made]
    mutate_Append [of t _ n sha u made]
  by (cases m) (auto simp del: tree_mutate.simps)

text \<open>The whole batch. The length never exceeds the initial length and what is added.\<close>

lemma length_list_mutate: "list_expects m xs \<Longrightarrow> length (list_mutate m xs) \<le> length xs + added m"
  by (cases m) auto

lemma tree_mutations_values:
  assumes "opt_avl t" "list_all (\<lambda>m. valid_values (mutation_values m)) ms"
    and "tree_mutations sha ms t = (Ok u, made)"
  shows "opt_avl u \<and> list_mutations ms (opt_values t) = Some (opt_values u)"
  using assms
proof (induction ms arbitrary: t made)
  case (Cons m ms)
  obtain v m1 where v: "tree_mutate sha m t = (Ok v, m1)"
    using Cons.prems(3) by (auto split: prod.splits sum.splits)
  have "list_expects m (opt_values t) \<and> yields (list_mutate m (opt_values t))
      (length (opt_values t) + added m) (opt_subtrees t) (v, m1)"
    using Cons.prems(1,2) v by (intro tree_mutate_yields) auto
  moreover obtain m2 where "tree_mutations sha ms v = (Ok u, m2)"
    using Cons.prems(3) v by (auto split: prod.splits)
  ultimately show ?case using Cons.IH [of v m2] Cons.prems(2) by (simp add: yields_def)
qed simp

lemma tree_mutations_subtrees:
  assumes "opt_avl t" "list_all (\<lambda>m. valid_values (mutation_values m)) ms"
    and "tree_mutations sha ms t = (Ok u, made)"
  shows "opt_subtrees u \<subseteq> opt_subtrees t \<union> set made"
  using assms
proof (induction ms arbitrary: t made)
  case (Cons m ms)
  obtain v m1 where v: "tree_mutate sha m t = (Ok v, m1)"
    using Cons.prems(3) by (auto split: prod.splits sum.splits)
  have y: "yields (list_mutate m (opt_values t)) (length (opt_values t) + added m) (opt_subtrees t) (v, m1)"
    using Cons.prems(1,2) v by (intro conjunct2 [OF tree_mutate_yields]) auto
  obtain m2 where m2: "tree_mutations sha ms v = (Ok u, m2)" "made = m1 @ m2"
    using Cons.prems(3) v by (auto split: prod.splits)
  have "opt_subtrees u \<subseteq> opt_subtrees v \<union> set m2" using Cons.IH [OF _ _ m2(1)] Cons.prems(2) y
    by (simp add: yields_def)
  then show ?case using y m2(2) by (auto simp: yields_def)
qed simp

lemma tree_mutations_length:
  assumes "opt_avl t" "list_all (\<lambda>m. valid_values (mutation_values m)) ms"
    and "tree_mutations sha ms t = (Ok u, made)"
  shows "length (opt_values u) \<le> length (opt_values t) + sum_list (map added ms)"
proof -
  have "length ys \<le> length xs + sum_list (map added ms)" if "list_mutations ms xs = Some ys" for xs ys
    using that
  proof (induction ms arbitrary: xs)
    case (Cons m ms)
    then show ?case using length_list_mutate [of m xs] by (fastforce split: if_splits)
  qed simp
  with tree_mutations_values [OF assms] show ?thesis by blast
qed

end
