(* ===== verification/Log_Shape.thy ===== *)
theory Log_Shape
  imports Log_Apply Log_Spec
begin

text \<open>
  The shape that appending values one by one gives the tree. The bottom-up builder computes it
  directly: leaves alternate between full and single, and the left subtree of \<open>n\<close> leaves has
  \<open>append_log_tree_left_len n\<close> of them. Joining one more value to a tree of this shape gives the
  tree of this shape with one more value, through merges, growth and the one rotation that
  happens when the leaf count passes three halves of a power of two.
\<close>

section \<open>The split point\<close>

lemma power_below_exp: "0 < n \<Longrightarrow> \<exists>m. power_below n = 2 ^ m"
proof (induction n rule: power_below.induct)
  case (1 n)
  show ?case
  proof (cases "n < 2")
    case True
    then show ?thesis by (auto simp: power_below.simps intro: exI [of _ 0])
  next
    case False
    with 1 obtain m where "power_below (n div 2) = 2 ^ m" by auto
    with False have "power_below n = 2 ^ Suc m" by (simp add: power_below.simps [of n])
    then show ?thesis by blast
  qed
qed

lemma exp_between:
  fixes m m' n :: nat
  assumes "(2::nat) ^ m \<le> n" "n < 2 * 2 ^ m" "(2::nat) ^ m' \<le> n" "n < 2 * 2 ^ m'"
  shows "m = m'"
proof -
  have "(2::nat) ^ m < 2 ^ Suc m'" "(2::nat) ^ m' < 2 ^ Suc m" using assms by simp_all
  then have "m < Suc m'" "m' < Suc m" by (simp_all add: power_strict_increasing_iff del: power_Suc)
  then show ?thesis by simp
qed

lemma power_below_eq: "2 ^ m \<le> n \<Longrightarrow> n < 2 * 2 ^ m \<Longrightarrow> power_below n = 2 ^ m"
proof -
  assume n: "2 ^ m \<le> n" "n < 2 * 2 ^ m"
  then have "0 < n" by (metis gr0I leD zero_less_numeral zero_less_power)
  with power_below_exp [of n] power_below_bounds [of n] obtain m' where
    "power_below n = 2 ^ m'" "2 ^ m' \<le> n" "n < 2 * 2 ^ m'" by auto
  with exp_between [OF n] show ?thesis by simp
qed

text \<open>The four ranges of a count above two, with \<open>2 ^ Suc m \<le> n < 4 * 2 ^ m\<close>.\<close>

lemma left_len_cases:
  assumes "2 * 2 ^ m \<le> n" "n < 4 * 2 ^ m"
  shows "append_log_tree_left_len n =
    (if n = 3 then 2 else if n \<le> 3 * 2 ^ m then 2 ^ m else 2 * 2 ^ m)"
proof -
  have "power_below n = 2 ^ Suc m" using assms by (intro power_below_eq) simp_all
  moreover have "n \<noteq> 2 * 2 ^ m" if "n = 3" using that by presburger
  ultimately show ?thesis using assms by (auto simp: append_log_tree_left_len_def Let_def)
qed

lemma left_len_range:
  fixes n :: nat
  assumes "2 \<le> n"
  obtains m where "2 * 2 ^ m \<le> n" "n < 4 * 2 ^ m"
proof -
  obtain k where k: "power_below n = 2 ^ k" using power_below_exp [of n] assms by auto
  have b: "power_below n \<le> n" "n < 2 * power_below n" using power_below_bounds [of n] assms by simp_all
  with k assms have "k \<noteq> 0" by (cases k) auto
  then obtain m where "k = Suc m" by (cases k) auto
  with k b that [of m] show thesis by simp
qed

section \<open>The built tree\<close>

function shape :: "log_tree list \<Rightarrow> log_tree" where
  "shape ls = (if length ls < 2 then hd ls
     else Fork (shape (take (append_log_tree_left_len (length ls)) ls))
               (shape (drop (append_log_tree_left_len (length ls)) ls)))"
  by pat_completeness auto
termination
proof (relation "measure length", goal_cases)
  case (2 ls)
  with left_len_bounds [of "length ls"] show ?case by simp
next
  case (3 ls)
  then have "0 < append_log_tree_left_len (length ls)" "append_log_tree_left_len (length ls) < length ls"
    using left_len_bounds [of "length ls"] by simp_all
  then show ?case by (simp del: length_greater_0_conv)
qed simp

declare shape.simps [simp del]

lemma shape_one [simp]: "shape [t] = t"
  by (simp add: shape.simps)

lemma shape_Fork:
  "2 \<le> length ls \<Longrightarrow> append_log_tree_left_len (length ls) = length as \<Longrightarrow> ls = as @ bs \<Longrightarrow>
   shape ls = Fork (shape as) (shape bs)"
  by (subst shape.simps) simp

text \<open>Induction over a list of leaves along its splits.\<close>

lemma split_leaves:
  assumes "2 \<le> length ls"
  obtains as bs where "ls = as @ bs" "append_log_tree_left_len (length ls) = length as" "as \<noteq> []" "bs \<noteq> []"
    "shape ls = Fork (shape as) (shape bs)"
proof -
  let ?k = "append_log_tree_left_len (length ls)"
  have k: "0 < ?k" "?k < length ls" using left_len_bounds [of "length ls"] assms by simp_all
  have "length (take ?k ls) = ?k" using k by simp
  moreover have "ls \<noteq> []" using assms by auto
  ultimately show thesis
    using that [of "take ?k ls" "drop ?k ls"] shape_Fork [OF assms, of "take ?k ls" "drop ?k ls"] k by auto
qed

fun is_tip :: "log_tree \<Rightarrow> bool" where
  "is_tip (Tip _) = True"
| "is_tip (Fork _ _) = False"

lemma tvals_shape: "ls \<noteq> [] \<Longrightarrow> tvals (shape ls) = concat (map tvals ls)"
proof (induction "length ls" arbitrary: ls rule: less_induct)
  case less
  show ?case
  proof (cases "length ls < 2")
    case True
    then show ?thesis using less.prems by (cases ls) (auto simp: shape.simps)
  next
    case False
    then have "2 \<le> length ls" by simp
    from split_leaves [OF this] obtain as bs where s: "ls = as @ bs" "as \<noteq> []" "bs \<noteq> []"
      "shape ls = Fork (shape as) (shape bs)" by metis
    with less.hyps [of as] less.hyps [of bs] show ?thesis by simp
  qed
qed

text \<open>The height is the ceiling of the logarithm of the leaf count.\<close>

lemma ht_shape: "ls \<noteq> [] \<Longrightarrow> list_all is_tip ls \<Longrightarrow> ht (shape ls) \<le> Suc k \<longleftrightarrow> length ls \<le> 2 ^ k"
proof (induction "length ls" arbitrary: ls k rule: less_induct)
  case less
  show ?case
  proof (cases "length ls < 2")
    case True
    with less.prems obtain t where "ls = [t]" "is_tip t" by (cases ls) auto
    then show ?thesis by (cases t) simp_all
  next
    case False
    then have two: "2 \<le> length ls" by simp
    from split_leaves [OF this] obtain as bs where s: "ls = as @ bs"
      "append_log_tree_left_len (length ls) = length as" "as \<noteq> []" "bs \<noteq> []" "shape ls = Fork (shape as) (shape bs)" .
    show ?thesis
    proof (cases k)
      case 0
      then show ?thesis using s(5) False by simp
    next
      case (Suc j)
      have IH: "ht (shape as) \<le> Suc j \<longleftrightarrow> length as \<le> 2 ^ j" "ht (shape bs) \<le> Suc j \<longleftrightarrow> length bs \<le> 2 ^ j"
        using less.hyps [of as j] less.hyps [of bs j] less.prems s by auto
      obtain m where m: "2 * 2 ^ m \<le> length ls" "length ls < 4 * 2 ^ m" using left_len_range [OF two] .
      have "length ls \<le> 2 * 2 ^ j \<longleftrightarrow> length as \<le> 2 ^ j \<and> length bs \<le> 2 ^ j"
      proof
        assume le: "length ls \<le> 2 * 2 ^ j"
        have "(2::nat) ^ m \<le> 2 ^ j" using m(1) le by linarith
        show "length as \<le> 2 ^ j \<and> length bs \<le> 2 ^ j"
        proof (cases "length ls = 2 * 2 ^ m")
          case True
          moreover have "length ls \<noteq> 3" using True by presburger
          ultimately have "length as = 2 ^ m" using left_len_cases [OF m] s(2) by simp
          then show ?thesis using True s(1) \<open>(2::nat) ^ m \<le> 2 ^ j\<close> by simp
        next
          case ne: False
          then have "(2::nat) ^ m < 2 ^ j" using m(1) le by linarith
          then have "Suc m \<le> j" by simp
          then have "(2::nat) ^ Suc m \<le> 2 ^ j" by (rule power_increasing) simp
          then show ?thesis using left_len_cases [OF m] s(1,2) m ne by (auto split: if_splits)
        qed
      qed (use s(1) in auto)
      then show ?thesis using IH s(5) Suc by simp
    qed
  qed
qed

section \<open>Appending one value\<close>

text \<open>A descent along the right spine whose subtrees stay in balance only replaces the right child.\<close>

lemma join_descend:
  assumes "2 < ht (Fork l r)" "fst (tree_join r (Tip [v])) = r'" "abs_diff (ht l) (ht r') \<le> 1"
  shows "fst (tree_join (Fork l r) (Tip [v])) = Fork l r'"
proof -
  obtain made where j: "tree_join r (Tip [v]) = (r', made)" using assms(2) by (cases "tree_join r (Tip [v])") simp
  have "tree_balance l r' = (Fork l r', [Fork l r'])" using assms(3) by (simp add: tree_balance_def)
  with j assms(1) show ?thesis by (simp add: tree_join.simps [of "Fork l r"])
qed

lemma join_rotate:
  assumes "2 < ht (Fork l r)" "fst (tree_join r (Tip [v])) = Fork rl rr"
    and "ht l + 1 < ht (Fork rl rr)" "ht rl \<le> ht rr"
  shows "fst (tree_join (Fork l r) (Tip [v])) = Fork (Fork l rl) rr"
proof -
  obtain made where j: "tree_join r (Tip [v]) = (Fork rl rr, made)" using assms(2) by (cases "tree_join r (Tip [v])") simp
  have "\<not> abs_diff (ht l) (ht (Fork rl rr)) \<le> 1" using assms(3) by (simp add: abs_diff_def)
  then have "fst (tree_balance l (Fork rl rr)) = Fork (Fork l rl) rr"
    using assms(3,4) by (auto simp: tree_balance_def)
  with j assms(1) show ?thesis by (cases "tree_balance l (Fork rl rr)") (simp add: tree_join.simps [of "Fork l r"])
qed

lemma ht_shape_range:
  assumes "list_all is_tip as" "2 ^ m \<le> length as" "length as \<le> 2 * 2 ^ m"
  shows "Suc m \<le> ht (shape as) \<and> ht (shape as) \<le> Suc (Suc m)"
proof -
  have ne: "as \<noteq> []" using assms(2) by auto
  have "ht (shape as) \<le> Suc (Suc m)" using ht_shape [OF ne assms(1), of "Suc m"] assms(3) by simp
  moreover have "Suc m \<le> ht (shape as)"
  proof (cases m)
    case 0
    then show ?thesis by (simp add: Suc_le_eq)
  next
    case (Suc k)
    have "(2::nat) ^ k < 2 ^ m" using Suc by simp
    then have "\<not> length as \<le> 2 ^ k" using assms(2) by linarith
    then show ?thesis using ht_shape [OF ne assms(1), of k] Suc by simp
  qed
  ultimately show ?thesis by simp
qed

lemma shape_balance:
  assumes "list_all is_tip as" "2 ^ m \<le> length as" "length as \<le> 2 * 2 ^ m"
    and "list_all is_tip bs" "2 ^ m \<le> length bs" "length bs \<le> 2 * 2 ^ m"
  shows "abs_diff (ht (shape as)) (ht (shape bs)) \<le> 1"
  using ht_shape_range [OF assms(1-3)] ht_shape_range [OF assms(4-6)] by simp

lemma ht_shape_large:
  assumes "list_all is_tip ls" "3 \<le> length ls"
  shows "2 < ht (shape ls)"
proof -
  have "ls \<noteq> []" using assms(2) by auto
  from ht_shape [OF this assms(1), of 1] assms(2) show ?thesis by simp
qed

text \<open>Descending into the right part and growing it by one leaf, where the split point of the
  grown list is the same.\<close>

lemma grow_right:
  assumes "list_all is_tip (as @ bs)" "bs \<noteq> []" "3 \<le> length (as @ bs)" "is_tip t"
    and "append_log_tree_left_len (length (as @ bs)) = length as"
    and "append_log_tree_left_len (Suc (length (as @ bs))) = length as"
    and "fst (tree_join (shape bs) (Tip [v])) = shape (bs @ [t])"
    and "2 ^ m \<le> length as" "length as \<le> 2 * 2 ^ m" "2 ^ m \<le> Suc (length bs)" "Suc (length bs) \<le> 2 * 2 ^ m"
  shows "fst (tree_join (shape (as @ bs)) (Tip [v])) = shape ((as @ bs) @ [t])"
proof -
  have s: "shape (as @ bs) = Fork (shape as) (shape bs)" using assms(3,5) by (intro shape_Fork) auto
  have "shape ((as @ bs) @ [t]) = Fork (shape as) (shape (bs @ [t]))" using assms(3,6) by (intro shape_Fork) auto
  moreover have "abs_diff (ht (shape as)) (ht (shape (bs @ [t]))) \<le> 1"
    by (rule shape_balance [where m = m]) (use assms in auto)
  ultimately show ?thesis
    using join_descend [of "shape as" "shape bs" v] assms(7) ht_shape_large [OF assms(1,3)] s by simp
qed

lemma grow_rotate:
  assumes "list_all is_tip (as @ bs)" "is_tip t" "length as = 2 ^ m" "length bs = 2 * 2 ^ m" "1 \<le> m"
    and "fst (tree_join (shape bs) (Tip [v])) = shape (bs @ [t])"
  shows "fst (tree_join (shape (as @ bs)) (Tip [v])) = shape ((as @ bs) @ [t])"
proof -
  let ?cs = "take (2 ^ m) bs" and ?ds = "drop (2 ^ m) bs @ [t]"
  have two: "2 \<le> (2::nat) ^ m" using assms(5) self_le_power [of 2 m] by simp
  have s: "shape (as @ bs) = Fork (shape as) (shape bs)"
    using left_len_cases [of m "length (as @ bs)"] assms(3-5) two by (intro shape_Fork) auto
  have j: "shape (bs @ [t]) = Fork (shape ?cs) (shape ?ds)"
    using left_len_cases [of m "length (bs @ [t])"] assms(4,5) two by (intro shape_Fork) auto
  have l: "shape (as @ ?cs) = Fork (shape as) (shape ?cs)"
    using left_len_cases [of m "length (as @ ?cs)"] assms(3,4) two by (intro shape_Fork) auto
  have r: "shape ((as @ bs) @ [t]) = Fork (shape (as @ ?cs)) (shape ?ds)"
    using left_len_cases [of m "length ((as @ bs) @ [t])"] assms(3,4) two by (intro shape_Fork) auto
  have tips: "list_all is_tip as" "list_all is_tip ?cs" "list_all is_tip ?ds" "list_all is_tip (bs @ [t])"
    using assms(1,2) by (auto simp: list_all_iff dest: in_set_takeD in_set_dropD)
  have "as \<noteq> []" "bs \<noteq> []" using assms(3,4) by auto
  then have "ht (shape as) \<le> Suc m" "ht (shape ?cs) \<le> Suc m" "\<not> ht (shape (bs @ [t])) \<le> Suc (Suc m)"
    "\<not> ht (shape ?ds) \<le> Suc m"
    using ht_shape [OF _ tips(1), of m] ht_shape [OF _ tips(2), of m] ht_shape [OF _ tips(4), of "Suc m"]
      ht_shape [OF _ tips(3), of m] assms(3,4) two by auto
  then show ?thesis
    using join_rotate [of "shape as" "shape bs" v "shape ?cs" "shape ?ds"] assms(6) j s l r
      ht_shape_large [OF assms(1)] assms(3,4) two by simp
qed

lemma grow_even:
  assumes "list_all is_tip ls" "even (length ls)" "ls \<noteq> []"
  shows "fst (tree_join (shape ls) (Tip [v])) = shape (ls @ [Tip [v]])"
  using assms
proof (induction "length ls" arbitrary: ls rule: less_induct)
  case less
  show ?case
  proof (cases "length ls = 2")
    case True
    then obtain a b where ls: "ls = [a, b]" by (auto simp: length_Suc_conv numeral_2_eq_2)
    have s: "shape ls = Fork a b" using left_len_cases [of 0 "length ls"] ls
      by (subst shape_Fork [of ls "[a]" "[b]"]) auto
    have "shape (ls @ [Tip [v]]) = Fork (Fork a b) (Tip [v])" using left_len_cases [of 0 3] ls s
      by (subst shape_Fork [of "ls @ [Tip [v]]" ls "[Tip [v]]"]) (auto simp: numeral_3_eq_3 numeral_2_eq_2)
    moreover have "ht a = 1" "ht b = 1" using less.prems ls by (cases a; cases b; simp)+
    ultimately show ?thesis using s by (simp add: tree_join.simps tree_meet_def)
  next
    case False
    have "length ls \<noteq> 0" using less.prems(3) by simp
    with False less.prems(2) have four: "4 \<le> length ls" by presburger
    then have "2 \<le> length ls" by simp
    from left_len_range [OF this] obtain m where m: "2 * 2 ^ m \<le> length ls" "length ls < 4 * 2 ^ m" .
    then have "m \<noteq> 0" using four by (cases m) auto
    then obtain k where k: "m = Suc k" by (cases m) auto
    then have two: "2 \<le> (2::nat) ^ m" "even ((2::nat) ^ m)" by simp_all
    from split_leaves [OF \<open>2 \<le> length ls\<close>] obtain as bs where
      s: "ls = as @ bs" "append_log_tree_left_len (length ls) = length as" "as \<noteq> []" "bs \<noteq> []" .
    have L: "length as = (if length ls \<le> 3 * 2 ^ m then 2 ^ m else 2 * 2 ^ m)"
      using left_len_cases [OF m] s(2) four by simp
    then have "even (length as)" using two by simp
    then have IH: "fst (tree_join (shape bs) (Tip [v])) = shape (bs @ [Tip [v]])"
      using less.hyps [of bs] less.prems s by simp
    have tips: "list_all is_tip (as @ bs)" "3 \<le> length (as @ bs)" "append_log_tree_left_len (length (as @ bs)) = length as"
      using less.prems(1) s(1,2) four by simp_all
    note grow = grow_right [OF tips(1) s(4) tips(2) _ tips(3) _ IH, of m]
    consider "Suc (length ls) \<le> 3 * 2 ^ m" | "length ls = 3 * 2 ^ m" | "3 * 2 ^ m < length ls" by linarith
    then show ?thesis
    proof cases
      case 1
      have a: "length as = 2 ^ m" "length bs = length ls - 2 ^ m" using L 1 s(1) by auto
      have "append_log_tree_left_len (Suc (length (as @ bs))) = length as"
        using left_len_cases [of m "Suc (length ls)"] m(1) 1 four a(1) s(1) by simp
      from grow [OF _ this] show ?thesis unfolding s(1) [symmetric] using a m(1) 1 by simp
    next
      case 2
      have a: "length as = 2 ^ m" "length bs = 2 * 2 ^ m" using L 2 s(1) by auto
      from grow_rotate [OF tips(1) _ a _ IH] show ?thesis unfolding s(1) using k by simp
    next
      case 3
      have a: "length as = 2 * 2 ^ m" "length bs = length ls - 2 * 2 ^ m" using L 3 s(1) by auto
      have lt: "Suc (length ls) < 4 * 2 ^ m" using m(2) less.prems(2) by presburger
      have "append_log_tree_left_len (Suc (length (as @ bs))) = length as"
        using left_len_cases [of m "Suc (length ls)"] m(1) 3 lt four a(1) s(1) by simp
      from grow [OF _ this] show ?thesis unfolding s(1) [symmetric] using a 3 lt by simp
    qed
  qed
qed

text \<open>The split of an odd count: the left part is even, so the right part is odd, and one more leaf
  does not move the split point.\<close>

lemma odd_split:
  assumes "odd (length ls)" "3 \<le> length ls"
  obtains as bs m where "ls = as @ bs" "bs \<noteq> []" "append_log_tree_left_len (length (as @ bs)) = length as"
    "append_log_tree_left_len (Suc (length (as @ bs))) = length as" "odd (length bs)" "length bs < length ls"
    "2 ^ m \<le> length as" "length as \<le> 2 * 2 ^ m" "2 ^ m \<le> length bs" "Suc (length bs) \<le> 2 * 2 ^ m"
    "shape ls = Fork (shape as) (shape bs)"
proof -
  have "2 \<le> length ls" using assms(2) by simp
  from left_len_range [OF this] obtain m where m: "2 * 2 ^ m \<le> length ls" "length ls < 4 * 2 ^ m" .
  from split_leaves [OF \<open>2 \<le> length ls\<close>] obtain as bs where
    s: "ls = as @ bs" "append_log_tree_left_len (length ls) = length as" "as \<noteq> []" "bs \<noteq> []"
    "shape ls = Fork (shape as) (shape bs)" .
  have len: "length ls = length as + length bs" "length bs < length ls" using s(1,3) by simp_all
  note use = that [OF s(1,4) s(2) [unfolded s(1)] _ _ len(2) _ _ _ _ s(5)]
  show thesis
  proof (cases "length ls = 3")
    case True
    then have a: "length as = 2" "length bs = 1" using left_len_cases [OF m] s(1,2) by auto
    have "append_log_tree_left_len 4 = 2" using left_len_cases [of 1 4] by simp
    then have "append_log_tree_left_len (Suc (length (as @ bs))) = length as" using a by simp
    from use [of 0, OF this] show thesis using a by simp
  next
    case False
    then have "m \<noteq> 0" using m assms by (cases m) auto
    then obtain k where k: "m = Suc k" by (cases m) auto
    have L: "length as = (if length ls \<le> 3 * 2 ^ m then 2 ^ m else 2 * 2 ^ m)"
      using left_len_cases [OF m] s(2) False by simp
    have ev: "even (2 ^ m :: nat)" using k by simp
    then have ne: "length ls \<noteq> 3 * 2 ^ m" "length ls \<noteq> 2 * 2 ^ m" using assms(1) by auto
    have odd: "odd (length bs)" using L ev assms(1) len(1) by (simp split: if_splits)
    show thesis
    proof (cases "length ls \<le> 3 * 2 ^ m")
      case True
      have lt: "Suc (length ls) \<le> 3 * 2 ^ m" using True ne(1) by simp
      have "append_log_tree_left_len (Suc (length ls)) = length as"
        using left_len_cases [of m "Suc (length ls)"] m lt True L assms(2) by simp
      then have next_split: "append_log_tree_left_len (Suc (length (as @ bs))) = length as" using s(1) by simp
      have "length as = 2 ^ m" using L True by simp
      then show thesis using len(1) m(1) lt by (intro use [of m, OF next_split odd]) linarith+
    next
      case gt: False
      have "append_log_tree_left_len (Suc (length ls)) = length as"
      proof (cases "Suc (length ls) = 4 * 2 ^ m")
        case True
        then have "append_log_tree_left_len (Suc (length ls)) = 2 ^ Suc m"
          using left_len_cases [of "Suc m" "Suc (length ls)"] assms(2) by simp
        then show ?thesis using L gt by simp
      next
        case ne4: False
        then show ?thesis using left_len_cases [of m "Suc (length ls)"] m gt L assms(2) by simp
      qed
      then have next_split: "append_log_tree_left_len (Suc (length (as @ bs))) = length as" using s(1) by simp
      have "length as = 2 * 2 ^ m" using L gt by simp
      then show thesis using len(1) m(2) gt by (intro use [of m, OF next_split odd]) linarith+
    qed
  qed
qed

lemma grow_odd:
  assumes "list_all is_tip ls" "odd (length ls)" "last ls = Tip ws" "LOG_FANOUT \<le> length ws"
  shows "fst (tree_join (shape ls) (Tip [v])) = shape (ls @ [Tip [v]])"
  using assms
proof (induction "length ls" arbitrary: ls rule: less_induct)
  case less
  show ?case
  proof (cases "length ls = 1")
    case True
    then have ls: "ls = [Tip ws]" using less.prems(3) by (cases ls) auto
    have "shape (ls @ [Tip [v]]) = Fork (Tip ws) (Tip [v])"
      using left_len_cases [of 0 "length (ls @ [Tip [v]])"] ls
      by (subst shape_Fork [of "ls @ [Tip [v]]" ls "[Tip [v]]"]) (auto simp: numeral_2_eq_2)
    then show ?thesis using ls less.prems(4) by (simp add: tree_join.simps tree_meet_def)
  next
    case False
    then have three: "3 \<le> length ls" using less.prems(2) by presburger
    from odd_split [OF less.prems(2) this] obtain as bs m where s: "ls = as @ bs" "bs \<noteq> []"
      "append_log_tree_left_len (length (as @ bs)) = length as"
      "append_log_tree_left_len (Suc (length (as @ bs))) = length as" "odd (length bs)" "length bs < length ls"
      "2 ^ m \<le> length as" "length as \<le> 2 * 2 ^ m" "2 ^ m \<le> length bs" "Suc (length bs) \<le> 2 * 2 ^ m" .
    have IH: "fst (tree_join (shape bs) (Tip [v])) = shape (bs @ [Tip [v]])"
      using less.hyps [OF s(6)] less.prems s(1,2,5) by simp
    have "list_all is_tip (as @ bs)" "3 \<le> length (as @ bs)" using less.prems(1) s(1) three by simp_all
    from grow_right [OF this(1) s(2) this(2) _ s(3,4) IH s(7,8) _ s(10)] s(1,9) show ?thesis by simp
  qed
qed

lemma extend_last:
  assumes "list_all is_tip ls" "odd (length ls)" "last ls = Tip ws" "length ws < LOG_FANOUT"
  shows "fst (tree_join (shape ls) (Tip [v])) = shape (butlast ls @ [Tip (ws @ [v])])"
  using assms
proof (induction "length ls" arbitrary: ls rule: less_induct)
  case less
  show ?case
  proof (cases "length ls = 1")
    case True
    then have ls: "ls = [Tip ws]" using less.prems(3) by (cases ls) auto
    then show ?thesis using less.prems(4) by (simp add: tree_join.simps tree_meet_def)
  next
    case False
    then have three: "3 \<le> length ls" using less.prems(2) by presburger
    from odd_split [OF less.prems(2) this] obtain as bs m where s: "ls = as @ bs" "bs \<noteq> []"
      "append_log_tree_left_len (length (as @ bs)) = length as" "odd (length bs)" "length bs < length ls"
      "2 ^ m \<le> length as" "length as \<le> 2 * 2 ^ m" "2 ^ m \<le> length bs" "Suc (length bs) \<le> 2 * 2 ^ m"
      "shape ls = Fork (shape as) (shape bs)" by metis
    let ?bs = "butlast bs @ [Tip (ws @ [v])]"
    have len: "length ?bs = length bs" using s(2) by simp
    have IH: "fst (tree_join (shape bs) (Tip [v])) = shape ?bs"
      using less.hyps [OF s(5)] less.prems s(1,2,4) by simp
    have tips: "list_all is_tip as" "list_all is_tip ?bs" "list_all is_tip ls"
      using less.prems(1) s(1) by (auto simp: list_all_iff dest: in_set_butlastD)
    have "abs_diff (ht (shape as)) (ht (shape ?bs)) \<le> 1"
      using s(7-9) by (intro shape_balance [where m = m, OF tips(1) s(6) _ tips(2)]) (simp_all only: len)
    with join_descend [of "shape as" "shape bs" v] IH ht_shape_large [OF tips(3) three] s(10)
    have "fst (tree_join (shape ls) (Tip [v])) = Fork (shape as) (shape ?bs)" by simp
    also have "\<dots> = shape (as @ ?bs)"
      using s(1,3) three len by (intro shape_Fork [symmetric]) (simp_all del: length_append_singleton)
    also have "as @ ?bs = butlast ls @ [Tip (ws @ [v])]" using s(1,2) by (simp add: butlast_append)
    finally show ?thesis .
  qed
qed

end
