(* ===== verification/Simulation.thy ===== *)
theory Simulation
  imports Prelude
begin

text \<open>
  Functional refinement of fallible operations that thread a store. The store satisfies an
  invariant, only grows, and remembers what has been written to it. An operation simulates an
  expected result when each of its successes is the expected one; under a liveness condition it
  gives exactly the expected result, error or not. The overlays of the authenticated log and the
  authenticated map are two instances.
\<close>

definition simulates ::
  "('s \<Rightarrow> bool) \<Rightarrow> ('s \<Rightarrow> 's \<Rightarrow> bool) \<Rightarrow> ('s \<Rightarrow> 't set \<Rightarrow> bool) \<Rightarrow> 's
   \<Rightarrow> 'e + ('a \<times> 's) \<Rightarrow> 'e + 'a \<Rightarrow> 't set \<Rightarrow> bool \<Rightarrow> bool" where
  "simulates ok le written s m expected T live \<longleftrightarrow>
     (\<forall>x s'. m = Ok (x, s') \<longrightarrow> expected = Ok x \<and> ok s' \<and> le s s' \<and> written s' T)
     \<and> (live \<longrightarrow> (case expected of Inl e \<Rightarrow> m = Err e | Inr x \<Rightarrow> \<exists>s'. m = Ok (x, s')))"

locale growing_store =
  fixes ok :: "'s \<Rightarrow> bool" and le :: "'s \<Rightarrow> 's \<Rightarrow> bool" and written :: "'s \<Rightarrow> 't set \<Rightarrow> bool"
  assumes grow_refl: "le s s"
    and grow_trans: "le a b \<Longrightarrow> le b c \<Longrightarrow> le a c"
    and written_none: "written s {}"
    and written_both: "written s (A \<union> B) \<longleftrightarrow> written s A \<and> written s B"
    and written_grow: "written a A \<Longrightarrow> le a b \<Longrightarrow> written b A"
begin

lemma written_subset: "written s B \<Longrightarrow> A \<subseteq> B \<Longrightarrow> written s A"
  using written_both [of s A B] by (simp add: Un_absorb1)

lemma sim_Ok: "ok s \<Longrightarrow> simulates ok le written s (Ok (v, s)) (Ok v) {} live"
  by (simp add: simulates_def grow_refl written_none)

lemma sim_Err: "simulates ok le written s (Err e) (Err e) T live"
  by (simp add: simulates_def)

lemma simI:
  assumes "\<And>x s'. m = Ok (x, s') \<Longrightarrow> x = v \<and> ok s' \<and> le s s' \<and> written s' T"
    and "live \<Longrightarrow> \<exists>y. m = Ok y"
  shows "simulates ok le written s m (Ok v) T live"
proof -
  have "\<exists>s'. m = Ok (v, s')" if l: live
  proof -
    obtain x s' where y: "m = Ok (x, s')" using assms(2) [OF l] by (metis prod.collapse)
    with assms(1) [OF y] show ?thesis by blast
  qed
  with assms(1) show ?thesis unfolding simulates_def by simp
qed

text \<open>The sequencing rule.\<close>

lemma sim_bind:
  assumes "simulates ok le written s m (Ok v) A live"
    and "\<And>s'. ok s' \<Longrightarrow> le s s' \<Longrightarrow> written s' A \<Longrightarrow>
      simulates ok le written s' (g (v, s')) expected B live"
    and "T \<subseteq> A \<union> B"
  shows "simulates ok le written s (rbind m g) expected T live"
  unfolding simulates_def
proof (intro conjI allI impI)
  fix x s2 assume "rbind m g = Ok (x, s2)"
  then obtain y where y: "m = Ok y" "g y = Ok (x, s2)" by auto
  obtain z s1 where "y = (z, s1)" by (cases y)
  with y have 1: "m = Ok (z, s1)" "g (z, s1) = Ok (x, s2)" by simp_all
  from assms(1) 1(1) have step: "z = v" "ok s1" "le s s1" "written s1 A" by (simp_all add: simulates_def)
  have "simulates ok le written s1 (g (v, s1)) expected B live" using assms(2) step(2-4) .
  with 1(2) step(1) have 2: "expected = Ok x" "ok s2" "le s1 s2" "written s2 B" by (simp_all add: simulates_def)
  then show "expected = Ok x" "ok s2" by simp_all
  show "le s s2" using step(3) 2(3) by (rule grow_trans)
  have "written s2 (A \<union> B)" using written_grow [OF step(4) 2(3)] 2(4) by (simp add: written_both)
  with assms(3) show "written s2 T" by (rule written_subset [rotated])
next
  assume live
  then obtain s1 where 1: "m = Ok (v, s1)" using assms(1) by (auto simp: simulates_def)
  with assms(1) have "ok s1" "le s s1" "written s1 A" by (simp_all add: simulates_def)
  then have "simulates ok le written s1 (g (v, s1)) expected B live" by (rule assms(2))
  with \<open>live\<close> 1 show "case expected of Inl e \<Rightarrow> rbind m g = Err e
      | Inr x \<Rightarrow> \<exists>s'. rbind m g = Ok (x, s')" by (simp add: simulates_def split: sum.splits)
qed

lemma sim_then:
  assumes "simulates ok le written s m (Ok v) {} live"
    and "\<And>s'. ok s' \<Longrightarrow> le s s' \<Longrightarrow> simulates ok le written s' (g (v, s')) expected T live"
  shows "simulates ok le written s (rbind m g) expected T live"
  by (rule sim_bind [OF assms(1), where B = T]) (auto intro: assms(2))

text \<open>A step that fails or gives a known value without touching the store.\<close>

lemma sim_pure:
  assumes "\<And>x. m = Ok x \<Longrightarrow> x = v" "live \<Longrightarrow> m = Ok v"
    and "simulates ok le written s (g v) expected T live"
  shows "simulates ok le written s (rbind m g) expected T live"
proof (cases m)
  case (Inl e)
  then show ?thesis using assms(2) by (auto simp: simulates_def)
next
  case (Inr x)
  then show ?thesis using assms(1,3) by simp
qed

lemma sim_check:
  assumes "live \<Longrightarrow> m = Ok ()" "simulates ok le written s (g ()) expected T live"
  shows "simulates ok le written s (rbind m g) expected T live"
  by (rule sim_pure [where v = "()"]) (use assms in auto)

lemma sim_map:
  assumes "simulates ok le written s m (Ok v) T live" "\<And>s'. g (v, s') = Ok (w, s')"
  shows "simulates ok le written s (rbind m g) (Ok w) T live"
  by (rule sim_bind [OF assms(1), where B = "{}"]) (auto simp: assms(2) intro: sim_Ok)

lemma sim_lift: "ok s \<Longrightarrow> simulates ok le written s (rbind m (\<lambda>x. Ok (x, s))) m {} live"
  by (cases m) (auto simp: simulates_def grow_refl written_none)

text \<open>An operation that is expected to fail may only fail.\<close>

lemma sim_error:
  assumes "simulates ok le written s m (Err e) T live"
  shows "simulates ok le written s (rbind m g) (Err e) T' live"
  using assms by (cases m) (auto simp: simulates_def)

lemma sim_weaken:
  "simulates ok le written s m expected T live \<Longrightarrow> T' \<subseteq> T \<Longrightarrow> (live' \<Longrightarrow> live) \<Longrightarrow>
   simulates ok le written s m expected T' live'"
  unfolding simulates_def using written_subset by blast

end

end
