(* ===== verification/Log_Refine.thy ===== *)
theory Log_Refine
  imports Log_Spec Simulation
begin

text \<open>
  The stored algorithms refine the tree algorithms. The interface is the resolver trait: all a
  client may assume is that a load does not change what the resolver holds and answers from it.
  No honesty is assumed. What is assumed is that the hash does not collide on the nodes that
  take part in one operation (\<open>U\<close>: what the resolver holds, the trees given and the trees made).
  Then a stored operation that succeeds gives the root of the tree operation's result, and it
  does succeed when the nodes it needs are available and the result is within the bounds.
\<close>

section \<open>The resolver interface\<close>

locale log_resolver =
  fixes load :: "'r node_load" and contents :: "'r \<Rightarrow> string \<Rightarrow> log_node option"
  assumes load_answers: "load object_id r = Ok (found, r') \<Longrightarrow>
    found = contents r object_id \<and> contents r' = contents r"

text \<open>A resolver that always answers, as one over memory does.\<close>

locale live_log_resolver = log_resolver +
  assumes load_live: "\<exists>found r'. load object_id r = Ok (found, r')"

section \<open>Overlays over a set of known nodes\<close>

definition entry_ok :: "(string \<Rightarrow> string) \<Rightarrow> log_node_body set \<Rightarrow> string \<Rightarrow> log_node \<Rightarrow> bool" where
  "entry_ok sha U k node \<longleftrightarrow>
     ln_body node \<in> U \<and> log_node_id sha (ln_body node) = k
     \<and> ln_object_id node = k \<and> ln_node_version node = LOG_NODE_VERSION"

definition held_ok ::
  "(string \<Rightarrow> string) \<Rightarrow> log_node_body set \<Rightarrow> (string \<Rightarrow> log_node option) \<Rightarrow> bool" where
  "held_ok sha U held \<longleftrightarrow>
     (\<forall>k node. held k = Some node \<longrightarrow> log_node_verify sha node = Ok () \<longrightarrow> ln_body node \<in> U)"

definition overlay_ok ::
  "(string \<Rightarrow> string) \<Rightarrow> log_node_body set \<Rightarrow> ('r \<Rightarrow> string \<Rightarrow> log_node option) \<Rightarrow> 'r overlay \<Rightarrow> bool" where
  "overlay_ok sha U contents ov \<longleftrightarrow>
     (\<forall>k node. fmlookup (ov_pending ov) k = Some node \<longrightarrow> entry_ok sha U k node)
     \<and> (\<forall>k node. fmlookup (ov_loaded ov) k = Some node \<longrightarrow> entry_ok sha U k node
          \<and> contents (ov_resolver ov) k = Some node)
     \<and> held_ok sha U (contents (ov_resolver ov))"

definition overlay_le ::
  "('r \<Rightarrow> string \<Rightarrow> log_node option) \<Rightarrow> 'r overlay \<Rightarrow> 'r overlay \<Rightarrow> bool" where
  "overlay_le contents ov ov' \<longleftrightarrow>
     fmdom (ov_pending ov) |\<subseteq>| fmdom (ov_pending ov') \<and> fmdom (ov_loaded ov) |\<subseteq>| fmdom (ov_loaded ov')
     \<and> contents (ov_resolver ov') = contents (ov_resolver ov)"

definition available ::
  "(string \<Rightarrow> string) \<Rightarrow> ('r \<Rightarrow> string \<Rightarrow> log_node option) \<Rightarrow> 'r overlay \<Rightarrow> log_tree set \<Rightarrow> bool" where
  "available sha contents ov T \<longleftrightarrow>
     (\<forall>s\<in>T. tree_id sha s |\<in>| fmdom (ov_pending ov) \<or> tree_id sha s |\<in>| fmdom (ov_loaded ov)
       \<or> contents (ov_resolver ov) (tree_id sha s) = Some (node_of sha s))"

definition created :: "(string \<Rightarrow> string) \<Rightarrow> 'r overlay \<Rightarrow> log_tree set \<Rightarrow> bool" where
  "created sha ov T \<longleftrightarrow> (\<forall>s\<in>T. tree_id sha s |\<in>| fmdom (ov_pending ov))"

lemma overlay_le_refl [simp]: "overlay_le contents ov ov"
  by (simp add: overlay_le_def)

lemma overlay_le_trans [trans]:
  "overlay_le contents a b \<Longrightarrow> overlay_le contents b c \<Longrightarrow> overlay_le contents a c"
  by (auto simp: overlay_le_def)

lemma available_mono: "available sha contents ov T \<Longrightarrow> overlay_le contents ov ov' \<Longrightarrow> available sha contents ov' T"
  by (fastforce simp: available_def overlay_le_def)

lemma created_mono: "created sha ov T \<Longrightarrow> overlay_le contents ov ov' \<Longrightarrow> created sha ov' T"
  by (fastforce simp: created_def overlay_le_def)

lemma available_Un [simp]:
  "available sha contents ov (A \<union> B) \<longleftrightarrow> available sha contents ov A \<and> available sha contents ov B"
  by (auto simp: available_def)

lemma available_empty [simp]: "available sha contents ov {}"
  by (simp add: available_def)

lemma available_subset: "available sha contents ov B \<Longrightarrow> A \<subseteq> B \<Longrightarrow> available sha contents ov A"
  by (auto simp: available_def)

lemma created_available: "created sha ov T \<Longrightarrow> available sha contents ov T"
  by (auto simp: created_def available_def)

lemma created_Un [simp]: "created sha ov (A \<union> B) \<longleftrightarrow> created sha ov A \<and> created sha ov B"
  by (auto simp: created_def)

text \<open>Operations on the overlay simulate their results on trees: a success has created the trees
  \<open>T\<close>.\<close>

abbreviation refines ::
  "(string \<Rightarrow> string) \<Rightarrow> log_node_body set \<Rightarrow> ('r \<Rightarrow> string \<Rightarrow> log_node option) \<Rightarrow> 'r overlay
   \<Rightarrow> collection_error + ('a \<times> 'r overlay) \<Rightarrow> collection_error + 'a \<Rightarrow> log_tree set \<Rightarrow> bool \<Rightarrow> bool" where
  "refines sha U contents \<equiv> simulates (overlay_ok sha U contents) (overlay_le contents) (created sha)"

interpretation log_overlay:
  growing_store "overlay_ok sha U contents" "overlay_le contents" "created sha"
  for sha :: "string \<Rightarrow> string" and U :: "log_node_body set" and contents :: "'r \<Rightarrow> string \<Rightarrow> log_node option"
proof unfold_locales
  show "overlay_le contents a c" if "overlay_le contents a b" "overlay_le contents b c" for a b c :: "'r overlay"
    using that by (rule overlay_le_trans)
  show "created sha b A" if "created sha a A" "overlay_le contents a b" for a b :: "'r overlay" and A
    using that by (rule created_mono)
qed (auto simp: created_def)

lemmas refines_def = simulates_def
lemmas refines_Ok [intro] = log_overlay.sim_Ok
lemmas refines_Err [intro] = log_overlay.sim_Err
lemmas refinesI = log_overlay.simI
lemmas refines_bind = log_overlay.sim_bind
lemmas refines_then = log_overlay.sim_then
lemmas refines_pure = log_overlay.sim_pure
lemmas refines_map = log_overlay.sim_map

section \<open>Verified nodes of trees\<close>

lemma body_value_count_tree: "body_value_count (body_of sha t) = Ok n \<Longrightarrow> n = length (tvals t)"
  by (cases t) auto

lemma body_height_tree: "body_height (body_of sha t) = Ok n \<Longrightarrow> n = ht t"
  by (cases t) (auto simp: Let_def split: if_splits)

lemma from_body_Ok: "from_body sha b = Ok n \<Longrightarrow>
  n = \<lparr>ln_node_version = LOG_NODE_VERSION, ln_object_id = log_node_id sha b, ln_body = b\<rparr>"
  by (auto simp: from_body_def Let_def)

lemma node_of_eq: "node_of sha t = \<lparr>ln_node_version = LOG_NODE_VERSION,
  ln_object_id = log_node_id sha (body_of sha t), ln_body = body_of sha t\<rparr>"
  by (simp add: node_of_def tree_id_def)

lemma tree_id_valid: "sha_ok sha \<Longrightarrow> coll_validate_content_id (tree_id sha t) = Ok ()"
  by (simp add: tree_id_def log_node_id_def hash_identifier_valid sha_ok_def)

lemma sized_Fork: "sized (Fork l r) \<Longrightarrow> sized l \<and> sized r"
  by (auto simp: sized_def)

lemma child_verify_tree:
  assumes "sha_ok sha" "avl t" "sized t"
  shows "log_child_verify (ref_of sha t) = Ok ()"
  using assms tree_id_valid [of sha t] avl_tvals_ne [of t]
  by (simp add: log_child_verify_def sized_def)

lemma body_value_count_sized: "sized t \<Longrightarrow> body_value_count (body_of sha t) = Ok (length (tvals t))"
  by (cases t) (auto simp: sized_def)

lemma body_height_sized: "sized t \<Longrightarrow> body_height (body_of sha t) = Ok (ht t)"
  by (cases t) (auto simp: sized_def MAX_LOG_HEIGHT_def Let_def)

lemma body_verify_tree:
  assumes "sha_ok sha" "avl t" "sized t"
  shows "log_body_verify (body_of sha t) = Ok ()"
proof (cases t)
  case (Tip vs)
  then show ?thesis using assms(2) by (simp add: log_body_verify_def list_all_iff)
next
  case (Fork l r)
  then have "sized l" "sized r" "avl l" "avl r" using sized_Fork [of l r] assms(2,3) by simp_all
  with assms(1) have "log_child_verify (ref_of sha l) = Ok ()" "log_child_verify (ref_of sha r) = Ok ()"
    by (simp_all add: child_verify_tree)
  moreover have "\<not> 1 < abs_diff (ht l) (ht r)" using assms(2) Fork by (simp add: not_less)
  ultimately show ?thesis
    using Fork body_value_count_sized [OF assms(3), of sha] body_height_sized [OF assms(3), of sha]
    by (simp add: log_body_verify_def)
qed

lemma node_verify_tree:
  "sha_ok sha \<Longrightarrow> avl t \<Longrightarrow> sized t \<Longrightarrow> log_node_verify sha (node_of sha t) = Ok ()"
  by (simp add: log_node_verify_def body_verify_tree tree_id_def)

lemma from_body_tree:
  "sha_ok sha \<Longrightarrow> avl t \<Longrightarrow> sized t \<Longrightarrow> from_body sha (body_of sha t) = Ok (node_of sha t)"
  using node_verify_tree [of sha t] by (simp add: from_body_def node_of_eq Let_def)

lemma verified_entry:
  "log_node_verify sha node = Ok () \<Longrightarrow> ln_body node \<in> U \<Longrightarrow> entry_ok sha U (ln_object_id node) node"
  by (auto simp: log_node_verify_def entry_ok_def split: if_splits)

lemma entry_ok_tree:
  assumes "entry_ok sha U (tree_id sha t) node" "inj_on (log_node_id sha) U" "body_of sha t \<in> U"
  shows "node = node_of sha t"
proof -
  have "ln_body node = body_of sha t"
    using assms by (auto simp: entry_ok_def tree_id_def dest: inj_onD)
  with assms(1) show ?thesis by (simp add: entry_ok_def node_of_def log_node.equality)
qed

section \<open>Known trees and readiness\<close>

definition known :: "(string \<Rightarrow> string) \<Rightarrow> log_node_body set \<Rightarrow> log_tree \<Rightarrow> bool" where
  "known sha U t \<longleftrightarrow> avl t \<and> (\<forall>s\<in>subtrees t. body_of sha s \<in> U)"

definition opt_known :: "(string \<Rightarrow> string) \<Rightarrow> log_node_body set \<Rightarrow> log_tree option \<Rightarrow> bool" where
  "opt_known sha U t = (case t of None \<Rightarrow> True | Some u \<Rightarrow> known sha U u)"

lemma opt_known_simps [simp]: "opt_known sha U None" "opt_known sha U (Some u) \<longleftrightarrow> known sha U u"
  by (simp_all add: opt_known_def)

lemma opt_known_avl: "opt_known sha U t \<Longrightarrow> opt_avl t"
  by (cases t) (auto simp: known_def)

lemma opt_known_from:
  assumes "opt_avl t" "opt_subtrees t \<subseteq> old \<union> set made" "\<forall>s\<in>old. body_of sha s \<in> U"
    and "\<forall>s\<in>set made. body_of sha s \<in> U"
  shows "opt_known sha U t"
  using assms by (cases t) (auto simp: known_def)

text \<open>The nodes an operation may need can all be fetched, and lists of \<open>n\<close> values are within
  the length for which the height bound is never met: the Fibonacci number \<open>F 78\<close>.\<close>

definition LOG_SAFE_LENGTH :: nat where
  "LOG_SAFE_LENGTH = 8944394323791464"

definition ready ::
  "(string \<Rightarrow> string) \<Rightarrow> 'r node_load \<Rightarrow> ('r \<Rightarrow> string \<Rightarrow> log_node option) \<Rightarrow> 'r overlay \<Rightarrow> log_tree set
   \<Rightarrow> nat \<Rightarrow> bool" where
  "ready sha load contents ov T n \<longleftrightarrow>
     sha_ok sha \<and> (\<forall>object_id r. \<exists>y. load object_id r = Ok y) \<and> available sha contents ov T
     \<and> n < LOG_SAFE_LENGTH"

fun fib_from :: "nat \<Rightarrow> nat \<Rightarrow> nat \<Rightarrow> nat" where
  "fib_from 0 a b = a"
| "fib_from (Suc n) a b = fib_from n b (a + b)"

lemma fib_from_fib: "fib_from n (fib k) (fib (Suc k)) = fib (n + k)"
proof (induction n arbitrary: k)
  case (Suc n)
  from Suc [of "Suc k"] show ?case by (simp add: add.commute)
qed simp

lemma fib_from_numeral: "fib_from (numeral k) a b = fib_from (pred_numeral k) b (a + b)"
  by (simp add: numeral_eq_Suc)

lemma fib_78: "fib 78 = LOG_SAFE_LENGTH"
proof -
  have "fib_from 75 (fib 3) (fib (Suc 3)) = fib (75 + 3)" by (rule fib_from_fib)
  moreover have "fib 3 = 2" "fib (Suc 3) = 3" by (simp_all add: numeral_3_eq_3)
  ultimately have "fib 78 = fib_from 75 2 3" by simp
  also have "\<dots> = LOG_SAFE_LENGTH" by (simp add: fib_from_numeral LOG_SAFE_LENGTH_def)
  finally show ?thesis .
qed

lemma sized_safe:
  assumes "avl t" "length (tvals t) < LOG_SAFE_LENGTH"
  shows "sized t"
proof -
  have "length (tvals t) < fib (MAX_LOG_HEIGHT + 2)" using assms(2) fib_78 by (simp add: MAX_LOG_HEIGHT_def)
  with avl_height_bound assms(1) have "ht t \<le> MAX_LOG_HEIGHT" by blast
  with assms(2) show ?thesis by (simp add: sized_def LOG_SAFE_LENGTH_def MAX_EXACT_INTEGER_def)
qed

lemma ready_step:
  assumes "ready sha load contents ov T n" "overlay_le contents ov ov'" "created sha ov' A"
    and "T' \<subseteq> T \<union> A" "n' \<le> n"
  shows "ready sha load contents ov' T' n'"
  using assms available_mono [OF _ assms(2)] created_available [OF assms(3), of contents]
  unfolding ready_def by (metis available_Un available_subset order.strict_trans1)

lemma ready_le: "ready sha load contents ov T n \<Longrightarrow> overlay_le contents ov ov' \<Longrightarrow> ready sha load contents ov' T n"
  using available_mono by (auto simp: ready_def)

lemma ready_sized:
  "ready sha load contents ov T n \<Longrightarrow> avl t \<Longrightarrow> length (tvals t) \<le> n \<Longrightarrow> sized t"
  by (intro sized_safe) (auto simp: ready_def)

section \<open>Loading and storing\<close>

lemma store_refines:
  assumes "inj_on (log_node_id sha) U" "overlay_ok sha U contents ov" "avl t" "body_of sha t \<in> U"
    and live: "live \<Longrightarrow> ready sha load contents ov T n" "length (tvals t) \<le> n"
  shows "refines sha U contents ov
    (rbind (from_body sha (body_of sha t)) (\<lambda>node. overlay_store sha node ov)) (Ok (ref_of sha t)) {t} live"
proof (rule refines_pure [where v = "node_of sha t"])
  show "x = node_of sha t" if "from_body sha (body_of sha t) = Ok x" for x
    using from_body_Ok [OF that] by (simp add: node_of_eq)
  show "from_body sha (body_of sha t) = Ok (node_of sha t)" if live
    using from_body_tree ready_sized [OF live(1) assms(3) live(2)] live(1) that assms(3)
    by (simp add: ready_def)
  let ?ov = "ov\<lparr>ov_pending := fmupd (tree_id sha t) (node_of sha t) (ov_pending ov)\<rparr>"
  have same: "existing = node_of sha t" if "fmlookup (ov_pending ov) (tree_id sha t) = Some existing"
    for existing
    using entry_ok_tree [OF _ assms(1,4)] assms(2) that by (simp add: overlay_ok_def)
  have ok: "overlay_ok sha U contents ?ov"
    using assms(2,4) by (auto simp: overlay_ok_def entry_ok_def tree_id_def)
  have le: "overlay_le contents ov ?ov" "created sha ?ov {t}"
    by (auto simp: overlay_le_def created_def)
  have val: "x = ref_of sha t \<and> ov' = ?ov" if "overlay_store sha (node_of sha t) ov = Ok (x, ov')" for x ov'
    using that by (auto simp: overlay_store_def value_count_def node_height_def ref_of_def
        dest!: body_value_count_tree body_height_tree split: option.splits if_splits)
  have tot: "overlay_store sha (node_of sha t) ov = Ok (ref_of sha t, ?ov)" if live
    using ready_sized [OF live(1) assms(3) live(2)] live(1) that same assms(3)
    by (auto simp: overlay_store_def value_count_def node_height_def ref_of_def ready_def
        node_verify_tree body_value_count_sized body_height_sized split: option.splits)
  show "refines sha U contents ov (overlay_store sha (node_of sha t) ov) (Ok (ref_of sha t)) {t} live"
    by (rule refinesI) (use val tot ok le in blast)+
qed

text \<open>Every operation relies on the same facts about the overlay it starts from.\<close>

context log_resolver
begin

lemma fetch_sound:
  assumes "inj_on (log_node_id sha) U" "overlay_ok sha U contents ov" "body_of sha t \<in> U"
    and "overlay_fetch sha load (ref_of sha t) ov = Ok (node, ov')"
  shows "node = node_of sha t \<and> overlay_ok sha U contents ov' \<and> overlay_le contents ov ov'"
proof -
  show ?thesis
  proof (cases "fmlookup (ov_pending ov) (tree_id sha t) = None \<and> fmlookup (ov_loaded ov) (tree_id sha t) = None")
    case True
    with assms(4) obtain r where found: "load (tree_id sha t) (ov_resolver ov) = Ok (Some node, r)"
      "log_node_verify sha node = Ok ()" "ln_object_id node = tree_id sha t"
      "ov' = ov\<lparr>ov_resolver := r, ov_loaded := fmupd (tree_id sha t) node (ov_loaded ov)\<rparr>"
      by (fastforce simp: overlay_fetch_def)
    with load_answers have held: "contents (ov_resolver ov) (tree_id sha t) = Some node"
      "contents r = contents (ov_resolver ov)" by auto
    with found(2) assms(2) have "ln_body node \<in> U" by (auto simp: overlay_ok_def held_ok_def)
    with verified_entry [OF found(2)] found(3) have entry: "entry_ok sha U (tree_id sha t) node" by simp
    with assms(2) held found(4) have "overlay_ok sha U contents ov'" "overlay_le contents ov ov'"
      by (auto simp: overlay_ok_def overlay_le_def)
    with entry_ok_tree [OF entry assms(1,3)] show ?thesis by simp
  next
    case False
    with assms(4) have "ov' = ov" "fmlookup (ov_pending ov) (tree_id sha t) = Some node
      \<or> fmlookup (ov_loaded ov) (tree_id sha t) = Some node"
      by (auto simp: overlay_fetch_def split: option.splits)
    moreover from this assms(2) have "entry_ok sha U (tree_id sha t) node" by (auto simp: overlay_ok_def)
    ultimately show ?thesis using entry_ok_tree [OF _ assms(1,3)] assms(2) by simp
  qed
qed

lemma fetch_live:
  assumes "overlay_ok sha U contents ov" "ready sha load contents ov T n" "t \<in> T" "avl t" "sized t"
  shows "\<exists>y. overlay_fetch sha load (ref_of sha t) ov = Ok y"
proof (cases "fmlookup (ov_pending ov) (tree_id sha t) = None \<and> fmlookup (ov_loaded ov) (tree_id sha t) = None")
  case True
  then have held: "contents (ov_resolver ov) (tree_id sha t) = Some (node_of sha t)"
    using assms(2,3) by (fastforce simp: ready_def available_def fmdom_notI)
  obtain found r where "load (tree_id sha t) (ov_resolver ov) = Ok (found, r)"
    using assms(2) by (fastforce simp: ready_def)
  with load_answers [OF this] held True node_verify_tree [of sha t] assms(2,4,5) show ?thesis
    by (simp add: overlay_fetch_def ready_def)
next
  case False
  then show ?thesis by (auto simp: overlay_fetch_def split: option.splits)
qed

lemma load_refines:
  assumes "inj_on (log_node_id sha) U" "overlay_ok sha U contents ov" "known sha U t"
    and live: "live \<Longrightarrow> ready sha load contents ov (subtrees t) n" "length (tvals t) \<le> n"
  shows "refines sha U contents ov (overlay_load sha load (ref_of sha t) ov) (Ok (node_of sha t)) {} live"
  unfolding overlay_load_def
proof (rule refines_bind [where A = "{}" and B = "{}"])
  have t: "body_of sha t \<in> U" "avl t" using assms(3) by (auto simp: known_def)
  have sized: "live \<Longrightarrow> sized t" using ready_sized [OF live(1) t(2) live(2)] .
  have fetched: "\<exists>y. overlay_fetch sha load (ref_of sha t) ov = Ok y" if live
    using fetch_live [OF assms(2) live(1) [OF that] _ t(2) sized [OF that]] by simp
  show "refines sha U contents ov (overlay_fetch sha load (ref_of sha t) ov) (Ok (node_of sha t)) {} live"
    using fetch_sound [OF assms(1,2) t(1)] fetched by (fastforce simp: refines_def created_def)
  fix ov' assume "overlay_ok sha U contents ov'"
  then show "refines sha U contents ov' (case (node_of sha t, ov') of (node, ov) \<Rightarrow>
      rbind (value_count node) (\<lambda>len. if len \<noteq> nr_len (ref_of sha t)
        then Err (Integrity ''log_child_shape_mismatch'')
        else rbind (node_height node) (\<lambda>height. if height \<noteq> nr_height (ref_of sha t)
          then Err (Integrity ''log_child_shape_mismatch'') else Ok (node, ov)))) (Ok (node_of sha t)) {} live"
    using sized body_value_count_sized [of t sha] body_height_sized [of t sha]
    by (auto simp: refines_def created_def value_count_def node_height_def split: if_splits)
qed simp

end

end
