(* ===== verification/Log_Refine_Ops.thy ===== *)
theory Log_Refine_Ops
  imports Log_Refine
begin

text \<open>
  Refinement of each stored operation, in the order the code builds them: branches, rotations,
  join, split, and their versions on roots.
\<close>

context log_resolver
begin

lemma known_Fork: "known sha U (Fork l r) \<Longrightarrow> known sha U l \<and> known sha U r"
  by (auto simp: known_def)

lemma branch_children_refines:
  assumes "inj_on (log_node_id sha) U" "overlay_ok sha U contents ov" "known sha U (Fork l r)"
    and live: "live \<Longrightarrow> ready sha load contents ov (subtrees (Fork l r)) n"
      "length (tvals (Fork l r)) \<le> n"
  shows "refines sha U contents ov (branch_children sha load (ref_of sha (Fork l r)) ov)
    (Ok (ref_of sha l, ref_of sha r)) {} live"
  unfolding branch_children_def
  by (rule refines_map [OF load_refines [OF assms(1-3) live]]) auto

lemma make_branch_refines:
  assumes "inj_on (log_node_id sha) U" "overlay_ok sha U contents ov" "avl (Fork l r)"
    and "body_of sha (Fork l r) \<in> U"
    and live: "live \<Longrightarrow> ready sha load contents ov T n" "length (tvals (Fork l r)) \<le> n"
  shows "refines sha U contents ov (make_branch sha (ref_of sha l) (ref_of sha r) ov)
    (Ok (ref_of sha (Fork l r))) {Fork l r} live"
proof -
  have "\<not> 1 < abs_diff (ht l) (ht r)" using assms(3) by (simp add: not_less)
  then show ?thesis using store_refines [OF assms(1-4) live] by (simp add: make_branch_def log_branch_def)
qed

lemma store_leaf_refines:
  assumes "inj_on (log_node_id sha) U" "overlay_ok sha U contents ov" "avl (Tip vs)" "LogLeaf vs \<in> U"
    and live: "live \<Longrightarrow> ready sha load contents ov T n" "length vs \<le> n"
  shows "refines sha U contents ov (store_leaf sha vs ov) (Ok (ref_of sha (Tip vs))) {Tip vs} live"
  using store_refines [of sha U contents ov "Tip vs" live load T n] assms
  by (simp add: store_leaf_def log_leaf_def)

text \<open>Two branches built one over the other, and three: the rotations.\<close>

lemma make_two_left:
  assumes "inj_on (log_node_id sha) U" "overlay_ok sha U contents ov"
    and "avl (Fork (Fork a b) c)" "body_of sha (Fork a b) \<in> U" "body_of sha (Fork (Fork a b) c) \<in> U"
    and live: "live \<Longrightarrow> ready sha load contents ov T n" "length (tvals (Fork (Fork a b) c)) \<le> n"
  shows "refines sha U contents ov
    (rbind (make_branch sha (ref_of sha a) (ref_of sha b) ov) (\<lambda>(x, ov). make_branch sha x (ref_of sha c) ov))
    (Ok (ref_of sha (Fork (Fork a b) c))) {Fork a b, Fork (Fork a b) c} live"
proof (rule refines_bind)
  show "refines sha U contents ov (make_branch sha (ref_of sha a) (ref_of sha b) ov)
      (Ok (ref_of sha (Fork a b))) {Fork a b} live"
    using assms by (intro make_branch_refines [where T = T and n = n]) auto
  fix ov' assume *: "overlay_ok sha U contents ov'" "overlay_le contents ov ov'" "created sha ov' {Fork a b}"
  show "refines sha U contents ov' (case (ref_of sha (Fork a b), ov') of
      (x, ov) \<Rightarrow> make_branch sha x (ref_of sha c) ov) (Ok (ref_of sha (Fork (Fork a b) c)))
      {Fork (Fork a b) c} live"
    using make_branch_refines [OF assms(1) *(1) assms(3,5) ready_le [OF live(1) *(2)] live(2)] by simp
qed auto

lemma make_two_right:
  assumes "inj_on (log_node_id sha) U" "overlay_ok sha U contents ov"
    and "avl (Fork a (Fork b c))" "body_of sha (Fork b c) \<in> U" "body_of sha (Fork a (Fork b c)) \<in> U"
    and live: "live \<Longrightarrow> ready sha load contents ov T n" "length (tvals (Fork a (Fork b c))) \<le> n"
  shows "refines sha U contents ov
    (rbind (make_branch sha (ref_of sha b) (ref_of sha c) ov) (\<lambda>(x, ov). make_branch sha (ref_of sha a) x ov))
    (Ok (ref_of sha (Fork a (Fork b c)))) {Fork b c, Fork a (Fork b c)} live"
proof (rule refines_bind)
  show "refines sha U contents ov (make_branch sha (ref_of sha b) (ref_of sha c) ov)
      (Ok (ref_of sha (Fork b c))) {Fork b c} live"
    using assms by (intro make_branch_refines [where T = T and n = n]) auto
  fix ov' assume *: "overlay_ok sha U contents ov'" "overlay_le contents ov ov'" "created sha ov' {Fork b c}"
  show "refines sha U contents ov' (case (ref_of sha (Fork b c), ov') of
      (x, ov) \<Rightarrow> make_branch sha (ref_of sha a) x ov) (Ok (ref_of sha (Fork a (Fork b c))))
      {Fork a (Fork b c)} live"
    using make_branch_refines [OF assms(1) *(1) assms(3,5) ready_le [OF live(1) *(2)] live(2)] by simp
qed auto

lemma make_three:
  assumes "inj_on (log_node_id sha) U" "overlay_ok sha U contents ov"
    and "avl (Fork (Fork a b) (Fork c d))"
    and "body_of sha (Fork a b) \<in> U" "body_of sha (Fork c d) \<in> U"
    and "body_of sha (Fork (Fork a b) (Fork c d)) \<in> U"
    and live: "live \<Longrightarrow> ready sha load contents ov T n"
      "length (tvals (Fork (Fork a b) (Fork c d))) \<le> n"
  shows "refines sha U contents ov
    (rbind (make_branch sha (ref_of sha a) (ref_of sha b) ov) (\<lambda>(x, ov).
     rbind (make_branch sha (ref_of sha c) (ref_of sha d) ov) (\<lambda>(y, ov). make_branch sha x y ov)))
    (Ok (ref_of sha (Fork (Fork a b) (Fork c d))))
    {Fork a b, Fork c d, Fork (Fork a b) (Fork c d)} live"
proof (rule refines_bind)
  show "refines sha U contents ov (make_branch sha (ref_of sha a) (ref_of sha b) ov)
      (Ok (ref_of sha (Fork a b))) {Fork a b} live"
    using assms by (intro make_branch_refines [where T = T and n = n]) auto
  fix ov' assume *: "overlay_ok sha U contents ov'" "overlay_le contents ov ov'" "created sha ov' {Fork a b}"
  show "refines sha U contents ov' (case (ref_of sha (Fork a b), ov') of (x, ov) \<Rightarrow>
      rbind (make_branch sha (ref_of sha c) (ref_of sha d) ov) (\<lambda>(y, ov). make_branch sha x y ov))
      (Ok (ref_of sha (Fork (Fork a b) (Fork c d)))) {Fork c d, Fork (Fork a b) (Fork c d)} live"
    using make_two_right [OF assms(1) *(1) assms(3,5,6) ready_le [OF live(1) *(2)] live(2)] by simp
qed auto

text \<open>Rotations when the left side is two higher, and when the right side is.\<close>

lemma rotate_left_heavy:
  assumes "inj_on (log_node_id sha) U" "overlay_ok sha U contents ov"
    and "known sha U (Fork ll lr)" "known sha U r" "ht (Fork ll lr) = ht r + 2"
    and res: "tree_balance (Fork ll lr) r = (b, made)" and made: "\<forall>s\<in>set made. body_of sha s \<in> U"
    and live: "live \<Longrightarrow> ready sha load contents ov (subtrees (Fork ll lr) \<union> subtrees r) n"
      "length (tvals (Fork ll lr)) + length (tvals r) \<le> n"
  shows "refines sha U contents ov (balance_refs sha load (ref_of sha (Fork ll lr)) (ref_of sha r) ov)
    (Ok (ref_of sha b)) (set made) live"
proof -
  have heavy: "\<not> abs_diff (ht (Fork ll lr)) (ht r) \<le> 1" "ht r < ht (Fork ll lr)" using assms(5) by simp_all
  have "avl (Fork ll lr)" "avl r" using assms(3,4) by (simp_all add: known_def)
  then have "joins_to (Fork ll lr) r (b, made)"
    unfolding res [symmetric] using assms(5) by (intro tree_balance_joins) linarith+
  then have b: "avl b" "length (tvals b) \<le> n" using live(2) by (simp_all add: joins_to_def)
  have children: "refines sha U contents ov (branch_children sha load (ref_of sha (Fork ll lr)) ov)
      (Ok (ref_of sha ll, ref_of sha lr)) {} live"
    using live(2) by (intro branch_children_refines [OF assms(1-3), where n = n])
      (auto intro: ready_step [where A = "{}", OF live(1)] simp: created_def)
  show ?thesis
  proof (cases "ht lr \<le> ht ll")
    case True
    then have b': "b = Fork ll (Fork lr r)" "made = [Fork lr r, Fork ll (Fork lr r)]"
      using res heavy by (auto simp: tree_balance_def)
    have "refines sha U contents ov'
        (rbind (make_branch sha (ref_of sha lr) (ref_of sha r) ov') (\<lambda>(x, ov). make_branch sha (ref_of sha ll) x ov))
        (Ok (ref_of sha b)) (set made) live"
      if "overlay_ok sha U contents ov'" "overlay_le contents ov ov'" for ov'
      using made b unfolding b' list.set
      by (intro make_two_right [OF assms(1) that(1) _ _ _ ready_le [OF live(1) that(2)]]) simp_all
    then show ?thesis using heavy True by (simp add: balance_refs_def refines_then [OF children])
  next
    case False
    then obtain ml mr where lr: "lr = Fork ml mr" using ht_Suc [of lr] ht_pos(1) [of ll] by fastforce
    then have b': "b = Fork (Fork ll ml) (Fork mr r)"
      "made = [Fork ll ml, Fork mr r, Fork (Fork ll ml) (Fork mr r)]"
      using res heavy False by (auto simp: tree_balance_def)
    have middle: "refines sha U contents ov' (branch_children sha load (ref_of sha lr) ov')
        (Ok (ref_of sha ml, ref_of sha mr)) {} live"
      if "overlay_ok sha U contents ov'" "overlay_le contents ov ov'" for ov'
      unfolding lr using assms(3) live(2) lr
      by (intro branch_children_refines [OF assms(1) that(1), where n = n])
        (auto simp: known_def created_def intro!: ready_step [where A = "{}", OF live(1) that(2)])
    have three: "refines sha U contents ov'
        (rbind (make_branch sha (ref_of sha ll) (ref_of sha ml) ov') (\<lambda>(x, ov).
         rbind (make_branch sha (ref_of sha mr) (ref_of sha r) ov) (\<lambda>(y, ov). make_branch sha x y ov)))
        (Ok (ref_of sha b)) (set made) live"
      if "overlay_ok sha U contents ov'" "overlay_le contents ov ov'" for ov'
      using made b unfolding b' list.set
      by (intro make_three [OF assms(1) that(1) _ _ _ _ ready_le [OF live(1) that(2)]]) simp_all
    show ?thesis using heavy False
      by (auto simp: balance_refs_def intro!: refines_then [OF children] refines_then [OF middle] three
          intro: overlay_le_trans)
  qed
qed

lemma rotate_right_heavy:
  assumes "inj_on (log_node_id sha) U" "overlay_ok sha U contents ov"
    and "known sha U l" "known sha U (Fork rl rr)" "ht (Fork rl rr) = ht l + 2"
    and res: "tree_balance l (Fork rl rr) = (b, made)" and made: "\<forall>s\<in>set made. body_of sha s \<in> U"
    and live: "live \<Longrightarrow> ready sha load contents ov (subtrees l \<union> subtrees (Fork rl rr)) n"
      "length (tvals l) + length (tvals (Fork rl rr)) \<le> n"
  shows "refines sha U contents ov (balance_refs sha load (ref_of sha l) (ref_of sha (Fork rl rr)) ov)
    (Ok (ref_of sha b)) (set made) live"
proof -
  have heavy: "\<not> abs_diff (ht l) (ht (Fork rl rr)) \<le> 1" "\<not> ht (Fork rl rr) < ht l" using assms(5) by simp_all
  have "avl l" "avl (Fork rl rr)" using assms(3,4) by (simp_all add: known_def)
  then have "joins_to l (Fork rl rr) (b, made)"
    unfolding res [symmetric] using assms(5) by (intro tree_balance_joins) linarith+
  then have b: "avl b" "length (tvals b) \<le> n" using live(2) by (simp_all add: joins_to_def)
  have children: "refines sha U contents ov (branch_children sha load (ref_of sha (Fork rl rr)) ov)
      (Ok (ref_of sha rl, ref_of sha rr)) {} live"
    using live(2) by (intro branch_children_refines [OF assms(1,2,4), where n = n])
      (auto intro: ready_step [where A = "{}", OF live(1)] simp: created_def)
  show ?thesis
  proof (cases "ht rl \<le> ht rr")
    case True
    then have b': "b = Fork (Fork l rl) rr" "made = [Fork l rl, Fork (Fork l rl) rr]"
      using res heavy by (auto simp: tree_balance_def)
    have "refines sha U contents ov'
        (rbind (make_branch sha (ref_of sha l) (ref_of sha rl) ov') (\<lambda>(x, ov). make_branch sha x (ref_of sha rr) ov))
        (Ok (ref_of sha b)) (set made) live"
      if "overlay_ok sha U contents ov'" "overlay_le contents ov ov'" for ov'
      using made b unfolding b' list.set
      by (intro make_two_left [OF assms(1) that(1) _ _ _ ready_le [OF live(1) that(2)]]) simp_all
    then show ?thesis using heavy True by (simp add: balance_refs_def refines_then [OF children])
  next
    case False
    then obtain ml mr where rl: "rl = Fork ml mr" using ht_Suc [of rl] ht_pos(1) [of rr] by fastforce
    then have b': "b = Fork (Fork l ml) (Fork mr rr)"
      "made = [Fork l ml, Fork mr rr, Fork (Fork l ml) (Fork mr rr)]"
      using res heavy False by (auto simp: tree_balance_def)
    have middle: "refines sha U contents ov' (branch_children sha load (ref_of sha rl) ov')
        (Ok (ref_of sha ml, ref_of sha mr)) {} live"
      if "overlay_ok sha U contents ov'" "overlay_le contents ov ov'" for ov'
      unfolding rl using assms(4) live(2) rl
      by (intro branch_children_refines [OF assms(1) that(1), where n = n])
        (auto simp: known_def created_def intro!: ready_step [where A = "{}", OF live(1) that(2)])
    have three: "refines sha U contents ov'
        (rbind (make_branch sha (ref_of sha l) (ref_of sha ml) ov') (\<lambda>(x, ov).
         rbind (make_branch sha (ref_of sha mr) (ref_of sha rr) ov) (\<lambda>(y, ov). make_branch sha x y ov)))
        (Ok (ref_of sha b)) (set made) live"
      if "overlay_ok sha U contents ov'" "overlay_le contents ov ov'" for ov'
      using made b unfolding b' list.set
      by (intro make_three [OF assms(1) that(1) _ _ _ _ ready_le [OF live(1) that(2)]]) simp_all
    show ?thesis using heavy False
      by (auto simp: balance_refs_def intro!: refines_then [OF children] refines_then [OF middle] three
          intro: overlay_le_trans)
  qed
qed

lemma balance_refines:
  assumes "inj_on (log_node_id sha) U" "overlay_ok sha U contents ov" "known sha U l" "known sha U r"
    and "ht l \<le> ht r + 2" "ht r \<le> ht l + 2"
    and res: "tree_balance l r = (b, made)" and made: "\<forall>s\<in>set made. body_of sha s \<in> U"
    and live: "live \<Longrightarrow> ready sha load contents ov (subtrees l \<union> subtrees r) n"
      "length (tvals l) + length (tvals r) \<le> n"
  shows "refines sha U contents ov (balance_refs sha load (ref_of sha l) (ref_of sha r) ov)
    (Ok (ref_of sha b)) (set made) live"
proof -
  consider (even) "abs_diff (ht l) (ht r) \<le> 1" | (left) "ht l = ht r + 2" | (right) "ht r = ht l + 2"
    using assms(5,6) by fastforce
  then show ?thesis
  proof cases
    case even
    then have b: "b = Fork l r" "made = [Fork l r]" using res by (auto simp: tree_balance_def)
    have "refines sha U contents ov (make_branch sha (ref_of sha l) (ref_of sha r) ov)
        (Ok (ref_of sha (Fork l r))) {Fork l r} live"
      using even assms(3,4) made b live(2)
      by (intro make_branch_refines [OF assms(1,2) _ _ live(1)]) (auto simp: known_def)
    then show ?thesis using even b by (simp add: balance_refs_def)
  next
    case left
    then obtain ll lr where "l = Fork ll lr" using ht_Suc [of l] by auto
    with rotate_left_heavy left assms show ?thesis by blast
  next
    case right
    then obtain rl rr where "r = Fork rl rr" using ht_Suc [of r] by auto
    with rotate_right_heavy right assms show ?thesis by blast
  qed
qed

lemma meet_refines:
  assumes "inj_on (log_node_id sha) U" "overlay_ok sha U contents ov" "known sha U l" "known sha U r"
    and "ht l \<le> ht r + 1" "ht r \<le> ht l + 1"
    and res: "tree_meet l r = (t, made)" and made: "\<forall>s\<in>set made. body_of sha s \<in> U"
    and live: "live \<Longrightarrow> ready sha load contents ov (subtrees l \<union> subtrees r) n"
      "length (tvals l) + length (tvals r) \<le> n"
  shows "refines sha U contents ov (meet_refs sha load (ref_of sha l) (ref_of sha r) ov)
    (Ok (ref_of sha t)) (set made) live"
proof -
  have branch: "refines sha U contents ov' (make_branch sha (ref_of sha l) (ref_of sha r) ov')
      (Ok (ref_of sha (Fork l r))) {Fork l r} live"
    if "t = Fork l r" "made = [Fork l r]" "overlay_ok sha U contents ov'" "overlay_le contents ov ov'" for ov'
    using assms(3-6) made that live(2)
    by (intro make_branch_refines [OF assms(1) that(3) _ _ ready_le [OF live(1) that(4)]]) (auto simp: known_def)
  show ?thesis
  proof (cases "ht l = 1 \<and> ht r = 1")
    case False
    then have "t = Fork l r" "made = [Fork l r]" using res by (cases l; cases r; simp add: tree_meet_def)+
    with branch [OF _ _ assms(2)] False show ?thesis by (auto simp: meet_refs_def)
  next
    case True
    then obtain vs ws where lr: "l = Tip vs" "r = Tip ws" by (cases l; cases r) auto
    have load: "refines sha U contents ov' (overlay_load sha load (ref_of sha s) ov') (Ok (node_of sha s)) {} live"
      if "s = l \<or> s = r" "overlay_ok sha U contents ov'" "overlay_le contents ov ov'" for s ov'
      using assms(3,4) that(1) live(2)
      by (intro load_refines [OF assms(1) that(2), where n = n])
        (auto intro: ready_step [where A = "{}", OF live(1) that(3)] simp: created_def)
    have leaf: "refines sha U contents ov' (store_leaf sha (vs @ ws) ov') (Ok (ref_of sha t)) (set made) live"
      if "length vs + length ws \<le> LOG_FANOUT" "overlay_ok sha U contents ov'" "overlay_le contents ov ov'" for ov'
      using res made that lr assms(3,4) live(2)
      by (auto simp: tree_meet_def known_def
          intro!: store_leaf_refines [OF assms(1) that(2) _ _ ready_le [OF live(1) that(3)]])
    have fork: "refines sha U contents ov' (make_branch sha (ref_of sha l) (ref_of sha r) ov')
        (Ok (ref_of sha t)) (set made) live"
      if "\<not> length vs + length ws \<le> LOG_FANOUT" "overlay_ok sha U contents ov'" "overlay_le contents ov ov'" for ov'
      using res that branch lr by (auto simp: tree_meet_def)
    show ?thesis using True lr
      by (auto simp: meet_refs_def intro!: refines_then [OF load [unfolded lr]] leaf fork [unfolded lr]
          intro: overlay_le_trans assms(2))
  qed
qed

section \<open>Join\<close>

lemma join_known:
  assumes "known sha U l" "known sha U r" "tree_join l r = (t, made)" "\<forall>s\<in>set made. body_of sha s \<in> U"
  shows "known sha U t" "length (tvals t) = length (tvals l) + length (tvals r)"
proof -
  have "joins_to l r (t, made)" using tree_join_joins [of l r] assms(1-3) by (simp add: known_def)
  with assms show "known sha U t" "length (tvals t) = length (tvals l) + length (tvals r)"
    by (auto simp: joins_to_def known_def)
qed

text \<open>Descending on one side: join below, then rotate.\<close>

lemma join_left_step:
  assumes "inj_on (log_node_id sha) U" "overlay_ok sha U contents ov"
    and "known sha U (Fork ll lr)" "known sha U r" "ht r + 1 < ht (Fork ll lr)"
    and sub: "tree_join lr r = (j, made)" "tree_balance ll j = (b, made')"
    and made: "\<forall>s\<in>set (made @ made'). body_of sha s \<in> U"
    and live: "live \<Longrightarrow> ready sha load contents ov (subtrees (Fork ll lr) \<union> subtrees r) n"
      "length (tvals (Fork ll lr)) + length (tvals r) \<le> n"
    and IH: "\<And>ov. overlay_ok sha U contents ov \<Longrightarrow>
      (live \<Longrightarrow> ready sha load contents ov (subtrees lr \<union> subtrees r) n) \<Longrightarrow>
      refines sha U contents ov (join_refs sha load (ref_of sha lr) (ref_of sha r) ov) (Ok (ref_of sha j)) (set made) live"
  shows "refines sha U contents ov
    (rbind (branch_children sha load (ref_of sha (Fork ll lr)) ov) (\<lambda>((ll, lr), ov).
     rbind (join_refs sha load lr (ref_of sha r) ov) (\<lambda>(j, ov). balance_refs sha load ll j ov)))
    (Ok (ref_of sha b)) (set (made @ made')) live"
proof (rule refines_then)
  show "refines sha U contents ov (branch_children sha load (ref_of sha (Fork ll lr)) ov)
      (Ok (ref_of sha ll, ref_of sha lr)) {} live"
    using live(2) by (intro branch_children_refines [OF assms(1-3), where n = n])
      (auto intro: ready_step [where A = "{}", OF live(1)] simp: created_def)
  have j: "joins_to lr r (j, made)" "known sha U ll"
    using tree_join_joins [of lr r] assms(3,4) sub by (auto simp: known_def)
  have kj: "known sha U j" "length (tvals j) = length (tvals lr) + length (tvals r)"
    using join_known [OF _ assms(4) sub(1)] known_Fork [OF assms(3)] made by auto
  fix ov1 assume 1: "overlay_ok sha U contents ov1" "overlay_le contents ov ov1"
  have "refines sha U contents ov1 (rbind (join_refs sha load (ref_of sha lr) (ref_of sha r) ov1)
      (\<lambda>(j, ov). balance_refs sha load (ref_of sha ll) j ov)) (Ok (ref_of sha b)) (set (made @ made')) live"
  proof (rule refines_bind)
    show "refines sha U contents ov1 (join_refs sha load (ref_of sha lr) (ref_of sha r) ov1)
        (Ok (ref_of sha j)) (set made) live"
      by (rule IH [OF 1(1)]) (auto intro: ready_step [where A = "{}", OF live(1) 1(2)] simp: created_def)
    fix ov2 assume 2: "overlay_ok sha U contents ov2" "overlay_le contents ov1 ov2" "created sha ov2 (set made)"
    have "ready sha load contents ov2 (subtrees ll \<union> subtrees j) n" if live
      by (rule ready_step [OF live(1) [OF that] overlay_le_trans [OF 1(2) 2(2)] 2(3)])
        (use j(1) in \<open>auto simp: joins_to_def\<close>)
    then show "refines sha U contents ov2 (case (ref_of sha j, ov2) of
        (j, ov) \<Rightarrow> balance_refs sha load (ref_of sha ll) j ov) (Ok (ref_of sha b)) (set made') live"
      using j assms(3,5) made live(2) kj
      by (auto simp: joins_to_def known_def intro!: balance_refines [OF assms(1) 2(1) j(2) kj(1) _ _ sub(2)])
  qed auto
  then show "refines sha U contents ov1 ((\<lambda>((ll, lr), ov).
      rbind (join_refs sha load lr (ref_of sha r) ov) (\<lambda>(j, ov). balance_refs sha load ll j ov))
        ((ref_of sha ll, ref_of sha lr), ov1))
      (Ok (ref_of sha b)) (set (made @ made')) live" by simp
qed

lemma join_right_step:
  assumes "inj_on (log_node_id sha) U" "overlay_ok sha U contents ov"
    and "known sha U l" "known sha U (Fork rl rr)" "ht l + 1 < ht (Fork rl rr)"
    and sub: "tree_join l rl = (j, made)" "tree_balance j rr = (b, made')"
    and made: "\<forall>s\<in>set (made @ made'). body_of sha s \<in> U"
    and live: "live \<Longrightarrow> ready sha load contents ov (subtrees l \<union> subtrees (Fork rl rr)) n"
      "length (tvals l) + length (tvals (Fork rl rr)) \<le> n"
    and IH: "\<And>ov. overlay_ok sha U contents ov \<Longrightarrow>
      (live \<Longrightarrow> ready sha load contents ov (subtrees l \<union> subtrees rl) n) \<Longrightarrow>
      refines sha U contents ov (join_refs sha load (ref_of sha l) (ref_of sha rl) ov) (Ok (ref_of sha j)) (set made) live"
  shows "refines sha U contents ov
    (rbind (branch_children sha load (ref_of sha (Fork rl rr)) ov) (\<lambda>((rl, rr), ov).
     rbind (join_refs sha load (ref_of sha l) rl ov) (\<lambda>(j, ov). balance_refs sha load j rr ov)))
    (Ok (ref_of sha b)) (set (made @ made')) live"
proof (rule refines_then)
  show "refines sha U contents ov (branch_children sha load (ref_of sha (Fork rl rr)) ov)
      (Ok (ref_of sha rl, ref_of sha rr)) {} live"
    using live(2) by (intro branch_children_refines [OF assms(1,2,4), where n = n])
      (auto intro: ready_step [where A = "{}", OF live(1)] simp: created_def)
  have j: "joins_to l rl (j, made)" "known sha U rr"
    using tree_join_joins [of l rl] assms(3,4) sub by (auto simp: known_def)
  have kj: "known sha U j" "length (tvals j) = length (tvals l) + length (tvals rl)"
    using join_known [OF assms(3) _ sub(1)] known_Fork [OF assms(4)] made by auto
  fix ov1 assume 1: "overlay_ok sha U contents ov1" "overlay_le contents ov ov1"
  have "refines sha U contents ov1 (rbind (join_refs sha load (ref_of sha l) (ref_of sha rl) ov1)
      (\<lambda>(j, ov). balance_refs sha load j (ref_of sha rr) ov)) (Ok (ref_of sha b)) (set (made @ made')) live"
  proof (rule refines_bind)
    show "refines sha U contents ov1 (join_refs sha load (ref_of sha l) (ref_of sha rl) ov1)
        (Ok (ref_of sha j)) (set made) live"
      by (rule IH [OF 1(1)]) (auto intro: ready_step [where A = "{}", OF live(1) 1(2)] simp: created_def)
    fix ov2 assume 2: "overlay_ok sha U contents ov2" "overlay_le contents ov1 ov2" "created sha ov2 (set made)"
    have "ready sha load contents ov2 (subtrees j \<union> subtrees rr) n" if live
      by (rule ready_step [OF live(1) [OF that] overlay_le_trans [OF 1(2) 2(2)] 2(3)])
        (use j(1) in \<open>auto simp: joins_to_def\<close>)
    then show "refines sha U contents ov2 (case (ref_of sha j, ov2) of
        (j, ov) \<Rightarrow> balance_refs sha load j (ref_of sha rr) ov) (Ok (ref_of sha b)) (set made') live"
      using j assms(4,5) made live(2) kj
      by (auto simp: joins_to_def known_def intro!: balance_refines [OF assms(1) 2(1) kj(1) j(2) _ _ sub(2)])
  qed auto
  then show "refines sha U contents ov1 ((\<lambda>((rl, rr), ov).
      rbind (join_refs sha load (ref_of sha l) rl ov) (\<lambda>(j, ov). balance_refs sha load j rr ov))
        ((ref_of sha rl, ref_of sha rr), ov1))
      (Ok (ref_of sha b)) (set (made @ made')) live" by simp
qed

text \<open>The \<^verbatim>\<open>u8\<close> additions on the heights never fail on trees within the bounds.\<close>

lemma ready_height:
  assumes "ready sha load contents ov T n" "avl t" "length (tvals t) \<le> n"
  shows "ht t + 1 \<le> 255"
  using ready_sized [OF assms] by (simp add: sized_def MAX_LOG_HEIGHT_def)

lemma refines_dead [intro]: "(live \<Longrightarrow> False) \<Longrightarrow> refines sha U contents ov (Err e) expected T live"
  by (auto simp: refines_def)

lemma refines_guard:
  assumes "live \<Longrightarrow> \<not> c" "\<not> c \<Longrightarrow> refines sha U contents ov m (Ok v) T live"
  shows "refines sha U contents ov (if c then Err e else m) (Ok v) T live"
  using assms by (auto simp: refines_def)

lemma join_refines:
  assumes "inj_on (log_node_id sha) U" "overlay_ok sha U contents ov" "known sha U l" "known sha U r"
    and "tree_join l r = (t, made)" "\<forall>s\<in>set made. body_of sha s \<in> U"
    and "live \<Longrightarrow> ready sha load contents ov (subtrees l \<union> subtrees r) n"
      "length (tvals l) + length (tvals r) \<le> n"
  shows "refines sha U contents ov (join_refs sha load (ref_of sha l) (ref_of sha r) ov)
    (Ok (ref_of sha t)) (set made) live"
  using assms(2-)
proof (induction l r arbitrary: t made ov rule: tree_join.induct)
  case (1 l r)
  have avl: "avl l" "avl r" using 1(4,5) by (simp_all add: known_def)
  have small: "ht l + 1 \<le> 255" "ht r + 1 \<le> 255" if live
    using ready_height [OF 1(8) [OF that] avl(1)] ready_height [OF 1(8) [OF that] avl(2)] 1(9) by simp_all
  consider (left) "ht r + 1 < ht l" | (right) "\<not> ht r + 1 < ht l" "ht l + 1 < ht r"
    | (meet) "\<not> ht r + 1 < ht l" "\<not> ht l + 1 < ht r" by linarith
  then show ?case
  proof cases
    case left
    then obtain ll lr where l: "l = Fork ll lr" using ht_Suc [of l] by auto
    obtain j m b m' where sub: "tree_join lr r = (j, m)" "tree_balance ll j = (b, m')" by force
    then have t: "t = b" "made = m @ m'" using 1(6) left l by (auto simp: tree_join.simps [of "Fork ll lr" r])
    have "refines sha U contents ov'
        (join_refs sha load (ref_of sha lr) (ref_of sha r) ov') (Ok (ref_of sha j)) (set m) live"
      if "overlay_ok sha U contents ov'" "live \<Longrightarrow> ready sha load contents ov' (subtrees lr \<union> subtrees r) n" for ov'
      using 1(1) [OF left l that(1) _ 1(5) sub(1) _ that(2)] 1(4,7,9) l t by (auto simp: known_def)
    then have step: "refines sha U contents ov
        (rbind (branch_children sha load (ref_of sha (Fork ll lr)) ov) (\<lambda>((ll, lr), ov).
         rbind (join_refs sha load lr (ref_of sha r) ov) (\<lambda>(j, ov). balance_refs sha load ll j ov)))
        (Ok (ref_of sha t)) (set made) live"
      using 1(4,7-9) left unfolding l t by (intro join_left_step [OF assms(1) 1(3) _ 1(5) _ sub]) auto
    show ?thesis unfolding join_refs.simps [of sha load "ref_of sha l" "ref_of sha r" ov]
      by (rule refines_guard) (use small left step l in auto)
  next
    case right
    then obtain rl rr where r: "r = Fork rl rr" using ht_Suc [of r] by auto
    obtain j m b m' where sub: "tree_join l rl = (j, m)" "tree_balance j rr = (b, m')" by force
    then have t: "t = b" "made = m @ m'" using 1(6) right r by (auto simp: tree_join.simps [of l "Fork rl rr"])
    have "refines sha U contents ov'
        (join_refs sha load (ref_of sha l) (ref_of sha rl) ov') (Ok (ref_of sha j)) (set m) live"
      if "overlay_ok sha U contents ov'" "live \<Longrightarrow> ready sha load contents ov' (subtrees l \<union> subtrees rl) n" for ov'
      using 1(2) [OF right r that(1) 1(4) _ sub(1) _ that(2)] 1(5,7,9) r t by (auto simp: known_def)
    then have step: "refines sha U contents ov
        (rbind (branch_children sha load (ref_of sha (Fork rl rr)) ov) (\<lambda>((rl, rr), ov).
         rbind (join_refs sha load (ref_of sha l) rl ov) (\<lambda>(j, ov). balance_refs sha load j rr ov)))
        (Ok (ref_of sha t)) (set made) live"
      using 1(5,7-9) right unfolding r t by (intro join_right_step [OF assms(1) 1(3,4) _ _ sub]) auto
    show ?thesis unfolding join_refs.simps [of sha load "ref_of sha l" "ref_of sha r" ov]
      by (rule refines_guard) (use small right step r in \<open>auto intro!: refines_guard\<close>)
  next
    case meet
    then have "tree_meet l r = (t, made)" using 1(6) by (simp add: tree_join.simps [of l r])
    with 1(7-9) meet have "refines sha U contents ov (meet_refs sha load (ref_of sha l) (ref_of sha r) ov)
        (Ok (ref_of sha t)) (set made) live" by (intro meet_refines [OF assms(1) 1(3-5)]) auto
    then show ?thesis unfolding join_refs.simps [of sha load "ref_of sha l" "ref_of sha r" ov]
      by (intro refines_guard) (use small meet in \<open>auto intro!: refines_guard\<close>)
  qed
qed

end

end
