(* ===== verification/Log_Refine_Roots.thy ===== *)
theory Log_Refine_Roots
  imports Log_Refine_Ops
begin

text \<open>
  Refinement of the operations on optional references and on roots, up to the whole ordered
  mutation batch.
\<close>

section \<open>Roots\<close>

lemma root_verify_tree:
  assumes "sha_ok sha" "opt_avl t" "\<And>u. t = Some u \<Longrightarrow> sized u"
  shows "log_root_verify sha (root_of sha t) = Ok ()"
proof (cases t)
  case None
  then show ?thesis by (simp add: log_root_verify_def root_of_def log_root_empty_def)
next
  case (Some u)
  with assms avl_tvals_ne [of u] tree_id_valid [of sha u] show ?thesis
    by (simp add: log_root_verify_def root_of_def sized_def)
qed

lemma root_ref_sound: "root_ref sha (root_of sha t) = Ok x \<Longrightarrow> x = map_option (ref_of sha) t"
  by (cases t) (auto simp: root_ref_def root_of_def log_root_empty_def ref_of_def)

lemma ref_root_sound: "ref_root sha (map_option (ref_of sha) t) = Ok x \<Longrightarrow> x = root_of sha t"
  by (cases t) (auto simp: ref_root_def root_of_def ref_of_def Let_def)

lemma root_ref_live:
  assumes "ready sha load contents ov T n" "opt_avl t" "length (opt_values t) \<le> n"
  shows "root_ref sha (root_of sha t) = Ok (map_option (ref_of sha) t)"
proof -
  have "log_root_verify sha (root_of sha t) = Ok ()"
    using assms ready_sized [OF assms(1)] by (intro root_verify_tree) (auto simp: ready_def)
  then show ?thesis by (cases t) (auto simp: root_ref_def root_of_def log_root_empty_def ref_of_def)
qed

lemma ref_root_live:
  assumes "ready sha load contents ov T n" "opt_avl t" "length (opt_values t) \<le> n"
  shows "ref_root sha (map_option (ref_of sha) t) = Ok (root_of sha t)"
proof (cases t)
  case None
  then show ?thesis by (simp add: ref_root_def root_of_def)
next
  case (Some u)
  have "log_root_verify sha (root_of sha t) = Ok ()"
    using assms ready_sized [OF assms(1)] by (intro root_verify_tree) (auto simp: ready_def)
  with Some show ?thesis by (simp add: ref_root_def root_of_def ref_of_def Let_def)
qed

text \<open>The two conversions as steps.\<close>

lemma refines_root_ref:
  assumes "live \<Longrightarrow> ready sha load contents ov T n" "opt_avl t" "length (opt_values t) \<le> n"
    and "refines sha U contents ov (g (map_option (ref_of sha) t)) expected T' live"
  shows "refines sha U contents ov (rbind (root_ref sha (root_of sha t)) g) expected T' live"
proof (rule refines_pure [where v = "map_option (ref_of sha) t"])
  show "x = map_option (ref_of sha) t" if "root_ref sha (root_of sha t) = Ok x" for x
    using root_ref_sound that .
  show "root_ref sha (root_of sha t) = Ok (map_option (ref_of sha) t)" if live
    using root_ref_live [OF assms(1) [OF that] assms(2,3)] .
qed (rule assms(4))

lemma refines_ref_root:
  assumes "live \<Longrightarrow> ready sha load contents ov T n" "opt_avl t" "length (opt_values t) \<le> n"
    and "refines sha U contents ov (g (root_of sha t)) expected T' live"
  shows "refines sha U contents ov (rbind (ref_root sha (map_option (ref_of sha) t)) g) expected T' live"
proof (rule refines_pure [where v = "root_of sha t"])
  show "x = root_of sha t" if "ref_root sha (map_option (ref_of sha) t) = Ok x" for x
    using ref_root_sound that .
  show "ref_root sha (map_option (ref_of sha) t) = Ok (root_of sha t)" if live
    using ref_root_live [OF assms(1) [OF that] assms(2,3)] .
qed (rule assms(4))

lemma concat_known:
  assumes "opt_known sha U l" "opt_known sha U r" "tree_concat l r = (t, made)"
    and "\<forall>s\<in>set made. body_of sha s \<in> U"
  shows "opt_known sha U t" "opt_values t = opt_values l @ opt_values r"
    "opt_subtrees t \<subseteq> opt_subtrees l \<union> opt_subtrees r \<union> set made"
proof -
  have c: "concats_to l r (t, made)" using tree_concat_concats assms by (metis opt_known_avl)
  then show "opt_values t = opt_values l @ opt_values r"
    and s: "opt_subtrees t \<subseteq> opt_subtrees l \<union> opt_subtrees r \<union> set made" by (auto simp: concats_to_def)
  have "\<forall>s\<in>opt_subtrees l \<union> opt_subtrees r. body_of sha s \<in> U"
    using assms(1,2) by (cases l; cases r) (auto simp: known_def)
  with s c assms(4) show "opt_known sha U t" by (intro opt_known_from [OF _ s]) (auto simp: concats_to_def)
qed

context log_resolver
begin

section \<open>Concatenation\<close>

lemma concat_optional_refines:
  assumes "inj_on (log_node_id sha) U" "overlay_ok sha U contents ov" "opt_known sha U l" "opt_known sha U r"
    and res: "tree_concat l r = (t, made)" "\<forall>s\<in>set made. body_of sha s \<in> U"
    and live: "live \<Longrightarrow> ready sha load contents ov (opt_subtrees l \<union> opt_subtrees r) n"
      "length (opt_values l) + length (opt_values r) \<le> n"
  shows "refines sha U contents ov
    (concat_optional sha load (map_option (ref_of sha) l) (map_option (ref_of sha) r) ov)
    (Ok (map_option (ref_of sha) t)) (set made) live"
proof (cases "l = None \<or> r = None")
  case True
  then show ?thesis using res(1) assms(2) by (cases l; cases r) (auto simp: concat_optional_def)
next
  case False
  then obtain u v where uv: "l = Some u" "r = Some v" by auto
  obtain w where w: "tree_join u v = (w, made)" "t = Some w" using res(1) uv by (auto split: prod.splits)
  have "refines sha U contents ov (join_refs sha load (ref_of sha u) (ref_of sha v) ov) (Ok (ref_of sha w)) (set made) live"
    using assms uv by (intro join_refines [OF assms(1,2) _ _ w(1) res(2), where n = n]) auto
  then have "refines sha U contents ov (rbind (join_refs sha load (ref_of sha u) (ref_of sha v) ov)
      (\<lambda>(j, ov). Ok (Some j, ov))) (Ok (Some (ref_of sha w))) (set made) live" by (rule refines_map) simp
  then show ?thesis using uv w(2) by (simp add: concat_optional_def)
qed

lemma concat_roots_eq:
  "concat_roots sha load l r ov =
     rbind (root_ref sha l) (\<lambda>left_ref. rbind (root_ref sha r) (\<lambda>right_ref.
     rbind (concat_optional sha load left_ref right_ref ov) (\<lambda>(t, ov).
     rbind (ref_root sha t) (\<lambda>root. Ok (root, ov)))))"
  unfolding concat_roots_def
  by (intro rbind_cong refl)
    (auto simp: concat_optional_def rbind_assoc case_prod_beta split: option.splits intro!: rbind_cong)

lemma concat_roots_refines:
  assumes "inj_on (log_node_id sha) U" "overlay_ok sha U contents ov" "opt_known sha U l" "opt_known sha U r"
    and res: "tree_concat l r = (t, made)" "\<forall>s\<in>set made. body_of sha s \<in> U"
    and live: "live \<Longrightarrow> ready sha load contents ov (opt_subtrees l \<union> opt_subtrees r) n"
      "length (opt_values l) + length (opt_values r) \<le> n"
  shows "refines sha U contents ov (concat_roots sha load (root_of sha l) (root_of sha r) ov)
    (Ok (root_of sha t)) (set made) live"
proof -
  note avl = opt_known_avl [OF assms(3)] opt_known_avl [OF assms(4)]
  have t: "opt_avl t" "length (opt_values t) \<le> n"
    using concat_known [OF assms(3,4) res] live(2) by (auto dest: opt_known_avl)
  have "refines sha U contents ov
      (rbind (concat_optional sha load (map_option (ref_of sha) l) (map_option (ref_of sha) r) ov)
        (\<lambda>(t, ov). rbind (ref_root sha t) (\<lambda>root. Ok (root, ov)))) (Ok (root_of sha t)) (set made) live"
  proof (rule refines_bind [OF concat_optional_refines [OF assms]])
    fix ov' assume *: "overlay_ok sha U contents ov'" "overlay_le contents ov ov'"
    then have "refines sha U contents ov' (rbind (ref_root sha (map_option (ref_of sha) t)) (\<lambda>root. Ok (root, ov')))
        (Ok (root_of sha t)) {} live"
      by (intro refines_ref_root [OF ready_le [OF live(1) *(2)] t]) auto
    then show "refines sha U contents ov' (case (map_option (ref_of sha) t, ov') of
        (t, ov) \<Rightarrow> rbind (ref_root sha t) (\<lambda>root. Ok (root, ov))) (Ok (root_of sha t)) {} live" by simp
  qed auto
  then show ?thesis unfolding concat_roots_eq using live(2)
    by (intro refines_root_ref [OF live(1) avl(1)] refines_root_ref [OF live(1) avl(2)]) auto
qed

section \<open>Split\<close>

lemma split_known:
  assumes "known sha U t" "i \<le> length (tvals t)" "tree_split t i = (p, s, made)"
    and "\<forall>m\<in>set made. body_of sha m \<in> U"
  shows "opt_known sha U p" "opt_known sha U s"
    "length (opt_values p) = i" "length (opt_values s) = length (tvals t) - i"
    "opt_subtrees p \<union> opt_subtrees s \<subseteq> subtrees t \<union> set made"
proof -
  have sp: "splits_to t i (p, s, made)" using tree_split_splits [of t i] assms(1-3) by (simp add: known_def)
  then show "length (opt_values p) = i" "length (opt_values s) = length (tvals t) - i"
    "opt_subtrees p \<union> opt_subtrees s \<subseteq> subtrees t \<union> set made"
    using assms(2) by (auto simp: splits_to_def)
  have "\<forall>m\<in>subtrees t. body_of sha m \<in> U" using assms(1) by (simp add: known_def)
  then show "opt_known sha U p" "opt_known sha U s"
    using sp assms(4) by (auto simp: splits_to_def intro!: opt_known_from [where old = "subtrees t" and made = made])
qed

text \<open>Splitting a leaf stores its two halves.\<close>

lemma split_leaf_refines:
  assumes "inj_on (log_node_id sha) U" "overlay_ok sha U contents ov"
    and "avl (Tip (take i vs))" "avl (Tip (drop i vs))" "LogLeaf (take i vs) \<in> U" "LogLeaf (drop i vs) \<in> U"
    and live: "live \<Longrightarrow> ready sha load contents ov T n" "length vs \<le> n"
  shows "refines sha U contents ov
    (rbind (store_leaf sha (take i vs) ov) (\<lambda>(left, ov).
     if i = length vs then Ok ((Some left, None), ov)
     else rbind (store_leaf sha (drop i vs) ov) (\<lambda>(right, ov). Ok ((Some left, Some right), ov))))
    (Ok (Some (ref_of sha (Tip (take i vs))), Some (ref_of sha (Tip (drop i vs)))))
    {Tip (take i vs), Tip (drop i vs)} live"
proof (rule refines_bind)
  show "refines sha U contents ov (store_leaf sha (take i vs) ov)
      (Ok (ref_of sha (Tip (take i vs)))) {Tip (take i vs)} live"
    using live(2) by (intro store_leaf_refines [OF assms(1,2,3,5) live(1)]) auto
  fix ov' assume *: "overlay_ok sha U contents ov'" "overlay_le contents ov ov'"
  have "i \<noteq> length vs" using assms(4) by auto
  moreover have "refines sha U contents ov' (store_leaf sha (drop i vs) ov')
      (Ok (ref_of sha (Tip (drop i vs)))) {Tip (drop i vs)} live"
    using live(2) by (intro store_leaf_refines [OF assms(1) *(1) assms(4,6) ready_le [OF live(1) *(2)]]) auto
  ultimately show "refines sha U contents ov' (case (ref_of sha (Tip (take i vs)), ov') of (left, ov) \<Rightarrow>
      if i = length vs then Ok ((Some left, None), ov)
      else rbind (store_leaf sha (drop i vs) ov) (\<lambda>(right, ov). Ok ((Some left, Some right), ov)))
      (Ok (Some (ref_of sha (Tip (take i vs))), Some (ref_of sha (Tip (drop i vs))))) {Tip (drop i vs)} live"
    by (auto intro: refines_map)
qed auto

text \<open>Splitting below and joining the remainder back, on either side.\<close>

lemma split_left_refines:
  assumes "inj_on (log_node_id sha) U" "overlay_ok sha U contents ov" "known sha U l" "known sha U r"
    and "i \<le> length (tvals l)"
    and sub: "tree_split l i = (p, q, made)" "tree_concat q (Some r) = (s, made')"
    and made: "\<forall>m\<in>set (made @ made'). body_of sha m \<in> U"
    and live: "live \<Longrightarrow> ready sha load contents ov (subtrees l \<union> subtrees r) n"
      "length (tvals l) + length (tvals r) \<le> n"
    and IH: "refines sha U contents ov (split_ref sha load (ref_of sha l) i ov)
      (Ok (map_option (ref_of sha) p, map_option (ref_of sha) q)) (set made) live"
  shows "refines sha U contents ov
    (rbind (split_ref sha load (ref_of sha l) i ov) (\<lambda>((prefix, remainder), ov).
     rbind (concat_optional sha load remainder (Some (ref_of sha r)) ov) (\<lambda>(suffix, ov).
     Ok ((prefix, suffix), ov))))
    (Ok (map_option (ref_of sha) p, map_option (ref_of sha) s)) (set (made @ made')) live"
proof (rule refines_bind [OF IH])
  have k: "opt_known sha U q" "length (opt_values q) = length (tvals l) - i"
    "opt_subtrees p \<union> opt_subtrees q \<subseteq> subtrees l \<union> set made"
    using split_known [OF assms(3,5) sub(1)] made by auto
  fix ov' assume *: "overlay_ok sha U contents ov'" "overlay_le contents ov ov'" "created sha ov' (set made)"
  have "refines sha U contents ov' (concat_optional sha load (map_option (ref_of sha) q)
      (map_option (ref_of sha) (Some r)) ov') (Ok (map_option (ref_of sha) s)) (set made') live"
  proof (rule concat_optional_refines [OF assms(1) *(1) k(1) _ sub(2), where n = n])
    show "ready sha load contents ov' (opt_subtrees q \<union> opt_subtrees (Some r)) n" if live
      by (rule ready_step [OF live(1) [OF that] *(2,3)]) (use k(3) in auto)
  qed (use assms(4) made k(2) live(2) in auto)
  then show "refines sha U contents ov' ((\<lambda>((prefix, remainder), ov).
      rbind (concat_optional sha load remainder (Some (ref_of sha r)) ov) (\<lambda>(suffix, ov).
      Ok ((prefix, suffix), ov))) ((map_option (ref_of sha) p, map_option (ref_of sha) q), ov'))
      (Ok (map_option (ref_of sha) p, map_option (ref_of sha) s)) (set made') live"
    by (auto intro: refines_map)
qed auto

lemma split_right_refines:
  assumes "inj_on (log_node_id sha) U" "overlay_ok sha U contents ov" "known sha U l" "known sha U r"
    and "i \<le> length (tvals r)"
    and sub: "tree_split r i = (p, s, made)" "tree_concat (Some l) p = (q, made')"
    and made: "\<forall>m\<in>set (made @ made'). body_of sha m \<in> U"
    and live: "live \<Longrightarrow> ready sha load contents ov (subtrees l \<union> subtrees r) n"
      "length (tvals l) + length (tvals r) \<le> n"
    and IH: "refines sha U contents ov (split_ref sha load (ref_of sha r) i ov)
      (Ok (map_option (ref_of sha) p, map_option (ref_of sha) s)) (set made) live"
  shows "refines sha U contents ov
    (rbind (split_ref sha load (ref_of sha r) i ov) (\<lambda>((prefix_tail, suffix), ov).
     rbind (concat_optional sha load (Some (ref_of sha l)) prefix_tail ov) (\<lambda>(prefix, ov).
     Ok ((prefix, suffix), ov))))
    (Ok (map_option (ref_of sha) q, map_option (ref_of sha) s)) (set (made @ made')) live"
proof (rule refines_bind [OF IH])
  have k: "opt_known sha U p" "length (opt_values p) = i"
    "opt_subtrees p \<union> opt_subtrees s \<subseteq> subtrees r \<union> set made"
    using split_known [OF assms(4,5) sub(1)] made by auto
  fix ov' assume *: "overlay_ok sha U contents ov'" "overlay_le contents ov ov'" "created sha ov' (set made)"
  have "refines sha U contents ov' (concat_optional sha load (map_option (ref_of sha) (Some l))
      (map_option (ref_of sha) p) ov') (Ok (map_option (ref_of sha) q)) (set made') live"
  proof (rule concat_optional_refines [OF assms(1) *(1) _ k(1) sub(2), where n = n])
    show "ready sha load contents ov' (opt_subtrees (Some l) \<union> opt_subtrees p) n" if live
      by (rule ready_step [OF live(1) [OF that] *(2,3)]) (use k(3) in auto)
  qed (use assms(3,5) made k(2) live(2) in auto)
  then show "refines sha U contents ov' ((\<lambda>((prefix_tail, suffix), ov).
      rbind (concat_optional sha load (Some (ref_of sha l)) prefix_tail ov) (\<lambda>(prefix, ov).
      Ok ((prefix, suffix), ov))) ((map_option (ref_of sha) p, map_option (ref_of sha) s), ov'))
      (Ok (map_option (ref_of sha) q, map_option (ref_of sha) s)) (set made') live"
    by (auto intro: refines_map)
qed auto

text \<open>One level of the recursion, for a leaf and for a branch.\<close>

lemma split_Tip_refines:
  assumes "inj_on (log_node_id sha) U" "overlay_ok sha U contents ov" "known sha U (Tip vs)"
    and i: "0 < i" "i < length vs"
    and made: "LogLeaf (take i vs) \<in> U" "LogLeaf (drop i vs) \<in> U"
    and live: "live \<Longrightarrow> ready sha load contents ov (subtrees (Tip vs)) n" "length vs \<le> n"
  shows "refines sha U contents ov (split_ref sha load (ref_of sha (Tip vs)) i ov)
    (Ok (Some (ref_of sha (Tip (take i vs))), Some (ref_of sha (Tip (drop i vs)))))
    {Tip (take i vs), Tip (drop i vs)} live"
proof -
  have load: "refines sha U contents ov (overlay_load sha load (ref_of sha (Tip vs)) ov) (Ok (node_of sha (Tip vs))) {} live"
    using load_refines [OF assms(1-3) live(1)] live(2) by simp
  have avl: "avl (Tip (take i vs))" "avl (Tip (drop i vs))"
    using assms(3) i by (auto simp: known_def list_all_iff dest: in_set_takeD in_set_dropD)
  have "\<not> length vs < i" "i \<noteq> length vs" using i by simp_all
  then show ?thesis
    using i split_leaf_refines [OF assms(1) _ avl made ready_le [OF live(1)] live(2)]
    by (auto simp: split_ref.simps [of sha load "ref_of sha (Tip vs)"] intro!: refines_then [OF load])
qed

lemma split_Fork_refines:
  assumes "inj_on (log_node_id sha) U" "overlay_ok sha U contents ov" "known sha U (Fork l r)"
    and i: "0 < i" "i < length (tvals l) + length (tvals r)"
    and res: "tree_split (Fork l r) i = (p, s, made)" and made: "\<forall>m\<in>set made. body_of sha m \<in> U"
    and live: "live \<Longrightarrow> ready sha load contents ov (subtrees (Fork l r)) n"
      "length (tvals (Fork l r)) \<le> n"
    and IHl: "\<And>ov p q made. overlay_ok sha U contents ov \<Longrightarrow> i < length (tvals l) \<Longrightarrow>
      tree_split l i = (p, q, made) \<Longrightarrow> \<forall>m\<in>set made. body_of sha m \<in> U \<Longrightarrow>
      (live \<Longrightarrow> ready sha load contents ov (subtrees l) n) \<Longrightarrow>
      refines sha U contents ov (split_ref sha load (ref_of sha l) i ov)
        (Ok (map_option (ref_of sha) p, map_option (ref_of sha) q)) (set made) live"
    and IHr: "\<And>ov p s made. overlay_ok sha U contents ov \<Longrightarrow> length (tvals l) < i \<Longrightarrow>
      tree_split r (i - length (tvals l)) = (p, s, made) \<Longrightarrow> \<forall>m\<in>set made. body_of sha m \<in> U \<Longrightarrow>
      (live \<Longrightarrow> ready sha load contents ov (subtrees r) n) \<Longrightarrow>
      refines sha U contents ov (split_ref sha load (ref_of sha r) (i - length (tvals l)) ov)
        (Ok (map_option (ref_of sha) p, map_option (ref_of sha) s)) (set made) live"
  shows "refines sha U contents ov (split_ref sha load (ref_of sha (Fork l r)) i ov)
    (Ok (map_option (ref_of sha) p, map_option (ref_of sha) s)) (set made) live"
proof -
  note k = known_Fork [OF assms(3)]
  have load: "refines sha U contents ov (overlay_load sha load (ref_of sha (Fork l r)) ov)
      (Ok (node_of sha (Fork l r))) {} live"
    using load_refines [OF assms(1-3) live] .
  have live': "ready sha load contents ov' T n"
    if live "overlay_le contents ov ov'" "T \<subseteq> subtrees l \<union> subtrees r" for ov' T
    using that by (intro ready_step [OF live(1) _ _ _ order_refl, where A = "{}"]) (auto simp: created_def)
  have bounds: "\<not> length (tvals l) + length (tvals r) < i" "i \<noteq> length (tvals l) + length (tvals r)"
    using i by simp_all
  consider (less) "i < length (tvals l)" | (eq) "i = length (tvals l)"
    | (greater) "length (tvals l) < i" by linarith
  then show ?thesis
  proof cases
    case less
    obtain q m s' m' where sub: "tree_split l i = (p, q, m)" "tree_concat q (Some r) = (s, m')" "made = m @ m'"
      using res less i by (auto simp: tree_split.simps [of "Fork l r"] split: prod.splits)
    have "refines sha U contents ov' (rbind (split_ref sha load (ref_of sha l) i ov') (\<lambda>((prefix, remainder), ov).
        rbind (concat_optional sha load remainder (Some (ref_of sha r)) ov) (\<lambda>(suffix, ov). Ok ((prefix, suffix), ov))))
        (Ok (map_option (ref_of sha) p, map_option (ref_of sha) s)) (set made) live"
      if "overlay_ok sha U contents ov'" "overlay_le contents ov ov'" for ov'
      unfolding sub(3) using made live(2) less that sub(3)
      by (intro split_left_refines [OF assms(1) that(1) _ _ _ sub(1,2), where n = n] IHl [OF that(1) less sub(1)] live')
        (use k in auto)
    then show ?thesis using i less bounds
      by (auto simp: split_ref.simps [of sha load "ref_of sha (Fork l r)"] intro!: refines_then [OF load])
  next
    case eq
    then have "p = Some l" "s = Some r" "made = []" using res i by (auto simp: tree_split.simps [of "Fork l r"])
    then show ?thesis using i eq bounds
      by (auto simp: split_ref.simps [of sha load "ref_of sha (Fork l r)"] intro!: refines_then [OF load])
  next
    case greater
    obtain q m m' where sub: "tree_split r (i - length (tvals l)) = (q, s, m)" "tree_concat (Some l) q = (p, m')"
      "made = m @ m'"
      using res greater i by (auto simp: tree_split.simps [of "Fork l r"] split: prod.splits)
    have "refines sha U contents ov' (rbind (split_ref sha load (ref_of sha r) (i - length (tvals l)) ov')
        (\<lambda>((prefix_tail, suffix), ov).
        rbind (concat_optional sha load (Some (ref_of sha l)) prefix_tail ov) (\<lambda>(prefix, ov). Ok ((prefix, suffix), ov))))
        (Ok (map_option (ref_of sha) p, map_option (ref_of sha) s)) (set made) live"
      if "overlay_ok sha U contents ov'" "overlay_le contents ov ov'" for ov'
      unfolding sub(3) using made live(2) i that sub(3)
      by (intro split_right_refines [OF assms(1) that(1) _ _ _ sub(1,2), where n = n] IHr [OF that(1) greater sub(1)] live')
        (use k in auto)
    then show ?thesis using i greater bounds
      by (auto simp: split_ref.simps [of sha load "ref_of sha (Fork l r)"] checked_sub_def intro!: refines_then [OF load])
  qed
qed

lemma split_refines:
  assumes "inj_on (log_node_id sha) U" "overlay_ok sha U contents ov" "known sha U t" "i \<le> length (tvals t)"
    and "tree_split t i = (p, s, made)" "\<forall>m\<in>set made. body_of sha m \<in> U"
    and "live \<Longrightarrow> ready sha load contents ov (subtrees t) n" "length (tvals t) \<le> n"
  shows "refines sha U contents ov (split_ref sha load (ref_of sha t) i ov)
    (Ok (map_option (ref_of sha) p, map_option (ref_of sha) s)) (set made) live"
  using assms(2-)
proof (induction t arbitrary: i p s made ov)
  case (Tip vs)
  show ?case
  proof (cases "i = 0 \<or> i = length vs")
    case True
    then show ?thesis using Tip(1,2,4)
      by (auto simp: split_ref.simps [of sha load "ref_of sha (Tip vs)"] tree_split.simps known_def intro!: refines_Ok)
  next
    case False
    then have "p = Some (Tip (take i vs))" "s = Some (Tip (drop i vs))" "made = [Tip (take i vs), Tip (drop i vs)]"
      using Tip(4) by (auto simp: tree_split.simps)
    then show ?thesis using split_Tip_refines [OF assms(1) Tip(1,2) _ _ _ _ Tip(6)] Tip(3,5,7) False by simp
  qed
next
  case (Fork l r)
  note k = known_Fork [OF Fork(4)]
  show ?case
  proof (cases "i = 0 \<or> i = length (tvals (Fork l r))")
    case True
    then show ?thesis using Fork(3,6) avl_tvals_ne [of l] k
      by (auto simp: split_ref.simps [of sha load "ref_of sha (Fork l r)"] tree_split.simps known_def intro!: refines_Ok)
  next
    case False
    show ?thesis
    proof (rule split_Fork_refines [OF assms(1) Fork(3,4) _ _ Fork(6,7,8,9)])
      show "refines sha U contents ov' (split_ref sha load (ref_of sha l) i ov')
          (Ok (map_option (ref_of sha) p', map_option (ref_of sha) q')) (set m) live"
        if "overlay_ok sha U contents ov'" "i < length (tvals l)" "tree_split l i = (p', q', m)"
          "\<forall>m\<in>set m. body_of sha m \<in> U" "live \<Longrightarrow> ready sha load contents ov' (subtrees l) n" for ov' p' q' m
        using Fork(1) [OF that(1) _ _ that(3,4) that(5)] k that(2) Fork(9) by simp
      show "refines sha U contents ov' (split_ref sha load (ref_of sha r) (i - length (tvals l)) ov')
          (Ok (map_option (ref_of sha) p', map_option (ref_of sha) q')) (set m) live"
        if "overlay_ok sha U contents ov'" "length (tvals l) < i" "tree_split r (i - length (tvals l)) = (p', q', m)"
          "\<forall>m\<in>set m. body_of sha m \<in> U" "live \<Longrightarrow> ready sha load contents ov' (subtrees r) n" for ov' p' q' m
        using Fork(2) [OF that(1) _ _ that(3,4) that(5)] k that(2) Fork(5,9) by simp
    qed (use False Fork(5) in auto)
  qed
qed

end

end
