(* ===== verification/Log_Refine_Batch.thy ===== *)
theory Log_Refine_Batch
  imports Log_Refine_Roots
begin

text \<open>
  Refinement of the mutations and of the ordered batch: what \<^verbatim>\<open>apply_log_internal\<close> returns is the
  root of the tree the reference mutations give, and its conflicts are theirs.
\<close>

lemma split_root_known:
  assumes "opt_known sha U t" "i \<le> length (opt_values t)" "tree_split_root t i = (p, s, made)"
    and "\<forall>m\<in>set made. body_of sha m \<in> U"
  shows "opt_known sha U p" "opt_known sha U s"
    "opt_values p = take i (opt_values t)" "opt_values s = drop i (opt_values t)"
    "opt_subtrees p \<union> opt_subtrees s \<subseteq> opt_subtrees t \<union> set made"
proof -
  have pa: "parts (take i (opt_values t)) (drop i (opt_values t)) (length (opt_values t)) (opt_subtrees t) (p, s, made)"
    using parts_split_root [of t i "length (opt_values t)"] assms(1-3) opt_known_avl by auto
  then show "opt_values p = take i (opt_values t)" "opt_values s = drop i (opt_values t)"
    "opt_subtrees p \<union> opt_subtrees s \<subseteq> opt_subtrees t \<union> set made" by (auto simp: parts_def)
  have "\<forall>m\<in>opt_subtrees t. body_of sha m \<in> U" using assms(1) by (cases t) (auto simp: known_def)
  then show "opt_known sha U p" "opt_known sha U s"
    using pa assms(4) by (auto simp: parts_def intro!: opt_known_from [where old = "opt_subtrees t" and made = made])
qed

context log_resolver
begin

lemma split_root_refines:
  assumes "inj_on (log_node_id sha) U" "overlay_ok sha U contents ov" "opt_known sha U t"
    and "i \<le> length (opt_values t)"
    and res: "tree_split_root t i = (p, s, made)" and made: "\<forall>m\<in>set made. body_of sha m \<in> U"
    and live: "live \<Longrightarrow> ready sha load contents ov (opt_subtrees t) n" "length (opt_values t) \<le> n"
  shows "refines sha U contents ov (split_root sha load (root_of sha t) i ov)
    (Ok (root_of sha p, root_of sha s)) (set made) live"
proof -
  note k = split_root_known [OF assms(3,4) res made]
  have avl: "opt_avl p" "opt_avl s" "opt_avl t" using k assms(3) by (simp_all add: opt_known_avl)
  have len: "length (opt_values p) \<le> n" "length (opt_values s) \<le> n" using k live(2) by simp_all
  have "refines sha U contents ov (case map_option (ref_of sha) t of
      None \<Rightarrow> Ok ((log_root_empty sha, log_root_empty sha), ov)
    | Some reference \<Rightarrow>
        rbind (split_ref sha load reference i ov) (\<lambda>((left, right), ov).
        rbind (ref_root sha left) (\<lambda>left_root. rbind (ref_root sha right) (\<lambda>right_root.
        Ok ((left_root, right_root), ov))))) (Ok (root_of sha p, root_of sha s)) (set made) live"
  proof (cases t)
    case None
    then show ?thesis using res assms(2) by (auto simp: tree_split_root_def root_of_def)
  next
    case (Some u)
    have step: "refines sha U contents ov (split_ref sha load (ref_of sha u) i ov)
        (Ok (map_option (ref_of sha) p, map_option (ref_of sha) s)) (set made) live"
      using assms Some by (intro split_refines [where n = n]) (auto simp: tree_split_root_def)
    have "refines sha U contents ov' (rbind (ref_root sha (map_option (ref_of sha) p)) (\<lambda>left_root.
        rbind (ref_root sha (map_option (ref_of sha) s)) (\<lambda>right_root. Ok ((left_root, right_root), ov'))))
        (Ok (root_of sha p, root_of sha s)) {} live"
      if "overlay_ok sha U contents ov'" "overlay_le contents ov ov'" for ov'
      by (intro refines_ref_root [OF ready_le [OF live(1) that(2)] avl(1) len(1)]
          refines_ref_root [OF ready_le [OF live(1) that(2)] avl(2) len(2)] refines_Ok that(1)) auto
    then show ?thesis using Some by (auto intro!: refines_bind [OF step, where B = "{}"])
  qed
  then show ?thesis using assms(4) unfolding split_root_def
    by (auto intro!: refines_root_ref [OF live(1) avl(3) live(2)])
qed

section \<open>Lookup\<close>

lemma overlay_get_from_refines:
  assumes "inj_on (log_node_id sha) U" "overlay_ok sha U contents ov" "known sha U t" "i < length (tvals t)"
    and "live \<Longrightarrow> ready sha load contents ov (subtrees t) n" "length (tvals t) \<le> n" "live \<Longrightarrow> ht t \<le> fuel"
  shows "refines sha U contents ov (overlay_get_from sha load fuel (ref_of sha t) i ov) (Ok (tvals t ! i)) {} live"
  using assms(2-)
proof (induction t arbitrary: i ov fuel)
  case (Tip vs)
  show ?case
  proof (cases fuel)
    case 0
    then show ?thesis using Tip by (auto intro!: refines_dead)
  next
    case (Suc m)
    have load: "refines sha U contents ov (overlay_load sha load (ref_of sha (Tip vs)) ov) (Ok (node_of sha (Tip vs))) {} live"
      by (rule load_refines [OF assms(1) Tip(1,2,4,5)])
    show ?thesis using Tip(3) Suc by (auto intro!: refines_then [OF load] refines_Ok)
  qed
next
  case (Fork l r)
  show ?case
  proof (cases fuel)
    case 0
    then show ?thesis using Fork.prems by (auto intro!: refines_dead)
  next
    case (Suc m)
    note k = known_Fork [OF Fork(4)]
    have sub: "live \<Longrightarrow> ready sha load contents ov' (subtrees s) n"
      if "overlay_le contents ov ov'" "s = l \<or> s = r" for ov' s
      using that by (auto intro!: ready_step [OF Fork(6), where A = "{}"] simp: created_def)
    have "refines sha U contents ov' (if i < length (tvals l) then overlay_get_from sha load m (ref_of sha l) i ov'
        else overlay_get_from sha load m (ref_of sha r) (i - length (tvals l)) ov') (Ok (tvals (Fork l r) ! i)) {} live"
      if "overlay_ok sha U contents ov'" "overlay_le contents ov ov'" for ov'
      using Fork(1) [OF that(1) _ _ sub [OF that(2)], of i m] Fork(2) [OF that(1) _ _ sub [OF that(2)], of "i - length (tvals l)" m]
        k Fork(5,7,8) Suc by (auto simp: nth_append)
    moreover have load: "refines sha U contents ov (overlay_load sha load (ref_of sha (Fork l r)) ov)
        (Ok (node_of sha (Fork l r))) {} live"
      by (rule load_refines [OF assms(1) Fork(3,4,6,7)])
    ultimately show ?thesis using Suc by (auto intro!: refines_then [OF load])
  qed
qed

lemma overlay_get_refines:
  assumes "inj_on (log_node_id sha) U" "overlay_ok sha U contents ov" "opt_known sha U t"
    and live: "live \<Longrightarrow> ready sha load contents ov (opt_subtrees t) n" "length (opt_values t) \<le> n"
  shows "refines sha U contents ov (overlay_get sha load (root_of sha t) i ov)
    (if i < length (opt_values t) then Ok (opt_values t ! i) else Err CConflict) {} live"
proof (cases "i < length (opt_values t)")
  case True
  then obtain u where t: "t = Some u" by (cases t) auto
  have "ht u \<le> Suc MAX_LOG_HEIGHT" if live
    using ready_sized [OF live(1) [OF that], of u] assms(3) live(2) t by (simp add: known_def sized_def)
  then have "refines sha U contents ov (overlay_get_from sha load (Suc MAX_LOG_HEIGHT) (ref_of sha u) i ov)
      (Ok (tvals u ! i)) {} live"
    using assms t True by (intro overlay_get_from_refines [where n = n]) auto
  then show ?thesis using True t opt_known_avl [OF assms(3)] live(2) unfolding overlay_get_def
    by (auto intro!: refines_root_ref [OF live(1)] simp del: overlay_get_from.simps)
next
  case False
  then show ?thesis by (auto simp: overlay_get_def)
qed

section \<open>Mutations\<close>

text \<open>Appending one value: store its leaf and concatenate.\<close>

lemma append_value_refines:
  assumes "inj_on (log_node_id sha) U" "overlay_ok sha U contents ov" "opt_known sha U t"
    and v: "coll_validate_content_id v = Ok ()" "LogLeaf [v] \<in> U"
    and res: "tree_concat t (Some (Tip [v])) = (u, made)" and made: "\<forall>m\<in>set made. body_of sha m \<in> U"
    and live: "live \<Longrightarrow> ready sha load contents ov (opt_subtrees t) n" "length (opt_values t) + 1 \<le> n"
  shows "refines sha U contents ov (append_value sha load v (root_of sha t, ov))
    (Ok (root_of sha u)) (set (Tip [v] # made)) live"
proof -
  have tip: "avl (Tip [v])" using v(1) by (rule avl_Tip1)
  have store: "refines sha U contents ov (store_leaf sha [v] ov) (Ok (ref_of sha (Tip [v]))) {Tip [v]} live"
    using live(2) by (intro store_leaf_refines [OF assms(1,2) tip v(2) live(1)]) auto
  have "refines sha U contents ov' (rbind (ref_root sha (map_option (ref_of sha) (Some (Tip [v])))) (\<lambda>leaf_root.
      concat_roots sha load (root_of sha t) leaf_root ov')) (Ok (root_of sha u)) (set made) live"
    if *: "overlay_ok sha U contents ov'" "overlay_le contents ov ov'" "created sha ov' {Tip [v]}" for ov'
  proof (rule refines_ref_root [OF ready_le [OF live(1) *(2)]])
    show "refines sha U contents ov' (concat_roots sha load (root_of sha t) (root_of sha (Some (Tip [v]))) ov')
        (Ok (root_of sha u)) (set made) live"
    proof (rule concat_roots_refines [OF assms(1) *(1) assms(3) _ res made, where n = n])
      show "ready sha load contents ov' (opt_subtrees t \<union> opt_subtrees (Some (Tip [v]))) n" if live
        by (rule ready_step [OF live(1) [OF that] *(2,3)]) auto
    qed (use tip v(2) live(2) in \<open>auto simp: known_def\<close>)
  qed (use tip live(2) in auto)
  then show ?thesis unfolding append_value_def by (auto intro!: refines_bind [OF store, where B = "set made"])
qed

lemma append_values_refines:
  assumes "inj_on (log_node_id sha) U" "overlay_ok sha U contents ov" "opt_known sha U t" "valid_values vs"
    and "tree_append t vs = (w, made)" "\<forall>m\<in>set made. body_of sha m \<in> U"
    and "live \<Longrightarrow> ready sha load contents ov (opt_subtrees t) n" "length (opt_values t) + length vs \<le> n"
  shows "refines sha U contents ov (append_values sha load (root_of sha t) vs ov)
    (Ok (root_of sha w)) (set made) live"
  unfolding append_values_def using assms(2-)
proof (induction vs arbitrary: t ov made)
  case Nil
  then show ?case by (auto intro!: refines_Ok)
next
  case (Cons v vs)
  obtain u m1 where u: "tree_concat t (Some (Tip [v])) = (u, m1)" by force
  obtain m2 where w: "tree_append u vs = (w, m2)" "made = Tip [v] # m1 @ m2"
    using Cons.prems(4) u by (auto split: prod.splits)
  have v: "coll_validate_content_id v = Ok ()" "LogLeaf [v] \<in> U" using Cons.prems(3,5) w(2) by auto
  have one: "refines sha U contents ov (append_value sha load v (root_of sha t, ov))
      (Ok (root_of sha u)) (set (Tip [v] # m1)) live"
    using Cons.prems w(2) by (intro append_value_refines [OF assms(1) _ _ v u, where n = n]) auto
  have tip: "opt_known sha U (Some (Tip [v]))" using avl_Tip1 [OF v(1)] v(2) by (simp add: known_def)
  have k: "opt_known sha U u" "opt_values u = opt_values t @ [v]"
    "opt_subtrees u \<subseteq> opt_subtrees t \<union> set (Tip [v] # m1)"
    using concat_known [OF Cons.prems(2) tip u] Cons.prems(5) w(2) by auto
  have "refines sha U contents ov' (rfold (append_value sha load) vs (root_of sha u, ov'))
      (Ok (root_of sha w)) (set m2) live"
    if *: "overlay_ok sha U contents ov'" "overlay_le contents ov ov'" "created sha ov' (set (Tip [v] # m1))" for ov'
  proof (rule Cons.IH [OF *(1) k(1) _ w(1)])
    show "ready sha load contents ov' (opt_subtrees u) n" if l: live
      by (rule ready_step [OF Cons.prems(6) [OF l] *(2,3)]) (use k(3) in auto)
  qed (use Cons.prems w(2) k(2) in auto)
  then show ?case using w(2) by (auto intro!: refines_bind [OF one, where B = "set m2"])
qed

lemma insert_between_refines:
  assumes "inj_on (log_node_id sha) U" "overlay_ok sha U contents ov" "opt_known sha U l" "opt_known sha U r"
    and v: "coll_validate_content_id v = Ok ()"
    and res: "tree_insert_between l v r = (w, made)" and made: "\<forall>m\<in>set made. body_of sha m \<in> U"
    and live: "live \<Longrightarrow> ready sha load contents ov (opt_subtrees l \<union> opt_subtrees r) n"
      "length (opt_values l) + 1 + length (opt_values r) \<le> n"
  shows "refines sha U contents ov (insert_between sha load (root_of sha l) v (root_of sha r) ov)
    (Ok (root_of sha w)) (set made) live"
proof -
  obtain p m1 where p: "tree_concat l (Some (Tip [v])) = (p, m1)" by force
  obtain m2 where w: "tree_concat p r = (w, m2)" "made = Tip [v] # m1 @ m2"
    using res p by (auto simp: tree_insert_between_def split: prod.splits)
  have vU: "LogLeaf [v] \<in> U" using made w(2) by auto
  have one: "refines sha U contents ov (append_value sha load v (root_of sha l, ov))
      (Ok (root_of sha p)) (set (Tip [v] # m1)) live"
  proof (rule append_value_refines [OF assms(1-3) v vU p, where n = n])
    show "ready sha load contents ov (opt_subtrees l) n" if live
      by (rule ready_step [OF live(1) [OF that] overlay_le_refl, where A = "{}"]) (auto simp: created_def)
  qed (use made w(2) live(2) in auto)
  have tip: "opt_known sha U (Some (Tip [v]))" using avl_Tip1 [OF v] vU by (simp add: known_def)
  have k: "opt_known sha U p" "opt_values p = opt_values l @ [v]"
    "opt_subtrees p \<subseteq> opt_subtrees l \<union> set (Tip [v] # m1)"
    using concat_known [OF assms(3) tip p] made w(2) by auto
  have "refines sha U contents ov' (concat_roots sha load (root_of sha p) (root_of sha r) ov')
      (Ok (root_of sha w)) (set m2) live"
    if *: "overlay_ok sha U contents ov'" "overlay_le contents ov ov'" "created sha ov' (set (Tip [v] # m1))" for ov'
  proof (rule concat_roots_refines [OF assms(1) *(1) k(1) assms(4) w(1), where n = n])
    show "ready sha load contents ov' (opt_subtrees p \<union> opt_subtrees r) n" if l: live
      by (rule ready_step [OF live(1) [OF l] *(2,3)]) (use k(3) in auto)
  qed (use made w(2) k(2) live(2) in auto)
  then have "refines sha U contents ov (rbind (append_value sha load v (root_of sha l, ov))
      (\<lambda>(prefix, ov). concat_roots sha load prefix (root_of sha r) ov)) (Ok (root_of sha w)) (set made) live"
    using w(2) by (auto intro!: refines_bind [OF one, where B = "set m2"])
  then show ?thesis by (simp add: insert_between_def append_value_def rbind_assoc case_prod_unfold)
qed

lemma split_around_refines:
  assumes "inj_on (log_node_id sha) U" "overlay_ok sha U contents ov" "opt_known sha U t"
    and i: "i < length (opt_values t)"
    and res: "tree_split_around t i = (l, r, made)" and made: "\<forall>m\<in>set made. body_of sha m \<in> U"
    and live: "live \<Longrightarrow> ready sha load contents ov (opt_subtrees t) n" "length (opt_values t) \<le> n"
  shows "refines sha U contents ov (split_around sha load (root_of sha t) i ov)
      (Ok (root_of sha l, root_of sha r)) (set made) live"
    and "opt_known sha U l" "opt_known sha U r"
      "length (opt_values l) + 1 + length (opt_values r) = length (opt_values t)"
      "opt_subtrees l \<union> opt_subtrees r \<subseteq> opt_subtrees t \<union> set made"
proof -
  obtain m m1 where lm: "tree_split_root t i = (l, m, m1)"
    using res by (auto simp: tree_split_around_def split: prod.splits)
  obtain x m2 where mr: "tree_split_root m 1 = (x, r, m2)" "made = m1 @ m2"
    using res lm by (auto simp: tree_split_around_def split: prod.splits)
  have U: "\<forall>s\<in>set m1. body_of sha s \<in> U" "\<forall>s\<in>set m2. body_of sha s \<in> U" using made mr(2) by auto
  note k1 = split_root_known [OF assms(3) less_imp_le [OF i] lm U(1)]
  have "1 \<le> length (opt_values m)" using k1(4) i by simp
  note k2 = split_root_known [OF k1(2) this mr(1) U(2)]
  show "opt_known sha U l" "opt_known sha U r" using k1(1) k2(2) by simp_all
  show "length (opt_values l) + 1 + length (opt_values r) = length (opt_values t)" using k1(3,4) k2(4) i by simp
  show "opt_subtrees l \<union> opt_subtrees r \<subseteq> opt_subtrees t \<union> set made" using k1(5) k2(5) mr(2) by auto
  have first: "refines sha U contents ov (split_root sha load (root_of sha t) i ov)
      (Ok (root_of sha l, root_of sha m)) (set m1) live"
    using i by (intro split_root_refines [OF assms(1-3) _ lm U(1) live]) auto
  have "refines sha U contents ov' (rbind (split_root sha load (root_of sha m) 1 ov') (\<lambda>((_, right), ov).
      Ok ((root_of sha l, right), ov))) (Ok (root_of sha l, root_of sha r)) (set m2) live"
    if *: "overlay_ok sha U contents ov'" "overlay_le contents ov ov'" "created sha ov' (set m1)" for ov'
  proof (rule refines_map [OF split_root_refines [OF assms(1) *(1) k1(2) _ mr(1) U(2)]])
    show "ready sha load contents ov' (opt_subtrees m) n" if l: live
      by (rule ready_step [OF live(1) [OF l] *(2,3)]) (use k1(5) in auto)
  qed (use k1(4) i live(2) in auto)
  then show "refines sha U contents ov (split_around sha load (root_of sha t) i ov)
      (Ok (root_of sha l, root_of sha r)) (set made) live"
    unfolding split_around_def mr(2) by (auto intro!: refines_bind [OF first, where B = "set m2"])
qed

lemma insert_at_refines:
  assumes "inj_on (log_node_id sha) U" "overlay_ok sha U contents ov" "opt_known sha U t"
    and v: "coll_validate_content_id v = Ok ()"
    and res: "tree_mutate sha (InsertAt i v) t = (res, made)" and made: "\<forall>m\<in>set made. body_of sha m \<in> U"
    and live: "live \<Longrightarrow> ready sha load contents ov (opt_subtrees t) n" "length (opt_values t) + 1 \<le> n"
  shows "refines sha U contents ov (apply_mutation sha load (InsertAt i v) (root_of sha t, ov))
    (rbind res (\<lambda>u. Ok (root_of sha u))) (set made) live"
proof (cases "length (opt_values t) < i")
  case True
  then show ?thesis using res by auto
next
  case False
  obtain l r m1 where sp: "tree_split_root t i = (l, r, m1)" by (cases "tree_split_root t i") auto
  obtain w m2 where ib: "tree_insert_between l v r = (w, m2)" by force
  have r: "res = Ok w" "made = m1 @ m2" using res sp ib False by auto
  have U: "\<forall>m\<in>set m1. body_of sha m \<in> U" "\<forall>m\<in>set m2. body_of sha m \<in> U" using made r by auto
  have i: "i \<le> length (opt_values t)" using False by simp
  note k = split_root_known [OF assms(3) i sp U(1)]
  have split: "refines sha U contents ov (split_root sha load (root_of sha t) i ov)
      (Ok (root_of sha l, root_of sha r)) (set m1) live"
    using live(2) by (intro split_root_refines [OF assms(1-3) i sp U(1) live(1)]) auto
  have "refines sha U contents ov' (insert_between sha load (root_of sha l) v (root_of sha r) ov')
      (Ok (root_of sha w)) (set m2) live"
    if *: "overlay_ok sha U contents ov'" "overlay_le contents ov ov'" "created sha ov' (set m1)" for ov'
  proof (rule insert_between_refines [OF assms(1) *(1) k(1,2) v ib U(2), where n = n])
    show "ready sha load contents ov' (opt_subtrees l \<union> opt_subtrees r) n" if l: live
      by (rule ready_step [OF live(1) [OF l] *(2,3)]) (use k(5) in auto)
  qed (use k(3,4) i live(2) in auto)
  then show ?thesis using False r by (auto intro!: refines_bind [OF split, where B = "set m2"])
qed

lemma get_then_refines:
  assumes "inj_on (log_node_id sha) U" "overlay_ok sha U contents ov" "opt_known sha U t"
    and live: "live \<Longrightarrow> ready sha load contents ov (opt_subtrees t) n" "length (opt_values t) \<le> n"
    and rest: "\<And>ov'. \<not> (length (opt_values t) \<le> i \<or> opt_values t ! i \<noteq> e) \<Longrightarrow>
      overlay_ok sha U contents ov' \<Longrightarrow> overlay_le contents ov ov' \<Longrightarrow>
      refines sha U contents ov' (k ov') (Ok w) T live"
  shows "refines sha U contents ov (rbind (overlay_get sha load (root_of sha t) i ov) (\<lambda>(current, ov).
      if current \<noteq> e then Err CConflict else k ov))
    (if length (opt_values t) \<le> i \<or> opt_values t ! i \<noteq> e then Err CConflict else Ok w) T live"
proof (cases "i < length (opt_values t)")
  case True
  have get: "refines sha U contents ov (overlay_get sha load (root_of sha t) i ov) (Ok (opt_values t ! i)) {} live"
    using overlay_get_refines [OF assms(1-3) live, where i = i] True by simp
  show ?thesis using True rest by (auto intro!: refines_then [OF get])
next
  case False
  then show ?thesis by (auto simp: overlay_get_def)
qed

lemma replace_at_refines:
  assumes "inj_on (log_node_id sha) U" "overlay_ok sha U contents ov" "opt_known sha U t"
    and v: "coll_validate_content_id v = Ok ()"
    and res: "tree_mutate sha (ReplaceAt i e v) t = (res, made)" and made: "\<forall>m\<in>set made. body_of sha m \<in> U"
    and live: "live \<Longrightarrow> ready sha load contents ov (opt_subtrees t) n" "length (opt_values t) \<le> n"
  shows "refines sha U contents ov (apply_mutation sha load (ReplaceAt i e v) (root_of sha t, ov))
    (rbind res (\<lambda>u. Ok (root_of sha u))) (set made) live"
proof (cases "length (opt_values t) \<le> i \<or> opt_values t ! i \<noteq> e")
  case True
  then have "res = Err CConflict" using res by auto
  with get_then_refines [OF assms(1-3) live, where i = i and e = e and k = "\<lambda>ov. rbind (split_around sha load (root_of sha t) i ov)
      (\<lambda>((left, right), ov). insert_between sha load left v right ov)" and T = "set made"] True
  show ?thesis by simp
next
  case False
  then have i: "i < length (opt_values t)" by simp
  obtain l r m1 where sp: "tree_split_around t i = (l, r, m1)" by (cases "tree_split_around t i") auto
  obtain w m2 where ib: "tree_insert_between l v r = (w, m2)" by force
  have r: "res = Ok w" "made = m1 @ m2" using res sp ib False by auto
  have U: "\<forall>m\<in>set m1. body_of sha m \<in> U" "\<forall>m\<in>set m2. body_of sha m \<in> U" using made r by auto
  have rest: "refines sha U contents ov1 (rbind (split_around sha load (root_of sha t) i ov1)
      (\<lambda>((left, right), ov). insert_between sha load left v right ov)) (Ok (root_of sha w)) (set made) live"
    if 1: "overlay_ok sha U contents ov1" "overlay_le contents ov ov1" for ov1
  proof -
    note k = split_around_refines [where live = live, OF assms(1) 1(1) assms(3) i sp U(1) ready_le [OF live(1) 1(2)] live(2)]
    have "refines sha U contents ov2 (insert_between sha load (root_of sha l) v (root_of sha r) ov2)
        (Ok (root_of sha w)) (set m2) live"
      if 2: "overlay_ok sha U contents ov2" "overlay_le contents ov1 ov2" "created sha ov2 (set m1)" for ov2
    proof (rule insert_between_refines [OF assms(1) 2(1) k(2,3) v ib U(2), where n = n])
      show "ready sha load contents ov2 (opt_subtrees l \<union> opt_subtrees r) n" if l: live
        by (rule ready_step [OF ready_le [OF live(1) [OF l] 1(2)] 2(2,3)]) (use k(5) in auto)
    qed (use k(4) live(2) in auto)
    then show ?thesis using r by (auto intro!: refines_bind [OF k(1), where B = "set m2"])
  qed
  from get_then_refines [where i = i and e = e, OF assms(1-3) live rest] False r show ?thesis by simp
qed

lemma remove_at_refines:
  assumes "inj_on (log_node_id sha) U" "overlay_ok sha U contents ov" "opt_known sha U t"
    and res: "tree_mutate sha (RemoveAt i e) t = (res, made)" and made: "\<forall>m\<in>set made. body_of sha m \<in> U"
    and live: "live \<Longrightarrow> ready sha load contents ov (opt_subtrees t) n" "length (opt_values t) \<le> n"
  shows "refines sha U contents ov (apply_mutation sha load (RemoveAt i e) (root_of sha t, ov))
    (rbind res (\<lambda>u. Ok (root_of sha u))) (set made) live"
proof (cases "length (opt_values t) \<le> i \<or> opt_values t ! i \<noteq> e")
  case True
  then have "res = Err CConflict" using res by auto
  with get_then_refines [OF assms(1-3) live, where i = i and e = e and k = "\<lambda>ov. rbind (split_around sha load (root_of sha t) i ov)
      (\<lambda>((left, right), ov). concat_roots sha load left right ov)" and T = "set made"] True
  show ?thesis by simp
next
  case False
  then have i: "i < length (opt_values t)" by simp
  obtain l r m1 where sp: "tree_split_around t i = (l, r, m1)" by (cases "tree_split_around t i") auto
  obtain w m2 where cc: "tree_concat l r = (w, m2)" by force
  have r: "res = Ok w" "made = m1 @ m2" using res sp cc False by auto
  have U: "\<forall>m\<in>set m1. body_of sha m \<in> U" "\<forall>m\<in>set m2. body_of sha m \<in> U" using made r by auto
  have rest: "refines sha U contents ov1 (rbind (split_around sha load (root_of sha t) i ov1)
      (\<lambda>((left, right), ov). concat_roots sha load left right ov)) (Ok (root_of sha w)) (set made) live"
    if 1: "overlay_ok sha U contents ov1" "overlay_le contents ov ov1" for ov1
  proof -
    note k = split_around_refines [where live = live, OF assms(1) 1(1) assms(3) i sp U(1) ready_le [OF live(1) 1(2)] live(2)]
    have "refines sha U contents ov2 (concat_roots sha load (root_of sha l) (root_of sha r) ov2)
        (Ok (root_of sha w)) (set m2) live"
      if 2: "overlay_ok sha U contents ov2" "overlay_le contents ov1 ov2" "created sha ov2 (set m1)" for ov2
    proof (rule concat_roots_refines [OF assms(1) 2(1) k(2,3) cc U(2), where n = n])
      show "ready sha load contents ov2 (opt_subtrees l \<union> opt_subtrees r) n" if l: live
        by (rule ready_step [OF ready_le [OF live(1) [OF l] 1(2)] 2(2,3)]) (use k(5) in auto)
    qed (use k(4) live(2) in auto)
    then show ?thesis using r by (auto intro!: refines_bind [OF k(1), where B = "set m2"])
  qed
  from get_then_refines [where i = i and e = e, OF assms(1-3) live rest] False r show ?thesis by simp
qed

lemma replace_prefix_refines:
  assumes "inj_on (log_node_id sha) U" "overlay_ok sha U contents ov" "opt_known sha U t"
    and vs: "valid_values vs"
    and res: "tree_mutate sha (ReplacePrefix i e vs) t = (res, made)" and made: "\<forall>m\<in>set made. body_of sha m \<in> U"
    and live: "live \<Longrightarrow> ready sha load contents ov (opt_subtrees t) n" "length (opt_values t) + length vs \<le> n"
  shows "refines sha U contents ov (apply_mutation sha load (ReplacePrefix i e vs) (root_of sha t, ov))
    (rbind res (\<lambda>u. Ok (root_of sha u))) (set made) live"
proof (cases "length (opt_values t) < i")
  case True
  then show ?thesis using res by auto
next
  case False
  obtain p s m1 where sp: "tree_split_root t i = (p, s, m1)" by (cases "tree_split_root t i") auto
  obtain q m2 where ap: "tree_append None vs = (q, m2)" by force
  obtain u m3 where cc: "tree_concat q s = (u, m3)" by force
  have r: "res = (if root_of sha p \<noteq> e \<or> root_of sha q = root_of sha p then Err CConflict else Ok u)"
    "made = m1 @ m2 @ m3" using res sp ap cc False by auto
  have U: "\<forall>m\<in>set m1. body_of sha m \<in> U" "\<forall>m\<in>set m2. body_of sha m \<in> U" "\<forall>m\<in>set m3. body_of sha m \<in> U"
    using made r by auto
  have i: "i \<le> length (opt_values t)" using False by simp
  note k = split_root_known [OF assms(3) i sp U(1)]
  have yq: "yields vs (length vs) {} (q, m2)" using yields_append [of None vs "length vs"] vs ap by simp
  have q: "opt_known sha U q" "opt_values q = vs" "opt_subtrees q \<subseteq> set m2"
    using yq U(2) by (auto simp: yields_def intro!: opt_known_from [where old = "{}" and made = m2])
  have split: "refines sha U contents ov (split_root sha load (root_of sha t) i ov)
      (Ok (root_of sha p, root_of sha s)) (set m1) live"
    using live(2) by (intro split_root_refines [OF assms(1-3) i sp U(1) live(1)]) auto
  have append: "refines sha U contents ov1 (append_values sha load (log_root_empty sha) vs ov1)
      (Ok (root_of sha q)) (set m2) live"
    if 1: "overlay_ok sha U contents ov1" "overlay_le contents ov ov1" for ov1
    using append_values_refines [OF assms(1) 1(1) _ vs ap U(2), where n = n and live = live] live(2)
      ready_step [OF live(1) 1(2), where A = "{}" and T' = "{}"]
    by (simp add: root_of_def created_def)
  have concat: "refines sha U contents ov2 (concat_roots sha load (root_of sha q) (root_of sha s) ov2)
      (Ok (root_of sha u)) (set m3) live"
    if 2: "overlay_ok sha U contents ov2" "overlay_le contents ov ov2"
      "created sha ov2 (set m1 \<union> set m2)" for ov2
  proof (rule concat_roots_refines [OF assms(1) 2(1) q(1) k(2) cc U(3), where n = n])
    show "ready sha load contents ov2 (opt_subtrees q \<union> opt_subtrees s) n" if l: live
      by (rule ready_step [OF live(1) [OF l] 2(2,3)]) (use k(5) q(3) in auto)
  qed (use k(4) q(2) live(2) in auto)
  have "refines sha U contents ov1 (if root_of sha p \<noteq> e then Err CConflict else
      rbind (append_values sha load (log_root_empty sha) vs ov1) (\<lambda>(replacement_root, ov).
      if replacement_root = root_of sha p then Err CConflict else concat_roots sha load replacement_root (root_of sha s) ov))
      (rbind res (\<lambda>u. Ok (root_of sha u))) (set m2 \<union> set m3) live"
    if 1: "overlay_ok sha U contents ov1" "overlay_le contents ov ov1" "created sha ov1 (set m1)" for ov1
    using r(1) 1 created_mono [OF 1(3)] overlay_le_trans [OF 1(2)] concat
    by (auto intro!: refines_bind [OF append [OF 1(1,2)], where B = "set m3"])
  then show ?thesis using False r(2) by (auto intro!: refines_bind [OF split, where B = "set m2 \<union> set m3"])
qed

lemma mutation_refines:
  assumes "inj_on (log_node_id sha) U" "overlay_ok sha U contents ov" "opt_known sha U t"
    and "valid_values (mutation_values m)" "tree_mutate sha m t = (res, made)" "\<forall>s\<in>set made. body_of sha s \<in> U"
    and "live \<Longrightarrow> ready sha load contents ov (opt_subtrees t) n" "length (opt_values t) + added m \<le> n"
  shows "refines sha U contents ov (apply_mutation sha load m (root_of sha t, ov))
    (rbind res (\<lambda>u. Ok (root_of sha u))) (set made) live"
proof (cases m)
  case (Append vs)
  then obtain u where "tree_append t vs = (u, made)" "res = Ok u" using assms(5) by (auto split: prod.splits)
  with append_values_refines [OF assms(1-3) _ _ assms(6,7)] Append assms(4,8) show ?thesis by simp
next
  case (InsertAt i v)
  with insert_at_refines [OF assms(1-3) _ _ assms(6,7)] assms(4,5,8) show ?thesis by simp
next
  case (ReplaceAt i e v)
  with replace_at_refines [OF assms(1-3) _ _ assms(6,7)] assms(4,5,8) show ?thesis by simp
next
  case (ReplacePrefix i e vs)
  with replace_prefix_refines [OF assms(1-3) _ _ assms(6,7)] assms(4,5,8) show ?thesis by simp
next
  case (RemoveAt i e)
  with remove_at_refines [OF assms(1-3) _ assms(6,7)] assms(5,8) show ?thesis by simp
qed

text \<open>The ordered batch: the total of what is added bounds every intermediate length.\<close>

lemma mutations_refines:
  assumes "inj_on (log_node_id sha) U" "overlay_ok sha U contents ov" "opt_known sha U t"
    and "list_all (\<lambda>m. valid_values (mutation_values m)) ms"
    and "tree_mutations sha ms t = (res, made)" "\<forall>s\<in>set made. body_of sha s \<in> U"
    and "live \<Longrightarrow> ready sha load contents ov (opt_subtrees t) n"
    and "length (opt_values t) + sum_list (map added ms) \<le> n"
  shows "refines sha U contents ov (rfold (apply_mutation sha load) ms (root_of sha t, ov))
    (rbind res (\<lambda>u. Ok (root_of sha u))) (set made) live"
  using assms(2-)
proof (induction ms arbitrary: t ov res made)
  case Nil
  then show ?case by (auto intro!: refines_Ok)
next
  case (Cons m ms)
  obtain r1 m1 where one: "tree_mutate sha m t = (r1, m1)" by force
  have U: "\<forall>s\<in>set m1. body_of sha s \<in> U" using Cons.prems(4,5) one by (auto split: sum.splits prod.splits)
  have step: "refines sha U contents ov (apply_mutation sha load m (root_of sha t, ov))
      (rbind r1 (\<lambda>u. Ok (root_of sha u))) (set m1) live"
    using Cons.prems(3,7) by (intro mutation_refines [OF assms(1) Cons.prems(1,2) _ one U Cons.prems(6)]) auto
  show ?case
  proof (cases r1)
    case (Inl e)
    then have "res = Err e" using Cons.prems(4) one by simp
    with step Inl show ?thesis by (auto simp: refines_def rbind_def split: sum.splits)
  next
    case (Inr u)
    obtain m2 where two: "tree_mutations sha ms u = (res, m2)" "made = m1 @ m2"
      using Cons.prems(4) one Inr by (auto split: prod.splits)
    have y: "list_expects m (opt_values t) \<and>
        yields (list_mutate m (opt_values t)) (length (opt_values t) + added m) (opt_subtrees t) (u, m1)"
      using one Inr Cons.prems(3) by (intro tree_mutate_yields [OF opt_known_avl [OF Cons.prems(2)]]) auto
    then have len: "length (opt_values u) \<le> length (opt_values t) + added m"
      using length_list_mutate by (simp add: yields_def)
    have "\<forall>s\<in>opt_subtrees t. body_of sha s \<in> U" using Cons.prems(2) by (cases t) (auto simp: known_def)
    with y U have ku: "opt_known sha U u" "opt_subtrees u \<subseteq> opt_subtrees t \<union> set m1"
      by (auto simp: yields_def intro!: opt_known_from [where old = "opt_subtrees t" and made = m1])
    have first: "refines sha U contents ov (apply_mutation sha load m (root_of sha t, ov)) (Ok (root_of sha u)) (set m1) live"
      using step Inr by simp
    have "refines sha U contents ov' (rfold (apply_mutation sha load) ms (root_of sha u, ov'))
        (rbind res (\<lambda>u. Ok (root_of sha u))) (set m2) live"
      if 1: "overlay_ok sha U contents ov'" "overlay_le contents ov ov'" "created sha ov' (set m1)" for ov'
    proof (rule Cons.IH [OF 1(1) ku(1) _ two(1)])
      show "ready sha load contents ov' (opt_subtrees u) n" if l: live
        by (rule ready_step [OF Cons.prems(6) [OF l] 1(2,3)]) (use ku(2) in auto)
    qed (use Cons.prems(3,5,7) two(2) len in auto)
    then show ?thesis using two(2) by (auto intro!: refines_bind [OF first, where B = "set m2"])
  qed
qed

lemma apply_log_internal_refines:
  assumes "inj_on (log_node_id sha) U" "overlay_ok sha U contents ov" "opt_known sha U t"
    and "list_all (\<lambda>m. valid_values (mutation_values m)) ms"
    and res: "tree_mutations sha ms t = (res, made)" and made: "\<forall>s\<in>set made. body_of sha s \<in> U"
    and live: "live \<Longrightarrow> ready sha load contents ov (opt_subtrees t) n"
      "length (opt_values t) + sum_list (map added ms) \<le> n"
  shows "refines sha U contents ov (apply_log_internal sha load (root_of sha t) ms ov)
    (rbind res (\<lambda>u. Ok (root_of sha u))) (set made) live"
proof -
  have fold: "refines sha U contents ov (rfold (apply_mutation sha load) ms (root_of sha t, ov))
      (rbind res (\<lambda>u. Ok (root_of sha u))) (set made) live"
    by (rule mutations_refines [OF assms])
  show ?thesis
  proof (cases res)
    case (Inl e)
    with fold show ?thesis by (auto simp: refines_def apply_log_internal_def rbind_def split: sum.splits)
  next
    case (Inr u)
    have ou: "opt_avl u" "length (opt_values u) \<le> n"
      using tree_mutations_values [OF _ assms(4)] tree_mutations_length [OF _ assms(4)] res Inr live(2)
        opt_known_avl [OF assms(3)] by fastforce+
    have "log_root_verify sha (root_of sha u) = Ok ()" if live
      using ready_sized [OF live(1) [OF that]] live(1) [OF that] ou
      by (intro root_verify_tree) (auto simp: ready_def)
    then have "refines sha U contents ov' (rbind (log_root_verify sha (root_of sha u)) (\<lambda>_. Ok (root_of sha u, ov')))
        (Ok (root_of sha u)) {} live" if "overlay_ok sha U contents ov'" for ov'
      using that by (intro refines_pure [where v = "()"]) (auto intro!: refines_Ok)
    then show ?thesis using fold Inr
      by (auto simp: apply_log_internal_def intro!: refines_bind [OF fold [unfolded Inr rbind_Ok], where B = "{}"])
  qed
qed

end

end
