(* ===== verification/Node_Store.thy ===== *)
theory Node_Store
  imports Log_Mutation
begin

text \<open>
  What the resolvers of the two authenticated collections share, over any type of node: the loads
  that change a resolver's state, a recorder that keeps what it has passed on, the index over the
  nodes of a proof, and the byte bound of a proof.
\<close>

section \<open>Loading for the sake of the state\<close>

definition load_all ::
  "(string \<Rightarrow> 'r \<Rightarrow> collection_error + ('n option \<times> 'r)) \<Rightarrow> string list \<Rightarrow> 'r \<Rightarrow> collection_error + 'r" where
  "load_all load = rfold (\<lambda>object_id r. rbind (load object_id r) (\<lambda>(_, r). Ok r))"

lemma load_all_Nil [simp]: "load_all load [] r = Ok r"
  by (simp add: load_all_def)

lemma load_all_Cons [simp]:
  "load_all load (i # is) r = rbind (load i r) (\<lambda>(_, r). load_all load is r)"
  by (simp add: load_all_def rbind_assoc case_prod_unfold)

lemma load_all_append [simp]: "load_all load (is @ js) r = rbind (load_all load is r) (load_all load js)"
  by (induction "is" arbitrary: r) (auto simp: rbind_assoc case_prod_unfold intro!: rbind_cong)

text \<open>A resolver that answers from a source, directly or from what it has recorded of it.\<close>

locale recorder =
  fixes load :: "string \<Rightarrow> 'r \<Rightarrow> collection_error + ('n option \<times> 'r)"
    and recorded :: "'r \<Rightarrow> (string, 'n) fmap" and source :: "'r \<Rightarrow> string \<Rightarrow> 'n option"
  assumes load_source: "load k r = Ok (found, r') \<Longrightarrow> fmlookup (recorded r) \<subseteq>\<^sub>m source r \<Longrightarrow>
      source r' = source r \<and> found = source r k"
    and load_records: "load k r = Ok (found, r') \<Longrightarrow> fmlookup (recorded r) \<subseteq>\<^sub>m source r \<Longrightarrow>
      source r k = Some node \<Longrightarrow> fmlookup (recorded r') = (fmlookup (recorded r))(k \<mapsto> node)"
begin

lemma load_all_records:
  assumes "load_all load ids r = Ok r'" "fmlookup (recorded r) \<subseteq>\<^sub>m source r" "set ids \<subseteq> dom (source r)"
  shows "fset (fmdom (recorded r')) = fset (fmdom (recorded r)) \<union> set ids
    \<and> fmlookup (recorded r') \<subseteq>\<^sub>m source r"
  using assms
proof (induction ids arbitrary: r)
  case (Cons k ids)
  then obtain found r1 where l: "load k r = Ok (found, r1)" "load_all load ids r1 = Ok r'" by auto
  obtain node where node: "source r k = Some node" using Cons.prems(3) by auto
  note s = load_source [OF l(1) Cons.prems(2)] and n = load_records [OF l(1) Cons.prems(2) node]
  have "fset (fmdom (recorded r1)) = insert k (fset (fmdom (recorded r)))" using n by (simp add: fmdom.rep_eq)
  moreover have "fmlookup (recorded r1) \<subseteq>\<^sub>m source r1" using n s Cons.prems(2) node by (auto simp: map_le_def)
  ultimately show ?case using Cons.IH [OF l(2)] s Cons.prems(3) by simp
qed simp

end

section \<open>Indexing the nodes of a proof\<close>

locale node_index =
  fixes step :: "'n \<Rightarrow> (string, 'n) fmap \<Rightarrow> collection_error + (string, 'n) fmap"
    and ident :: "'n \<Rightarrow> string" and verified :: "'n \<Rightarrow> bool"
  assumes step_iff: "step node m = Ok m' \<longleftrightarrow>
    verified node \<and> fmlookup m (ident node) = None \<and> m' = fmupd (ident node) node m"
begin

lemma index_sound:
  assumes "rfold step nodes m = Ok m'" "fmlookup m' k = Some node"
  shows "fmlookup m k = Some node \<or> node \<in> set nodes \<and> verified node \<and> ident node = k"
  using assms
proof (induction nodes arbitrary: m)
  case (Cons n nodes)
  then obtain m1 where m1: "step n m = Ok m1" "rfold step nodes m1 = Ok m'" by auto
  from m1(1) have n: "verified n" "fmlookup m (ident n) = None" "m1 = fmupd (ident n) n m" by (simp_all add: step_iff)
  from Cons.IH [OF m1(2) Cons.prems(2)] n show ?case by (auto split: if_splits)
qed simp

lemma index_entries:
  assumes "\<forall>(k, node)\<in>set kvs. ident node = k \<and> verified node"
    and "distinct (map fst kvs)" "\<forall>k\<in>fst ` set kvs. fmlookup m k = None"
  shows "\<exists>m'. rfold step (map snd kvs) m = Ok m' \<and> (\<forall>j. fmlookup m' j = (fmlookup m ++ map_of kvs) j)"
  using assms
proof (induction kvs arbitrary: m)
  case Nil
  then show ?case by simp
next
  case (Cons kv kvs)
  obtain k node where kv: "kv = (k, node)" by (cases kv)
  have free: "\<forall>j\<in>fst ` set kvs. fmlookup (fmupd k node m) j = None" using Cons.prems kv by (auto simp: image_iff)
  then obtain m' where m': "rfold step (map snd kvs) (fmupd k node m) = Ok m'"
    "\<forall>j. fmlookup m' j = (fmlookup (fmupd k node m) ++ map_of kvs) j"
    using Cons.IH [of "fmupd k node m"] Cons.prems kv by fastforce
  have "map_of kvs k = None" "fmlookup m k = None" using Cons.prems kv by (auto simp: map_of_eq_None_iff)
  then have "\<forall>j. (fmlookup (fmupd k node m) ++ map_of kvs) j = (fmlookup m ++ map_of (kv # kvs)) j"
    using kv by (auto simp: map_add_def split: option.splits)
  moreover have "step node m = Ok (fmupd k node m)" using Cons.prems kv by (simp add: step_iff)
  ultimately show ?case using m' kv by (simp add: map_add_def)
qed

text \<open>Indexing the nodes of an index gives it back.\<close>

lemma index_values:
  assumes "\<forall>k node. fmlookup m k = Some node \<longrightarrow> ident node = k \<and> verified node"
  shows "rfold step (values_of m) fmempty = Ok m"
proof -
  have "\<forall>(k, node)\<in>set (entries_of m). ident node = k \<and> verified node" using assms by auto
  from index_entries [OF this distinct_keys_entries_of, of fmempty] obtain m' where
    "rfold step (values_of m) fmempty = Ok m'" "\<forall>j. fmlookup m' j = (fmlookup fmempty ++ fmlookup m) j" by auto
  moreover have "(fmlookup fmempty ++ fmlookup m) j = fmlookup m j" for j by (simp add: map_add_def split: option.split)
  ultimately show ?thesis using fmap_ext [of m' m] by simp
qed

end

section \<open>The bytes of a proof\<close>

lemma checked_sum_Ok:
  assumes "start + sum_list ns < 2 ^ 64"
  shows "checked_sum start ns = Ok (start + sum_list ns)"
  using assms
proof (induction ns arbitrary: start)
  case (Cons n ns)
  then show ?case by (simp add: checked_sum_def checked_add_def add.assoc)
qed (simp add: checked_sum_def)

lemma proof_bytes_fold:
  assumes "\<forall>node\<in>set nodes. \<exists>b. bytes_of node = Ok b \<and> b \<le> most node"
    and "bytes + sum_list (map most nodes) \<le> MAX_PROOF_BYTES"
  shows "\<exists>total_bytes. rfold (\<lambda>node bytes. rbind (bytes_of node) (bounded_add MAX_PROOF_BYTES bytes)) nodes bytes
    = Ok total_bytes"
  using assms
proof (induction nodes arbitrary: bytes)
  case (Cons node nodes)
  then obtain b where b: "bytes_of node = Ok b" "b \<le> most node" by auto
  then have "bytes + b \<le> MAX_PROOF_BYTES" using Cons.prems(2) by simp
  moreover from this have "bytes + b < 2 ^ 64" by (simp add: MAX_PROOF_BYTES_def)
  ultimately have "bounded_add MAX_PROOF_BYTES bytes b = Ok (bytes + b)"
    by (simp add: bounded_add_def checked_add_def)
  with b Cons.IH [of "bytes + b"] Cons.prems show ?case by simp
qed simp

lemma length_values_of: "length (values_of m) = card (fset (fmdom m))"
  by (simp add: sorted_list_of_fmap_def sorted_list_of_fset.rep_eq)

end
