(* ===== verification/Log_Read.thy ===== *)
theory Log_Read
  imports Log_Apply Log_Refine_Batch Node_Store
begin

text \<open>
  Exact reads. The resolvers of the crate keep the resolver contract; a read over any resolver
  that succeeds gives the value of the tree the root names, and over one that holds the tree it
  succeeds and loads exactly the nodes on the path.
\<close>

section \<open>The resolvers keep the contract\<close>

interpretation proof_resolver: live_log_resolver proof_load "\<lambda>r. fmlookup (pr_nodes r)"
  by unfold_locales (auto simp: proof_load_def split: option.splits)

interpretation apply_proof_resolver: live_log_resolver apply_proof_load "\<lambda>r. fmlookup (ap_nodes r)"
  by unfold_locales (auto simp: apply_proof_load_def)

definition recording_contents ::
  "('r \<Rightarrow> string \<Rightarrow> log_node option) \<Rightarrow> 'r recording_log_resolver \<Rightarrow> string \<Rightarrow> log_node option" where
  "recording_contents contents r = contents (rc_inner r) ++ fmlookup (rc_nodes r)"

lemma recording_resolver:
  assumes "log_resolver load contents"
  shows "log_resolver (recording_load load) (recording_contents contents)"
proof
  fix object_id found and r r' :: "'a recording_log_resolver"
  assume "recording_load load object_id r = Ok (found, r')"
  note step = this
  show "found = recording_contents contents r object_id
      \<and> recording_contents contents r' = recording_contents contents r"
  proof (cases "fmlookup (rc_nodes r) object_id")
    case None
    with step obtain inner where l: "load object_id (rc_inner r) = Ok (found, inner)"
      and r': "r' = r\<lparr>rc_inner := inner, rc_nodes :=
        (case found of None \<Rightarrow> rc_nodes r | Some node \<Rightarrow> fmupd object_id node (rc_nodes r))\<rparr>"
      by (auto simp: recording_load_def)
    note a = log_resolver.load_answers [OF assms l]
    then show ?thesis using None r'
      by (auto simp: recording_contents_def map_add_def fun_eq_iff split: option.split)
  next
    case (Some node)
    with step have "found = Some node" "r' = r" by (simp_all add: recording_load_def)
    with Some show ?thesis by (simp add: recording_contents_def map_add_def)
  qed
qed

interpretation recording_apply_resolver:
  log_resolver "recording_load apply_proof_load" "recording_contents (\<lambda>r. fmlookup (ap_nodes r))"
  by (rule recording_resolver) unfold_locales

section \<open>The path of a read\<close>

fun tree_path :: "log_tree \<Rightarrow> nat \<Rightarrow> log_tree list" where
  "tree_path (Tip vs) i = [Tip vs]"
| "tree_path (Fork l r) i = Fork l r #
     (if i < length (tvals l) then tree_path l i else tree_path r (i - length (tvals l)))"

lemma tree_path_subtrees: "set (tree_path t i) \<subseteq> subtrees t"
  by (induction t arbitrary: i) auto

lemma length_tree_path: "length (tree_path t i) \<le> ht t"
  by (induction t arbitrary: i) (auto simp: le_max_iff_disj)

definition holds ::
  "(string \<Rightarrow> string) \<Rightarrow> (string \<Rightarrow> log_node option) \<Rightarrow> log_tree set \<Rightarrow> bool" where
  "holds sha held T \<longleftrightarrow> (\<forall>s\<in>T. held (tree_id sha s) = Some (node_of sha s))"

context log_resolver
begin

lemma load_resolved_sound:
  assumes "inj_on (log_node_id sha) U" "held_ok sha U (contents r)" "body_of sha t \<in> U"
    and "load_resolved_log_node sha load (ref_of sha t) r = Ok (node, r')"
  shows "node = node_of sha t" "contents r' = contents r" "load (tree_id sha t) r = Ok (Some node, r')"
proof -
  show got: "load (tree_id sha t) r = Ok (Some node, r')"
    and "node = node_of sha t"
  proof -
    from assms(4) have l: "load (tree_id sha t) r = Ok (Some node, r')" "log_node_verify sha node = Ok ()"
      "ln_object_id node = tree_id sha t"
      by (fastforce simp: load_resolved_log_node_def split: if_splits)+
    then show "load (tree_id sha t) r = Ok (Some node, r')" by simp
    have "ln_body node \<in> U" using load_answers [OF l(1)] l(2) assms(2) by (auto simp: held_ok_def)
    with verified_entry [OF l(2)] l(3) entry_ok_tree [OF _ assms(1,3)] show "node = node_of sha t" by metis
  qed
  show "contents r' = contents r" using load_answers [OF got] by simp
qed

lemma load_resolved_live:
  assumes "sha_ok sha" "contents r (tree_id sha t) = Some (node_of sha t)" "avl t" "sized t"
    and "\<And>object_id r. \<exists>y. load object_id r = Ok y"
  obtains r' where "load_resolved_log_node sha load (ref_of sha t) r = Ok (node_of sha t, r')"
    and "load (tree_id sha t) r = Ok (Some (node_of sha t), r')" and "contents r' = contents r"
proof -
  obtain found r' where l: "load (tree_id sha t) r = Ok (found, r')" using assms(5) by (metis prod.collapse)
  with load_answers [OF l] assms(2) have f: "found = Some (node_of sha t)" "contents r' = contents r" by simp_all
  have "load_resolved_log_node sha load (ref_of sha t) r = Ok (node_of sha t, r')"
    using l f node_verify_tree [OF assms(1,3,4)] body_value_count_sized [OF assms(4)] body_height_sized [OF assms(4)]
    by (simp add: load_resolved_log_node_def value_count_def node_height_def)
  with l f that show thesis by blast
qed

lemma get_from_sound:
  assumes "inj_on (log_node_id sha) U" "held_ok sha U (contents r)" "known sha U t"
    and "get_log_value_from sha load fuel (ref_of sha t) i r = Ok (v, r')"
  shows "i < length (tvals t) \<and> v = tvals t ! i"
  using assms(2-)
proof (induction t arbitrary: i r fuel)
  case (Tip vs)
  obtain n node r1 where n: "fuel = Suc n" "load_resolved_log_node sha load (ref_of sha (Tip vs)) r = Ok (node, r1)"
    using Tip(3) by (cases fuel) auto
  have "node = node_of sha (Tip vs)"
    using load_resolved_sound [OF assms(1) Tip(1) _ n(2)] Tip(2) by (simp add: known_def)
  then show ?case using n Tip(3) by (simp split: if_splits)
next
  case (Fork l r0)
  obtain n node r1 where n: "fuel = Suc n" "load_resolved_log_node sha load (ref_of sha (Fork l r0)) r = Ok (node, r1)"
    using Fork.prems(3) by (cases fuel) auto
  have s: "node = node_of sha (Fork l r0)" "contents r1 = contents r"
    using load_resolved_sound [OF assms(1) Fork.prems(1) _ n(2)] Fork.prems(2) by (auto simp: known_def)
  have k: "known sha U l" "known sha U r0" using Fork.prems(2) by (auto simp: known_def)
  show ?case
  proof (cases "i < length (tvals l)")
    case True
    then show ?thesis using Fork.IH(1) [of r1 n i] Fork.prems(1,3) n s k by (simp add: nth_append)
  next
    case False
    then show ?thesis using Fork.IH(2) [of r1 n "i - length (tvals l)"] Fork.prems(1,3) n s k
      by (auto simp: nth_append checked_sub_def)
  qed
qed

lemma get_from_live:
  assumes "sha_ok sha" "holds sha (contents r) (set (tree_path t i))" "avl t" "sized t" "i < length (tvals t)"
    and "ht t \<le> fuel" "\<And>object_id r. \<exists>y. load object_id r = Ok y"
  shows "\<exists>r'. get_log_value_from sha load fuel (ref_of sha t) i r = Ok (tvals t ! i, r')
    \<and> load_all load (map (tree_id sha) (tree_path t i)) r = Ok r' \<and> contents r' = contents r"
  using assms(2-6)
proof (induction t arbitrary: i r fuel)
  case (Tip vs)
  then obtain n where n: "fuel = Suc n" by (cases fuel) auto
  have "contents r (tree_id sha (Tip vs)) = Some (node_of sha (Tip vs))" using Tip(1) by (simp add: holds_def)
  from load_resolved_live [OF assms(1) this Tip(2,3) assms(7)] obtain r1
    where "load_resolved_log_node sha load (ref_of sha (Tip vs)) r = Ok (node_of sha (Tip vs), r1)"
      "load (tree_id sha (Tip vs)) r = Ok (Some (node_of sha (Tip vs)), r1)" "contents r1 = contents r" .
  then show ?case using Tip(4) n by simp
next
  case (Fork l r0)
  then obtain n where n: "fuel = Suc n" by (cases fuel) auto
  have "contents r (tree_id sha (Fork l r0)) = Some (node_of sha (Fork l r0))"
    using Fork.prems(1) by (simp add: holds_def)
  from load_resolved_live [OF assms(1) this Fork.prems(2,3) assms(7)] obtain r1
    where r1: "load_resolved_log_node sha load (ref_of sha (Fork l r0)) r = Ok (node_of sha (Fork l r0), r1)"
      "load (tree_id sha (Fork l r0)) r = Ok (Some (node_of sha (Fork l r0)), r1)" "contents r1 = contents r" .
  note s = sized_Fork [OF Fork.prems(3)]
  show ?case
  proof (cases "i < length (tvals l)")
    case True
    have "holds sha (contents r1) (set (tree_path l i))" using Fork.prems(1) r1(3) True by (simp add: holds_def)
    with Fork.IH(1) [of r1 i n] True Fork.prems(2,5) n s obtain r2
      where "get_log_value_from sha load n (ref_of sha l) i r1 = Ok (tvals l ! i, r2)"
        "load_all load (map (tree_id sha) (tree_path l i)) r1 = Ok r2" "contents r2 = contents r1" by auto
    with True n r1 show ?thesis by (simp add: nth_append)
  next
    case False
    let ?j = "i - length (tvals l)"
    have "holds sha (contents r1) (set (tree_path r0 ?j))" "?j < length (tvals r0)"
      using Fork.prems(1,4) r1(3) False by (auto simp: holds_def)
    with Fork.IH(2) [of r1 ?j n] Fork.prems(2,5) n s obtain r2
      where "get_log_value_from sha load n (ref_of sha r0) ?j r1 = Ok (tvals r0 ! ?j, r2)"
        "load_all load (map (tree_id sha) (tree_path r0 ?j)) r1 = Ok r2" "contents r2 = contents r1" by auto
    with False n r1 show ?thesis by (simp add: nth_append checked_sub_def)
  qed
qed

end

end
