(* ===== verification/Log_Exact.thy ===== *)
theory Log_Exact
  imports Log_Read
begin

text \<open>
  Exact proofs: what indexing a proof's nodes gives, that an accepted proof carries the value of
  the committed tree, and that the proof a prover records is one the verifier accepts.
\<close>

section \<open>Indexing the nodes of a proof\<close>

interpretation log_index: node_index "index_proof_node sha duplicate" ln_object_id "\<lambda>node. log_node_verify sha node = Ok ()"
  for sha :: "string \<Rightarrow> string" and duplicate :: string
  by unfold_locales (auto simp: index_proof_node_def)

lemma index_proof_nodes_held:
  assumes "index_proof_nodes sha duplicate nodes maximum = Ok m" "ln_body ` set nodes \<subseteq> U"
  shows "held_ok sha U (fmlookup m)"
proof -
  have "rfold (index_proof_node sha duplicate) nodes fmempty = Ok m"
    using assms(1) by (auto simp: index_proof_nodes_def split: if_splits)
  from log_index.index_sound [OF this] assms(2) show ?thesis by (fastforce simp: held_ok_def)
qed

definition proof_map :: "(string \<Rightarrow> string) \<Rightarrow> (string, log_node) fmap \<Rightarrow> bool" where
  "proof_map sha m \<longleftrightarrow>
     (\<forall>k node. fmlookup m k = Some node \<longrightarrow> ln_object_id node = k \<and> log_node_verify sha node = Ok ())"

section \<open>The bytes of a proof\<close>

text \<open>An upper bound of the logical bytes of one node: its version, its identity and at most
  \<open>LOG_FANOUT\<close> content identities.\<close>

definition NODE_BYTES :: nat where
  "NODE_BYTES = length LOG_NODE_VERSION + 71 + 32 * 71"

lemma NODE_BYTES_eq: "NODE_BYTES = 2374"
  by (simp add: NODE_BYTES_def LOG_NODE_VERSION_def)

lemma sum_content_ids:
  "\<forall>v\<in>set vs. coll_validate_content_id v = Ok () \<Longrightarrow> sum_list (map length vs) = 71 * length vs"
  by (induction vs) (auto dest: content_id_length)

lemma logical_bytes_verified:
  assumes "log_node_verify sha node = Ok ()" "length (ln_object_id node) = 71"
  shows "\<exists>b. logical_bytes node = Ok b \<and> b \<le> NODE_BYTES"
proof (cases "ln_body node")
  case (LogLeaf vs)
  then have vs: "length vs \<le> 32" "\<forall>v\<in>set vs. coll_validate_content_id v = Ok ()"
    using assms(1) by (auto simp: log_node_verify_def log_body_verify_def LOG_FANOUT_def split: if_splits)
  note sum = sum_content_ids [OF vs(2)]
  have "checked_sum 102 (map length vs) = Ok (102 + 71 * length vs)"
    using checked_sum_Ok [of 102 "map length vs"] sum vs(1) by simp
  then show ?thesis using LogLeaf assms vs(1)
    by (auto simp: logical_bytes_def checked_add_def NODE_BYTES_eq log_node_verify_def LOG_NODE_VERSION_def)
next
  case (LogBranch l r)
  then have "length (nr_object_id l) = 71" "length (nr_object_id r) = 71"
    using assms(1) by (auto simp: log_node_verify_def log_body_verify_def log_child_verify_def
        dest!: content_id_length split: if_splits)
  then show ?thesis using LogBranch assms checked_sum_Ok [of 102 "[71, 71, 32]"]
    by (auto simp: logical_bytes_def checked_add_def NODE_BYTES_eq log_node_verify_def LOG_NODE_VERSION_def)
qed

lemma index_proof_nodes_values_of:
  assumes "proof_map sha m" "\<forall>k\<in>fset (fmdom m). length k = 71"
    and "length (values_of m) \<le> maximum" "length (values_of m) * NODE_BYTES \<le> MAX_PROOF_BYTES"
  shows "index_proof_nodes sha duplicate (values_of m) maximum = Ok m"
proof -
  have "\<exists>b. logical_bytes node = Ok b \<and> b \<le> NODE_BYTES" if "fmlookup m k = Some node" for k node
    using logical_bytes_verified [of sha node] assms(1,2) that
    by (metis proof_map_def fmdomI)
  then obtain tb where "rfold (\<lambda>node bytes. rbind (logical_bytes node) (bounded_add MAX_PROOF_BYTES bytes))
      (values_of m) 0 = Ok tb"
    using proof_bytes_fold [of "values_of m" logical_bytes "\<lambda>_. NODE_BYTES" 0] assms(4) by (auto simp: sum_list_triv comp_def)
  then show ?thesis using assms(3) log_index.index_values [OF assms(1) [unfolded proof_map_def]]
    by (simp add: index_proof_nodes_def verify_log_proof_bytes_def)
qed

section \<open>Accepted exact proofs\<close>

lemma verify_log_exact_known:
  assumes "inj_on (log_node_id sha) U" "known sha U t" "ln_body ` set (xp_nodes prf) \<subseteq> U"
    and "verify_log_exact sha (root_of sha (Some t)) i prf = Ok read"
  shows "i < length (tvals t) \<and> read = \<lparr>vr_root = root_of sha (Some t), vr_index = i, vr_value = tvals t ! i\<rparr>"
proof -
  from assms(4) obtain indexed v r where
    new: "index_proof_nodes sha ''log_proof_duplicate_node'' (xp_nodes prf) MAX_LOG_HEIGHT = Ok indexed"
    and get: "get_log_value sha proof_load (root_of sha (Some t)) i \<lparr>pr_nodes = indexed, pr_used = {||}\<rparr> = Ok (v, r)"
    and read: "read = \<lparr>vr_root = root_of sha (Some t), vr_index = i, vr_value = v\<rparr>"
    by (auto simp: verify_log_exact_def proof_new_def split: if_splits)
  have held: "held_ok sha U (fmlookup (pr_nodes \<lparr>pr_nodes = indexed, pr_used = {||}\<rparr>))"
    using index_proof_nodes_held [OF new assms(3)] by simp
  from get have "get_log_value_from sha proof_load (Suc MAX_LOG_HEIGHT) (ref_of sha t) i
      \<lparr>pr_nodes = indexed, pr_used = {||}\<rparr> = Ok (v, r)"
    by (auto simp: get_log_value_def simp del: get_log_value_from.simps dest!: root_ref_sound)
  from proof_resolver.get_from_sound [OF assms(1) held assms(2) this] show ?thesis using read by simp
qed

section \<open>Recorded proofs are accepted\<close>

sublocale log_resolver \<subseteq> recorded: recorder "recording_load load" rc_nodes "\<lambda>r. contents (rc_inner r)"
proof
  fix k found node and r r' :: "'r recording_log_resolver"
  assume run: "recording_load load k r = Ok (found, r')" and le: "fmlookup (rc_nodes r) \<subseteq>\<^sub>m contents (rc_inner r)"
  have both: "contents (rc_inner r') = contents (rc_inner r) \<and> found = contents (rc_inner r) k
    \<and> (\<forall>node. found = Some node \<longrightarrow> fmlookup (rc_nodes r') = (fmlookup (rc_nodes r))(k \<mapsto> node))"
  proof (cases "fmlookup (rc_nodes r) k")
    case None
    with run obtain inner where i: "load k (rc_inner r) = Ok (found, inner)"
      and r': "r' = r\<lparr>rc_inner := inner, rc_nodes :=
        (case found of None \<Rightarrow> rc_nodes r | Some node \<Rightarrow> fmupd k node (rc_nodes r))\<rparr>"
      by (auto simp: recording_load_def)
    with load_answers [OF i] show ?thesis by (auto simp: fun_eq_iff)
  next
    case (Some node)
    with run have "found = Some node" "r' = r" by (simp_all add: recording_load_def)
    moreover have "contents (rc_inner r) k = Some node" using le Some by (auto simp: map_le_def dom_def)
    ultimately show ?thesis using Some by (simp add: fun_upd_idem)
  qed
  then show "contents (rc_inner r') = contents (rc_inner r) \<and> found = contents (rc_inner r) k" by blast
  show "fmlookup (rc_nodes r') = (fmlookup (rc_nodes r))(k \<mapsto> node)" if "contents (rc_inner r) k = Some node"
    using both that by simp
qed

context log_resolver
begin

lemma recorded_loads:
  assumes "load_all (recording_load load) ids (recording_new r) = Ok r'" "set ids \<subseteq> dom (contents r)"
  shows "fset (fmdom (rc_nodes r')) = set ids" "fmlookup (rc_nodes r') \<subseteq>\<^sub>m contents r"
  using recorded.load_all_records [OF assms(1)] assms(2) by (simp_all add: recording_new_def map_le_def)

end

lemma proof_load_all:
  assumes "set ids \<subseteq> fset (fmdom (pr_nodes r))"
  shows "load_all proof_load ids r = Ok (r\<lparr>pr_used := pr_used r |\<union>| fset_of_list ids\<rparr>)"
  using assms
proof (induction ids arbitrary: r)
  case (Cons i ids)
  then obtain node where "fmlookup (pr_nodes r) i = Some node" by (auto simp: fmlookup_dom_iff)
  then show ?case using Cons by (simp add: proof_load_def)
qed simp

lemma recording_live: "(\<And>object_id r. \<exists>y. load object_id r = Ok y) \<Longrightarrow> \<exists>y. recording_load load object_id r = Ok y"
proof -
  assume l: "\<And>object_id r. \<exists>y. load object_id r = Ok y"
  obtain found inner where "load object_id (rc_inner r) = Ok (found, inner)" using l by (metis prod.collapse)
  then show ?thesis by (cases "fmlookup (rc_nodes r) object_id") (auto simp: recording_load_def)
qed

lemma get_log_value_tree:
  assumes "sha_ok sha" "avl t" "sized t"
  shows "get_log_value sha load (root_of sha (Some t)) i r
    = get_log_value_from sha load (Suc MAX_LOG_HEIGHT) (ref_of sha t) i r"
proof -
  have "root_ref sha (root_of sha (Some t)) = Ok (Some (ref_of sha t))"
    using root_verify_tree [of sha "Some t"] assms by (auto simp: root_ref_def root_of_def ref_of_def)
  then show ?thesis by (simp add: get_log_value_def del: get_log_value_from.simps)
qed

lemma sized_subtrees: "sized t \<Longrightarrow> s \<in> subtrees t \<Longrightarrow> sized s"
  by (induction t) (auto dest: sized_Fork)

lemma tree_id_length: "sha_ok sha \<Longrightarrow> length (tree_id sha t) = 71"
  using tree_id_valid content_id_length by blast

text \<open>What the prover records for a path: exactly its nodes.\<close>

lemma prove_log_exact_records:
  assumes "live_log_resolver load contents" "sha_ok sha" "avl t" "sized t"
    and "holds sha (contents r) (subtrees t)" "i < length (tvals t)"
  obtains m where "prove_log_exact sha load (root_of sha (Some t)) i r
      = Ok \<lparr>xp_root = root_of sha (Some t), xp_index = i, xp_nodes = values_of m\<rparr>"
    and "fset (fmdom m) = tree_id sha ` set (tree_path t i)"
    and "\<forall>s\<in>set (tree_path t i). fmlookup m (tree_id sha s) = Some (node_of sha s)"
proof -
  have res: "log_resolver load contents" using assms(1) by (simp add: live_log_resolver_def)
  have total: "\<exists>y. load object_id r = Ok y" for object_id r
    using live_log_resolver.load_live [OF assms(1), of object_id r] by blast
  note rec = recording_resolver [OF res]
  have same: "recording_contents contents (recording_new r) = contents r"
    by (auto simp: recording_contents_def recording_new_def map_add_def)
  have path: "holds sha (contents r) (set (tree_path t i))"
    using assms(5) tree_path_subtrees [of t i] by (auto simp: holds_def)
  have "holds sha (recording_contents contents (recording_new r)) (set (tree_path t i))" using path same by simp
  from log_resolver.get_from_live [OF rec assms(2) this assms(3,4,6), of "Suc MAX_LOG_HEIGHT"] recording_live [OF total]
    assms(4) obtain r' where
    get: "get_log_value_from sha (recording_load load) (Suc MAX_LOG_HEIGHT) (ref_of sha t) i (recording_new r) = Ok (tvals t ! i, r')"
    and all: "load_all (recording_load load) (map (tree_id sha) (tree_path t i)) (recording_new r) = Ok r'"
    by (auto simp: sized_def simp del: get_log_value_from.simps)
  have "set (map (tree_id sha) (tree_path t i)) \<subseteq> dom (contents r)" using path by (auto simp: holds_def)
  note recorded = log_resolver.recorded_loads [OF res all this]
  have dom: "fset (fmdom (rc_nodes r')) = tree_id sha ` set (tree_path t i)"
    using recorded(1) by simp
  have "fmlookup (rc_nodes r') (tree_id sha s) = Some (node_of sha s)" if s: "s \<in> set (tree_path t i)" for s
  proof -
    obtain node where "fmlookup (rc_nodes r') (tree_id sha s) = Some node"
      using dom s by (metis fmdomE image_eqI)
    with recorded(2) path s show ?thesis by (auto simp: holds_def map_le_def dom_def)
  qed
  moreover have "log_root_verify sha (root_of sha (Some t)) = Ok ()"
    using root_verify_tree [of sha "Some t"] assms(2-4) by auto
  then have "prove_log_exact sha load (root_of sha (Some t)) i r
      = Ok \<lparr>xp_root = root_of sha (Some t), xp_index = i, xp_nodes = values_of (rc_nodes r')\<rparr>"
    using get assms(6)
    by (simp add: prove_log_exact_def not_le get_log_value_tree [OF assms(2-4)] del: get_log_value_from.simps)
  ultimately show thesis using that [of "rc_nodes r'"] dom by blast
qed

lemma exact_roundtrip:
  assumes "live_log_resolver load contents" "sha_ok sha" "avl t" "sized t"
    and "holds sha (contents r) (subtrees t)" "i < length (tvals t)"
  shows "\<exists>prf. prove_log_exact sha load (root_of sha (Some t)) i r = Ok prf
    \<and> verify_log_exact sha (root_of sha (Some t)) i prf
      = Ok \<lparr>vr_root = root_of sha (Some t), vr_index = i, vr_value = tvals t ! i\<rparr>"
proof -
  obtain m where m: "prove_log_exact sha load (root_of sha (Some t)) i r
      = Ok \<lparr>xp_root = root_of sha (Some t), xp_index = i, xp_nodes = values_of m\<rparr>"
    "fset (fmdom m) = tree_id sha ` set (tree_path t i)"
    "\<forall>s\<in>set (tree_path t i). fmlookup m (tree_id sha s) = Some (node_of sha s)"
    using prove_log_exact_records [OF assms] .
  let ?p = "tree_path t i"
  have sub: "avl s \<and> sized s" if "s \<in> set ?p" for s
    using tree_path_subtrees [of t i] that sized_subtrees [OF assms(4)] avl_subtrees [OF assms(3)] by blast
  have "proof_map sha m"
    unfolding proof_map_def
  proof (intro allI impI)
    fix k node assume k: "fmlookup m k = Some node"
    then obtain s where s: "s \<in> set ?p" "k = tree_id sha s" using m(2) by (metis fmdomI imageE)
    with m(3) k have "node = node_of sha s" by simp
    with s sub node_verify_tree [OF assms(2)] show "ln_object_id node = k \<and> log_node_verify sha node = Ok ()" by simp
  qed
  moreover have "card (fset (fmdom m)) \<le> length ?p" using m(2) by (metis card_image_le card_length finite_set le_trans)
  then have "length (values_of m) \<le> MAX_LOG_HEIGHT"
    using length_tree_path [of t i] assms(4) length_values_of [of m] by (simp add: sized_def)
  moreover from this have "length (values_of m) * NODE_BYTES \<le> MAX_PROOF_BYTES"
    by (simp add: NODE_BYTES_eq MAX_LOG_HEIGHT_def MAX_PROOF_BYTES_def)
  ultimately have new: "proof_new sha (values_of m) MAX_LOG_HEIGHT = Ok \<lparr>pr_nodes = m, pr_used = {||}\<rparr>"
    using m(2) tree_id_length [OF assms(2)] by (auto simp: proof_new_def intro!: index_proof_nodes_values_of)
  let ?r = "\<lparr>pr_nodes = m, pr_used = {||}\<rparr>"
  have "holds sha (fmlookup (pr_nodes ?r)) (set ?p)" using m(3) by (simp add: holds_def)
  from proof_resolver.get_from_live [OF assms(2) this assms(3,4,6), of "Suc MAX_LOG_HEIGHT"] assms(4)
    proof_resolver.load_live obtain r' where
    get: "get_log_value_from sha proof_load (Suc MAX_LOG_HEIGHT) (ref_of sha t) i ?r = Ok (tvals t ! i, r')"
    and all: "load_all proof_load (map (tree_id sha) ?p) ?r = Ok r'"
    by (auto simp: sized_def simp del: get_log_value_from.simps)
  have "r' = ?r\<lparr>pr_used := fset_of_list (map (tree_id sha) ?p)\<rparr>"
    using all proof_load_all [of "map (tree_id sha) ?p" ?r] m(2) by simp
  moreover have "fset_of_list (map (tree_id sha) ?p) = fmdom m" using m(2) by (auto simp: fset_eq_iff fset_of_list.rep_eq)
  ultimately have "proof_finish r' = Ok ()" by (simp add: proof_finish_def)
  moreover have "log_root_verify sha (root_of sha (Some t)) = Ok ()"
    using root_verify_tree [of sha "Some t"] assms(2-4) by auto
  ultimately show ?thesis using m(1) new get
    by (simp add: verify_log_exact_def get_log_value_tree [OF assms(2-4)] del: get_log_value_from.simps)
qed

end
