(* ===== verification/Log_Range.thy ===== *)
theory Log_Range
  imports Log_Exact
begin

text \<open>
  Bounded ranges. Values are content identities of 71 bytes, so the page that a limit and a byte
  budget allow is a number of values. The walk of the tree accumulates exactly the page, and it
  reports a boundary exactly when a value after the page exists.
\<close>

definition page_size :: "nat \<Rightarrow> nat \<Rightarrow> nat" where
  "page_size limit max_bytes = min limit (max_bytes div 71)"

text \<open>The selection after the values \<open>ws\<close> have been visited from ordinal 0.\<close>

definition page_of :: "nat \<Rightarrow> nat \<Rightarrow> string list \<Rightarrow> log_range_selection" where
  "page_of start n ws = \<lparr>sel_values = take n (drop start ws),
     sel_used_bytes = 71 * length (take n (drop start ws)),
     sel_boundary = (if start + n < length ws then Some (ws ! (start + n)) else None)\<rparr>"

lemma page_of_full: "start + n < length ws \<Longrightarrow> page_of start n (ws @ vs) = page_of start n ws"
  by (simp add: page_of_def nth_append)

lemma page_of_before: "length (ws @ vs) \<le> start \<Longrightarrow> page_of start n (ws @ vs) = page_of start n ws"
  by (simp add: page_of_def)

lemma page_of_boundary [simp]: "sel_boundary (page_of start n ws) = None \<longleftrightarrow> length ws \<le> start + n"
  by (simp add: page_of_def)

lemma visit_leaf_page:
  assumes "list_all (\<lambda>v. coll_validate_content_id v = Ok ()) vs" "length (ws @ vs) \<le> MAX_EXACT_INTEGER"
    and "length ws \<le> start + page_size limit max_bytes" "max_bytes \<le> MAX_PAGE_BYTES"
  shows "visit_leaf start limit max_bytes (length ws) vs (page_of start (page_size limit max_bytes) ws)
    = Ok (page_of start (page_size limit max_bytes) (ws @ vs))"
  using assms(1-3)
proof (induction vs arbitrary: ws)
  case Nil
  then show ?case by simp
next
  case (Cons v vs)
  let ?n = "page_size limit max_bytes"
  have v: "coll_validate_content_id v = Ok ()" "length v = 71"
    using Cons.prems(1) content_id_length by auto
  have small: "length ws < 2 ^ 64" using Cons.prems(2) by (simp add: MAX_EXACT_INTEGER_def)
  have IH: "visit_leaf start limit max_bytes (length ws + 1) vs (page_of start ?n (ws @ [v]))
      = Ok (page_of start ?n (ws @ v # vs))" if "length ws < start + ?n"
    using Cons.IH [of "ws @ [v]"] Cons.prems that by simp
  show ?case
  proof (cases "length ws < start")
    case True
    then have "page_of start ?n (ws @ [v]) = page_of start ?n ws" by (intro page_of_before) simp
    with True IH small show ?thesis by simp
  next
    case False
    let ?k = "length ws - start"
    have k: "length (sel_values (page_of start ?n ws)) = ?k" "sel_used_bytes (page_of start ?n ws) = 71 * ?k"
      using Cons.prems(3) False by (simp_all add: page_of_def)
    have b: "71 * ?k \<le> max_bytes" using Cons.prems(3) by (simp add: page_size_def)
    have add: "checked_add (71 * ?k) 71 = Some (71 * ?k + 71)"
      using b assms(4) by (simp add: checked_add_def MAX_PAGE_BYTES_def)
    have stop: "(?k = limit \<or> max_bytes < 71 * ?k + 71) \<longleftrightarrow> ?k = ?n"
      using Cons.prems(3) by (simp add: page_size_def) linarith
    show ?thesis
    proof (cases "?k = ?n")
      case True
      then have "(page_of start ?n ws)\<lparr>sel_boundary := Some v\<rparr> = page_of start ?n (ws @ v # vs)"
        using False by (auto simp: page_of_def nth_append)
      then show ?thesis using True False small v k add stop by simp
    next
      case noteq: False
      then have lt: "?k < ?n" using Cons.prems(3) by simp
      then have "(page_of start ?n ws)\<lparr>sel_used_bytes := 71 * ?k + 71,
          sel_values := sel_values (page_of start ?n ws) @ [v]\<rparr> = page_of start ?n (ws @ [v])"
        using False by (auto simp: page_of_def)
      then show ?thesis using noteq False small v k add stop IH lt by simp
    qed
  qed
qed

context log_resolver
begin

lemma visit_range_sound:
  assumes "inj_on (log_node_id sha) U" "max_bytes \<le> MAX_PAGE_BYTES"
    and "held_ok sha U (contents r)" "known sha U t" "length (ws @ tvals t) \<le> MAX_EXACT_INTEGER"
    and "visit_log_range sha load (ref_of sha t) (length ws) start limit max_bytes
      (page_of start (page_size limit max_bytes) ws) r = Ok (sel, r')"
  shows "sel = page_of start (page_size limit max_bytes) (ws @ tvals t) \<and> contents r' = contents r"
  using assms(3-)
proof (induction t arbitrary: ws r sel r')
  case (Tip vs)
  let ?n = "page_size limit max_bytes"
  note run = Tip(4) [unfolded visit_log_range.simps [of sha load "ref_of sha (Tip vs)"]]
  show ?case
  proof (cases "start + ?n < length ws \<or> length (ws @ vs) \<le> start")
    case True
    then show ?thesis using run page_of_full [of start ?n ws vs] page_of_before [of ws vs start ?n] Tip(3)
      by (auto simp: range_end_def split: if_splits)
  next
    case False
    with run obtain node r1 where l: "load_resolved_log_node sha load (ref_of sha (Tip vs)) r = Ok (node, r1)"
      by (auto simp: range_end_def split: if_splits)
    have n: "node = node_of sha (Tip vs)" "contents r1 = contents r"
      using load_resolved_sound [OF assms(1) Tip(1) _ l] Tip(2) by (simp_all add: known_def)
    have "visit_leaf start limit max_bytes (length ws) vs (page_of start ?n ws) = Ok (page_of start ?n (ws @ vs))"
      using Tip(2,3) False by (intro visit_leaf_page assms(2)) (simp_all add: known_def)
    then show ?thesis using run l n False by (auto simp: range_end_def split: if_splits)
  qed
next
  case (Fork l r0)
  let ?n = "page_size limit max_bytes"
  note run = Fork.prems(4) [unfolded visit_log_range.simps [of sha load "ref_of sha (Fork l r0)"]]
  show ?case
  proof (cases "start + ?n < length ws \<or> length (ws @ tvals (Fork l r0)) \<le> start")
    case True
    then show ?thesis
      using run page_of_full [of start ?n ws "tvals (Fork l r0)"] page_of_before [of ws "tvals (Fork l r0)" start ?n] Fork.prems(3)
      by (auto simp: range_end_def split: if_splits)
  next
    case False
    with run obtain node r1 where ld: "load_resolved_log_node sha load (ref_of sha (Fork l r0)) r = Ok (node, r1)"
      by (auto simp: range_end_def split: if_splits)
    have n: "node = node_of sha (Fork l r0)" "contents r1 = contents r"
      using load_resolved_sound [OF assms(1) Fork.prems(1) _ ld] Fork.prems(2) by (simp_all add: known_def)
    from run ld n False obtain s1 r2 where one: "visit_log_range sha load (ref_of sha l) (length ws) start limit max_bytes
          (page_of start ?n ws) r1 = Ok (s1, r2)"
      and two: "visit_log_range sha load (ref_of sha r0) (length (ws @ tvals l)) start limit max_bytes s1 r2 = Ok (sel, r')"
      using Fork.prems(3) by (auto simp: range_end_def split: if_splits)
    have k: "known sha U l" "known sha U r0" "length (ws @ tvals l) \<le> MAX_EXACT_INTEGER"
      "length ((ws @ tvals l) @ tvals r0) \<le> MAX_EXACT_INTEGER" "held_ok sha U (contents r1)"
      using Fork.prems(1,2,3) n by (auto simp: known_def)
    have s1: "s1 = page_of start ?n (ws @ tvals l)" "contents r2 = contents r1"
      using Fork.IH(1) [OF k(5,1,3) one] by simp_all
    have "held_ok sha U (contents r2)" using k(5) s1(2) by simp
    from Fork.IH(2) [OF this k(2,4) two [unfolded s1(1)]]
    have "sel = page_of start ?n ((ws @ tvals l) @ tvals r0) \<and> contents r' = contents r2" .
    then show ?thesis using s1(2) n(2) by simp
  qed
qed

end

lemma verify_log_range_known:
  assumes "inj_on (log_node_id sha) U" "opt_known sha U t" "ln_body ` set (rp_nodes prf) \<subseteq> U"
    and run: "verify_log_range sha (root_of sha t) start limit max_bytes prf = Ok got"
  defines "n \<equiv> page_size limit max_bytes"
  shows "got = \<lparr>rg_root = root_of sha t, rg_start = start, rg_values = take n (drop start (opt_values t)),
      rg_next_index = (if start + n < length (opt_values t) then Some (start + n) else None)\<rparr>
    \<and> start \<le> length (opt_values t) \<and> (0 < n \<or> start = length (opt_values t))"
proof -
  from run obtain indexed sel r where
    req: "validate_range_request sha (root_of sha t) start limit max_bytes = Ok ()"
    and new: "index_proof_nodes sha ''log_proof_duplicate_node'' (rp_nodes prf) MAX_LOG_RANGE_PROOF_NODES = Ok indexed"
    and col: "collect_log_range sha proof_load (root_of sha t) start limit max_bytes
      \<lparr>pr_nodes = indexed, pr_used = {||}\<rparr> = Ok (sel, r)"
    and got: "got = \<lparr>rg_root = root_of sha t, rg_start = start, rg_values = sel_values sel,
      rg_next_index = map_option (\<lambda>_. start + length (sel_values sel)) (sel_boundary sel)\<rparr>"
    by (auto simp: verify_log_range_def proof_new_def checked_add_def split: if_splits)
  from req have root: "log_root_verify sha (root_of sha t) = Ok ()" "start \<le> length (opt_values t)"
    "max_bytes \<le> MAX_PAGE_BYTES"
    by (auto simp: validate_range_request_def split: if_splits)
  have len: "length (opt_values t) \<le> MAX_EXACT_INTEGER"
    using root(1) by (auto simp: log_root_verify_def split: if_splits)
  have held: "held_ok sha U (fmlookup (pr_nodes \<lparr>pr_nodes = indexed, pr_used = {||}\<rparr>))"
    using index_proof_nodes_held [OF new assms(3)] by simp
  have nil: "\<lparr>sel_values = [], sel_used_bytes = 0, sel_boundary = None\<rparr> = page_of start n []"
    by (simp add: page_of_def)
  have "sel = page_of start n (opt_values t)"
  proof (cases t)
    case None
    then show ?thesis using col nil by (auto simp: collect_log_range_def dest!: root_ref_sound split: if_splits)
  next
    case (Some u)
    then have "visit_log_range sha proof_load (ref_of sha u) (length ([] :: string list)) start limit max_bytes
        (page_of start (page_size limit max_bytes) []) \<lparr>pr_nodes = indexed, pr_used = {||}\<rparr> = Ok (sel, r)"
      using col nil by (auto simp: collect_log_range_def n_def dest!: root_ref_sound split: if_splits)
    from proof_resolver.visit_range_sound [OF assms(1) root(3) held _ _ this] Some assms(2) len
    show ?thesis by (simp add: n_def)
  qed
  moreover have "\<not> (sel_values sel = [] \<and> sel_boundary sel \<noteq> None)"
    using col by (auto simp: collect_log_range_def split: if_splits)
  ultimately show ?thesis using got root(2) by (auto simp: page_of_def)
qed

end
