(* ===== verification/Log_Commit.thy ===== *)
theory Log_Commit
  imports Log_Range
begin

text \<open>
  Mutation batches, splits and audits end to end. An accepted proof commits to the edited list,
  and the nodes handed to the provider complete the new tree: with them, a store that was closed
  under children holds every node of the result.
\<close>

section \<open>Validated batches\<close>

lemma rcheck_values: "rcheck coll_validate_content_id vs = Ok u \<Longrightarrow> valid_values vs"
  by (auto simp: list_all_iff)

lemma log_mutation_verify_values: "log_mutation_verify sha m = Ok u \<Longrightarrow> valid_values (mutation_values m)"
  by (cases m) (auto simp: list_all_iff split: if_splits)

lemma validate_mutations_values:
  assumes "validate_mutations sha ms = Ok ms'"
  shows "ms' = ms \<and> list_all (\<lambda>m. valid_values (mutation_values m)) ms"
proof -
  from assms obtain acc where run: "rfold (count_mutation sha) ms (0, 0) = Ok acc" and "ms' = ms"
    unfolding validate_mutations_def if_Err_eq_Ok rbind_eq_Ok by blast
  have "list_all (\<lambda>m. valid_values (mutation_values m)) ms"
    by (rule rfold_invariant [OF run, where I = "\<lambda>ys _. list_all (\<lambda>m. valid_values (mutation_values m)) ys"])
      (auto simp: count_mutation_def dest!: log_mutation_verify_values)
  with \<open>ms' = ms\<close> show ?thesis by simp
qed

section \<open>Accepted batch and split proofs\<close>

lemma overlay_new_ok: "held_ok sha U (contents r) \<Longrightarrow> overlay_ok sha U contents (overlay_new r)"
  by (simp add: overlay_ok_def overlay_new_def)

lemma overlay_new_resolver [simp]: "ov_resolver (overlay_new r) = r" "ov_pending (overlay_new r) = fmempty"
  "ov_loaded (overlay_new r) = fmempty"
  by (simp_all add: overlay_new_def)

context log_resolver
begin

lemma apply_log_internal_sound:
  assumes "inj_on (log_node_id sha) U" "held_ok sha U (contents r)" "opt_known sha U t"
    and "validate_mutations sha ms = Ok ms'" "tree_mutations sha ms t = (res, made)" "\<forall>s\<in>set made. body_of sha s \<in> U"
    and "apply_log_internal sha load (root_of sha t) ms (overlay_new r) = Ok (root, ov)"
  obtains u where "res = Ok u" "root = root_of sha u" "overlay_ok sha U contents ov"
    "overlay_le contents (overlay_new r) ov" "created sha ov (set made)"
proof -
  note v = validate_mutations_values [OF assms(4)]
  have "refines sha U contents (overlay_new r) (apply_log_internal sha load (root_of sha t) ms (overlay_new r))
      (rbind res (\<lambda>u. Ok (root_of sha u))) (set made) False"
    using apply_log_internal_refines [OF assms(1) overlay_new_ok [where contents = contents, OF assms(2)]
      assms(3) _ assms(5,6), where live = False] v by blast
  with assms(7) have "rbind res (\<lambda>u. Ok (root_of sha u)) = Ok root" "overlay_ok sha U contents ov"
    "overlay_le contents (overlay_new r) ov" "created sha ov (set made)"
    by (simp_all add: refines_def)
  with that show thesis by auto
qed

end

lemma verify_log_apply_known:
  assumes "inj_on (log_node_id sha) U" "opt_known sha U t" "ln_body ` set (lp_nodes prf) \<subseteq> U"
    and "tree_mutations sha ms t = (res, made)" "\<forall>s\<in>set made. body_of sha s \<in> U"
    and run: "verify_log_apply sha (root_of sha t) ms prf = Ok verified"
  obtains u where "res = Ok u"
    "verified = \<lparr>va_parent = root_of sha t, va_result = root_of sha u, va_mutations = ms,
       va_mutation_digest = mutation_digest sha ms\<rparr>"
    "list_mutations ms (opt_values t) = Some (opt_values u)" "opt_avl u"
proof -
  from run obtain ms' indexed root ov where val: "validate_mutations sha ms = Ok ms'"
    and new: "index_proof_nodes sha ''log_apply_duplicate_node'' (lp_nodes prf)
      (MAX_LOG_HEIGHT * MAX_LOG_VALUES_PER_APPLY * 4) = Ok indexed"
    and int: "apply_log_internal sha apply_proof_load (root_of sha t) ms'
      (overlay_new \<lparr>ap_nodes = indexed, ap_requested = {||}\<rparr>) = Ok (root, ov)"
    and ver: "verified = \<lparr>va_parent = root_of sha t, va_result = root, va_mutations = ms',
       va_mutation_digest = mutation_digest sha ms'\<rparr>"
    by (auto simp: verify_log_apply_def apply_proof_new_def split: if_splits)
  note v = validate_mutations_values [OF val]
  have held: "held_ok sha U (fmlookup (ap_nodes \<lparr>ap_nodes = indexed, ap_requested = {||}\<rparr>))"
    using index_proof_nodes_held [OF new assms(3)] by simp
  from int v have int': "apply_log_internal sha apply_proof_load (root_of sha t) ms
      (overlay_new \<lparr>ap_nodes = indexed, ap_requested = {||}\<rparr>) = Ok (root, ov)" by simp
  obtain u where u: "res = Ok u" "root = root_of sha u"
    using apply_proof_resolver.apply_log_internal_sound [OF assms(1) held assms(2) val assms(4,5) int'] .
  have "list_mutations ms (opt_values t) = Some (opt_values u) \<and> opt_avl u"
    using tree_mutations_values [OF opt_known_avl [OF assms(2)]] v assms(4) u(1) by blast
  with u ver v that show thesis by simp
qed

lemma verify_log_split_known:
  assumes "inj_on (log_node_id sha) U" "opt_known sha U t" "ln_body ` set (sp_nodes prf) \<subseteq> U"
    and "tree_split_root t i = (p, s, made)" "\<forall>m\<in>set made. body_of sha m \<in> U"
    and run: "verify_log_split sha (root_of sha t) i prf = Ok verified"
  shows "verified = \<lparr>vs_parent = root_of sha t, vs_index = i, vs_prefix = root_of sha p, vs_suffix = root_of sha s\<rparr>
    \<and> opt_values p = take i (opt_values t) \<and> opt_values s = drop i (opt_values t) \<and> i \<le> length (opt_values t)"
proof -
  from run obtain indexed px sx ov where i: "i \<le> length (opt_values t)"
    and new: "index_proof_nodes sha ''log_apply_duplicate_node'' (sp_nodes prf) (MAX_LOG_HEIGHT * 4) = Ok indexed"
    and sp: "split_root sha apply_proof_load (root_of sha t) i
      (overlay_new \<lparr>ap_nodes = indexed, ap_requested = {||}\<rparr>) = Ok ((px, sx), ov)"
    and ver: "verified = \<lparr>vs_parent = root_of sha t, vs_index = i, vs_prefix = px, vs_suffix = sx\<rparr>"
    by (auto simp: verify_log_split_def apply_proof_new_def split: if_splits)
  have held: "held_ok sha U (fmlookup (ap_nodes \<lparr>ap_nodes = indexed, ap_requested = {||}\<rparr>))"
    using index_proof_nodes_held [OF new assms(3)] by simp
  have "(px, sx) = (root_of sha p, root_of sha s)"
    using apply_proof_resolver.split_root_refines [OF assms(1) overlay_new_ok [where contents = "\<lambda>r. fmlookup (ap_nodes r)",
      OF held] assms(2) i assms(4,5), where live = False and n = "length (opt_values t)"] sp by (simp add: refines_def)
  then show ?thesis using ver i split_root_known [OF assms(2) i assms(4,5)] by simp
qed

end
