(* ===== verification/Log_Persist.thy ===== *)
theory Log_Persist
  imports Log_Commit
begin

text \<open>
  The nodes a mutation hands to the provider. The walk over pending nodes stops at a node that
  the provider already has, so it relies on the provider's store being closed under children; it
  then returns nodes that complete the result tree, all of them new to the store.
\<close>

definition closed_store ::
  "(string \<Rightarrow> string) \<Rightarrow> log_node_body set \<Rightarrow> (string \<Rightarrow> log_node option) \<Rightarrow> bool" where
  "closed_store sha U held \<longleftrightarrow>
     (\<forall>s. known sha U s \<and> held (tree_id sha s) = Some (node_of sha s) \<longrightarrow> holds sha held (subtrees s))"

fun kids :: "log_tree \<Rightarrow> log_tree list" where
  "kids (Tip _) = []"
| "kids (Fork l r) = [l, r]"

lemma kids_body: "body_of sha s = body_of sha t \<Longrightarrow> map (tree_id sha) (kids s) = map (tree_id sha) (kids t)"
  by (cases s; cases t) (auto simp: ref_of_def)

lemma known_kids: "known sha U s \<Longrightarrow> c \<in> set (kids s) \<Longrightarrow> known sha U c"
  by (cases s) (auto simp: known_def)

lemma known_subtree: "known sha U t \<Longrightarrow> s \<in> subtrees t \<Longrightarrow> known sha U s"
  by (induction t) (auto simp: known_def)

text \<open>The walk's invariant: what has been visited is held with everything below it, or is among
  the new nodes and its children are visited or still on the stack.\<close>

definition walk_ok ::
  "(string \<Rightarrow> string) \<Rightarrow> log_node_body set \<Rightarrow> (string \<Rightarrow> log_node option) \<Rightarrow> log_tree set \<Rightarrow> string set
   \<Rightarrow> string fset \<Rightarrow> (string, log_node) fmap \<Rightarrow> bool" where
  "walk_ok sha U held T todo visited made \<longleftrightarrow>
     (\<forall>s. known sha U s \<and> tree_id sha s |\<in>| visited \<longrightarrow>
        holds sha held (subtrees s)
        \<or> fmlookup made (tree_id sha s) = Some (node_of sha s)
          \<and> tree_id sha ` set (kids s) \<subseteq> fset visited \<union> todo)
     \<and> (\<forall>k node. fmlookup made k = Some node \<longrightarrow>
          held k = None \<and> (\<exists>s\<in>T. k = tree_id sha s \<and> node = node_of sha s))"

lemma walk_ok_skip:
  "walk_ok sha U held T (insert k todo) visited made \<Longrightarrow> k |\<in>| visited \<Longrightarrow> walk_ok sha U held T todo visited made"
  by (auto simp: walk_ok_def)

lemma same_id_body:
  assumes "inj_on (log_node_id sha) U" "known sha U s" "known sha U t" "tree_id sha s = tree_id sha t"
  shows "body_of sha s = body_of sha t" "node_of sha s = node_of sha t"
proof -
  show "body_of sha s = body_of sha t"
    using assms by (auto simp: known_def tree_id_def dest: inj_onD)
  then show "node_of sha s = node_of sha t" by (simp add: node_of_def tree_id_def)
qed

lemma same_id_holds:
  assumes "inj_on (log_node_id sha) U" "known sha U s" "known sha U t" "tree_id sha s = tree_id sha t"
    and "closed_store sha U held" "holds sha held (subtrees t)"
  shows "holds sha held (subtrees s)"
proof -
  have "held (tree_id sha t) = Some (node_of sha t)" using assms(6) by (simp add: holds_def)
  with same_id_body [OF assms(1-4)] assms(2,4,5) show ?thesis by (simp add: closed_store_def)
qed

lemma walk_ok_held:
  assumes "inj_on (log_node_id sha) U" "closed_store sha U held" "known sha U t"
    and "walk_ok sha U held T (insert (tree_id sha t) todo) visited made" "held (tree_id sha t) = Some (node_of sha t)"
  shows "walk_ok sha U held T todo (finsert (tree_id sha t) visited) made"
proof -
  have "holds sha held (subtrees t)" using assms(2,3,5) by (auto simp: closed_store_def)
  then have "holds sha held (subtrees s)" if "known sha U s" "tree_id sha s = tree_id sha t" for s
    using same_id_holds [OF assms(1) that(1) assms(3) that(2) assms(2)] by blast
  then show ?thesis using assms(4) unfolding walk_ok_def by fastforce
qed

lemma walk_ok_made:
  assumes "inj_on (log_node_id sha) U" "known sha U t" "t \<in> T"
    and "walk_ok sha U held T (insert (tree_id sha t) todo) visited made" "held (tree_id sha t) = None"
  shows "walk_ok sha U held T (tree_id sha ` set (kids t) \<union> todo) (finsert (tree_id sha t) visited)
    (fmupd (tree_id sha t) (node_of sha t) made)"
  unfolding walk_ok_def
proof (intro conjI allI impI)
  fix s assume s: "known sha U s \<and> tree_id sha s |\<in>| finsert (tree_id sha t) visited"
  show "holds sha held (subtrees s)
      \<or> fmlookup (fmupd (tree_id sha t) (node_of sha t) made) (tree_id sha s) = Some (node_of sha s)
        \<and> tree_id sha ` set (kids s) \<subseteq> fset (finsert (tree_id sha t) visited) \<union> (tree_id sha ` set (kids t) \<union> todo)"
  proof (cases "tree_id sha s = tree_id sha t")
    case True
    with s same_id_body [OF assms(1) _ assms(2)] kids_body [of sha s t] show ?thesis
      by (metis (no_types, lifting) fmupd_lookup image_set le_supI1 sup.cobounded1 sup_commute)
  next
    case False
    with s assms(4) show ?thesis unfolding walk_ok_def by auto
  qed
qed (use assms(3,4,5) in \<open>auto simp: walk_ok_def split: if_splits\<close>)

lemma walk_finished:
  assumes "walk_ok sha U held T {} visited made" "known sha U s" "tree_id sha s |\<in>| visited"
  shows "holds sha (held ++ fmlookup made) (subtrees s)"
  using assms(2,3)
proof (induction s)
  case (Tip vs)
  with assms(1) show ?case by (auto simp: walk_ok_def holds_def map_add_def split: option.splits)
next
  case (Fork l r)
  show ?case
  proof (cases "holds sha held (subtrees (Fork l r))")
    case True
    with assms(1) show ?thesis unfolding walk_ok_def holds_def map_add_def
      by (metis option.case_eq_if option.distinct(1) option.exhaust_sel)
  next
    case False
    with assms(1) Fork.prems have "fmlookup made (tree_id sha (Fork l r)) = Some (node_of sha (Fork l r))"
      "tree_id sha l |\<in>| visited" "tree_id sha r |\<in>| visited"
      unfolding walk_ok_def by fastforce+
    moreover from this Fork.IH known_kids [OF Fork.prems(1)] have "holds sha (held ++ fmlookup made) (subtrees l)"
      "holds sha (held ++ fmlookup made) (subtrees r)" by simp_all
    ultimately show ?thesis by (auto simp: holds_def)
  qed
qed

section \<open>The walk\<close>

lemma overlay_ok_resolver:
  "overlay_ok sha U contents ov \<Longrightarrow> contents r = contents (ov_resolver ov) \<Longrightarrow>
   overlay_ok sha U contents (ov\<lparr>ov_resolver := r\<rparr>)"
  by (simp add: overlay_ok_def)

lemma stack_weight_kids: "stack_weight (map (ref_of sha) (kids t @ ts)) < stack_weight (map (ref_of sha) (t # ts))"
proof (cases t)
  case (Fork l r)
  then show ?thesis
    using stack_weight_branch [of "ref_of sha t" "ref_of sha l" "ref_of sha r" "map (ref_of sha) ts"] by simp
qed simp

context log_resolver
begin

text \<open>One step of the walk at the reference of a known tree that is pending and not visited.\<close>

lemma collect_created_pending:
  assumes "inj_on (log_node_id sha) U" "overlay_ok sha U contents ov" "known sha U t"
    and "tree_id sha t |\<notin>| visited" "tree_id sha t |\<in>| fmdom (ov_pending ov)"
    and "collect_created sha load (ref_of sha t # stack) visited made ov = Ok res"
  obtains (held) ov1 where "contents (ov_resolver ov) (tree_id sha t) = Some (node_of sha t)"
      "overlay_ok sha U contents ov1" "ov_pending ov1 = ov_pending ov"
      "contents (ov_resolver ov1) = contents (ov_resolver ov)"
      "collect_created sha load stack (finsert (tree_id sha t) visited) made ov1 = Ok res"
  | (fresh) ov1 where "contents (ov_resolver ov) (tree_id sha t) = None"
      "overlay_ok sha U contents ov1" "ov_pending ov1 = ov_pending ov"
      "contents (ov_resolver ov1) = contents (ov_resolver ov)"
      "collect_created sha load (map (ref_of sha) (kids t) @ stack) (finsert (tree_id sha t) visited)
         (fmupd (tree_id sha t) (node_of sha t) made) ov1 = Ok res"
proof -
  have u: "body_of sha t \<in> U" using assms(3) by (auto simp: known_def)
  from assms(5) obtain node where p: "fmlookup (ov_pending ov) (tree_id sha t) = Some node" by (auto elim: fmdomE)
  with assms(2) entry_ok_tree [OF _ assms(1) u] have n: "node = node_of sha t" by (auto simp: overlay_ok_def)
  note run = assms(6) [unfolded collect_created.simps(2) [of sha load "ref_of sha t" stack visited made ov]]
  show thesis
  proof (cases "fmlookup (ov_loaded ov) (tree_id sha t)")
    case (Some loaded)
    with assms(2) have "entry_ok sha U (tree_id sha t) loaded" "contents (ov_resolver ov) (tree_id sha t) = Some loaded"
      by (auto simp: overlay_ok_def)
    moreover from this(1) have "loaded = node_of sha t" using entry_ok_tree [OF _ assms(1) u] by blast
    moreover have "collect_created sha load stack (finsert (tree_id sha t) visited) made ov = Ok res"
      using assms(4) run p n Some by (simp add: Let_def)
    ultimately show thesis using held [of ov] assms(2) by simp
  next
    case None
    with run p n assms(4) obtain found r1 where l: "load (tree_id sha t) (ov_resolver ov) = Ok (found, r1)"
      by (auto simp: Let_def)
    have a: "found = contents (ov_resolver ov) (tree_id sha t)" "contents r1 = contents (ov_resolver ov)"
      using load_answers [OF l] by simp_all
    note ok = overlay_ok_resolver [OF assms(2) a(2)]
    show thesis
    proof (cases found)
      case s: (Some existing)
      with run p n None assms(4) l have "existing = node_of sha t"
        "collect_created sha load stack (finsert (tree_id sha t) visited) made (ov\<lparr>ov_resolver := r1\<rparr>) = Ok res"
        by (auto simp: Let_def split: if_splits)
      with s a ok held [of "ov\<lparr>ov_resolver := r1\<rparr>"] show thesis by simp
    next
      case s: None
      with run p n None assms(4) l
      have "collect_created sha load (map (ref_of sha) (kids t) @ stack) (finsert (tree_id sha t) visited)
         (fmupd (tree_id sha t) (node_of sha t) made) (ov\<lparr>ov_resolver := r1\<rparr>) = Ok res"
        by (cases t) (auto simp: Let_def split: if_splits)
      with s a ok fresh [of "ov\<lparr>ov_resolver := r1\<rparr>"] show thesis by simp
    qed
  qed
qed

lemma collect_created_walk:
  assumes "inj_on (log_node_id sha) U" "closed_store sha U held"
    and T: "\<forall>s\<in>T. tree_id sha s |\<in>| pending \<or> held (tree_id sha s) = Some (node_of sha s)"
    and "overlay_ok sha U contents ov" "contents (ov_resolver ov) = held" "fmdom (ov_pending ov) = pending"
    and "\<forall>t\<in>set ts. known sha U t \<and> subtrees t \<subseteq> T"
    and "walk_ok sha U held T (tree_id sha ` set ts) visited made"
    and "collect_created sha load (map (ref_of sha) ts) visited made ov = Ok (made', ov')"
  shows "\<exists>visited'. walk_ok sha U held T {} visited' made' \<and> fset visited \<union> tree_id sha ` set ts \<subseteq> fset visited'"
  using assms(4-)
proof (induction "stack_weight (map (ref_of sha) ts)" arbitrary: ts visited made ov rule: less_induct)
  case less
  show ?case
  proof (cases ts)
    case Nil
    then show ?thesis using less.prems(5,6) by (auto simp: collect_created.simps)
  next
    case (Cons t ts1)
    let ?id = "tree_id sha t"
    have t: "known sha U t" "t \<in> T" using less.prems(4) Cons by auto
    have lt: "stack_weight (map (ref_of sha) ts1) < stack_weight (map (ref_of sha) ts)" using Cons by simp
    have w: "walk_ok sha U held T (insert ?id (tree_id sha ` set ts1)) visited made" using less.prems(5) Cons by simp
    have ts1: "\<forall>t\<in>set ts1. known sha U t \<and> subtrees t \<subseteq> T" using less.prems(4) Cons by simp
    have run: "collect_created sha load (ref_of sha t # map (ref_of sha) ts1) visited made ov = Ok (made', ov')"
      using less.prems(6) Cons by simp
    have skip: ?thesis if "walk_ok sha U held T (tree_id sha ` set ts1) (finsert ?id visited) made"
      "collect_created sha load (map (ref_of sha) ts1) (finsert ?id visited) made ov1 = Ok (made', ov')"
      "overlay_ok sha U contents ov1" "contents (ov_resolver ov1) = held" "fmdom (ov_pending ov1) = pending" for ov1
      using less.hyps [OF lt that(3,4,5) ts1 that(1,2)] Cons by auto
    consider "?id |\<in>| visited" | "?id |\<notin>| visited" "?id |\<notin>| pending" | "?id |\<notin>| visited" "?id |\<in>| pending" by blast
    then show ?thesis
    proof cases
      case 1
      then have "finsert ?id visited = visited" by auto
      with skip [of ov] walk_ok_skip [OF w 1] run less.prems(1-3) 1 show ?thesis by (simp add: collect_created.simps(2))
    next
      case 2
      then have "held ?id = Some (node_of sha t)" using T t(2) by auto
      moreover have "fmlookup (ov_pending ov) ?id = None" using 2 less.prems(3) by (auto simp: fmdom_notD)
      ultimately show ?thesis
        using skip [of ov] walk_ok_held [OF assms(1,2) t(1) w] run less.prems(1-3) 2 by (simp add: collect_created.simps(2))
    next
      case 3
      then have pend: "?id |\<in>| fmdom (ov_pending ov)" using less.prems(3) by simp
      show ?thesis
      proof (cases rule: collect_created_pending [OF assms(1) less.prems(1) t(1) 3(1) pend run, case_names held fresh])
        case (held ov1)
        then show ?thesis using skip [of ov1] walk_ok_held [OF assms(1,2) t(1) w] less.prems(2,3) by simp
      next
        case (fresh ov1)
        have less: "stack_weight (map (ref_of sha) (kids t @ ts1)) < stack_weight (map (ref_of sha) ts)"
          using Cons stack_weight_kids [of sha t ts1] by simp
        have sub: "\<forall>c\<in>set (kids t @ ts1). known sha U c \<and> subtrees c \<subseteq> T"
          using less.prems(4) Cons ts1 known_kids [OF t(1)] by (cases t) auto
        have w1: "walk_ok sha U held T (tree_id sha ` set (kids t @ ts1)) (finsert ?id visited)
            (fmupd ?id (node_of sha t) made)"
          using walk_ok_made [OF assms(1) t w] fresh(1) less.prems(2) by (simp add: image_Un)
        have "fmdom (ov_pending ov1) = pending" "contents (ov_resolver ov1) = held" using fresh less.prems(2,3) by simp_all
        from less.hyps [OF less fresh(2) this(2,1) sub w1] fresh(5) Cons show ?thesis by auto
      qed
    qed
  qed
qed

lemma collect_for_roots:
  assumes "inj_on (log_node_id sha) U" "closed_store sha U held"
    and "\<forall>t\<in>set ts. opt_known sha U t"
    and "\<forall>t\<in>set ts. \<forall>s\<in>opt_subtrees t. tree_id sha s |\<in>| fmdom (ov_pending ov) \<or> held (tree_id sha s) = Some (node_of sha s)"
    and "overlay_ok sha U contents ov" "contents (ov_resolver ov) = held"
    and "collect_reachable_created_log_nodes_for_roots sha load (map (root_of sha) ts) ov = Ok objects"
  shows "\<exists>made. objects = values_of made \<and> (\<forall>t\<in>set ts. holds sha (held ++ fmlookup made) (opt_subtrees t))
    \<and> (\<forall>k node. fmlookup made k = Some node \<longrightarrow>
          held k = None \<and> (\<exists>t\<in>set ts. \<exists>s\<in>opt_subtrees t. k = tree_id sha s \<and> node = node_of sha s))"
proof -
  let ?us = "rev (List.map_filter id ts)"
  have us: "u \<in> set ?us \<longleftrightarrow> Some u \<in> set ts" for u by (force simp: List.map_filter_def)
  from assms(7) obtain found made ov' where f: "rmap (root_ref sha) (map (root_of sha) ts) = Ok found"
    and run: "collect_created sha load (rev (List.map_filter id found)) {||} fmempty ov = Ok (made, ov')"
    and obj: "objects = values_of made"
    by (auto simp: collect_reachable_created_log_nodes_for_roots_def)
  have "found = map (map_option (ref_of sha)) ts" using f
    by (induction ts arbitrary: found) (auto dest: root_ref_sound)
  then have "rev (List.map_filter id found) = map (ref_of sha) ?us"
    by (simp add: List.map_filter_def rev_map comp_def filter_map) (simp add: map_option_case option.case_eq_if)
  with run have run': "collect_created sha load (map (ref_of sha) ?us) {||} fmempty ov = Ok (made, ov')" by simp
  define T where "T = (\<Union>t\<in>set ts. opt_subtrees t)"
  have T: "\<forall>s\<in>T. tree_id sha s |\<in>| fmdom (ov_pending ov) \<or> held (tree_id sha s) = Some (node_of sha s)"
    using assms(4) by (auto simp: T_def)
  have ks: "\<forall>t\<in>set ?us. known sha U t \<and> subtrees t \<subseteq> T"
    using assms(3) us unfolding T_def by (metis UN_upper opt_known_simps(2) option.simps(5))
  have "walk_ok sha U held T (tree_id sha ` set ?us) {||} fmempty" by (simp add: walk_ok_def)
  from collect_created_walk [OF assms(1,2) T assms(5,6) refl ks this run'] obtain visited
    where w: "walk_ok sha U held T {} visited made" "tree_id sha ` set ?us \<subseteq> fset visited" by auto
  have "holds sha (held ++ fmlookup made) (opt_subtrees t)" if t: "t \<in> set ts" for t
  proof (cases t)
    case (Some u)
    then have "tree_id sha u |\<in>| visited" "known sha U u" using w(2) ks us t by auto
    then show ?thesis using walk_finished [OF w(1)] Some by simp
  qed (simp add: holds_def)
  then show ?thesis using obj w(1) by (auto simp: walk_ok_def T_def)
qed

lemma apply_log_mutations_commits:
  assumes "inj_on (log_node_id sha) U" "held_ok sha U (contents r)" "opt_known sha U t"
    and store: "holds sha (contents r) (opt_subtrees t)" "closed_store sha U (contents r)"
    and tree: "tree_mutations sha ms t = (res, made)" "\<forall>s\<in>set made. body_of sha s \<in> U"
    and run: "apply_log_mutations sha load (root_of sha t) ms r = Ok out"
  shows "\<exists>u new. ao_verified out = \<lparr>va_parent = root_of sha t, va_result = root_of sha u, va_mutations = ms,
        va_mutation_digest = mutation_digest sha ms\<rparr>
    \<and> list_mutations ms (opt_values t) = Some (opt_values u) \<and> opt_avl u
    \<and> ao_objects out = values_of new \<and> holds sha (contents r ++ fmlookup new) (opt_subtrees u)
    \<and> (\<forall>k node. fmlookup new k = Some node \<longrightarrow> contents r k = None)"
proof -
  from run obtain ms' root ov objects verified where val: "validate_mutations sha ms = Ok ms'"
    and int: "apply_log_internal sha load (root_of sha t) ms' (overlay_new r) = Ok (root, ov)"
    and col: "collect_reachable_created_log_nodes_for_roots sha load [root] ov = Ok objects"
    and ver: "verify_log_apply sha (root_of sha t) ms' \<lparr>lp_parent = root_of sha t, lp_result = root,
      lp_mutations = ms', lp_nodes = values_of (ov_loaded ov)\<rparr> = Ok verified"
    and out: "ao_verified out = verified" "ao_objects out = objects"
    by (auto simp: apply_log_mutations_def Let_def)
  note v = validate_mutations_values [OF val]
  note int' = int [unfolded conjunct1 [OF v]]
  obtain u where u: "res = Ok u" "root = root_of sha u" "overlay_ok sha U contents ov"
    "overlay_le contents (overlay_new r) ov" "created sha ov (set made)"
    using apply_log_internal_sound [OF assms(1-3) val tree int'] .
  have vals: "list_mutations ms (opt_values t) = Some (opt_values u)" "opt_avl u"
    using tree_mutations_values [OF opt_known_avl [OF assms(3)]] v tree(1) u(1) by blast+
  have sub: "opt_subtrees u \<subseteq> opt_subtrees t \<union> set made"
    using tree_mutations_subtrees [OF opt_known_avl [OF assms(3)]] v tree(1) u(1) by blast
  have old: "\<forall>s\<in>opt_subtrees t. body_of sha s \<in> U" using assms(3) by (cases t) (auto simp: known_def)
  have k: "opt_known sha U u" using opt_known_from [OF vals(2) sub old tree(2)] .
  have res: "contents (ov_resolver ov) = contents r" using u(4) by (simp add: overlay_le_def)
  have avail: "\<forall>t\<in>set [u]. \<forall>s\<in>opt_subtrees t. tree_id sha s |\<in>| fmdom (ov_pending ov)
      \<or> contents r (tree_id sha s) = Some (node_of sha s)"
    using sub u(5) store(1) by (auto simp: created_def holds_def)
  have "\<exists>made. objects = values_of made \<and> (\<forall>t\<in>set [u]. holds sha (contents r ++ fmlookup made) (opt_subtrees t))
    \<and> (\<forall>k node. fmlookup made k = Some node \<longrightarrow> contents r k = None
        \<and> (\<exists>t\<in>set [u]. \<exists>s\<in>opt_subtrees t. k = tree_id sha s \<and> node = node_of sha s))"
    using col u(2) k by (intro collect_for_roots [OF assms(1) store(2) _ avail u(3) res]) auto
  then obtain new where new: "objects = values_of new" "holds sha (contents r ++ fmlookup new) (opt_subtrees u)"
    "\<forall>k node. fmlookup new k = Some node \<longrightarrow> contents r k = None" by auto
  have "verified = \<lparr>va_parent = root_of sha t, va_result = root_of sha u, va_mutations = ms,
        va_mutation_digest = mutation_digest sha ms\<rparr>"
    using ver u(2) v val by (auto simp: verify_log_apply_def split: if_splits)
  with new vals out show ?thesis by blast
qed

end

end
