(* ===== verification/Log_Audit.thy ===== *)
theory Log_Audit
  imports Log_Persist
begin

text \<open>
  The complete audit returns the values of the tree and its distinct nodes, over any resolver
  when it succeeds, and it succeeds over one that holds the tree.
\<close>

definition audited :: "(string \<Rightarrow> string) \<Rightarrow> log_tree set \<Rightarrow> (string, log_node) fmap \<Rightarrow> bool" where
  "audited sha T unique \<longleftrightarrow>
     fset (fmdom unique) = tree_id sha ` T
     \<and> (\<forall>k node. fmlookup unique k = Some node \<longrightarrow> (\<exists>s\<in>T. k = tree_id sha s \<and> node = node_of sha s))"

lemma audited_add:
  assumes "audited sha T unique"
  shows "audited sha (insert t T) (if fmlookup unique (tree_id sha t) = None
    then fmupd (tree_id sha t) (node_of sha t) unique else unique)"
  using assms by (auto simp: audited_def fmlookup_dom_iff split: if_splits)

lemma audited_nodes:
  assumes "audited sha T unique" "\<forall>s\<in>T. \<forall>t\<in>T. tree_id sha s = tree_id sha t \<longrightarrow> node_of sha s = node_of sha t"
  shows "set (values_of unique) = node_of sha ` T"
proof -
  have "\<exists>k. fmlookup unique k = Some (node_of sha s)" if s: "s \<in> T" for s
  proof -
    obtain node where n: "fmlookup unique (tree_id sha s) = Some node"
      using assms(1) s unfolding audited_def by (metis fmdomE image_eqI)
    with assms s have "node = node_of sha s" unfolding audited_def by metis
    with n show ?thesis by blast
  qed
  then have "{v. \<exists>k. fmlookup unique k = Some v} = node_of sha ` T" using assms(1) unfolding audited_def by blast
  then show ?thesis by (simp only: set_values_of)
qed

context log_resolver
begin

lemma audit_stack_sound:
  assumes "inj_on (log_node_id sha) U" "held_ok sha U (contents r)" "\<forall>t\<in>set ts. known sha U t"
    and "audited sha T unique"
    and "audit_stack sha load (map (ref_of sha) ts) vs unique r = Ok (vs', unique', r')"
  shows "vs' = vs @ concat (map tvals ts) \<and> audited sha (T \<union> \<Union> (subtrees ` set ts)) unique'"
  using assms(2-)
proof (induction "stack_weight (map (ref_of sha) ts)" arbitrary: ts vs unique T r rule: less_induct)
  case less
  show ?case
  proof (cases ts)
    case Nil
    then show ?thesis using less.prems(3,4) by (simp add: audit_stack.simps)
  next
    case (Cons t ts1)
    have t: "known sha U t" "body_of sha t \<in> U" using less.prems(2) Cons by (auto simp: known_def)
    let ?add = "\<lambda>node. if fmlookup unique (ln_object_id node) = None
      then fmupd (ln_object_id node) node unique else unique"
    from less.prems(4) Cons obtain node r1 where
      l: "load_resolved_log_node sha load (ref_of sha t) r = Ok (node, r1)"
      and rest: "(case ln_body node of
           LogLeaf leaf_values \<Rightarrow> audit_stack sha load (map (ref_of sha) ts1) (vs @ leaf_values) (?add node) r1
         | LogBranch left right \<Rightarrow> audit_stack sha load (left # right # map (ref_of sha) ts1) vs (?add node) r1)
         = Ok (vs', unique', r')"
      by (auto simp: audit_stack.simps(2) Let_def)
    have n: "node = node_of sha t" "contents r1 = contents r"
      using load_resolved_sound [OF assms(1) less.prems(1) t(2) l] by simp_all
    have held: "held_ok sha U (contents r1)" using less.prems(1) n(2) by simp
    define w where "w = (case t of Tip ws \<Rightarrow> vs @ ws | Fork _ _ \<Rightarrow> vs)"
    have run: "audit_stack sha load (map (ref_of sha) (kids t @ ts1)) w (?add (node_of sha t)) r1 = Ok (vs', unique', r')"
      using rest n(1) by (cases t) (auto simp: w_def)
    have ks: "\<forall>c\<in>set (kids t @ ts1). known sha U c" using less.prems(2) Cons known_kids [OF t(1)] by auto
    have lt: "stack_weight (map (ref_of sha) (kids t @ ts1)) < stack_weight (map (ref_of sha) ts)"
      using stack_weight_kids [of sha t ts1] Cons by simp
    have add: "audited sha (insert t T) (?add (node_of sha t))" using audited_add [OF less.prems(3), of t]
      by (simp only: node_of_simps)
    from less.hyps [OF lt held ks add run] have
      "vs' = w @ concat (map tvals (kids t @ ts1)) \<and> audited sha (insert t T \<union> \<Union> (subtrees ` set (kids t @ ts1))) unique'" .
    moreover have "insert t T \<union> \<Union> (subtrees ` set (kids t @ ts1)) = T \<union> \<Union> (subtrees ` set ts)"
      using Cons by (cases t) auto
    moreover have "w @ concat (map tvals (kids t @ ts1)) = vs @ concat (map tvals ts)"
      using Cons by (cases t) (auto simp: w_def)
    ultimately show ?thesis by simp
  qed
qed

lemma audit_stack_live:
  assumes "sha_ok sha" "\<And>object_id r. \<exists>y. load object_id r = Ok y"
    and "\<forall>t\<in>set ts. avl t \<and> sized t \<and> holds sha (contents r) (subtrees t)"
  shows "\<exists>unique' r'. audit_stack sha load (map (ref_of sha) ts) vs unique r = Ok (vs @ concat (map tvals ts), unique', r')"
  using assms(3)
proof (induction "stack_weight (map (ref_of sha) ts)" arbitrary: ts vs unique r rule: less_induct)
  case less
  show ?case
  proof (cases ts)
    case Nil
    then show ?thesis by (simp add: audit_stack.simps)
  next
    case (Cons t ts1)
    have t: "avl t" "sized t" "contents r (tree_id sha t) = Some (node_of sha t)"
      using less.prems Cons by (auto simp: holds_def)
    obtain r1 where l: "load_resolved_log_node sha load (ref_of sha t) r = Ok (node_of sha t, r1)"
      "contents r1 = contents r"
      using load_resolved_live [OF assms(1) t(3,1,2) assms(2)] by blast
    have "\<forall>c\<in>set (kids t). sized c" using t(2) by (cases t) (auto dest: sized_Fork)
    then have ks: "\<forall>c\<in>set (kids t @ ts1). avl c \<and> sized c \<and> holds sha (contents r1) (subtrees c)"
      using less.prems Cons l(2) by (cases t) (auto simp: holds_def)
    have lt: "stack_weight (map (ref_of sha) (kids t @ ts1)) < stack_weight (map (ref_of sha) ts)"
      using stack_weight_kids [of sha t ts1] Cons by simp
    let ?add = "if fmlookup unique (tree_id sha t) = None then fmupd (tree_id sha t) (node_of sha t) unique else unique"
    define w where "w = (case t of Tip ws \<Rightarrow> vs @ ws | Fork _ _ \<Rightarrow> vs)"
    obtain unique' r' where run: "audit_stack sha load (map (ref_of sha) (kids t @ ts1)) w ?add r1
        = Ok (w @ concat (map tvals (kids t @ ts1)), unique', r')"
      using less.hyps [OF lt ks] by blast
    have "w @ concat (map tvals (kids t @ ts1)) = vs @ concat (map tvals ts)"
      using Cons by (cases t) (auto simp: w_def)
    moreover have "audit_stack sha load (map (ref_of sha) ts) vs unique r
        = audit_stack sha load (map (ref_of sha) (kids t @ ts1)) w ?add r1"
      using l(1) Cons audit_stack.simps(2) [of sha load "ref_of sha t" "map (ref_of sha) ts1" vs unique r]
      by (cases t) (simp_all add: Let_def w_def)
    ultimately show ?thesis using run by simp
  qed
qed

lemma audit_log_sound:
  assumes "inj_on (log_node_id sha) U" "held_ok sha U (contents r)" "opt_known sha U t"
    and run: "audit_log sha load (root_of sha t) r = Ok audit"
  shows "la_values audit = opt_values t \<and> set (la_objects audit) = node_of sha ` opt_subtrees t"
proof (cases t)
  case None
  then show ?thesis using run by (auto simp: audit_log_def dest!: root_ref_sound)
next
  case (Some u)
  with run obtain vs unique r' where st: "audit_stack sha load (map (ref_of sha) [u]) [] fmempty r = Ok (vs, unique, r')"
    and audit: "audit = \<lparr>la_values = vs, la_objects = values_of unique\<rparr>"
    by (auto simp: audit_log_def dest!: root_ref_sound split: if_splits)
  have u: "known sha U u" using assms(3) Some by simp
  have "audited sha {} fmempty" by (simp add: audited_def)
  from audit_stack_sound [OF assms(1,2) _ this st] u have a: "vs = tvals u" "audited sha (subtrees u) unique" by auto
  have "node_of sha s = node_of sha s'" if "s \<in> subtrees u" "s' \<in> subtrees u" "tree_id sha s = tree_id sha s'" for s s'
    using that u same_id_body(2) [OF assms(1), of s s'] avl_subtrees known_subtree by (metis known_def)
  with audited_nodes [OF a(2)] have "set (values_of unique) = node_of sha ` subtrees u" by blast
  with a audit Some show ?thesis by (simp del: set_values_of)
qed

lemma audit_log_live:
  assumes "sha_ok sha" "\<And>object_id r. \<exists>y. load object_id r = Ok y" "opt_avl t" "\<And>u. t = Some u \<Longrightarrow> sized u"
    and "holds sha (contents r) (opt_subtrees t)"
  shows "\<exists>audit. audit_log sha load (root_of sha t) r = Ok audit"
proof -
  have root: "log_root_verify sha (root_of sha t) = Ok ()" using root_verify_tree [OF assms(1,3)] assms(4) by blast
  then have ref: "root_ref sha (root_of sha t) = Ok (map_option (ref_of sha) t)"
    by (cases t) (auto simp: root_ref_def root_of_def log_root_empty_def ref_of_def)
  show ?thesis
  proof (cases t)
    case (Some u)
    then have "\<exists>unique' r'. audit_stack sha load (map (ref_of sha) [u]) [] fmempty r = Ok ([] @ concat (map tvals [u]), unique', r')"
      using assms by (intro audit_stack_live [OF assms(1,2)]) auto
    then show ?thesis using Some root ref by (auto simp: audit_log_def)
  qed (use root ref in \<open>simp add: audit_log_def\<close>)
qed

end

end
