(* ===== verification/Log_Build.thy ===== *)
theory Log_Build
  imports Log_Shape Log_Audit
begin

text \<open>
  The bottom-up build. Its leaves and its tree are those that appending the values one by one
  gives, so its root is the root of the streamed log, and its objects are the nodes of that tree.
\<close>

section \<open>Leaves\<close>

function leaves_of :: "string list \<Rightarrow> log_tree list" where
  "leaves_of vs =
     (if LOG_FANOUT < length vs then
        Tip (take LOG_FANOUT vs) # Tip (take 1 (drop LOG_FANOUT vs)) # leaves_of (drop (LOG_FANOUT + 1) vs)
      else if vs \<noteq> [] then [Tip vs] else [])"
  by pat_completeness auto
termination
  by (relation "measure length") (auto simp: LOG_FANOUT_def)

declare leaves_of.simps [simp del]

lemma leaves_of_Nil [simp]: "leaves_of [] = []"
  by (simp add: leaves_of.simps)

lemma leaves_of_short: "vs \<noteq> [] \<Longrightarrow> length vs \<le> LOG_FANOUT \<Longrightarrow> leaves_of vs = [Tip vs]"
  by (simp add: leaves_of.simps)

lemma leaves_of_tips: "list_all is_tip (leaves_of vs)"
proof (induction vs rule: leaves_of.induct)
  case (1 vs)
  then show ?case by (subst leaves_of.simps) simp
qed

lemma leaves_of_empty [simp]: "leaves_of vs = [] \<longleftrightarrow> vs = []"
  by (auto simp: leaves_of.simps [of vs])

text \<open>What one more value does to the leaves.\<close>

lemma leaves_of_snoc:
  "even (length (leaves_of vs)) \<and> leaves_of (vs @ [v]) = leaves_of vs @ [Tip [v]]
   \<or> odd (length (leaves_of vs)) \<and> (\<exists>ws. last (leaves_of vs) = Tip ws \<and>
       leaves_of (vs @ [v]) = (if length ws < LOG_FANOUT then butlast (leaves_of vs) @ [Tip (ws @ [v])]
         else leaves_of vs @ [Tip [v]]))"
proof (induction vs rule: leaves_of.induct)
  case (1 vs)
  consider "vs = []" | "vs \<noteq> []" "length vs \<le> LOG_FANOUT" | "LOG_FANOUT < length vs" by linarith
  then show ?case
  proof cases
    case 1
    then show ?thesis by (simp add: leaves_of_short LOG_FANOUT_def)
  next
    case 2
    then have "leaves_of vs = [Tip vs]" by (rule leaves_of_short)
    moreover have "leaves_of (vs @ [v]) = (if length vs < LOG_FANOUT then [Tip (vs @ [v])] else [Tip vs, Tip [v]])"
      using 2 by (auto simp: leaves_of.simps [of "vs @ [v]"])
    ultimately show ?thesis by simp
  next
    case 3
    let ?rest = "drop (LOG_FANOUT + 1) vs"
    have l: "leaves_of vs = Tip (take LOG_FANOUT vs) # Tip (take 1 (drop LOG_FANOUT vs)) # leaves_of ?rest"
      using 3 by (simp add: leaves_of.simps [of vs])
    have "take LOG_FANOUT (vs @ [v]) = take LOG_FANOUT vs"
      "take 1 (drop LOG_FANOUT (vs @ [v])) = take 1 (drop LOG_FANOUT vs)"
      "drop (LOG_FANOUT + 1) (vs @ [v]) = ?rest @ [v]" using 3 by simp_all
    then have l': "leaves_of (vs @ [v]) = Tip (take LOG_FANOUT vs) # Tip (take 1 (drop LOG_FANOUT vs)) # leaves_of (?rest @ [v])"
      using 3 by (subst leaves_of.simps) simp
    show ?thesis
    proof (cases "even (length (leaves_of ?rest))")
      case True
      with "1" [OF 3] l l' show ?thesis by simp
    next
      case False
      then have "leaves_of ?rest \<noteq> []" by auto
      with False "1" [OF 3] l l' show ?thesis by auto
    qed
  qed
qed

lemma join_leaves:
  assumes "vs \<noteq> []"
  shows "fst (tree_join (shape (leaves_of vs)) (Tip [v])) = shape (leaves_of (vs @ [v]))"
proof (cases "even (length (leaves_of vs))")
  case True
  then have "leaves_of (vs @ [v]) = leaves_of vs @ [Tip [v]]" using leaves_of_snoc [of vs v] by blast
  with grow_even [OF leaves_of_tips True] assms show ?thesis by simp
next
  case False
  then obtain ws where ws: "last (leaves_of vs) = Tip ws"
    "leaves_of (vs @ [v]) = (if length ws < LOG_FANOUT then butlast (leaves_of vs) @ [Tip (ws @ [v])]
         else leaves_of vs @ [Tip [v]])" using leaves_of_snoc [of vs v] by blast
  with extend_last [OF leaves_of_tips False ws(1)] grow_odd [OF leaves_of_tips False ws(1)] show ?thesis
    by (simp add: not_less)
qed

lemma append_leaves:
  assumes "vs \<noteq> []"
  shows "fst (tree_append (Some (shape (leaves_of vs))) ws) = Some (shape (leaves_of (vs @ ws)))"
  using assms
proof (induction ws arbitrary: vs)
  case (Cons w ws)
  obtain u made where u: "tree_join (shape (leaves_of vs)) (Tip [w]) = (u, made)" by force
  with join_leaves [OF Cons.prems, of w] have "u = shape (leaves_of (vs @ [w]))" by simp
  with u Cons.IH [of "vs @ [w]"] show ?case
    by (cases "tree_append (Some (shape (leaves_of (vs @ [w])))) ws") simp
qed simp

lemma append_from_empty:
  assumes "vs \<noteq> []"
  shows "fst (tree_append None vs) = Some (shape (leaves_of vs))"
proof -
  obtain v ws where vs: "vs = v # ws" using assms by (cases vs) auto
  have "shape (leaves_of [v]) = Tip [v]" by (simp add: leaves_of_short LOG_FANOUT_def)
  with append_leaves [of "[v]" ws] vs show ?thesis by (cases "tree_append (Some (Tip [v])) ws") simp
qed

section \<open>Stored nodes\<close>

definition objects_ok :: "(string \<Rightarrow> string) \<Rightarrow> log_node_body set \<Rightarrow> (string, log_node) fmap \<Rightarrow> bool" where
  "objects_ok sha U m \<longleftrightarrow> (\<forall>k node. fmlookup m k = Some node \<longrightarrow> entry_ok sha U k node)"

text \<open>The store has grown by the nodes of \<open>T\<close> and nothing else.\<close>

definition built ::
  "(string \<Rightarrow> string) \<Rightarrow> log_tree set \<Rightarrow> (string, log_node) fmap \<Rightarrow> (string, log_node) fmap \<Rightarrow> bool" where
  "built sha T m m' \<longleftrightarrow>
     (\<forall>s\<in>T. fmlookup m' (tree_id sha s) = Some (node_of sha s))
     \<and> (\<forall>k node. fmlookup m k = Some node \<longrightarrow> fmlookup m' k = Some node)
     \<and> (\<forall>k node. fmlookup m' k = Some node \<longrightarrow>
          fmlookup m k = Some node \<or> (\<exists>s\<in>T. k = tree_id sha s \<and> node = node_of sha s))"

lemma built_refl: "built sha {} m m"
  by (simp add: built_def)

lemma built_trans: "built sha A m m1 \<Longrightarrow> built sha B m1 m2 \<Longrightarrow> built sha (A \<union> B) m m2"
  unfolding built_def by (metis Un_iff)

definition storable :: "(string \<Rightarrow> string) \<Rightarrow> log_node_body set \<Rightarrow> log_tree set \<Rightarrow> bool" where
  "storable sha U T \<longleftrightarrow> sha_ok sha \<and> inj_on (log_node_id sha) U
     \<and> (\<forall>t\<in>T. avl t \<and> sized t \<and> body_of sha t \<in> U)"

lemma store_built_tree:
  assumes "storable sha U {t}" "objects_ok sha U m"
  obtains m' where "store_built_log_node sha (node_of sha t) m = Ok (ref_of sha t, m')"
    "objects_ok sha U m'" "built sha {t} m m'"
proof -
  have t: "sha_ok sha" "avl t" "sized t" "body_of sha t \<in> U" and inj: "inj_on (log_node_id sha) U"
    using assms(1) by (simp_all add: storable_def)
  have ok: "log_node_verify sha (node_of sha t) = Ok ()" "value_count (node_of sha t) = Ok (length (tvals t))"
    "node_height (node_of sha t) = Ok (ht t)"
    using t by (simp_all add: node_verify_tree value_count_def node_height_def body_value_count_sized body_height_sized)
  show thesis
  proof (cases "fmlookup m (tree_id sha t)")
    case None
    have "store_built_log_node sha (node_of sha t) m = Ok (ref_of sha t, fmupd (tree_id sha t) (node_of sha t) m)"
      using None ok by (simp add: store_built_log_node_def ref_of_def)
    moreover have "objects_ok sha U (fmupd (tree_id sha t) (node_of sha t) m)"
      using assms(2) t(4) by (auto simp: objects_ok_def entry_ok_def tree_id_def)
    ultimately show thesis using that None by (auto simp: built_def)
  next
    case (Some existing)
    then have "existing = node_of sha t" using assms(2) entry_ok_tree [OF _ inj t(4)] by (auto simp: objects_ok_def)
    with Some ok have "store_built_log_node sha (node_of sha t) m = Ok (ref_of sha t, m)"
      by (simp add: store_built_log_node_def ref_of_def)
    then show thesis using that assms(2) Some \<open>existing = node_of sha t\<close> by (auto simp: built_def)
  qed
qed

lemma storable_subset: "storable sha U T \<Longrightarrow> A \<subseteq> T \<Longrightarrow> storable sha U A"
  by (auto simp: storable_def)

lemma store_built_leaf_tree:
  assumes "storable sha U {Tip vs}" "objects_ok sha U m"
  obtains m' where "store_built_leaf sha vs m = Ok (ref_of sha (Tip vs), m')"
    "objects_ok sha U m'" "built sha {Tip vs} m m'"
proof -
  have "log_leaf sha vs = Ok (node_of sha (Tip vs))"
    using assms(1) from_body_tree [of sha "Tip vs"] by (simp add: storable_def log_leaf_def)
  with store_built_tree [OF assms] that show thesis by (auto simp: store_built_leaf_def)
qed

lemma build_leaves_live:
  assumes "storable sha U (set (leaves_of vs))" "objects_ok sha U m"
  shows "\<exists>m'. build_append_log_leaves sha vs m = Ok (map (ref_of sha) (leaves_of vs), m')
    \<and> objects_ok sha U m' \<and> built sha (set (leaves_of vs)) m m'"
  using assms
proof (induction vs arbitrary: m rule: leaves_of.induct)
  case (1 vs)
  show ?case
  proof (cases "LOG_FANOUT < length vs")
    case True
    let ?f = "take LOG_FANOUT vs" and ?o = "take 1 (drop LOG_FANOUT vs)" and ?rest = "drop (LOG_FANOUT + 1) vs"
    have l: "leaves_of vs = Tip ?f # Tip ?o # leaves_of ?rest" using True by (simp add: leaves_of.simps [of vs])
    have st: "storable sha U {Tip ?f}" "storable sha U {Tip ?o}" "storable sha U (set (leaves_of ?rest))"
      using storable_subset [OF "1.prems"(1)] l by auto
    obtain m1 where m1: "store_built_leaf sha ?f m = Ok (ref_of sha (Tip ?f), m1)" "objects_ok sha U m1" "built sha {Tip ?f} m m1"
      using store_built_leaf_tree [OF st(1) "1.prems"(2)] .
    obtain m2 where m2: "store_built_leaf sha ?o m1 = Ok (ref_of sha (Tip ?o), m2)" "objects_ok sha U m2" "built sha {Tip ?o} m1 m2"
      using store_built_leaf_tree [OF st(2) m1(2)] .
    obtain m3 where m3: "build_append_log_leaves sha ?rest m2 = Ok (map (ref_of sha) (leaves_of ?rest), m3)"
      "objects_ok sha U m3" "built sha (set (leaves_of ?rest)) m2 m3"
      using "1.IH" [OF True st(3) m2(2)] by blast
    have "built sha (set (leaves_of vs)) m m3" using built_trans [OF built_trans [OF m1(3) m2(3)] m3(3)] l
      by (simp add: insert_commute)
    moreover have "build_append_log_leaves sha vs m = Ok (map (ref_of sha) (leaves_of vs), m3)"
      using True m1(1) m2(1) m3(1) l by (simp add: build_append_log_leaves.simps [of sha vs])
    ultimately show ?thesis using m3(2) by blast
  next
    case False
    show ?thesis
    proof (cases "vs = []")
      case True
      then show ?thesis using "1.prems"(2) built_refl [of sha m] by (simp add: build_append_log_leaves.simps)
    next
      case ne: False
      with False have l: "leaves_of vs = [Tip vs]" by (simp add: leaves_of_short)
      with "1.prems" obtain m1 where "store_built_leaf sha vs m = Ok (ref_of sha (Tip vs), m1)"
        "objects_ok sha U m1" "built sha {Tip vs} m m1" using store_built_leaf_tree [of sha U vs m] by auto
      with l ne False show ?thesis by (simp add: build_append_log_leaves.simps [of sha vs])
    qed
  qed
qed

lemma shape_leaves: "ls \<noteq> [] \<Longrightarrow> set ls \<subseteq> subtrees (shape ls)"
proof (induction "length ls" arbitrary: ls rule: less_induct)
  case less
  show ?case
  proof (cases "length ls < 2")
    case True
    then obtain t where "ls = [t]" using less.prems by (cases ls) auto
    then show ?thesis by simp
  next
    case False
    then have "2 \<le> length ls" by simp
    from split_leaves [OF this] obtain as bs where s: "ls = as @ bs" "as \<noteq> []" "bs \<noteq> []"
      "shape ls = Fork (shape as) (shape bs)" by metis
    with less.hyps [of as] less.hyps [of bs] show ?thesis by auto
  qed
qed

lemma build_branch:
  assumes "1 < length refs" "append_log_tree_left_len (length refs) = n"
    and "build_append_log_tree sha (take n refs) m = Ok (left, m1)"
    and "build_append_log_tree sha (drop n refs) m1 = Ok (right, m2)"
    and "log_branch sha left right = Ok node"
  shows "build_append_log_tree sha refs m = store_built_log_node sha node m2"
  using assms by (subst build_append_log_tree.simps) (auto simp: Let_def split: list.splits)

lemma build_tree_live:
  assumes "ls \<noteq> []" "storable sha U (subtrees (shape ls))" "objects_ok sha U m" "list_all is_tip ls"
  shows "\<exists>m' T. build_append_log_tree sha (map (ref_of sha) ls) m = Ok (ref_of sha (shape ls), m')
    \<and> objects_ok sha U m' \<and> built sha T m m' \<and> subtrees (shape ls) = set ls \<union> T"
  using assms
proof (induction "length ls" arbitrary: ls m rule: less_induct)
  case less
  show ?case
  proof (cases "length ls < 2")
    case True
    then obtain t where ls: "ls = [t]" using less.prems(1) by (cases ls) auto
    then have "subtrees (shape ls) = set ls \<union> {}" using less.prems(4) by (cases t) auto
    then show ?thesis using ls less.prems(3) built_refl [of sha m]
      by (intro exI [of _ m] exI [of _ "{}"]) (simp add: build_append_log_tree.simps)
  next
    case False
    then have "2 \<le> length ls" by simp
    from split_leaves [OF this] obtain as bs where s: "ls = as @ bs"
      "append_log_tree_left_len (length ls) = length as" "as \<noteq> []" "bs \<noteq> []" "shape ls = Fork (shape as) (shape bs)" .
    have st: "storable sha U (subtrees (shape as))" "storable sha U (subtrees (shape bs))" "storable sha U {shape ls}"
      using storable_subset [OF less.prems(2)] s(5) by auto
    obtain m1 A where m1: "build_append_log_tree sha (map (ref_of sha) as) m = Ok (ref_of sha (shape as), m1)"
      "objects_ok sha U m1" "built sha A m m1" "subtrees (shape as) = set as \<union> A"
      using less.hyps [of as m] less.prems(3,4) s st(1) by auto
    obtain m2 B where m2: "build_append_log_tree sha (map (ref_of sha) bs) m1 = Ok (ref_of sha (shape bs), m2)"
      "objects_ok sha U m2" "built sha B m1 m2" "subtrees (shape bs) = set bs \<union> B"
      using less.hyps [of bs m1] less.prems(4) m1(2) s st(2) by auto
    obtain m3 where m3: "store_built_log_node sha (node_of sha (shape ls)) m2 = Ok (ref_of sha (shape ls), m3)"
      "objects_ok sha U m3" "built sha {shape ls} m2 m3"
      using store_built_tree [OF st(3) m2(2)] .
    have "log_branch sha (ref_of sha (shape as)) (ref_of sha (shape bs)) = Ok (node_of sha (shape ls))"
      using st(3) s(5) from_body_tree [of sha "shape ls"] by (simp add: storable_def log_branch_def)
    moreover have "take (length as) (map (ref_of sha) ls) = map (ref_of sha) as"
      "drop (length as) (map (ref_of sha) ls) = map (ref_of sha) bs" using s(1) by simp_all
    ultimately have "build_append_log_tree sha (map (ref_of sha) ls) m = Ok (ref_of sha (shape ls), m3)"
      using build_branch [of "map (ref_of sha) ls" "length as" sha m] False s(2) m1(1) m2(1) m3(1) by simp
    moreover have "built sha (A \<union> B \<union> {shape ls}) m m3" using built_trans [OF built_trans [OF m1(3) m2(3)] m3(3)] .
    moreover have "subtrees (shape ls) = set ls \<union> (A \<union> B \<union> {shape ls})" using s(1,5) m1(4) m2(4) by auto
    ultimately show ?thesis using m3(2) by blast
  qed
qed

section \<open>The whole build\<close>

lemma build_log_live:
  assumes "sha_ok sha" "valid_values vs" "length vs < LOG_SAFE_LENGTH"
    and "fst (tree_append None vs) = t" "inj_on (log_node_id sha) (body_of sha ` opt_subtrees t)"
  shows "\<exists>objects. build_log sha vs = Ok \<lparr>bo_root = root_of sha t, bo_objects = values_of objects\<rparr>
    \<and> built sha (opt_subtrees t) fmempty objects"
proof (cases "vs = []")
  case True
  then show ?thesis using assms(4) built_refl [of sha fmempty] by (auto simp: build_log_def root_of_def intro!: exI [of _ fmempty])
next
  case False
  let ?ls = "leaves_of vs"
  let ?u = "shape ?ls"
  have t: "t = Some ?u" using append_from_empty [OF False] assms(4) by simp
  have y: "yields vs (length vs) {} (tree_append None vs)" using yields_append [of None vs] assms(2) by simp
  then have u: "avl ?u" "tvals ?u = vs" using t assms(4) by (auto simp: yields_def split: prod.splits)
  let ?U = "body_of sha ` subtrees ?u"
  have sz: "sized s" if "s \<in> subtrees ?u" for s
    using sized_subtrees [OF sized_safe [OF u(1)] that] u(2) assms(3) by simp
  have st: "storable sha ?U (subtrees ?u)"
    using assms(1,5) t avl_subtrees [OF u(1)] sz by (auto simp: storable_def)
  have sub: "set ?ls \<subseteq> subtrees ?u"
    using shape_leaves [of ?ls] False by simp
  have "objects_ok sha ?U fmempty" by (simp add: objects_ok_def)
  from build_leaves_live [OF storable_subset [OF st sub] this] obtain m1 where
    m1: "build_append_log_leaves sha vs fmempty = Ok (map (ref_of sha) ?ls, m1)" "objects_ok sha ?U m1"
    "built sha (set ?ls) fmempty m1" by blast
  from build_tree_live [OF _ st m1(2) leaves_of_tips] False obtain m2 T where
    m2: "build_append_log_tree sha (map (ref_of sha) ?ls) m1 = Ok (ref_of sha ?u, m2)" "built sha T m1 m2"
    "subtrees ?u = set ?ls \<union> T" by auto
  have root: "log_root_verify sha (root_of sha t) = Ok ()"
    using root_verify_tree [OF assms(1), of t] t u(1) sz by simp
  then have "ref_root sha (Some (ref_of sha ?u)) = Ok (root_of sha t)"
    using t by (simp add: ref_root_def root_of_def ref_of_def Let_def)
  moreover have "rcheck coll_validate_content_id vs = Ok ()" using assms(2) by (simp add: list_all_iff)
  moreover have "length vs \<le> MAX_EXACT_INTEGER" using assms(3) by (simp add: LOG_SAFE_LENGTH_def MAX_EXACT_INTEGER_def)
  ultimately have "build_log sha vs = Ok \<lparr>bo_root = root_of sha t, bo_objects = values_of m2\<rparr>"
    using False m1(1) m2(1) t u(2) by (simp add: build_log_def)
  then show ?thesis using built_trans [OF m1(3) m2(2)] m2(3) t by auto
qed

end
