(* ===== verification/Log_Outcome.thy ===== *)
theory Log_Outcome
  imports Log_Persist
begin

text \<open>
  The outcome of a mutation batch on a provider that holds the tree, in terms of the value list:
  a batch whose expectations hold edits the list, and one with a stale expectation is a conflict.
\<close>

fun is_prefix_replacement :: "log_mutation \<Rightarrow> bool" where
  "is_prefix_replacement (ReplacePrefix _ _ _) = True"
| "is_prefix_replacement _ = False"

lemma tree_mutate_error: "fst (tree_mutate sha m t) = Err e \<Longrightarrow> e = CConflict"
  by (cases m) (auto split: if_splits prod.splits)

lemma tree_mutations_error: "fst (tree_mutations sha ms t) = Err e \<Longrightarrow> e = CConflict"
proof (induction ms arbitrary: t)
  case (Cons m ms)
  obtain r1 made where m: "tree_mutate sha m t = (r1, made)" by force
  show ?case
  proof (cases r1)
    case (Inl e1)
    with m Cons.prems have "fst (tree_mutate sha m t) = Err e" by simp
    then show ?thesis by (rule tree_mutate_error)
  next
    case (Inr u)
    with m Cons.prems have "fst (tree_mutations sha ms u) = Err e" by (cases "tree_mutations sha ms u") simp
    then show ?thesis by (rule Cons.IH)
  qed
qed simp

lemma tree_mutate_stale: "\<not> list_expects m (opt_values t) \<Longrightarrow> fst (tree_mutate sha m t) = Err CConflict"
  by (cases m) auto

lemma tree_mutate_expected:
  "list_expects m (opt_values t) \<Longrightarrow> \<not> is_prefix_replacement m \<Longrightarrow> \<exists>u. fst (tree_mutate sha m t) = Ok u"
  by (cases m) (auto split: prod.splits)

text \<open>The batch on trees succeeds exactly when the list batch does, prefix replacements apart,
  which compare the authenticated root of the prefix.\<close>

lemma tree_mutations_stale:
  assumes "opt_avl t" "list_all (\<lambda>m. valid_values (mutation_values m)) ms" "list_mutations ms (opt_values t) = None"
  shows "fst (tree_mutations sha ms t) = Err CConflict"
proof (cases "fst (tree_mutations sha ms t)")
  case (Inl e)
  then show ?thesis using tree_mutations_error by metis
next
  case (Inr u)
  then obtain made where "tree_mutations sha ms t = (Ok u, made)" by (cases "tree_mutations sha ms t") simp
  from tree_mutations_values [OF assms(1,2) this] assms(3) show ?thesis by simp
qed

lemma tree_mutations_expected:
  assumes "opt_avl t" "list_all (\<lambda>m. valid_values (mutation_values m)) ms"
    and "list_mutations ms (opt_values t) = Some xs" "\<forall>m\<in>set ms. \<not> is_prefix_replacement m"
  shows "\<exists>u. fst (tree_mutations sha ms t) = Ok u"
  using assms
proof (induction ms arbitrary: t)
  case (Cons m ms)
  have ex: "list_expects m (opt_values t)" using Cons.prems(3) by (simp split: if_splits)
  with Cons.prems(4) obtain u made where m: "tree_mutate sha m t = (Ok u, made)"
    using tree_mutate_expected [OF ex, of sha] by (cases "tree_mutate sha m t") auto
  have y: "yields (list_mutate m (opt_values t)) (length (opt_values t) + added m) (opt_subtrees t) (u, made)"
    using Cons.prems(1,2) m by (intro conjunct2 [OF tree_mutate_yields]) auto
  then obtain w where "fst (tree_mutations sha ms u) = Ok w"
    using Cons.IH [of u] Cons.prems(2-4) ex by (auto simp: yields_def)
  with m show ?case by (cases "tree_mutations sha ms u") simp
qed simp

text \<open>The nodes that take part in one operation over a store.\<close>

definition universe :: "(string \<Rightarrow> string) \<Rightarrow> (string \<Rightarrow> log_node option) \<Rightarrow> log_tree set \<Rightarrow> log_node_body set" where
  "universe sha held T = ln_body ` ran held \<union> body_of sha ` T"

lemma universe_held: "held_ok sha (universe sha held T) held"
  by (auto simp: held_ok_def universe_def ran_def)

lemma universe_known:
  "opt_avl t \<Longrightarrow> opt_subtrees t \<subseteq> T \<Longrightarrow> opt_known sha (universe sha held T) t"
  by (cases t) (auto simp: known_def universe_def)

lemma universe_made: "set made \<subseteq> T \<Longrightarrow> \<forall>s\<in>set made. body_of sha s \<in> universe sha held T"
  by (auto simp: universe_def)

context live_log_resolver
begin

lemma apply_log_internal_outcome:
  assumes "sha_ok sha" "opt_avl t" "holds sha (contents r) (opt_subtrees t)"
    and "validate_mutations sha ms = Ok ms'"
    and "length (opt_values t) + sum_list (map added ms) < LOG_SAFE_LENGTH"
    and "inj_on (log_node_id sha) (universe sha (contents r) (opt_subtrees t \<union> set (snd (tree_mutations sha ms t))))"
  shows "case fst (tree_mutations sha ms t) of
      Inl e \<Rightarrow> apply_log_internal sha load (root_of sha t) ms (overlay_new r) = Err e
    | Inr u \<Rightarrow> \<exists>ov. apply_log_internal sha load (root_of sha t) ms (overlay_new r) = Ok (root_of sha u, ov)"
proof -
  let ?U = "universe sha (contents r) (opt_subtrees t \<union> set (snd (tree_mutations sha ms t)))"
  obtain res made where tm: "tree_mutations sha ms t = (res, made)" by force
  have v: "list_all (\<lambda>m. valid_values (mutation_values m)) ms"
    using validate_mutations_values [OF assms(4)] by blast
  have known: "opt_known sha ?U t" using assms(2) by (rule universe_known) simp
  have ov: "overlay_ok sha ?U contents (overlay_new r)" by (rule overlay_new_ok [where contents = contents, OF universe_held])
  have made: "\<forall>s\<in>set made. body_of sha s \<in> ?U" using tm by (intro universe_made) simp
  have total: "\<exists>y. load object_id r = Ok y" for object_id r using load_live [of object_id r] by blast
  have ready: "ready sha load contents (overlay_new r) (opt_subtrees t)
      (length (opt_values t) + sum_list (map added ms))"
    using assms(1,3,5) total by (auto simp: ready_def available_def holds_def)
  have "refines sha ?U contents (overlay_new r) (apply_log_internal sha load (root_of sha t) ms (overlay_new r))
      (rbind res (\<lambda>u. Ok (root_of sha u))) (set made) True"
    by (rule apply_log_internal_refines [OF assms(6) ov known v tm made ready order.refl])
  then show ?thesis using tm by (cases res) (simp_all add: refines_def)
qed

end

end
