(* ===== verification/Log_Demo.thy ===== *)
theory Log_Demo
  imports Log_Build Log_Outcome "HOL-Library.Code_Target_Nat"
begin

text \<open>
  A small stored log at which the log's properties are instantiated: two single-value leaves
  under one branch, held by an in-memory provider (the crate's own proof resolver serves as
  one). The hash is a stand-in of the right shape, 32 bytes that keep the end of the preimage
  with repetitions collapsed; it does not collide on the nodes used here, which is evaluated.
\<close>

definition demo_sha :: "string \<Rightarrow> string" where
  "demo_sha bytes = take 32 (remdups_adj (rev bytes) @ replicate 32 CHR 0x00)"

definition demo_value :: "char \<Rightarrow> string" where
  "demo_value c = ''sha256:'' @ replicate 64 c"

abbreviation demo_a :: string where "demo_a \<equiv> demo_value CHR ''a''"
abbreviation demo_b :: string where "demo_b \<equiv> demo_value CHR ''b''"
abbreviation demo_c :: string where "demo_c \<equiv> demo_value CHR ''c''"

abbreviation demo_tree :: log_tree where "demo_tree \<equiv> Fork (Tip [demo_a]) (Tip [demo_b])"

abbreviation demo_root :: log_root where "demo_root \<equiv> root_of demo_sha (Some demo_tree)"

lemma demo_sha_ok: "sha_ok demo_sha"
  by (auto simp: sha_ok_def demo_sha_def min_def)

lemma demo_values [simp]: "coll_validate_content_id demo_a = Ok ()" "coll_validate_content_id demo_b = Ok ()"
  "coll_validate_content_id demo_c = Ok ()"
  by code_simp+

lemma demo_values_ne [simp]: "demo_a \<noteq> demo_b" "demo_b \<noteq> demo_a" "demo_c \<noteq> demo_b" "demo_b \<noteq> demo_c" "demo_a \<noteq> demo_c"
  by (simp_all add: demo_value_def)

text \<open>The trees that take part in the examples: the stored tree and the trees made by replacing
  its second value.\<close>

definition demo_trees :: "log_tree list" where
  "demo_trees = [demo_tree, Tip [demo_a], Tip [demo_b], Tip [demo_c], Tip [demo_a, demo_c]]"

lemma demo_ids: "distinct (map (tree_id demo_sha) demo_trees)"
  by code_simp

lemma demo_avl: "list_all avl demo_trees"
  by (simp add: demo_trees_def LOG_FANOUT_def)

lemma demo_sized: "list_all sized demo_trees"
  by (simp add: demo_trees_def sized_def MAX_EXACT_INTEGER_def MAX_LOG_HEIGHT_def)

lemma demo_inj: "inj_on (log_node_id demo_sha) (body_of demo_sha ` set demo_trees)"
proof -
  have "inj_on (log_node_id demo_sha \<circ> body_of demo_sha) (set demo_trees)"
    using demo_ids by (simp add: distinct_map comp_def tree_id_def [abs_def])
  then show ?thesis by (rule inj_on_imageI)
qed

lemma demo_nodes:
  assumes "t \<in> set demo_trees"
  shows "log_node_verify demo_sha (node_of demo_sha t) = Ok ()"
    "value_count (node_of demo_sha t) = Ok (length (tvals t))" "node_height (node_of demo_sha t) = Ok (ht t)"
  using demo_sized demo_avl assms node_verify_tree [OF demo_sha_ok, of t]
  by (simp_all add: list_all_iff value_count_def node_height_def body_value_count_sized body_height_sized)

definition demo_store :: apply_proof_log_resolver where
  "demo_store = \<lparr>ap_nodes = fmap_of_list (map (\<lambda>t. (tree_id demo_sha t, node_of demo_sha t))
      [demo_tree, Tip [demo_a], Tip [demo_b]]), ap_requested = {||}\<rparr>"

lemma demo_holds: "holds demo_sha (fmlookup (ap_nodes demo_store)) (subtrees demo_tree)"
  using demo_ids by (simp add: holds_def demo_store_def demo_trees_def fmlookup_of_list)

section \<open>An exact proof\<close>

definition demo_exact_proof :: log_exact_proof where
  "demo_exact_proof = \<lparr>xp_root = demo_root, xp_index = 1,
     xp_nodes = [node_of demo_sha demo_tree, node_of demo_sha (Tip [demo_b])]\<rparr>"

lemma demo_in: "demo_tree \<in> set demo_trees" "Tip [demo_a] \<in> set demo_trees" "Tip [demo_b] \<in> set demo_trees"
  "Tip [demo_c] \<in> set demo_trees" "Tip [demo_a, demo_c] \<in> set demo_trees"
  by (simp_all add: demo_trees_def)

lemmas demo_node_facts = demo_nodes [OF demo_in(1)] demo_nodes [OF demo_in(2)] demo_nodes [OF demo_in(3)]

lemma demo_root_verify: "log_root_verify demo_sha demo_root = Ok ()"
  using root_verify_tree [OF demo_sha_ok, of "Some demo_tree"] demo_avl demo_sized by (simp add: demo_trees_def)

lemma demo_bytes:
  "logical_bytes (node_of demo_sha demo_tree) = Ok 276" "logical_bytes (node_of demo_sha (Tip [demo_b])) = Ok 173"
  using tree_id_length [OF demo_sha_ok]
  by (simp_all add: logical_bytes_def checked_add_def checked_sum_def LOG_NODE_VERSION_def demo_value_def)

lemma demo_proof_new:
  assumes "maximum \<ge> 2"
  shows "proof_new demo_sha [node_of demo_sha demo_tree, node_of demo_sha (Tip [demo_b])] maximum =
    Ok \<lparr>pr_nodes = fmupd (tree_id demo_sha (Tip [demo_b])) (node_of demo_sha (Tip [demo_b]))
      (fmupd (tree_id demo_sha demo_tree) (node_of demo_sha demo_tree) fmempty), pr_used = {||}\<rparr>"
  using demo_ids assms
  by (simp add: proof_new_def index_proof_nodes_def verify_log_proof_bytes_def demo_bytes bounded_add_def
      checked_add_def index_proof_node_def demo_node_facts demo_trees_def MAX_PROOF_BYTES_def)

lemma demo_root_ref: "root_ref demo_sha demo_root = Ok (Some (ref_of demo_sha demo_tree))"
  by (simp add: root_ref_def demo_root_verify) (simp add: root_of_def ref_of_def)

lemma demo_load:
  assumes "fmlookup (pr_nodes r) (tree_id demo_sha t) = Some (node_of demo_sha t)" "t \<in> set demo_trees"
  shows "load_resolved_log_node demo_sha proof_load (ref_of demo_sha t) r =
    Ok (node_of demo_sha t, r\<lparr>pr_used := finsert (tree_id demo_sha t) (pr_used r)\<rparr>)"
  using assms demo_nodes [OF assms(2)] by (simp add: load_resolved_log_node_def proof_load_def)

lemma demo_get:
  assumes "fmlookup (pr_nodes r) (tree_id demo_sha demo_tree) = Some (node_of demo_sha demo_tree)"
    and "fmlookup (pr_nodes r) (tree_id demo_sha (Tip [demo_b])) = Some (node_of demo_sha (Tip [demo_b]))"
  shows "get_log_value demo_sha proof_load demo_root 1 r = Ok (demo_b, r\<lparr>pr_used :=
    finsert (tree_id demo_sha (Tip [demo_b])) (finsert (tree_id demo_sha demo_tree) (pr_used r))\<rparr>)"
proof -
  have "get_log_value_from demo_sha proof_load (Suc (Suc n)) (ref_of demo_sha demo_tree) 1 r = Ok (demo_b, r\<lparr>pr_used :=
    finsert (tree_id demo_sha (Tip [demo_b])) (finsert (tree_id demo_sha demo_tree) (pr_used r))\<rparr>)" for n
    using assms demo_load [OF assms(1) demo_in(1)]
      demo_load [of "r\<lparr>pr_used := finsert (tree_id demo_sha demo_tree) (pr_used r)\<rparr>", OF _ demo_in(3)]
    by (simp add: checked_sub_def)
  moreover have "Suc MAX_LOG_HEIGHT = Suc (Suc 75)" by (simp add: MAX_LOG_HEIGHT_def)
  ultimately show ?thesis by (simp only: get_log_value_def demo_root_ref rbind_Ok ok_or_simps)
qed

lemma demo_exact_verifies: "verify_log_exact demo_sha demo_root 1 demo_exact_proof =
  Ok \<lparr>vr_root = demo_root, vr_index = 1, vr_value = demo_b\<rparr>"
proof -
  have ne: "tree_id demo_sha demo_tree \<noteq> tree_id demo_sha (Tip [demo_b])" using demo_ids by (simp add: demo_trees_def)
  let ?r = "\<lparr>pr_nodes = fmupd (tree_id demo_sha (Tip [demo_b])) (node_of demo_sha (Tip [demo_b]))
      (fmupd (tree_id demo_sha demo_tree) (node_of demo_sha demo_tree) fmempty), pr_used = {||}\<rparr>"
  have "proof_new demo_sha [node_of demo_sha demo_tree, node_of demo_sha (Tip [demo_b])] MAX_LOG_HEIGHT = Ok ?r"
    by (rule demo_proof_new) (simp add: MAX_LOG_HEIGHT_def)
  moreover have "get_log_value demo_sha proof_load demo_root 1 ?r = Ok (demo_b, ?r\<lparr>pr_used :=
    finsert (tree_id demo_sha (Tip [demo_b])) (finsert (tree_id demo_sha demo_tree) (pr_used ?r))\<rparr>)"
    using ne by (intro demo_get) simp_all
  ultimately show ?thesis
    by (simp add: verify_log_exact_def demo_root_verify demo_exact_proof_def proof_finish_def del: One_nat_def)
qed

end
