(* ===== verification/Log_Demo_Runs.thy ===== *)
theory Log_Demo_Runs
  imports Log_Demo
begin

text \<open>Concrete runs of the verifiers and of a mutation batch, evaluated by the simplifier.\<close>

section \<open>A range\<close>

definition demo_range_proof :: log_range_proof where
  "demo_range_proof = \<lparr>rp_root = demo_root, rp_start = 1, rp_limit = 2, rp_max_bytes = 200,
     rp_nodes = [node_of demo_sha demo_tree, node_of demo_sha (Tip [demo_b])]\<rparr>"

lemma demo_length: "length demo_a = 71" "length demo_b = 71" "length demo_c = 71"
  by (simp_all add: demo_value_def)

lemma demo_range_verifies:
  "verify_log_range demo_sha demo_root 1 2 200 demo_range_proof =
   Ok \<lparr>rg_root = demo_root, rg_start = 1, rg_values = [demo_b], rg_next_index = None\<rparr>"
proof -
  have ne: "tree_id demo_sha demo_tree \<noteq> tree_id demo_sha (Tip [demo_b])" using demo_ids by (simp add: demo_trees_def)
  let ?r = "\<lparr>pr_nodes = fmupd (tree_id demo_sha (Tip [demo_b])) (node_of demo_sha (Tip [demo_b]))
      (fmupd (tree_id demo_sha demo_tree) (node_of demo_sha demo_tree) fmempty), pr_used = {||}\<rparr>"
  let ?r1 = "?r\<lparr>pr_used := {|tree_id demo_sha demo_tree|}\<rparr>"
  let ?r2 = "?r\<lparr>pr_used := {|tree_id demo_sha (Tip [demo_b]), tree_id demo_sha demo_tree|}\<rparr>"
  let ?s0 = "\<lparr>sel_values = [], sel_used_bytes = 0, sel_boundary = None\<rparr>"
  let ?s1 = "\<lparr>sel_values = [demo_b], sel_used_bytes = 71, sel_boundary = None\<rparr>"
  have new: "proof_new demo_sha [node_of demo_sha demo_tree, node_of demo_sha (Tip [demo_b])] MAX_LOG_RANGE_PROOF_NODES = Ok ?r"
    by (rule demo_proof_new) (simp add: MAX_LOG_RANGE_PROOF_NODES_def MAX_LOG_HEIGHT_def)
  have l1: "load_resolved_log_node demo_sha proof_load (ref_of demo_sha demo_tree) ?r = Ok (node_of demo_sha demo_tree, ?r1)"
    using demo_load [of ?r, OF _ demo_in(1)] ne by simp
  have l2: "load_resolved_log_node demo_sha proof_load (ref_of demo_sha (Tip [demo_b])) ?r1 = Ok (node_of demo_sha (Tip [demo_b]), ?r2)"
    using demo_load [of ?r1, OF _ demo_in(3)] ne by simp
  have left: "visit_log_range demo_sha proof_load (ref_of demo_sha (Tip [demo_a])) 0 1 2 200 ?s0 ?r1 = Ok (?s0, ?r1)"
    by (subst visit_log_range.simps) (simp add: range_end_def MAX_EXACT_INTEGER_def)
  have right: "visit_log_range demo_sha proof_load (ref_of demo_sha (Tip [demo_b])) 1 1 2 200 ?s0 ?r1 = Ok (?s1, ?r2)"
    using l2 by (subst visit_log_range.simps) (simp add: range_end_def MAX_EXACT_INTEGER_def demo_length checked_add_def)
  have "visit_log_range demo_sha proof_load (ref_of demo_sha demo_tree) 0 1 2 200 ?s0 ?r = Ok (?s1, ?r2)"
    using l1 left right by (subst visit_log_range.simps) (simp add: range_end_def MAX_EXACT_INTEGER_def)
  then have "collect_log_range demo_sha proof_load demo_root 1 2 200 ?r = Ok (?s1, ?r2)"
    by (simp add: collect_log_range_def demo_root_ref)
  then show ?thesis using new demo_root_verify
    by (simp add: verify_log_range_def validate_range_request_def demo_range_proof_def proof_finish_def checked_add_def
        MAX_PAGE_ENTRIES_def MAX_PAGE_BYTES_def MAX_LOG_RANGE_PROOF_NODES_def MAX_LOG_HEIGHT_def)
qed

section \<open>A split\<close>

definition demo_split_proof :: log_split_proof where
  "demo_split_proof = \<lparr>sp_parent = demo_root, sp_index = 1, sp_prefix = root_of demo_sha (Some (Tip [demo_a])),
     sp_suffix = root_of demo_sha (Some (Tip [demo_b])), sp_nodes = [node_of demo_sha demo_tree]\<rparr>"

lemma demo_ref_root:
  assumes "t \<in> set demo_trees"
  shows "log_root_verify demo_sha (root_of demo_sha (Some t)) = Ok ()"
    "ref_root demo_sha (Some (ref_of demo_sha t)) = Ok (root_of demo_sha (Some t))"
    "root_ref demo_sha (root_of demo_sha (Some t)) = Ok (Some (ref_of demo_sha t))"
proof -
  show v: "log_root_verify demo_sha (root_of demo_sha (Some t)) = Ok ()"
    using root_verify_tree [OF demo_sha_ok, of "Some t"] demo_avl demo_sized assms by (simp add: list_all_iff)
  show "ref_root demo_sha (Some (ref_of demo_sha t)) = Ok (root_of demo_sha (Some t))"
    "root_ref demo_sha (root_of demo_sha (Some t)) = Ok (Some (ref_of demo_sha t))"
    using v by (simp_all add: ref_root_def root_ref_def root_of_def ref_of_def Let_def)
qed

lemma demo_split_verifies:
  "verify_log_split demo_sha demo_root 1 demo_split_proof =
   Ok \<lparr>vs_parent = demo_root, vs_index = 1, vs_prefix = root_of demo_sha (Some (Tip [demo_a])),
     vs_suffix = root_of demo_sha (Some (Tip [demo_b]))\<rparr>"
proof -
  let ?id = "tree_id demo_sha demo_tree" and ?n = "node_of demo_sha demo_tree"
  let ?r = "\<lparr>ap_nodes = fmupd ?id ?n fmempty, ap_requested = {||}\<rparr>"
  let ?ov = "\<lparr>ov_resolver = \<lparr>ap_nodes = fmupd ?id ?n fmempty, ap_requested = {|?id|}\<rparr>, ov_pending = fmempty,
    ov_loaded = fmupd ?id ?n fmempty\<rparr>"
  have new: "apply_proof_new demo_sha [?n] (MAX_LOG_HEIGHT * 4) = Ok ?r"
    by (simp add: apply_proof_new_def index_proof_nodes_def verify_log_proof_bytes_def demo_bytes bounded_add_def
        checked_add_def index_proof_node_def demo_node_facts MAX_PROOF_BYTES_def MAX_LOG_HEIGHT_def)
  have load: "overlay_load demo_sha apply_proof_load (ref_of demo_sha demo_tree) (overlay_new ?r) = Ok (?n, ?ov)"
    by (simp add: overlay_load_def overlay_fetch_def apply_proof_load_def demo_node_facts overlay_new_def)
  have "split_ref demo_sha apply_proof_load (ref_of demo_sha demo_tree) 1 (overlay_new ?r)
      = Ok ((Some (ref_of demo_sha (Tip [demo_a])), Some (ref_of demo_sha (Tip [demo_b]))), ?ov)"
    using load by (subst split_ref.simps) simp
  then have "split_root demo_sha apply_proof_load demo_root 1 (overlay_new ?r)
      = Ok ((root_of demo_sha (Some (Tip [demo_a])), root_of demo_sha (Some (Tip [demo_b]))), ?ov)"
    using demo_ref_root [OF demo_in(2)] demo_ref_root [OF demo_in(3)] by (simp add: split_root_def demo_root_ref)
  then show ?thesis using new
    by (simp add: verify_log_split_def demo_root_verify demo_split_proof_def apply_proof_finish_def)
qed

section \<open>An append to the empty log\<close>

abbreviation demo_append :: "log_mutation list" where "demo_append \<equiv> [Append [demo_c]]"

definition demo_apply_proof :: log_apply_proof where
  "demo_apply_proof = \<lparr>lp_parent = log_root_empty demo_sha, lp_result = root_of demo_sha (Some (Tip [demo_c])),
     lp_mutations = demo_append, lp_nodes = []\<rparr>"

lemma demo_append_valid: "validate_mutations demo_sha demo_append = Ok demo_append"
  by (simp add: validate_mutations_def count_mutation_def bounded_add_def checked_add_def checked_sum_def demo_length
      MAX_LOG_MUTATIONS_PER_APPLY_def MAX_LOG_VALUES_PER_APPLY_def MAX_MUTATION_BYTES_def)

lemma demo_empty_verify: "log_root_verify demo_sha (log_root_empty demo_sha) = Ok ()"
  by (simp add: log_root_verify_def log_root_empty_def)

definition demo_empty :: apply_proof_log_resolver where
  "demo_empty = \<lparr>ap_nodes = fmempty, ap_requested = {||}\<rparr>"

definition demo_appended :: "apply_proof_log_resolver overlay" where
  "demo_appended = (overlay_new demo_empty)\<lparr>ov_pending :=
     fmupd (tree_id demo_sha (Tip [demo_c])) (node_of demo_sha (Tip [demo_c])) fmempty\<rparr>"

lemma demo_append_runs:
  "apply_log_internal demo_sha apply_proof_load (log_root_empty demo_sha) demo_append (overlay_new demo_empty)
   = Ok (root_of demo_sha (Some (Tip [demo_c])), demo_appended)"
proof -
  have "log_leaf demo_sha [demo_c] = Ok (node_of demo_sha (Tip [demo_c]))"
    using from_body_tree [OF demo_sha_ok, of "Tip [demo_c]"] demo_avl demo_sized by (simp add: log_leaf_def demo_trees_def)
  then have "store_leaf demo_sha [demo_c] (overlay_new demo_empty) = Ok (ref_of demo_sha (Tip [demo_c]), demo_appended)"
    using demo_nodes [OF demo_in(4)]
    by (simp add: store_leaf_def overlay_store_def ref_of_def demo_appended_def)
  moreover have "root_ref demo_sha (log_root_empty demo_sha) = Ok None"
    by (simp add: root_ref_def demo_empty_verify) (simp add: log_root_empty_def)
  ultimately show ?thesis using demo_ref_root [OF demo_in(4)]
    by (simp add: apply_log_internal_def append_values_def append_value_def concat_roots_def)
qed

lemma demo_apply_verifies:
  "verify_log_apply demo_sha (log_root_empty demo_sha) demo_append demo_apply_proof =
   Ok \<lparr>va_parent = log_root_empty demo_sha, va_result = root_of demo_sha (Some (Tip [demo_c])),
     va_mutations = demo_append, va_mutation_digest = mutation_digest demo_sha demo_append\<rparr>"
proof -
  have "apply_proof_new demo_sha [] (MAX_LOG_HEIGHT * MAX_LOG_VALUES_PER_APPLY * 4) = Ok demo_empty"
    by (simp add: apply_proof_new_def index_proof_nodes_def verify_log_proof_bytes_def demo_empty_def)
  moreover have "fmdom (ap_nodes demo_empty) = {||}" by (simp add: demo_empty_def)
  ultimately show ?thesis using demo_append_runs demo_append_valid demo_empty_verify
    by (simp add: verify_log_apply_def demo_apply_proof_def apply_proof_finish_def demo_appended_def)
qed

lemma demo_apply_commits:
  "\<exists>out. apply_log_mutations demo_sha apply_proof_load (log_root_empty demo_sha) demo_append demo_empty = Ok out"
proof -
  let ?t = "Tip [demo_c]"
  have "collect_created demo_sha apply_proof_load [ref_of demo_sha ?t] {||} fmempty demo_appended
      = Ok (fmupd (tree_id demo_sha ?t) (node_of demo_sha ?t) fmempty,
          demo_appended\<lparr>ov_resolver := demo_empty\<lparr>ap_requested := {|tree_id demo_sha ?t|}\<rparr>\<rparr>)"
    using demo_nodes [OF demo_in(4)]
    by (simp add: collect_created.simps demo_appended_def demo_empty_def apply_proof_load_def Let_def)
  then have "\<exists>objects. collect_reachable_created_log_nodes_for_roots demo_sha apply_proof_load
      [root_of demo_sha (Some ?t)] demo_appended = Ok objects"
    using demo_ref_root [OF demo_in(4)]
    by (simp add: collect_reachable_created_log_nodes_for_roots_def List.map_filter_def)
  moreover have "values_of (ov_loaded demo_appended) = []" by (simp add: demo_appended_def)
  ultimately show ?thesis using demo_append_runs demo_append_valid demo_empty_verify demo_apply_verifies
    by (auto simp: apply_log_mutations_def demo_apply_proof_def Let_def)
qed

end
