(* ===== verification/Log_Properties.thy ===== *)
theory Log_Properties
  imports Log_Demo_Runs
begin

text \<open>
  The properties of the authenticated ordered log, over the stored algorithms of the crate. The
  hash is a parameter. Where a property rests on collision freedom, the hypothesis is that the
  node identity is injective on the finite set of nodes that take part: what the proof or the
  provider holds, the committed tree, and the trees the operation makes.
\<close>

section \<open>Identities\<close>

text \<open>C19: Framed preimages are unambiguous. Two hash inputs with different domain or different
  fields are different byte strings, for all lengths a \<^verbatim>\<open>u64\<close> can frame.\<close>

theorem preimage_unambiguous:
  assumes "(d, fs) \<noteq> (d', fs')" "length d < 2 ^ 64" "length d' < 2 ^ 64"
    and "length fs < 2 ^ 64" "length fs' < 2 ^ 64" "\<forall>f\<in>set fs \<union> set fs'. length f < 2 ^ 64"
  shows "hash_preimage d fs \<noteq> hash_preimage d' fs'"
  using hash_preimage_inject [OF _ assms(2-6)] assms(1) by blast

theorem preimage_unambiguous_witness:
  "hash_preimage ''d'' [''ab'', ''c''] \<noteq> hash_preimage ''d'' [''a'', ''bc'']"
  using preimage_unambiguous [of "''d''" "[''ab'', ''c'']" "''d''" "[''a'', ''bc'']"] by simp

section \<open>Exact reads\<close>

text \<open>C20: An accepted exact proof tells the truth. Whatever nodes a prover sends, if the verifier
  accepts them for the root of a tree and an index, the index is inside the log and the value
  returned is the value of the tree at that index.\<close>

theorem verify_log_exact_sound:
  assumes "avl t" "inj_on (log_node_id sha) (body_of sha ` subtrees t \<union> ln_body ` set (xp_nodes prf))"
    and "verify_log_exact sha (root_of sha (Some t)) i prf = Ok got"
  shows "i < length (tvals t) \<and> got = \<lparr>vr_root = root_of sha (Some t), vr_index = i, vr_value = tvals t ! i\<rparr>"
  using assms(1) by (intro verify_log_exact_known [OF assms(2) _ _ assms(3)]) (auto simp: known_def)

theorem verify_log_exact_sound_witness:
  "verify_log_exact demo_sha demo_root 1 demo_exact_proof = Ok \<lparr>vr_root = demo_root, vr_index = 1, vr_value = demo_b\<rparr>
   \<and> 1 < length (tvals demo_tree) \<and> tvals demo_tree ! 1 = demo_b"
proof -
  have "inj_on (log_node_id demo_sha) (body_of demo_sha ` subtrees demo_tree
      \<union> ln_body ` set (xp_nodes demo_exact_proof))"
    by (rule inj_on_subset [OF demo_inj]) (simp add: demo_exact_proof_def demo_trees_def)
  from verify_log_exact_sound [OF _ this demo_exact_verifies] demo_avl demo_exact_verifies show ?thesis
    by (simp add: demo_trees_def)
qed

text \<open>C21: Proving and verifying round-trip. Over a provider that answers every load and holds
  the nodes of an AVL tree within the format's bounds, the prover produces a proof of every index
  inside the log, and the verifier accepts that proof and returns the value.\<close>

theorem log_exact_roundtrip:
  assumes "live_log_resolver load contents" "sha_ok sha" "avl t" "sized t"
    and "holds sha (contents r) (subtrees t)" "i < length (tvals t)"
  shows "\<exists>prf. prove_log_exact sha load (root_of sha (Some t)) i r = Ok prf
    \<and> verify_log_exact sha (root_of sha (Some t)) i prf
      = Ok \<lparr>vr_root = root_of sha (Some t), vr_index = i, vr_value = tvals t ! i\<rparr>"
  by (rule exact_roundtrip [OF assms])

theorem log_exact_roundtrip_witness:
  "\<exists>prf. prove_log_exact demo_sha apply_proof_load demo_root 1 demo_store = Ok prf
    \<and> verify_log_exact demo_sha demo_root 1 prf = Ok \<lparr>vr_root = demo_root, vr_index = 1, vr_value = demo_b\<rparr>"
  using log_exact_roundtrip [OF apply_proof_resolver.live_log_resolver_axioms demo_sha_ok _ _ demo_holds, of 1]
    demo_avl demo_sized by (simp add: demo_trees_def)

section \<open>Ranges\<close>

text \<open>C22: An accepted range proof returns exactly the page. The values are those of the tree from
  the start index, as many as the limit and the byte budget allow; a next index is returned exactly
  when values remain after the page, and it is the index of the first of them; and a page is never
  empty while values remain.\<close>

theorem verify_log_range_sound:
  assumes "opt_avl t" "inj_on (log_node_id sha) (body_of sha ` opt_subtrees t \<union> ln_body ` set (rp_nodes prf))"
    and "verify_log_range sha (root_of sha t) start limit max_bytes prf = Ok got"
  shows "rg_values got = take (min limit (max_bytes div 71)) (drop start (opt_values t))
    \<and> rg_next_index got = (if start + min limit (max_bytes div 71) < length (opt_values t)
        then Some (start + min limit (max_bytes div 71)) else None)
    \<and> start \<le> length (opt_values t)
    \<and> (rg_values got = [] \<longrightarrow> start = length (opt_values t))"
proof -
  have "opt_known sha (body_of sha ` opt_subtrees t \<union> ln_body ` set (rp_nodes prf)) t"
    using assms(1) by (cases t) (auto simp: known_def)
  from verify_log_range_known [OF assms(2) this _ assms(3)] show ?thesis by (auto simp: page_size_def)
qed

theorem verify_log_range_sound_witness:
  "verify_log_range demo_sha demo_root 1 2 200 demo_range_proof =
     Ok \<lparr>rg_root = demo_root, rg_start = 1, rg_values = [demo_b], rg_next_index = None\<rparr>
   \<and> take (min 2 (200 div 71)) (drop 1 (tvals demo_tree)) = [demo_b]"
proof -
  have "inj_on (log_node_id demo_sha) (body_of demo_sha ` opt_subtrees (Some demo_tree)
      \<union> ln_body ` set (rp_nodes demo_range_proof))"
    by (rule inj_on_subset [OF demo_inj]) (simp add: demo_range_proof_def demo_trees_def)
  from verify_log_range_sound [OF _ this demo_range_verifies] demo_avl demo_range_verifies show ?thesis
    by (simp add: demo_trees_def)
qed

section \<open>Mutation batches\<close>


lemma demo_universe:
  "inj_on (log_node_id demo_sha) (universe demo_sha (fmlookup (ap_nodes demo_store))
     (opt_subtrees (Some demo_tree) \<union> set (snd (tree_mutations demo_sha [ReplaceAt 1 e demo_c] (Some demo_tree)))))"
proof (rule inj_on_subset [OF demo_inj])
  have "ran (fmlookup (ap_nodes demo_store)) \<subseteq> node_of demo_sha ` {demo_tree, Tip [demo_a], Tip [demo_b]}"
    by (auto simp: demo_store_def ran_def fmlookup_of_list split: if_splits)
  then have "ln_body ` ran (fmlookup (ap_nodes demo_store)) \<subseteq> body_of demo_sha ` set demo_trees"
    by (fastforce simp: demo_trees_def)
  moreover have "set (snd (tree_mutations demo_sha [ReplaceAt 1 e demo_c] (Some demo_tree))) \<subseteq> set demo_trees"
    by (auto simp: tree_split_around_def tree_split_root_def tree_split.simps tree_insert_between_def tree_join.simps
        tree_meet_def LOG_FANOUT_def demo_trees_def)
  ultimately show "universe demo_sha (fmlookup (ap_nodes demo_store)) (opt_subtrees (Some demo_tree)
      \<union> set (snd (tree_mutations demo_sha [ReplaceAt 1 e demo_c] (Some demo_tree)))) \<subseteq> body_of demo_sha ` set demo_trees"
    by (auto simp: universe_def demo_trees_def)
qed

lemma demo_replace_valid: "validate_mutations demo_sha [ReplaceAt 1 demo_b demo_c] = Ok [ReplaceAt 1 demo_b demo_c]"
  "validate_mutations demo_sha [ReplaceAt 1 demo_a demo_c] = Ok [ReplaceAt 1 demo_a demo_c]"
  by (simp_all add: validate_mutations_def count_mutation_def bounded_add_def checked_add_def demo_length
      MAX_LOG_MUTATIONS_PER_APPLY_def MAX_LOG_VALUES_PER_APPLY_def MAX_MUTATION_BYTES_def MAX_EXACT_INTEGER_def)


text \<open>A stale expectation is a conflict. When some mutation of a valid batch does not fit the
  list it meets (an index out of range, or another value than the expected one), the batch
  returns the conflict error and no root.\<close>

theorem apply_log_stale_conflict:
  assumes "live_log_resolver load contents" "sha_ok sha" "opt_avl t" "holds sha (contents r) (opt_subtrees t)"
    and "validate_mutations sha ms = Ok ms'"
    and "length (opt_values t) + sum_list (map added ms) < LOG_SAFE_LENGTH"
    and "inj_on (log_node_id sha) (universe sha (contents r) (opt_subtrees t \<union> set (snd (tree_mutations sha ms t))))"
    and "list_mutations ms (opt_values t) = None"
  shows "apply_log_internal sha load (root_of sha t) ms (overlay_new r) = Err CConflict"
proof -
  have v: "list_all (\<lambda>m. valid_values (mutation_values m)) ms" using validate_mutations_values [OF assms(5)] by blast
  show ?thesis
    using live_log_resolver.apply_log_internal_outcome [OF assms(1-7)] tree_mutations_stale [OF assms(3) v assms(8), of sha]
    by simp
qed

theorem apply_log_stale_conflict_witness:
  "apply_log_internal demo_sha apply_proof_load demo_root [ReplaceAt 1 demo_a demo_c] (overlay_new demo_store) = Err CConflict"
  by (rule apply_log_stale_conflict [OF apply_proof_resolver.live_log_resolver_axioms demo_sha_ok _ _ demo_replace_valid(2) _
        demo_universe]) (use demo_avl demo_holds in \<open>simp_all add: demo_trees_def LOG_SAFE_LENGTH_def\<close>)

text \<open>C25: An accepted batch proof commits to the edited list. Whatever nodes the proof carries,
  if the verifier accepts it for the root of a tree and a batch, every expectation of the batch held
  and the result root is that of an AVL tree with the edited list; the digest binds the batch.\<close>

theorem verify_log_apply_sound:
  assumes "opt_avl t"
    and "inj_on (log_node_id sha) (body_of sha ` (opt_subtrees t \<union> set (snd (tree_mutations sha ms t)))
      \<union> ln_body ` set (lp_nodes prf))"
    and "verify_log_apply sha (root_of sha t) ms prf = Ok verified"
  shows "\<exists>u. verified = \<lparr>va_parent = root_of sha t, va_result = root_of sha u, va_mutations = ms,
        va_mutation_digest = mutation_digest sha ms\<rparr>
    \<and> list_mutations ms (opt_values t) = Some (opt_values u) \<and> opt_avl u"
proof -
  obtain res made where m: "tree_mutations sha ms t = (res, made)" by force
  let ?U = "body_of sha ` (opt_subtrees t \<union> set (snd (tree_mutations sha ms t))) \<union> ln_body ` set (lp_nodes prf)"
  have "opt_known sha ?U t" using assms(1) by (cases t) (auto simp: known_def)
  from verify_log_apply_known [OF assms(2) this _ m _ assms(3)] m show ?thesis by auto
qed

theorem verify_log_apply_sound_witness:
  "\<exists>u. verify_log_apply demo_sha (root_of demo_sha None) demo_append demo_apply_proof =
      Ok \<lparr>va_parent = root_of demo_sha None, va_result = root_of demo_sha u, va_mutations = demo_append,
        va_mutation_digest = mutation_digest demo_sha demo_append\<rparr> \<and> opt_values u = [demo_c] \<and> opt_avl u"
proof -
  have e: "root_of demo_sha None = log_root_empty demo_sha" by (simp add: root_of_def)
  have "inj_on (log_node_id demo_sha) (body_of demo_sha ` (opt_subtrees None \<union> set (snd (tree_mutations demo_sha demo_append None)))
      \<union> ln_body ` set (lp_nodes demo_apply_proof))"
    by (rule inj_on_subset [OF demo_inj]) (simp add: demo_apply_proof_def demo_trees_def)
  from verify_log_apply_sound [OF _ this demo_apply_verifies [folded e]] demo_apply_verifies e show ?thesis by auto
qed

text \<open>C26: What a provider persists is enough. If the provider's store holds the parent tree and is
  closed under children, then after it adds the objects that a successful mutation returned, it
  holds every node of the result tree; and every returned object is new to the store.\<close>

theorem apply_log_mutations_persists:
  assumes "log_resolver load contents" "opt_avl t" "holds sha (contents r) (opt_subtrees t)"
    and "inj_on (log_node_id sha) (universe sha (contents r) (opt_subtrees t \<union> set (snd (tree_mutations sha ms t))))"
    and "closed_store sha (universe sha (contents r) (opt_subtrees t \<union> set (snd (tree_mutations sha ms t)))) (contents r)"
    and "apply_log_mutations sha load (root_of sha t) ms r = Ok out"
  shows "\<exists>u new. va_result (ao_verified out) = root_of sha u
    \<and> list_mutations ms (opt_values t) = Some (opt_values u)
    \<and> ao_objects out = values_of new \<and> holds sha (contents r ++ fmlookup new) (opt_subtrees u)
    \<and> (\<forall>k node. fmlookup new k = Some node \<longrightarrow> contents r k = None)"
proof -
  let ?U = "universe sha (contents r) (opt_subtrees t \<union> set (snd (tree_mutations sha ms t)))"
  obtain res made where m: "tree_mutations sha ms t = (res, made)" by force
  have known: "opt_known sha ?U t" using assms(2) by (rule universe_known) simp
  have made: "\<forall>s\<in>set made. body_of sha s \<in> ?U" using m by (intro universe_made) simp
  from log_resolver.apply_log_mutations_commits [OF assms(1,4) universe_held known assms(3,5) m made assms(6)]
  show ?thesis by fastforce
qed

theorem apply_log_mutations_persists_witness:
  "\<exists>out u new. apply_log_mutations demo_sha apply_proof_load (root_of demo_sha None) demo_append demo_empty = Ok out
    \<and> va_result (ao_verified out) = root_of demo_sha u \<and> opt_values u = [demo_c]
    \<and> ao_objects out = values_of new \<and> holds demo_sha (fmlookup (ap_nodes demo_empty) ++ fmlookup new) (opt_subtrees u)"
proof -
  obtain out where out: "apply_log_mutations demo_sha apply_proof_load (root_of demo_sha None) demo_append demo_empty = Ok out"
    using demo_apply_commits by (auto simp: root_of_def)
  let ?U = "universe demo_sha (fmlookup (ap_nodes demo_empty)) (opt_subtrees None \<union> set (snd (tree_mutations demo_sha demo_append None)))"
  have "inj_on (log_node_id demo_sha) ?U"
    by (rule inj_on_subset [OF demo_inj]) (auto simp: universe_def demo_empty_def demo_trees_def ran_def)
  moreover have "closed_store demo_sha ?U (fmlookup (ap_nodes demo_empty))" by (simp add: closed_store_def demo_empty_def)
  moreover have "holds demo_sha (fmlookup (ap_nodes demo_empty)) (opt_subtrees None)" by (simp add: holds_def)
  ultimately show ?thesis
    using apply_log_mutations_persists [OF apply_proof_resolver.log_resolver_axioms _ _ _ _ out] out by fastforce
qed

text \<open>C27: An accepted split proof returns the two parts. The prefix root is that of a tree with the
  values before the index, the suffix root that of a tree with the values from it on.\<close>

theorem verify_log_split_sound:
  assumes "opt_avl t" "tree_split_root t i = (p, s, made)"
    and "inj_on (log_node_id sha) (body_of sha ` (opt_subtrees t \<union> set made) \<union> ln_body ` set (sp_nodes prf))"
    and "verify_log_split sha (root_of sha t) i prf = Ok verified"
  shows "verified = \<lparr>vs_parent = root_of sha t, vs_index = i, vs_prefix = root_of sha p, vs_suffix = root_of sha s\<rparr>
    \<and> opt_values p = take i (opt_values t) \<and> opt_values s = drop i (opt_values t) \<and> i \<le> length (opt_values t)"
proof -
  have "opt_known sha (body_of sha ` (opt_subtrees t \<union> set made) \<union> ln_body ` set (sp_nodes prf)) t"
    using assms(1) by (cases t) (auto simp: known_def)
  from verify_log_split_known [OF assms(3) this _ assms(2) _ assms(4)] show ?thesis by auto
qed

theorem verify_log_split_sound_witness:
  "verify_log_split demo_sha demo_root 1 demo_split_proof =
     Ok \<lparr>vs_parent = demo_root, vs_index = 1, vs_prefix = root_of demo_sha (Some (Tip [demo_a])),
       vs_suffix = root_of demo_sha (Some (Tip [demo_b]))\<rparr>
   \<and> tvals (Tip [demo_a]) = take 1 (tvals demo_tree) \<and> tvals (Tip [demo_b]) = drop 1 (tvals demo_tree)"
proof -
  have s: "tree_split_root (Some demo_tree) 1 = (Some (Tip [demo_a]), Some (Tip [demo_b]), [])"
    by (simp add: tree_split_root_def tree_split.simps)
  have "inj_on (log_node_id demo_sha) (body_of demo_sha ` (opt_subtrees (Some demo_tree) \<union> set [])
      \<union> ln_body ` set (sp_nodes demo_split_proof))"
    by (rule inj_on_subset [OF demo_inj]) (simp add: demo_split_proof_def demo_trees_def)
  from verify_log_split_sound [OF _ s this demo_split_verifies] demo_avl demo_split_verifies show ?thesis
    by (simp add: demo_trees_def)
qed

section \<open>Audit and build\<close>

text \<open>C28: The complete audit. Over any provider, an audit that succeeds returns the values of the
  tree in order and exactly its nodes; and over a provider that answers every load and holds the
  tree, it succeeds.\<close>

theorem audit_log_correct:
  assumes "live_log_resolver load contents" "sha_ok sha" "opt_avl t" "\<forall>u. t = Some u \<longrightarrow> sized u"
    and "inj_on (log_node_id sha) (universe sha (contents r) (opt_subtrees t))"
  shows "(\<forall>audit. audit_log sha load (root_of sha t) r = Ok audit \<longrightarrow>
      la_values audit = opt_values t \<and> set (la_objects audit) = node_of sha ` opt_subtrees t)
    \<and> (holds sha (contents r) (opt_subtrees t) \<longrightarrow> (\<exists>audit. audit_log sha load (root_of sha t) r = Ok audit))"
proof -
  have res: "log_resolver load contents" using assms(1) by (simp add: live_log_resolver_def)
  have total: "\<exists>y. load object_id r = Ok y" for object_id r
    using live_log_resolver.load_live [OF assms(1), of object_id r] by blast
  have known: "opt_known sha (universe sha (contents r) (opt_subtrees t)) t" using assms(3) by (rule universe_known) simp
  show ?thesis
    using log_resolver.audit_log_sound [OF res assms(5) universe_held known]
      log_resolver.audit_log_live [OF res assms(2) total assms(3)] assms(4) by blast
qed

theorem audit_log_correct_witness:
  "\<exists>audit. audit_log demo_sha apply_proof_load demo_root demo_store = Ok audit \<and> la_values audit = [demo_a, demo_b]"
proof -
  have "inj_on (log_node_id demo_sha) (universe demo_sha (fmlookup (ap_nodes demo_store)) (opt_subtrees (Some demo_tree)))"
    by (rule inj_on_subset [OF demo_universe [of demo_b]]) (auto simp: universe_def)
  from audit_log_correct [OF apply_proof_resolver.live_log_resolver_axioms demo_sha_ok _ _ this] demo_avl demo_sized demo_holds
  show ?thesis by (auto simp: demo_trees_def)
qed



text \<open>C30: Depth is logarithmic. The result root of an accepted batch proof has a height whose
  Fibonacci number is at most its length, and every intermediate length below \<open>F 78\<close> keeps the
  height within the format's bound of 76.\<close>

theorem log_apply_height_bound:
  assumes "opt_avl t"
    and "inj_on (log_node_id sha) (body_of sha ` (opt_subtrees t \<union> set (snd (tree_mutations sha ms t)))
      \<union> ln_body ` set (lp_nodes prf))"
    and "verify_log_apply sha (root_of sha t) ms prf = Ok verified" "lr_len (va_result verified) \<noteq> 0"
  shows "fib (lr_height (va_result verified) + 1) \<le> lr_len (va_result verified)
    \<and> (lr_len (va_result verified) < fib 78 \<longrightarrow> lr_height (va_result verified) \<le> MAX_LOG_HEIGHT)"
proof -
  obtain res made where m: "tree_mutations sha ms t = (res, made)" by force
  let ?U = "body_of sha ` (opt_subtrees t \<union> set (snd (tree_mutations sha ms t))) \<union> ln_body ` set (lp_nodes prf)"
  have "opt_known sha ?U t" using assms(1) by (cases t) (auto simp: known_def)
  moreover have "ln_body ` set (lp_nodes prf) \<subseteq> ?U" "\<forall>s\<in>set made. body_of sha s \<in> ?U" using m by auto
  ultimately obtain u where "verified = \<lparr>va_parent = root_of sha t, va_result = root_of sha u, va_mutations = ms,
       va_mutation_digest = mutation_digest sha ms\<rparr>" "opt_avl u"
    using verify_log_apply_known [OF assms(2) _ _ m _ assms(3)] by metis
  then have u: "va_result verified = root_of sha u" "opt_avl u" by simp_all
  with assms(4) obtain w where w: "u = Some w" "avl w" by (cases u) auto
  have "lr_height (root_of sha (Some w)) = ht w" by (simp add: root_of_def)
  then show ?thesis using u(1) w avl_fib [OF w(2)] avl_height_bound [OF w(2), of MAX_LOG_HEIGHT]
    by (simp add: MAX_LOG_HEIGHT_def)
qed

theorem log_apply_height_bound_witness:
  "fib (lr_height (root_of demo_sha (Some (Tip [demo_c]))) + 1) \<le> lr_len (root_of demo_sha (Some (Tip [demo_c])))"
proof -
  have e: "root_of demo_sha None = log_root_empty demo_sha" by (simp add: root_of_def)
  have "inj_on (log_node_id demo_sha) (body_of demo_sha ` (opt_subtrees None \<union> set (snd (tree_mutations demo_sha demo_append None)))
      \<union> ln_body ` set (lp_nodes demo_apply_proof))"
    by (rule inj_on_subset [OF demo_inj]) (simp add: demo_apply_proof_def demo_trees_def)
  from log_apply_height_bound [OF _ this demo_apply_verifies [folded e]] show ?thesis by simp
qed

end
