(* ===== verification/Map_Node.thy ===== *)
theory Map_Node
  imports Log_Node
begin

text \<open>
  The data of the authenticated map (\<^verbatim>\<open>map.rs\<close>): a compressed binary trie over the 256 bits of
  the SHA-256 hash of each key. A branch names the first bit at which its keys differ and the
  common bits before it; leaves carry key, key hash and value identity. Here are the nodes, roots,
  their identities and local verification, and the path constraints that every walk checks.
\<close>

section \<open>Nodes and roots\<close>

text \<open>\<^verbatim>\<open>MapChild\<close> and the private \<^verbatim>\<open>NodeRef\<close> have the same fields and are converted into each other.\<close>

record map_ref =
  mr_object_id :: string
  mr_entries :: nat

datatype map_node_body =
    MapLeaf string string string
  | MapBranch nat string map_ref map_ref

record map_node =
  mn_node_version :: string
  mn_object_id :: string
  mn_body :: map_node_body

record map_root =
  mt_node :: "string option"
  mt_entries :: nat

definition MAP_NODE_VERSION :: string where
  "MAP_NODE_VERSION = ''cymule.authenticated-map-node/1''"

definition MAP_KEY_VERSION :: string where
  "MAP_KEY_VERSION = ''cymule.authenticated-map-key/1''"

text \<open>\<^verbatim>\<open>u16::to_be_bytes\<close>.\<close>

definition u16_bytes :: "nat \<Rightarrow> string" where
  "u16_bytes n = [char_of (n div 256 mod 256), char_of (n mod 256)]"

section \<open>Keys\<close>

text \<open>\<^verbatim>\<open>char::is_control\<close> over the UTF-8 bytes of a key: the C0 controls and DEL are single bytes, the
  C1 controls U+0080 to U+009F are \<^verbatim>\<open>C2 80\<close> to \<^verbatim>\<open>C2 9F\<close>, and \<^verbatim>\<open>C2\<close> is never a continuation byte.\<close>

fun has_control :: "string \<Rightarrow> bool" where
  "has_control [] = False"
| "has_control (c # cs) =
     (of_char c < (32 :: nat) \<or> of_char c = (127 :: nat)
      \<or> of_char c = (194 :: nat) \<and> (case cs of [] \<Rightarrow> False | d # _ \<Rightarrow> 128 \<le> (of_char d :: nat) \<and> of_char d \<le> (159 :: nat))
      \<or> has_control cs)"

definition validate_key :: "string \<Rightarrow> collection_error + unit" where
  "validate_key key =
     (if key = [] then Err CValidation
      else if MAX_MAP_KEY_BYTES < length key then Err CValidation
      else if has_control key then Err CValidation
      else Ok ())"

definition map_key_hash :: "(string \<Rightarrow> string) \<Rightarrow> string \<Rightarrow> collection_error + string" where
  "map_key_hash sha key =
     rbind (validate_key key) (\<lambda>_. Ok (hash_digest sha MAP_KEY_VERSION [key]))"

section \<open>Identities and local verification\<close>

fun map_node_fields :: "map_node_body \<Rightarrow> string list" where
  "map_node_fields (MapLeaf key key_hash v) = [''leaf'', key, key_hash, v]"
| "map_node_fields (MapBranch depth prefix l r) =
     [''branch'', u16_bytes depth, prefix, mr_object_id l, to_be_bytes (mr_entries l),
      mr_object_id r, to_be_bytes (mr_entries r)]"

definition map_node_id :: "(string \<Rightarrow> string) \<Rightarrow> map_node_body \<Rightarrow> string" where
  "map_node_id sha body = hash_identifier sha MAP_NODE_VERSION (map_node_fields body)"

definition map_child_verify :: "map_ref \<Rightarrow> collection_error + unit" where
  "map_child_verify c =
     rbind (coll_validate_content_id (mr_object_id c)) (\<lambda>_.
     if mr_entries c = 0 \<or> MAX_EXACT_INTEGER < mr_entries c then Err CValidation else Ok ())"

definition map_body_verify :: "(string \<Rightarrow> string) \<Rightarrow> map_node_body \<Rightarrow> collection_error + unit" where
  "map_body_verify sha body =
     (case body of
        MapLeaf key key_hash v \<Rightarrow>
          rbind (validate_key key) (\<lambda>_.
          rbind (map_key_hash sha key) (\<lambda>expected.
          if key_hash \<noteq> expected then Err (Integrity ''map_key_hash_mismatch'')
          else coll_validate_content_id v))
      | MapBranch depth prefix l r \<Rightarrow>
          if 256 \<le> depth then Err CValidation
          else rbind (validate_digest prefix) (\<lambda>_.
          rbind (normalized_hash_prefix prefix depth) (\<lambda>normalized.
          if normalized \<noteq> prefix then Err CValidation
          else rbind (map_child_verify l) (\<lambda>_.
          rbind (map_child_verify r) (\<lambda>_.
          rbind (ok_or CValidation (exact_add (mr_entries l) (mr_entries r))) (\<lambda>_. Ok ()))))))"

definition map_node_verify :: "(string \<Rightarrow> string) \<Rightarrow> map_node \<Rightarrow> collection_error + unit" where
  "map_node_verify sha node =
     (if mn_node_version node \<noteq> MAP_NODE_VERSION then Err CValidation
      else rbind (map_body_verify sha (mn_body node)) (\<lambda>_.
      if mn_object_id node \<noteq> map_node_id sha (mn_body node)
      then Err (Integrity ''map_node_identity_mismatch'') else Ok ()))"

definition map_from_body :: "(string \<Rightarrow> string) \<Rightarrow> map_node_body \<Rightarrow> collection_error + map_node" where
  "map_from_body sha body =
     (let node = \<lparr>mn_node_version = MAP_NODE_VERSION, mn_object_id = map_node_id sha body,
                  mn_body = body\<rparr>
      in rbind (map_node_verify sha node) (\<lambda>_. Ok node))"

definition map_leaf ::
  "(string \<Rightarrow> string) \<Rightarrow> string \<Rightarrow> string \<Rightarrow> string \<Rightarrow> collection_error + map_node" where
  "map_leaf sha key key_hash v = map_from_body sha (MapLeaf key key_hash v)"

definition map_branch ::
  "(string \<Rightarrow> string) \<Rightarrow> nat \<Rightarrow> string \<Rightarrow> map_ref \<Rightarrow> map_ref \<Rightarrow> collection_error + map_node" where
  "map_branch sha depth prefix l r = map_from_body sha (MapBranch depth prefix l r)"

definition map_node_entries :: "map_node \<Rightarrow> collection_error + nat" where
  "map_node_entries node =
     (case mn_body node of
        MapLeaf _ _ _ \<Rightarrow> Ok 1
      | MapBranch _ _ l r \<Rightarrow> ok_or CValidation (exact_add (mr_entries l) (mr_entries r)))"

definition map_child_object_ids :: "map_node \<Rightarrow> string list" where
  "map_child_object_ids node = (case mn_body node of MapLeaf _ _ _ \<Rightarrow> []
     | MapBranch _ _ l r \<Rightarrow> [mr_object_id l, mr_object_id r])"

definition value_object_id :: "map_node \<Rightarrow> string option" where
  "value_object_id node = (case mn_body node of MapLeaf _ _ v \<Rightarrow> Some v | MapBranch _ _ _ _ \<Rightarrow> None)"

definition map_logical_bytes :: "map_node \<Rightarrow> collection_error + nat" where
  "map_logical_bytes node =
     rbind (ok_or CValidation (checked_add (length (mn_node_version node)) (length (mn_object_id node))))
      (\<lambda>fixed. case mn_body node of
         MapLeaf key key_hash v \<Rightarrow> checked_sum fixed [length key, length key_hash, length v]
       | MapBranch _ prefix l r \<Rightarrow>
           checked_sum fixed [length prefix, length (mr_object_id l), length (mr_object_id r), 32])"

section \<open>Roots\<close>

definition map_root_empty :: map_root where
  "map_root_empty = \<lparr>mt_node = None, mt_entries = 0\<rparr>"

definition map_root_verify :: "map_root \<Rightarrow> collection_error + unit" where
  "map_root_verify root =
     (if (mt_entries root = 0) \<noteq> (mt_node root = None) \<or> MAX_EXACT_INTEGER < mt_entries root
      then Err CValidation
      else case mt_node root of
        None \<Rightarrow> Ok ()
      | Some node \<Rightarrow> coll_validate_content_id node)"

section \<open>Path constraints\<close>

record path_constraint =
  pc_depth :: nat
  pc_prefix :: string
  pc_right :: bool

definition verify_constraint :: "string \<Rightarrow> path_constraint \<Rightarrow> collection_error + unit" where
  "verify_constraint h c =
     rbind (hash_matches_prefix h (pc_prefix c) (pc_depth c)) (\<lambda>matches.
     if \<not> matches then Err (Integrity ''map_branch_partition_mismatch'')
     else rbind (hash_bit h (pc_depth c)) (\<lambda>bit.
     if bit \<noteq> pc_right c then Err (Integrity ''map_branch_partition_mismatch'') else Ok ()))"

definition verify_constraints :: "string \<Rightarrow> path_constraint list \<Rightarrow> collection_error + unit" where
  "verify_constraints h constraints = rcheck (verify_constraint h) constraints"

text \<open>Branch depths increase along a path.\<close>

definition depth_increases :: "path_constraint list \<Rightarrow> nat \<Rightarrow> collection_error + unit" where
  "depth_increases constraints depth =
     (if constraints \<noteq> [] \<and> depth \<le> pc_depth (last constraints)
      then Err (Integrity ''map_branch_depth_mismatch'') else Ok ())"

end
