(* ===== verification/Map_Overlay.thy ===== *)
theory Map_Overlay
  imports Map_Node
begin

text \<open>
  The overlay of pending and loaded map nodes over a resolver (\<^verbatim>\<open>map.rs\<close>), and the trie
  operations on stored references: lookup, insertion and removal along one path.
\<close>

type_synonym 'r map_load = "string \<Rightarrow> 'r \<Rightarrow> collection_error + (map_node option \<times> 'r)"

record 'r map_overlay =
  mo_resolver :: 'r
  mo_pending :: "(string, map_node) fmap"
  mo_loaded :: "(string, map_node) fmap"

definition map_overlay_new :: "'r \<Rightarrow> 'r map_overlay" where
  "map_overlay_new r = \<lparr>mo_resolver = r, mo_pending = fmempty, mo_loaded = fmempty\<rparr>"

definition map_overlay_fetch ::
  "(string \<Rightarrow> string) \<Rightarrow> 'r map_load \<Rightarrow> map_ref \<Rightarrow> 'r map_overlay
   \<Rightarrow> collection_error + (map_node \<times> 'r map_overlay)" where
  "map_overlay_fetch sha load reference ov =
     (case fmlookup (mo_pending ov) (mr_object_id reference) of
        Some node \<Rightarrow> Ok (node, ov)
      | None \<Rightarrow>
         (case fmlookup (mo_loaded ov) (mr_object_id reference) of
            Some node \<Rightarrow> Ok (node, ov)
          | None \<Rightarrow>
             rbind (load (mr_object_id reference) (mo_resolver ov)) (\<lambda>(found, r).
             rbind (ok_or (MissingObject (mr_object_id reference)) found) (\<lambda>node.
             rbind (map_node_verify sha node) (\<lambda>_.
             if mn_object_id node \<noteq> mr_object_id reference
             then Err (Integrity ''map_node_locator_mismatch'')
             else Ok (node, ov\<lparr>mo_resolver := r,
                    mo_loaded := fmupd (mn_object_id node) node (mo_loaded ov)\<rparr>))))))"

definition map_overlay_load ::
  "(string \<Rightarrow> string) \<Rightarrow> 'r map_load \<Rightarrow> map_ref \<Rightarrow> 'r map_overlay
   \<Rightarrow> collection_error + (map_node \<times> 'r map_overlay)" where
  "map_overlay_load sha load reference ov =
     rbind (map_overlay_fetch sha load reference ov) (\<lambda>(node, ov).
     rbind (map_node_entries node) (\<lambda>entries.
     if entries \<noteq> mr_entries reference then Err (Integrity ''map_child_count_mismatch'')
     else Ok (node, ov)))"

definition map_overlay_store ::
  "(string \<Rightarrow> string) \<Rightarrow> map_node \<Rightarrow> 'r map_overlay \<Rightarrow> collection_error + (map_ref \<times> 'r map_overlay)" where
  "map_overlay_store sha node ov =
     rbind (map_node_verify sha node) (\<lambda>_.
     rbind (map_node_entries node) (\<lambda>entries.
     if (case fmlookup (mo_pending ov) (mn_object_id node) of
           None \<Rightarrow> False | Some existing \<Rightarrow> existing \<noteq> node)
     then Err (Integrity ''map_node_identity_conflict'')
     else Ok (\<lparr>mr_object_id = mn_object_id node, mr_entries = entries\<rparr>,
              ov\<lparr>mo_pending := fmupd (mn_object_id node) node (mo_pending ov)\<rparr>)))"

section \<open>Writing nodes\<close>

definition new_leaf ::
  "(string \<Rightarrow> string) \<Rightarrow> string \<Rightarrow> string \<Rightarrow> string \<Rightarrow> 'r map_overlay
   \<Rightarrow> collection_error + (map_ref \<times> 'r map_overlay)" where
  "new_leaf sha key key_hash v ov =
     rbind (map_leaf sha key key_hash v) (\<lambda>node. map_overlay_store sha node ov)"

definition store_branch ::
  "(string \<Rightarrow> string) \<Rightarrow> nat \<Rightarrow> string \<Rightarrow> map_ref \<Rightarrow> map_ref \<Rightarrow> 'r map_overlay
   \<Rightarrow> collection_error + (map_ref \<times> 'r map_overlay)" where
  "store_branch sha depth prefix l r ov =
     rbind (map_branch sha depth prefix l r) (\<lambda>node. map_overlay_store sha node ov)"

definition new_branch ::
  "(string \<Rightarrow> string) \<Rightarrow> nat \<Rightarrow> string \<Rightarrow> map_ref \<Rightarrow> map_ref \<Rightarrow> 'r map_overlay
   \<Rightarrow> collection_error + (map_ref \<times> 'r map_overlay)" where
  "new_branch sha depth key_hash inserted existing ov =
     rbind (hash_bit key_hash depth) (\<lambda>inserted_right.
     rbind (normalized_hash_prefix key_hash depth) (\<lambda>prefix.
     if inserted_right then store_branch sha depth prefix existing inserted ov
     else store_branch sha depth prefix inserted existing ov))"

section \<open>Lookup\<close>

record lookup_outcome =
  lo_value :: "string option"
  lo_rank :: "nat option"

abbreviation absent :: lookup_outcome where
  "absent \<equiv> \<lparr>lo_value = None, lo_rank = None\<rparr>"

text \<open>What a lookup answers at a leaf.\<close>

definition lookup_leaf ::
  "string \<Rightarrow> string \<Rightarrow> string \<Rightarrow> string \<Rightarrow> string \<Rightarrow> nat \<Rightarrow> collection_error + lookup_outcome" where
  "lookup_leaf key key_hash stored_key stored_hash v rank =
     (if stored_key = key \<and> stored_hash = key_hash then Ok \<lparr>lo_value = Some v, lo_rank = Some rank\<rparr>
      else if stored_hash = key_hash then Err (Integrity ''map_key_hash_collision'')
      else Ok absent)"

text \<open>The loop \<^verbatim>\<open>for _ in 0..MAX_MAP_PATH_NODES\<close>.\<close>

fun overlay_lookup_from ::
  "(string \<Rightarrow> string) \<Rightarrow> 'r map_load \<Rightarrow> string \<Rightarrow> string \<Rightarrow> nat \<Rightarrow> map_ref \<Rightarrow> path_constraint list \<Rightarrow> nat
   \<Rightarrow> 'r map_overlay \<Rightarrow> collection_error + (lookup_outcome \<times> 'r map_overlay)" where
  "overlay_lookup_from sha load key key_hash 0 reference constraints rank ov =
     Err (Integrity ''map_path_bound_exceeded'')"
| "overlay_lookup_from sha load key key_hash (Suc n) reference constraints rank ov =
     rbind (map_overlay_load sha load reference ov) (\<lambda>(node, ov).
     case mn_body node of
       MapLeaf stored_key stored_hash v \<Rightarrow>
         rbind (verify_constraints stored_hash constraints) (\<lambda>_.
         rbind (lookup_leaf key key_hash stored_key stored_hash v rank) (\<lambda>outcome. Ok (outcome, ov)))
     | MapBranch depth prefix left right \<Rightarrow>
         rbind (verify_constraints prefix constraints) (\<lambda>_.
         rbind (depth_increases constraints depth) (\<lambda>_.
         rbind (hash_matches_prefix key_hash prefix depth) (\<lambda>matches.
         if \<not> matches then Ok (absent, ov)
         else rbind (hash_bit key_hash depth) (\<lambda>goes_right.
         let constraints = constraints @ [\<lparr>pc_depth = depth, pc_prefix = prefix, pc_right = goes_right\<rparr>] in
         if goes_right then
           rbind (ok_or (Integrity ''map_rank_overflow'') (checked_add rank (mr_entries left))) (\<lambda>rank.
           overlay_lookup_from sha load key key_hash n right constraints rank ov)
         else overlay_lookup_from sha load key key_hash n left constraints rank ov)))))"

definition root_reference :: "map_root \<Rightarrow> map_ref option" where
  "root_reference root = map_option (\<lambda>object_id.
     \<lparr>mr_object_id = object_id, mr_entries = mt_entries root\<rparr>) (mt_node root)"

definition overlay_lookup ::
  "(string \<Rightarrow> string) \<Rightarrow> 'r map_load \<Rightarrow> map_root \<Rightarrow> string \<Rightarrow> string \<Rightarrow> 'r map_overlay
   \<Rightarrow> collection_error + (lookup_outcome \<times> 'r map_overlay)" where
  "overlay_lookup sha load root key key_hash ov =
     (case root_reference root of
        None \<Rightarrow> Ok (absent, ov)
      | Some reference \<Rightarrow>
          overlay_lookup_from sha load key key_hash MAX_MAP_PATH_NODES reference [] 0 ov)"

section \<open>Insertion\<close>

fun insert_node ::
  "(string \<Rightarrow> string) \<Rightarrow> 'r map_load \<Rightarrow> string \<Rightarrow> string \<Rightarrow> string \<Rightarrow> nat \<Rightarrow> map_ref \<Rightarrow> path_constraint list
   \<Rightarrow> 'r map_overlay \<Rightarrow> collection_error + ((map_ref \<times> bool) \<times> 'r map_overlay)" where
  "insert_node sha load key key_hash v 0 reference constraints ov =
     Err (Integrity ''map_path_bound_exceeded'')"
| "insert_node sha load key key_hash v (Suc n) reference constraints ov =
     rbind (map_overlay_load sha load reference ov) (\<lambda>(node, ov).
     case mn_body node of
       MapLeaf stored_key stored_hash _ \<Rightarrow>
         rbind (verify_constraints stored_hash constraints) (\<lambda>_.
         if stored_key = key then
           if stored_hash \<noteq> key_hash then Err (Integrity ''map_key_hash_mismatch'')
           else rbind (new_leaf sha key key_hash v ov) (\<lambda>(leaf, ov). Ok ((leaf, False), ov))
         else if stored_hash = key_hash then Err (Integrity ''map_key_hash_collision'')
         else
           rbind (common_prefix_bits stored_hash key_hash) (\<lambda>depth.
           rbind (new_leaf sha key key_hash v ov) (\<lambda>(inserted, ov).
           rbind (new_branch sha depth key_hash inserted reference ov) (\<lambda>(branch, ov).
           Ok ((branch, True), ov)))))
     | MapBranch depth prefix left right \<Rightarrow>
         rbind (verify_constraints prefix constraints) (\<lambda>_.
         rbind (depth_increases constraints depth) (\<lambda>_.
         rbind (common_prefix_bits prefix key_hash) (\<lambda>common.
         if common < depth then
           rbind (new_leaf sha key key_hash v ov) (\<lambda>(inserted, ov).
           rbind (new_branch sha common key_hash inserted reference ov) (\<lambda>(branch, ov).
           Ok ((branch, True), ov)))
         else
           rbind (hash_bit key_hash depth) (\<lambda>goes_right.
           let constraints = constraints @ [\<lparr>pc_depth = depth, pc_prefix = prefix, pc_right = goes_right\<rparr>] in
           rbind (insert_node sha load key key_hash v n (if goes_right then right else left) constraints ov)
            (\<lambda>((next_child, inserted), ov).
           rbind (if goes_right then store_branch sha depth prefix left next_child ov
                  else store_branch sha depth prefix next_child right ov) (\<lambda>(branch, ov).
           Ok ((branch, inserted), ov))))))))"

definition overlay_put ::
  "(string \<Rightarrow> string) \<Rightarrow> 'r map_load \<Rightarrow> map_root \<Rightarrow> string \<Rightarrow> string \<Rightarrow> string \<Rightarrow> 'r map_overlay
   \<Rightarrow> collection_error + (map_root \<times> 'r map_overlay)" where
  "overlay_put sha load root key key_hash v ov =
     rbind (case root_reference root of
              None \<Rightarrow> rbind (new_leaf sha key key_hash v ov) (\<lambda>(leaf, ov). Ok ((leaf, True), ov))
            | Some reference \<Rightarrow> insert_node sha load key key_hash v MAX_MAP_PATH_NODES reference [] ov)
      (\<lambda>((next_ref, inserted), ov).
     rbind (if inserted then ok_or CValidation (checked_add (mt_entries root) 1) else Ok (mt_entries root)) (\<lambda>entries.
     if MAX_EXACT_INTEGER < entries \<or> mr_entries next_ref \<noteq> entries
     then Err (Integrity ''map_result_count_mismatch'')
     else Ok (\<lparr>mt_node = Some (mr_object_id next_ref), mt_entries = entries\<rparr>, ov)))"

section \<open>Removal\<close>

fun remove_node ::
  "(string \<Rightarrow> string) \<Rightarrow> 'r map_load \<Rightarrow> string \<Rightarrow> string \<Rightarrow> nat \<Rightarrow> map_ref \<Rightarrow> path_constraint list
   \<Rightarrow> 'r map_overlay \<Rightarrow> collection_error + (map_ref option \<times> 'r map_overlay)" where
  "remove_node sha load key key_hash 0 reference constraints ov =
     Err (Integrity ''map_path_bound_exceeded'')"
| "remove_node sha load key key_hash (Suc n) reference constraints ov =
     rbind (map_overlay_load sha load reference ov) (\<lambda>(node, ov).
     case mn_body node of
       MapLeaf stored_key stored_hash _ \<Rightarrow>
         rbind (verify_constraints stored_hash constraints) (\<lambda>_.
         if stored_key = key \<and> stored_hash = key_hash then Ok (None, ov) else Err CConflict)
     | MapBranch depth prefix left right \<Rightarrow>
         rbind (verify_constraints prefix constraints) (\<lambda>_.
         rbind (depth_increases constraints depth) (\<lambda>_.
         rbind (hash_matches_prefix key_hash prefix depth) (\<lambda>matches.
         if \<not> matches then Err CConflict
         else rbind (hash_bit key_hash depth) (\<lambda>goes_right.
         let constraints = constraints @ [\<lparr>pc_depth = depth, pc_prefix = prefix, pc_right = goes_right\<rparr>] in
         rbind (remove_node sha load key key_hash n (if goes_right then right else left) constraints ov)
          (\<lambda>(next_child, ov).
         case next_child of
           None \<Rightarrow> Ok (Some (if goes_right then left else right), ov)
         | Some child \<Rightarrow>
             rbind (if goes_right then store_branch sha depth prefix left child ov
                    else store_branch sha depth prefix child right ov) (\<lambda>(branch, ov).
             Ok (Some branch, ov))))))))"

definition overlay_remove ::
  "(string \<Rightarrow> string) \<Rightarrow> 'r map_load \<Rightarrow> map_root \<Rightarrow> string \<Rightarrow> string \<Rightarrow> 'r map_overlay
   \<Rightarrow> collection_error + (map_root \<times> 'r map_overlay)" where
  "overlay_remove sha load root key key_hash ov =
     rbind (ok_or CConflict (root_reference root)) (\<lambda>reference.
     rbind (remove_node sha load key key_hash MAX_MAP_PATH_NODES reference [] ov) (\<lambda>(next_ref, ov).
     rbind (ok_or (Integrity ''map_remove_count_underflow'') (checked_sub (mt_entries root) 1)) (\<lambda>entries.
     if (case next_ref of None \<Rightarrow> 0 | Some node \<Rightarrow> mr_entries node) \<noteq> entries
     then Err (Integrity ''map_result_count_mismatch'')
     else Ok (\<lparr>mt_node = map_option mr_object_id next_ref, mt_entries = entries\<rparr>, ov))))"

end
