(* ===== verification/Map_Mutation.thy ===== *)
theory Map_Mutation
  imports Map_Overlay Log_Mutation "HOL-Library.Product_Lexorder"
begin

text \<open>
  Exact-key mutations of the authenticated map (\<^verbatim>\<open>map.rs\<close>): their shapes and bounds, the canonical
  order of a batch by key hash and key, the digest that binds it, and the batch applied through
  the overlay.
\<close>

datatype expected_map_value = Absent | Exact string

datatype map_mutation =
    Put string expected_map_value string
  | Remove string string

definition MAP_MUTATION_VERSION :: string where
  "MAP_MUTATION_VERSION = ''cymule.authenticated-map-mutation/1''"

fun mutation_key :: "map_mutation \<Rightarrow> string" where
  "mutation_key (Put key _ _) = key"
| "mutation_key (Remove key _) = key"

definition map_mutation_verify :: "map_mutation \<Rightarrow> collection_error + unit" where
  "map_mutation_verify mutation =
     rbind (validate_key (mutation_key mutation)) (\<lambda>_.
     case mutation of
       Put _ expected v \<Rightarrow>
         rbind (case expected of
                  Absent \<Rightarrow> Ok ()
                | Exact e \<Rightarrow> rbind (coll_validate_content_id e) (\<lambda>_.
                    if e = v then Err CValidation else Ok ())) (\<lambda>_.
         coll_validate_content_id v)
     | Remove _ expected \<Rightarrow> coll_validate_content_id expected)"

fun map_mutation_bytes :: "map_mutation \<Rightarrow> collection_error + nat" where
  "map_mutation_bytes (Put key expected v) =
     (case expected of
        Absent \<Rightarrow> checked_sum (length key) [length v]
      | Exact e \<Rightarrow> checked_sum (length key) [length v, length e])"
| "map_mutation_bytes (Remove key expected) = checked_sum (length key) [length expected]"

text \<open>The loop that validates a batch and derives the order of its keys.\<close>

record canonical_state =
  cs_ordered :: "(string \<times> string \<times> map_mutation) list"
  cs_keys :: "string fset"
  cs_bytes :: nat

definition canonical_step ::
  "(string \<Rightarrow> string) \<Rightarrow> map_mutation \<Rightarrow> canonical_state \<Rightarrow> collection_error + canonical_state" where
  "canonical_step sha mutation s =
     rbind (map_mutation_verify mutation) (\<lambda>_.
     rbind (map_mutation_bytes mutation) (\<lambda>bytes.
     rbind (bounded_add MAX_MUTATION_BYTES (cs_bytes s) bytes) (\<lambda>mutation_bytes.
     if mutation_key mutation |\<in>| cs_keys s then Err CValidation
     else rbind (map_key_hash sha (mutation_key mutation)) (\<lambda>key_hash.
     Ok \<lparr>cs_ordered = cs_ordered s @ [(key_hash, mutation_key mutation, mutation)],
         cs_keys = finsert (mutation_key mutation) (cs_keys s), cs_bytes = mutation_bytes\<rparr>))))"

definition canonical_mutations ::
  "(string \<Rightarrow> string) \<Rightarrow> map_mutation list \<Rightarrow> collection_error + map_mutation list" where
  "canonical_mutations sha mutations =
     (if mutations = [] \<or> MAX_MAP_MUTATIONS_PER_APPLY < length mutations then Err CValidation
      else rbind (rfold (canonical_step sha) mutations \<lparr>cs_ordered = [], cs_keys = {||}, cs_bytes = 0\<rparr>) (\<lambda>s.
      Ok (map (\<lambda>(_, _, mutation). mutation) (sort_key (\<lambda>(h, k, _). (h, k)) (cs_ordered s)))))"

fun map_mutation_fields :: "map_mutation \<Rightarrow> string list" where
  "map_mutation_fields (Put key expected v) =
     [''put'', key] @ (case expected of Absent \<Rightarrow> [''absent''] | Exact e \<Rightarrow> [''exact'', e]) @ [v]"
| "map_mutation_fields (Remove key expected) = [''remove'', key, expected]"

definition map_mutation_digest :: "(string \<Rightarrow> string) \<Rightarrow> map_mutation list \<Rightarrow> string" where
  "map_mutation_digest sha mutations =
     hash_identifier sha MAP_MUTATION_VERSION (concat (map map_mutation_fields mutations))"

section \<open>Applying a batch\<close>

fun expectation_met :: "expected_map_value \<Rightarrow> string option \<Rightarrow> bool" where
  "expectation_met Absent current = (current = None)"
| "expectation_met (Exact e) current = (current = Some e)"

fun apply_map_mutation ::
  "(string \<Rightarrow> string) \<Rightarrow> 'r map_load \<Rightarrow> map_mutation \<Rightarrow> map_root \<times> 'r map_overlay
   \<Rightarrow> collection_error + (map_root \<times> 'r map_overlay)" where
  "apply_map_mutation sha load (Put key expected v) (root, ov) =
     rbind (map_key_hash sha key) (\<lambda>key_hash.
     rbind (overlay_lookup sha load root key key_hash ov) (\<lambda>(current, ov).
     if \<not> expectation_met expected (lo_value current) then Err CConflict
     else overlay_put sha load root key key_hash v ov))"
| "apply_map_mutation sha load (Remove key expected) (root, ov) =
     rbind (map_key_hash sha key) (\<lambda>key_hash.
     rbind (overlay_lookup sha load root key key_hash ov) (\<lambda>(current, ov).
     if lo_value current \<noteq> Some expected then Err CConflict
     else overlay_remove sha load root key key_hash ov))"

definition apply_map_internal ::
  "(string \<Rightarrow> string) \<Rightarrow> 'r map_load \<Rightarrow> map_root \<Rightarrow> map_mutation list \<Rightarrow> 'r map_overlay
   \<Rightarrow> collection_error + (map_root \<times> 'r map_overlay)" where
  "apply_map_internal sha load parent mutations ov =
     rbind (rfold (apply_map_mutation sha load) mutations (parent, ov)) (\<lambda>(root, ov).
     rbind (map_root_verify root) (\<lambda>_. Ok (root, ov)))"

end
