(* ===== verification/Map_Proof.thy ===== *)
theory Map_Proof
  imports Map_Mutation
begin

text \<open>
  Portable proofs over the authenticated map (\<^verbatim>\<open>map.rs\<close>): the resolvers, exact membership and
  non-membership with the rank of a member, and bounded pages in the order of key hash and key.
\<close>

section \<open>Resolvers\<close>

record 'r recording_map_resolver =
  rm_inner :: 'r
  rm_nodes :: "(string, map_node) fmap"

definition recording_map_new :: "'r \<Rightarrow> 'r recording_map_resolver" where
  "recording_map_new r = \<lparr>rm_inner = r, rm_nodes = fmempty\<rparr>"

definition recording_map_load :: "'r map_load \<Rightarrow> 'r recording_map_resolver map_load" where
  "recording_map_load load object_id r =
     (case fmlookup (rm_nodes r) object_id of
        Some node \<Rightarrow> Ok (Some node, r)
      | None \<Rightarrow>
          rbind (load object_id (rm_inner r)) (\<lambda>(found, inner).
          Ok (found, r\<lparr>rm_inner := inner,
            rm_nodes := (case found of None \<Rightarrow> rm_nodes r | Some node \<Rightarrow> fmupd object_id node (rm_nodes r))\<rparr>)))"

definition verify_map_proof_bytes :: "map_node list \<Rightarrow> collection_error + unit" where
  "verify_map_proof_bytes nodes =
     rbind (rfold (\<lambda>node bytes. rbind (map_logical_bytes node) (bounded_add MAX_PROOF_BYTES bytes)) nodes 0)
      (\<lambda>_. Ok ())"

definition index_map_proof_node ::
  "(string \<Rightarrow> string) \<Rightarrow> string \<Rightarrow> map_node \<Rightarrow> (string, map_node) fmap
   \<Rightarrow> collection_error + (string, map_node) fmap" where
  "index_map_proof_node sha duplicate node indexed =
     rbind (map_node_verify sha node) (\<lambda>_.
     if fmlookup indexed (mn_object_id node) \<noteq> None then Err (Integrity duplicate)
     else Ok (fmupd (mn_object_id node) node indexed))"

definition index_map_proof_nodes ::
  "(string \<Rightarrow> string) \<Rightarrow> string \<Rightarrow> map_node list \<Rightarrow> nat \<Rightarrow> collection_error + (string, map_node) fmap" where
  "index_map_proof_nodes sha duplicate nodes maximum =
     (if maximum < length nodes then Err CValidation
      else rbind (verify_map_proof_bytes nodes) (\<lambda>_.
      rfold (index_map_proof_node sha duplicate) nodes fmempty))"

record proof_map_resolver =
  pm_nodes :: "(string, map_node) fmap"
  pm_used :: "string fset"

definition proof_map_new_bounded ::
  "(string \<Rightarrow> string) \<Rightarrow> map_node list \<Rightarrow> nat \<Rightarrow> collection_error + proof_map_resolver" where
  "proof_map_new_bounded sha nodes maximum =
     rbind (index_map_proof_nodes sha ''map_proof_duplicate_node'' nodes maximum) (\<lambda>indexed.
     Ok \<lparr>pm_nodes = indexed, pm_used = {||}\<rparr>)"

definition proof_map_new :: "(string \<Rightarrow> string) \<Rightarrow> map_node list \<Rightarrow> collection_error + proof_map_resolver" where
  "proof_map_new sha nodes = proof_map_new_bounded sha nodes MAX_MAP_PATH_NODES"

definition proof_map_load :: "proof_map_resolver map_load" where
  "proof_map_load object_id r =
     (case fmlookup (pm_nodes r) object_id of
        None \<Rightarrow> Ok (None, r)
      | Some node \<Rightarrow> Ok (Some node, r\<lparr>pm_used := finsert object_id (pm_used r)\<rparr>))"

definition proof_map_finish :: "proof_map_resolver \<Rightarrow> collection_error + unit" where
  "proof_map_finish r =
     (if fcard (pm_used r) \<noteq> fcard (fmdom (pm_nodes r)) then Err (Integrity ''map_proof_unused_node'')
      else Ok ())"

record apply_proof_map_resolver =
  am_nodes :: "(string, map_node) fmap"
  am_requested :: "string fset"

definition apply_proof_map_new ::
  "(string \<Rightarrow> string) \<Rightarrow> map_node list \<Rightarrow> collection_error + apply_proof_map_resolver" where
  "apply_proof_map_new sha nodes =
     rbind (index_map_proof_nodes sha ''map_apply_duplicate_node'' nodes
       (MAX_MAP_PATH_NODES * MAX_MAP_MUTATIONS_PER_APPLY * 2)) (\<lambda>indexed.
     Ok \<lparr>am_nodes = indexed, am_requested = {||}\<rparr>)"

definition apply_proof_map_load :: "apply_proof_map_resolver map_load" where
  "apply_proof_map_load object_id r =
     Ok (fmlookup (am_nodes r) object_id, r\<lparr>am_requested := finsert object_id (am_requested r)\<rparr>)"

definition apply_proof_map_finish ::
  "string fset \<Rightarrow> apply_proof_map_resolver \<Rightarrow> collection_error + unit" where
  "apply_proof_map_finish loaded r =
     (if loaded \<noteq> fmdom (am_nodes r) \<or> \<not> loaded |\<subseteq>| am_requested r
      then Err (Integrity ''map_apply_node_closure_mismatch'') else Ok ())"

section \<open>Exact reads\<close>

definition load_resolved_map_node ::
  "(string \<Rightarrow> string) \<Rightarrow> 'r map_load \<Rightarrow> map_ref \<Rightarrow> 'r \<Rightarrow> collection_error + (map_node \<times> 'r)" where
  "load_resolved_map_node sha load reference r =
     rbind (load (mr_object_id reference) r) (\<lambda>(found, r).
     rbind (ok_or (MissingObject (mr_object_id reference)) found) (\<lambda>node.
     rbind (map_node_verify sha node) (\<lambda>_.
     if mn_object_id node \<noteq> mr_object_id reference then Err (Integrity ''map_resolved_child_mismatch'')
     else rbind (map_node_entries node) (\<lambda>entries.
     if entries \<noteq> mr_entries reference then Err (Integrity ''map_resolved_child_mismatch'')
     else Ok (node, r)))))"

fun lookup_from ::
  "(string \<Rightarrow> string) \<Rightarrow> 'r map_load \<Rightarrow> string \<Rightarrow> string \<Rightarrow> nat \<Rightarrow> map_ref \<Rightarrow> path_constraint list \<Rightarrow> nat
   \<Rightarrow> 'r \<Rightarrow> collection_error + (lookup_outcome \<times> 'r)" where
  "lookup_from sha load key key_hash 0 reference constraints rank r =
     Err (Integrity ''map_path_bound_exceeded'')"
| "lookup_from sha load key key_hash (Suc n) reference constraints rank r =
     rbind (load_resolved_map_node sha load reference r) (\<lambda>(node, r).
     case mn_body node of
       MapLeaf stored_key stored_hash v \<Rightarrow>
         rbind (verify_constraints stored_hash constraints) (\<lambda>_.
         rbind (lookup_leaf key key_hash stored_key stored_hash v rank) (\<lambda>outcome. Ok (outcome, r)))
     | MapBranch depth prefix left right \<Rightarrow>
         rbind (verify_constraints prefix constraints) (\<lambda>_.
         rbind (depth_increases constraints depth) (\<lambda>_.
         rbind (hash_matches_prefix key_hash prefix depth) (\<lambda>matches.
         if \<not> matches then Ok (absent, r)
         else rbind (hash_bit key_hash depth) (\<lambda>goes_right.
         let constraints = constraints @ [\<lparr>pc_depth = depth, pc_prefix = prefix, pc_right = goes_right\<rparr>] in
         if goes_right then
           rbind (ok_or (Integrity ''map_rank_overflow'') (checked_add rank (mr_entries left))) (\<lambda>rank.
           if \<not> rank < MAX_EXACT_INTEGER then Err (Integrity ''map_rank_overflow'')
           else lookup_from sha load key key_hash n right constraints rank r)
         else lookup_from sha load key key_hash n left constraints rank r)))))"

definition lookup ::
  "(string \<Rightarrow> string) \<Rightarrow> 'r map_load \<Rightarrow> map_root \<Rightarrow> string \<Rightarrow> string \<Rightarrow> 'r
   \<Rightarrow> collection_error + (lookup_outcome \<times> 'r)" where
  "lookup sha load root key key_hash r =
     rbind (map_root_verify root) (\<lambda>_.
     case root_reference root of
       None \<Rightarrow> Ok (absent, r)
     | Some reference \<Rightarrow> lookup_from sha load key key_hash MAX_MAP_PATH_NODES reference [] 0 r)"

record map_exact_proof =
  xm_root :: map_root
  xm_key :: string
  xm_key_hash :: string
  xm_nodes :: "map_node list"

record verified_map_read =
  vm_root :: map_root
  vm_key :: string
  vm_value :: "string option"
  vm_rank :: "nat option"

definition prove_map_exact ::
  "(string \<Rightarrow> string) \<Rightarrow> 'r map_load \<Rightarrow> map_root \<Rightarrow> string \<Rightarrow> 'r \<Rightarrow> collection_error + map_exact_proof" where
  "prove_map_exact sha load root key r =
     rbind (map_root_verify root) (\<lambda>_.
     rbind (map_key_hash sha key) (\<lambda>key_hash.
     rbind (lookup sha (recording_map_load load) root key key_hash (recording_map_new r)) (\<lambda>(_, recorder).
     Ok \<lparr>xm_root = root, xm_key = key, xm_key_hash = key_hash, xm_nodes = values_of (rm_nodes recorder)\<rparr>)))"

definition verify_map_exact ::
  "(string \<Rightarrow> string) \<Rightarrow> map_root \<Rightarrow> string \<Rightarrow> map_exact_proof \<Rightarrow> collection_error + verified_map_read" where
  "verify_map_exact sha expected_root expected_key prf =
     rbind (map_root_verify expected_root) (\<lambda>_.
     if xm_root prf \<noteq> expected_root \<or> xm_key prf \<noteq> expected_key
     then Err (Integrity ''map_exact_authority_mismatch'')
     else
      rbind (map_key_hash sha expected_key) (\<lambda>key_hash.
      if xm_key_hash prf \<noteq> key_hash then Err (Integrity ''map_exact_key_hash_mismatch'')
      else
       rbind (proof_map_new sha (xm_nodes prf)) (\<lambda>resolver.
       rbind (lookup sha proof_map_load expected_root expected_key (xm_key_hash prf) resolver) (\<lambda>(outcome, resolver).
       rbind (proof_map_finish resolver) (\<lambda>_.
       Ok \<lparr>vm_root = expected_root, vm_key = expected_key, vm_value = lo_value outcome,
           vm_rank = lo_rank outcome\<rparr>)))))"

section \<open>Pages\<close>

record map_position =
  ps_key :: string
  ps_key_hash :: string

definition position_for_key :: "(string \<Rightarrow> string) \<Rightarrow> string \<Rightarrow> collection_error + map_position" where
  "position_for_key sha key =
     rbind (map_key_hash sha key) (\<lambda>key_hash. Ok \<lparr>ps_key = key, ps_key_hash = key_hash\<rparr>)"

definition position_verify :: "(string \<Rightarrow> string) \<Rightarrow> map_position \<Rightarrow> collection_error + unit" where
  "position_verify sha position =
     rbind (map_key_hash sha (ps_key position)) (\<lambda>key_hash.
     if ps_key_hash position \<noteq> key_hash then Err CValidation else Ok ())"

record map_range_proof =
  mp_root :: map_root
  mp_after :: "map_position option"
  mp_limit :: nat
  mp_max_bytes :: nat
  mp_nodes :: "map_node list"

record verified_map_page =
  pg_root :: map_root
  pg_after :: "map_position option"
  pg_entries :: "(map_position \<times> string) list"
  pg_next_position :: "map_position option"

record map_range_selection =
  ms_entries :: "(map_position \<times> string) list"
  ms_used_bytes :: nat
  ms_boundary :: "(map_position \<times> string) option"

definition MAX_MAP_RANGE_PROOF_NODES :: nat where
  "MAX_MAP_RANGE_PROOF_NODES = MAX_MAP_PATH_NODES * 4 + MAX_PAGE_ENTRIES * 2 + 4"

definition validate_page_request :: "nat \<Rightarrow> nat \<Rightarrow> collection_error + unit" where
  "validate_page_request limit max_bytes =
     (if limit < 1 \<or> MAX_PAGE_ENTRIES < limit then Err CValidation
      else if max_bytes < 1 \<or> MAX_PAGE_BYTES < max_bytes then Err CValidation
      else Ok ())"

definition page_entry_bytes :: "map_position \<Rightarrow> string \<Rightarrow> collection_error + nat" where
  "page_entry_bytes position v =
     checked_sum (length (ps_key position)) [length (ps_key_hash position), length v]"

definition map_range_start ::
  "(string \<Rightarrow> string) \<Rightarrow> 'r map_load \<Rightarrow> map_root \<Rightarrow> map_position option \<Rightarrow> 'r \<Rightarrow> collection_error + (nat \<times> 'r)" where
  "map_range_start sha load root after r =
     (case after of
        None \<Rightarrow> Ok (0, r)
      | Some position \<Rightarrow>
          rbind (position_verify sha position) (\<lambda>_.
          rbind (lookup sha load root (ps_key position) (ps_key_hash position) r) (\<lambda>(outcome, r).
          if lo_value outcome = None then Err CConflict
          else rbind (ok_or (Integrity ''map_page_rank_overflow'')
             (case lo_rank outcome of None \<Rightarrow> None | Some rank \<Rightarrow> checked_add rank 1)) (\<lambda>start.
          Ok (start, r)))))"

definition map_visit_leaf ::
  "(string \<Rightarrow> string) \<Rightarrow> nat \<Rightarrow> nat \<Rightarrow> nat \<Rightarrow> path_constraint list \<Rightarrow> nat \<Rightarrow> string \<Rightarrow> string \<Rightarrow> string
   \<Rightarrow> map_range_selection \<Rightarrow> collection_error + map_range_selection" where
  "map_visit_leaf sha start limit max_bytes constraints base_rank key key_hash v selection =
     rbind (verify_constraints key_hash constraints) (\<lambda>_.
     if base_rank < start then Ok selection
     else
      let position = \<lparr>ps_key = key, ps_key_hash = key_hash\<rparr> in
      rbind (position_verify sha position) (\<lambda>_.
      rbind (coll_validate_content_id v) (\<lambda>_.
      rbind (page_entry_bytes position v) (\<lambda>entry_bytes.
      rbind (ok_or CValidation (checked_add (ms_used_bytes selection) entry_bytes)) (\<lambda>next_bytes.
      if length (ms_entries selection) < limit \<and> next_bytes \<le> max_bytes
      then Ok (selection\<lparr>ms_used_bytes := next_bytes, ms_entries := ms_entries selection @ [(position, v)]\<rparr>)
      else Ok (selection\<lparr>ms_boundary := Some (position, v)\<rparr>))))))"

text \<open>The recursive walk. A child's entry count is smaller than its parent's, which the loaded node
  confirms, so the walk descends by that count.\<close>

lemma load_resolved_map_entries:
  assumes "load_resolved_map_node sha load reference r = Ok (node, r')" "mn_body node = MapBranch depth prefix left right"
  shows "mr_entries left < mr_entries reference \<and> mr_entries right < mr_entries reference"
  using assms
  by (auto simp: load_resolved_map_node_def map_node_entries_def map_node_verify_def map_body_verify_def
      map_child_verify_def split: prod.splits if_splits)

function map_visit ::
  "(string \<Rightarrow> string) \<Rightarrow> 'r map_load \<Rightarrow> nat \<Rightarrow> nat \<Rightarrow> nat \<Rightarrow> path_constraint list \<Rightarrow> map_ref \<Rightarrow> nat
   \<Rightarrow> map_range_selection \<Rightarrow> 'r \<Rightarrow> collection_error + (map_range_selection \<times> 'r)" where
  "map_visit sha load start limit max_bytes constraints reference base_rank selection r =
     (if ms_boundary selection \<noteq> None then Ok (selection, r)
      else
       rbind (ok_or (Integrity ''map_range_rank_overflow'') (checked_add base_rank (mr_entries reference))) (\<lambda>end_rank.
       if end_rank \<le> start then Ok (selection, r)
       else
        rbind (load_resolved_map_node sha load reference r) (\<lambda>(node, r).
        case mn_body node of
          MapLeaf key key_hash v \<Rightarrow>
            rbind (map_visit_leaf sha start limit max_bytes constraints base_rank key key_hash v selection)
             (\<lambda>selection. Ok (selection, r))
        | MapBranch depth prefix left right \<Rightarrow>
            rbind (verify_constraints prefix constraints) (\<lambda>_.
            rbind (depth_increases constraints depth) (\<lambda>_.
            rbind (map_visit sha load start limit max_bytes
                (constraints @ [\<lparr>pc_depth = depth, pc_prefix = prefix, pc_right = False\<rparr>]) left base_rank selection r)
             (\<lambda>(selection, r).
            rbind (ok_or (Integrity ''map_range_rank_overflow'') (checked_add base_rank (mr_entries left))) (\<lambda>right_rank.
            map_visit sha load start limit max_bytes
              (constraints @ [\<lparr>pc_depth = depth, pc_prefix = prefix, pc_right = True\<rparr>]) right right_rank selection r)))))))"
  by pat_completeness auto
termination
  by (relation "measure (\<lambda>(sha, load, start, limit, max_bytes, constraints, reference, _). mr_entries reference)")
    (auto dest!: load_resolved_map_entries simp del: rbind_eq_Ok)

declare map_visit.simps [simp del]

abbreviation empty_selection :: map_range_selection where
  "empty_selection \<equiv> \<lparr>ms_entries = [], ms_used_bytes = 0, ms_boundary = None\<rparr>"

definition collect_map_range ::
  "(string \<Rightarrow> string) \<Rightarrow> 'r map_load \<Rightarrow> map_root \<Rightarrow> nat \<Rightarrow> nat \<Rightarrow> nat \<Rightarrow> 'r
   \<Rightarrow> collection_error + (map_range_selection \<times> 'r)" where
  "collect_map_range sha load root start limit max_bytes r =
     (if mt_entries root < start then Err (Integrity ''map_range_start_mismatch'')
      else
       (case root_reference root of
          None \<Rightarrow> Ok (empty_selection, r)
        | Some reference \<Rightarrow>
            rbind (map_visit sha load start limit max_bytes [] reference 0 empty_selection r) (\<lambda>(selection, r).
            if ms_entries selection = [] \<and> ms_boundary selection \<noteq> None then Err CValidation
            else Ok (selection, r))))"

definition prove_map_range ::
  "(string \<Rightarrow> string) \<Rightarrow> 'r map_load \<Rightarrow> map_root \<Rightarrow> map_position option \<Rightarrow> nat \<Rightarrow> nat \<Rightarrow> 'r
   \<Rightarrow> collection_error + map_range_proof" where
  "prove_map_range sha load root after limit max_bytes r =
     rbind (validate_page_request limit max_bytes) (\<lambda>_.
     rbind (map_root_verify root) (\<lambda>_.
     rbind (map_range_start sha (recording_map_load load) root after (recording_map_new r)) (\<lambda>(start, recorder).
     rbind (collect_map_range sha (recording_map_load load) root start limit max_bytes recorder) (\<lambda>(_, recorder).
     if 2 ^ 16 \<le> limit then Err CValidation
     else Ok \<lparr>mp_root = root, mp_after = after, mp_limit = limit, mp_max_bytes = max_bytes,
              mp_nodes = values_of (rm_nodes recorder)\<rparr>))))"

definition verify_map_range ::
  "(string \<Rightarrow> string) \<Rightarrow> map_root \<Rightarrow> map_position option \<Rightarrow> nat \<Rightarrow> nat \<Rightarrow> map_range_proof
   \<Rightarrow> collection_error + verified_map_page" where
  "verify_map_range sha expected_root expected_after limit max_bytes prf =
     rbind (validate_page_request limit max_bytes) (\<lambda>_.
     rbind (map_root_verify expected_root) (\<lambda>_.
     if mp_root prf \<noteq> expected_root \<or> mp_after prf \<noteq> expected_after
        \<or> mp_limit prf \<noteq> limit \<or> mp_max_bytes prf \<noteq> max_bytes
     then Err (Integrity ''map_range_authority_mismatch'')
     else if MAX_MAP_RANGE_PROOF_NODES < length (mp_nodes prf) then Err CValidation
     else
      rbind (verify_map_proof_bytes (mp_nodes prf)) (\<lambda>_.
      rbind (proof_map_new_bounded sha (mp_nodes prf) MAX_MAP_RANGE_PROOF_NODES) (\<lambda>resolver.
      rbind (map_range_start sha proof_map_load expected_root expected_after resolver) (\<lambda>(start, resolver).
      rbind (collect_map_range sha proof_map_load expected_root start limit max_bytes resolver) (\<lambda>(selection, resolver).
      rbind (proof_map_finish resolver) (\<lambda>_.
      Ok \<lparr>pg_root = expected_root, pg_after = expected_after, pg_entries = ms_entries selection,
          pg_next_position = (case ms_boundary selection of
             None \<Rightarrow> None
           | Some _ \<Rightarrow> if ms_entries selection = [] then None
                       else Some (fst (last (ms_entries selection))))\<rparr>)))))))"

end
