(* ===== verification/Map_Apply.thy ===== *)
theory Map_Apply
  imports Map_Proof Log_Apply
begin

text \<open>
  The state-changing entry points of the authenticated map (\<^verbatim>\<open>map.rs\<close>): mutation batches with
  their proofs and the nodes a provider must persist, the complete audit, and the bottom-up build
  of a genesis set.
\<close>

section \<open>Nodes to persist\<close>

text \<open>The depth-first walk over pending nodes. A node enters the stack with the entry count of its
  edge, which the walk checks, so a branch is replaced by two references that share its entries.\<close>

definition map_stack_weight :: "map_ref list \<Rightarrow> nat" where
  "map_stack_weight stack = sum_list (map (\<lambda>c. 2 * mr_entries c - 1) stack)"

lemma map_stack_weight_Cons [simp]:
  "map_stack_weight (c # stack) = 2 * mr_entries c - 1 + map_stack_weight stack"
  by (simp add: map_stack_weight_def)

text \<open>A verified branch has as many entries as its children, and each child has some.\<close>

lemma verified_branch_entries:
  assumes "map_node_verify sha node = Ok u" "map_node_entries node = Ok n" "mn_body node = MapBranch depth prefix left right"
  shows "n = mr_entries left + mr_entries right \<and> 0 < mr_entries left \<and> 0 < mr_entries right"
  using assms
  by (auto simp: map_node_entries_def map_node_verify_def map_body_verify_def map_child_verify_def split: if_splits)

lemma load_resolved_map_branch:
  assumes "load_resolved_map_node sha load reference r = Ok (node, r')" "mn_body node = MapBranch depth prefix left right"
  shows "mr_entries reference = mr_entries left + mr_entries right \<and> 0 < mr_entries left \<and> 0 < mr_entries right"
proof -
  have "map_node_verify sha node = Ok ()" "map_node_entries node = Ok (mr_entries reference)"
    using assms(1) by (auto simp: load_resolved_map_node_def split: if_splits)
  from verified_branch_entries [OF this assms(2)] show ?thesis .
qed

function collect_created_map ::
  "(string \<Rightarrow> string) \<Rightarrow> 'r map_load \<Rightarrow> map_ref list \<Rightarrow> string fset \<Rightarrow> (string, map_node) fmap
   \<Rightarrow> 'r map_overlay \<Rightarrow> collection_error + ((string, map_node) fmap \<times> 'r map_overlay)" where
  "collect_created_map sha load [] visited made ov = Ok (made, ov)"
| "collect_created_map sha load (c # stack) visited made ov =
     (if mr_object_id c |\<in>| visited then collect_created_map sha load stack visited made ov
      else
       let visited = finsert (mr_object_id c) visited in
       (case fmlookup (mo_pending ov) (mr_object_id c) of
          None \<Rightarrow> collect_created_map sha load stack visited made ov
        | Some node \<Rightarrow>
            rbind (map_node_verify sha node) (\<lambda>_.
            rbind (map_node_entries node) (\<lambda>entries.
            if entries \<noteq> mr_entries c then Err (Integrity ''map_created_child_shape_mismatch'')
            else if fmlookup (mo_loaded ov) (mn_object_id node) \<noteq> None
            then collect_created_map sha load stack visited made ov
            else rbind (load (mn_object_id node) (mo_resolver ov)) (\<lambda>(found, r).
             let ov = ov\<lparr>mo_resolver := r\<rparr> in
             (case found of
                Some existing \<Rightarrow>
                  rbind (map_node_verify sha existing) (\<lambda>_.
                  if existing \<noteq> node then Err (Integrity ''map_existing_node_identity_conflict'')
                  else collect_created_map sha load stack visited made ov)
              | None \<Rightarrow>
                  let made = fmupd (mn_object_id node) node made in
                  (case mn_body node of
                     MapLeaf _ _ _ \<Rightarrow> collect_created_map sha load stack visited made ov
                   | MapBranch _ _ left right \<Rightarrow>
                       collect_created_map sha load (left # right # stack) visited made ov)))))))"
  by pat_completeness auto
termination
proof (relation "measures [\<lambda>(sha, load, stack, _). map_stack_weight stack, \<lambda>(sha, load, stack, _). length stack]", goal_cases)
  case (6 sha load c stack visited made ov visited' node u entries x found r ov' made' depth prefix left right)
  then have "entries = mr_entries left + mr_entries right" "0 < mr_entries left" "0 < mr_entries right" "entries = mr_entries c"
    using verified_branch_entries by (auto split: if_splits)
  then show ?case by simp
qed auto

declare collect_created_map.simps [simp del]

definition collect_reachable_created_map_nodes ::
  "(string \<Rightarrow> string) \<Rightarrow> 'r map_load \<Rightarrow> map_root \<Rightarrow> 'r map_overlay \<Rightarrow> collection_error + map_node list" where
  "collect_reachable_created_map_nodes sha load root ov =
     (case root_reference root of
        None \<Rightarrow> Ok []
      | Some reference \<Rightarrow>
          rbind (collect_created_map sha load [reference] {||} fmempty ov) (\<lambda>(made, _). Ok (values_of made)))"

section \<open>Mutation batches\<close>

record map_apply_proof =
  mpf_parent :: map_root
  mpf_result :: map_root
  mpf_mutations :: "map_mutation list"
  mpf_nodes :: "map_node list"

record verified_map_apply =
  vma_parent :: map_root
  vma_result :: map_root
  vma_mutations :: "map_mutation list"
  vma_mutation_digest :: string

record map_apply_output =
  mao_verified :: verified_map_apply
  mao_proof :: map_apply_proof
  mao_objects :: "map_node list"

definition verify_map_apply ::
  "(string \<Rightarrow> string) \<Rightarrow> map_root \<Rightarrow> map_mutation list \<Rightarrow> map_apply_proof
   \<Rightarrow> collection_error + verified_map_apply" where
  "verify_map_apply sha expected_parent expected_mutations prf =
     rbind (map_root_verify expected_parent) (\<lambda>_.
     rbind (canonical_mutations sha expected_mutations) (\<lambda>mutations.
     if mpf_parent prf \<noteq> expected_parent \<or> mpf_mutations prf \<noteq> mutations
     then Err (Integrity ''map_apply_authority_mismatch'')
     else
      rbind (apply_proof_map_new sha (mpf_nodes prf)) (\<lambda>resolver.
      rbind (apply_map_internal sha apply_proof_map_load expected_parent mutations (map_overlay_new resolver))
       (\<lambda>(result, ov).
      if result \<noteq> mpf_result prf then Err (Integrity ''map_apply_result_mismatch'')
      else rbind (apply_proof_map_finish (fmdom (mo_loaded ov)) (mo_resolver ov)) (\<lambda>_.
      Ok \<lparr>vma_parent = expected_parent, vma_result = result, vma_mutations = mutations,
          vma_mutation_digest = map_mutation_digest sha mutations\<rparr>)))))"

definition apply_map_mutations ::
  "(string \<Rightarrow> string) \<Rightarrow> 'r map_load \<Rightarrow> map_root \<Rightarrow> map_mutation list \<Rightarrow> 'r
   \<Rightarrow> collection_error + map_apply_output" where
  "apply_map_mutations sha load parent mutations r =
     rbind (map_root_verify parent) (\<lambda>_.
     rbind (canonical_mutations sha mutations) (\<lambda>mutations.
     rbind (apply_map_internal sha load parent mutations (map_overlay_new r)) (\<lambda>(result, ov).
     let proof_nodes = values_of (mo_loaded ov) in
     rbind (collect_reachable_created_map_nodes sha load result ov) (\<lambda>objects.
     let prf = \<lparr>mpf_parent = parent, mpf_result = result, mpf_mutations = mutations,
                mpf_nodes = proof_nodes\<rparr> in
     rbind (verify_map_apply sha parent mutations prf) (\<lambda>verified.
     Ok \<lparr>mao_verified = verified, mao_proof = prf, mao_objects = objects\<rparr>)))))"

section \<open>Complete audit\<close>

record map_audit =
  ma_entries :: "(map_position \<times> string) list"
  ma_objects :: "map_node list"

record audit_state =
  as_visited :: "string fset"
  as_keys :: "string fset"
  as_entries :: "(map_position \<times> string) list"
  as_objects :: "map_node list"

definition audit_leaf ::
  "path_constraint list \<Rightarrow> string \<Rightarrow> string \<Rightarrow> string \<Rightarrow> audit_state \<Rightarrow> collection_error + audit_state" where
  "audit_leaf constraints key key_hash v s =
     rbind (verify_constraints key_hash constraints) (\<lambda>_.
     if key |\<in>| as_keys s then Err (Integrity ''map_audit_duplicate_key'')
     else Ok (s\<lparr>as_keys := finsert key (as_keys s),
               as_entries := as_entries s @ [(\<lparr>ps_key = key, ps_key_hash = key_hash\<rparr>, v)]\<rparr>))"

text \<open>The explicit stack of the walk: references with the constraints of their paths.\<close>

function audit_map_stack ::
  "(string \<Rightarrow> string) \<Rightarrow> 'r map_load \<Rightarrow> (map_ref \<times> path_constraint list) list \<Rightarrow> audit_state \<Rightarrow> 'r
   \<Rightarrow> collection_error + (audit_state \<times> 'r)" where
  "audit_map_stack sha load [] s r = Ok (s, r)"
| "audit_map_stack sha load ((reference, constraints) # stack) s r =
     (if mr_object_id reference |\<in>| as_visited s then Err (Integrity ''map_audit_repeated_node'')
      else
       let s = s\<lparr>as_visited := finsert (mr_object_id reference) (as_visited s)\<rparr> in
       rbind (load_resolved_map_node sha load reference r) (\<lambda>(node, r).
       case mn_body node of
         MapLeaf key key_hash v \<Rightarrow>
           rbind (audit_leaf constraints key key_hash v s) (\<lambda>s.
           audit_map_stack sha load stack (s\<lparr>as_objects := as_objects s @ [node]\<rparr>) r)
       | MapBranch depth prefix left right \<Rightarrow>
           rbind (verify_constraints prefix constraints) (\<lambda>_.
           rbind (depth_increases constraints depth) (\<lambda>_.
           audit_map_stack sha load
             ((left, constraints @ [\<lparr>pc_depth = depth, pc_prefix = prefix, pc_right = False\<rparr>])
              # (right, constraints @ [\<lparr>pc_depth = depth, pc_prefix = prefix, pc_right = True\<rparr>]) # stack)
             (s\<lparr>as_objects := as_objects s @ [node]\<rparr>) r))))"
  by pat_completeness auto
termination
proof (relation "measures [\<lambda>(sha, load, stack, _). map_stack_weight (map fst stack), \<lambda>(sha, load, stack, _). length stack]", goal_cases)
  case (3 sha load reference constraints stack s r s' x node r' depth prefix left right)
  then have "mr_entries reference = mr_entries left + mr_entries right" "0 < mr_entries left" "0 < mr_entries right"
    using load_resolved_map_branch by metis+
  then show ?case by simp
qed auto

declare audit_map_stack.simps [simp del]

definition position_order :: "map_position \<times> string \<Rightarrow> string \<times> string" where
  "position_order e = (ps_key_hash (fst e), ps_key (fst e))"

definition audit_map :: "(string \<Rightarrow> string) \<Rightarrow> 'r map_load \<Rightarrow> map_root \<Rightarrow> 'r \<Rightarrow> collection_error + map_audit" where
  "audit_map sha load root r =
     rbind (map_root_verify root) (\<lambda>_.
     case root_reference root of
       None \<Rightarrow> Ok \<lparr>ma_entries = [], ma_objects = []\<rparr>
     | Some reference \<Rightarrow>
         rbind (audit_map_stack sha load [(reference, [])]
            \<lparr>as_visited = {||}, as_keys = {||}, as_entries = [], as_objects = []\<rparr> r) (\<lambda>(s, _).
         if length (as_entries s) \<noteq> mt_entries root \<or> \<not> sorted_wrt (<) (map position_order (as_entries s))
         then Err (Integrity ''map_audit_order_or_count_mismatch'')
         else Ok \<lparr>ma_entries = as_entries s, ma_objects = sort_key mn_object_id (as_objects s)\<rparr>))"

section \<open>Bottom-up build\<close>

record map_build_output =
  mbo_root :: map_root
  mbo_objects :: "map_node list"

record map_build_entry =
  be_key_hash :: string
  be_key :: string
  be_value :: string

definition store_built_map_node ::
  "(string \<Rightarrow> string) \<Rightarrow> map_node \<Rightarrow> (string, map_node) fmap
   \<Rightarrow> collection_error + (map_ref \<times> (string, map_node) fmap)" where
  "store_built_map_node sha node objects =
     rbind (map_node_verify sha node) (\<lambda>_.
     rbind (map_node_entries node) (\<lambda>entries.
     let reference = \<lparr>mr_object_id = mn_object_id node, mr_entries = entries\<rparr> in
     (case fmlookup objects (mn_object_id node) of
        None \<Rightarrow> Ok (reference, fmupd (mn_object_id node) node objects)
      | Some existing \<Rightarrow>
          if existing \<noteq> node then Err (Integrity ''map_node_identity_conflict'')
          else Ok (reference, objects))))"

text \<open>The loop that counts the entries whose bit at the branch depth is clear.\<close>

fun split_built :: "nat \<Rightarrow> map_build_entry list \<Rightarrow> collection_error + nat" where
  "split_built depth [] = Ok 0"
| "split_built depth (e # es) =
     rbind (hash_bit (be_key_hash e) depth) (\<lambda>bit.
     if bit then Ok 0 else rbind (split_built depth es) (\<lambda>n. Ok (Suc n)))"

lemma split_built_le: "split_built depth es = Ok n \<Longrightarrow> n \<le> length es"
  by (induction es arbitrary: n) (auto split: if_splits)

function build_map_subtree ::
  "(string \<Rightarrow> string) \<Rightarrow> map_build_entry list \<Rightarrow> (string, map_node) fmap
   \<Rightarrow> collection_error + (map_ref \<times> (string, map_node) fmap)" where
  "build_map_subtree sha es objects =
     (if es = [] then Err (Integrity ''map_build_empty_subtree'')
      else
       let first = hd es in
       if length es = 1 then
         rbind (map_leaf sha (be_key first) (be_key_hash first) (be_value first)) (\<lambda>node.
         store_built_map_node sha node objects)
       else if be_key_hash first = be_key_hash (last es) then Err (Integrity ''map_key_hash_collision'')
       else
        rbind (common_prefix_bits (be_key_hash first) (be_key_hash (last es))) (\<lambda>depth.
        rbind (split_built depth es) (\<lambda>split.
        if split = length es \<or> split = 0 then Err (Integrity ''map_build_partition_mismatch'')
        else
         rbind (build_map_subtree sha (take split es) objects) (\<lambda>(left, objects).
         rbind (build_map_subtree sha (drop split es) objects) (\<lambda>(right, objects).
         rbind (normalized_hash_prefix (be_key_hash first) depth) (\<lambda>prefix.
         rbind (map_branch sha depth prefix left right) (\<lambda>node.
         store_built_map_node sha node objects)))))))"
  by pat_completeness auto
termination
proof (relation "measure (\<lambda>(sha, es, objects). length es)", goal_cases)
  case (2 sha es objects first depth split)
  then show ?case using split_built_le [of depth es split] by auto
qed (auto simp: not_le)

declare build_map_subtree.simps [simp del]

definition build_entry ::
  "(string \<Rightarrow> string) \<Rightarrow> string \<times> string \<Rightarrow> string fset \<times> map_build_entry list
   \<Rightarrow> collection_error + (string fset \<times> map_build_entry list)" where
  "build_entry sha e s =
     (case (e, s) of ((key, v), keys, ordered) \<Rightarrow>
      rbind (validate_key key) (\<lambda>_.
      rbind (coll_validate_content_id v) (\<lambda>_.
      if key |\<in>| keys then Err CValidation
      else rbind (map_key_hash sha key) (\<lambda>key_hash.
      Ok (finsert key keys, ordered @ [\<lparr>be_key_hash = key_hash, be_key = key, be_value = v\<rparr>])))))"

definition build_map ::
  "(string \<Rightarrow> string) \<Rightarrow> (string \<times> string) list \<Rightarrow> collection_error + map_build_output" where
  "build_map sha entries =
     (if MAX_EXACT_INTEGER < length entries then Err CValidation
      else if entries = [] then Ok \<lparr>mbo_root = map_root_empty, mbo_objects = []\<rparr>
      else
       rbind (rfold (build_entry sha) entries ({||}, [])) (\<lambda>(_, ordered).
       let ordered = sort_key (\<lambda>e. (be_key_hash e, be_key e)) ordered in
       rbind (build_map_subtree sha ordered fmempty) (\<lambda>(reference, objects).
       let root = \<lparr>mt_node = Some (mr_object_id reference), mt_entries = mr_entries reference\<rparr> in
       rbind (map_root_verify root) (\<lambda>_.
       if mt_entries root \<noteq> length entries then Err (Integrity ''map_build_count_mismatch'')
       else Ok \<lparr>mbo_root = root, mbo_objects = values_of objects\<rparr>))))"

end
