(* ===== verification/Hash_Bits.thy ===== *)
theory Hash_Bits
  imports Coll_Hash
begin

text \<open>
  A digest as 256 bits. On valid digests the bit-level helpers of \<^verbatim>\<open>hash.rs\<close> never fail: reading a
  bit, clearing the bits from a depth on, and the first depth at which two digests differ. A digest
  is determined by its bits, and the byte order of digests is the lexicographic order of their bits.
\<close>

definition valid_digest :: "string \<Rightarrow> bool" where
  "valid_digest s \<longleftrightarrow> length s = 64 \<and> is_lower_hex s"

lemma validate_digest_eq: "validate_digest s = (if valid_digest s then Ok () else Err CValidation)"
  by (simp add: validate_digest_def valid_digest_def)

lemma validate_digest_Ok [simp]: "validate_digest s = Ok u \<longleftrightarrow> valid_digest s"
  by (simp add: validate_digest_eq)

definition nibble :: "char \<Rightarrow> nat" where
  "nibble c = the (hex_value c)"

definition hbit :: "string \<Rightarrow> nat \<Rightarrow> bool" where
  "hbit s depth = (nibble (s ! (depth div 4)) div 2 ^ (3 - depth mod 4) mod 2 \<noteq> 0)"

section \<open>Nibbles\<close>

definition nbit :: "nat \<Rightarrow> nat \<Rightarrow> bool" where
  "nbit a j = (a div 2 ^ j mod 2 \<noteq> 0)"

lemma hbit_nbit: "hbit s depth = nbit (nibble (s ! (depth div 4))) (3 - depth mod 4)"
  by (simp add: hbit_def nbit_def)

lemma hex_codes: "\<forall>n\<in>set ([48..<58] @ [97..<103]). char_of (n :: nat) \<in> set HEX"
  by code_simp

lemma hex_char:
  assumes "is_lower_hex_byte c"
  obtains n where "n < 16" "c = HEX ! n"
proof -
  have "of_char c \<in> set ([48..<58] @ [97..<103] :: nat list)"
    using assms by (auto simp: is_lower_hex_byte_def less_eq_char_def simp del: upt_Suc upt_conv_Cons_Cons upt_rec_numeral)
  with hex_codes have "char_of (of_char c :: nat) \<in> set HEX" by blast
  then have "c \<in> set HEX" by simp
  then obtain n where "n < length HEX" "c = HEX ! n" by (metis in_set_conv_nth)
  moreover have "length HEX = 16" by (simp add: HEX_def)
  ultimately show thesis using that by simp
qed

lemma hex_values: "\<forall>n\<in>set [0..<16]. hex_value (HEX ! n) = Some n"
  by code_simp

lemma hex_value_HEX: "n < 16 \<Longrightarrow> hex_value (HEX ! n) = Some n"
  using hex_values by simp

lemma nibble_HEX [simp]: "n < 16 \<Longrightarrow> nibble (HEX ! n) = n"
  by (simp add: nibble_def hex_value_HEX)

lemma hex_value_nibble:
  assumes "is_lower_hex_byte c"
  shows "hex_value c = Some (nibble c)" "nibble c < 16" "HEX ! nibble c = c"
  using hex_char [OF assms] hex_value_HEX by (metis nibble_HEX)+

lemma nibble_order: "\<forall>a\<in>set [0..<16]. \<forall>b\<in>set [0..<16]. a < b \<longrightarrow> HEX ! a < HEX ! b"
  by code_simp

lemma nibble_less:
  "is_lower_hex_byte c \<Longrightarrow> is_lower_hex_byte d \<Longrightarrow> nibble c < nibble d \<Longrightarrow> c < d"
  using nibble_order hex_value_nibble by (metis atLeastLessThan_iff le0 set_upt)

text \<open>Facts about four bits, by evaluation.\<close>

lemma nbit_determines:
  "\<forall>a\<in>set [0..<16]. \<forall>b\<in>set [0..<16]. (\<forall>j\<in>set [0..<4]. nbit a j = nbit b j) \<longrightarrow> a = b"
  by code_simp

lemma nbit_clears:
  "\<forall>a\<in>set [0..<16]. \<forall>k\<in>set [0..<5]. a div 2 ^ k * 2 ^ k < 16
     \<and> (\<forall>j\<in>set [0..<4]. nbit (a div 2 ^ k * 2 ^ k) j = (k \<le> j \<and> nbit a j))"
  by code_simp

lemma nbit_orders:
  "\<forall>a\<in>set [0..<16]. \<forall>b\<in>set [0..<16]. \<forall>j\<in>set [0..<4].
     (\<forall>i\<in>set [0..<4]. j < i \<longrightarrow> nbit a i = nbit b i) \<longrightarrow> \<not> nbit a j \<longrightarrow> nbit b j \<longrightarrow> a < b"
  by code_simp

section \<open>Bits of digests\<close>

lemma valid_nth: "valid_digest s \<Longrightarrow> i < 64 \<Longrightarrow> is_lower_hex_byte (s ! i)"
  by (auto simp: valid_digest_def is_lower_hex_def list_all_length)

lemma hash_bit_Ok: "valid_digest s \<Longrightarrow> depth < 256 \<Longrightarrow> hash_bit s depth = Ok (hbit s depth)"
  using hex_value_nibble(1) [OF valid_nth [of s "depth div 4"]]
  by (simp add: hash_bit_def validate_digest_eq hbit_def)

text \<open>A nibble of a digest holds four of its bits.\<close>

lemma hbit_nibble:
  assumes "j < 4"
  shows "hbit s (4 * i + (3 - j)) = nbit (nibble (s ! i)) j"
proof -
  have "(4 * i + (3 - j)) div 4 = i + (3 - j) div 4" by (rule div_mult_self4) simp
  moreover have "(4 * i + (3 - j)) mod 4 = (3 - j) mod 4" by (rule mod_mult_self4)
  moreover have "(3 - j) div 4 = 0" "(3 - j) mod 4 = 3 - j" by simp_all
  moreover have "3 - (3 - j) = j" using assms by simp
  ultimately show ?thesis by (simp only: hbit_nbit add_0_right)
qed

lemma nibble_eqI:
  assumes "valid_digest s" "valid_digest t" "i < 64" "\<forall>j<4. hbit s (4 * i + j) = hbit t (4 * i + j)"
  shows "s ! i = t ! i"
proof -
  have "nbit (nibble (s ! i)) j = nbit (nibble (t ! i)) j" if "j < 4" for j
  proof -
    have "3 - j < 4" by simp
    then have "hbit s (4 * i + (3 - j)) = hbit t (4 * i + (3 - j))" using assms(4) by blast
    then show ?thesis unfolding hbit_nibble [OF that] .
  qed
  then have bits: "\<forall>j\<in>set [0..<4]. nbit (nibble (s ! i)) j = nbit (nibble (t ! i)) j" by simp
  have small: "nibble (s ! i) \<in> set [0..<16]" "nibble (t ! i) \<in> set [0..<16]"
    using hex_value_nibble(2) [OF valid_nth [OF assms(1,3)]] hex_value_nibble(2) [OF valid_nth [OF assms(2,3)]] by simp_all
  have "nibble (s ! i) = nibble (t ! i)"
    by (rule bspec [OF bspec [OF nbit_determines small(1)] small(2), THEN mp, OF bits])
  then show ?thesis using hex_value_nibble(3) [OF valid_nth [OF assms(1,3)]]
      hex_value_nibble(3) [OF valid_nth [OF assms(2,3)]] by metis
qed

lemma digest_eqI:
  assumes "valid_digest s" "valid_digest t" "\<And>i. i < 256 \<Longrightarrow> hbit s i = hbit t i"
  shows "s = t"
proof (rule nth_equalityI)
  show "length s = length t" using assms(1,2) by (simp add: valid_digest_def)
  show "s ! i = t ! i" if "i < length s" for i
    using that assms by (intro nibble_eqI) (auto simp: valid_digest_def)
qed

definition agree :: "nat \<Rightarrow> string \<Rightarrow> string \<Rightarrow> bool" where
  "agree d s t \<longleftrightarrow> (\<forall>i<d. hbit s i = hbit t i)"

lemma agree_refl [simp]: "agree d s s"
  by (simp add: agree_def)

lemma agree_sym: "agree d s t \<Longrightarrow> agree d t s"
  by (simp add: agree_def)

lemma agree_trans: "agree d s t \<Longrightarrow> agree d t u \<Longrightarrow> agree d s u"
  by (simp add: agree_def)

lemma agree_mono: "agree d s t \<Longrightarrow> e \<le> d \<Longrightarrow> agree e s t"
  by (simp add: agree_def)

section \<open>Cleared digests\<close>

definition cleared :: "string \<Rightarrow> nat \<Rightarrow> string" where
  "cleared s depth = map (\<lambda>i. if i < depth div 4 then s ! i
     else if i = depth div 4 then HEX ! (nibble (s ! i) div 2 ^ (4 - depth mod 4) * 2 ^ (4 - depth mod 4))
     else CHR ''0'') [0..<64]"

lemma valid_cleared:
  assumes "valid_digest s" "depth < 256"
  shows "valid_digest (cleared s depth)"
proof -
  have "is_lower_hex_byte (HEX ! (nibble (s ! (depth div 4)) div 2 ^ (4 - depth mod 4) * 2 ^ (4 - depth mod 4)))"
    using nbit_clears hex_value_nibble(2) [OF valid_nth [OF assms(1), of "depth div 4"]] assms(2) by (intro HEX_nth) simp
  moreover have "is_lower_hex_byte (CHR ''0'')" by (simp add: is_lower_hex_byte_def less_eq_char_def)
  ultimately show ?thesis using assms(1) valid_nth [OF assms(1)]
    by (auto simp: valid_digest_def cleared_def is_lower_hex_def list_all_iff)
qed

lemma hbit_cleared:
  assumes "valid_digest s" "depth < 256" "i < 256"
  shows "hbit (cleared s depth) i = (i < depth \<and> hbit s i)"
proof -
  have nth: "cleared s depth ! (i div 4) = (if i div 4 < depth div 4 then s ! (i div 4)
     else if i div 4 = depth div 4 then HEX ! (nibble (s ! (depth div 4)) div 2 ^ (4 - depth mod 4) * 2 ^ (4 - depth mod 4))
     else CHR ''0'')" using assms(3) by (simp add: cleared_def)
  consider "i div 4 < depth div 4" | "i div 4 = depth div 4" | "depth div 4 < i div 4" by linarith
  then show ?thesis
  proof cases
    case 1
    then have "i < depth" using div_le_mono [of depth i 4] by linarith
    with 1 nth show ?thesis by (simp add: hbit_nbit)
  next
    case 2
    let ?a = "nibble (s ! (depth div 4))" and ?k = "4 - depth mod 4"
    have a: "?a < 16" using hex_value_nibble(2) [OF valid_nth [OF assms(1), of "depth div 4"]] assms(2) by simp
    with nbit_clears have c: "?a div 2 ^ ?k * 2 ^ ?k < 16"
      "nbit (?a div 2 ^ ?k * 2 ^ ?k) (3 - i mod 4) = (?k \<le> 3 - i mod 4 \<and> nbit ?a (3 - i mod 4))" by simp_all
    have "i = 4 * (i div 4) + i mod 4" "depth = 4 * (depth div 4) + depth mod 4" "i mod 4 < 4" "depth mod 4 < 4" by simp_all
    then have "?k \<le> 3 - i mod 4 \<longleftrightarrow> i < depth" using 2 by linarith
    with c 2 nth show ?thesis by (simp add: hbit_nbit)
  next
    case 3
    then have "depth < i" using div_le_mono [of i depth 4] by linarith
    have "nibble (CHR ''0'') = 0" by code_simp
    then have "\<not> hbit (cleared s depth) i" using 3 nth by (simp add: hbit_nbit nbit_def)
    with \<open>depth < i\<close> show ?thesis by simp
  qed
qed

lemma normalized_hash_prefix_Ok:
  assumes "valid_digest s" "depth < 256"
  shows "normalized_hash_prefix s depth = Ok (cleared s depth)"
proof -
  let ?n = "depth div 4" and ?m = "depth mod 4"
  have len: "length s = 64" "?n < 64" using assms by (auto simp: valid_digest_def)
  have a: "nibble (s ! ?n) < 16" "HEX ! nibble (s ! ?n) = s ! ?n" using hex_value_nibble [OF valid_nth [OF assms(1) len(2)]] by simp_all
  have zero: "HEX ! 0 = CHR ''0''" by (simp add: HEX_def)
  let ?out = "if 0 < ?m then s[?n := hex_digit (the (hex_value (s ! ?n)) div 2 ^ (4 - ?m) * 2 ^ (4 - ?m))] else s"
  let ?from = "?n + (if 0 < ?m then 1 else 0)"
  have "take ?from ?out @ replicate (length ?out - ?from) (CHR ''0'') = cleared s depth"
  proof (rule nth_equalityI)
    show "length (take ?from ?out @ replicate (length ?out - ?from) (CHR ''0'')) = length (cleared s depth)"
      using len by (simp add: cleared_def)
    fix i assume "i < length (take ?from ?out @ replicate (length ?out - ?from) (CHR ''0''))"
    then have i: "i < 64" using len by (auto split: if_splits)
    show "(take ?from ?out @ replicate (length ?out - ?from) (CHR ''0'')) ! i = cleared s depth ! i"
    proof (cases "?m = 0")
      case True
      then show ?thesis using i len a zero by (auto simp: cleared_def nth_append)
    next
      case False
      then show ?thesis using i len by (auto simp: cleared_def nth_append hex_digit_def nibble_def nth_list_update)
    qed
  qed
  then show ?thesis using assms by (simp add: normalized_hash_prefix_def validate_digest_eq Let_def)
qed

lemma cleared_eq_iff:
  assumes "valid_digest s" "valid_digest t" "depth < 256"
  shows "cleared s depth = cleared t depth \<longleftrightarrow> agree depth s t"
proof
  assume "cleared s depth = cleared t depth"
  then show "agree depth s t" using hbit_cleared [OF assms(1,3)] hbit_cleared [OF assms(2,3)] assms(3)
    unfolding agree_def by (metis order.strict_trans)
next
  assume "agree depth s t"
  then show "cleared s depth = cleared t depth" using assms
    by (intro digest_eqI) (auto simp: valid_cleared hbit_cleared agree_def)
qed

lemma hash_matches_prefix_Ok:
  "valid_digest s \<Longrightarrow> depth < 256 \<Longrightarrow> hash_matches_prefix s prefix depth = Ok (cleared s depth = prefix)"
  by (simp add: hash_matches_prefix_def normalized_hash_prefix_Ok)

lemma agree_cleared: "valid_digest s \<Longrightarrow> d < 256 \<Longrightarrow> agree d (cleared s d) s"
  by (simp add: agree_def hbit_cleared)

section \<open>The first difference\<close>

definition differ :: "string \<Rightarrow> string \<Rightarrow> nat \<Rightarrow> bool" where
  "differ s t d \<longleftrightarrow> hbit s d \<noteq> hbit t d"

definition fork_depth :: "string \<Rightarrow> string \<Rightarrow> nat" where
  "fork_depth s t = (case find (differ s t) [0..<256] of None \<Rightarrow> 256 | Some d \<Rightarrow> d)"

lemma common_prefix_from_Ok:
  assumes "valid_digest s" "valid_digest t" "\<forall>d\<in>set ds. d < 256"
  shows "common_prefix_from s t ds = Ok (case find (differ s t) ds of None \<Rightarrow> 256 | Some d \<Rightarrow> d)"
  using assms(3) by (induction ds) (auto simp: hash_bit_Ok assms(1,2) differ_def)

lemma common_prefix_bits_Ok:
  assumes "valid_digest s" "valid_digest t"
  shows "common_prefix_bits s t = Ok (fork_depth s t)"
  unfolding fork_depth_def using common_prefix_from_Ok [OF assms, of "[0..<256]"] assms
  by (simp add: common_prefix_bits_def validate_digest_eq)

lemma fork_depth_cases:
  obtains "fork_depth s t = 256" "agree 256 s t"
  | "fork_depth s t < 256" "agree (fork_depth s t) s t" "hbit s (fork_depth s t) \<noteq> hbit t (fork_depth s t)"
proof (cases "find (differ s t) [0..<256]")
  case None
  then have "fork_depth s t = 256" by (simp add: fork_depth_def)
  moreover have "agree 256 s t" using None by (simp add: agree_def find_None_iff differ_def)
  ultimately show thesis by (rule that(1))
next
  case (Some d)
  then have d: "fork_depth s t = d" by (simp add: fork_depth_def)
  from Some obtain i where i: "i < 256" "differ s t d" "[0..<256] ! i = d" "\<forall>j<i. \<not> differ s t ([0..<256] ! j)"
    by (auto simp: find_Some_iff)
  then have "i = d" by simp
  with i have "agree d s t" "d < 256" by (auto simp: agree_def differ_def)
  then show thesis using that(2) i(2) d by (simp add: differ_def)
qed

lemma fork_depth_agree: "agree (fork_depth s t) s t"
  by (rule fork_depth_cases [of s t]) simp_all

lemma fork_depth_differ: "fork_depth s t < 256 \<Longrightarrow> hbit s (fork_depth s t) \<noteq> hbit t (fork_depth s t)"
  by (rule fork_depth_cases [of s t]) simp_all

lemma fork_depth_bound: "fork_depth s t \<le> 256"
  by (rule fork_depth_cases [of s t]) simp_all

lemma fork_depth_less:
  assumes "valid_digest s" "valid_digest t" "s \<noteq> t"
  shows "fork_depth s t < 256"
  using digest_eqI [OF assms(1,2)] assms(3) fork_depth_agree [of s t] fork_depth_bound [of s t]
  unfolding agree_def by (metis le_neq_implies_less)

lemma fork_depth_less_iff: "d \<le> 256 \<Longrightarrow> fork_depth s t < d \<longleftrightarrow> \<not> agree d s t"
  using fork_depth_agree [of s t] fork_depth_differ [of s t]
  unfolding agree_def by (metis le_less_trans linorder_not_less order_less_le_trans)

lemma fork_depth_unique:
  assumes "agree d s t" "d < 256" "hbit s d \<noteq> hbit t d"
  shows "fork_depth s t = d"
proof (rule antisym)
  have "\<not> agree (Suc d) s t" using assms(3) by (auto simp: agree_def)
  with fork_depth_less_iff [of "Suc d" s t] assms(2) show "fork_depth s t \<le> d" by simp
  show "d \<le> fork_depth s t" using fork_depth_less_iff [of d s t] assms(1,2) by (simp add: not_less [symmetric])
qed

text \<open>Clearing the bits from a depth on does not move a fork above it.\<close>

lemma fork_depth_cleared:
  assumes "valid_digest s" "d < 256"
  shows "fork_depth (cleared s d) t < d \<longleftrightarrow> fork_depth s t < d"
    and "fork_depth s t < d \<Longrightarrow> fork_depth (cleared s d) t = fork_depth s t"
proof -
  note c = agree_cleared [OF assms]
  show "fork_depth (cleared s d) t < d \<longleftrightarrow> fork_depth s t < d"
    using fork_depth_less_iff [of d] assms(2) agree_trans [OF c] agree_trans [OF agree_sym [OF c]] by auto
  assume f: "fork_depth s t < d"
  show "fork_depth (cleared s d) t = fork_depth s t"
  proof (rule fork_depth_unique)
    show "agree (fork_depth s t) (cleared s d) t"
      using agree_trans [OF agree_mono [OF c] fork_depth_agree] f by simp
    show "fork_depth s t < 256" using f assms(2) by simp
    then show "hbit (cleared s d) (fork_depth s t) \<noteq> hbit t (fork_depth s t)"
      using fork_depth_differ [of s t] hbit_cleared [OF assms] f by simp
  qed
qed

section \<open>Order\<close>

lemma lex_less_nth:
  fixes s t :: string
  assumes "i < length s" "i < length t" "\<And>j. j < i \<Longrightarrow> s ! j = t ! j" "s ! i < t ! i"
  shows "s < t"
proof -
  have "take i s = take i t" using assms(1-3) by (intro nth_equalityI) auto
  moreover have "s = take i s @ s ! i # drop (Suc i) s" "t = take i t @ t ! i # drop (Suc i) t"
    using assms(1,2) by (simp_all add: id_take_nth_drop [symmetric])
  ultimately show ?thesis using assms(4) unfolding list_less_def lexord_def
    by (smt (verit) case_prodI mem_Collect_eq)
qed

lemma digest_less:
  assumes "valid_digest s" "valid_digest t" "d < 256" "agree d s t" "\<not> hbit s d" "hbit t d"
  shows "s < t"
proof (rule lex_less_nth)
  let ?i = "d div 4" and ?j = "3 - d mod 4"
  have i: "?i < 64" using assms(3) by simp
  then show "?i < length s" "?i < length t" using assms(1,2) by (simp_all add: valid_digest_def)
  show "s ! j = t ! j" if "j < ?i" for j
  proof (rule nibble_eqI [OF assms(1,2)])
    show "\<forall>k<4. hbit s (4 * j + k) = hbit t (4 * j + k)" using assms(4) that by (auto simp: agree_def)
  qed (use that i in simp)
  have above: "nbit (nibble (s ! ?i)) k = nbit (nibble (t ! ?i)) k" if "k < 4" "?j < k" for k
  proof -
    have "d = 4 * ?i + d mod 4" by simp
    then have "4 * ?i + (3 - k) < d" using that by linarith
    with assms(4) have "hbit s (4 * ?i + (3 - k)) = hbit t (4 * ?i + (3 - k))" by (simp add: agree_def)
    then show ?thesis using hbit_nibble [OF that(1)] by simp
  qed
  have "nibble (s ! ?i) \<in> set [0..<16]" "nibble (t ! ?i) \<in> set [0..<16]" "?j \<in> set [0..<4]"
    using hex_value_nibble(2) [OF valid_nth [OF assms(1) i]] hex_value_nibble(2) [OF valid_nth [OF assms(2) i]] by simp_all
  moreover have "\<forall>k\<in>set [0..<4]. ?j < k \<longrightarrow> nbit (nibble (s ! ?i)) k = nbit (nibble (t ! ?i)) k" using above by simp
  ultimately have "nibble (s ! ?i) < nibble (t ! ?i)"
    using nbit_orders assms(5,6) unfolding hbit_nbit by metis
  then show "s ! ?i < t ! ?i" by (rule nibble_less [OF valid_nth [OF assms(1) i] valid_nth [OF assms(2) i]])
qed

lemma hash_digest_valid: "length (sha (hash_preimage d fs)) = 32 \<Longrightarrow> valid_digest (hash_digest sha d fs)"
  by (simp add: hash_digest_eq valid_digest_def length_hex_digest hex_digest_lower)

end
