(* ===== verification/Map_Tree.thy ===== *)
theory Map_Tree
  imports Map_Mutation Hash_Bits
begin

text \<open>
  The trie that a map root names, as a tree: entries at the leaves, branch depths at the forks.
  A well-formed trie splits its keys at the first bit where their hashes differ. Insertion and
  removal keep it well formed and act on the finite map of its entries, and a well-formed trie is
  determined by that map, so the shape does not depend on the order of updates.
\<close>

datatype map_tree = Entry string string | Split nat map_tree map_tree

fun tentries :: "map_tree \<Rightarrow> (string \<times> string) list" where
  "tentries (Entry k v) = [(k, v)]"
| "tentries (Split d l r) = tentries l @ tentries r"

fun tkeys :: "map_tree \<Rightarrow> string set" where
  "tkeys (Entry k v) = {k}"
| "tkeys (Split d l r) = tkeys l \<union> tkeys r"

fun first_key :: "map_tree \<Rightarrow> string" where
  "first_key (Entry k v) = k"
| "first_key (Split d l r) = first_key l"

fun tsubtrees :: "map_tree \<Rightarrow> map_tree set" where
  "tsubtrees (Entry k v) = {Entry k v}"
| "tsubtrees (Split d l r) = insert (Split d l r) (tsubtrees l \<union> tsubtrees r)"

text \<open>The hash of a key, without the checks of its syntax.\<close>

definition key_digest :: "(string \<Rightarrow> string) \<Rightarrow> string \<Rightarrow> string" where
  "key_digest sha key = hash_digest sha MAP_KEY_VERSION [key]"

lemma key_digest_valid: "sha_ok sha \<Longrightarrow> valid_digest (key_digest sha key)"
  by (simp add: key_digest_def sha_ok_def hash_digest_valid)

fun trie :: "(string \<Rightarrow> string) \<Rightarrow> map_tree \<Rightarrow> bool" where
  "trie sha (Entry k v) \<longleftrightarrow> validate_key k = Ok () \<and> coll_validate_content_id v = Ok ()"
| "trie sha (Split d l r) \<longleftrightarrow> d < 256 \<and> trie sha l \<and> trie sha r
     \<and> (\<forall>k\<in>tkeys l \<union> tkeys r. agree d (key_digest sha k) (key_digest sha (first_key l)))
     \<and> (\<forall>k\<in>tkeys l. \<not> hbit (key_digest sha k) d) \<and> (\<forall>k\<in>tkeys r. hbit (key_digest sha k) d)"

lemma tkeys_entries: "fst ` set (tentries t) = tkeys t"
  by (induction t) auto

lemma entry_key: "(k, v) \<in> set (tentries t) \<Longrightarrow> k \<in> tkeys t"
  using tkeys_entries by force

lemma first_key_in [simp, intro]: "first_key t \<in> tkeys t"
  by (induction t) auto

lemma tentries_ne [simp]: "tentries t \<noteq> []"
  by (induction t) auto

lemma tsubtrees_self [simp]: "t \<in> tsubtrees t"
  by (cases t) auto

lemma finite_tsubtrees [simp]: "finite (tsubtrees t)"
  by (induction t) auto

lemma tsubtrees_trans: "s \<in> tsubtrees t \<Longrightarrow> tsubtrees s \<subseteq> tsubtrees t"
  by (induction t) auto

lemma trie_subtrees: "trie sha t \<Longrightarrow> s \<in> tsubtrees t \<Longrightarrow> trie sha s"
  by (induction t) auto

lemma trie_valid: "trie sha t \<Longrightarrow> (k, v) \<in> set (tentries t) \<Longrightarrow> validate_key k = Ok () \<and> coll_validate_content_id v = Ok ()"
  by (induction t) auto

section \<open>Order of the entries\<close>

lemma trie_agree:
  "trie sha (Split d l r) \<Longrightarrow> a \<in> tkeys (Split d l r) \<Longrightarrow> b \<in> tkeys (Split d l r) \<Longrightarrow>
   agree d (key_digest sha a) (key_digest sha b)"
  unfolding trie.simps tkeys.simps using agree_sym agree_trans by blast

lemma trie_sides:
  assumes "trie sha (Split d l r)" "a \<in> tkeys l" "b \<in> tkeys r" "sha_ok sha"
  shows "key_digest sha a < key_digest sha b"
proof (rule digest_less)
  show "agree d (key_digest sha a) (key_digest sha b)"
    using assms(1-3) trie_agree [of sha d l r a b] by simp
qed (use assms in \<open>auto simp: key_digest_valid\<close>)

lemma trie_sorted:
  assumes "trie sha t" "sha_ok sha"
  shows "sorted_wrt (<) (map (key_digest sha \<circ> fst) (tentries t))"
  using assms(1)
proof (induction t)
  case (Split d l r)
  have "key_digest sha (fst a) < key_digest sha (fst b)" if "a \<in> set (tentries l)" "b \<in> set (tentries r)" for a b
    using trie_sides [OF Split.prems _ _ assms(2)] that entry_key by (metis prod.collapse)
  then show ?case using Split by (simp add: sorted_wrt_append)
qed simp

lemma trie_distinct_digests: "trie sha t \<Longrightarrow> sha_ok sha \<Longrightarrow> distinct (map (key_digest sha \<circ> fst) (tentries t))"
  using trie_sorted strict_sorted_iff by blast

lemma trie_distinct: "trie sha t \<Longrightarrow> sha_ok sha \<Longrightarrow> distinct (map fst (tentries t))"
  using trie_distinct_digests [of sha t] by (metis distinct_map map_map)

lemma trie_inj: "trie sha t \<Longrightarrow> sha_ok sha \<Longrightarrow> inj_on (key_digest sha) (tkeys t)"
  using trie_distinct_digests [of sha t] by (metis distinct_map list.set_map map_map tkeys_entries)

lemma trie_disjoint: "trie sha (Split d l r) \<Longrightarrow> tkeys l \<inter> tkeys r = {}"
  by auto

abbreviation tmap :: "map_tree \<Rightarrow> string \<rightharpoonup> string" where
  "tmap t \<equiv> map_of (tentries t)"

lemma dom_tmap: "dom (tmap t) = tkeys t"
  by (simp add: dom_map_of_conv_image_fst tkeys_entries)

lemma tmap_absent: "k \<notin> tkeys t \<Longrightarrow> tmap t k = None"
  using dom_tmap [of t] by (metis domIff)

lemma tmap_present: "tmap t k = Some v \<Longrightarrow> k \<in> tkeys t"
  using dom_tmap [of t] by blast

lemma tmap_Split: "trie sha (Split d l r) \<Longrightarrow>
  tmap (Split d l r) k = (if hbit (key_digest sha k) d then tmap r k else tmap l k)"
  using tmap_absent [of k l] tmap_absent [of k r] by (auto simp: map_add_def split: option.split)

section \<open>Canonicity\<close>

text \<open>The depth of a split is the first bit at which two of its keys differ.\<close>

lemma trie_depth_unique:
  assumes "trie sha (Split d l r)" "trie sha (Split d' l' r')" "tkeys (Split d l r) = tkeys (Split d' l' r')"
  shows "d \<le> d'"
proof (rule ccontr)
  assume "\<not> d \<le> d'"
  moreover have "first_key l' \<in> tkeys (Split d l r)" "first_key r' \<in> tkeys (Split d l r)"
    unfolding assms(3) by auto
  ultimately have "hbit (key_digest sha (first_key l')) d' = hbit (key_digest sha (first_key r')) d'"
    using trie_agree [OF assms(1)] by (meson agree_def linorder_not_le)
  moreover have "first_key l' \<in> tkeys l'" "first_key r' \<in> tkeys r'" by simp_all
  ultimately show False using assms(2) by auto
qed

lemma tmap_left: "trie sha (Split d l r) \<Longrightarrow> tmap l = tmap (Split d l r) |` {k. \<not> hbit (key_digest sha k) d}"
  and tmap_right: "trie sha (Split d l r) \<Longrightarrow> tmap r = tmap (Split d l r) |` {k. hbit (key_digest sha k) d}"
proof -
  assume t: "trie sha (Split d l r)"
  have "tmap l k = None" if "hbit (key_digest sha k) d" for k using t that by (auto intro: tmap_absent)
  moreover have "tmap r k = None" if "\<not> hbit (key_digest sha k) d" for k using t that by (auto intro: tmap_absent)
  ultimately show "tmap l = tmap (Split d l r) |` {k. \<not> hbit (key_digest sha k) d}"
    "tmap r = tmap (Split d l r) |` {k. hbit (key_digest sha k) d}"
    using tmap_Split [OF t] by (auto simp: restrict_map_def simp del: tentries.simps)
qed

lemma trie_canonical:
  assumes "trie sha t" "trie sha u" "tmap t = tmap u"
  shows "t = u"
  using assms
proof (induction t arbitrary: u)
  case (Entry k v)
  show ?case
  proof (cases u)
    case u: (Entry k' v')
    show ?thesis using fun_cong [OF Entry.prems(3), of k] u by (simp split: if_splits)
  next
    case (Split d l r)
    have "tkeys u = tkeys (Entry k v)" unfolding dom_tmap [symmetric] Entry.prems(3) ..
    then have "tkeys u = {k}" by simp
    moreover have "first_key l \<in> tkeys l" "first_key r \<in> tkeys r" by simp_all
    ultimately have "first_key l = k" "first_key r = k" using Split by auto
    then show ?thesis using Entry.prems(2) Split \<open>first_key l \<in> tkeys l\<close> \<open>first_key r \<in> tkeys r\<close> by auto
  qed
next
  case (Split d l r)
  have keys: "tkeys u = tkeys (Split d l r)" unfolding dom_tmap [symmetric] Split.prems(3) ..
  show ?case
  proof (cases u)
    case (Entry k' v')
    have "first_key l \<in> tkeys l" "first_key r \<in> tkeys r" by simp_all
    moreover from this have "first_key l = k'" "first_key r = k'" using keys Entry by auto
    ultimately show ?thesis using Split.prems(1) by auto
  next
    case u: (Split d' l' r')
    have d: "d' = d"
      by (rule antisym [OF trie_depth_unique [OF Split.prems(2) [unfolded u] Split.prems(1) keys [unfolded u]]
            trie_depth_unique [OF Split.prems(1) Split.prems(2) [unfolded u] keys [unfolded u, symmetric]]])
    note tu = Split.prems(2) [unfolded u d]
    have "tmap l = tmap l'" "tmap r = tmap r'"
      unfolding tmap_left [OF Split.prems(1)] tmap_left [OF tu] tmap_right [OF Split.prems(1)] tmap_right [OF tu]
        Split.prems(3) [unfolded u d] by (rule refl)+
    then show ?thesis using Split.IH [of l'] Split.IH(2) [of r'] Split.prems(1,2) u d by simp
  qed
qed

section \<open>Insertion and removal\<close>

definition join_entry :: "(string \<Rightarrow> string) \<Rightarrow> nat \<Rightarrow> string \<Rightarrow> string \<Rightarrow> map_tree \<Rightarrow> map_tree" where
  "join_entry sha d k v t =
     (if hbit (key_digest sha k) d then Split d t (Entry k v) else Split d (Entry k v) t)"

definition first_fork :: "(string \<Rightarrow> string) \<Rightarrow> map_tree \<Rightarrow> string \<Rightarrow> nat" where
  "first_fork sha t k = fork_depth (key_digest sha (first_key t)) (key_digest sha k)"

fun tree_put :: "(string \<Rightarrow> string) \<Rightarrow> string \<Rightarrow> string \<Rightarrow> map_tree \<Rightarrow> map_tree" where
  "tree_put sha k v (Entry k' v') =
     (if k' = k then Entry k v else join_entry sha (first_fork sha (Entry k' v') k) k v (Entry k' v'))"
| "tree_put sha k v (Split d l r) =
     (if first_fork sha l k < d then join_entry sha (first_fork sha l k) k v (Split d l r)
      else if hbit (key_digest sha k) d then Split d l (tree_put sha k v r)
      else Split d (tree_put sha k v l) r)"

fun tree_remove :: "(string \<Rightarrow> string) \<Rightarrow> string \<Rightarrow> map_tree \<Rightarrow> map_tree option" where
  "tree_remove sha k (Entry k' v') = None"
| "tree_remove sha k (Split d l r) =
     (if hbit (key_digest sha k) d
      then (case tree_remove sha k r of None \<Rightarrow> Some l | Some u \<Rightarrow> Some (Split d l u))
      else (case tree_remove sha k l of None \<Rightarrow> Some r | Some u \<Rightarrow> Some (Split d u r)))"

text \<open>No other key of the trie has the hash of \<open>k\<close>.\<close>

definition uncollided :: "(string \<Rightarrow> string) \<Rightarrow> string \<Rightarrow> map_tree \<Rightarrow> bool" where
  "uncollided sha k t \<longleftrightarrow> (\<forall>k'\<in>tkeys t. key_digest sha k' = key_digest sha k \<longrightarrow> k' = k)"

lemma tkeys_join [simp]: "tkeys (join_entry sha d k v t) = insert k (tkeys t)"
  by (auto simp: join_entry_def)

lemma join_entry_trie:
  assumes "trie sha t" "validate_key k = Ok ()" "coll_validate_content_id v = Ok ()"
    and "first_fork sha t k < 256"
    and "\<forall>x\<in>tkeys t. agree (Suc (first_fork sha t k)) (key_digest sha x) (key_digest sha (first_key t))"
  shows "trie sha (join_entry sha (first_fork sha t k) k v t)"
proof -
  let ?d = "first_fork sha t k"
  have a: "agree ?d (key_digest sha (first_key t)) (key_digest sha k)"
    "hbit (key_digest sha (first_key t)) ?d \<noteq> hbit (key_digest sha k) ?d"
    using fork_depth_agree [of "key_digest sha (first_key t)"] fork_depth_differ [of "key_digest sha (first_key t)"] assms(4)
    by (simp_all add: first_fork_def)
  have x: "agree ?d (key_digest sha x) (key_digest sha (first_key t))"
    "hbit (key_digest sha x) ?d = hbit (key_digest sha (first_key t)) ?d" if "x \<in> tkeys t" for x
    using bspec [OF assms(5) that] agree_mono [of "Suc ?d" _ _ ?d] unfolding agree_def [of "Suc ?d"] by (simp_all add: agree_def)
  have y: "agree ?d (key_digest sha x) (key_digest sha k)" if "x \<in> tkeys t" for x
    using agree_trans [OF x(1) [OF that] a(1)] .
  show ?thesis
  proof (cases "hbit (key_digest sha k) ?d")
    case True
    with a(2) x(2) have "\<forall>x\<in>tkeys t. \<not> hbit (key_digest sha x) ?d" by blast
    moreover have "\<forall>x\<in>tkeys t \<union> {k}. agree ?d (key_digest sha x) (key_digest sha (first_key t))"
      using x(1) agree_sym [OF a(1)] by simp
    ultimately show ?thesis using True assms(1-4) by (simp add: join_entry_def)
  next
    case False
    with a(2) x(2) have "\<forall>x\<in>tkeys t. hbit (key_digest sha x) ?d" by blast
    moreover have "\<forall>x\<in>{k} \<union> tkeys t. agree ?d (key_digest sha x) (key_digest sha k)" using y by simp
    ultimately show ?thesis using False assms(1-4) by (simp add: join_entry_def)
  qed
qed

lemma not_collided_digest: "uncollided sha k t \<Longrightarrow> x \<in> tkeys t \<Longrightarrow> x \<noteq> k \<Longrightarrow> key_digest sha x \<noteq> key_digest sha k"
  by (auto simp: uncollided_def)

lemma trie_agree_first:
  "trie sha (Split d l r) \<Longrightarrow> x \<in> tkeys (Split d l r) \<Longrightarrow> agree d (key_digest sha x) (key_digest sha (first_key l))"
  using trie_agree [of sha d l r x "first_key l"] by simp

text \<open>A key that does not fork off before the depth of a split shares the prefix of the split.\<close>

lemma no_fork_agree:
  assumes "d < 256" "\<not> first_fork sha l k < d"
  shows "agree d (key_digest sha k) (key_digest sha (first_key l))"
  using assms fork_depth_less_iff [of d "key_digest sha (first_key l)" "key_digest sha k"] agree_sym
  by (simp add: first_fork_def)

lemma fork_absent:
  assumes "trie sha (Split d l r)" "first_fork sha l k < d"
  shows "k \<notin> tkeys (Split d l r)"
proof
  assume "k \<in> tkeys (Split d l r)"
  then have "agree d (key_digest sha (first_key l)) (key_digest sha k)" using trie_agree_first [OF assms(1)] agree_sym by blast
  with fork_depth_less_iff [of d "key_digest sha (first_key l)" "key_digest sha k"] assms show False
    by (simp add: first_fork_def)
qed

lemma tkeys_tree_put: "tkeys (tree_put sha k v t) = insert k (tkeys t)"
  by (induction t) auto

lemma first_key_agree:
  assumes "\<forall>x\<in>tkeys t. agree d (key_digest sha x) (key_digest sha k')" "y \<in> tkeys t" "x \<in> tkeys t"
  shows "agree d (key_digest sha x) (key_digest sha y)"
  using assms agree_sym agree_trans by blast

text \<open>Replacing a child by one whose keys still share the prefix and the bit.\<close>

lemma trie_replace_left:
  assumes "trie sha (Split d l r)" "trie sha u"
    and "\<forall>x\<in>tkeys u. agree d (key_digest sha x) (key_digest sha (first_key l)) \<and> \<not> hbit (key_digest sha x) d"
  shows "trie sha (Split d u r)"
proof -
  have "agree d (key_digest sha x) (key_digest sha (first_key l))" if "x \<in> tkeys u \<union> tkeys r" for x
    using assms(1,3) that by auto
  then have "\<forall>x\<in>tkeys u \<union> tkeys r. agree d (key_digest sha x) (key_digest sha (first_key u))"
    using agree_sym agree_trans first_key_in by (metis UnI1)
  then show ?thesis using assms by simp
qed

lemma trie_replace_right:
  assumes "trie sha (Split d l r)" "trie sha u"
    and "\<forall>x\<in>tkeys u. agree d (key_digest sha x) (key_digest sha (first_key l)) \<and> hbit (key_digest sha x) d"
  shows "trie sha (Split d l u)"
  using assms by auto

lemma tree_put_trie:
  assumes "trie sha t" "validate_key k = Ok ()" "coll_validate_content_id v = Ok ()" "uncollided sha k t" "sha_ok sha"
  shows "trie sha (tree_put sha k v t)"
  using assms(1,4)
proof (induction t)
  case (Entry k' v')
  have "first_fork sha (Entry k' v') k < 256" if "k' \<noteq> k"
    using not_collided_digest [OF Entry(2), of k'] that assms(5)
    by (auto simp: first_fork_def key_digest_valid intro!: fork_depth_less)
  with Entry assms(2,3) join_entry_trie [OF Entry(1) assms(2,3)] show ?case by simp
next
  case (Split d l r)
  have un: "uncollided sha k l" "uncollided sha k r" using Split.prems(2) by (auto simp: uncollided_def)
  have t: "trie sha l" "trie sha r" "d < 256" using Split.prems(1) by simp_all
  show ?case
  proof (cases "first_fork sha l k < d")
    case True
    have f: "first_fork sha (Split d l r) k = first_fork sha l k" by (simp add: first_fork_def)
    have "trie sha (join_entry sha (first_fork sha (Split d l r) k) k v (Split d l r))"
    proof (rule join_entry_trie [OF Split.prems(1) assms(2,3)])
      show "\<forall>x\<in>tkeys (Split d l r). agree (Suc (first_fork sha (Split d l r) k)) (key_digest sha x)
          (key_digest sha (first_key (Split d l r)))"
        using trie_agree_first [OF Split.prems(1)] agree_mono True f by (metis Suc_leI first_key.simps(2))
    qed (use True t(3) f in simp)
    with True f show ?thesis by simp
  next
    case False
    note a = no_fork_agree [OF t(3) False]
    show ?thesis
    proof (cases "hbit (key_digest sha k) d")
      case True
      have "trie sha (Split d l (tree_put sha k v r))"
        by (rule trie_replace_right [OF Split.prems(1) Split.IH(2) [OF t(2) un(2)]])
          (use Split.prems(1) a True in \<open>auto simp: tkeys_tree_put\<close>)
      with True False show ?thesis by simp
    next
      case bit: False
      have "trie sha (Split d (tree_put sha k v l) r)"
        by (rule trie_replace_left [OF Split.prems(1) Split.IH(1) [OF t(1) un(1)]])
          (use Split.prems(1) a bit in \<open>auto simp: tkeys_tree_put\<close>)
      with bit False show ?thesis by simp
    qed
  qed
qed

lemma tmap_join:
  assumes "k \<notin> tkeys t"
  shows "tmap (join_entry sha d k v t) = (tmap t)(k \<mapsto> v)"
  using tmap_absent [OF assms] by (auto simp: join_entry_def fun_eq_iff map_add_def split: option.split)

lemma tree_put_map:
  assumes "trie sha t" "validate_key k = Ok ()" "coll_validate_content_id v = Ok ()" "uncollided sha k t" "sha_ok sha"
  shows "tmap (tree_put sha k v t) = (tmap t)(k \<mapsto> v)"
  using assms(1,4)
proof (induction t)
  case (Entry k' v')
  then show ?case using tmap_join [of k "Entry k' v'"] by auto
next
  case (Split d l r)
  have un: "uncollided sha k l" "uncollided sha k r" using Split.prems(2) by (auto simp: uncollided_def)
  have t: "trie sha l" "trie sha r" "d < 256" using Split.prems(1) by simp_all
  show ?case
  proof (cases "first_fork sha l k < d")
    case True
    then show ?thesis using tmap_join [OF fork_absent [OF Split.prems(1) True]] by simp
  next
    case False
    have new: "trie sha (tree_put sha k v (Split d l r))"
      by (rule tree_put_trie [OF Split.prems(1) assms(2,3) Split.prems(2) assms(5)])
    show ?thesis
    proof
      fix x
      show "tmap (tree_put sha k v (Split d l r)) x = ((tmap (Split d l r))(k \<mapsto> v)) x"
      proof (cases "hbit (key_digest sha k) d")
        case True
        then have e: "tree_put sha k v (Split d l r) = Split d l (tree_put sha k v r)" using False by simp
        then show ?thesis using True Split.IH(2) [OF t(2) un(2)] tmap_Split [OF new [unfolded e], of x] tmap_Split [OF Split.prems(1), of x]
          by (auto simp del: tentries.simps)
      next
        case bit: False
        then have e: "tree_put sha k v (Split d l r) = Split d (tree_put sha k v l) r" using False by simp
        then show ?thesis using bit Split.IH(1) [OF t(1) un(1)] tmap_Split [OF new [unfolded e], of x] tmap_Split [OF Split.prems(1), of x]
          by (auto simp del: tentries.simps)
      qed
    qed
  qed
qed

lemma tree_put_length:
  assumes "trie sha t"
  shows "length (tentries (tree_put sha k v t)) = length (tentries t) + (if k \<in> tkeys t then 0 else 1)"
  using assms
proof (induction t)
  case (Entry k' v')
  then show ?case by (simp add: join_entry_def)
next
  case (Split d l r)
  then show ?case using fork_absent [OF Split.prems] by (auto simp: join_entry_def)
qed

section \<open>Removal\<close>

lemma tree_remove_None: "k \<in> tkeys t \<Longrightarrow> trie sha t \<Longrightarrow> tree_remove sha k t = None \<longleftrightarrow> (\<exists>v. t = Entry k v)"
  by (cases t) (auto split: option.splits)

lemma tree_remove_keys:
  assumes "trie sha t" "k \<in> tkeys t"
  shows "(case tree_remove sha k t of None \<Rightarrow> {} | Some u \<Rightarrow> tkeys u) = tkeys t - {k}"
  using assms
proof (induction t)
  case (Split d l r)
  have side: "hbit (key_digest sha k) d \<longleftrightarrow> k \<in> tkeys r" "hbit (key_digest sha k) d \<longleftrightarrow> k \<notin> tkeys l" using Split.prems by auto
  then show ?case using Split by (auto split: option.splits)
qed simp

lemma tree_remove_trie:
  assumes "trie sha t" "k \<in> tkeys t" "tree_remove sha k t = Some u"
  shows "trie sha u"
  using assms
proof (induction t arbitrary: u)
  case (Split d l r)
  have t: "trie sha l" "trie sha r" using Split.prems(1) by simp_all
  show ?case
  proof (cases "hbit (key_digest sha k) d")
    case True
    then have k: "k \<in> tkeys r" using Split.prems(1,2) by auto
    show ?thesis
    proof (cases "tree_remove sha k r")
      case None
      then show ?thesis using True Split.prems(1,3) by simp
    next
      case (Some w)
      have "trie sha (Split d l w)"
        by (rule trie_replace_right [OF Split.prems(1) Split.IH(2) [OF t(2) k Some]])
          (use Split.prems(1) tree_remove_keys [OF t(2) k] Some in auto)
      then show ?thesis using True Some Split.prems(3) by (simp del: trie.simps)
    qed
  next
    case False
    then have k: "k \<in> tkeys l" using Split.prems(1,2) by auto
    show ?thesis
    proof (cases "tree_remove sha k l")
      case None
      then show ?thesis using False Split.prems(1,3) by simp
    next
      case (Some w)
      have "trie sha (Split d w r)"
        by (rule trie_replace_left [OF Split.prems(1) Split.IH(1) [OF t(1) k Some]])
          (use Split.prems(1) tree_remove_keys [OF t(1) k] Some in auto)
      then show ?thesis using False Some Split.prems(3) by (simp del: trie.simps)
    qed
  qed
qed simp

abbreviation opt_entries :: "map_tree option \<Rightarrow> (string \<times> string) list" where
  "opt_entries t \<equiv> (case t of None \<Rightarrow> [] | Some u \<Rightarrow> tentries u)"

abbreviation opt_map :: "map_tree option \<Rightarrow> string \<rightharpoonup> string" where
  "opt_map t \<equiv> map_of (opt_entries t)"

lemma tree_remove_entries:
  assumes "trie sha t" "k \<in> tkeys t"
  shows "opt_entries (tree_remove sha k t) = filter (\<lambda>e. fst e \<noteq> k) (tentries t)"
  using assms
proof (induction t)
  case (Split d l r)
  have keep: "filter (\<lambda>e. fst e \<noteq> k) (tentries u) = tentries u" if "k \<notin> tkeys u" for u
    using that entry_key by (intro filter_True) (metis prod.collapse)
  have "hbit (key_digest sha k) d \<longleftrightarrow> k \<in> tkeys r" "hbit (key_digest sha k) d \<longleftrightarrow> k \<notin> tkeys l" using Split.prems by auto
  then show ?case using Split keep [of l] keep [of r] by (auto split: option.splits)
qed simp

lemma map_of_filter_key: "map_of (filter (\<lambda>e. fst e \<noteq> k) xs) = (map_of xs)(k := None)"
  by (induction xs) auto

lemma length_filter_key:
  "distinct (map fst xs) \<Longrightarrow> k \<in> fst ` set xs \<Longrightarrow> Suc (length (filter (\<lambda>e. fst e \<noteq> k) xs)) = length xs"
proof (induction xs)
  case (Cons x xs)
  have "filter (\<lambda>e. fst e \<noteq> k) xs = xs" if "fst x = k" using Cons.prems(1) that by (intro filter_True) (force simp: image_iff)
  then show ?case using Cons by (cases "fst x = k") auto
qed simp

lemma tree_remove_map:
  "trie sha t \<Longrightarrow> k \<in> tkeys t \<Longrightarrow> opt_map (tree_remove sha k t) = (tmap t)(k := None)"
  by (simp add: tree_remove_entries map_of_filter_key)

end
