(* ===== verification/Map_Spec.thy ===== *)
theory Map_Spec
  imports Map_Tree Simulation
begin

text \<open>
  The stored form of a trie: the body, identity and reference of each subtrie, and that these pass
  the checks of the crate. The path constraints that a walk collects hold for the subtrie it has
  reached, branch depths increase, and so no path is longer than \<open>MAX_MAP_PATH_NODES\<close>. The
  specification of a mutation batch on tries and on finite maps.
\<close>

section \<open>Stored tries\<close>

fun map_body_of :: "(string \<Rightarrow> string) \<Rightarrow> map_tree \<Rightarrow> map_node_body" where
  "map_body_of sha (Entry k v) = MapLeaf k (key_digest sha k) v"
| "map_body_of sha (Split d l r) = MapBranch d (cleared (key_digest sha (first_key l)) d)
     \<lparr>mr_object_id = map_node_id sha (map_body_of sha l), mr_entries = length (tentries l)\<rparr>
     \<lparr>mr_object_id = map_node_id sha (map_body_of sha r), mr_entries = length (tentries r)\<rparr>"

definition trie_id :: "(string \<Rightarrow> string) \<Rightarrow> map_tree \<Rightarrow> string" where
  "trie_id sha t = map_node_id sha (map_body_of sha t)"

definition map_node_of :: "(string \<Rightarrow> string) \<Rightarrow> map_tree \<Rightarrow> map_node" where
  "map_node_of sha t = \<lparr>mn_node_version = MAP_NODE_VERSION, mn_object_id = trie_id sha t, mn_body = map_body_of sha t\<rparr>"

definition map_ref_of :: "(string \<Rightarrow> string) \<Rightarrow> map_tree \<Rightarrow> map_ref" where
  "map_ref_of sha t = \<lparr>mr_object_id = trie_id sha t, mr_entries = length (tentries t)\<rparr>"

definition map_root_of :: "(string \<Rightarrow> string) \<Rightarrow> map_tree option \<Rightarrow> map_root" where
  "map_root_of sha t = \<lparr>mt_node = map_option (trie_id sha) t, mt_entries = length (opt_entries t)\<rparr>"

lemma map_ref_of_simps [simp]:
  "mr_object_id (map_ref_of sha t) = trie_id sha t" "mr_entries (map_ref_of sha t) = length (tentries t)"
  by (simp_all add: map_ref_of_def)

lemma map_node_of_simps [simp]:
  "mn_object_id (map_node_of sha t) = trie_id sha t" "mn_body (map_node_of sha t) = map_body_of sha t"
  "mn_node_version (map_node_of sha t) = MAP_NODE_VERSION"
  by (simp_all add: map_node_of_def)

lemma map_body_of_Split: "map_body_of sha (Split d l r) =
  MapBranch d (cleared (key_digest sha (first_key l)) d) (map_ref_of sha l) (map_ref_of sha r)"
  by (simp add: map_ref_of_def trie_id_def)

declare map_body_of.simps(2) [simp del]
declare map_body_of_Split [simp]

lemma map_root_of_simps [simp]:
  "mt_node (map_root_of sha t) = map_option (trie_id sha) t" "mt_entries (map_root_of sha t) = length (opt_entries t)"
  by (simp_all add: map_root_of_def)

lemma root_reference_of [simp]: "root_reference (map_root_of sha t) = map_option (map_ref_of sha) t"
  by (cases t) (simp_all add: root_reference_def map_ref_of_def)

lemma map_root_of_None [simp]: "map_root_of sha None = map_root_empty"
  by (simp add: map_root_of_def map_root_empty_def)

lemma trie_id_valid: "sha_ok sha \<Longrightarrow> coll_validate_content_id (trie_id sha t) = Ok ()"
  by (simp add: trie_id_def map_node_id_def hash_identifier_valid sha_ok_def)

lemma map_key_hash_eq: "map_key_hash sha key = rbind (validate_key key) (\<lambda>_. Ok (key_digest sha key))"
  by (simp add: map_key_hash_def key_digest_def)

lemma map_key_hash_Ok: "map_key_hash sha key = Ok h \<longleftrightarrow> validate_key key = Ok () \<and> h = key_digest sha key"
  by (auto simp: map_key_hash_eq)

lemma cleared_twice: "valid_digest s \<Longrightarrow> d < 256 \<Longrightarrow> cleared (cleared s d) d = cleared s d"
  using cleared_eq_iff [of "cleared s d" s d] agree_cleared [of s d] by (simp add: valid_cleared)

lemma exact_add_Some: "a + b \<le> MAX_EXACT_INTEGER \<Longrightarrow> exact_add a b = Some (a + b)"
  by simp

lemma length_tentries_pos: "0 < length (tentries t)"
  by simp

lemma map_child_verify_trie:
  "sha_ok sha \<Longrightarrow> length (tentries t) \<le> MAX_EXACT_INTEGER \<Longrightarrow> map_child_verify (map_ref_of sha t) = Ok ()"
  by (simp add: map_child_verify_def trie_id_valid)

lemma map_body_verify_trie:
  assumes "sha_ok sha" "trie sha t" "length (tentries t) \<le> MAX_EXACT_INTEGER"
  shows "map_body_verify sha (map_body_of sha t) = Ok ()"
proof (cases t)
  case (Entry k v)
  then show ?thesis using assms(2) by (simp add: map_body_verify_def map_key_hash_eq)
next
  case (Split d l r)
  have v: "valid_digest (key_digest sha (first_key l))" using assms(1) by (rule key_digest_valid)
  have d: "d < 256" using assms(2) Split by simp
  note c = valid_cleared [OF v d]
  show ?thesis using Split assms(3) d c
    by (simp add: map_body_verify_def normalized_hash_prefix_Ok cleared_twice [OF v d] map_child_verify_trie [OF assms(1)])
qed

lemma map_node_entries_trie:
  "length (tentries t) \<le> MAX_EXACT_INTEGER \<Longrightarrow> map_node_entries (map_node_of sha t) = Ok (length (tentries t))"
  by (cases t) (simp_all add: map_node_entries_def)

lemma map_node_entries_sound: "map_node_entries (map_node_of sha t) = Ok n \<Longrightarrow> n = length (tentries t)"
  by (cases t) (auto simp: map_node_entries_def)

lemma map_node_verify_trie:
  "sha_ok sha \<Longrightarrow> trie sha t \<Longrightarrow> length (tentries t) \<le> MAX_EXACT_INTEGER \<Longrightarrow>
   map_node_verify sha (map_node_of sha t) = Ok ()"
  by (simp add: map_node_verify_def map_body_verify_trie trie_id_def)

lemma map_from_body_trie:
  assumes "sha_ok sha" "trie sha t" "length (tentries t) \<le> MAX_EXACT_INTEGER"
  shows "map_from_body sha (map_body_of sha t) = Ok (map_node_of sha t)"
  using map_node_verify_trie [OF assms] by (simp add: map_from_body_def map_node_of_def trie_id_def Let_def)

lemma map_from_body_Ok: "map_from_body sha (map_body_of sha t) = Ok n \<Longrightarrow> n = map_node_of sha t"
  by (auto simp: map_from_body_def Let_def map_node_of_def trie_id_def)

lemma map_root_verify_trie:
  "sha_ok sha \<Longrightarrow> length (opt_entries t) \<le> MAX_EXACT_INTEGER \<Longrightarrow> map_root_verify (map_root_of sha t) = Ok ()"
  by (cases t) (simp_all add: map_root_verify_def trie_id_valid map_root_empty_def)

section \<open>Paths\<close>

fun theight :: "map_tree \<Rightarrow> nat" where
  "theight (Entry k v) = 1"
| "theight (Split d l r) = Suc (max (theight l) (theight r))"

lemma trie_depth_increases:
  assumes "trie sha (Split d l r)" "u = l \<or> u = r" "u = Split d' l' r'"
  shows "d < d'"
proof (rule ccontr)
  assume "\<not> d < d'"
  have k: "first_key l' \<in> tkeys u" "first_key r' \<in> tkeys u" using assms(3) by auto
  then have "agree d (key_digest sha (first_key l')) (key_digest sha (first_key r'))"
    "hbit (key_digest sha (first_key l')) d = hbit (key_digest sha (first_key r')) d"
    using assms(1,2) trie_agree [OF assms(1)] by auto
  then have "hbit (key_digest sha (first_key l')) d' = hbit (key_digest sha (first_key r')) d'"
    using \<open>\<not> d < d'\<close> by (cases "d = d'") (auto simp: agree_def)
  moreover have "trie sha u" using assms(1,2) by auto
  then have "\<not> hbit (key_digest sha (first_key l')) d'" "hbit (key_digest sha (first_key r')) d'"
    using assms(3) by auto
  ultimately show False by simp
qed

lemma trie_height:
  assumes "trie sha t" "\<And>d l r. t = Split d l r \<Longrightarrow> m \<le> d" "m \<le> 256"
  shows "theight t + m \<le> 257"
  using assms
proof (induction t arbitrary: m)
  case (Split d l r)
  have d: "d < 256" "trie sha l" "trie sha r" "m \<le> d" using Split.prems by simp_all
  have "theight l + Suc d \<le> 257"
    using trie_depth_increases [OF Split.prems(1)] d by (intro Split.IH(1)) (auto simp: Suc_le_eq)
  moreover have "theight r + Suc d \<le> 257"
    using trie_depth_increases [OF Split.prems(1)] d by (intro Split.IH(2)) (auto simp: Suc_le_eq)
  ultimately show ?case using d(4) by simp
qed simp

lemma trie_path_bound: "trie sha t \<Longrightarrow> theight t \<le> MAX_MAP_PATH_NODES"
  using trie_height [of sha t 0] by (simp add: MAX_MAP_PATH_NODES_def)

text \<open>A constraint that every key of a subtrie meets, at a depth above it.\<close>

definition meets :: "(string \<Rightarrow> string) \<Rightarrow> map_tree \<Rightarrow> path_constraint \<Rightarrow> bool" where
  "meets sha t c \<longleftrightarrow> pc_depth c < 256 \<and> (\<forall>d l r. t = Split d l r \<longrightarrow> pc_depth c < d)
     \<and> (\<forall>k\<in>tkeys t. cleared (key_digest sha k) (pc_depth c) = pc_prefix c \<and> hbit (key_digest sha k) (pc_depth c) = pc_right c)"

abbreviation fits :: "(string \<Rightarrow> string) \<Rightarrow> map_tree \<Rightarrow> path_constraint list \<Rightarrow> bool" where
  "fits sha t cs \<equiv> list_all (meets sha t) cs"

abbreviation side :: "(string \<Rightarrow> string) \<Rightarrow> nat \<Rightarrow> map_tree \<Rightarrow> bool \<Rightarrow> path_constraint" where
  "side sha d l right \<equiv> \<lparr>pc_depth = d, pc_prefix = cleared (key_digest sha (first_key l)) d, pc_right = right\<rparr>"

lemma verify_constraint_Ok:
  "valid_digest h \<Longrightarrow> pc_depth c < 256 \<Longrightarrow> cleared h (pc_depth c) = pc_prefix c \<Longrightarrow> hbit h (pc_depth c) = pc_right c \<Longrightarrow>
   verify_constraint h c = Ok ()"
  by (simp add: verify_constraint_def hash_matches_prefix_Ok hash_bit_Ok)

lemma fits_Entry: "sha_ok sha \<Longrightarrow> fits sha (Entry k v) cs \<Longrightarrow> verify_constraints (key_digest sha k) cs = Ok ()"
  by (auto simp: verify_constraints_def list_all_iff meets_def key_digest_valid intro!: verify_constraint_Ok)

lemma fits_Split:
  assumes "sha_ok sha" "trie sha (Split d l r)" "fits sha (Split d l r) cs"
  shows "verify_constraints (cleared (key_digest sha (first_key l)) d) cs = Ok ()" "depth_increases cs d = Ok ()"
proof -
  let ?h = "key_digest sha (first_key l)"
  have v: "valid_digest ?h" using assms(1) by (rule key_digest_valid)
  have d: "d < 256" using assms(2) by simp
  have "verify_constraint (cleared ?h d) c = Ok ()" if "c \<in> set cs" for c
  proof (rule verify_constraint_Ok [OF valid_cleared [OF v d]])
    have c: "pc_depth c < d" "cleared ?h (pc_depth c) = pc_prefix c" "hbit ?h (pc_depth c) = pc_right c"
      using assms(3) that by (auto simp: list_all_iff meets_def)
    then show "pc_depth c < 256" using d by simp
    then show "hbit (cleared ?h d) (pc_depth c) = pc_right c" using hbit_cleared [OF v d] c by simp
    have "agree (pc_depth c) (cleared ?h d) ?h" using agree_mono [OF agree_cleared [OF v d]] c(1) by simp
    then show "cleared (cleared ?h d) (pc_depth c) = pc_prefix c"
      using cleared_eq_iff [OF valid_cleared [OF v d] v \<open>pc_depth c < 256\<close>] c(2) by simp
  qed
  then show "verify_constraints (cleared ?h d) cs = Ok ()" by (simp add: verify_constraints_def)
  show "depth_increases cs d = Ok ()"
  proof (cases "cs = []")
    case False
    then have "meets sha (Split d l r) (last cs)" using assms(3) by (simp add: list_all_iff)
    then show ?thesis by (simp add: depth_increases_def meets_def)
  qed (simp add: depth_increases_def)
qed

lemma fits_child:
  assumes "sha_ok sha" "trie sha (Split d l r)" "fits sha (Split d l r) cs"
  shows "fits sha (if right then r else l) (cs @ [side sha d l right])"
proof -
  let ?u = "if right then r else l"
  have deeper: "d < d'" if "?u = Split d' l' r'" for d' l' r'
    using trie_depth_increases [OF assms(2) _ that] by simp
  have keys: "tkeys ?u \<subseteq> tkeys (Split d l r)" by simp
  have "meets sha ?u c" if "c \<in> set cs" for c
  proof -
    have c: "meets sha (Split d l r) c" using assms(3) that by (simp add: list_all_iff)
    then have "pc_depth c < d" by (simp add: meets_def)
    then show ?thesis using c deeper keys unfolding meets_def by (meson in_mono order.strict_trans)
  qed
  moreover have "meets sha ?u (side sha d l right)"
  proof -
    have "cleared (key_digest sha k) d = cleared (key_digest sha (first_key l)) d" if "k \<in> tkeys ?u" for k
      using trie_agree_first [OF assms(2)] keys that assms(2) cleared_eq_iff key_digest_valid [OF assms(1)] by auto
    then show ?thesis using assms(2) deeper by (auto simp: meets_def split: if_splits)
  qed
  ultimately show ?thesis by (simp add: list_all_iff)
qed

section \<open>Lookups\<close>

definition trank :: "map_tree \<Rightarrow> string \<Rightarrow> nat" where
  "trank t k = length (takeWhile (\<lambda>e. fst e \<noteq> k) (tentries t))"

definition tree_look :: "(string \<Rightarrow> string) \<Rightarrow> string \<Rightarrow> map_tree \<Rightarrow> nat \<Rightarrow> collection_error + lookup_outcome" where
  "tree_look sha k t rank =
     (if \<not> uncollided sha k t then Err (Integrity ''map_key_hash_collision'')
      else Ok \<lparr>lo_value = tmap t k, lo_rank = (if k \<in> tkeys t then Some (rank + trank t k) else None)\<rparr>)"

lemma tree_look_Entry:
  "tree_look sha k (Entry k' v) rank = lookup_leaf k (key_digest sha k) k' (key_digest sha k') v rank"
  by (auto simp: tree_look_def lookup_leaf_def uncollided_def trank_def)

lemma trank_less: "k \<in> tkeys t \<Longrightarrow> trank t k < length (tentries t)"
proof -
  assume "k \<in> tkeys t"
  then obtain e where "e \<in> set (tentries t)" "fst e = k" using tkeys_entries by force
  then have "takeWhile (\<lambda>e. fst e \<noteq> k) (tentries t) \<noteq> tentries t" by (metis (mono_tags, lifting) set_takeWhileD)
  then show ?thesis unfolding trank_def by (metis length_takeWhile_le nat_less_le takeWhile_eq_take take_all order_refl)
qed

lemma trank_Split:
  assumes "trie sha (Split d l r)" "k \<in> tkeys (Split d l r)"
  shows "trank (Split d l r) k = (if hbit (key_digest sha k) d then length (tentries l) + trank r k else trank l k)"
proof -
  have none: "\<forall>e\<in>set (tentries u). fst e \<noteq> k" if "k \<notin> tkeys u" for u
    using that entry_key by (metis prod.collapse)
  show ?thesis
  proof (cases "hbit (key_digest sha k) d")
    case True
    then have "k \<notin> tkeys l" using assms(1) by auto
    then show ?thesis using True none [of l] by (simp add: trank_def takeWhile_append2)
  next
    case False
    then have "k \<in> fst ` set (tentries l)" using assms tkeys_entries [of l] by auto
    then obtain e where "e \<in> set (tentries l)" "\<not> fst e \<noteq> k" by auto
    then show ?thesis using False takeWhile_append1 [of e "tentries l"] by (simp add: trank_def)
  qed
qed

lemma tree_look_absent:
  assumes "sha_ok sha" "trie sha (Split d l r)" "cleared (key_digest sha k) d \<noteq> cleared (key_digest sha (first_key l)) d"
  shows "tree_look sha k (Split d l r) rank = Ok absent"
proof -
  have "\<not> agree d (key_digest sha k) (key_digest sha (first_key l))"
    using assms cleared_eq_iff key_digest_valid [OF assms(1)] by auto
  then have ne: "key_digest sha x \<noteq> key_digest sha k" if "x \<in> tkeys (Split d l r)" for x
    using trie_agree_first [OF assms(2) that] by metis
  then have "k \<notin> tkeys (Split d l r)" by blast
  then show ?thesis using ne tmap_absent [of k "Split d l r"] by (auto simp: tree_look_def uncollided_def)
qed

lemma uncollided_Split:
  assumes "trie sha (Split d l r)"
  shows "uncollided sha k (Split d l r) \<longleftrightarrow> uncollided sha k (if hbit (key_digest sha k) d then r else l)"
proof -
  have "key_digest sha x \<noteq> key_digest sha k" if "x \<in> tkeys (if hbit (key_digest sha k) d then l else r)" for x
  proof -
    have "hbit (key_digest sha x) d \<noteq> hbit (key_digest sha k) d" using assms that by (auto split: if_splits)
    then show ?thesis by auto
  qed
  then show ?thesis by (auto simp: uncollided_def split: if_splits)
qed

lemma tree_look_Split:
  assumes "trie sha (Split d l r)"
  shows "tree_look sha k (Split d l r) rank =
    (if hbit (key_digest sha k) d then tree_look sha k r (rank + length (tentries l)) else tree_look sha k l rank)"
proof -
  have "k \<in> tkeys (Split d l r) \<longleftrightarrow> k \<in> tkeys (if hbit (key_digest sha k) d then r else l)" using assms by auto
  then show ?thesis using uncollided_Split [OF assms, of k] tmap_Split [OF assms, of k] trank_Split [OF assms, of k]
    by (auto simp: tree_look_def simp del: tentries.simps tkeys.simps trie.simps)
qed

section \<open>Mutation batches\<close>

definition opt_look :: "(string \<Rightarrow> string) \<Rightarrow> string \<Rightarrow> map_tree option \<Rightarrow> collection_error + lookup_outcome" where
  "opt_look sha k t = (case t of None \<Rightarrow> Ok absent | Some u \<Rightarrow> tree_look sha k u 0)"

definition opt_put :: "(string \<Rightarrow> string) \<Rightarrow> string \<Rightarrow> string \<Rightarrow> map_tree option \<Rightarrow> map_tree" where
  "opt_put sha k v t = (case t of None \<Rightarrow> Entry k v | Some u \<Rightarrow> tree_put sha k v u)"

fun map_expects :: "map_mutation \<Rightarrow> (string \<rightharpoonup> string) \<Rightarrow> bool" where
  "map_expects (Put k e v) m = expectation_met e (m k)"
| "map_expects (Remove k e) m = (m k = Some e)"

fun map_edit :: "map_mutation \<Rightarrow> (string \<rightharpoonup> string) \<Rightarrow> string \<rightharpoonup> string" where
  "map_edit (Put k e v) m = m(k \<mapsto> v)"
| "map_edit (Remove k e) m = m(k := None)"

fun map_edits :: "map_mutation list \<Rightarrow> (string \<rightharpoonup> string) \<Rightarrow> (string \<rightharpoonup> string) option" where
  "map_edits [] m = Some m"
| "map_edits (x # xs) m = (if map_expects x m then map_edits xs (map_edit x m) else None)"

fun trie_edit :: "(string \<Rightarrow> string) \<Rightarrow> map_mutation \<Rightarrow> map_tree option \<Rightarrow> collection_error + map_tree option" where
  "trie_edit sha (Put k e v) t =
     rbind (opt_look sha k t) (\<lambda>found.
     if \<not> expectation_met e (lo_value found) then Err CConflict else Ok (Some (opt_put sha k v t)))"
| "trie_edit sha (Remove k e) t =
     rbind (opt_look sha k t) (\<lambda>found.
     if lo_value found \<noteq> Some e then Err CConflict else Ok (Option.bind t (tree_remove sha k)))"

abbreviation opt_trie :: "(string \<Rightarrow> string) \<Rightarrow> map_tree option \<Rightarrow> bool" where
  "opt_trie sha t \<equiv> pred_option (trie sha) t"

abbreviation opt_tsubtrees :: "map_tree option \<Rightarrow> map_tree set" where
  "opt_tsubtrees t \<equiv> (case t of None \<Rightarrow> {} | Some u \<Rightarrow> tsubtrees u)"

abbreviation opt_tkeys :: "map_tree option \<Rightarrow> string set" where
  "opt_tkeys t \<equiv> dom (opt_map t)"

text \<open>The tries a batch passes through.\<close>

fun trail :: "(string \<Rightarrow> string) \<Rightarrow> map_mutation list \<Rightarrow> map_tree option \<Rightarrow> map_tree set" where
  "trail sha [] t = {}"
| "trail sha (x # xs) t =
     (case trie_edit sha x t of Inl _ \<Rightarrow> {} | Inr u \<Rightarrow> opt_tsubtrees u \<union> trail sha xs u)"

lemma trail_result: "rfold (trie_edit sha) xs t = Ok u \<Longrightarrow> opt_tsubtrees u \<subseteq> opt_tsubtrees t \<union> trail sha xs t"
proof (induction xs arbitrary: t)
  case (Cons x xs)
  then obtain w where w: "trie_edit sha x t = Ok w" "rfold (trie_edit sha) xs w = Ok u" by auto
  from Cons.IH [OF w(2)] w(1) show ?case by auto
qed simp

definition opt_uncollided :: "(string \<Rightarrow> string) \<Rightarrow> string \<Rightarrow> map_tree option \<Rightarrow> bool" where
  "opt_uncollided sha k t = (case t of None \<Rightarrow> True | Some u \<Rightarrow> uncollided sha k u)"

lemma opt_look_eq:
  "opt_look sha k t = (if opt_uncollided sha k t
     then Ok \<lparr>lo_value = opt_map t k, lo_rank = (case t of None \<Rightarrow> None | Some u \<Rightarrow> if k \<in> tkeys u then Some (trank u k) else None)\<rparr>
     else Err (Integrity ''map_key_hash_collision''))"
  by (cases t) (simp_all add: opt_look_def tree_look_def opt_uncollided_def)

lemma opt_put_trie:
  "opt_trie sha t \<Longrightarrow> validate_key k = Ok () \<Longrightarrow> coll_validate_content_id v = Ok () \<Longrightarrow> opt_uncollided sha k t \<Longrightarrow>
   sha_ok sha \<Longrightarrow> trie sha (opt_put sha k v t) \<and> tmap (opt_put sha k v t) = (opt_map t)(k \<mapsto> v)"
  by (cases t) (simp_all add: opt_put_def opt_uncollided_def tree_put_trie tree_put_map)

lemma trie_edit_Ok:
  assumes "sha_ok sha" "opt_trie sha t" "map_mutation_verify x = Ok ()" "trie_edit sha x t = Ok u"
  shows "opt_trie sha u \<and> map_expects x (opt_map t) \<and> opt_map u = map_edit x (opt_map t)"
proof (cases x)
  case (Put k e v)
  then have v: "validate_key k = Ok ()" "coll_validate_content_id v = Ok ()"
    using assms(3) by (auto simp: map_mutation_verify_def)
  have o: "opt_uncollided sha k t" "expectation_met e (opt_map t k)" "u = Some (opt_put sha k v t)"
    using assms(4) Put by (auto simp: opt_look_eq split: if_splits)
  with opt_put_trie [OF assms(2) v o(1) assms(1)] Put show ?thesis by simp
next
  case (Remove k e)
  have o: "opt_map t k = Some e" "u = Option.bind t (tree_remove sha k)"
    using assms(4) Remove by (auto simp: opt_look_eq split: if_splits)
  then obtain w where w: "t = Some w" "k \<in> tkeys w" "trie sha w"
    using assms(2) tmap_present by (cases t) auto
  have "opt_trie sha u" using tree_remove_trie [OF w(3,2)] o(2) w(1) by (cases "tree_remove sha k w") auto
  with o w tree_remove_map [OF w(3,2)] Remove show ?thesis by simp
qed

lemma trie_edits_Ok:
  assumes "sha_ok sha" "opt_trie sha t" "list_all (\<lambda>x. map_mutation_verify x = Ok ()) xs" "rfold (trie_edit sha) xs t = Ok u"
  shows "opt_trie sha u \<and> map_edits xs (opt_map t) = Some (opt_map u)"
  using assms(2-)
proof (induction xs arbitrary: t)
  case (Cons x xs)
  then obtain w where w: "trie_edit sha x t = Ok w" "rfold (trie_edit sha) xs w = Ok u" by auto
  have "opt_trie sha w" "map_expects x (opt_map t)" "opt_map w = map_edit x (opt_map t)"
    using trie_edit_Ok [OF assms(1) Cons.prems(1) _ w(1)] Cons.prems(2) by simp_all
  with Cons.IH [OF _ _ w(2)] Cons.prems(2) show ?case by (simp del: rfold.simps)
qed simp

text \<open>Without hash collisions among the keys, the batch on tries fails only by a stale expectation.\<close>

lemma opt_uncollided_inj:
  "inj_on (key_digest sha) (insert k (opt_tkeys t)) \<Longrightarrow> opt_uncollided sha k t"
  by (cases t) (auto simp: opt_uncollided_def uncollided_def dom_tmap inj_on_def)

lemma trie_edit_total:
  assumes "inj_on (key_digest sha) (insert (mutation_key x) (opt_tkeys t))"
  shows "trie_edit sha x t = (if map_expects x (opt_map t)
    then Ok (case x of Put k e v \<Rightarrow> Some (opt_put sha k v t) | Remove k e \<Rightarrow> Option.bind t (tree_remove sha k)) else Err CConflict)"
  using opt_uncollided_inj [OF assms] by (cases x) (auto simp: opt_look_eq)

lemma map_edit_dom: "dom (map_edit x m) \<subseteq> insert (mutation_key x) (dom m)"
  by (cases x) auto

lemma trie_edits_total:
  assumes "sha_ok sha" "opt_trie sha t" "list_all (\<lambda>x. map_mutation_verify x = Ok ()) xs"
    and "inj_on (key_digest sha) (mutation_key ` set xs \<union> opt_tkeys t)"
  shows "case map_edits xs (opt_map t) of
      None \<Rightarrow> rfold (trie_edit sha) xs t = Err CConflict
    | Some m \<Rightarrow> \<exists>u. rfold (trie_edit sha) xs t = Ok u \<and> opt_trie sha u \<and> opt_map u = m"
  using assms(2-)
proof (induction xs arbitrary: t)
  case Nil
  then show ?case by simp
next
  case (Cons x xs)
  have i: "inj_on (key_digest sha) (insert (mutation_key x) (opt_tkeys t))"
    by (rule inj_on_subset [OF Cons.prems(3)]) auto
  show ?case
  proof (cases "map_expects x (opt_map t)")
    case True
    then obtain w where w: "trie_edit sha x t = Ok w" using trie_edit_total [OF i] by auto
    have m: "opt_trie sha w" "opt_map w = map_edit x (opt_map t)"
      using trie_edit_Ok [OF assms(1) Cons.prems(1) _ w] Cons.prems(2) by simp_all
    have "inj_on (key_digest sha) (mutation_key ` set xs \<union> opt_tkeys w)"
      by (rule inj_on_subset [OF Cons.prems(3)]) (use map_edit_dom [of x "opt_map t"] m(2) in auto)
    from Cons.IH [OF m(1) _ this] Cons.prems(2) True m w show ?thesis by (cases "map_edits xs (opt_map w)") simp_all
  next
    case False
    then show ?thesis using trie_edit_total [OF i] by simp
  qed
qed

text \<open>A trie, and so a root, is determined by its map.\<close>

lemma opt_trie_canonical:
  assumes "opt_trie sha t" "opt_trie sha u" "opt_map t = opt_map u"
  shows "t = u"
proof (cases t)
  case None
  then have "dom (opt_map u) = {}" using assms(3) by simp
  then show ?thesis using None by (cases u) (use dom_tmap first_key_in in fastforce)+
next
  case (Some w)
  then have "first_key w \<in> dom (opt_map u)" using assms(3) dom_tmap [of w] by simp
  then show ?thesis using Some assms trie_canonical by (cases u) auto
qed

lemma map_roots_canonical:
  "opt_trie sha t \<Longrightarrow> opt_trie sha u \<Longrightarrow> opt_map t = opt_map u \<Longrightarrow> map_root_of sha t = map_root_of sha u"
  using opt_trie_canonical by blast

end
