(* ===== verification/Map_Refine.thy ===== *)
theory Map_Refine
  imports Map_Spec
begin

text \<open>
  The stored map algorithms refine the trie algorithms. As for the log, all that is assumed of a
  resolver is that a load answers from what it holds and does not change it, and that node
  identities do not collide on the nodes \<open>U\<close> that take part.
\<close>

section \<open>The resolver interface\<close>

locale map_resolver =
  fixes load :: "'r map_load" and contents :: "'r \<Rightarrow> string \<Rightarrow> map_node option"
  assumes load_answers: "load object_id r = Ok (found, r') \<Longrightarrow>
    found = contents r object_id \<and> contents r' = contents r"

locale live_map_resolver = map_resolver +
  assumes load_live: "\<exists>found r'. load object_id r = Ok (found, r')"

section \<open>Overlays over a set of known nodes\<close>

definition map_entry_ok :: "(string \<Rightarrow> string) \<Rightarrow> map_node_body set \<Rightarrow> string \<Rightarrow> map_node \<Rightarrow> bool" where
  "map_entry_ok sha U k node \<longleftrightarrow>
     mn_body node \<in> U \<and> map_node_id sha (mn_body node) = k
     \<and> mn_object_id node = k \<and> mn_node_version node = MAP_NODE_VERSION"

definition map_held_ok ::
  "(string \<Rightarrow> string) \<Rightarrow> map_node_body set \<Rightarrow> (string \<Rightarrow> map_node option) \<Rightarrow> bool" where
  "map_held_ok sha U held \<longleftrightarrow>
     (\<forall>k node. held k = Some node \<longrightarrow> map_node_verify sha node = Ok () \<longrightarrow> mn_body node \<in> U)"

definition map_overlay_ok ::
  "(string \<Rightarrow> string) \<Rightarrow> map_node_body set \<Rightarrow> ('r \<Rightarrow> string \<Rightarrow> map_node option) \<Rightarrow> 'r map_overlay \<Rightarrow> bool" where
  "map_overlay_ok sha U contents ov \<longleftrightarrow>
     (\<forall>k node. fmlookup (mo_pending ov) k = Some node \<longrightarrow> map_entry_ok sha U k node)
     \<and> (\<forall>k node. fmlookup (mo_loaded ov) k = Some node \<longrightarrow> map_entry_ok sha U k node
          \<and> contents (mo_resolver ov) k = Some node)
     \<and> map_held_ok sha U (contents (mo_resolver ov))"

definition map_overlay_le ::
  "('r \<Rightarrow> string \<Rightarrow> map_node option) \<Rightarrow> 'r map_overlay \<Rightarrow> 'r map_overlay \<Rightarrow> bool" where
  "map_overlay_le contents ov ov' \<longleftrightarrow>
     fmdom (mo_pending ov) |\<subseteq>| fmdom (mo_pending ov') \<and> fmdom (mo_loaded ov) |\<subseteq>| fmdom (mo_loaded ov')
     \<and> contents (mo_resolver ov') = contents (mo_resolver ov)"

definition map_available ::
  "(string \<Rightarrow> string) \<Rightarrow> ('r \<Rightarrow> string \<Rightarrow> map_node option) \<Rightarrow> 'r map_overlay \<Rightarrow> map_tree set \<Rightarrow> bool" where
  "map_available sha contents ov T \<longleftrightarrow>
     (\<forall>s\<in>T. trie_id sha s |\<in>| fmdom (mo_pending ov) \<or> trie_id sha s |\<in>| fmdom (mo_loaded ov)
       \<or> contents (mo_resolver ov) (trie_id sha s) = Some (map_node_of sha s))"

definition map_created :: "(string \<Rightarrow> string) \<Rightarrow> 'r map_overlay \<Rightarrow> map_tree set \<Rightarrow> bool" where
  "map_created sha ov T \<longleftrightarrow> (\<forall>s\<in>T. trie_id sha s |\<in>| fmdom (mo_pending ov))"

lemma map_overlay_le_refl [simp]: "map_overlay_le contents ov ov"
  by (simp add: map_overlay_le_def)

lemma map_overlay_le_trans [trans]:
  "map_overlay_le contents a b \<Longrightarrow> map_overlay_le contents b c \<Longrightarrow> map_overlay_le contents a c"
  by (auto simp: map_overlay_le_def)

lemma map_created_mono: "map_created sha ov T \<Longrightarrow> map_overlay_le contents ov ov' \<Longrightarrow> map_created sha ov' T"
  by (fastforce simp: map_created_def map_overlay_le_def)

lemma map_available_mono:
  "map_available sha contents ov T \<Longrightarrow> map_overlay_le contents ov ov' \<Longrightarrow> map_available sha contents ov' T"
  by (fastforce simp: map_available_def map_overlay_le_def)

lemma map_available_subset: "map_available sha contents ov B \<Longrightarrow> A \<subseteq> B \<Longrightarrow> map_available sha contents ov A"
  by (auto simp: map_available_def)

lemma map_available_Un [simp]:
  "map_available sha contents ov (A \<union> B) \<longleftrightarrow> map_available sha contents ov A \<and> map_available sha contents ov B"
  by (auto simp: map_available_def)

lemma map_created_available: "map_created sha ov T \<Longrightarrow> map_available sha contents ov T"
  by (auto simp: map_created_def map_available_def)

abbreviation map_refines ::
  "(string \<Rightarrow> string) \<Rightarrow> map_node_body set \<Rightarrow> ('r \<Rightarrow> string \<Rightarrow> map_node option) \<Rightarrow> 'r map_overlay
   \<Rightarrow> collection_error + ('a \<times> 'r map_overlay) \<Rightarrow> collection_error + 'a \<Rightarrow> map_tree set \<Rightarrow> bool \<Rightarrow> bool" where
  "map_refines sha U contents \<equiv> simulates (map_overlay_ok sha U contents) (map_overlay_le contents) (map_created sha)"

interpretation map_overlay:
  growing_store "map_overlay_ok sha U contents" "map_overlay_le contents" "map_created sha"
  for sha :: "string \<Rightarrow> string" and U :: "map_node_body set" and contents :: "'r \<Rightarrow> string \<Rightarrow> map_node option"
proof unfold_locales
  show "map_overlay_le contents a c" if "map_overlay_le contents a b" "map_overlay_le contents b c" for a b c :: "'r map_overlay"
    using that by (rule map_overlay_le_trans)
  show "map_created sha b A" if "map_created sha a A" "map_overlay_le contents a b" for a b :: "'r map_overlay" and A
    using that by (rule map_created_mono)
qed (auto simp: map_created_def)

lemma map_entry_ok_trie:
  assumes "map_entry_ok sha U (trie_id sha t) node" "inj_on (map_node_id sha) U" "map_body_of sha t \<in> U"
  shows "node = map_node_of sha t"
proof -
  have "mn_body node = map_body_of sha t"
    using assms by (auto simp: map_entry_ok_def trie_id_def dest: inj_onD)
  with assms(1) show ?thesis by (simp add: map_entry_ok_def map_node_of_def map_node.equality)
qed

lemma map_verified_entry:
  "map_node_verify sha node = Ok () \<Longrightarrow> mn_body node \<in> U \<Longrightarrow> map_entry_ok sha U (mn_object_id node) node"
  by (auto simp: map_node_verify_def map_entry_ok_def split: if_splits)

lemma map_overlay_new_ok: "map_held_ok sha U (contents r) \<Longrightarrow> map_overlay_ok sha U contents (map_overlay_new r)"
  by (simp add: map_overlay_ok_def map_overlay_new_def)

section \<open>Known tries and readiness\<close>

definition map_known :: "(string \<Rightarrow> string) \<Rightarrow> map_node_body set \<Rightarrow> map_tree \<Rightarrow> bool" where
  "map_known sha U t \<longleftrightarrow> trie sha t \<and> map_body_of sha ` tsubtrees t \<subseteq> U"

lemma map_known_Split: "map_known sha U (Split d l r) \<Longrightarrow> map_known sha U l \<and> map_known sha U r"
  by (auto simp: map_known_def)

lemma map_known_self: "map_known sha U t \<Longrightarrow> map_body_of sha t \<in> U \<and> trie sha t"
  by (auto simp: map_known_def)

text \<open>The nodes an operation may need can all be fetched, and \<open>n\<close> entries are within the exact
  integers.\<close>

definition map_ready ::
  "'r map_load \<Rightarrow> (string \<Rightarrow> string) \<Rightarrow> ('r \<Rightarrow> string \<Rightarrow> map_node option) \<Rightarrow> 'r map_overlay \<Rightarrow> map_tree set \<Rightarrow> nat \<Rightarrow> bool" where
  "map_ready load sha contents ov T n \<longleftrightarrow>
     (\<forall>object_id r. \<exists>y. load object_id r = Ok y) \<and> map_available sha contents ov T \<and> n \<le> MAX_EXACT_INTEGER"

lemma map_ready_step:
  assumes "map_ready load sha contents ov T n" "map_overlay_le contents ov ov'" "map_created sha ov' A"
    and "T' \<subseteq> T \<union> A" "n' \<le> n"
  shows "map_ready load sha contents ov' T' n'"
  using assms map_available_mono [OF _ assms(2)] map_created_available [OF assms(3), of contents]
  unfolding map_ready_def by (metis map_available_Un map_available_subset order.trans)

lemma map_ready_le:
  "map_ready load sha contents ov T n \<Longrightarrow> map_overlay_le contents ov ov' \<Longrightarrow> map_ready load sha contents ov' T n"
  using map_available_mono by (auto simp: map_ready_def)

lemma map_ready_subset:
  "map_ready load sha contents ov T n \<Longrightarrow> T' \<subseteq> T \<Longrightarrow> n' \<le> n \<Longrightarrow> map_ready load sha contents ov T' n'"
  using map_available_subset by (auto simp: map_ready_def)

section \<open>Loading and storing\<close>

text \<open>Storing the node of a trie whose body the caller has built. What an unready caller stores may
  fail a check.\<close>

lemma map_store_refines:
  assumes "inj_on (map_node_id sha) U" "map_overlay_ok sha U contents ov" "map_body_of sha t \<in> U" "sha_ok sha"
    and live: "live \<Longrightarrow> trie sha t \<and> length (tentries t) \<le> MAX_EXACT_INTEGER"
  shows "map_refines sha U contents ov
    (rbind (map_from_body sha (map_body_of sha t)) (\<lambda>node. map_overlay_store sha node ov)) (Ok (map_ref_of sha t)) {t} live"
proof (rule map_overlay.sim_pure [where v = "map_node_of sha t"])
  show "x = map_node_of sha t" if "map_from_body sha (map_body_of sha t) = Ok x" for x
    using that by (rule map_from_body_Ok)
  show "map_from_body sha (map_body_of sha t) = Ok (map_node_of sha t)" if live
    using live [OF that] map_from_body_trie [OF assms(4)] by simp
  let ?ov = "ov\<lparr>mo_pending := fmupd (trie_id sha t) (map_node_of sha t) (mo_pending ov)\<rparr>"
  have same: "existing = map_node_of sha t" if "fmlookup (mo_pending ov) (trie_id sha t) = Some existing" for existing
    using map_entry_ok_trie [OF _ assms(1,3)] assms(2) that by (simp add: map_overlay_ok_def)
  have ok: "map_overlay_ok sha U contents ?ov"
    using assms(2,3) by (auto simp: map_overlay_ok_def map_entry_ok_def trie_id_def)
  have le: "map_overlay_le contents ov ?ov" "map_created sha ?ov {t}"
    by (auto simp: map_overlay_le_def map_created_def)
  have val: "x = map_ref_of sha t \<and> ov' = ?ov" if "map_overlay_store sha (map_node_of sha t) ov = Ok (x, ov')" for x ov'
    using that by (auto simp: map_overlay_store_def map_ref_of_def dest!: map_node_entries_sound split: option.splits if_splits)
  have tot: "map_overlay_store sha (map_node_of sha t) ov = Ok (map_ref_of sha t, ?ov)" if live
    using live [OF that] same assms(4) map_node_entries_trie [of t sha] map_node_verify_trie [of sha t]
    by (auto simp: map_overlay_store_def map_ref_of_def split: option.splits)
  show "map_refines sha U contents ov (map_overlay_store sha (map_node_of sha t) ov) (Ok (map_ref_of sha t)) {t} live"
    by (rule map_overlay.simI) (use val tot ok le in blast)+
qed

lemma new_leaf_refines:
  assumes "inj_on (map_node_id sha) U" "map_overlay_ok sha U contents ov" "map_body_of sha (Entry k v) \<in> U" "sha_ok sha"
    and "live \<Longrightarrow> trie sha (Entry k v)"
  shows "map_refines sha U contents ov (new_leaf sha k (key_digest sha k) v ov) (Ok (map_ref_of sha (Entry k v))) {Entry k v} live"
  using map_store_refines [OF assms(1-4), of live] assms(5)
  by (simp add: new_leaf_def map_leaf_def MAX_EXACT_INTEGER_def)

lemma store_branch_refines:
  assumes "inj_on (map_node_id sha) U" "map_overlay_ok sha U contents ov" "map_body_of sha (Split d l r) \<in> U" "sha_ok sha"
    and "prefix = cleared (key_digest sha (first_key l)) d"
    and "live \<Longrightarrow> trie sha (Split d l r) \<and> length (tentries (Split d l r)) \<le> MAX_EXACT_INTEGER"
  shows "map_refines sha U contents ov (store_branch sha d prefix (map_ref_of sha l) (map_ref_of sha r) ov)
    (Ok (map_ref_of sha (Split d l r))) {Split d l r} live"
  using map_store_refines [OF assms(1-4,6)] assms(5) by (simp add: store_branch_def map_branch_def del: trie.simps)

text \<open>A new branch over an existing trie and a new leaf, at the depth where the hashes fork.\<close>

lemma new_branch_refines:
  assumes "inj_on (map_node_id sha) U" "map_overlay_ok sha U contents ov" "map_body_of sha (join_entry sha d k v t) \<in> U" "sha_ok sha"
    and "d < 256" "agree d (key_digest sha k) (key_digest sha (first_key t))"
    and "live \<Longrightarrow> trie sha (join_entry sha d k v t) \<and> length (tentries t) < MAX_EXACT_INTEGER"
  shows "map_refines sha U contents ov (new_branch sha d (key_digest sha k) (map_ref_of sha (Entry k v)) (map_ref_of sha t) ov)
    (Ok (map_ref_of sha (join_entry sha d k v t))) {join_entry sha d k v t} live"
proof -
  note v = key_digest_valid [OF assms(4)]
  have p: "cleared (key_digest sha k) d = cleared (key_digest sha (first_key t)) d"
    using assms(5,6) cleared_eq_iff [OF v v] by simp
  have run: "new_branch sha d (key_digest sha k) (map_ref_of sha (Entry k v)) (map_ref_of sha t) ov =
    (if hbit (key_digest sha k) d then store_branch sha d (cleared (key_digest sha k) d) (map_ref_of sha t) (map_ref_of sha (Entry k v)) ov
     else store_branch sha d (cleared (key_digest sha k) d) (map_ref_of sha (Entry k v)) (map_ref_of sha t) ov)"
    using assms(5) v by (simp add: new_branch_def hash_bit_Ok normalized_hash_prefix_Ok)
  show ?thesis
  proof (cases "hbit (key_digest sha k) d")
    case True
    then have e: "join_entry sha d k v t = Split d t (Entry k v)" by (simp add: join_entry_def)
    show ?thesis unfolding run e using True p assms(7)
      by (auto simp: e intro!: store_branch_refines [OF assms(1,2) assms(3) [unfolded e] assms(4)])
  next
    case False
    then have e: "join_entry sha d k v t = Split d (Entry k v) t" by (simp add: join_entry_def)
    show ?thesis unfolding run e using False p assms(7)
      by (auto simp: e intro!: store_branch_refines [OF assms(1,2) assms(3) [unfolded e] assms(4)])
  qed
qed

context map_resolver
begin

lemma map_fetch_sound:
  assumes "inj_on (map_node_id sha) U" "map_overlay_ok sha U contents ov" "map_body_of sha t \<in> U"
    and "map_overlay_fetch sha load (map_ref_of sha t) ov = Ok (node, ov')"
  shows "node = map_node_of sha t \<and> map_overlay_ok sha U contents ov' \<and> map_overlay_le contents ov ov'"
proof (cases "fmlookup (mo_pending ov) (trie_id sha t) = None \<and> fmlookup (mo_loaded ov) (trie_id sha t) = None")
  case True
  with assms(4) obtain r where found: "load (trie_id sha t) (mo_resolver ov) = Ok (Some node, r)"
    "map_node_verify sha node = Ok ()" "mn_object_id node = trie_id sha t"
    "ov' = ov\<lparr>mo_resolver := r, mo_loaded := fmupd (trie_id sha t) node (mo_loaded ov)\<rparr>"
    by (fastforce simp: map_overlay_fetch_def)
  with load_answers have held: "contents (mo_resolver ov) (trie_id sha t) = Some node"
    "contents r = contents (mo_resolver ov)" by auto
  with found(2) assms(2) have "mn_body node \<in> U" by (auto simp: map_overlay_ok_def map_held_ok_def)
  with map_verified_entry [OF found(2)] found(3) have entry: "map_entry_ok sha U (trie_id sha t) node" by simp
  with assms(2) held found(4) have "map_overlay_ok sha U contents ov'" "map_overlay_le contents ov ov'"
    by (auto simp: map_overlay_ok_def map_overlay_le_def)
  with map_entry_ok_trie [OF entry assms(1,3)] show ?thesis by simp
next
  case False
  with assms(4) have "ov' = ov" "fmlookup (mo_pending ov) (trie_id sha t) = Some node
    \<or> fmlookup (mo_loaded ov) (trie_id sha t) = Some node"
    by (auto simp: map_overlay_fetch_def split: option.splits)
  moreover from this assms(2) have "map_entry_ok sha U (trie_id sha t) node" by (auto simp: map_overlay_ok_def)
  ultimately show ?thesis using map_entry_ok_trie [OF _ assms(1,3)] assms(2) by simp
qed

lemma map_fetch_live:
  assumes "map_ready load sha contents ov T n" "t \<in> T" "trie sha t" "length (tentries t) \<le> n" "sha_ok sha"
  shows "\<exists>y. map_overlay_fetch sha load (map_ref_of sha t) ov = Ok y"
proof (cases "fmlookup (mo_pending ov) (trie_id sha t) = None \<and> fmlookup (mo_loaded ov) (trie_id sha t) = None")
  case True
  then have held: "contents (mo_resolver ov) (trie_id sha t) = Some (map_node_of sha t)"
    using assms(1,2) by (fastforce simp: map_ready_def map_available_def fmdom_notI)
  obtain found r where "load (trie_id sha t) (mo_resolver ov) = Ok (found, r)"
    using assms(1) by (fastforce simp: map_ready_def)
  with load_answers [OF this] held True map_node_verify_trie [of sha t] assms(1,3-5) show ?thesis
    by (simp add: map_overlay_fetch_def map_ready_def)
next
  case False
  then show ?thesis by (auto simp: map_overlay_fetch_def split: option.splits)
qed

lemma map_load_refines:
  assumes "inj_on (map_node_id sha) U" "map_overlay_ok sha U contents ov" "map_known sha U t" "sha_ok sha"
    and live: "live \<Longrightarrow> map_ready load sha contents ov (tsubtrees t) n" "live \<Longrightarrow> length (tentries t) \<le> n"
  shows "map_refines sha U contents ov (map_overlay_load sha load (map_ref_of sha t) ov) (Ok (map_node_of sha t)) {} live"
  unfolding map_overlay_load_def
proof (rule map_overlay.sim_then [where v = "map_node_of sha t"])
  have t: "map_body_of sha t \<in> U" "trie sha t" using map_known_self [OF assms(3)] by simp_all
  have fetched: "\<exists>y. map_overlay_fetch sha load (map_ref_of sha t) ov = Ok y" if live
    using map_fetch_live [OF live(1) [OF that] _ t(2) live(2) [OF that] assms(4)] by simp
  show "map_refines sha U contents ov (map_overlay_fetch sha load (map_ref_of sha t) ov) (Ok (map_node_of sha t)) {} live"
    by (rule map_overlay.simI) (use map_fetch_sound [OF assms(1,2) t(1)] fetched in \<open>auto simp: map_created_def\<close>)
  fix ov' assume "map_overlay_ok sha U contents ov'"
  moreover have "live \<Longrightarrow> length (tentries t) \<le> MAX_EXACT_INTEGER" using live by (fastforce simp: map_ready_def)
  ultimately show "map_refines sha U contents ov' (case (map_node_of sha t, ov') of (node, ov) \<Rightarrow>
      rbind (map_node_entries node) (\<lambda>entries. if entries \<noteq> mr_entries (map_ref_of sha t)
        then Err (Integrity ''map_child_count_mismatch'') else Ok (node, ov))) (Ok (map_node_of sha t)) {} live"
    using map_node_entries_trie [of t sha]
    by (auto simp: simulates_def map_created_def dest!: map_node_entries_sound)
qed

end

end
