(* ===== verification/Map_Refine_Ops.thy ===== *)
theory Map_Refine_Ops
  imports Map_Refine
begin

text \<open>
  Lookup, insertion and removal through the overlay refine the operations on tries, along one path
  whose constraints hold; and so do the operations on roots and the mutation batch.
\<close>

lemma theight_Split_fuel: "theight (Split d l r) \<le> Suc n \<Longrightarrow> theight l \<le> n \<and> theight r \<le> n"
  by simp

lemma theight_pos: "theight t \<le> fuel \<Longrightarrow> fuel \<noteq> 0"
  by (cases t) auto

text \<open>What a live path operation has at its disposal.\<close>

definition path_live ::
  "'r map_load \<Rightarrow> (string \<Rightarrow> string) \<Rightarrow> ('r \<Rightarrow> string \<Rightarrow> map_node option) \<Rightarrow> 'r map_overlay
   \<Rightarrow> map_tree \<Rightarrow> path_constraint list \<Rightarrow> nat \<Rightarrow> nat \<Rightarrow> bool" where
  "path_live load sha contents ov t cs fuel n \<longleftrightarrow>
     map_ready load sha contents ov (tsubtrees t) n \<and> fits sha t cs \<and> theight t \<le> fuel"

lemma path_live_ready: "path_live load sha contents ov t cs fuel n \<Longrightarrow> map_ready load sha contents ov (tsubtrees t) n"
  by (simp add: path_live_def)

lemma path_live_fuel: "path_live load sha contents ov t cs fuel n \<Longrightarrow> \<exists>m. fuel = Suc m"
  using theight_pos by (cases fuel) (auto simp: path_live_def)

lemma path_live_child:
  assumes "path_live load sha contents ov (Split d l r) cs (Suc m) n" "map_overlay_le contents ov ov'"
    and "sha_ok sha" "trie sha (Split d l r)"
  shows "path_live load sha contents ov' (if right then r else l) (cs @ [side sha d l right]) m n"
proof -
  have "map_ready load sha contents ov' (tsubtrees (if right then r else l)) n"
    using map_ready_subset [OF map_ready_le [OF path_live_ready [OF assms(1)] assms(2)]] by auto
  moreover have "fits sha (Split d l r) cs" "theight (if right then r else l) \<le> m" using assms(1) by (auto simp: path_live_def)
  ultimately show ?thesis using fits_child [OF assms(3,4), of cs right] by (simp add: path_live_def)
qed

lemmas path_live_left = path_live_child [where right = False, simplified if_False]
lemmas path_live_right = path_live_child [where right = True, simplified if_True]

lemma path_live_checks:
  assumes "path_live load sha contents ov t cs fuel n" "sha_ok sha" "trie sha t"
  shows "t = Entry k v \<Longrightarrow> verify_constraints (key_digest sha k) cs = Ok ()"
    and "t = Split d l r \<Longrightarrow> verify_constraints (cleared (key_digest sha (first_key l)) d) cs = Ok ()"
    and "t = Split d l r \<Longrightarrow> depth_increases cs d = Ok ()"
  using assms fits_Entry [OF assms(2)] fits_Split [OF assms(2)] by (auto simp: path_live_def simp del: trie.simps)

context map_resolver
begin

section \<open>Lookup\<close>

lemma overlay_lookup_from_refines:
  assumes "inj_on (map_node_id sha) U" "sha_ok sha"
    and "map_overlay_ok sha U contents ov" "map_known sha U t"
    and "live \<Longrightarrow> path_live load sha contents ov t cs fuel n" "live \<Longrightarrow> rank + length (tentries t) \<le> n"
  shows "map_refines sha U contents ov
    (overlay_lookup_from sha load k (key_digest sha k) fuel (map_ref_of sha t) cs rank ov) (tree_look sha k t rank) {} live"
  using assms(3-)
proof (induction t arbitrary: fuel cs rank ov)
  case (Entry k' v)
  show ?case
  proof (cases fuel)
    case 0
    then show ?thesis using Entry(3) path_live_fuel by (fastforce simp: simulates_def)
  next
    case (Suc m)
    have load: "map_refines sha U contents ov (map_overlay_load sha load (map_ref_of sha (map_tree.Entry k' v)) ov)
        (Ok (map_node_of sha (map_tree.Entry k' v))) {} live"
      using path_live_ready [OF Entry(3)] Entry(4) by (intro map_load_refines [OF assms(1) Entry(1,2) assms(2)]) force+
    have check: "verify_constraints (key_digest sha k') cs = Ok ()" if live
      using path_live_checks(1) [OF Entry(3) [OF that] assms(2)] map_known_self [OF Entry(2)] by simp
    show ?thesis unfolding Suc overlay_lookup_from.simps
    proof (rule map_overlay.sim_then [OF load], goal_cases)
      case (1 ov')
      then show ?case using check
        by (simp add: tree_look_Entry) (rule map_overlay.sim_check, simp, rule map_overlay.sim_lift, simp)
    qed
  qed
next
  case (Split d l r)
  let ?t = "map_tree.Split d l r"
  show ?case
  proof (cases fuel)
    case 0
    then show ?thesis using Split.prems(3) path_live_fuel by (fastforce simp: simulates_def)
  next
    case (Suc m)
    have t: "trie sha ?t" "d < 256" using map_known_self [OF Split.prems(2)] by auto
    have load: "map_refines sha U contents ov (map_overlay_load sha load (map_ref_of sha ?t) ov) (Ok (map_node_of sha ?t)) {} live"
      using path_live_ready [OF Split.prems(3)] Split.prems(4)
      by (intro map_load_refines [OF assms(1) Split.prems(1,2) assms(2)]) force+
    have checks: "verify_constraints (cleared (key_digest sha (first_key l)) d) cs = Ok ()" "depth_increases cs d = Ok ()" if live
      using path_live_checks(2,3) [OF Split.prems(3) [OF that] assms(2) t(1)] by simp_all
    note v = key_digest_valid [OF assms(2), of k]
    show ?thesis unfolding Suc overlay_lookup_from.simps
    proof (rule map_overlay.sim_then [OF load], goal_cases)
      case (1 ov')
      have k: "map_known sha U l" "map_known sha U r" using map_known_Split [OF Split.prems(2)] by simp_all
      have left: "map_refines sha U contents ov' (overlay_lookup_from sha load k (key_digest sha k) m (map_ref_of sha l)
          (cs @ [side sha d l False]) rank ov') (tree_look sha k l rank) {} live"
        using Split.prems(4) path_live_left [OF Split.prems(3) [unfolded Suc] 1(2) assms(2) t(1)]
        by (intro Split.IH(1) [OF 1(1) k(1)]) auto
      have right: "map_refines sha U contents ov' (overlay_lookup_from sha load k (key_digest sha k) m (map_ref_of sha r)
          (cs @ [side sha d l True]) (rank + length (tentries l)) ov') (tree_look sha k r (rank + length (tentries l))) {} live"
        using Split.prems(4) path_live_right [OF Split.prems(3) [unfolded Suc] 1(2) assms(2) t(1)]
        by (intro Split.IH(2) [OF 1(1) k(2)]) auto
      have add: "checked_add rank (length (tentries l)) = Some (rank + length (tentries l))" if live
        using Split.prems(3,4) [OF that] by (auto simp: path_live_def map_ready_def checked_add_def MAX_EXACT_INTEGER_def)
      show ?case
      proof (cases "cleared (key_digest sha k) d = cleared (key_digest sha (first_key l)) d")
        case False
        then have "tree_look sha k ?t rank = Ok absent" by (rule tree_look_absent [OF assms(2) t(1)])
        then show ?thesis using 1(1) checks False v t(2)
          by (simp add: hash_matches_prefix_Ok)
            (rule map_overlay.sim_check, simp, rule map_overlay.sim_check, simp, rule map_overlay.sim_Ok, simp)
      next
        case True
        have step: "map_refines sha U contents ov' (rbind (ok_or (Integrity ''map_rank_overflow'') (checked_add rank (length (tentries l))))
            (\<lambda>rank. overlay_lookup_from sha load k (key_digest sha k) m (map_ref_of sha r) (cs @ [side sha d l True]) rank ov'))
            (tree_look sha k r (rank + length (tentries l))) {} live"
          by (rule map_overlay.sim_pure [where v = "rank + length (tentries l)"]) (use add right in \<open>auto simp: checked_add_def split: if_splits\<close>)
        show ?thesis using checks left step v t(2) tree_look_Split [OF t(1), of k rank] True
          by (auto simp: hash_matches_prefix_Ok hash_bit_Ok Let_def simp del: overlay_lookup_from.simps intro!: map_overlay.sim_check)
      qed
    qed
  qed
qed

section \<open>Insertion\<close>

text \<open>Writing a new leaf and the branch that joins it to an existing trie.\<close>

lemma join_refines:
  assumes "inj_on (map_node_id sha) U" "sha_ok sha" "map_overlay_ok sha U contents ov"
    and "map_body_of sha ` {Entry k v, join_entry sha d k v t} \<subseteq> U"
    and "d < 256" "agree d (key_digest sha k) (key_digest sha (first_key t))"
    and "trie sha (Entry k v)" "trie sha (join_entry sha d k v t)" "live \<Longrightarrow> length (tentries t) < MAX_EXACT_INTEGER"
  shows "map_refines sha U contents ov
    (rbind (new_leaf sha k (key_digest sha k) v ov) (\<lambda>(inserted, ov).
     rbind (new_branch sha d (key_digest sha k) inserted (map_ref_of sha t) ov) (\<lambda>(branch, ov). Ok ((branch, True), ov))))
    (Ok (map_ref_of sha (join_entry sha d k v t), True)) {Entry k v, join_entry sha d k v t} live"
proof (rule map_overlay.sim_bind [where v = "map_ref_of sha (Entry k v)" and A = "{Entry k v}" and B = "{join_entry sha d k v t}"], goal_cases)
  case 1
  show ?case using assms(4,7) by (intro new_leaf_refines [OF assms(1,3) _ assms(2)]) auto
next
  case (2 ov')
  show ?case
    unfolding prod.case
    by (rule map_overlay.sim_map [OF new_branch_refines [OF assms(1) 2(1) _ assms(2,5,6)]])
      (use assms(4,8,9) in auto)
qed simp

text \<open>Storing a branch again over one changed child.\<close>

lemma rebuild_left:
  assumes child: "map_refines sha U contents ov m (Ok (map_ref_of sha u, b)) A live"
    and "inj_on (map_node_id sha) U" "sha_ok sha" "map_body_of sha (Split d u r) \<in> U"
    and "prefix = cleared (key_digest sha (first_key u)) d"
    and "live \<Longrightarrow> trie sha (Split d u r) \<and> length (tentries (Split d u r)) \<le> MAX_EXACT_INTEGER"
  shows "map_refines sha U contents ov
    (rbind m (\<lambda>((next_child, inserted), ov).
     rbind (store_branch sha d prefix next_child (map_ref_of sha r) ov) (\<lambda>(branch, ov). Ok ((branch, inserted), ov))))
    (Ok (map_ref_of sha (Split d u r), b)) (A \<union> {Split d u r}) live"
proof (rule map_overlay.sim_bind [OF child, where B = "{Split d u r}"], goal_cases)
  case (1 ov')
  show ?case unfolding prod.case
    by (rule map_overlay.sim_map [OF store_branch_refines [OF assms(2) 1(1) assms(4,3,5,6)]]) simp_all
qed simp

lemma rebuild_right:
  assumes child: "map_refines sha U contents ov m (Ok (map_ref_of sha u, b)) A live"
    and "inj_on (map_node_id sha) U" "sha_ok sha" "map_body_of sha (Split d l u) \<in> U"
    and "prefix = cleared (key_digest sha (first_key l)) d"
    and "live \<Longrightarrow> trie sha (Split d l u) \<and> length (tentries (Split d l u)) \<le> MAX_EXACT_INTEGER"
  shows "map_refines sha U contents ov
    (rbind m (\<lambda>((next_child, inserted), ov).
     rbind (store_branch sha d prefix (map_ref_of sha l) next_child ov) (\<lambda>(branch, ov). Ok ((branch, inserted), ov))))
    (Ok (map_ref_of sha (Split d l u), b)) (A \<union> {Split d l u}) live"
proof (rule map_overlay.sim_bind [OF child, where B = "{Split d l u}"], goal_cases)
  case (1 ov')
  show ?case unfolding prod.case
    by (rule map_overlay.sim_map [OF store_branch_refines [OF assms(2) 1(1) assms(4,3,5,6)]]) simp_all
qed simp

lemma tsubtrees_join: "tsubtrees (join_entry sha d k v t) = {Entry k v, join_entry sha d k v t} \<union> tsubtrees t"
  by (auto simp: join_entry_def)

lemma replaced:
  "map_refines sha U contents ov m (Ok (x, b)) A live \<Longrightarrow> b = c \<Longrightarrow> B \<subseteq> A \<Longrightarrow> map_refines sha U contents ov m (Ok (x, c)) B live"
  using map_overlay.sim_weaken by blast

lemma insert_node_refines:
  assumes "inj_on (map_node_id sha) U" "sha_ok sha" "validate_key k = Ok ()" "coll_validate_content_id v = Ok ()"
    and "map_overlay_ok sha U contents ov" "map_known sha U t" "uncollided sha k t"
    and "map_body_of sha ` tsubtrees (tree_put sha k v t) \<subseteq> U"
    and "live \<Longrightarrow> path_live load sha contents ov t cs fuel n" "live \<Longrightarrow> length (tentries t) < n"
  shows "map_refines sha U contents ov
    (insert_node sha load k (key_digest sha k) v fuel (map_ref_of sha t) cs ov)
    (Ok (map_ref_of sha (tree_put sha k v t), k \<notin> tkeys t)) (tsubtrees (tree_put sha k v t) - tsubtrees t) live"
  using assms(5-)
proof (induction t arbitrary: fuel cs ov)
  case (Entry k' v')
  let ?t = "map_tree.Entry k' v'"
  show ?case
  proof (cases fuel)
    case 0
    then show ?thesis using Entry(5) path_live_fuel by (fastforce simp: simulates_def)
  next
    case (Suc m)
    have load: "map_refines sha U contents ov (map_overlay_load sha load (map_ref_of sha ?t) ov) (Ok (map_node_of sha ?t)) {} live"
      using path_live_ready [OF Entry(5)] Entry(6) by (intro map_load_refines [OF assms(1) Entry(1,2) assms(2)]) force+
    have t: "trie sha ?t" using map_known_self [OF Entry(2)] by simp
    have check: "verify_constraints (key_digest sha k') cs = Ok ()" if live
      using path_live_checks(1) [OF Entry(5) [OF that] assms(2) t] by simp
    have new: "trie sha (map_tree.Entry k v)" using assms(3,4) by simp
    show ?thesis unfolding Suc insert_node.simps
    proof (rule map_overlay.sim_then [OF load], goal_cases)
      case (1 ov')
      show ?case
      proof (cases "k' = k")
        case True
        have "map_refines sha U contents ov' (rbind (new_leaf sha k (key_digest sha k) v ov') (\<lambda>(leaf, ov). Ok ((leaf, False), ov)))
            (Ok (map_ref_of sha (map_tree.Entry k v), False)) {map_tree.Entry k v} live"
          by (rule map_overlay.sim_map [OF new_leaf_refines [OF assms(1) 1(1) _ assms(2)]]) (use Entry(4) True new in auto)
        then show ?thesis using True check
          by (auto intro!: map_overlay.sim_check elim: map_overlay.sim_weaken)
      next
        case False
        let ?d = "first_fork sha ?t k"
        have ne: "key_digest sha k' \<noteq> key_digest sha k" using not_collided_digest [OF Entry(3), of k'] False by simp
        then have d: "?d < 256" "common_prefix_bits (key_digest sha k') (key_digest sha k) = Ok ?d"
          using key_digest_valid [OF assms(2)] by (auto simp: first_fork_def fork_depth_less common_prefix_bits_Ok)
        have put: "tree_put sha k v ?t = join_entry sha ?d k v ?t" using False by simp
        have j: "trie sha (join_entry sha ?d k v ?t)"
          using tree_put_trie [OF t assms(3,4) Entry(3) assms(2)] unfolding put .
        have "map_refines sha U contents ov' (rbind (new_leaf sha k (key_digest sha k) v ov') (\<lambda>(inserted, ov).
           rbind (new_branch sha ?d (key_digest sha k) inserted (map_ref_of sha ?t) ov) (\<lambda>(branch, ov). Ok ((branch, True), ov))))
           (Ok (map_ref_of sha (join_entry sha ?d k v ?t), True)) {map_tree.Entry k v, join_entry sha ?d k v ?t} live"
        proof (rule join_refines [OF assms(1,2) 1(1) _ d(1) _ new j])
          show "map_body_of sha ` {map_tree.Entry k v, join_entry sha ?d k v ?t} \<subseteq> U"
            using Entry(4) unfolding put tsubtrees_join by blast
          show "agree ?d (key_digest sha k) (key_digest sha (first_key ?t))"
            unfolding first_fork_def by (rule agree_sym [OF fork_depth_agree])
        qed (use Entry(5,6) in \<open>auto simp: path_live_def map_ready_def MAX_EXACT_INTEGER_def\<close>)
        from map_overlay.sim_weaken [OF this, of "tsubtrees (tree_put sha k v ?t) - tsubtrees ?t"] False ne d(2) check
        show ?thesis unfolding put tsubtrees_join by (auto intro!: map_overlay.sim_check)
      qed
    qed
  qed
next
  case (Split d l r)
  let ?t = "map_tree.Split d l r"
  show ?case
  proof (cases fuel)
    case 0
    then show ?thesis using Split.prems(5) path_live_fuel by (fastforce simp: simulates_def)
  next
    case (Suc m)
    have t: "trie sha ?t" "d < 256" using map_known_self [OF Split.prems(2)] by auto
    have load: "map_refines sha U contents ov (map_overlay_load sha load (map_ref_of sha ?t) ov) (Ok (map_node_of sha ?t)) {} live"
      using path_live_ready [OF Split.prems(5)] Split.prems(6)
      by (intro map_load_refines [OF assms(1) Split.prems(1,2) assms(2)]) force+
    have checks: "verify_constraints (cleared (key_digest sha (first_key l)) d) cs = Ok ()" "depth_increases cs d = Ok ()" if live
      using path_live_checks(2,3) [OF Split.prems(5) [OF that] assms(2) t(1)] by simp_all
    note v = key_digest_valid [OF assms(2)]
    let ?c = "fork_depth (cleared (key_digest sha (first_key l)) d) (key_digest sha k)"
    have c: "common_prefix_bits (cleared (key_digest sha (first_key l)) d) (key_digest sha k) = Ok ?c"
      by (rule common_prefix_bits_Ok [OF valid_cleared [OF v t(2)] v])
    have fork: "?c < d \<longleftrightarrow> first_fork sha l k < d" "first_fork sha l k < d \<Longrightarrow> ?c = first_fork sha l k"
      using fork_depth_cleared [OF v t(2)] by (simp_all add: first_fork_def)
    note put_trie = tree_put_trie [OF t(1) assms(3,4) Split.prems(3) assms(2)]
    have size: "length (tentries (tree_put sha k v ?t)) \<le> MAX_EXACT_INTEGER" if live
      using tree_put_length [OF t(1), of k v] Split.prems(5,6) [OF that] by (auto simp: path_live_def map_ready_def)
    show ?thesis unfolding Suc insert_node.simps
    proof (rule map_overlay.sim_then [OF load], goal_cases)
      case (1 ov')
      show ?case
      proof (cases "first_fork sha l k < d")
        case True
        let ?d = "first_fork sha ?t k"
        have f: "?d = first_fork sha l k" by (simp add: first_fork_def)
        have put: "tree_put sha k v ?t = join_entry sha ?d k v ?t" using True f by simp
        have "map_refines sha U contents ov' (rbind (new_leaf sha k (key_digest sha k) v ov') (\<lambda>(inserted, ov).
           rbind (new_branch sha ?d (key_digest sha k) inserted (map_ref_of sha ?t) ov) (\<lambda>(branch, ov). Ok ((branch, True), ov))))
           (Ok (map_ref_of sha (join_entry sha ?d k v ?t), True)) {map_tree.Entry k v, join_entry sha ?d k v ?t} live"
        proof (rule join_refines [OF assms(1,2) 1(1) _ _ _ _ put_trie [unfolded put]])
          show "map_body_of sha ` {map_tree.Entry k v, join_entry sha ?d k v ?t} \<subseteq> U"
            using Split.prems(4) unfolding put tsubtrees_join by blast
          show "agree ?d (key_digest sha k) (key_digest sha (first_key ?t))"
            unfolding first_fork_def by (rule agree_sym [OF fork_depth_agree])
          show "?d < 256" using True f t(2) by simp
          show "trie sha (map_tree.Entry k v)" using assms(3,4) by simp
          show "length (tentries ?t) < MAX_EXACT_INTEGER" if live
            using Split.prems(5,6) [OF that] by (auto simp: path_live_def map_ready_def)
        qed
        from map_overlay.sim_weaken [OF this, of "tsubtrees (tree_put sha k v ?t) - tsubtrees ?t"]
          True f fork fork_absent [OF t(1) True] c checks
        show ?thesis unfolding put tsubtrees_join by (auto intro!: map_overlay.sim_check)
      next
        case False
        note agree = no_fork_agree [OF t(2) False]
        have k: "map_known sha U l" "map_known sha U r" using map_known_Split [OF Split.prems(2)] by simp_all
        have un: "uncollided sha k l" "uncollided sha k r" using Split.prems(3) by (auto simp: uncollided_def)
        show ?thesis
        proof (cases "hbit (key_digest sha k) d")
          case True
          let ?u = "tree_put sha k v r"
          have put: "tree_put sha k v ?t = map_tree.Split d l ?u" using True False by simp
          have "map_refines sha U contents ov' (insert_node sha load k (key_digest sha k) v m (map_ref_of sha r)
              (cs @ [side sha d l True]) ov') (Ok (map_ref_of sha ?u, k \<notin> tkeys r)) (tsubtrees ?u - tsubtrees r) live"
            using Split.prems(4,6) path_live_right [OF Split.prems(5) [unfolded Suc] 1(2) assms(2) t(1)]
            unfolding put by (intro Split.IH(2) [OF 1(1) k(2) un(2)]) auto
          from rebuild_right [OF this assms(1,2) _ refl] Split.prems(4) put_trie size
          have "map_refines sha U contents ov' (rbind (insert_node sha load k (key_digest sha k) v m (map_ref_of sha r)
              (cs @ [side sha d l True]) ov') (\<lambda>((next_child, inserted), ov).
              rbind (store_branch sha d (cleared (key_digest sha (first_key l)) d) (map_ref_of sha l) next_child ov)
                (\<lambda>(branch, ov). Ok ((branch, inserted), ov))))
             (Ok (map_ref_of sha (map_tree.Split d l ?u), k \<notin> tkeys r)) (tsubtrees ?u - tsubtrees r \<union> {map_tree.Split d l ?u}) live"
            unfolding put by auto
          then have "map_refines sha U contents ov' (rbind (insert_node sha load k (key_digest sha k) v m (map_ref_of sha r)
              (cs @ [side sha d l True]) ov') (\<lambda>((next_child, inserted), ov).
              rbind (store_branch sha d (cleared (key_digest sha (first_key l)) d) (map_ref_of sha l) next_child ov)
                (\<lambda>(branch, ov). Ok ((branch, inserted), ov))))
             (Ok (map_ref_of sha (tree_put sha k v ?t), k \<notin> tkeys ?t)) (tsubtrees (tree_put sha k v ?t) - tsubtrees ?t) live"
            unfolding put by (rule replaced) (use t(1) True in auto)
          then show ?thesis using True False fork c checks v t(2)
            by (auto simp: hash_bit_Ok Let_def simp del: insert_node.simps tree_put.simps tkeys.simps tsubtrees.simps intro!: map_overlay.sim_check)
        next
          case bit: False
          let ?u = "tree_put sha k v l"
          have put: "tree_put sha k v ?t = map_tree.Split d ?u r" using bit False by simp
          have p: "cleared (key_digest sha (first_key l)) d = cleared (key_digest sha (first_key ?u)) d"
            using put_trie [unfolded put] agree trie_agree_first [OF t(1)] t(2) cleared_eq_iff [OF v v] tkeys_tree_put [of sha k v l] first_key_in [of ?u]
            by (metis UnI1 agree_sym insertE tkeys.simps(2))
          have "map_refines sha U contents ov' (insert_node sha load k (key_digest sha k) v m (map_ref_of sha l)
              (cs @ [side sha d l False]) ov') (Ok (map_ref_of sha ?u, k \<notin> tkeys l)) (tsubtrees ?u - tsubtrees l) live"
            using Split.prems(4,6) path_live_left [OF Split.prems(5) [unfolded Suc] 1(2) assms(2) t(1)]
            unfolding put by (intro Split.IH(1) [OF 1(1) k(1) un(1)]) auto
          from rebuild_left [OF this assms(1,2) _ p] Split.prems(4) put_trie size
          have "map_refines sha U contents ov' (rbind (insert_node sha load k (key_digest sha k) v m (map_ref_of sha l)
              (cs @ [side sha d l False]) ov') (\<lambda>((next_child, inserted), ov).
              rbind (store_branch sha d (cleared (key_digest sha (first_key l)) d) next_child (map_ref_of sha r) ov)
                (\<lambda>(branch, ov). Ok ((branch, inserted), ov))))
             (Ok (map_ref_of sha (map_tree.Split d ?u r), k \<notin> tkeys l)) (tsubtrees ?u - tsubtrees l \<union> {map_tree.Split d ?u r}) live"
            unfolding put by auto
          then have "map_refines sha U contents ov' (rbind (insert_node sha load k (key_digest sha k) v m (map_ref_of sha l)
              (cs @ [side sha d l False]) ov') (\<lambda>((next_child, inserted), ov).
              rbind (store_branch sha d (cleared (key_digest sha (first_key l)) d) next_child (map_ref_of sha r) ov)
                (\<lambda>(branch, ov). Ok ((branch, inserted), ov))))
             (Ok (map_ref_of sha (tree_put sha k v ?t), k \<notin> tkeys ?t)) (tsubtrees (tree_put sha k v ?t) - tsubtrees ?t) live"
            unfolding put by (rule replaced) (use t(1) bit in auto)
          then show ?thesis using bit False fork c checks v t(2)
            by (auto simp: hash_bit_Ok Let_def simp del: insert_node.simps tree_put.simps tkeys.simps tsubtrees.simps intro!: map_overlay.sim_check)
        qed
      qed
    qed
  qed
qed

end

end
