(* ===== verification/Map_Refine_Batch.thy ===== *)
theory Map_Refine_Batch
  imports Map_Refine_Ops
begin

text \<open>
  Removal along one path, the operations on roots, and a whole mutation batch through the overlay,
  refine their counterparts on tries.
\<close>

definition opt_map_known :: "(string \<Rightarrow> string) \<Rightarrow> map_node_body set \<Rightarrow> map_tree option \<Rightarrow> bool" where
  "opt_map_known sha U t \<longleftrightarrow> pred_option (map_known sha U) t"

lemma opt_map_known_iff: "opt_map_known sha U t \<longleftrightarrow> opt_trie sha t \<and> map_body_of sha ` opt_tsubtrees t \<subseteq> U"
  by (cases t) (auto simp: opt_map_known_def map_known_def)

definition edit_made :: "collection_error + map_tree option \<Rightarrow> map_tree option \<Rightarrow> map_tree set" where
  "edit_made res t = (case res of Inl _ \<Rightarrow> {} | Inr u \<Rightarrow> opt_tsubtrees u - opt_tsubtrees t)"

lemma edit_made_simps [simp]: "edit_made (Err e) t = {}" "edit_made (Ok u) t = opt_tsubtrees u - opt_tsubtrees t"
  by (simp_all add: edit_made_def)

context map_resolver
begin

section \<open>Removal\<close>

text \<open>Storing a branch again over a child that lost a key, or keeping the other child alone.\<close>

lemma shrink_left:
  assumes child: "map_refines sha U contents ov m (Ok (map_option (map_ref_of sha) w)) A live"
    and "inj_on (map_node_id sha) U" "sha_ok sha"
    and "\<And>u. w = Some u \<Longrightarrow> map_body_of sha (Split d u r) \<in> U \<and> prefix = cleared (key_digest sha (first_key u)) d"
    and "\<And>u. live \<Longrightarrow> w = Some u \<Longrightarrow> trie sha (Split d u r) \<and> length (tentries (Split d u r)) \<le> MAX_EXACT_INTEGER"
  shows "map_refines sha U contents ov
    (rbind m (\<lambda>(next_child, ov). case next_child of
        None \<Rightarrow> Ok (Some (map_ref_of sha r), ov)
      | Some child \<Rightarrow> rbind (store_branch sha d prefix child (map_ref_of sha r) ov) (\<lambda>(branch, ov). Ok (Some branch, ov))))
    (Ok (Some (map_ref_of sha (case w of None \<Rightarrow> r | Some u \<Rightarrow> Split d u r))))
    (A \<union> (case w of None \<Rightarrow> {} | Some u \<Rightarrow> {Split d u r})) live"
proof (rule map_overlay.sim_bind [OF child, where B = "case w of None \<Rightarrow> {} | Some u \<Rightarrow> {Split d u r}"], goal_cases)
  case (1 ov')
  show ?case
  proof (cases w)
    case None
    then show ?thesis using map_overlay.sim_Ok [OF 1(1)] by simp
  next
    case (Some u)
    have "map_refines sha U contents ov' (rbind (store_branch sha d prefix (map_ref_of sha u) (map_ref_of sha r) ov')
        (\<lambda>(branch, ov). Ok (Some branch, ov))) (Ok (Some (map_ref_of sha (Split d u r)))) {Split d u r} live"
      by (rule map_overlay.sim_map [OF store_branch_refines [OF assms(2) 1(1) _ assms(3)]]) (use assms(4,5) Some in auto)
    then show ?thesis using Some by simp
  qed
qed simp

lemma shrink_right:
  assumes child: "map_refines sha U contents ov m (Ok (map_option (map_ref_of sha) w)) A live"
    and "inj_on (map_node_id sha) U" "sha_ok sha" "prefix = cleared (key_digest sha (first_key l)) d"
    and "\<And>u. w = Some u \<Longrightarrow> map_body_of sha (Split d l u) \<in> U"
    and "\<And>u. live \<Longrightarrow> w = Some u \<Longrightarrow> trie sha (Split d l u) \<and> length (tentries (Split d l u)) \<le> MAX_EXACT_INTEGER"
  shows "map_refines sha U contents ov
    (rbind m (\<lambda>(next_child, ov). case next_child of
        None \<Rightarrow> Ok (Some (map_ref_of sha l), ov)
      | Some child \<Rightarrow> rbind (store_branch sha d prefix (map_ref_of sha l) child ov) (\<lambda>(branch, ov). Ok (Some branch, ov))))
    (Ok (Some (map_ref_of sha (case w of None \<Rightarrow> l | Some u \<Rightarrow> Split d l u))))
    (A \<union> (case w of None \<Rightarrow> {} | Some u \<Rightarrow> {Split d l u})) live"
proof (rule map_overlay.sim_bind [OF child, where B = "case w of None \<Rightarrow> {} | Some u \<Rightarrow> {Split d l u}"], goal_cases)
  case (1 ov')
  show ?case
  proof (cases w)
    case None
    then show ?thesis using map_overlay.sim_Ok [OF 1(1)] by simp
  next
    case (Some u)
    have "map_refines sha U contents ov' (rbind (store_branch sha d prefix (map_ref_of sha l) (map_ref_of sha u) ov')
        (\<lambda>(branch, ov). Ok (Some branch, ov))) (Ok (Some (map_ref_of sha (Split d l u)))) {Split d l u} live"
      by (rule map_overlay.sim_map [OF store_branch_refines [OF assms(2) 1(1) _ assms(3,4)]]) (use assms(5,6) Some in auto)
    then show ?thesis using Some by simp
  qed
qed simp

lemma tree_remove_length:
  "trie sha t \<Longrightarrow> k \<in> tkeys t \<Longrightarrow> length (opt_entries (tree_remove sha k t)) \<le> length (tentries t)"
  by (simp add: tree_remove_entries)

lemma remove_node_refines:
  assumes "inj_on (map_node_id sha) U" "sha_ok sha"
    and "map_overlay_ok sha U contents ov" "map_known sha U t" "k \<in> tkeys t"
    and "map_body_of sha ` opt_tsubtrees (tree_remove sha k t) \<subseteq> U"
    and "live \<Longrightarrow> path_live load sha contents ov t cs fuel n" "live \<Longrightarrow> length (tentries t) \<le> n"
  shows "map_refines sha U contents ov
    (remove_node sha load k (key_digest sha k) fuel (map_ref_of sha t) cs ov)
    (Ok (map_option (map_ref_of sha) (tree_remove sha k t))) (opt_tsubtrees (tree_remove sha k t) - tsubtrees t) live"
  using assms(3-)
proof (induction t arbitrary: fuel cs ov)
  case (Entry k' v')
  let ?t = "map_tree.Entry k' v'"
  show ?case
  proof (cases fuel)
    case 0
    then show ?thesis using Entry(5) path_live_fuel by (fastforce simp: simulates_def)
  next
    case (Suc m)
    have load: "map_refines sha U contents ov (map_overlay_load sha load (map_ref_of sha ?t) ov) (Ok (map_node_of sha ?t)) {} live"
      using path_live_ready [OF Entry(5)] Entry(6) by (intro map_load_refines [OF assms(1) Entry(1,2) assms(2)]) force+
    have check: "verify_constraints (key_digest sha k') cs = Ok ()" if live
      using path_live_checks(1) [OF Entry(5) [OF that] assms(2)] map_known_self [OF Entry(2)] by simp
    show ?thesis unfolding Suc remove_node.simps
      by (rule map_overlay.sim_then [OF load])
        (use Entry(3) check map_overlay.sim_Ok in \<open>auto intro!: map_overlay.sim_check\<close>)
  qed
next
  case (Split d l r)
  let ?t = "map_tree.Split d l r"
  show ?case
  proof (cases fuel)
    case 0
    then show ?thesis using Split.prems(5) path_live_fuel by (fastforce simp: simulates_def)
  next
    case (Suc m)
    have t: "trie sha ?t" "trie sha l" "trie sha r" "d < 256" using map_known_self [OF Split.prems(2)] by auto
    have load: "map_refines sha U contents ov (map_overlay_load sha load (map_ref_of sha ?t) ov) (Ok (map_node_of sha ?t)) {} live"
      using path_live_ready [OF Split.prems(5)] Split.prems(6)
      by (intro map_load_refines [OF assms(1) Split.prems(1,2) assms(2)]) force+
    have checks: "verify_constraints (cleared (key_digest sha (first_key l)) d) cs = Ok ()" "depth_increases cs d = Ok ()" if live
      using path_live_checks(2,3) [OF Split.prems(5) [OF that] assms(2) t(1)] by simp_all
    note v = key_digest_valid [OF assms(2)]
    have matches: "cleared (key_digest sha k) d = cleared (key_digest sha (first_key l)) d"
      using trie_agree_first [OF t(1) Split.prems(3)] cleared_eq_iff [OF v v t(4)] by simp
    have k: "map_known sha U l" "map_known sha U r" using map_known_Split [OF Split.prems(2)] by simp_all
    have size: "length (tentries ?t) \<le> MAX_EXACT_INTEGER" if live
      using Split.prems(5,6) [OF that] by (auto simp: path_live_def map_ready_def)
    show ?thesis unfolding Suc remove_node.simps
    proof (rule map_overlay.sim_then [OF load], goal_cases)
      case (1 ov')
      show ?case
      proof (cases "hbit (key_digest sha k) d")
        case True
        then have kr: "k \<in> tkeys r" using Split.prems(3) t(1) by auto
        let ?w = "tree_remove sha k r"
        have res: "tree_remove sha k ?t = Some (case ?w of None \<Rightarrow> l | Some u \<Rightarrow> map_tree.Split d l u)"
          using True by (simp split: option.split)
        have sub: "map_body_of sha ` opt_tsubtrees ?w \<subseteq> U" "\<And>u. ?w = Some u \<Longrightarrow> map_body_of sha (map_tree.Split d l u) \<in> U"
          using Split.prems(4) unfolding res by (auto split: option.splits)
        have "map_refines sha U contents ov' (remove_node sha load k (key_digest sha k) m (map_ref_of sha r)
            (cs @ [side sha d l True]) ov') (Ok (map_option (map_ref_of sha) ?w)) (opt_tsubtrees ?w - tsubtrees r) live"
          using sub(1) Split.prems(6) path_live_right [OF Split.prems(5) [unfolded Suc] 1(2) assms(2) t(1)]
          by (intro Split.IH(2) [OF 1(1) k(2) kr]) auto
        note step = shrink_right [OF this assms(1,2) refl sub(2)]
        have "trie sha (map_tree.Split d l u) \<and> length (tentries (map_tree.Split d l u)) \<le> MAX_EXACT_INTEGER" if live "?w = Some u" for u
          using tree_remove_trie [OF t(1) Split.prems(3)] tree_remove_length [OF t(3) kr] size [OF that(1)] that(2) res by auto
        from step [OF _ this]
        have "map_refines sha U contents ov' (rbind (remove_node sha load k (key_digest sha k) m (map_ref_of sha r)
            (cs @ [side sha d l True]) ov') (\<lambda>(next_child, ov). case next_child of
              None \<Rightarrow> Ok (Some (map_ref_of sha l), ov)
            | Some child \<Rightarrow> rbind (store_branch sha d (cleared (key_digest sha (first_key l)) d) (map_ref_of sha l) child ov) (\<lambda>(branch, ov). Ok (Some branch, ov))))
            (Ok (map_option (map_ref_of sha) (tree_remove sha k ?t))) (opt_tsubtrees (tree_remove sha k ?t) - tsubtrees ?t) live"
          unfolding res option.map by (rule map_overlay.sim_weaken) (auto split: option.splits)
        then show ?thesis using checks matches v t(4) True
          by (auto simp: hash_matches_prefix_Ok hash_bit_Ok Let_def simp del: remove_node.simps tree_remove.simps tsubtrees.simps
              cong: option.case_cong intro!: map_overlay.sim_check)
      next
        case False
        then have kl: "k \<in> tkeys l" using Split.prems(3) t(1) by auto
        let ?w = "tree_remove sha k l"
        have res: "tree_remove sha k ?t = Some (case ?w of None \<Rightarrow> r | Some u \<Rightarrow> map_tree.Split d u r)"
          using False by (simp split: option.split)
        have sub: "map_body_of sha ` opt_tsubtrees ?w \<subseteq> U" using Split.prems(4) unfolding res by (auto split: option.splits)
        have "map_body_of sha (map_tree.Split d u r) \<in> U \<and> cleared (key_digest sha (first_key l)) d = cleared (key_digest sha (first_key u)) d"
          if "?w = Some u" for u
        proof -
          have "first_key u \<in> tkeys ?t" using tree_remove_keys [OF t(2) kl] that first_key_in [of u] by auto
          then have "agree d (key_digest sha (first_key l)) (key_digest sha (first_key u))"
            using trie_agree_first [OF t(1)] agree_sym by blast
          then show ?thesis using Split.prems(4) that cleared_eq_iff [OF v v t(4)] unfolding res by auto
        qed
        note sub2 = this
        have "map_refines sha U contents ov' (remove_node sha load k (key_digest sha k) m (map_ref_of sha l)
            (cs @ [side sha d l False]) ov') (Ok (map_option (map_ref_of sha) ?w)) (opt_tsubtrees ?w - tsubtrees l) live"
          using sub Split.prems(6) path_live_left [OF Split.prems(5) [unfolded Suc] 1(2) assms(2) t(1)]
          by (intro Split.IH(1) [OF 1(1) k(1) kl]) auto
        note step = shrink_left [OF this assms(1,2) sub2]
        have "trie sha (map_tree.Split d u r) \<and> length (tentries (map_tree.Split d u r)) \<le> MAX_EXACT_INTEGER" if live "?w = Some u" for u
          using tree_remove_trie [OF t(1) Split.prems(3)] tree_remove_length [OF t(2) kl] size [OF that(1)] that(2) res by auto
        from step [OF _ this]
        have "map_refines sha U contents ov' (rbind (remove_node sha load k (key_digest sha k) m (map_ref_of sha l)
            (cs @ [side sha d l False]) ov') (\<lambda>(next_child, ov). case next_child of
              None \<Rightarrow> Ok (Some (map_ref_of sha r), ov)
            | Some child \<Rightarrow> rbind (store_branch sha d (cleared (key_digest sha (first_key l)) d) child (map_ref_of sha r) ov) (\<lambda>(branch, ov). Ok (Some branch, ov))))
            (Ok (map_option (map_ref_of sha) (tree_remove sha k ?t))) (opt_tsubtrees (tree_remove sha k ?t) - tsubtrees ?t) live"
          unfolding res option.map by (rule map_overlay.sim_weaken) (auto split: option.splits)
        then show ?thesis using checks matches v t(4) False
          by (auto simp: hash_matches_prefix_Ok hash_bit_Ok Let_def simp del: remove_node.simps tree_remove.simps tsubtrees.simps
              cong: option.case_cong intro!: map_overlay.sim_check)
      qed
    qed
  qed
qed

section \<open>Roots\<close>

lemma root_path_live:
  "map_ready load sha contents ov (tsubtrees t) n \<Longrightarrow> trie sha t \<Longrightarrow> path_live load sha contents ov t [] MAX_MAP_PATH_NODES n"
  by (simp add: path_live_def trie_path_bound)

lemma overlay_lookup_refines:
  assumes "inj_on (map_node_id sha) U" "sha_ok sha" "map_overlay_ok sha U contents ov" "opt_map_known sha U t"
    and "live \<Longrightarrow> map_ready load sha contents ov (opt_tsubtrees t) n" "live \<Longrightarrow> length (opt_entries t) \<le> n"
  shows "map_refines sha U contents ov (overlay_lookup sha load (map_root_of sha t) k (key_digest sha k) ov) (opt_look sha k t) {} live"
proof (cases t)
  case None
  then show ?thesis using map_overlay.sim_Ok [OF assms(3)] by (simp add: overlay_lookup_def opt_look_def root_reference_def map_root_empty_def)
next
  case (Some u)
  then show ?thesis using assms(4-6) root_path_live map_known_self
    by (auto simp: overlay_lookup_def opt_look_def opt_map_known_def simp del: overlay_lookup_from.simps
        intro!: overlay_lookup_from_refines [OF assms(1-3), where n = n])
qed

lemma opt_put_length:
  "opt_trie sha t \<Longrightarrow> length (tentries (opt_put sha k v t)) = length (opt_entries t) + (if k \<in> opt_tkeys t then 0 else 1)"
  by (cases t) (simp_all add: opt_put_def tree_put_length dom_tmap)

lemma overlay_put_refines:
  assumes "inj_on (map_node_id sha) U" "sha_ok sha" "validate_key k = Ok ()" "coll_validate_content_id v = Ok ()"
    and "map_overlay_ok sha U contents ov" "opt_map_known sha U t" "opt_uncollided sha k t"
    and "map_body_of sha ` tsubtrees (opt_put sha k v t) \<subseteq> U"
    and "live \<Longrightarrow> map_ready load sha contents ov (opt_tsubtrees t) n" "live \<Longrightarrow> length (opt_entries t) < n"
  shows "map_refines sha U contents ov (overlay_put sha load (map_root_of sha t) k (key_digest sha k) v ov)
    (Ok (map_root_of sha (Some (opt_put sha k v t)))) (tsubtrees (opt_put sha k v t) - opt_tsubtrees t) live"
proof -
  have "map_refines sha U contents ov (case map_option (map_ref_of sha) t of
      None \<Rightarrow> rbind (new_leaf sha k (key_digest sha k) v ov) (\<lambda>(leaf, ov). Ok ((leaf, True), ov))
    | Some reference \<Rightarrow> insert_node sha load k (key_digest sha k) v MAX_MAP_PATH_NODES reference [] ov)
    (Ok (map_ref_of sha (opt_put sha k v t), k \<notin> opt_tkeys t)) (tsubtrees (opt_put sha k v t) - opt_tsubtrees t) live"
  proof (cases t)
    case None
    have "map_refines sha U contents ov (rbind (new_leaf sha k (key_digest sha k) v ov) (\<lambda>(leaf, ov). Ok ((leaf, True), ov)))
        (Ok (map_ref_of sha (Entry k v), True)) {Entry k v} live"
      by (rule map_overlay.sim_map [OF new_leaf_refines [OF assms(1,5) _ assms(2)]])
        (use assms(3,4,8) None in \<open>auto simp: opt_put_def\<close>)
    then show ?thesis using None by (simp add: opt_put_def)
  next
    case (Some u)
    then show ?thesis using assms(6-10) root_path_live map_known_self
      by (auto simp: opt_map_known_def opt_put_def opt_uncollided_def dom_tmap simp del: insert_node.simps
          intro!: insert_node_refines [OF assms(1-5), where n = n])
  qed
  note put = this
  have len: "length (tentries (opt_put sha k v t)) = length (opt_entries t) + (if k \<in> opt_tkeys t then 0 else 1)"
    by (rule opt_put_length) (use assms(6) in \<open>simp add: opt_map_known_iff\<close>)
  have small: "length (opt_entries t) < MAX_EXACT_INTEGER" if live using assms(9,10) [OF that] by (simp add: map_ready_def)
  show ?thesis
    unfolding overlay_put_def root_reference_of
  proof (rule map_overlay.sim_bind [OF put, where B = "{}"], goal_cases)
    case (1 ov')
    show ?case unfolding prod.case
      by (rule map_overlay.sim_pure [where v = "length (tentries (opt_put sha k v t))"])
        (use len small 1(1) map_overlay.sim_Ok [OF 1(1), where live = live] in
          \<open>auto simp: checked_add_def MAX_EXACT_INTEGER_def map_root_of_def simulates_def map_created_def split: if_splits\<close>)
  qed simp
qed

lemma overlay_remove_refines:
  assumes "inj_on (map_node_id sha) U" "sha_ok sha"
    and "map_overlay_ok sha U contents ov" "opt_map_known sha U t" "k \<in> opt_tkeys t"
    and "map_body_of sha ` opt_tsubtrees (Option.bind t (tree_remove sha k)) \<subseteq> U"
    and "live \<Longrightarrow> map_ready load sha contents ov (opt_tsubtrees t) n" "live \<Longrightarrow> length (opt_entries t) \<le> n"
  shows "map_refines sha U contents ov (overlay_remove sha load (map_root_of sha t) k (key_digest sha k) ov)
    (Ok (map_root_of sha (Option.bind t (tree_remove sha k)))) (opt_tsubtrees (Option.bind t (tree_remove sha k)) - opt_tsubtrees t) live"
proof -
  obtain u where u: "t = Some u" using assms(5) by (cases t) auto
  have t: "map_known sha U u" "trie sha u" "k \<in> tkeys u"
    using assms(4,5) u map_known_self by (auto simp: opt_map_known_def dom_tmap)
  let ?w = "tree_remove sha k u"
  have rm: "map_refines sha U contents ov (remove_node sha load k (key_digest sha k) MAX_MAP_PATH_NODES (map_ref_of sha u) [] ov)
      (Ok (map_option (map_ref_of sha) ?w)) (opt_tsubtrees ?w - tsubtrees u) live"
    using assms(6-8) u root_path_live [OF _ t(2)] by (intro remove_node_refines [OF assms(1-3) t(1,3)]) auto
  have len: "Suc (length (opt_entries ?w)) = length (tentries u)"
    unfolding tree_remove_entries [OF t(2,3)]
    by (rule length_filter_key [OF trie_distinct [OF t(2) assms(2)]]) (use t(3) tkeys_entries in simp)
  have sub: "checked_sub (length (tentries u)) 1 = Some (length (opt_entries ?w))"
    using len by (simp add: checked_sub_def)
  have cnt: "(case map_option (map_ref_of sha) ?w of None \<Rightarrow> 0 | Some node \<Rightarrow> mr_entries node) = length (opt_entries ?w)"
    by (cases ?w) simp_all
  have root: "\<lparr>mt_node = map_option mr_object_id (map_option (map_ref_of sha) ?w), mt_entries = length (opt_entries ?w)\<rparr> = map_root_of sha ?w"
    by (cases ?w) (simp_all add: map_root_of_def)
  show ?thesis
    unfolding overlay_remove_def root_reference_of u option.map ok_or_simps rbind_Ok Option.bind.simps
  proof (rule map_overlay.sim_bind [OF rm, where B = "{}"], goal_cases)
    case (1 ov')
    show ?case using map_overlay.sim_Ok [OF 1(1)]
      by (simp only: prod.case map_root_of_simps option.case sub ok_or_simps rbind_Ok cnt root simp_thms if_False)
  qed simp
qed

section \<open>Mutation batches\<close>

lemma trie_edit_length:
  assumes "opt_trie sha t" "trie_edit sha x t = Ok u"
  shows "length (opt_entries u) \<le> Suc (length (opt_entries t))"
proof (cases x)
  case (Put k e v)
  then have "u = Some (opt_put sha k v t)" using assms(2) by (auto split: if_splits)
  then show ?thesis using opt_put_length [OF assms(1), of k v] by simp
next
  case (Remove k e)
  then have u: "u = Option.bind t (tree_remove sha k)" "opt_map t k = Some e"
    using assms(2) by (auto simp: opt_look_eq split: if_splits)
  then obtain w where "t = Some w" "k \<in> tkeys w" using tmap_present by (cases t) auto
  then show ?thesis using u tree_remove_length [of sha w k] assms(1) by simp
qed

lemma apply_map_mutation_refines:
  assumes "inj_on (map_node_id sha) U" "sha_ok sha" "map_mutation_verify x = Ok ()"
    and "map_overlay_ok sha U contents ov" "opt_map_known sha U t"
    and "\<And>u. trie_edit sha x t = Ok u \<Longrightarrow> map_body_of sha ` opt_tsubtrees u \<subseteq> U"
    and "live \<Longrightarrow> map_ready load sha contents ov (opt_tsubtrees t) n" "live \<Longrightarrow> length (opt_entries t) < n"
  shows "map_refines sha U contents ov (apply_map_mutation sha load x (map_root_of sha t, ov))
    (rbind (trie_edit sha x t) (\<lambda>u. Ok (map_root_of sha u))) (edit_made (trie_edit sha x t) t) live"
proof -
  define k where "k = mutation_key x"
  have key: "map_key_hash sha k = Ok (key_digest sha k)" "validate_key k = Ok ()"
    using assms(3) by (auto simp: map_mutation_verify_def map_key_hash_eq k_def)
  have look: "map_refines sha U contents ov (overlay_lookup sha load (map_root_of sha t) k (key_digest sha k) ov) (opt_look sha k t) {} live"
    using assms(7,8) by (intro overlay_lookup_refines [OF assms(1,2,4,5), where n = n]) auto
  have ready: "live \<Longrightarrow> map_ready load sha contents ov' (opt_tsubtrees t) n" if "map_overlay_le contents ov ov'" for ov'
    using map_ready_le [OF assms(7) that] .
  show ?thesis
  proof (cases "opt_look sha k t")
    case (Inl e)
    have "trie_edit sha x t = Err e" using Inl k_def by (cases x) simp_all
    then show ?thesis using map_overlay.sim_error [OF look [unfolded Inl]] key by (cases x) (simp_all add: k_def)
  next
    case (Inr found)
    have un: "opt_uncollided sha k t" "lo_value found = opt_map t k" using Inr by (auto simp: opt_look_eq split: if_splits)
    note look = look [unfolded Inr]
    show ?thesis
    proof (cases x)
      case (Put k' e v)
      have k': "k' = k" and v: "coll_validate_content_id v = Ok ()" using Put assms(3) by (auto simp: k_def map_mutation_verify_def)
      show ?thesis unfolding Put k' apply_map_mutation.simps key(1) rbind_Ok
      proof (rule map_overlay.sim_then [OF look], goal_cases)
        case (1 ov')
        show ?case
        proof (cases "expectation_met e (lo_value found)")
          case True
          have ed: "trie_edit sha (Put k e v) t = Ok (Some (opt_put sha k v t))" using True Inr by simp
          have "map_refines sha U contents ov' (overlay_put sha load (map_root_of sha t) k (key_digest sha k) v ov')
              (Ok (map_root_of sha (Some (opt_put sha k v t)))) (tsubtrees (opt_put sha k v t) - opt_tsubtrees t) live"
            using assms(6) [of "Some (opt_put sha k v t)"] ed Put k' assms(8) ready [OF 1(2)]
            by (intro overlay_put_refines [OF assms(1,2) key(2) v 1(1) assms(5) un(1)]) auto
          then show ?thesis unfolding prod.case ed using True by simp
        next
          case False
          then show ?thesis using Inr map_overlay.sim_Err by (simp add: prod.case)
        qed
      qed
    next
      case (Remove k' e)
      have k': "k' = k" using Remove by (simp add: k_def)
      show ?thesis unfolding Remove k' apply_map_mutation.simps key(1) rbind_Ok
      proof (rule map_overlay.sim_then [OF look], goal_cases)
        case (1 ov')
        show ?case
        proof (cases "lo_value found = Some e")
          case True
          have ed: "trie_edit sha (Remove k e) t = Ok (Option.bind t (tree_remove sha k))" using True Inr by simp
          have "map_refines sha U contents ov' (overlay_remove sha load (map_root_of sha t) k (key_digest sha k) ov')
              (Ok (map_root_of sha (Option.bind t (tree_remove sha k))))
              (opt_tsubtrees (Option.bind t (tree_remove sha k)) - opt_tsubtrees t) live"
            using assms(6) [of "Option.bind t (tree_remove sha k)"] ed Remove k' assms(8) ready [OF 1(2)] True un(2)
            by (intro overlay_remove_refines [OF assms(1,2) 1(1) assms(5)]) auto
          then show ?thesis unfolding prod.case ed using True by simp
        next
          case False
          then show ?thesis using Inr map_overlay.sim_Err by (simp add: prod.case)
        qed
      qed
    qed
  qed
qed

lemma apply_map_mutations_refines:
  assumes "inj_on (map_node_id sha) U" "sha_ok sha" "list_all (\<lambda>x. map_mutation_verify x = Ok ()) xs"
    and "map_overlay_ok sha U contents ov" "opt_map_known sha U t" "map_body_of sha ` trail sha xs t \<subseteq> U"
    and "live \<Longrightarrow> map_ready load sha contents ov (opt_tsubtrees t) n" "live \<Longrightarrow> length (opt_entries t) + length xs \<le> n"
  shows "map_refines sha U contents ov (rfold (apply_map_mutation sha load) xs (map_root_of sha t, ov))
    (rbind (rfold (trie_edit sha) xs t) (\<lambda>u. Ok (map_root_of sha u))) (edit_made (rfold (trie_edit sha) xs t) t) live"
  using assms(3-)
proof (induction xs arbitrary: ov t)
  case Nil
  then show ?case using map_overlay.sim_Ok [OF Nil(2)] by simp
next
  case (Cons x xs)
  have x: "map_mutation_verify x = Ok ()" "list_all (\<lambda>x. map_mutation_verify x = Ok ()) xs" using Cons.prems(1) by simp_all
  have sub: "map_body_of sha ` opt_tsubtrees u \<subseteq> U" "map_body_of sha ` trail sha xs u \<subseteq> U" if "trie_edit sha x t = Ok u" for u
    using Cons.prems(4) that by (auto simp: image_Un)
  have "live \<Longrightarrow> length (opt_entries t) < n" using Cons.prems(6) by simp
  note step = apply_map_mutation_refines [OF assms(1,2) x(1) Cons.prems(2,3) sub(1) Cons.prems(5) this]
  show ?case
  proof (cases "trie_edit sha x t")
    case (Inl e)
    have "map_refines sha U contents ov (apply_map_mutation sha load x (map_root_of sha t, ov)) (Err e) {} live"
      using step Inl by simp
    from map_overlay.sim_error [OF this] Inl show ?thesis by simp
  next
    case (Inr u)
    have t: "opt_trie sha t" using Cons.prems(3) by (simp add: opt_map_known_iff)
    have u: "opt_map_known sha U u"
      using trie_edit_Ok [OF assms(2) t x(1) Inr] sub(1) [OF Inr] by (simp add: opt_map_known_iff)
    have first: "map_refines sha U contents ov (apply_map_mutation sha load x (map_root_of sha t, ov)) (Ok (map_root_of sha u))
        (opt_tsubtrees u - opt_tsubtrees t) live" using step Inr by simp
    show ?thesis unfolding rfold.simps Inr rbind_Ok
    proof (rule map_overlay.sim_bind [OF first, where B = "edit_made (rfold (trie_edit sha) xs u) u"])
      fix ov' assume ov': "map_overlay_ok sha U contents ov'" "map_overlay_le contents ov ov'"
        "map_created sha ov' (opt_tsubtrees u - opt_tsubtrees t)"
      show "map_refines sha U contents ov' (rfold (apply_map_mutation sha load) xs (map_root_of sha u, ov'))
          (rbind (rfold (trie_edit sha) xs u) (\<lambda>u. Ok (map_root_of sha u))) (edit_made (rfold (trie_edit sha) xs u) u) live"
      proof (rule Cons.IH [OF x(2) ov'(1) u sub(2) [OF Inr]])
        show "map_ready load sha contents ov' (opt_tsubtrees u) n" if live
          using map_ready_step [OF Cons.prems(5) [OF that] ov'(2,3)] by blast
        show "length (opt_entries u) + length xs \<le> n" if live
          using trie_edit_length [OF t Inr] Cons.prems(6) [OF that] by simp
      qed
    next
      show "edit_made (rfold (trie_edit sha) xs u) t \<subseteq> opt_tsubtrees u - opt_tsubtrees t \<union> edit_made (rfold (trie_edit sha) xs u) u"
        by (cases "rfold (trie_edit sha) xs u") auto
    qed
  qed
qed

lemma trie_edits_length:
  assumes "sha_ok sha" "opt_trie sha t" "list_all (\<lambda>x. map_mutation_verify x = Ok ()) xs" "rfold (trie_edit sha) xs t = Ok u"
  shows "length (opt_entries u) \<le> length (opt_entries t) + length xs"
  using assms(2-)
proof (induction xs arbitrary: t)
  case (Cons x xs)
  then obtain w where w: "trie_edit sha x t = Ok w" "rfold (trie_edit sha) xs w = Ok u" by auto
  have "length (opt_entries u) \<le> length (opt_entries w) + length xs"
    using trie_edit_Ok [OF assms(1) Cons.prems(1) _ w(1)] Cons.prems(2) Cons.IH [OF _ _ w(2)] by simp
  then show ?case using trie_edit_length [OF Cons.prems(1) w(1)] by simp
qed simp

lemma apply_map_internal_refines:
  assumes "inj_on (map_node_id sha) U" "sha_ok sha" "list_all (\<lambda>x. map_mutation_verify x = Ok ()) xs"
    and "map_overlay_ok sha U contents ov" "opt_map_known sha U t" "map_body_of sha ` trail sha xs t \<subseteq> U"
    and "live \<Longrightarrow> map_ready load sha contents ov (opt_tsubtrees t) n" "live \<Longrightarrow> length (opt_entries t) + length xs \<le> n"
  shows "map_refines sha U contents ov (apply_map_internal sha load (map_root_of sha t) xs ov)
    (rbind (rfold (trie_edit sha) xs t) (\<lambda>u. Ok (map_root_of sha u))) (edit_made (rfold (trie_edit sha) xs t) t) live"
proof -
  note batch = apply_map_mutations_refines [OF assms(1-6), of live n] assms(7,8)
  show ?thesis
  proof (cases "rfold (trie_edit sha) xs t")
    case (Inl e)
    have "map_refines sha U contents ov (rfold (apply_map_mutation sha load) xs (map_root_of sha t, ov)) (Err e) {} live"
      using batch Inl by simp
    from map_overlay.sim_error [OF this] Inl show ?thesis by (simp add: apply_map_internal_def)
  next
    case (Inr u)
    have root: "map_root_verify (map_root_of sha u) = Ok ()" if live
    proof (rule map_root_verify_trie [OF assms(2)])
      have "opt_trie sha t" using assms(5) by (simp add: opt_map_known_iff)
      from trie_edits_length [OF assms(2) this assms(3) Inr] assms(7,8) [OF that]
      show "length (opt_entries u) \<le> MAX_EXACT_INTEGER" by (simp add: map_ready_def)
    qed
    have "map_refines sha U contents ov (rfold (apply_map_mutation sha load) xs (map_root_of sha t, ov)) (Ok (map_root_of sha u))
        (opt_tsubtrees u - opt_tsubtrees t) live" using batch Inr by simp
    then show ?thesis unfolding apply_map_internal_def Inr
      by (rule map_overlay.sim_bind [where B = "{}"])
        (use root in \<open>auto intro!: map_overlay.sim_check map_overlay.sim_Ok\<close>)
  qed
qed

end

end
