(* ===== verification/Map_Read.thy ===== *)
theory Map_Read
  imports Map_Apply Map_Refine_Batch Node_Store
begin

text \<open>
  Exact reads of the map. The resolvers of the crate keep the resolver contract; a lookup over any
  resolver that succeeds answers as the trie the root names, and over one that holds the path it
  succeeds and loads exactly the nodes of the path.
\<close>

section \<open>The resolvers keep the contract\<close>

interpretation map_proof_resolver: live_map_resolver proof_map_load "\<lambda>r. fmlookup (pm_nodes r)"
  by unfold_locales (auto simp: proof_map_load_def split: option.splits)

interpretation map_apply_proof_resolver: live_map_resolver apply_proof_map_load "\<lambda>r. fmlookup (am_nodes r)"
  by unfold_locales (auto simp: apply_proof_map_load_def)

definition map_recording_contents ::
  "('r \<Rightarrow> string \<Rightarrow> map_node option) \<Rightarrow> 'r recording_map_resolver \<Rightarrow> string \<Rightarrow> map_node option" where
  "map_recording_contents contents r = contents (rm_inner r) ++ fmlookup (rm_nodes r)"

lemma map_recording_resolver:
  assumes "map_resolver load contents"
  shows "map_resolver (recording_map_load load) (map_recording_contents contents)"
proof
  fix object_id found and r r' :: "'a recording_map_resolver"
  assume step: "recording_map_load load object_id r = Ok (found, r')"
  show "found = map_recording_contents contents r object_id
      \<and> map_recording_contents contents r' = map_recording_contents contents r"
  proof (cases "fmlookup (rm_nodes r) object_id")
    case None
    with step obtain inner where l: "load object_id (rm_inner r) = Ok (found, inner)"
      and r': "r' = r\<lparr>rm_inner := inner, rm_nodes :=
        (case found of None \<Rightarrow> rm_nodes r | Some node \<Rightarrow> fmupd object_id node (rm_nodes r))\<rparr>"
      by (auto simp: recording_map_load_def)
    with map_resolver.load_answers [OF assms l] None show ?thesis
      by (auto simp: map_recording_contents_def map_add_def fun_eq_iff split: option.split)
  next
    case (Some node)
    with step have "found = Some node" "r' = r" by (simp_all add: recording_map_load_def)
    with Some show ?thesis by (simp add: map_recording_contents_def map_add_def)
  qed
qed

sublocale map_resolver \<subseteq> map_recorded: recorder "recording_map_load load" rm_nodes "\<lambda>r. contents (rm_inner r)"
proof
  fix k found node and r r' :: "'r recording_map_resolver"
  assume run: "recording_map_load load k r = Ok (found, r')" and le: "fmlookup (rm_nodes r) \<subseteq>\<^sub>m contents (rm_inner r)"
  have both: "contents (rm_inner r') = contents (rm_inner r) \<and> found = contents (rm_inner r) k
    \<and> (\<forall>node. found = Some node \<longrightarrow> fmlookup (rm_nodes r') = (fmlookup (rm_nodes r))(k \<mapsto> node))"
  proof (cases "fmlookup (rm_nodes r) k")
    case None
    with run obtain inner where i: "load k (rm_inner r) = Ok (found, inner)"
      and r': "r' = r\<lparr>rm_inner := inner, rm_nodes :=
        (case found of None \<Rightarrow> rm_nodes r | Some node \<Rightarrow> fmupd k node (rm_nodes r))\<rparr>"
      by (auto simp: recording_map_load_def)
    with load_answers [OF i] show ?thesis by (auto simp: fun_eq_iff)
  next
    case (Some node)
    with run have "found = Some node" "r' = r" by (simp_all add: recording_map_load_def)
    moreover have "contents (rm_inner r) k = Some node" using le Some by (auto simp: map_le_def dom_def)
    ultimately show ?thesis using Some by (simp add: fun_upd_idem)
  qed
  then show "contents (rm_inner r') = contents (rm_inner r) \<and> found = contents (rm_inner r) k" by blast
  show "fmlookup (rm_nodes r') = (fmlookup (rm_nodes r))(k \<mapsto> node)" if "contents (rm_inner r) k = Some node"
    using both that by simp
qed

section \<open>The path of a lookup\<close>

fun tpath :: "(string \<Rightarrow> string) \<Rightarrow> string \<Rightarrow> map_tree \<Rightarrow> map_tree list" where
  "tpath sha k (Entry k' v) = [Entry k' v]"
| "tpath sha k (Split d l r) = Split d l r #
     (if cleared (key_digest sha k) d \<noteq> cleared (key_digest sha (first_key l)) d then []
      else if hbit (key_digest sha k) d then tpath sha k r else tpath sha k l)"

lemma tpath_subtrees: "set (tpath sha k t) \<subseteq> tsubtrees t"
  by (induction t) auto

lemma length_tpath: "length (tpath sha k t) \<le> theight t"
  by (induction t) (auto simp: le_max_iff_disj)

definition map_holds ::
  "(string \<Rightarrow> string) \<Rightarrow> (string \<Rightarrow> map_node option) \<Rightarrow> map_tree set \<Rightarrow> bool" where
  "map_holds sha held T \<longleftrightarrow> (\<forall>s\<in>T. held (trie_id sha s) = Some (map_node_of sha s))"

lemma map_holds_subset: "map_holds sha held T \<Longrightarrow> S \<subseteq> T \<Longrightarrow> map_holds sha held S"
  by (auto simp: map_holds_def)

context map_resolver
begin

lemma map_recorded_loads:
  assumes "load_all (recording_map_load load) ids (recording_map_new r) = Ok r'" "set ids \<subseteq> dom (contents r)"
  shows "fset (fmdom (rm_nodes r')) = set ids" "fmlookup (rm_nodes r') \<subseteq>\<^sub>m contents r"
  using map_recorded.load_all_records [OF assms(1)] assms(2) by (simp_all add: recording_map_new_def map_le_def)

lemma load_resolved_map_sound:
  assumes "inj_on (map_node_id sha) U" "map_held_ok sha U (contents r)" "map_body_of sha t \<in> U"
    and "load_resolved_map_node sha load (map_ref_of sha t) r = Ok (node, r')"
  shows "node = map_node_of sha t" "contents r' = contents r"
proof -
  from assms(4) have l: "load (trie_id sha t) r = Ok (Some node, r')" "map_node_verify sha node = Ok ()"
    "mn_object_id node = trie_id sha t"
    by (fastforce simp: load_resolved_map_node_def split: if_splits)+
  have "mn_body node \<in> U" using load_answers [OF l(1)] l(2) assms(2) by (auto simp: map_held_ok_def)
  with map_verified_entry [OF l(2)] l(3) map_entry_ok_trie [OF _ assms(1,3)] show "node = map_node_of sha t" by metis
  show "contents r' = contents r" using load_answers [OF l(1)] by simp
qed

lemma load_resolved_map_live:
  assumes "sha_ok sha" "contents r (trie_id sha t) = Some (map_node_of sha t)" "trie sha t"
    and "length (tentries t) \<le> MAX_EXACT_INTEGER" "\<And>object_id r. \<exists>y. load object_id r = Ok y"
  obtains r' where "load_resolved_map_node sha load (map_ref_of sha t) r = Ok (map_node_of sha t, r')"
    and "load (trie_id sha t) r = Ok (Some (map_node_of sha t), r')" and "contents r' = contents r"
proof -
  obtain found r' where l: "load (trie_id sha t) r = Ok (found, r')" using assms(5) by (metis prod.collapse)
  with load_answers [OF l] assms(2) have f: "found = Some (map_node_of sha t)" "contents r' = contents r" by simp_all
  have "load_resolved_map_node sha load (map_ref_of sha t) r = Ok (map_node_of sha t, r')"
    using l f map_node_verify_trie [OF assms(1,3,4)] map_node_entries_trie [OF assms(4)]
    by (simp add: load_resolved_map_node_def)
  with l f that show thesis by blast
qed

lemma lookup_from_sound:
  assumes "inj_on (map_node_id sha) U" "sha_ok sha" "map_held_ok sha U (contents r)" "map_known sha U t"
    and "lookup_from sha load k (key_digest sha k) fuel (map_ref_of sha t) cs rank r = Ok (outcome, r')"
  shows "tree_look sha k t rank = Ok outcome \<and> contents r' = contents r"
  using assms(3-)
proof (induction t arbitrary: fuel cs rank r)
  case (Entry k' v)
  obtain m node r1 where m: "fuel = Suc m" "load_resolved_map_node sha load (map_ref_of sha (map_tree.Entry k' v)) r = Ok (node, r1)"
    using Entry(3) by (cases fuel) auto
  have "node = map_node_of sha (map_tree.Entry k' v)" "contents r1 = contents r"
    using load_resolved_map_sound [OF assms(1) Entry(1) _ m(2)] map_known_self [OF Entry(2)] by simp_all
  then show ?case using m Entry(3) by (auto simp: tree_look_Entry)
next
  case (Split d l r0)
  let ?t = "map_tree.Split d l r0"
  obtain m node r1 where m: "fuel = Suc m" "load_resolved_map_node sha load (map_ref_of sha ?t) r = Ok (node, r1)"
    using Split.prems(3) by (cases fuel) auto
  have s: "node = map_node_of sha ?t" "contents r1 = contents r"
    using load_resolved_map_sound [OF assms(1) Split.prems(1) _ m(2)] map_known_self [OF Split.prems(2)] by simp_all
  have t: "trie sha ?t" "d < 256" using map_known_self [OF Split.prems(2)] by auto
  note k = map_known_Split [OF Split.prems(2)] and v = key_digest_valid [OF assms(2), of k]
  note run = Split.prems(3) [unfolded m(1) lookup_from.simps m(2)]
  have held: "map_held_ok sha U (contents r1)" using Split.prems(1) s(2) by simp
  show ?case
  proof (cases "cleared (key_digest sha k) d = cleared (key_digest sha (first_key l)) d")
    case False
    then show ?thesis using run s tree_look_absent [OF assms(2) t(1) False] v t(2)
      by (auto simp: hash_matches_prefix_Ok)
  next
    case True
    note run = run [unfolded s(1), simplified, unfolded hash_matches_prefix_Ok [OF v t(2)] hash_bit_Ok [OF v t(2)]]
    show ?thesis
    proof (cases "hbit (key_digest sha k) d")
      case bit: True
      then have "lookup_from sha load k (key_digest sha k) m (map_ref_of sha r0)
          (cs @ [side sha d l True]) (rank + length (tentries l)) r1 = Ok (outcome, r')"
        using run True by (auto simp: checked_add_def Let_def split: if_splits)
      from Split.IH(2) [OF held conjunct2 [OF k] this] show ?thesis using bit tree_look_Split [OF t(1)] s(2) by simp
    next
      case bit: False
      then have "lookup_from sha load k (key_digest sha k) m (map_ref_of sha l)
          (cs @ [side sha d l False]) rank r1 = Ok (outcome, r')"
        using run True by (auto simp: Let_def split: if_splits)
      from Split.IH(1) [OF held conjunct1 [OF k] this] show ?thesis using bit tree_look_Split [OF t(1)] s(2) by simp
    qed
  qed
qed

lemma lookup_from_live:
  assumes "sha_ok sha" "\<And>object_id r. \<exists>y. load object_id r = Ok y"
    and "map_holds sha (contents r) (set (tpath sha k t))" "trie sha t" "tree_look sha k t rank = Ok outcome"
    and "fits sha t cs" "theight t \<le> fuel" "rank + length (tentries t) \<le> MAX_EXACT_INTEGER"
  shows "\<exists>r'. lookup_from sha load k (key_digest sha k) fuel (map_ref_of sha t) cs rank r = Ok (outcome, r')
    \<and> load_all load (map (trie_id sha) (tpath sha k t)) r = Ok r' \<and> contents r' = contents r"
  using assms(3-)
proof (induction t arbitrary: fuel cs rank r)
  case (Entry k' v)
  then obtain m where m: "fuel = Suc m" by (cases fuel) auto
  have "contents r (trie_id sha (map_tree.Entry k' v)) = Some (map_node_of sha (map_tree.Entry k' v))"
    using Entry(1) by (simp add: map_holds_def)
  from load_resolved_map_live [OF assms(1) this Entry(2) _ assms(2)] Entry(6) obtain r1
    where "load_resolved_map_node sha load (map_ref_of sha (map_tree.Entry k' v)) r = Ok (map_node_of sha (map_tree.Entry k' v), r1)"
      "load (trie_id sha (map_tree.Entry k' v)) r = Ok (Some (map_node_of sha (map_tree.Entry k' v)), r1)" "contents r1 = contents r"
    by auto
  then show ?case using Entry(3) m fits_Entry [OF assms(1) Entry(4)] by (simp add: tree_look_Entry)
next
  case (Split d l r0)
  let ?t = "map_tree.Split d l r0"
  from Split.prems obtain m where m: "fuel = Suc m" by (cases fuel) auto
  have "contents r (trie_id sha ?t) = Some (map_node_of sha ?t)" using Split.prems(1) by (simp add: map_holds_def)
  from load_resolved_map_live [OF assms(1) this Split.prems(2) _ assms(2)] Split.prems(6) obtain r1
    where r1: "load_resolved_map_node sha load (map_ref_of sha ?t) r = Ok (map_node_of sha ?t, r1)"
      "load (trie_id sha ?t) r = Ok (Some (map_node_of sha ?t), r1)" "contents r1 = contents r" by auto
  have d: "d < 256" "trie sha l" "trie sha r0" using Split.prems(2) by auto
  note v = key_digest_valid [OF assms(1), of k]
  note checks = fits_Split [OF assms(1) Split.prems(2,4)]
  show ?case
  proof (cases "cleared (key_digest sha k) d = cleared (key_digest sha (first_key l)) d")
    case False
    then show ?thesis using r1 m checks Split.prems(3) tree_look_absent [OF assms(1) Split.prems(2) False, of rank]
      by (simp add: hash_matches_prefix_Ok [OF v d(1)] del: tsubtrees.simps)
  next
    case True
    show ?thesis
    proof (cases "hbit (key_digest sha k) d")
      case bit: True
      have h: "map_holds sha (contents r1) (set (tpath sha k r0))" using Split.prems(1) r1(3) True bit by (auto simp: map_holds_def)
      have look: "tree_look sha k r0 (rank + length (tentries l)) = Ok outcome"
        using Split.prems(3) tree_look_Split [OF Split.prems(2)] bit by simp
      have fit: "fits sha r0 (cs @ [side sha d l True])" using fits_child [OF assms(1) Split.prems(2,4), of True] by simp
      have n: "theight r0 \<le> m" "rank + length (tentries l) + length (tentries r0) \<le> MAX_EXACT_INTEGER"
        using Split.prems(5,6) m by simp_all
      from Split.IH(2) [OF h d(3) look fit n] obtain r2 where
        "lookup_from sha load k (key_digest sha k) m (map_ref_of sha r0) (cs @ [side sha d l True]) (rank + length (tentries l)) r1 = Ok (outcome, r2)"
        "load_all load (map (trie_id sha) (tpath sha k r0)) r1 = Ok r2" "contents r2 = contents r1" by blast
      moreover have "rank + length (tentries l) < MAX_EXACT_INTEGER" using n(2) length_tentries_pos [of r0] by linarith
      moreover from this have "checked_add rank (length (tentries l)) = Some (rank + length (tentries l))"
        by (simp add: checked_add_def MAX_EXACT_INTEGER_def)
      ultimately show ?thesis using True bit m r1 checks
        by (simp add: hash_matches_prefix_Ok [OF v d(1)] hash_bit_Ok [OF v d(1)] Let_def del: lookup_from.simps(2) add: lookup_from.simps(2) [of _ _ _ _ m])
    next
      case bit: False
      have h: "map_holds sha (contents r1) (set (tpath sha k l))" using Split.prems(1) r1(3) True bit by (auto simp: map_holds_def)
      have look: "tree_look sha k l rank = Ok outcome"
        using Split.prems(3) tree_look_Split [OF Split.prems(2)] bit by simp
      have fit: "fits sha l (cs @ [side sha d l False])" using fits_child [OF assms(1) Split.prems(2,4), of False] by simp
      have n: "theight l \<le> m" "rank + length (tentries l) \<le> MAX_EXACT_INTEGER"
        using Split.prems(5,6) m by simp_all
      from Split.IH(1) [OF h d(2) look fit n] obtain r2 where
        "lookup_from sha load k (key_digest sha k) m (map_ref_of sha l) (cs @ [side sha d l False]) rank r1 = Ok (outcome, r2)"
        "load_all load (map (trie_id sha) (tpath sha k l)) r1 = Ok r2" "contents r2 = contents r1" by blast
      then show ?thesis using True bit m r1 checks
        by (simp add: hash_matches_prefix_Ok [OF v d(1)] hash_bit_Ok [OF v d(1)] Let_def del: lookup_from.simps(2) add: lookup_from.simps(2) [of _ _ _ _ m])
    qed
  qed
qed

text \<open>Lookups from a root.\<close>

lemma lookup_sound:
  assumes "inj_on (map_node_id sha) U" "sha_ok sha" "map_held_ok sha U (contents r)" "opt_map_known sha U t"
    and "Map_Proof.lookup sha load (map_root_of sha t) k (key_digest sha k) r = Ok (outcome, r')"
  shows "opt_look sha k t = Ok outcome \<and> contents r' = contents r"
proof (cases t)
  case None
  then show ?thesis using assms(5) by (auto simp: Map_Proof.lookup_def opt_look_def root_reference_def map_root_empty_def)
next
  case (Some u)
  then show ?thesis using assms(4,5) lookup_from_sound [OF assms(1-3)]
    by (auto simp: Map_Proof.lookup_def opt_look_def opt_map_known_def simp del: lookup_from.simps)
qed

end

end
