(* ===== verification/Map_Exact.thy ===== *)
theory Map_Exact
  imports Map_Read
begin

text \<open>
  Exact proofs of membership and non-membership: an accepted proof answers as the committed trie,
  and the proof that a prover records is within the bounds and is accepted.
\<close>

section \<open>Accepted proofs\<close>

interpretation map_index: node_index "index_map_proof_node sha duplicate" mn_object_id "\<lambda>node. map_node_verify sha node = Ok ()"
  for sha :: "string \<Rightarrow> string" and duplicate :: string
  by unfold_locales (auto simp: index_map_proof_node_def)

lemma index_map_proof_nodes_held:
  assumes "index_map_proof_nodes sha duplicate nodes maximum = Ok m" "mn_body ` set nodes \<subseteq> U"
  shows "map_held_ok sha U (fmlookup m)"
proof -
  have "rfold (index_map_proof_node sha duplicate) nodes fmempty = Ok m"
    using assms(1) by (auto simp: index_map_proof_nodes_def split: if_splits)
  from map_index.index_sound [OF this] assms(2) show ?thesis by (fastforce simp: map_held_ok_def)
qed

lemma verify_map_exact_known:
  assumes "inj_on (map_node_id sha) U" "sha_ok sha" "opt_map_known sha U t" "mn_body ` set (xm_nodes prf) \<subseteq> U"
    and "verify_map_exact sha (map_root_of sha t) k prf = Ok got"
  shows "\<exists>outcome. opt_look sha k t = Ok outcome
    \<and> got = \<lparr>vm_root = map_root_of sha t, vm_key = k, vm_value = lo_value outcome, vm_rank = lo_rank outcome\<rparr>"
proof -
  from assms(5) obtain indexed outcome r where
    new: "index_map_proof_nodes sha ''map_proof_duplicate_node'' (xm_nodes prf) MAX_MAP_PATH_NODES = Ok indexed"
    and look: "Map_Proof.lookup sha proof_map_load (map_root_of sha t) k (key_digest sha k) \<lparr>pm_nodes = indexed, pm_used = {||}\<rparr> = Ok (outcome, r)"
    and got: "got = \<lparr>vm_root = map_root_of sha t, vm_key = k, vm_value = lo_value outcome, vm_rank = lo_rank outcome\<rparr>"
    by (auto simp: verify_map_exact_def proof_map_new_def proof_map_new_bounded_def map_key_hash_Ok split: if_splits)
  have "map_held_ok sha U (fmlookup (pm_nodes \<lparr>pm_nodes = indexed, pm_used = {||}\<rparr>))"
    using index_map_proof_nodes_held [OF new assms(4)] by simp
  from map_proof_resolver.lookup_sound [OF assms(1,2) this assms(3) look] got show ?thesis by blast
qed

section \<open>The bytes of a path\<close>

definition BRANCH_BYTES :: nat where
  "BRANCH_BYTES = length MAP_NODE_VERSION + 71 + 64 + 71 + 71 + 32"

lemma BRANCH_BYTES_eq: "BRANCH_BYTES = 340"
  by (simp add: BRANCH_BYTES_def MAP_NODE_VERSION_def)

definition most_bytes :: "map_node \<Rightarrow> nat" where
  "most_bytes node = BRANCH_BYTES + (case mn_body node of MapLeaf _ _ _ \<Rightarrow> MAX_MAP_KEY_BYTES | _ \<Rightarrow> 0)"

lemma validate_key_length: "validate_key k = Ok () \<Longrightarrow> length k \<le> MAX_MAP_KEY_BYTES"
  by (simp add: validate_key_def split: if_splits)

lemma length_key_digest: "sha_ok sha \<Longrightarrow> length (key_digest sha k) = 64"
  using key_digest_valid by (simp add: valid_digest_def)

lemma trie_id_length: "sha_ok sha \<Longrightarrow> length (trie_id sha t) = 71"
  using trie_id_valid content_id_length by blast

lemma map_logical_bytes_trie:
  assumes "sha_ok sha" "trie sha t"
  shows "\<exists>b. map_logical_bytes (map_node_of sha t) = Ok b \<and> b \<le> most_bytes (map_node_of sha t)"
proof (cases t)
  case (Entry k v)
  then have k: "length k \<le> MAX_MAP_KEY_BYTES" "length v = 71"
    using assms(2) validate_key_length content_id_length by auto
  then show ?thesis using Entry assms(1) checked_sum_Ok [of 102 "[length k, 64, 71]"]
    by (simp add: map_logical_bytes_def most_bytes_def BRANCH_BYTES_eq trie_id_length length_key_digest checked_add_def
        MAP_NODE_VERSION_def MAX_MAP_KEY_BYTES_def MAX_PAGE_BYTES_def)
next
  case (Split d l r)
  have "length (cleared (key_digest sha (first_key l)) d) = 64" by (simp add: cleared_def)
  then show ?thesis using Split assms(1) checked_sum_Ok [of 102 "[64, 71, 71, 32]"]
    by (simp add: map_logical_bytes_def most_bytes_def BRANCH_BYTES_eq trie_id_length checked_add_def MAP_NODE_VERSION_def)
qed

lemma tpath_bytes:
  "sum_list (map (most_bytes \<circ> map_node_of sha) (tpath sha k t)) \<le> BRANCH_BYTES * theight t + MAX_MAP_KEY_BYTES"
proof (induction t)
  case (Split d l r)
  have "theight l \<le> max (theight l) (theight r)" "theight r \<le> max (theight l) (theight r)" by simp_all
  then have "BRANCH_BYTES * theight l \<le> BRANCH_BYTES * max (theight l) (theight r)"
    "BRANCH_BYTES * theight r \<le> BRANCH_BYTES * max (theight l) (theight r)" by (simp_all only: mult_le_mono2)
  then have "sum_list (map (most_bytes \<circ> map_node_of sha) (tpath sha k l)) \<le> BRANCH_BYTES * max (theight l) (theight r) + MAX_MAP_KEY_BYTES"
    "sum_list (map (most_bytes \<circ> map_node_of sha) (tpath sha k r)) \<le> BRANCH_BYTES * max (theight l) (theight r) + MAX_MAP_KEY_BYTES"
    using Split by linarith+
  moreover have "most_bytes (map_node_of sha (map_tree.Split d l r)) = BRANCH_BYTES" by (simp add: most_bytes_def)
  ultimately show ?case by (simp add: comp_def)
qed (simp add: most_bytes_def)

lemma sum_values_of:
  "sum_list (map f (values_of m)) = (\<Sum>k\<in>fset (fmdom m). f (the (fmlookup m k)))"
  by (simp add: sorted_list_of_fmap_def sorted_list_of_fset.rep_eq comp_def sum_list_distinct_conv_sum_set)

lemma sum_set_le_list: "sum f (set xs) \<le> sum_list (map f xs)" for f :: "'a \<Rightarrow> nat"
  by (induction xs) (auto simp: sum.insert_if)

section \<open>Recorded proofs are accepted\<close>

lemma map_proof_load_all:
  assumes "set ids \<subseteq> fset (fmdom (pm_nodes r))"
  shows "load_all proof_map_load ids r = Ok (r\<lparr>pm_used := pm_used r |\<union>| fset_of_list ids\<rparr>)"
  using assms
proof (induction ids arbitrary: r)
  case (Cons i ids)
  then obtain node where "fmlookup (pm_nodes r) i = Some node" by (auto simp: fmlookup_dom_iff)
  then show ?case using Cons by (simp add: proof_map_load_def)
qed simp

text \<open>The index of the nodes of a set of subtries.\<close>

definition indexes :: "(string \<Rightarrow> string) \<Rightarrow> (string, map_node) fmap \<Rightarrow> map_tree set \<Rightarrow> bool" where
  "indexes sha m T \<longleftrightarrow> fset (fmdom m) = trie_id sha ` T \<and> map_holds sha (fmlookup m) T"

lemma indexes_verified:
  assumes "indexes sha m T" "sha_ok sha" "\<forall>s\<in>T. trie sha s \<and> length (tentries s) \<le> MAX_EXACT_INTEGER"
  shows "\<forall>k node. fmlookup m k = Some node \<longrightarrow> mn_object_id node = k \<and> map_node_verify sha node = Ok ()"
proof (intro allI impI)
  fix k node assume k: "fmlookup m k = Some node"
  then obtain s where s: "s \<in> T" "k = trie_id sha s" using assms(1) by (metis fmdomI imageE indexes_def)
  with assms(1) k have "node = map_node_of sha s" by (simp add: indexes_def map_holds_def)
  with s map_node_verify_trie [OF assms(2)] assms(3) show "mn_object_id node = k \<and> map_node_verify sha node = Ok ()" by simp
qed

lemma indexes_proof_nodes:
  assumes "indexes sha m (set ts)" "sha_ok sha" "\<forall>s\<in>set ts. trie sha s \<and> length (tentries s) \<le> MAX_EXACT_INTEGER"
    and "length ts \<le> maximum" "sum_list (map (most_bytes \<circ> map_node_of sha) ts) \<le> MAX_PROOF_BYTES"
  shows "index_map_proof_nodes sha duplicate (values_of m) maximum = Ok m"
proof -
  have get: "the (fmlookup m (trie_id sha s)) = map_node_of sha s" if "s \<in> set ts" for s
    using assms(1) that by (simp add: indexes_def map_holds_def)
  have vals: "\<exists>s\<in>set ts. node = map_node_of sha s" if "node \<in> set (values_of m)" for node
  proof -
    obtain k where "fmlookup m k = Some node" using \<open>node \<in> set (values_of m)\<close> by auto
    moreover from this obtain s where "s \<in> set ts" "k = trie_id sha s" using assms(1) by (metis fmdomI imageE indexes_def)
    ultimately show ?thesis using get by force
  qed
  then have each: "\<forall>node\<in>set (values_of m). \<exists>b. map_logical_bytes node = Ok b \<and> b \<le> most_bytes node"
    using map_logical_bytes_trie [OF assms(2)] assms(3) by metis
  have "sum_list (map most_bytes (values_of m)) = (\<Sum>k\<in>trie_id sha ` set ts. most_bytes (the (fmlookup m k)))"
    unfolding sum_values_of using assms(1) by (simp add: indexes_def)
  also have "\<dots> \<le> (\<Sum>s\<in>set ts. most_bytes (map_node_of sha s))"
    using sum_image_le [of "set ts" "\<lambda>k. most_bytes (the (fmlookup m k))" "trie_id sha"] get by simp
  also have "\<dots> \<le> MAX_PROOF_BYTES" using sum_set_le_list [of "most_bytes \<circ> map_node_of sha" ts] assms(5) by simp
  finally obtain tb where "rfold (\<lambda>node bytes. rbind (map_logical_bytes node) (bounded_add MAX_PROOF_BYTES bytes)) (values_of m) 0 = Ok tb"
    using proof_bytes_fold [OF each, of 0] by auto
  moreover have "card (fset (fmdom m)) \<le> length ts"
    using assms(1) card_image_le [of "set ts" "trie_id sha"] card_length [of ts] by (simp add: indexes_def)
  then have "length (values_of m) \<le> maximum" using assms(4) length_values_of [of m] by simp
  ultimately show ?thesis using map_index.index_values [OF indexes_verified [OF assms(1-3)]]
    by (simp add: index_map_proof_nodes_def verify_map_proof_bytes_def)
qed

lemma recording_map_live:
  assumes "\<And>object_id r. \<exists>y. load object_id r = Ok y"
  shows "\<exists>y. recording_map_load load object_id r = Ok y"
proof -
  obtain found inner where "load object_id (rm_inner r) = Ok (found, inner)" using assms by (metis prod.collapse)
  then show ?thesis by (cases "fmlookup (rm_nodes r) object_id") (auto simp: recording_map_load_def)
qed

lemma tentries_subtree: "s \<in> tsubtrees t \<Longrightarrow> length (tentries s) \<le> length (tentries t)"
  by (induction t) auto

abbreviation opt_path :: "(string \<Rightarrow> string) \<Rightarrow> string \<Rightarrow> map_tree option \<Rightarrow> map_tree list" where
  "opt_path sha k t \<equiv> (case t of None \<Rightarrow> [] | Some u \<Rightarrow> tpath sha k u)"

context map_resolver
begin

lemma lookup_live:
  assumes "sha_ok sha" "\<And>object_id r. \<exists>y. load object_id r = Ok y"
    and "map_holds sha (contents r) (set (opt_path sha k t))" "opt_trie sha t" "opt_look sha k t = Ok outcome"
    and "length (opt_entries t) \<le> MAX_EXACT_INTEGER"
  shows "\<exists>r'. Map_Proof.lookup sha load (map_root_of sha t) k (key_digest sha k) r = Ok (outcome, r')
    \<and> load_all load (map (trie_id sha) (opt_path sha k t)) r = Ok r' \<and> contents r' = contents r"
proof (cases t)
  case None
  then show ?thesis using assms(5) map_root_verify_trie [OF assms(1), of t]
    by (simp add: Map_Proof.lookup_def opt_look_def root_reference_def map_root_empty_def MAX_EXACT_INTEGER_def)
next
  case (Some u)
  then have u: "map_holds sha (contents r) (set (tpath sha k u))" "trie sha u" "tree_look sha k u 0 = Ok outcome"
    "0 + length (tentries u) \<le> MAX_EXACT_INTEGER" using assms(3-6) by (simp_all add: opt_look_def)
  from lookup_from_live [OF assms(1,2) u(1-3) _ trie_path_bound [OF u(2)] u(4), of "[]"] obtain r' where
    "lookup_from sha load k (key_digest sha k) MAX_MAP_PATH_NODES (map_ref_of sha u) [] 0 r = Ok (outcome, r')"
    "load_all load (map (trie_id sha) (tpath sha k u)) r = Ok r'" "contents r' = contents r" by auto
  then show ?thesis using Some map_root_verify_trie [OF assms(1), of t] assms(6)
    by (simp add: Map_Proof.lookup_def del: lookup_from.simps)
qed

end

lemma opt_path_bounds:
  assumes "opt_trie sha t"
  shows "length (opt_path sha k t) \<le> MAX_MAP_PATH_NODES
    \<and> sum_list (map (most_bytes \<circ> map_node_of sha) (opt_path sha k t)) \<le> MAX_PROOF_BYTES"
proof (cases t)
  case (Some u)
  then have h: "theight u \<le> 257" using assms trie_path_bound by (auto simp: MAX_MAP_PATH_NODES_def)
  have "length (tpath sha k u) \<le> 257" using h length_tpath [of sha k u] by simp
  moreover have "sum_list (map (most_bytes \<circ> map_node_of sha) (tpath sha k u)) \<le> 340 * 257 + MAX_MAP_KEY_BYTES"
    using h tpath_bytes [of sha k u] by (simp add: BRANCH_BYTES_eq)
  ultimately show ?thesis using Some
    by (simp add: MAX_MAP_PATH_NODES_def MAX_MAP_KEY_BYTES_def MAX_PAGE_BYTES_def MAX_PROOF_BYTES_def)
qed simp

text \<open>The verifier accepts exactly the nodes of the path.\<close>

lemma opt_path_fine:
  assumes "opt_trie sha t" "length (opt_entries t) \<le> MAX_EXACT_INTEGER"
  shows "\<forall>s\<in>set (opt_path sha k t). trie sha s \<and> length (tentries s) \<le> MAX_EXACT_INTEGER"
proof (cases t)
  case (Some u)
  then show ?thesis using assms tpath_subtrees [of sha k u] trie_subtrees [of sha u] tentries_subtree [of _ u] by fastforce
qed simp

lemma verify_map_exact_path:
  assumes "sha_ok sha" "opt_trie sha t" "length (opt_entries t) \<le> MAX_EXACT_INTEGER" "validate_key k = Ok ()"
    and "opt_look sha k t = Ok outcome" "indexes sha m (set (opt_path sha k t))"
  shows "verify_map_exact sha (map_root_of sha t) k
      \<lparr>xm_root = map_root_of sha t, xm_key = k, xm_key_hash = key_digest sha k, xm_nodes = values_of m\<rparr>
    = Ok \<lparr>vm_root = map_root_of sha t, vm_key = k, vm_value = lo_value outcome, vm_rank = lo_rank outcome\<rparr>"
proof -
  let ?p = "opt_path sha k t" and ?r = "\<lparr>pm_nodes = m, pm_used = {||}\<rparr>"
  note b = opt_path_bounds [OF assms(2), of k]
  have new: "proof_map_new sha (values_of m) = Ok ?r"
    using indexes_proof_nodes [OF assms(6,1) opt_path_fine [OF assms(2,3)] conjunct1 [OF b] conjunct2 [OF b]]
    by (simp add: proof_map_new_def proof_map_new_bounded_def)
  have "map_holds sha (fmlookup (pm_nodes ?r)) (set ?p)" using assms(6) by (simp add: indexes_def)
  from map_proof_resolver.lookup_live [OF assms(1) _ this assms(2,5,3)] map_proof_resolver.load_live
  obtain q where ver: "Map_Proof.lookup sha proof_map_load (map_root_of sha t) k (key_digest sha k) ?r = Ok (outcome, q)"
    and used: "load_all proof_map_load (map (trie_id sha) ?p) ?r = Ok q" by blast
  have "q = ?r\<lparr>pm_used := fset_of_list (map (trie_id sha) ?p)\<rparr>"
    using used map_proof_load_all [of "map (trie_id sha) ?p" ?r] assms(6) by (simp add: indexes_def)
  moreover have "fset_of_list (map (trie_id sha) ?p) = fmdom m"
    using assms(6) by (auto simp: fset_eq_iff fset_of_list.rep_eq indexes_def)
  ultimately have "proof_map_finish q = Ok ()" by (simp add: proof_map_finish_def)
  then show ?thesis using new ver map_root_verify_trie [OF assms(1,3)] assms(4) by (simp add: verify_map_exact_def map_key_hash_eq)
qed

lemma map_exact_roundtrip_known:
  assumes "live_map_resolver load contents" "sha_ok sha" "opt_trie sha t" "length (opt_entries t) \<le> MAX_EXACT_INTEGER"
    and "map_holds sha (contents r) (opt_tsubtrees t)" "validate_key k = Ok ()" "opt_look sha k t = Ok outcome"
  shows "\<exists>prf. prove_map_exact sha load (map_root_of sha t) k r = Ok prf
    \<and> verify_map_exact sha (map_root_of sha t) k prf
      = Ok \<lparr>vm_root = map_root_of sha t, vm_key = k, vm_value = lo_value outcome, vm_rank = lo_rank outcome\<rparr>"
proof -
  have res: "map_resolver load contents" using assms(1) by (simp add: live_map_resolver_def)
  have total: "\<exists>y. load object_id r = Ok y" for object_id r
    using live_map_resolver.load_live [OF assms(1), of object_id r] by blast
  let ?p = "opt_path sha k t"
  have sub: "set ?p \<subseteq> opt_tsubtrees t" using tpath_subtrees by (cases t) auto
  have path: "map_holds sha (contents r) (set ?p)" using map_holds_subset [OF assms(5) sub] .
  have root: "map_root_verify (map_root_of sha t) = Ok ()" by (rule map_root_verify_trie [OF assms(2,4)])
  have same: "map_recording_contents contents (recording_map_new r) = contents r"
    by (auto simp: map_recording_contents_def recording_map_new_def map_add_def)
  have "map_holds sha (map_recording_contents contents (recording_map_new r)) (set ?p)" using path same by simp
  from map_resolver.lookup_live [OF map_recording_resolver [OF res] assms(2) recording_map_live [OF total] this assms(3,7,4)]
  obtain q where look: "Map_Proof.lookup sha (recording_map_load load) (map_root_of sha t) k (key_digest sha k) (recording_map_new r) = Ok (outcome, q)"
    and all: "load_all (recording_map_load load) (map (trie_id sha) ?p) (recording_map_new r) = Ok q" by blast
  have "set (map (trie_id sha) ?p) \<subseteq> dom (contents r)" using path by (auto simp: map_holds_def)
  note rec = map_resolver.map_recorded_loads [OF res all this]
  have ix: "indexes sha (rm_nodes q) (set ?p)"
  proof -
    have "fmlookup (rm_nodes q) (trie_id sha s) = Some (map_node_of sha s)" if s: "s \<in> set ?p" for s
    proof -
      obtain node where "fmlookup (rm_nodes q) (trie_id sha s) = Some node" using rec(1) s by (metis fmdomE image_eqI set_map)
      with rec(2) path s show ?thesis by (auto simp: map_holds_def map_le_def dom_def)
    qed
    then show ?thesis using rec(1) by (simp add: indexes_def map_holds_def)
  qed
  let ?made = "\<lparr>xm_root = map_root_of sha t, xm_key = k, xm_key_hash = key_digest sha k, xm_nodes = values_of (rm_nodes q)\<rparr>"
  have prove: "prove_map_exact sha load (map_root_of sha t) k r = Ok ?made"
    using root look assms(6) by (simp add: prove_map_exact_def map_key_hash_eq)
  show ?thesis using prove verify_map_exact_path [OF assms(2-4,6,7) ix] by blast
qed

text \<open>The rank of a key counts the keys whose hashes come before its own.\<close>

lemma card_tkeys: "trie sha t \<Longrightarrow> sha_ok sha \<Longrightarrow> card (tkeys t) = length (tentries t)"
  using trie_distinct [of sha t] distinct_card [of "map fst (tentries t)"] by (simp add: tkeys_entries [symmetric])

lemma trank_card:
  assumes "sha_ok sha" "trie sha t" "k \<in> tkeys t"
  shows "trank t k = card {x \<in> tkeys t. key_digest sha x < key_digest sha k}"
  using assms(2-)
proof (induction t)
  case (Entry k' v)
  then show ?case by (simp add: trank_def)
next
  case (Split d l r)
  let ?b = "\<lambda>t. {x \<in> tkeys t. key_digest sha x < key_digest sha k}"
  note t = Split.prems(1)
  have fin: "finite (tkeys u)" for u by (simp add: tkeys_entries [symmetric])
  show ?case
  proof (cases "hbit (key_digest sha k) d")
    case True
    then have k: "k \<in> tkeys r" using Split.prems by auto
    have "?b (map_tree.Split d l r) = tkeys l \<union> ?b r" using trie_sides [OF t _ k assms(1)] by auto
    moreover have "tkeys l \<inter> ?b r = {}" using trie_disjoint [OF t] by auto
    ultimately have "card (?b (map_tree.Split d l r)) = card (tkeys l) + card (?b r)"
      using fin by (simp add: card_Un_disjoint)
    then show ?thesis using trank_Split [OF t Split.prems(2)] True Split.IH(2) [OF _ k] t card_tkeys [of sha l] assms(1) by simp
  next
    case False
    then have k: "k \<in> tkeys l" using Split.prems by auto
    have "?b (map_tree.Split d l r) = ?b l" using trie_sides [OF t k _ assms(1)] by fastforce
    then show ?thesis using trank_Split [OF t Split.prems(2)] False Split.IH(1) [OF _ k] t by simp
  qed
qed

end
