(* ===== verification/Map_Range.thy ===== *)
theory Map_Range
  imports Map_Exact
begin

text \<open>
  Pages of the map: a walk over any resolver that succeeds collects the longest run of entries,
  from the rank after the given position on, that the limit and the byte budget allow.
\<close>

section \<open>Reference pages\<close>

definition positions :: "(string \<Rightarrow> string) \<Rightarrow> (string \<times> string) list \<Rightarrow> (map_position \<times> string) list" where
  "positions sha es = map (\<lambda>(k, v). (\<lparr>ps_key = k, ps_key_hash = key_digest sha k\<rparr>, v)) es"

definition entry_size :: "map_position \<times> string \<Rightarrow> nat" where
  "entry_size e = length (ps_key (fst e)) + length (ps_key_hash (fst e)) + length (snd e)"

fun page_take :: "nat \<Rightarrow> nat \<Rightarrow> (map_position \<times> string) list \<Rightarrow> (map_position \<times> string) list" where
  "page_take 0 budget es = []"
| "page_take (Suc n) budget [] = []"
| "page_take (Suc n) budget (e # es) =
     (if entry_size e \<le> budget then e # page_take n (budget - entry_size e) es else [])"

definition used :: "(map_position \<times> string) list \<Rightarrow> nat" where
  "used es = sum_list (map entry_size es)"

lemma used_simps [simp]: "used [] = 0" "used (e # es) = entry_size e + used es" "used (es @ fs) = used es + used fs"
  by (simp_all add: used_def)

lemma page_take_Nil [simp]: "page_take n budget [] = []"
  by (cases n) simp_all

lemma page_take_length: "length (page_take n budget es) \<le> length es \<and> length (page_take n budget es) \<le> n"
  by (induction n budget es rule: page_take.induct) auto

lemma page_take_prefix: "page_take n budget es = take (length (page_take n budget es)) es"
  by (induction n budget es rule: page_take.induct) auto

lemma page_take_used: "used (page_take n budget es) \<le> budget"
  by (induction n budget es rule: page_take.induct) auto

text \<open>One more entry joins a page only when the page holds all entries before it.\<close>

lemma page_take_snoc:
  "page_take n budget (es @ [e]) =
    (if length (page_take n budget es) = length es \<and> length es < n \<and> used es + entry_size e \<le> budget
     then es @ [e] else page_take n budget es)"
proof (induction n budget es rule: page_take.induct)
  case (2 n budget)
  then show ?case by simp
next
  case (3 n budget x es)
  show ?case
  proof (cases "entry_size x \<le> budget")
    case True
    then have "used es + entry_size e \<le> budget - entry_size x \<longleftrightarrow> entry_size x + used es + entry_size e \<le> budget" by linarith
    then show ?thesis using True 3 by simp
  next
    case False
    then show ?thesis by simp
  qed
qed simp

definition page_selection :: "nat \<Rightarrow> nat \<Rightarrow> (map_position \<times> string) list \<Rightarrow> map_range_selection" where
  "page_selection limit budget rest =
     (let page = page_take limit budget rest in
      \<lparr>ms_entries = page, ms_used_bytes = used page,
       ms_boundary = (if length page < length rest then Some (rest ! length page) else None)\<rparr>)"

definition selection_of :: "nat \<Rightarrow> nat \<Rightarrow> nat \<Rightarrow> (map_position \<times> string) list \<Rightarrow> map_range_selection" where
  "selection_of start limit budget es = page_selection limit budget (drop start es)"

lemma page_full: "length (page_take n b es) = length es \<Longrightarrow> page_take n b es = es"
  using page_take_prefix by (metis order_refl take_all)

lemma page_open: "ms_boundary (page_selection limit budget rest) = None \<longleftrightarrow> page_take limit budget rest = rest"
  using page_take_length [of limit budget rest] page_full [of limit budget rest]
  by (auto simp: page_selection_def Let_def)

lemma page_selection_snoc:
  assumes "ms_boundary (page_selection limit budget rest) = None"
  shows "page_selection limit budget (rest @ [e]) =
    (let s = page_selection limit budget rest; next_bytes = ms_used_bytes s + entry_size e in
     if length (ms_entries s) < limit \<and> next_bytes \<le> budget
     then s\<lparr>ms_used_bytes := next_bytes, ms_entries := ms_entries s @ [e]\<rparr>
     else s\<lparr>ms_boundary := Some e\<rparr>)"
  using assms [unfolded page_open] page_take_snoc [of limit budget rest e]
  by (auto simp: page_selection_def Let_def nth_append)

lemma page_selection_closed:
  assumes "ms_boundary (page_selection limit budget rest) \<noteq> None"
  shows "page_selection limit budget (rest @ more_entries) = page_selection limit budget rest"
proof (induction more_entries rule: rev_induct)
  case (snoc f fs)
  have "ms_boundary (page_selection limit budget (rest @ fs)) \<noteq> None" using snoc assms by simp
  then have less: "length (page_take limit budget (rest @ fs)) < length (rest @ fs)"
    by (simp add: page_selection_def Let_def split: if_splits)
  then have "page_take limit budget ((rest @ fs) @ [f]) = page_take limit budget (rest @ fs)"
    unfolding page_take_snoc [of limit budget "rest @ fs"] by simp
  then have "page_selection limit budget ((rest @ fs) @ [f]) = page_selection limit budget (rest @ fs)"
    using less unfolding page_selection_def Let_def by (simp only:) (auto simp: nth_append)
  then show ?case using snoc by simp
qed simp

lemma selection_before: "length es \<le> start \<Longrightarrow> selection_of start limit budget es = empty_selection"
  by (simp add: selection_of_def page_selection_def)

lemma selection_snoc:
  assumes "ms_boundary (selection_of start limit budget es) = None" "start \<le> length es"
  shows "selection_of start limit budget (es @ [e]) =
    (let s = selection_of start limit budget es; next_bytes = ms_used_bytes s + entry_size e in
     if length (ms_entries s) < limit \<and> next_bytes \<le> budget
     then s\<lparr>ms_used_bytes := next_bytes, ms_entries := ms_entries s @ [e]\<rparr>
     else s\<lparr>ms_boundary := Some e\<rparr>)"
  using page_selection_snoc [OF assms(1) [unfolded selection_of_def], of e] assms(2) by (simp add: selection_of_def)

lemma selection_closed:
  assumes "ms_boundary (selection_of start limit budget es) \<noteq> None"
  shows "selection_of start limit budget (es @ fs) = selection_of start limit budget es"
proof -
  have "start \<le> length es" using assms selection_before [of es start] by (cases "start \<le> length es") simp_all
  then show ?thesis using page_selection_closed [OF assms [unfolded selection_of_def], of fs] by (simp add: selection_of_def)
qed

section \<open>The walk\<close>

lemma positions_append [simp]: "positions sha (es @ fs) = positions sha es @ positions sha fs"
  by (simp add: positions_def)

lemma length_positions [simp]: "length (positions sha es) = length es"
  by (simp add: positions_def)

lemma map_visit_leaf_page:
  assumes "map_visit_leaf sha start limit budget cs (length es) k (key_digest sha k) v (selection_of start limit budget es) = Ok sel"
    and "ms_boundary (selection_of start limit budget es) = None"
  shows "sel = selection_of start limit budget (es @ positions sha [(k, v)])"
proof -
  let ?e = "(\<lparr>ps_key = k, ps_key_hash = key_digest sha k\<rparr>, v)"
  have p: "positions sha [(k, v)] = [?e]" by (simp add: positions_def)
  show ?thesis
  proof (cases "length es < start")
    case True
    then have "selection_of start limit budget (es @ [?e]) = selection_of start limit budget es"
      by (simp add: selection_before)
    then show ?thesis using assms(1) True p by (auto simp: map_visit_leaf_def split: if_splits)
  next
    case False
    have bytes: "b = entry_size ?e" if "page_entry_bytes \<lparr>ps_key = k, ps_key_hash = key_digest sha k\<rparr> v = Ok b" for b
      using that by (auto simp: page_entry_bytes_def checked_sum_def entry_size_def checked_add_def split: if_splits)
    from assms(1) False obtain b n where "page_entry_bytes \<lparr>ps_key = k, ps_key_hash = key_digest sha k\<rparr> v = Ok b"
      "checked_add (ms_used_bytes (selection_of start limit budget es)) b = Some n"
      "sel = (if length (ms_entries (selection_of start limit budget es)) < limit \<and> n \<le> budget
        then (selection_of start limit budget es)\<lparr>ms_used_bytes := n, ms_entries := ms_entries (selection_of start limit budget es) @ [?e]\<rparr>
        else (selection_of start limit budget es)\<lparr>ms_boundary := Some ?e\<rparr>)"
      by (auto simp: map_visit_leaf_def Let_def split: if_splits)
    moreover from this bytes have "n = ms_used_bytes (selection_of start limit budget es) + entry_size ?e"
      by (auto simp: checked_add_def split: if_splits)
    ultimately show ?thesis using selection_snoc [OF assms(2), of ?e] False p by (simp add: Let_def)
  qed
qed

lemma map_visit_shortcut:
  assumes "map_visit sha load start limit budget cs reference (length es) (selection_of start limit budget es) r = Ok (sel, r')"
    and "ms_boundary (selection_of start limit budget es) \<noteq> None \<or> length (es @ fs) \<le> start" "mr_entries reference = length fs"
  shows "sel = selection_of start limit budget (es @ fs) \<and> r' = r"
proof (cases "ms_boundary (selection_of start limit budget es) = None")
  case True
  then have "length (es @ fs) \<le> start" using assms(2) by simp
  moreover from this have "selection_of start limit budget (es @ fs) = selection_of start limit budget es"
    by (simp add: selection_before)
  ultimately show ?thesis using assms(1,3) True
    unfolding map_visit.simps [of sha load start limit budget cs reference] by (auto simp: checked_add_def split: if_splits)
next
  case False
  then show ?thesis using assms(1) selection_closed [OF False, of fs]
    unfolding map_visit.simps [of sha load start limit budget cs reference] by simp
qed

context map_resolver
begin

lemma map_visit_sound:
  assumes "inj_on (map_node_id sha) U" "map_held_ok sha U (contents r)" "map_known sha U t"
    and "map_visit sha load start limit budget cs (map_ref_of sha t) (length es) (selection_of start limit budget es) r = Ok (sel, r')"
  shows "sel = selection_of start limit budget (es @ positions sha (tentries t)) \<and> contents r' = contents r"
  using assms(2-)
proof (induction t arbitrary: cs es r sel r')
  case (Entry k v)
  let ?t = "map_tree.Entry k v"
  let ?b = "ms_boundary (selection_of start limit budget es)"
  show ?case
  proof (cases "?b \<noteq> None \<or> length (es @ positions sha (tentries ?t)) \<le> start")
    case True
    from map_visit_shortcut [OF Entry(3) True] show ?thesis by simp
  next
    case False
    note run = Entry(3) [unfolded map_visit.simps [of sha load start limit budget cs "map_ref_of sha ?t"]]
    with False obtain node r1 where l: "load_resolved_map_node sha load (map_ref_of sha ?t) r = Ok (node, r1)"
      by (auto simp: checked_add_def split: if_splits)
    have n: "node = map_node_of sha ?t" "contents r1 = contents r"
      using load_resolved_map_sound [OF assms(1) Entry(1) _ l] map_known_self [OF Entry(2)] by simp_all
    from run l n False have "map_visit_leaf sha start limit budget cs (length es) k (key_digest sha k) v (selection_of start limit budget es) = Ok sel"
      "r' = r1" by (auto simp: checked_add_def split: if_splits)
    moreover have "?b = None" using False by blast
    ultimately show ?thesis using map_visit_leaf_page n by simp
  qed
next
  case (Split d l r0)
  let ?t = "map_tree.Split d l r0"
  let ?b = "ms_boundary (selection_of start limit budget es)"
  show ?case
  proof (cases "?b \<noteq> None \<or> length (es @ positions sha (tentries ?t)) \<le> start")
    case True
    from map_visit_shortcut [OF Split.prems(3) True] show ?thesis by simp
  next
    case False
    note run = Split.prems(3) [unfolded map_visit.simps [of sha load start limit budget cs "map_ref_of sha ?t"]]
    with False obtain node r1 where ld: "load_resolved_map_node sha load (map_ref_of sha ?t) r = Ok (node, r1)"
      by (auto simp: checked_add_def split: if_splits)
    have n: "node = map_node_of sha ?t" "contents r1 = contents r"
      using load_resolved_map_sound [OF assms(1) Split.prems(1) _ ld] map_known_self [OF Split.prems(2)] by simp_all
    note k = map_known_Split [OF Split.prems(2)]
    from run ld n False obtain s1 r2 where
      one: "map_visit sha load start limit budget (cs @ [side sha d l False]) (map_ref_of sha l) (length es) (selection_of start limit budget es) r1 = Ok (s1, r2)"
      and two: "map_visit sha load start limit budget (cs @ [side sha d l True]) (map_ref_of sha r0) (length (es @ positions sha (tentries l))) s1 r2 = Ok (sel, r')"
      by (auto simp: checked_add_def split: if_splits)
    have held: "map_held_ok sha U (contents r1)" using Split.prems(1) n(2) by simp
    have s1: "s1 = selection_of start limit budget (es @ positions sha (tentries l))" "contents r2 = contents r1"
      using Split.IH(1) [OF held conjunct1 [OF k] one] by simp_all
    have "map_held_ok sha U (contents r2)" using held s1(2) by simp
    from Split.IH(2) [OF this conjunct2 [OF k] two [unfolded s1(1)]] s1(2) n(2) show ?thesis by simp
  qed
qed

end

section \<open>Accepted pages\<close>

text \<open>The entries after a position, in the order of key hashes.\<close>

definition entries_after :: "map_position option \<Rightarrow> (map_position \<times> string) list \<Rightarrow> (map_position \<times> string) list" where
  "entries_after after es = (case after of None \<Rightarrow> es
     | Some p \<Rightarrow> filter (\<lambda>e. ps_key_hash p < ps_key_hash (fst e)) es)"

lemma sorted_drop_filter:
  fixes f :: "'a \<Rightarrow> 'b :: linorder"
  assumes "sorted_wrt (<) (map f xs)" "i < length xs"
  shows "drop (Suc i) xs = filter (\<lambda>x. f (xs ! i) < f x) xs"
proof -
  have s: "sorted_wrt (<) (map f (take (Suc i) xs) @ map f (drop (Suc i) xs))"
    using assms(1) by (metis append_take_drop_id map_append)
  have i: "xs ! i \<in> set (take (Suc i) xs)" using assms(2) by (simp add: take_Suc_conv_app_nth)
  have "\<not> f (xs ! i) < f x" if x: "x \<in> set (take (Suc i) xs)" for x
  proof -
    obtain j where "j \<le> i" "x = xs ! j" using x assms(2) by (auto simp: in_set_conv_nth less_Suc_eq_le)
    then show ?thesis using sorted_wrt_nth_less [OF assms(1), of j i] assms(2) by (cases "j = i") force+
  qed
  moreover have "f (xs ! i) < f x" if "x \<in> set (drop (Suc i) xs)" for x
    using s i that by (auto simp: sorted_wrt_append)
  ultimately have "filter (\<lambda>x. f (xs ! i) < f x) (take (Suc i) xs) = []" "filter (\<lambda>x. f (xs ! i) < f x) (drop (Suc i) xs) = drop (Suc i) xs"
    by (auto simp: filter_empty_conv)
  then show ?thesis by (metis append_Nil append_take_drop_id filter_append)
qed

lemma trank_nth: "k \<in> tkeys t \<Longrightarrow> fst (tentries t ! trank t k) = k"
  unfolding trank_def using nth_length_takeWhile trank_less [of k t, unfolded trank_def] by fastforce

lemma entries_after_rank:
  assumes "trie sha u" "sha_ok sha" "ps_key p \<in> tkeys u" "ps_key_hash p = key_digest sha (ps_key p)"
  shows "entries_after (Some p) (positions sha (tentries u)) = drop (Suc (trank u (ps_key p))) (positions sha (tentries u))"
proof -
  let ?es = "positions sha (tentries u)" and ?i = "trank u (ps_key p)"
  have "map (\<lambda>e. ps_key_hash (fst e)) ?es = map (key_digest sha \<circ> fst) (tentries u)" by (simp add: positions_def case_prod_unfold)
  then have sorted: "sorted_wrt (<) (map (\<lambda>e. ps_key_hash (fst e)) ?es)" using trie_sorted [OF assms(1,2)] by simp
  have i: "?i < length ?es" using trank_less [OF assms(3)] by simp
  have "ps_key_hash (fst (?es ! ?i)) = ps_key_hash p"
    using i trank_nth [OF assms(3)] assms(4) by (simp add: positions_def case_prod_unfold)
  then show ?thesis using sorted_drop_filter [OF sorted i] by (simp add: entries_after_def)
qed

lemma map_range_start_sound:
  assumes "inj_on (map_node_id sha) U" "sha_ok sha" "map_held_ok sha U (fmlookup (pm_nodes r))" "opt_map_known sha U t"
    and "map_range_start sha proof_map_load (map_root_of sha t) after r = Ok (start, r')"
  shows "entries_after after (positions sha (opt_entries t)) = drop start (positions sha (opt_entries t))
    \<and> (\<forall>p. after = Some p \<longrightarrow> ps_key p \<in> opt_tkeys t) \<and> pm_nodes r' = pm_nodes r"
proof (cases after)
  case None
  then show ?thesis using assms(5) by (simp add: map_range_start_def entries_after_def)
next
  case (Some p)
  from assms(5) Some obtain outcome rank where o: "ps_key_hash p = key_digest sha (ps_key p)"
    "Map_Proof.lookup sha proof_map_load (map_root_of sha t) (ps_key p) (key_digest sha (ps_key p)) r = Ok (outcome, r')"
    "lo_value outcome \<noteq> None" "lo_rank outcome = Some rank" "start = Suc rank"
    by (auto simp: map_range_start_def position_verify_def map_key_hash_Ok checked_add_def split: if_splits option.splits)
  from map_proof_resolver.lookup_sound [OF assms(1-4) o(2)] have l: "opt_look sha (ps_key p) t = Ok outcome"
    "fmlookup (pm_nodes r') = fmlookup (pm_nodes r)" by simp_all
  then obtain u where u: "t = Some u" using o(3) by (cases t) (auto simp: opt_look_def)
  have key: "ps_key p \<in> tkeys u" "rank = trank u (ps_key p)"
    using l(1) o(4) u by (auto simp: opt_look_def tree_look_def split: if_splits)
  have "trie sha u" using assms(4) u by (simp add: opt_map_known_iff)
  from entries_after_rank [OF this assms(2) key(1) o(1)] key o(5) u Some l(2) show ?thesis
    by (simp add: dom_tmap fmlookup_inject)
qed

lemma verify_map_range_known:
  assumes "inj_on (map_node_id sha) U" "sha_ok sha" "opt_map_known sha U t" "mn_body ` set (mp_nodes prf) \<subseteq> U"
    and run: "verify_map_range sha (map_root_of sha t) after limit max_bytes prf = Ok got"
  defines "rest \<equiv> entries_after after (positions sha (opt_entries t))"
  shows "pg_entries got = page_take limit max_bytes rest
    \<and> pg_next_position got = (if length (pg_entries got) < length rest then Some (fst (last (pg_entries got))) else None)
    \<and> (rest \<noteq> [] \<longrightarrow> pg_entries got \<noteq> []) \<and> (\<forall>p. after = Some p \<longrightarrow> ps_key p \<in> opt_tkeys t)"
proof -
  from run obtain indexed start q sel q' where
    new: "index_map_proof_nodes sha ''map_proof_duplicate_node'' (mp_nodes prf) MAX_MAP_RANGE_PROOF_NODES = Ok indexed"
    and start: "map_range_start sha proof_map_load (map_root_of sha t) after \<lparr>pm_nodes = indexed, pm_used = {||}\<rparr> = Ok (start, q)"
    and col: "collect_map_range sha proof_map_load (map_root_of sha t) start limit max_bytes q = Ok (sel, q')"
    and got: "got = \<lparr>pg_root = map_root_of sha t, pg_after = after, pg_entries = ms_entries sel,
      pg_next_position = (case ms_boundary sel of None \<Rightarrow> None
        | Some _ \<Rightarrow> if ms_entries sel = [] then None else Some (fst (last (ms_entries sel))))\<rparr>"
    by (auto simp: verify_map_range_def proof_map_new_bounded_def split: if_splits)
  have held: "map_held_ok sha U (fmlookup (pm_nodes \<lparr>pm_nodes = indexed, pm_used = {||}\<rparr>))"
    using index_map_proof_nodes_held [OF new assms(4)] by simp
  from map_range_start_sound [OF assms(1,2) held assms(3) start]
  have after: "rest = drop start (positions sha (opt_entries t))" "\<forall>p. after = Some p \<longrightarrow> ps_key p \<in> opt_tkeys t"
    and q: "map_held_ok sha U (fmlookup (pm_nodes q))" using held by (simp_all add: rest_def)
  have sel: "sel = selection_of start limit max_bytes (positions sha (opt_entries t))
    \<and> \<not> (ms_entries sel = [] \<and> ms_boundary sel \<noteq> None)"
  proof (cases t)
    case None
    then show ?thesis using col
      by (auto simp: collect_map_range_def root_reference_def map_root_empty_def selection_of_def page_selection_def positions_def split: if_splits)
  next
    case (Some u)
    have nil: "empty_selection = selection_of start limit max_bytes []" by (simp add: selection_before)
    from col Some have "map_visit sha proof_map_load start limit max_bytes [] (map_ref_of sha u) (length ([] :: (map_position \<times> string) list))
        (selection_of start limit max_bytes []) q = Ok (sel, q')" "\<not> (ms_entries sel = [] \<and> ms_boundary sel \<noteq> None)"
      unfolding nil [symmetric] by (auto simp: collect_map_range_def split: if_splits)
    with map_proof_resolver.map_visit_sound [OF assms(1) q _ this(1)] Some assms(3) show ?thesis by (simp add: opt_map_known_def)
  qed
  then have page: "ms_entries sel = page_take limit max_bytes rest"
    "ms_boundary sel = (if length (page_take limit max_bytes rest) < length rest then Some (rest ! length (page_take limit max_bytes rest)) else None)"
    unfolding after(1) by (simp_all add: selection_of_def page_selection_def Let_def)
  have ne: "page_take limit max_bytes rest \<noteq> []" if "length (page_take limit max_bytes rest) < length rest"
    using sel page that by simp
  moreover have "page_take limit max_bytes rest \<noteq> []" if "rest \<noteq> []" using ne that by (cases "page_take limit max_bytes rest") simp_all
  ultimately show ?thesis using got page after(2) by auto
qed

end
