(* ===== verification/Map_Commit.thy ===== *)
theory Map_Commit
  imports Map_Range "HOL-Library.Multiset"
begin

text \<open>
  Mutation batches as a whole. The canonical order of a batch depends only on the set of its
  mutations; since no key occurs twice, a batch checks every expectation against the parent map and
  writes all its keys at once. Accepted batch proofs and the outcome over a provider follow from
  the refinement.
\<close>

section \<open>The canonical order\<close>

fun mutation_size :: "map_mutation \<Rightarrow> nat" where
  "mutation_size (Put key expected v) = length key + length v + (case expected of Absent \<Rightarrow> 0 | Exact e \<Rightarrow> length e)"
| "mutation_size (Remove key expected) = length key + length expected"

definition mutation_order :: "(string \<Rightarrow> string) \<Rightarrow> map_mutation \<Rightarrow> string \<times> string" where
  "mutation_order sha x = (key_digest sha (mutation_key x), mutation_key x)"

definition fine_mutation :: "map_mutation \<Rightarrow> bool" where
  "fine_mutation x \<longleftrightarrow> map_mutation_verify x = Ok () \<and> mutation_size x < 2 ^ 64"

lemma map_mutation_bytes_iff: "map_mutation_bytes x = Ok b \<longleftrightarrow> mutation_size x < 2 ^ 64 \<and> b = mutation_size x"
  by (cases x) (auto simp: checked_sum_def checked_add_def split: expected_map_value.splits)

lemma fine_mutation_key: "fine_mutation x \<Longrightarrow> validate_key (mutation_key x) = Ok ()"
  by (auto simp: fine_mutation_def map_mutation_verify_def)

lemma canonical_step_iff:
  "canonical_step sha x s = Ok s' \<longleftrightarrow>
     fine_mutation x \<and> cs_bytes s + mutation_size x \<le> MAX_MUTATION_BYTES \<and> mutation_key x |\<notin>| cs_keys s
     \<and> s' = \<lparr>cs_ordered = cs_ordered s @ [(key_digest sha (mutation_key x), mutation_key x, x)],
             cs_keys = finsert (mutation_key x) (cs_keys s), cs_bytes = cs_bytes s + mutation_size x\<rparr>"
  using fine_mutation_key [of x]
  by (auto simp: canonical_step_def map_mutation_bytes_iff bounded_add_def checked_add_def map_key_hash_Ok fine_mutation_def
      MAX_MUTATION_BYTES_def split: if_splits)

lemma canonical_fold_iff:
  "rfold (canonical_step sha) xs s = Ok s' \<longleftrightarrow>
     list_all fine_mutation xs \<and> (xs \<noteq> [] \<longrightarrow> cs_bytes s + sum_list (map mutation_size xs) \<le> MAX_MUTATION_BYTES)
     \<and> distinct (map mutation_key xs) \<and> mutation_key ` set xs \<inter> fset (cs_keys s) = {}
     \<and> s' = \<lparr>cs_ordered = cs_ordered s @ map (\<lambda>x. (key_digest sha (mutation_key x), mutation_key x, x)) xs,
             cs_keys = fset_of_list (map mutation_key xs) |\<union>| cs_keys s,
             cs_bytes = cs_bytes s + sum_list (map mutation_size xs)\<rparr>"
proof (induction xs arbitrary: s)
  case Nil
  then show ?case by auto
next
  case (Cons x xs)
  let ?s = "\<lparr>cs_ordered = cs_ordered s @ [(key_digest sha (mutation_key x), mutation_key x, x)],
             cs_keys = finsert (mutation_key x) (cs_keys s), cs_bytes = cs_bytes s + mutation_size x\<rparr>"
  have "rfold (canonical_step sha) (x # xs) s = Ok s' \<longleftrightarrow>
    fine_mutation x \<and> cs_bytes s + mutation_size x \<le> MAX_MUTATION_BYTES \<and> mutation_key x |\<notin>| cs_keys s
    \<and> rfold (canonical_step sha) xs ?s = Ok s'" by (auto simp: canonical_step_iff)
  then show ?case unfolding Cons.IH [of ?s] by (cases "xs = []") (auto simp: add.assoc)
qed

lemma insort_key_map: "insort_key f (g x) (map g ys) = map g (insort_key (f \<circ> g) x ys)"
  by (induction ys) auto

lemma sort_key_map: "sort_key f (map g xs) = map g (sort_key (f \<circ> g) xs)"
  by (induction xs) (simp_all add: insort_key_map comp_def)

lemma canonical_mutations_iff:
  "canonical_mutations sha xs = Ok ys \<longleftrightarrow>
     xs \<noteq> [] \<and> length xs \<le> MAX_MAP_MUTATIONS_PER_APPLY \<and> list_all fine_mutation xs
     \<and> sum_list (map mutation_size xs) \<le> MAX_MUTATION_BYTES \<and> distinct (map mutation_key xs)
     \<and> ys = sort_key (mutation_order sha) xs"
proof -
  have "map (\<lambda>(_, _, x). x) (sort_key (\<lambda>(h, k, _). (h, k)) (map (\<lambda>x. (key_digest sha (mutation_key x), mutation_key x, x)) xs))
    = sort_key (mutation_order sha) xs"
    unfolding sort_key_map by (simp add: comp_def mutation_order_def [abs_def])
  then show ?thesis by (auto simp: canonical_mutations_def canonical_fold_iff)
qed

lemma mutation_order_inj: "distinct (map mutation_key xs) \<Longrightarrow> inj_on (mutation_order sha) (set xs)"
  by (auto simp: inj_on_def distinct_map mutation_order_def)

lemma canonical_mutations_permuted:
  assumes "mset xs = mset xs'" "canonical_mutations sha xs = Ok ys"
  shows "canonical_mutations sha xs' = Ok ys"
proof -
  note c = assms(2) [unfolded canonical_mutations_iff]
  have d: "distinct (map mutation_key xs')" using c mset_map [of mutation_key] assms(1) by (metis mset_eq_imp_distinct_iff)
  have "set xs = set xs'" "length xs = length xs'" using assms(1) by (auto dest: mset_eq_setD mset_eq_length)
  moreover have "sum_list (map mutation_size xs) = sum_list (map mutation_size xs')"
    using assms(1) by (metis mset_map sum_mset_sum_list)
  moreover have "sort_key (mutation_order sha) xs = sort_key (mutation_order sha) xs'"
    using sort_key_inj_key_eq [of xs "sort_key (mutation_order sha) xs'" "mutation_order sha"] assms(1) mutation_order_inj c by simp
  ultimately show ?thesis using c d by (auto simp: canonical_mutations_iff list_all_iff)
qed

section \<open>Simultaneous updates\<close>

fun new_value :: "map_mutation \<Rightarrow> string option" where
  "new_value (Put _ _ v) = Some v"
| "new_value (Remove _ _) = None"

definition map_batch :: "map_mutation list \<Rightarrow> (string \<rightharpoonup> string) \<Rightarrow> string \<rightharpoonup> string" where
  "map_batch xs m = (\<lambda>k. case map_of (map (\<lambda>x. (mutation_key x, new_value x)) xs) k of None \<Rightarrow> m k | Some v \<Rightarrow> v)"

lemma map_edit_eq: "map_edit x m = m(mutation_key x := new_value x)"
  by (cases x) auto

lemma map_expects_other: "mutation_key x \<noteq> mutation_key y \<Longrightarrow> map_expects y (map_edit x m) = map_expects y m"
  by (cases y) (auto simp: map_edit_eq)

lemma map_edits_batch:
  assumes "distinct (map mutation_key xs)"
  shows "map_edits xs m = (if \<forall>x\<in>set xs. map_expects x m then Some (map_batch xs m) else None)"
  using assms
proof (induction xs arbitrary: m)
  case (Cons x xs)
  have others: "(\<forall>y\<in>set xs. map_expects y (map_edit x m)) \<longleftrightarrow> (\<forall>y\<in>set xs. map_expects y m)"
    using Cons.prems map_expects_other [of x _ m] by (metis distinct.simps(2) image_eqI list.simps(9) set_map)
  have "map_of (map (\<lambda>x. (mutation_key x, new_value x)) xs) (mutation_key x) = None"
    using Cons.prems by (auto simp: map_of_eq_None_iff image_image)
  then have "map_batch xs (map_edit x m) = map_batch (x # xs) m"
    by (auto simp: map_batch_def map_edit_eq fun_eq_iff split: option.splits)
  then show ?case using Cons others by simp
qed (simp add: map_batch_def fun_eq_iff)

lemma map_batch_set:
  assumes "distinct (map mutation_key xs)" "set xs = set ys" "distinct (map mutation_key ys)"
  shows "map_batch xs m = map_batch ys m"
proof -
  let ?f = "\<lambda>x. (mutation_key x, new_value x)"
  have "map_of (map ?f xs) = map_of (map ?f ys)"
    by (rule map_of_inject_set [THEN iffD2]) (use assms in \<open>simp_all add: comp_def\<close>)
  then show ?thesis by (simp add: map_batch_def)
qed

lemma canonical_edits:
  assumes "canonical_mutations sha xs = Ok ys"
  shows "map_edits ys m = (if \<forall>x\<in>set xs. map_expects x m then Some (map_batch xs m) else None)"
    and "list_all (\<lambda>x. map_mutation_verify x = Ok ()) ys" "length ys = length xs" "set ys = set xs"
proof -
  note c = assms [unfolded canonical_mutations_iff]
  have d: "distinct (map mutation_key ys)" using c by (metis mset_eq_imp_distinct_iff mset_map mset_sort)
  show s: "set ys = set xs" "length ys = length xs" using c by simp_all
  then show "list_all (\<lambda>x. map_mutation_verify x = Ok ()) ys" using c by (auto simp: list_all_iff fine_mutation_def)
  show "map_edits ys m = (if \<forall>x\<in>set xs. map_expects x m then Some (map_batch xs m) else None)"
    using map_edits_batch [OF d] map_batch_set [OF d s(1)] c s by simp
qed

section \<open>Outcomes over a provider\<close>

definition map_universe ::
  "(string \<Rightarrow> string) \<Rightarrow> (string \<Rightarrow> map_node option) \<Rightarrow> map_tree set \<Rightarrow> map_node_body set" where
  "map_universe sha held T = mn_body ` ran held \<union> map_body_of sha ` T"

lemma map_universe_held: "map_held_ok sha (map_universe sha held T) held"
  by (auto simp: map_held_ok_def map_universe_def ran_def)

lemma map_universe_known: "opt_trie sha t \<Longrightarrow> opt_tsubtrees t \<subseteq> T \<Longrightarrow> opt_map_known sha (map_universe sha held T) t"
  by (auto simp: opt_map_known_iff map_universe_def)

context live_map_resolver
begin

lemma apply_map_internal_outcome:
  assumes "sha_ok sha" "opt_trie sha t" "map_holds sha (contents r) (opt_tsubtrees t)"
    and "list_all (\<lambda>x. map_mutation_verify x = Ok ()) ys" "length (opt_entries t) + length ys \<le> MAX_EXACT_INTEGER"
    and "inj_on (map_node_id sha) (map_universe sha (contents r) (opt_tsubtrees t \<union> trail sha ys t))"
  shows "case rfold (trie_edit sha) ys t of
      Inl e \<Rightarrow> apply_map_internal sha load (map_root_of sha t) ys (map_overlay_new r) = Err e
    | Inr u \<Rightarrow> \<exists>ov. apply_map_internal sha load (map_root_of sha t) ys (map_overlay_new r) = Ok (map_root_of sha u, ov)"
proof -
  let ?U = "map_universe sha (contents r) (opt_tsubtrees t \<union> trail sha ys t)"
  have known: "opt_map_known sha ?U t" using assms(2) by (rule map_universe_known) simp
  have ov: "map_overlay_ok sha ?U contents (map_overlay_new r)"
    by (rule map_overlay_new_ok [where contents = contents, OF map_universe_held])
  have trail: "map_body_of sha ` trail sha ys t \<subseteq> ?U" by (auto simp: map_universe_def)
  have "\<exists>y. load object_id r = Ok y" for object_id r using load_live [of object_id r] by blast
  then have "map_ready load sha contents (map_overlay_new r) (opt_tsubtrees t) (length (opt_entries t) + length ys)"
    using assms(3,5) by (simp add: map_ready_def map_available_def map_holds_def map_overlay_new_def)
  from apply_map_internal_refines [OF assms(6,1,4) ov known trail this order.refl, of True]
  show ?thesis by (cases "rfold (trie_edit sha) ys t") (simp_all add: simulates_def)
qed

end

section \<open>Accepted batch proofs\<close>

lemma verify_map_apply_known:
  assumes "inj_on (map_node_id sha) U" "sha_ok sha" "opt_map_known sha U t" "mn_body ` set (mpf_nodes prf) \<subseteq> U"
    and "canonical_mutations sha xs = Ok ys" "map_body_of sha ` trail sha ys t \<subseteq> U"
    and "verify_map_apply sha (map_root_of sha t) xs prf = Ok verified"
  shows "\<exists>u. verified = \<lparr>vma_parent = map_root_of sha t, vma_result = map_root_of sha u, vma_mutations = ys,
        vma_mutation_digest = map_mutation_digest sha ys\<rparr>
    \<and> rfold (trie_edit sha) ys t = Ok u"
proof -
  from assms(5,7) obtain indexed result ov where
    new: "index_map_proof_nodes sha ''map_apply_duplicate_node'' (mpf_nodes prf)
      (MAX_MAP_PATH_NODES * MAX_MAP_MUTATIONS_PER_APPLY * 2) = Ok indexed"
    and run: "apply_map_internal sha apply_proof_map_load (map_root_of sha t) ys
      (map_overlay_new \<lparr>am_nodes = indexed, am_requested = {||}\<rparr>) = Ok (result, ov)"
    and got: "verified = \<lparr>vma_parent = map_root_of sha t, vma_result = result, vma_mutations = ys,
      vma_mutation_digest = map_mutation_digest sha ys\<rparr>"
    by (auto simp: verify_map_apply_def apply_proof_map_new_def split: if_splits)
  have "map_held_ok sha U (fmlookup (am_nodes \<lparr>am_nodes = indexed, am_requested = {||}\<rparr>))"
    using index_map_proof_nodes_held [OF new assms(4)] by simp
  from map_overlay_new_ok [where contents = "\<lambda>r. fmlookup (am_nodes r)", OF this]
  have "map_overlay_ok sha U (\<lambda>r. fmlookup (am_nodes r)) (map_overlay_new \<lparr>am_nodes = indexed, am_requested = {||}\<rparr>)" .
  from map_apply_proof_resolver.apply_map_internal_refines
    [OF assms(1,2) canonical_edits(2) [OF assms(5)] this assms(3,6), of False]
  have "rbind (rfold (trie_edit sha) ys t) (\<lambda>u. Ok (map_root_of sha u)) = Ok result"
    using run by (simp add: simulates_def)
  with got show ?thesis by auto
qed

end
