(* ===== verification/Map_Persist.thy ===== *)
theory Map_Persist
  imports Map_Commit
begin

text \<open>
  The nodes a map mutation hands to the provider. Two known tries with the same identity are equal,
  so the walk over pending nodes can be followed on tries. It stops at a node that the provider
  already has, so it relies on the provider's store being closed under children; it then returns
  nodes that complete the result trie, all of them new to the store.
\<close>

lemma map_trie_id_inject:
  assumes "inj_on (map_node_id sha) U" "map_known sha U s" "map_known sha U t" "trie_id sha s = trie_id sha t"
  shows "s = t"
  using assms(2-)
proof (induction s arbitrary: t)
  case (Entry k v)
  have "map_body_of sha (map_tree.Entry k v) = map_body_of sha t"
    using inj_onD [OF assms(1) Entry(3) [unfolded trie_id_def]] map_known_self [OF Entry(1)] map_known_self [OF Entry(2)] by blast
  then show ?case by (cases t) auto
next
  case (Split d l r)
  have "map_body_of sha (map_tree.Split d l r) = map_body_of sha t"
    using inj_onD [OF assms(1) Split.prems(3) [unfolded trie_id_def]] map_known_self [OF Split.prems(1)] map_known_self [OF Split.prems(2)] by blast
  then obtain l' r' where t: "t = map_tree.Split d l' r'" "trie_id sha l = trie_id sha l'" "trie_id sha r = trie_id sha r'"
    by (cases t) (auto simp: map_ref_of_def)
  with Split.IH map_known_Split [OF Split.prems(1)] map_known_Split [OF Split.prems(2) [unfolded t(1)]] show ?case by simp
qed

definition map_closed_store ::
  "(string \<Rightarrow> string) \<Rightarrow> map_node_body set \<Rightarrow> (string \<Rightarrow> map_node option) \<Rightarrow> bool" where
  "map_closed_store sha U held \<longleftrightarrow>
     (\<forall>s. map_known sha U s \<and> held (trie_id sha s) = Some (map_node_of sha s) \<longrightarrow> map_holds sha held (tsubtrees s))"

fun tkids :: "map_tree \<Rightarrow> map_tree list" where
  "tkids (Entry _ _) = []"
| "tkids (Split _ l r) = [l, r]"

lemma map_known_kids: "map_known sha U s \<Longrightarrow> c \<in> set (tkids s) \<Longrightarrow> map_known sha U c"
  by (cases s) (auto simp: map_known_def)

lemma tsubtrees_kids: "tsubtrees t = insert t (\<Union>c\<in>set (tkids t). tsubtrees c)"
  by (cases t) auto

text \<open>The walk's invariant: what has been visited is held, or is among the new nodes and its
  children are visited or still on the stack.\<close>

definition map_walk_ok ::
  "(string \<Rightarrow> string) \<Rightarrow> (string \<Rightarrow> map_node option) \<Rightarrow> map_tree set \<Rightarrow> map_tree set
   \<Rightarrow> map_tree set \<Rightarrow> (string, map_node) fmap \<Rightarrow> bool" where
  "map_walk_ok sha held T todo V made \<longleftrightarrow>
     (\<forall>s\<in>V. held (trie_id sha s) = Some (map_node_of sha s)
        \<or> fmlookup made (trie_id sha s) = Some (map_node_of sha s) \<and> set (tkids s) \<subseteq> V \<union> todo)
     \<and> (\<forall>k node. fmlookup made k = Some node \<longrightarrow>
          held k = None \<and> (\<exists>s\<in>T. k = trie_id sha s \<and> node = map_node_of sha s))"

lemma map_walk_held:
  "map_walk_ok sha held T (insert t todo) V made \<Longrightarrow> t \<in> V \<or> held (trie_id sha t) = Some (map_node_of sha t) \<Longrightarrow>
   map_walk_ok sha held T todo (insert t V) made"
  by (auto simp: map_walk_ok_def)

lemma map_walk_made:
  assumes "map_walk_ok sha held T (insert t todo) V made" "held (trie_id sha t) = None" "t \<in> T"
    and "\<And>s. s \<in> T \<Longrightarrow> trie_id sha s = trie_id sha t \<Longrightarrow> s = t" "V \<subseteq> T"
  shows "map_walk_ok sha held T (set (tkids t) \<union> todo) (insert t V) (fmupd (trie_id sha t) (map_node_of sha t) made)"
  unfolding map_walk_ok_def
proof (intro conjI ballI allI impI)
  fix s assume s: "s \<in> insert t V"
  show "held (trie_id sha s) = Some (map_node_of sha s)
      \<or> fmlookup (fmupd (trie_id sha t) (map_node_of sha t) made) (trie_id sha s) = Some (map_node_of sha s)
        \<and> set (tkids s) \<subseteq> insert t V \<union> (set (tkids t) \<union> todo)"
  proof (cases "s = t")
    case True
    then show ?thesis by auto
  next
    case False
    then have "s \<in> V" "trie_id sha s \<noteq> trie_id sha t" using s assms(4,5) by auto
    with assms(1) show ?thesis unfolding map_walk_ok_def by fastforce
  qed
next
  fix k node assume "fmlookup (fmupd (trie_id sha t) (map_node_of sha t) made) k = Some node"
  then show "held k = None" "\<exists>s\<in>T. k = trie_id sha s \<and> node = map_node_of sha s"
    using assms(1-3) unfolding map_walk_ok_def by (auto split: if_splits)
qed

lemma map_walk_finished:
  assumes "map_walk_ok sha held T {} V made" "map_closed_store sha U held" "map_known sha U t" "t \<in> V"
  shows "map_holds sha (held ++ fmlookup made) (tsubtrees t)"
  using assms(3,4)
proof (induction t rule: measure_induct_rule [of size])
  case (less t)
  have none: "fmlookup made k = None" if "held k = Some node" for k node
    using assms(1) that unfolding map_walk_ok_def by (metis option.distinct(1) option.exhaust)
  show ?case
  proof (cases "held (trie_id sha t) = Some (map_node_of sha t)")
    case True
    then have "map_holds sha held (tsubtrees t)" using assms(2) less.prems(1) by (auto simp: map_closed_store_def)
    then show ?thesis using none by (auto simp: map_holds_def map_add_def split: option.split)
  next
    case False
    with assms(1) less.prems(2) have m: "fmlookup made (trie_id sha t) = Some (map_node_of sha t)" "set (tkids t) \<subseteq> V"
      by (auto simp: map_walk_ok_def)
    have "map_holds sha (held ++ fmlookup made) (tsubtrees c)" if "c \<in> set (tkids t)" for c
    proof (rule less.IH [OF _ map_known_kids [OF less.prems(1) that]])
      show "size c < size t" using that by (cases t) auto
      show "c \<in> V" using that m(2) by blast
    qed
    then show ?thesis using m(1) unfolding map_holds_def by (subst tsubtrees_kids) auto
  qed
qed

section \<open>The walk\<close>

lemma map_overlay_ok_resolver:
  "map_overlay_ok sha U contents ov \<Longrightarrow> contents r = contents (mo_resolver ov) \<Longrightarrow>
   map_overlay_ok sha U contents (ov\<lparr>mo_resolver := r\<rparr>)"
  by (simp add: map_overlay_ok_def)

definition forest_size :: "map_tree list \<Rightarrow> nat" where
  "forest_size ts = sum_list (map (\<lambda>t. 2 * size t) ts) + length ts"

lemma forest_size_kids: "forest_size (tkids t @ ts) < forest_size (t # ts)"
  by (cases t) (auto simp: forest_size_def)

context map_resolver
begin

text \<open>One step of the walk at the reference of a known trie that is pending and not visited.\<close>

lemma collect_created_map_pending:
  assumes "inj_on (map_node_id sha) U" "map_overlay_ok sha U contents ov" "map_known sha U t"
    and "trie_id sha t |\<notin>| visited" "trie_id sha t |\<in>| fmdom (mo_pending ov)"
    and "collect_created_map sha load (map_ref_of sha t # stack) visited made ov = Ok res"
  obtains (held) ov1 where "contents (mo_resolver ov) (trie_id sha t) = Some (map_node_of sha t)"
      "map_overlay_ok sha U contents ov1" "mo_pending ov1 = mo_pending ov"
      "contents (mo_resolver ov1) = contents (mo_resolver ov)"
      "collect_created_map sha load stack (finsert (trie_id sha t) visited) made ov1 = Ok res"
  | (fresh) ov1 where "contents (mo_resolver ov) (trie_id sha t) = None"
      "map_overlay_ok sha U contents ov1" "mo_pending ov1 = mo_pending ov"
      "contents (mo_resolver ov1) = contents (mo_resolver ov)"
      "collect_created_map sha load (map (map_ref_of sha) (tkids t) @ stack) (finsert (trie_id sha t) visited)
         (fmupd (trie_id sha t) (map_node_of sha t) made) ov1 = Ok res"
proof -
  have u: "map_body_of sha t \<in> U" using map_known_self [OF assms(3)] by simp
  from assms(5) obtain node where p: "fmlookup (mo_pending ov) (trie_id sha t) = Some node" by (auto elim: fmdomE)
  with assms(2) map_entry_ok_trie [OF _ assms(1) u] have n: "node = map_node_of sha t" by (auto simp: map_overlay_ok_def)
  note run = assms(6) [unfolded collect_created_map.simps(2) [of sha load "map_ref_of sha t" stack visited made ov]]
  show thesis
  proof (cases "fmlookup (mo_loaded ov) (trie_id sha t)")
    case (Some loaded)
    with assms(2) have "map_entry_ok sha U (trie_id sha t) loaded" "contents (mo_resolver ov) (trie_id sha t) = Some loaded"
      by (auto simp: map_overlay_ok_def)
    moreover from this(1) have "loaded = map_node_of sha t" using map_entry_ok_trie [OF _ assms(1) u] by blast
    moreover have "collect_created_map sha load stack (finsert (trie_id sha t) visited) made ov = Ok res"
      using assms(4) run p n Some by (simp add: Let_def split: if_splits)
    ultimately show thesis using held [of ov] assms(2) by simp
  next
    case None
    with run p n assms(4) obtain found r1 where l: "load (trie_id sha t) (mo_resolver ov) = Ok (found, r1)"
      by (auto simp: Let_def split: if_splits)
    have a: "found = contents (mo_resolver ov) (trie_id sha t)" "contents r1 = contents (mo_resolver ov)"
      using load_answers [OF l] by simp_all
    note ok = map_overlay_ok_resolver [OF assms(2) a(2)]
    show thesis
    proof (cases found)
      case s: (Some existing)
      with run p n None assms(4) l have "existing = map_node_of sha t"
        "collect_created_map sha load stack (finsert (trie_id sha t) visited) made (ov\<lparr>mo_resolver := r1\<rparr>) = Ok res"
        by (auto simp: Let_def split: if_splits)
      with s a ok held [of "ov\<lparr>mo_resolver := r1\<rparr>"] show thesis by simp
    next
      case s: None
      with run p n None assms(4) l
      have "collect_created_map sha load (map (map_ref_of sha) (tkids t) @ stack) (finsert (trie_id sha t) visited)
         (fmupd (trie_id sha t) (map_node_of sha t) made) (ov\<lparr>mo_resolver := r1\<rparr>) = Ok res"
        by (cases t) (auto simp: Let_def split: if_splits)
      with s a ok fresh [of "ov\<lparr>mo_resolver := r1\<rparr>"] show thesis by simp
    qed
  qed
qed

lemma collect_created_map_walk:
  assumes "inj_on (map_node_id sha) U" "\<forall>s\<in>T. map_known sha U s"
    and T: "\<forall>s\<in>T. trie_id sha s |\<in>| pending \<or> held (trie_id sha s) = Some (map_node_of sha s)"
    and "map_overlay_ok sha U contents ov" "contents (mo_resolver ov) = held" "fmdom (mo_pending ov) = pending"
    and "\<forall>t\<in>set ts. tsubtrees t \<subseteq> T" "V \<subseteq> T" "fset visited = trie_id sha ` V"
    and "map_walk_ok sha held T (set ts) V made"
    and "collect_created_map sha load (map (map_ref_of sha) ts) visited made ov = Ok (made', ov')"
  shows "\<exists>V'. map_walk_ok sha held T {} V' made' \<and> V \<union> set ts \<subseteq> V'"
  using assms(4-)
proof (induction "forest_size ts" arbitrary: ts V visited made ov rule: less_induct)
  case less
  show ?case
  proof (cases ts)
    case Nil
    then show ?thesis using less.prems(7,8) by (auto simp: collect_created_map.simps)
  next
    case (Cons t ts1)
    let ?id = "trie_id sha t"
    have t: "t \<in> T" using less.prems(4) Cons tsubtrees_self by auto
    with assms(2) have t: "t \<in> T" "map_known sha U t" by auto
    have same: "s = t" if "s \<in> T" "trie_id sha s = ?id" for s
      using map_trie_id_inject [OF assms(1) _ t(2) that(2)] assms(2) that(1) by blast
    have seen: "?id |\<in>| visited \<longleftrightarrow> t \<in> V" using less.prems(5,6) same by auto
    have lt: "forest_size ts1 < forest_size ts" using Cons by (simp add: forest_size_def)
    have w: "map_walk_ok sha held T (insert t (set ts1)) V made" using less.prems(7) Cons by simp
    have ts1: "\<forall>t\<in>set ts1. tsubtrees t \<subseteq> T" using less.prems(4) Cons by simp
    have V: "insert t V \<subseteq> T" "fset (finsert ?id visited) = trie_id sha ` insert t V" using less.prems(5,6) t(1) by auto
    have run: "collect_created_map sha load (map_ref_of sha t # map (map_ref_of sha) ts1) visited made ov = Ok (made', ov')"
      using less.prems(8) Cons by simp
    have skip: ?thesis if "map_walk_ok sha held T (set ts1) (insert t V) made"
      "collect_created_map sha load (map (map_ref_of sha) ts1) (finsert ?id visited) made ov1 = Ok (made', ov')"
      "map_overlay_ok sha U contents ov1" "contents (mo_resolver ov1) = held" "fmdom (mo_pending ov1) = pending" for ov1
      using less.hyps [OF lt that(3,4,5) ts1 V that(1,2)] Cons by auto
    consider "t \<in> V" | "t \<notin> V" "?id |\<notin>| pending" | "t \<notin> V" "?id |\<in>| pending" by blast
    then show ?thesis
    proof cases
      case 1
      then have "finsert ?id visited = visited" using seen by auto
      with skip [of ov] map_walk_held [OF w] run less.prems(1-3) 1 seen show ?thesis by (simp add: collect_created_map.simps(2))
    next
      case 2
      then have "held ?id = Some (map_node_of sha t)" using T t(1) by auto
      moreover have "fmlookup (mo_pending ov) ?id = None" using 2 less.prems(3) by (auto simp: fmdom_notD)
      ultimately show ?thesis
        using skip [of ov] map_walk_held [OF w] run less.prems(1-3) 2 seen by (simp add: collect_created_map.simps(2))
    next
      case 3
      then have pend: "?id |\<notin>| visited" "?id |\<in>| fmdom (mo_pending ov)" using less.prems(3) seen by simp_all
      show ?thesis
      proof (cases rule: collect_created_map_pending [OF assms(1) less.prems(1) t(2) pend run, case_names held fresh])
        case (held ov1)
        then show ?thesis using skip [of ov1] map_walk_held [OF w] less.prems(2,3) by simp
      next
        case (fresh ov1)
        have lt2: "forest_size (tkids t @ ts1) < forest_size ts" using Cons forest_size_kids [of t ts1] by simp
        have sub: "\<forall>c\<in>set (tkids t @ ts1). tsubtrees c \<subseteq> T" using less.prems(4) Cons by (cases t) auto
        have w1: "map_walk_ok sha held T (set (tkids t @ ts1)) (insert t V) (fmupd ?id (map_node_of sha t) made)"
          using map_walk_made [OF w _ t(1) same less.prems(5)] fresh(1) less.prems(2) by simp
        have "fmdom (mo_pending ov1) = pending" "contents (mo_resolver ov1) = held" using fresh less.prems(2,3) by simp_all
        from less.hyps [OF lt2 fresh(2) this(2,1) sub V w1] fresh(5) Cons show ?thesis by auto
      qed
    qed
  qed
qed

lemma collect_for_map_root:
  assumes "inj_on (map_node_id sha) U" "map_closed_store sha U held" "opt_map_known sha U t"
    and "\<forall>s\<in>opt_tsubtrees t. trie_id sha s |\<in>| fmdom (mo_pending ov) \<or> held (trie_id sha s) = Some (map_node_of sha s)"
    and "map_overlay_ok sha U contents ov" "contents (mo_resolver ov) = held"
    and "collect_reachable_created_map_nodes sha load (map_root_of sha t) ov = Ok objects"
  shows "\<exists>new. objects = values_of new \<and> map_holds sha (held ++ fmlookup new) (opt_tsubtrees t)
    \<and> (\<forall>k node. fmlookup new k = Some node \<longrightarrow>
          held k = None \<and> (\<exists>s\<in>opt_tsubtrees t. k = trie_id sha s \<and> node = map_node_of sha s))"
proof (cases t)
  case None
  then show ?thesis using assms(7)
    by (auto simp: collect_reachable_created_map_nodes_def root_reference_def map_root_empty_def map_holds_def intro!: exI [of _ fmempty])
next
  case (Some u)
  from assms(7) Some obtain made ov' where
    run: "collect_created_map sha load (map (map_ref_of sha) [u]) {||} fmempty ov = Ok (made, ov')"
    and obj: "objects = values_of made" by (auto simp: collect_reachable_created_map_nodes_def)
  have u: "map_known sha U u" using assms(3) Some by (simp add: opt_map_known_def)
  then have all: "\<forall>s\<in>tsubtrees u. map_known sha U s"
    using trie_subtrees tsubtrees_trans by (fastforce simp: map_known_def)
  have "map_walk_ok sha held (tsubtrees u) (set [u]) {} fmempty" by (simp add: map_walk_ok_def)
  from collect_created_map_walk [OF assms(1) all _ assms(5,6) refl _ _ _ this run] assms(4) Some
  obtain V where V: "map_walk_ok sha held (tsubtrees u) {} V made" "u \<in> V" by auto
  from map_walk_finished [OF V(1) assms(2) u V(2)] V(1) obj Some show ?thesis by (auto simp: map_walk_ok_def)
qed

lemma apply_map_mutations_commits:
  assumes "inj_on (map_node_id sha) U" "sha_ok sha" "map_held_ok sha U (contents r)" "opt_map_known sha U t"
    and store: "map_holds sha (contents r) (opt_tsubtrees t)" "map_closed_store sha U (contents r)"
    and batch: "canonical_mutations sha xs = Ok ys" "map_body_of sha ` trail sha ys t \<subseteq> U"
    and run: "apply_map_mutations sha load (map_root_of sha t) xs r = Ok out"
  shows "\<exists>u new. rfold (trie_edit sha) ys t = Ok u
    \<and> vma_parent (mao_verified out) = map_root_of sha t \<and> vma_result (mao_verified out) = map_root_of sha u
    \<and> mao_objects out = values_of new \<and> map_holds sha (contents r ++ fmlookup new) (opt_tsubtrees u)
    \<and> (\<forall>k node. fmlookup new k = Some node \<longrightarrow> contents r k = None)"
proof -
  from run batch(1) obtain root ov objects verified where
    int: "apply_map_internal sha load (map_root_of sha t) ys (map_overlay_new r) = Ok (root, ov)"
    and col: "collect_reachable_created_map_nodes sha load root ov = Ok objects"
    and ver: "verify_map_apply sha (map_root_of sha t) ys \<lparr>mpf_parent = map_root_of sha t, mpf_result = root,
      mpf_mutations = ys, mpf_nodes = values_of (mo_loaded ov)\<rparr> = Ok verified"
    and out: "mao_verified out = verified" "mao_objects out = objects"
    by (auto simp: apply_map_mutations_def Let_def)
  have ok: "map_overlay_ok sha U contents (map_overlay_new r)"
    by (rule map_overlay_new_ok [where contents = contents, OF assms(3)])
  note v = canonical_edits(2) [OF batch(1)]
  from apply_map_internal_refines [OF assms(1,2) v ok assms(4) batch(2), of False] int
  obtain u where u: "rfold (trie_edit sha) ys t = Ok u" "root = map_root_of sha u" "map_overlay_ok sha U contents ov"
    "map_overlay_le contents (map_overlay_new r) ov" "map_created sha ov (opt_tsubtrees u - opt_tsubtrees t)"
    by (fastforce simp: simulates_def)
  have t: "opt_trie sha t" "map_body_of sha ` opt_tsubtrees t \<subseteq> U" using assms(4) by (simp_all add: opt_map_known_iff)
  have "opt_tsubtrees u \<subseteq> opt_tsubtrees t \<union> trail sha ys t" using trail_result [OF u(1)] .
  then have "map_body_of sha ` opt_tsubtrees u \<subseteq> map_body_of sha ` (opt_tsubtrees t \<union> trail sha ys t)" by (rule image_mono)
  then have k: "opt_map_known sha U u"
    using trie_edits_Ok [OF assms(2) t(1) v u(1)] t(2) batch(2) unfolding opt_map_known_iff image_Un by blast
  have res: "contents (mo_resolver ov) = contents r" using u(4) by (simp add: map_overlay_le_def map_overlay_new_def)
  have avail: "\<forall>s\<in>opt_tsubtrees u. trie_id sha s |\<in>| fmdom (mo_pending ov) \<or> contents r (trie_id sha s) = Some (map_node_of sha s)"
    using u(5) store(1) by (auto simp: map_created_def map_holds_def)
  from collect_for_map_root [OF assms(1) store(2) k avail u(3) res col [unfolded u(2)]]
  obtain new where new: "objects = values_of new" "map_holds sha (contents r ++ fmlookup new) (opt_tsubtrees u)"
    "\<forall>k node. fmlookup new k = Some node \<longrightarrow> contents r k = None" by blast
  have "vma_parent verified = map_root_of sha t \<and> vma_result verified = map_root_of sha u"
    using ver u(2) by (auto simp: verify_map_apply_def split: if_splits)
  with new u(1) out show ?thesis by blast
qed

end

end
