(* ===== verification/Map_Audit.thy ===== *)
theory Map_Audit
  imports Map_Persist
begin

text \<open>
  The complete audit. Nothing is assumed of the resolver or of the root: when the audit accepts, the
  nodes it has loaded form a well-formed trie, the root is the root of that trie, and the audit
  returns its entries in order. The constraints collected along each path are what makes the
  branches partition the hashes.
\<close>

fun tnodes :: "(string \<Rightarrow> string) \<Rightarrow> map_tree \<Rightarrow> map_node list" where
  "tnodes sha (Entry k v) = [map_node_of sha (Entry k v)]"
| "tnodes sha (Split d l r) = map_node_of sha (Split d l r) # tnodes sha l @ tnodes sha r"

lemma set_tnodes: "set (tnodes sha t) = map_node_of sha ` tsubtrees t"
  by (induction t) auto

text \<open>A reference with constraints is the reference of a trie whose keys meet them.\<close>

definition audited :: "(string \<Rightarrow> string) \<Rightarrow> map_ref \<times> path_constraint list \<Rightarrow> map_tree \<Rightarrow> bool" where
  "audited sha item t \<longleftrightarrow> trie sha t \<and> fst item = map_ref_of sha t
     \<and> (\<forall>k\<in>tkeys t. verify_constraints (key_digest sha k) (snd item) = Ok ())"

lemma loaded_ref:
  assumes "load_resolved_map_node sha load reference r = Ok (node, r')" "mn_body node = map_body_of sha t"
  shows "node = map_node_of sha t" "reference = map_ref_of sha t"
proof -
  from assms(1) have n: "map_node_verify sha node = Ok ()" "mn_object_id node = mr_object_id reference"
    "map_node_entries node = Ok (mr_entries reference)"
    by (auto simp: load_resolved_map_node_def split: if_splits)
  from n(1) assms(2) have "mn_object_id node = trie_id sha t" "mn_node_version node = MAP_NODE_VERSION"
    by (auto simp: map_node_verify_def trie_id_def split: if_splits)
  with assms(2) show node: "node = map_node_of sha t" by (simp add: map_node_of_def map_node.equality)
  with n(3) have "mr_entries reference = length (tentries t)" using map_node_entries_sound by metis
  with n(2) node show "reference = map_ref_of sha t" by (simp add: map_ref_of_def map_ref.equality)
qed

lemma loaded_body:
  "load_resolved_map_node sha load reference r = Ok (node, r') \<Longrightarrow> map_body_verify sha (mn_body node) = Ok ()"
  by (auto simp: load_resolved_map_node_def map_node_verify_def split: if_splits)

lemma verify_constraint_iff:
  "valid_digest h \<Longrightarrow> verify_constraint h c = Ok u \<Longrightarrow> pc_depth c < 256 \<Longrightarrow>
   cleared h (pc_depth c) = pc_prefix c \<and> hbit h (pc_depth c) = pc_right c"
  by (auto simp: verify_constraint_def hash_matches_prefix_Ok hash_bit_Ok split: if_splits)

lemma verify_constraints_snoc:
  "verify_constraints h (cs @ [c]) = Ok () \<longleftrightarrow> verify_constraints h cs = Ok () \<and> verify_constraint h c = Ok ()"
  by (auto simp: verify_constraints_def)

text \<open>Two audited children make an audited branch.\<close>

lemma audited_branch:
  assumes "sha_ok sha" "load_resolved_map_node sha load reference r = Ok (node, r')"
    and "mn_body node = MapBranch d prefix left right"
    and "audited sha (left, cs @ [\<lparr>pc_depth = d, pc_prefix = prefix, pc_right = False\<rparr>]) t1"
    and "audited sha (right, cs @ [\<lparr>pc_depth = d, pc_prefix = prefix, pc_right = True\<rparr>]) t2"
  shows "audited sha (reference, cs) (Split d t1 t2)" "node = map_node_of sha (Split d t1 t2)"
proof -
  have d: "d < 256" using loaded_body [OF assms(2)] assms(3) by (auto simp: map_body_verify_def split: if_splits)
  note v = key_digest_valid [OF assms(1)]
  have l: "cleared (key_digest sha k) d = prefix \<and> \<not> hbit (key_digest sha k) d" if "k \<in> tkeys t1" for k
    using verify_constraint_iff [OF v, of k "\<lparr>pc_depth = d, pc_prefix = prefix, pc_right = False\<rparr>"] assms(4) that d
    by (auto simp: audited_def verify_constraints_snoc)
  have r: "cleared (key_digest sha k) d = prefix \<and> hbit (key_digest sha k) d" if "k \<in> tkeys t2" for k
    using verify_constraint_iff [OF v, of k "\<lparr>pc_depth = d, pc_prefix = prefix, pc_right = True\<rparr>"] assms(5) that d
    by (auto simp: audited_def verify_constraints_snoc)
  have p: "prefix = cleared (key_digest sha (first_key t1)) d" using l [OF first_key_in] by simp
  have agree: "agree d (key_digest sha k) (key_digest sha (first_key t1))" if k: "k \<in> tkeys t1 \<union> tkeys t2" for k
  proof -
    have "cleared (key_digest sha k) d = cleared (key_digest sha (first_key t1)) d" using k l r p by blast
    then show ?thesis by (rule cleared_eq_iff [OF v v d, THEN iffD1])
  qed
  have trie: "trie sha (Split d t1 t2)" using assms(4,5) d l r agree by (auto simp: audited_def)
  have refs: "left = map_ref_of sha t1" "right = map_ref_of sha t2" using assms(4,5) by (simp_all add: audited_def)
  have body: "mn_body node = map_body_of sha (Split d t1 t2)" using assms(3) p refs by simp
  show "node = map_node_of sha (Split d t1 t2)" using loaded_ref(1) [OF assms(2) body] .
  show "audited sha (reference, cs) (Split d t1 t2)"
    using loaded_ref(2) [OF assms(2) body] trie assms(4,5) by (auto simp: audited_def verify_constraints_snoc)
qed

lemma audit_map_stack_sound:
  assumes "audit_map_stack sha load stack s r = Ok (s', r')" "sha_ok sha"
  shows "\<exists>ts. list_all2 (audited sha) stack ts
    \<and> as_entries s' = as_entries s @ positions sha (concat (map tentries ts))
    \<and> as_objects s' = as_objects s @ concat (map (tnodes sha) ts)"
  using assms
proof (induction sha load stack s r rule: audit_map_stack.induct)
  case (1 sha load s r)
  then show ?case by (simp add: audit_map_stack.simps positions_def)
next
  case (2 sha load reference cs stack s r)
  note run = "2.prems"(1) [unfolded audit_map_stack.simps(2) [of sha load reference cs stack s r]]
  then have fresh: "\<not> mr_object_id reference |\<in>| as_visited s" by (auto split: if_splits)
  let ?s = "s\<lparr>as_visited := finsert (mr_object_id reference) (as_visited s)\<rparr>"
  from run fresh obtain node r1 where l: "load_resolved_map_node sha load reference r = Ok (node, r1)"
    by (auto simp: Let_def)
  show ?case
  proof (cases "mn_body node")
    case (MapLeaf key key_hash v)
    with run fresh l obtain s1 where leaf: "audit_leaf cs key key_hash v ?s = Ok s1"
      and rest: "audit_map_stack sha load stack (s1\<lparr>as_objects := as_objects s1 @ [node]\<rparr>) r1 = Ok (s', r')"
      by (auto simp: Let_def)
    from loaded_body [OF l] MapLeaf have k: "validate_key key = Ok ()" "key_hash = key_digest sha key" "coll_validate_content_id v = Ok ()"
      by (auto simp: map_body_verify_def map_key_hash_Ok split: if_splits)
    then have body: "mn_body node = map_body_of sha (Entry key v)" using MapLeaf by simp
    note n = loaded_ref [OF l body]
    have s1: "verify_constraints (key_digest sha key) cs = Ok ()" "as_objects s1 = as_objects s"
      "as_entries s1 = as_entries s @ positions sha [(key, v)]"
      using leaf k(2) by (auto simp: audit_leaf_def positions_def split: if_splits)
    from "2.IH"(1) [OF fresh refl l refl MapLeaf leaf rest "2.prems"(2)] obtain ts where ts: "list_all2 (audited sha) stack ts"
      "as_entries s' = as_entries s1 @ positions sha (concat (map tentries ts))"
      "as_objects s' = (as_objects s1 @ [node]) @ concat (map (tnodes sha) ts)" by auto
    have "audited sha (reference, cs) (Entry key v)" using n(2) k s1(1) by (simp add: audited_def)
    with ts s1 n(1) show ?thesis by (intro exI [of _ "Entry key v # ts"]) (simp add: positions_def)
  next
    case (MapBranch d prefix left right)
    let ?cl = "cs @ [\<lparr>pc_depth = d, pc_prefix = prefix, pc_right = False\<rparr>]"
      and ?cr = "cs @ [\<lparr>pc_depth = d, pc_prefix = prefix, pc_right = True\<rparr>]"
    from MapBranch run fresh l have vc: "verify_constraints prefix cs = Ok ()" "depth_increases cs d = Ok ()"
      and rest: "audit_map_stack sha load ((left, ?cl) # (right, ?cr) # stack) (?s\<lparr>as_objects := as_objects ?s @ [node]\<rparr>) r1 = Ok (s', r')"
      by (auto simp: Let_def)
    from "2.IH"(2) [OF fresh refl l refl MapBranch vc rest "2.prems"(2)] obtain ts' where
      ts': "list_all2 (audited sha) ((left, ?cl) # (right, ?cr) # stack) ts'"
      "as_entries s' = as_entries s @ positions sha (concat (map tentries ts'))"
      "as_objects s' = as_objects s @ [node] @ concat (map (tnodes sha) ts')" by auto
    then obtain t1 t2 ts where ts: "ts' = t1 # t2 # ts" "audited sha (left, ?cl) t1" "audited sha (right, ?cr) t2"
      "list_all2 (audited sha) stack ts" by (auto simp: list_all2_Cons1)
    note b = audited_branch [OF "2.prems"(2) l MapBranch ts(2,3)]
    show ?thesis using ts ts' b by (intro exI [of _ "Split d t1 t2 # ts"]) simp
  qed
qed

lemma audit_map_sound_tree:
  assumes "sha_ok sha" "audit_map sha load root r = Ok out"
  shows "\<exists>t. opt_trie sha t \<and> root = map_root_of sha t \<and> ma_entries out = positions sha (opt_entries t)
    \<and> set (ma_objects out) = map_node_of sha ` opt_tsubtrees t"
proof (cases "root_reference root")
  case None
  with assms(2) have "root = map_root_empty" "out = \<lparr>ma_entries = [], ma_objects = []\<rparr>"
    by (auto simp: audit_map_def root_reference_def map_root_verify_def map_root_empty_def split: if_splits)
  then show ?thesis by (intro exI [of _ None]) (simp add: positions_def)
next
  case (Some reference)
  with assms(2) obtain s r' where run: "audit_map_stack sha load [(reference, [])]
      \<lparr>as_visited = {||}, as_keys = {||}, as_entries = [], as_objects = []\<rparr> r = Ok (s, r')"
    and out: "out = \<lparr>ma_entries = as_entries s, ma_objects = sort_key mn_object_id (as_objects s)\<rparr>"
    by (auto simp: audit_map_def split: if_splits)
  from audit_map_stack_sound [OF run assms(1)] obtain t where t: "audited sha (reference, []) t"
    "as_entries s = positions sha (tentries t)" "as_objects s = tnodes sha t"
    by (auto simp: list_all2_Cons1)
  have "root = map_root_of sha (Some t)"
    using Some t(1) by (auto simp: root_reference_def audited_def map_root_of_def map_ref_of_def map_root.equality)
  with t out show ?thesis by (intro exI [of _ "Some t"]) (simp add: audited_def set_tnodes)
qed

end
