(* ===== verification/Map_Build.thy ===== *)
theory Map_Build
  imports Map_Audit
begin

text \<open>
  The bottom-up build. Sorting the entries by key hash puts them in the order of the trie that holds
  them; the first bit at which the first and the last hash differ is the depth of its topmost branch,
  and the entries before the first set bit are those of its left subtrie. So the build gives the root
  and the nodes of the trie that streaming mutations reach.
\<close>

section \<open>Stored nodes\<close>

definition map_objects_ok :: "(string \<Rightarrow> string) \<Rightarrow> map_node_body set \<Rightarrow> (string, map_node) fmap \<Rightarrow> bool" where
  "map_objects_ok sha U m \<longleftrightarrow> (\<forall>k node. fmlookup m k = Some node \<longrightarrow> map_entry_ok sha U k node)"

text \<open>The store has grown by the nodes of \<open>T\<close> and nothing else.\<close>

definition map_built ::
  "(string \<Rightarrow> string) \<Rightarrow> map_tree set \<Rightarrow> (string, map_node) fmap \<Rightarrow> (string, map_node) fmap \<Rightarrow> bool" where
  "map_built sha T m m' \<longleftrightarrow>
     (\<forall>s\<in>T. fmlookup m' (trie_id sha s) = Some (map_node_of sha s))
     \<and> (\<forall>k node. fmlookup m k = Some node \<longrightarrow> fmlookup m' k = Some node)
     \<and> (\<forall>k node. fmlookup m' k = Some node \<longrightarrow>
          fmlookup m k = Some node \<or> (\<exists>s\<in>T. k = trie_id sha s \<and> node = map_node_of sha s))"

lemma map_built_refl: "map_built sha {} m m"
  by (simp add: map_built_def)

lemma map_built_trans: "map_built sha A m m1 \<Longrightarrow> map_built sha B m1 m2 \<Longrightarrow> map_built sha (A \<union> B) m m2"
  unfolding map_built_def by (metis Un_iff)

lemma store_built_trie:
  assumes "sha_ok sha" "inj_on (map_node_id sha) U" "map_known sha U t" "length (tentries t) \<le> MAX_EXACT_INTEGER"
    and "map_objects_ok sha U m"
  obtains m' where "store_built_map_node sha (map_node_of sha t) m = Ok (map_ref_of sha t, m')"
    "map_objects_ok sha U m'" "map_built sha {t} m m'"
proof -
  have t: "trie sha t" "map_body_of sha t \<in> U" using map_known_self [OF assms(3)] by simp_all
  have ok: "map_node_verify sha (map_node_of sha t) = Ok ()" "map_node_entries (map_node_of sha t) = Ok (length (tentries t))"
    using map_node_verify_trie [OF assms(1) t(1) assms(4)] map_node_entries_trie [OF assms(4)] by simp_all
  show thesis
  proof (cases "fmlookup m (trie_id sha t)")
    case None
    have "store_built_map_node sha (map_node_of sha t) m = Ok (map_ref_of sha t, fmupd (trie_id sha t) (map_node_of sha t) m)"
      using None ok by (simp add: store_built_map_node_def map_ref_of_def)
    moreover have "map_objects_ok sha U (fmupd (trie_id sha t) (map_node_of sha t) m)"
      using assms(5) map_verified_entry [OF ok(1), of U] t(2) by (auto simp: map_objects_ok_def)
    ultimately show thesis using that None by (auto simp: map_built_def)
  next
    case (Some existing)
    then have "existing = map_node_of sha t" using assms(5) map_entry_ok_trie [OF _ assms(2) t(2)] by (auto simp: map_objects_ok_def)
    with Some ok have "store_built_map_node sha (map_node_of sha t) m = Ok (map_ref_of sha t, m)"
      by (simp add: store_built_map_node_def map_ref_of_def)
    then show thesis using that assms(5) Some \<open>existing = map_node_of sha t\<close> by (auto simp: map_built_def)
  qed
qed

section \<open>Subtries\<close>

definition built_entry :: "(string \<Rightarrow> string) \<Rightarrow> string \<times> string \<Rightarrow> map_build_entry" where
  "built_entry sha e = \<lparr>be_key_hash = key_digest sha (fst e), be_key = fst e, be_value = snd e\<rparr>"

lemma built_entry_simps [simp]:
  "be_key_hash (built_entry sha e) = key_digest sha (fst e)" "be_key (built_entry sha e) = fst e" "be_value (built_entry sha e) = snd e"
  by (simp_all add: built_entry_def)

lemma hd_tentries: "fst (hd (tentries t)) = first_key t"
  by (induction t) simp_all

lemma last_tentries: "fst (last (tentries t)) \<in> tkeys t"
  using tkeys_entries [of t] last_in_set [OF tentries_ne [of t]] by blast

lemma split_built_left:
  assumes "sha_ok sha" "d < 256" "\<forall>e\<in>set xs. \<not> hbit (key_digest sha (fst e)) d" "ys \<noteq> []" "hbit (key_digest sha (fst (hd ys))) d"
  shows "split_built d (map (built_entry sha) (xs @ ys)) = Ok (length xs)"
  using assms(3)
proof (induction xs)
  case Nil
  then show ?case using assms(4,5) hash_bit_Ok [OF key_digest_valid [OF assms(1)] assms(2)] by (cases ys) simp_all
next
  case (Cons x xs)
  then show ?case using hash_bit_Ok [OF key_digest_valid [OF assms(1)] assms(2)] by simp
qed

lemma build_subtree_leaf:
  "build_map_subtree sha [built_entry sha (k, v)] m =
     rbind (map_from_body sha (map_body_of sha (Entry k v))) (\<lambda>node. store_built_map_node sha node m)"
  by (simp add: build_map_subtree.simps [of sha "[built_entry sha (k, v)]"] map_leaf_def Let_def)

text \<open>One step of the build on the entries of a branch.\<close>

lemma build_subtree_branch:
  assumes "sha_ok sha" "trie sha (Split d l r)"
    and "build_map_subtree sha (map (built_entry sha) (tentries l)) m = Ok (map_ref_of sha l, m1)"
    and "build_map_subtree sha (map (built_entry sha) (tentries r)) m1 = Ok (map_ref_of sha r, m2)"
  shows "build_map_subtree sha (map (built_entry sha) (tentries (Split d l r))) m =
    rbind (map_from_body sha (map_body_of sha (Split d l r))) (\<lambda>node. store_built_map_node sha node m2)"
proof -
  let ?es = "map (built_entry sha) (tentries (Split d l r))" and ?n = "length (tentries l)"
  let ?a = "first_key l" and ?z = "fst (last (tentries r))"
  note v = key_digest_valid [OF assms(1)]
  have d: "d < 256" using assms(2) by simp
  have ends: "be_key_hash (hd ?es) = key_digest sha ?a" "be_key_hash (last ?es) = key_digest sha ?z"
    by (simp_all add: hd_append hd_map last_map hd_tentries)
  have bits: "\<not> hbit (key_digest sha ?a) d" "hbit (key_digest sha ?z) d"
    using assms(2) first_key_in [of l] last_tentries [of r] by auto
  then have ne: "key_digest sha ?a \<noteq> key_digest sha ?z" by auto
  have "agree d (key_digest sha ?a) (key_digest sha ?z)"
    using trie_agree [OF assms(2)] last_tentries [of r] by simp
  then have fork: "common_prefix_bits (key_digest sha ?a) (key_digest sha ?z) = Ok d"
    using common_prefix_bits_Ok [OF v v] fork_depth_unique [OF _ d] bits by simp
  have clear: "\<forall>e\<in>set (tentries l). \<not> hbit (key_digest sha (fst e)) d" using assms(2) tkeys_entries [of l] by auto
  have set: "hbit (key_digest sha (fst (hd (tentries r)))) d" using assms(2) by (simp add: hd_tentries)
  have split: "split_built d ?es = Ok ?n" using split_built_left [OF assms(1) d clear tentries_ne set] by simp
  have long: "?es \<noteq> []" "length ?es \<noteq> 1" "?n \<noteq> length ?es" "?n \<noteq> 0"
    using length_tentries_pos [of l] length_tentries_pos [of r] by (auto simp del: length_greater_0_conv)
  have cut: "take ?n ?es = map (built_entry sha) (tentries l)" "drop ?n ?es = map (built_entry sha) (tentries r)" by simp_all
  show ?thesis unfolding build_map_subtree.simps [of sha ?es]
    using long ends ne fork split cut assms(3,4) normalized_hash_prefix_Ok [OF v d]
    by (simp add: Let_def map_branch_def del: tentries.simps map_append)
qed

lemma build_subtree_live:
  assumes "sha_ok sha" "inj_on (map_node_id sha) U" "map_known sha U t" "length (tentries t) \<le> MAX_EXACT_INTEGER" "map_objects_ok sha U m"
  shows "\<exists>m'. build_map_subtree sha (map (built_entry sha) (tentries t)) m = Ok (map_ref_of sha t, m')
    \<and> map_objects_ok sha U m' \<and> map_built sha (tsubtrees t) m m'"
  using assms(3-)
proof (induction t arbitrary: m)
  case (Entry k v)
  have "trie sha (map_tree.Entry k v)" using map_known_self [OF Entry(1)] by simp
  note body = map_from_body_trie [OF assms(1) this Entry(2)]
  from store_built_trie [OF assms(1,2) Entry] obtain m' where
    "store_built_map_node sha (map_node_of sha (map_tree.Entry k v)) m = Ok (map_ref_of sha (map_tree.Entry k v), m')"
    "map_objects_ok sha U m'" "map_built sha {map_tree.Entry k v} m m'" .
  with body show ?case by (simp add: build_subtree_leaf del: map_body_of.simps)
next
  case (Split d l r)
  let ?t = "map_tree.Split d l r"
  have t: "trie sha ?t" using map_known_self [OF Split.prems(1)] by simp
  have k: "map_known sha U l" "map_known sha U r" using map_known_Split [OF Split.prems(1)] by simp_all
  have n: "length (tentries l) \<le> MAX_EXACT_INTEGER" "length (tentries r) \<le> MAX_EXACT_INTEGER" using Split.prems(2) by simp_all
  from Split.IH(1) [OF k(1) n(1) Split.prems(3)] obtain m1 where
    m1: "build_map_subtree sha (map (built_entry sha) (tentries l)) m = Ok (map_ref_of sha l, m1)"
    "map_objects_ok sha U m1" "map_built sha (tsubtrees l) m m1" by blast
  from Split.IH(2) [OF k(2) n(2) m1(2)] obtain m2 where
    m2: "build_map_subtree sha (map (built_entry sha) (tentries r)) m1 = Ok (map_ref_of sha r, m2)"
    "map_objects_ok sha U m2" "map_built sha (tsubtrees r) m1 m2" by blast
  from store_built_trie [OF assms(1,2) Split.prems(1,2) m2(2)] obtain m3 where
    m3: "store_built_map_node sha (map_node_of sha ?t) m2 = Ok (map_ref_of sha ?t, m3)"
    "map_objects_ok sha U m3" "map_built sha {?t} m2 m3" .
  have "build_map_subtree sha (map (built_entry sha) (tentries ?t)) m = Ok (map_ref_of sha ?t, m3)"
    using build_subtree_branch [OF assms(1) t m1(1) m2(1)] map_from_body_trie [OF assms(1) t Split.prems(2)] m3(1)
    by (simp del: map_body_of_Split tentries.simps)
  moreover have "map_built sha (tsubtrees ?t) m m3" using map_built_trans [OF map_built_trans [OF m1(3) m2(3)] m3(3)] by simp
  ultimately show ?case using m3(2) by blast
qed

section \<open>The whole build\<close>

lemma build_entries_Ok:
  assumes "\<forall>(k, v)\<in>set es. validate_key k = Ok () \<and> coll_validate_content_id v = Ok ()"
    and "distinct (map fst es)" "fset keys \<inter> fst ` set es = {}"
  shows "\<exists>keys'. rfold (build_entry sha) es (keys, acc) = Ok (keys', acc @ map (built_entry sha) es)"
  using assms
proof (induction es arbitrary: keys acc)
  case (Cons e es)
  obtain k v where e: "e = (k, v)" by force
  have "build_entry sha e (keys, acc) = Ok (finsert k keys, acc @ [built_entry sha e])"
    using Cons.prems e by (simp add: build_entry_def map_key_hash_eq built_entry_def)
  moreover have "\<exists>keys'. rfold (build_entry sha) es (finsert k keys, acc @ [built_entry sha e])
      = Ok (keys', (acc @ [built_entry sha e]) @ map (built_entry sha) es)"
    using Cons.prems e by (intro Cons.IH) auto
  ultimately show ?case by simp
qed simp

text \<open>Sorting by hash and key gives the order of the trie.\<close>

lemma sort_built_entries:
  assumes "trie sha t" "sha_ok sha" "distinct (map fst es)" "tmap t = map_of es"
  shows "sort_key (\<lambda>e. (be_key_hash e, be_key e)) (map (built_entry sha) es) = map (built_entry sha) (tentries t)"
proof (rule sort_key_inj_key_eq)
  have d: "distinct (map fst (tentries t))" using assms(1,2) by (rule trie_distinct)
  have "set es = set (tentries t)" using map_of_inject_set [OF assms(3) d] assms(4) by simp
  moreover have "distinct es" "distinct (tentries t)" using assms(3) d by (simp_all add: distinct_map)
  ultimately show "mset (map (built_entry sha) es) = mset (map (built_entry sha) (tentries t))"
    by (metis mset_map set_eq_iff_mset_eq_distinct)
  show "inj_on (\<lambda>e. (be_key_hash e, be_key e)) (set (map (built_entry sha) es))"
    using assms(3) by (auto simp: inj_on_def built_entry_def) (metis eq_key_imp_eq_value)
  show "sorted (map (\<lambda>e. (be_key_hash e, be_key e)) (map (built_entry sha) (tentries t)))"
    using trie_sorted [OF assms(1,2)] by (simp add: sorted_map sorted_wrt_map) (erule sorted_wrt_mono_rel [rotated], simp)
qed

lemma build_map_live:
  assumes "sha_ok sha" "opt_trie sha t" "opt_map t = map_of es" "distinct (map fst es)"
    and "length es \<le> MAX_EXACT_INTEGER" "inj_on (map_node_id sha) (map_body_of sha ` opt_tsubtrees t)"
  shows "\<exists>objects. build_map sha es = Ok \<lparr>mbo_root = map_root_of sha t, mbo_objects = values_of objects\<rparr>
    \<and> map_built sha (opt_tsubtrees t) fmempty objects"
proof (cases t)
  case None
  then have "es = []" using assms(3) by (cases es) (auto simp: fun_eq_iff split: if_splits)
  with None show ?thesis using map_built_refl [of sha fmempty] by (auto simp: build_map_def intro!: exI [of _ fmempty])
next
  case (Some u)
  have u: "trie sha u" "tmap u = map_of es" using Some assms(2,3) by simp_all
  have d: "distinct (map fst (tentries u))" using trie_distinct [OF u(1) assms(1)] .
  have same: "set es = set (tentries u)" using map_of_inject_set [OF assms(4) d] u(2) by simp
  have "card (set es) = length es" "card (set (tentries u)) = length (tentries u)"
    using assms(4) d by (simp_all add: distinct_map distinct_card)
  with same have len: "length (tentries u) = length es" by simp
  have valid: "\<forall>(k, v)\<in>set es. validate_key k = Ok () \<and> coll_validate_content_id v = Ok ()"
    using trie_valid [OF u(1)] same by auto
  from build_entries_Ok [OF valid assms(4), of "{||}" sha "[]"] obtain keys where
    es: "rfold (build_entry sha) es ({||}, []) = Ok (keys, map (built_entry sha) es)" by auto
  let ?U = "map_body_of sha ` tsubtrees u"
  have known: "map_known sha ?U u" using u(1) by (simp add: map_known_def)
  have inj: "inj_on (map_node_id sha) ?U" using assms(6) Some by simp
  have "map_objects_ok sha ?U fmempty" by (simp add: map_objects_ok_def)
  from build_subtree_live [OF assms(1) inj known _ this] len assms(5) obtain m where
    m: "build_map_subtree sha (map (built_entry sha) (tentries u)) fmempty = Ok (map_ref_of sha u, m)"
    "map_built sha (tsubtrees u) fmempty m" by auto
  have "map_root_verify (map_root_of sha t) = Ok ()"
    using map_root_verify_trie [OF assms(1), of t] Some len assms(5) by simp
  then have root: "map_root_verify \<lparr>mt_node = Some (trie_id sha u), mt_entries = length es\<rparr> = Ok ()"
    using Some len by (simp add: map_root_of_def)
  have "es \<noteq> []" using len by (cases es) auto
  then have "build_map sha es = Ok \<lparr>mbo_root = map_root_of sha t, mbo_objects = values_of m\<rparr>"
    using es m(1) root len assms(5) Some sort_built_entries [OF u(1) assms(1,4) u(2)]
    by (simp add: build_map_def map_root_of_def)
  then show ?thesis using m(2) Some by auto
qed

end
