(* ===== verification/Map_Demo.thy ===== *)
theory Map_Demo
  imports Map_Build Log_Demo
begin

text \<open>
  A small stored map at which the map's properties are instantiated: two keys whose hashes fork at
  the fourth bit, held by an in-memory provider (the crate's own batch-proof resolver serves as
  one). The hash is a stand-in of the right shape, 32 bytes that sample the preimage from its end;
  it does not collide on the nodes used here, which is evaluated.
\<close>

fun every_third :: "string \<Rightarrow> string" where
  "every_third (a # b # c # xs) = a # every_third xs"
| "every_third xs = xs"

definition demo_map_sha :: "string \<Rightarrow> string" where
  "demo_map_sha bytes = take 32 (every_third (rev bytes) @ replicate 32 CHR 0x00)"

lemma demo_map_sha_ok: "sha_ok demo_map_sha"
  by (auto simp: sha_ok_def demo_map_sha_def min_def)

abbreviation demo_leaf_a :: map_tree where "demo_leaf_a \<equiv> Entry ''a'' demo_a"
abbreviation demo_leaf_q :: map_tree where "demo_leaf_q \<equiv> Entry ''q'' demo_b"
abbreviation demo_leaf_c :: map_tree where "demo_leaf_c \<equiv> Entry ''q'' demo_c"

abbreviation demo_trie :: map_tree where "demo_trie \<equiv> Split 3 demo_leaf_a demo_leaf_q"

text \<open>The stored trie and what putting another value at its second key makes.\<close>

definition demo_tries :: "map_tree list" where
  "demo_tries = [demo_trie, demo_leaf_a, demo_leaf_q, demo_leaf_c, Split 3 demo_leaf_a demo_leaf_c]"

lemma demo_trie_ids: "distinct (map (trie_id demo_map_sha) demo_tries)"
  by code_simp

lemma demo_map_inj: "inj_on (map_node_id demo_map_sha) (map_body_of demo_map_sha ` set demo_tries)"
proof -
  have "inj_on (map_node_id demo_map_sha \<circ> map_body_of demo_map_sha) (set demo_tries)"
    using demo_trie_ids by (simp add: distinct_map comp_def trie_id_def [abs_def])
  then show ?thesis by (rule inj_on_imageI)
qed

section \<open>Hashes of the keys\<close>

lemma demo_first_nibble: "key_digest demo_map_sha ''a'' ! 0 = CHR ''6''" "key_digest demo_map_sha ''q'' ! 0 = CHR ''7''"
  by code_simp+

lemma demo_nibbles: "nibble CHR ''6'' = 6" "nibble CHR ''7'' = 7"
  by code_simp+

lemma demo_nibble_bits: "\<forall>i\<in>set [0..<3]. nbit 6 (3 - i) = nbit 7 (3 - i)" "\<not> nbit 6 0" "nbit 7 0"
  by code_simp+

lemma demo_bits: "\<not> hbit (key_digest demo_map_sha ''a'') 3" "hbit (key_digest demo_map_sha ''q'') 3"
  using demo_first_nibble demo_nibbles demo_nibble_bits by (simp_all add: hbit_nbit)

lemma demo_agree: "agree 3 (key_digest demo_map_sha ''q'') (key_digest demo_map_sha ''a'')"
  using demo_first_nibble demo_nibbles demo_nibble_bits(1) by (simp add: agree_def hbit_nbit)

lemma demo_keys [simp]: "validate_key ''a'' = Ok ()" "validate_key ''q'' = Ok ()"
  by code_simp+

lemma demo_tries_ok: "list_all (trie demo_map_sha) demo_tries"
  using demo_bits demo_agree by (simp add: demo_tries_def)

lemma demo_trie_ok: "trie demo_map_sha demo_trie" "trie demo_map_sha demo_leaf_a" "trie demo_map_sha demo_leaf_q"
  using demo_tries_ok by (simp_all add: demo_tries_def del: trie.simps)

lemma demo_digest_ne: "key_digest demo_map_sha ''q'' \<noteq> key_digest demo_map_sha ''a''"
  using demo_bits by auto

lemma demo_key_inj: "inj_on (key_digest demo_map_sha) (insert ''q'' (opt_tkeys (Some demo_trie)))"
  using demo_digest_ne by (auto simp: inj_on_def split: if_splits)

section \<open>The provider\<close>

definition demo_map_store :: apply_proof_map_resolver where
  "demo_map_store = \<lparr>am_nodes = fmap_of_list (map (\<lambda>t. (trie_id demo_map_sha t, map_node_of demo_map_sha t))
      [demo_trie, demo_leaf_a, demo_leaf_q]), am_requested = {||}\<rparr>"

lemma demo_map_holds: "map_holds demo_map_sha (fmlookup (am_nodes demo_map_store)) (opt_tsubtrees (Some demo_trie))"
  using demo_trie_ids by (simp add: map_holds_def demo_map_store_def demo_tries_def fmlookup_of_list)

lemma demo_map_ran: "mn_body ` ran (fmlookup (am_nodes demo_map_store)) \<subseteq> map_body_of demo_map_sha ` set demo_tries"
proof -
  have "ran (fmlookup (am_nodes demo_map_store)) \<subseteq> map_node_of demo_map_sha ` {demo_trie, demo_leaf_a, demo_leaf_q}"
    by (auto simp: demo_map_store_def ran_def fmlookup_of_list split: if_splits)
  then show ?thesis by (fastforce simp: demo_tries_def)
qed

abbreviation demo_map_root :: map_root where "demo_map_root \<equiv> map_root_of demo_map_sha (Some demo_trie)"

lemma demo_map_root_verify: "map_root_verify demo_map_root = Ok ()"
  by (rule map_root_verify_trie [OF demo_map_sha_ok]) (simp add: MAX_EXACT_INTEGER_def)

lemma demo_map_nodes:
  assumes "t \<in> set demo_tries"
  shows "map_node_verify demo_map_sha (map_node_of demo_map_sha t) = Ok ()"
    "map_node_entries (map_node_of demo_map_sha t) = Ok (length (tentries t))"
proof -
  have "length (tentries t) \<le> MAX_EXACT_INTEGER" using assms by (auto simp: demo_tries_def MAX_EXACT_INTEGER_def)
  then show "map_node_verify demo_map_sha (map_node_of demo_map_sha t) = Ok ()"
    "map_node_entries (map_node_of demo_map_sha t) = Ok (length (tentries t))"
    using demo_tries_ok assms map_node_verify_trie [OF demo_map_sha_ok, of t] map_node_entries_trie [of t]
    by (simp_all add: list_all_iff)
qed

lemma demo_map_in: "demo_trie \<in> set demo_tries" "demo_leaf_a \<in> set demo_tries" "demo_leaf_q \<in> set demo_tries"
  by (simp_all add: demo_tries_def)

section \<open>An exact proof\<close>

definition demo_map_path :: "(string, map_node) fmap" where
  "demo_map_path = fmap_of_list (map (\<lambda>t. (trie_id demo_map_sha t, map_node_of demo_map_sha t)) [demo_trie, demo_leaf_q])"

definition demo_map_exact :: map_exact_proof where
  "demo_map_exact = \<lparr>xm_root = demo_map_root, xm_key = ''q'', xm_key_hash = key_digest demo_map_sha ''q'',
     xm_nodes = values_of demo_map_path\<rparr>"

lemma demo_cleared: "cleared (key_digest demo_map_sha ''q'') 3 = cleared (key_digest demo_map_sha ''a'') 3"
  by (rule cleared_eq_iff [OF key_digest_valid [OF demo_map_sha_ok] key_digest_valid [OF demo_map_sha_ok], THEN iffD2])
    (simp_all add: demo_agree)

lemma demo_path_indexed: "indexes demo_map_sha demo_map_path (set (opt_path demo_map_sha ''q'' (Some demo_trie)))"
  using demo_trie_ids demo_bits demo_cleared
  by (auto simp: indexes_def map_holds_def demo_map_path_def demo_tries_def fmlookup_of_list fset_of_list.rep_eq)

lemma demo_map_look: "opt_look demo_map_sha ''q'' (Some demo_trie) = Ok \<lparr>lo_value = Some demo_b, lo_rank = Some 1\<rparr>"
  using demo_digest_ne by (simp add: opt_look_def tree_look_def uncollided_def trank_def)

lemma demo_map_exact_verifies: "verify_map_exact demo_map_sha demo_map_root ''q'' demo_map_exact =
  Ok \<lparr>vm_root = demo_map_root, vm_key = ''q'', vm_value = Some demo_b, vm_rank = Some 1\<rparr>"
  using verify_map_exact_path [OF demo_map_sha_ok _ _ _ demo_map_look demo_path_indexed] demo_trie_ok(1)
  by (simp add: demo_map_exact_def MAX_EXACT_INTEGER_def del: trie.simps)

end
