(* ===== verification/Map_Demo_Runs.thy ===== *)
theory Map_Demo_Runs
  imports Map_Demo
begin

text \<open>Concrete runs of the page verifier, the audit and mutation batches, evaluated by the simplifier.\<close>

section \<open>Path constraints\<close>

abbreviation demo_side :: "bool \<Rightarrow> path_constraint" where
  "demo_side right \<equiv> \<lparr>pc_depth = 3, pc_prefix = cleared (key_digest demo_map_sha ''a'') 3, pc_right = right\<rparr>"

lemma demo_sides:
  "verify_constraints (key_digest demo_map_sha ''a'') [demo_side False] = Ok ()"
  "verify_constraints (key_digest demo_map_sha ''q'') [demo_side True] = Ok ()"
  using demo_bits demo_cleared key_digest_valid [OF demo_map_sha_ok]
  by (simp_all add: verify_constraints_def verify_constraint_Ok)

lemma demo_no_sides: "verify_constraints h [] = Ok ()" "depth_increases [] d = Ok ()"
  by (simp_all add: verify_constraints_def depth_increases_def)

section \<open>A page\<close>

definition demo_map_page :: map_range_proof where
  "demo_map_page = \<lparr>mp_root = demo_map_root, mp_after = None, mp_limit = 1, mp_max_bytes = 1000,
     mp_nodes = values_of (am_nodes demo_map_store)\<rparr>"

lemma demo_store_indexed: "indexes demo_map_sha (am_nodes demo_map_store) (set [demo_trie, demo_leaf_a, demo_leaf_q])"
  using demo_map_holds by (auto simp: indexes_def demo_map_store_def insert_commute)

lemma demo_index:
  assumes "3 \<le> maximum"
  shows "index_map_proof_nodes demo_map_sha duplicate (values_of (am_nodes demo_map_store)) maximum = Ok (am_nodes demo_map_store)"
proof (rule indexes_proof_nodes [OF demo_store_indexed demo_map_sha_ok])
  show "\<forall>s\<in>set [demo_trie, demo_leaf_a, demo_leaf_q]. trie demo_map_sha s \<and> length (tentries s) \<le> MAX_EXACT_INTEGER"
    using demo_trie_ok by (simp add: MAX_EXACT_INTEGER_def del: trie.simps)
qed (use assms in \<open>simp_all add: most_bytes_def BRANCH_BYTES_eq MAX_MAP_KEY_BYTES_def MAX_PROOF_BYTES_def MAX_PAGE_BYTES_def\<close>)

lemma demo_proof_loads:
  assumes "pm_nodes r = am_nodes demo_map_store" "t \<in> {demo_trie, demo_leaf_a, demo_leaf_q}"
  shows "load_resolved_map_node demo_map_sha proof_map_load (map_ref_of demo_map_sha t) r =
    Ok (map_node_of demo_map_sha t, r\<lparr>pm_used := finsert (trie_id demo_map_sha t) (pm_used r)\<rparr>)"
proof -
  have "t \<in> set demo_tries" using assms(2) demo_map_in by auto
  moreover have "fmlookup (pm_nodes r) (trie_id demo_map_sha t) = Some (map_node_of demo_map_sha t)"
    using demo_map_holds assms by (auto simp: map_holds_def)
  ultimately show ?thesis using demo_map_nodes [of t] by (simp add: load_resolved_map_node_def proof_map_load_def)
qed

lemma demo_position: "validate_key k = Ok () \<Longrightarrow> position_verify sha \<lparr>ps_key = k, ps_key_hash = key_digest sha k\<rparr> = Ok ()"
  by (simp add: position_verify_def map_key_hash_eq)

lemma demo_value_length: "length (demo_value c) = 71"
  by (simp add: demo_value_def)

lemma demo_entry_bytes: "page_entry_bytes \<lparr>ps_key = [c], ps_key_hash = key_digest demo_map_sha k\<rparr> (demo_value d) = Ok 136"
  using length_key_digest [OF demo_map_sha_ok, of k]
  by (simp add: page_entry_bytes_def checked_sum_def checked_add_def demo_value_length)

abbreviation demo_first :: map_position where
  "demo_first \<equiv> \<lparr>ps_key = ''a'', ps_key_hash = key_digest demo_map_sha ''a''\<rparr>"

abbreviation demo_second :: map_position where
  "demo_second \<equiv> \<lparr>ps_key = ''q'', ps_key_hash = key_digest demo_map_sha ''q''\<rparr>"

lemma demo_visit:
  assumes "pm_nodes r = am_nodes demo_map_store"
  shows "map_visit demo_map_sha proof_map_load 0 1 1000 [] (map_ref_of demo_map_sha demo_trie) 0 empty_selection r
    = Ok (\<lparr>ms_entries = [(demo_first, demo_a)], ms_used_bytes = 136, ms_boundary = Some (demo_second, demo_b)\<rparr>,
        r\<lparr>pm_used := finsert (trie_id demo_map_sha demo_leaf_q) (finsert (trie_id demo_map_sha demo_leaf_a)
          (finsert (trie_id demo_map_sha demo_trie) (pm_used r)))\<rparr>)"
proof -
  let ?s = "\<lparr>ms_entries = [(demo_first, demo_a)], ms_used_bytes = 136, ms_boundary = None\<rparr>"
  have left: "map_visit demo_map_sha proof_map_load 0 1 1000 [demo_side False] (map_ref_of demo_map_sha demo_leaf_a) 0 empty_selection r
    = Ok (?s, r\<lparr>pm_used := finsert (trie_id demo_map_sha demo_leaf_a) (pm_used r)\<rparr>)"
    if "pm_nodes r = am_nodes demo_map_store" for r
    using demo_proof_loads [OF that, of demo_leaf_a] demo_sides
    by (subst map_visit.simps) (simp add: map_visit_leaf_def demo_position demo_entry_bytes checked_add_def)
  have right: "map_visit demo_map_sha proof_map_load 0 1 1000 [demo_side True] (map_ref_of demo_map_sha demo_leaf_q) 1 ?s r
    = Ok (?s\<lparr>ms_boundary := Some (demo_second, demo_b)\<rparr>, r\<lparr>pm_used := finsert (trie_id demo_map_sha demo_leaf_q) (pm_used r)\<rparr>)"
    if "pm_nodes r = am_nodes demo_map_store" for r
    using demo_proof_loads [OF that, of demo_leaf_q] demo_sides
    by (subst map_visit.simps) (simp add: map_visit_leaf_def demo_position demo_entry_bytes checked_add_def)
  show ?thesis using demo_proof_loads [OF assms, of demo_trie] left right assms
    by (subst map_visit.simps) (simp add: demo_no_sides checked_add_def)
qed

lemma demo_map_page_verifies: "verify_map_range demo_map_sha demo_map_root None 1 1000 demo_map_page =
  Ok \<lparr>pg_root = demo_map_root, pg_after = None, pg_entries = [(demo_first, demo_a)], pg_next_position = Some demo_first\<rparr>"
proof -
  let ?n = "am_nodes demo_map_store"
  have big: "3 \<le> MAX_MAP_RANGE_PROOF_NODES" by (simp add: MAX_MAP_RANGE_PROOF_NODES_def)
  note index = demo_index [OF big, of "''map_proof_duplicate_node''"]
  then have bytes: "verify_map_proof_bytes (values_of ?n) = Ok ()" "\<not> MAX_MAP_RANGE_PROOF_NODES < length (values_of ?n)"
    by (auto simp: index_map_proof_nodes_def split: if_splits)
  have "{|trie_id demo_map_sha demo_leaf_q, trie_id demo_map_sha demo_leaf_a, trie_id demo_map_sha demo_trie|} = fmdom ?n"
    by (auto simp: demo_map_store_def)
  then show ?thesis using index bytes demo_visit [of "\<lparr>pm_nodes = ?n, pm_used = {||}\<rparr>"] demo_map_root_verify
    by (simp add: verify_map_range_def demo_map_page_def validate_page_request_def MAX_PAGE_ENTRIES_def MAX_PAGE_BYTES_def
        proof_map_new_bounded_def map_range_start_def collect_map_range_def proof_map_finish_def)
qed

section \<open>An audit\<close>

lemma demo_store_loads:
  assumes "am_nodes r = am_nodes demo_map_store" "t \<in> {demo_trie, demo_leaf_a, demo_leaf_q}"
  shows "load_resolved_map_node demo_map_sha apply_proof_map_load (map_ref_of demo_map_sha t) r =
    Ok (map_node_of demo_map_sha t, r\<lparr>am_requested := finsert (trie_id demo_map_sha t) (am_requested r)\<rparr>)"
proof -
  have "t \<in> set demo_tries" using assms(2) demo_map_in by auto
  moreover have "fmlookup (am_nodes r) (trie_id demo_map_sha t) = Some (map_node_of demo_map_sha t)"
    using demo_map_holds assms by (auto simp: map_holds_def)
  ultimately show ?thesis using demo_map_nodes [of t] by (simp add: load_resolved_map_node_def apply_proof_map_load_def)
qed

definition demo_audit :: map_audit where
  "demo_audit = \<lparr>ma_entries = [(demo_first, demo_a), (demo_second, demo_b)],
     ma_objects = sort_key mn_object_id (map (map_node_of demo_map_sha) [demo_trie, demo_leaf_a, demo_leaf_q])\<rparr>"

lemma demo_audits: "audit_map demo_map_sha apply_proof_map_load demo_map_root demo_map_store = Ok demo_audit"
proof -
  let ?id = "trie_id demo_map_sha" and ?n = "map_node_of demo_map_sha"
  have ne: "?id demo_trie \<noteq> ?id demo_leaf_a" "?id demo_trie \<noteq> ?id demo_leaf_q" "?id demo_leaf_a \<noteq> ?id demo_leaf_q"
    using demo_trie_ids by (auto simp: demo_tries_def)
  have less: "key_digest demo_map_sha ''a'' < key_digest demo_map_sha ''q''"
    using trie_sides [OF demo_trie_ok(1) _ _ demo_map_sha_ok] by simp
  let ?s3 = "\<lparr>as_visited = {|?id demo_leaf_q, ?id demo_leaf_a, ?id demo_trie|}, as_keys = {|''q'', ''a''|},
    as_entries = [(demo_first, demo_a), (demo_second, demo_b)], as_objects = [?n demo_trie, ?n demo_leaf_a, ?n demo_leaf_q]\<rparr>"
  let ?s2 = "\<lparr>as_visited = {|?id demo_leaf_a, ?id demo_trie|}, as_keys = {|''a''|},
    as_entries = [(demo_first, demo_a)], as_objects = [?n demo_trie, ?n demo_leaf_a]\<rparr>"
  let ?s1 = "\<lparr>as_visited = {|?id demo_trie|}, as_keys = {||}, as_entries = [], as_objects = [?n demo_trie]\<rparr>"
  let ?r = "map_ref_of demo_map_sha"
  have third: "\<exists>r'. audit_map_stack demo_map_sha apply_proof_map_load [(?r demo_leaf_q, [demo_side True])] ?s2 r = Ok (?s3, r')"
    if "am_nodes r = am_nodes demo_map_store" for r
    using demo_store_loads [OF that, of demo_leaf_q] ne demo_sides
    by (simp add: audit_map_stack.simps(2) [of _ _ _ _ "[]"] audit_map_stack.simps(1) audit_leaf_def)
  have second: "\<exists>r'. audit_map_stack demo_map_sha apply_proof_map_load
      [(?r demo_leaf_a, [demo_side False]), (?r demo_leaf_q, [demo_side True])] ?s1 r = Ok (?s3, r')"
    if "am_nodes r = am_nodes demo_map_store" for r
    using demo_store_loads [OF that, of demo_leaf_a] ne demo_sides third that
    by (simp add: audit_map_stack.simps(2) [of _ _ _ _ "[(?r demo_leaf_q, [demo_side True])]"] audit_leaf_def)
  have "\<exists>r'. audit_map_stack demo_map_sha apply_proof_map_load [(?r demo_trie, [])]
      \<lparr>as_visited = {||}, as_keys = {||}, as_entries = [], as_objects = []\<rparr> demo_map_store = Ok (?s3, r')"
    using demo_store_loads [of demo_map_store demo_trie] second
    by (simp add: audit_map_stack.simps(2) [of _ _ "?r demo_trie"] demo_no_sides)
  then show ?thesis using demo_map_root_verify less
    by (auto simp: audit_map_def position_order_def demo_audit_def)
qed

section \<open>Batches\<close>

abbreviation demo_single :: map_root where "demo_single \<equiv> map_root_of demo_map_sha (Some demo_leaf_a)"

definition demo_remove_proof :: map_apply_proof where
  "demo_remove_proof = \<lparr>mpf_parent = demo_single, mpf_result = map_root_empty, mpf_mutations = [Remove ''a'' demo_a],
     mpf_nodes = [map_node_of demo_map_sha demo_leaf_a]\<rparr>"

lemma demo_canonical:
  "canonical_mutations demo_map_sha [Remove ''a'' demo_a] = Ok [Remove ''a'' demo_a]"
  "canonical_mutations demo_map_sha [Put ''a'' Absent demo_a] = Ok [Put ''a'' Absent demo_a]"
  "canonical_mutations demo_map_sha [Put ''q'' (Exact demo_b) demo_c] = Ok [Put ''q'' (Exact demo_b) demo_c]"
  by (simp_all add: canonical_mutations_iff fine_mutation_def map_mutation_verify_def demo_value_length
      MAX_MAP_MUTATIONS_PER_APPLY_def MAX_MUTATION_BYTES_def)

lemma demo_leaf_bytes: "\<exists>b. map_logical_bytes (map_node_of demo_map_sha demo_leaf_a) = Ok b \<and> b \<le> MAX_PROOF_BYTES"
  using map_logical_bytes_trie [OF demo_map_sha_ok demo_trie_ok(2)]
  by (auto simp: most_bytes_def BRANCH_BYTES_eq MAX_MAP_KEY_BYTES_def MAX_PROOF_BYTES_def MAX_PAGE_BYTES_def)

lemma demo_remove_verifies: "verify_map_apply demo_map_sha demo_single [Remove ''a'' demo_a] demo_remove_proof =
  Ok \<lparr>vma_parent = demo_single, vma_result = map_root_empty, vma_mutations = [Remove ''a'' demo_a],
    vma_mutation_digest = map_mutation_digest demo_map_sha [Remove ''a'' demo_a]\<rparr>"
proof -
  let ?id = "trie_id demo_map_sha demo_leaf_a" and ?n = "map_node_of demo_map_sha demo_leaf_a"
  let ?r = "\<lparr>am_nodes = fmupd ?id ?n fmempty, am_requested = {||}\<rparr>"
  let ?ov = "\<lparr>mo_resolver = \<lparr>am_nodes = fmupd ?id ?n fmempty, am_requested = {|?id|}\<rparr>, mo_pending = fmempty,
    mo_loaded = fmupd ?id ?n fmempty\<rparr>"
  note n = demo_map_nodes [OF demo_map_in(2)]
  obtain b where b: "map_logical_bytes ?n = Ok b" "b \<le> MAX_PROOF_BYTES" using demo_leaf_bytes by blast
  have new: "apply_proof_map_new demo_map_sha [?n] = Ok ?r"
    using b n by (simp add: apply_proof_map_new_def index_map_proof_nodes_def verify_map_proof_bytes_def
        index_map_proof_node_def bounded_add_def checked_add_def MAX_MAP_PATH_NODES_def MAX_MAP_MUTATIONS_PER_APPLY_def
        MAX_PROOF_BYTES_def MAX_PAGE_BYTES_def)
  have load: "map_overlay_load demo_map_sha apply_proof_map_load (map_ref_of demo_map_sha demo_leaf_a) (map_overlay_new ?r) = Ok (?n, ?ov)"
    "map_overlay_load demo_map_sha apply_proof_map_load (map_ref_of demo_map_sha demo_leaf_a) ?ov = Ok (?n, ?ov)"
    using n by (simp_all add: map_overlay_load_def map_overlay_fetch_def apply_proof_map_load_def map_overlay_new_def)
  obtain n where fuel: "MAX_MAP_PATH_NODES = Suc n" by (simp add: MAX_MAP_PATH_NODES_def eval_nat_numeral)
  have look: "overlay_lookup demo_map_sha apply_proof_map_load demo_single ''a'' (key_digest demo_map_sha ''a'') (map_overlay_new ?r)
      = Ok (\<lparr>lo_value = Some demo_a, lo_rank = Some 0\<rparr>, ?ov)"
    using load by (simp add: overlay_lookup_def fuel demo_no_sides lookup_leaf_def)
  have "overlay_remove demo_map_sha apply_proof_map_load demo_single ''a'' (key_digest demo_map_sha ''a'') ?ov = Ok (map_root_empty, ?ov)"
    using load by (simp add: overlay_remove_def fuel demo_no_sides checked_sub_def map_root_empty_def)
  with look have "apply_map_internal demo_map_sha apply_proof_map_load demo_single [Remove ''a'' demo_a] (map_overlay_new ?r)
      = Ok (map_root_empty, ?ov)"
    by (simp add: apply_map_internal_def map_key_hash_eq map_root_verify_def map_root_empty_def)
  moreover have "map_root_verify demo_single = Ok ()"
    by (rule map_root_verify_trie [OF demo_map_sha_ok]) (simp add: MAX_EXACT_INTEGER_def)
  ultimately show ?thesis using demo_canonical(1) new
    by (simp add: verify_map_apply_def demo_remove_proof_def apply_proof_map_finish_def)
qed

abbreviation demo_empty_store :: apply_proof_map_resolver where
  "demo_empty_store \<equiv> \<lparr>am_nodes = fmempty, am_requested = {||}\<rparr>"

lemma demo_put_runs: "\<exists>out. apply_map_mutations demo_map_sha apply_proof_map_load map_root_empty [Put ''a'' Absent demo_a] demo_empty_store
  = Ok out \<and> mao_objects out = [map_node_of demo_map_sha demo_leaf_a]"
proof -
  let ?id = "trie_id demo_map_sha demo_leaf_a" and ?n = "map_node_of demo_map_sha demo_leaf_a"
  let ?ov = "\<lparr>mo_resolver = demo_empty_store, mo_pending = fmupd ?id ?n fmempty, mo_loaded = fmempty\<rparr>"
  note n = demo_map_nodes [OF demo_map_in(2)]
  have leaf: "new_leaf demo_map_sha ''a'' (key_digest demo_map_sha ''a'') demo_a (map_overlay_new demo_empty_store)
      = Ok (map_ref_of demo_map_sha demo_leaf_a, ?ov)"
    using n map_from_body_trie [OF demo_map_sha_ok demo_trie_ok(2)]
    by (simp add: new_leaf_def map_leaf_def map_overlay_store_def map_overlay_new_def map_ref_of_def MAX_EXACT_INTEGER_def)
  have "map_root_verify demo_single = Ok ()"
    by (rule map_root_verify_trie [OF demo_map_sha_ok]) (simp add: MAX_EXACT_INTEGER_def)
  then have run: "apply_map_internal demo_map_sha apply_proof_map_load map_root_empty [Put ''a'' Absent demo_a]
      (map_overlay_new demo_empty_store) = Ok (demo_single, ?ov)"
    using leaf by (simp add: apply_map_internal_def map_key_hash_eq overlay_lookup_def overlay_put_def root_reference_def
        map_root_empty_def checked_add_def MAX_EXACT_INTEGER_def map_root_of_def)
  have new: "apply_proof_map_new demo_map_sha [] = Ok demo_empty_store"
    by (simp add: apply_proof_map_new_def index_map_proof_nodes_def verify_map_proof_bytes_def)
  have made: "collect_reachable_created_map_nodes demo_map_sha apply_proof_map_load demo_single ?ov = Ok [?n]"
    using n by (simp add: collect_reachable_created_map_nodes_def collect_created_map.simps(2) [of _ _ _ "[]"]
        collect_created_map.simps(1) apply_proof_map_load_def sorted_list_of_fmap_def sorted_list_of_fset.rep_eq)
  show ?thesis using run new made demo_canonical(2)
    by (simp add: apply_map_mutations_def verify_map_apply_def apply_proof_map_finish_def map_root_verify_def map_root_empty_def)
qed

end
