(* ===== verification/Map_Properties.thy ===== *)
theory Map_Properties
  imports Map_Demo_Runs
begin

text \<open>
  The properties of the authenticated map, over the stored algorithms of the crate. The hash is a
  parameter that returns 32 bytes. Where a property rests on collision freedom, the hypothesis is
  that node identities are injective on the finite set of nodes that take part (what the proof or
  the provider holds, the committed trie, and the tries the batch makes), or that key hashes are
  injective on the keys that take part.
\<close>

section \<open>Exact reads\<close>

lemma opt_look_rank:
  assumes "sha_ok sha" "opt_trie sha t" "opt_look sha k t = Ok outcome"
  shows "lo_value outcome = opt_map t k
    \<and> lo_rank outcome = (if k \<in> opt_tkeys t then Some (card {x \<in> opt_tkeys t. key_digest sha x < key_digest sha k}) else None)"
proof (cases t)
  case (Some u)
  then have "trie sha u" "dom (tmap u) = tkeys u" using assms(2) dom_tmap by auto
  then show ?thesis using Some assms(3) trank_card [OF assms(1), of u k]
    by (auto simp: opt_look_eq split: if_splits)
qed (use assms(3) in \<open>auto simp: opt_look_eq split: if_splits\<close>)

text \<open>C31: An accepted exact proof tells the truth, about presence and about absence. Whatever
  nodes a prover sends, if the verifier accepts them for the root of a trie and a key, the value
  it returns is the map's value at that key (none exactly when the key is absent), and the rank of a
  member is the number of keys whose hashes precede its own.\<close>

theorem verify_map_exact_sound:
  assumes "sha_ok sha" "opt_trie sha t"
    and "inj_on (map_node_id sha) (map_body_of sha ` opt_tsubtrees t \<union> mn_body ` set (xm_nodes prf))"
    and "verify_map_exact sha (map_root_of sha t) k prf = Ok got"
  shows "got = \<lparr>vm_root = map_root_of sha t, vm_key = k, vm_value = opt_map t k,
    vm_rank = (if k \<in> opt_tkeys t then Some (card {x \<in> opt_tkeys t. key_digest sha x < key_digest sha k}) else None)\<rparr>"
proof -
  have "opt_map_known sha (map_body_of sha ` opt_tsubtrees t \<union> mn_body ` set (xm_nodes prf)) t"
    using assms(2) by (simp add: opt_map_known_iff)
  from verify_map_exact_known [OF assms(3,1) this _ assms(4)] obtain outcome where
    "opt_look sha k t = Ok outcome"
    "got = \<lparr>vm_root = map_root_of sha t, vm_key = k, vm_value = lo_value outcome, vm_rank = lo_rank outcome\<rparr>" by auto
  with opt_look_rank [OF assms(1,2)] show ?thesis by simp
qed

theorem verify_map_exact_sound_witness:
  "verify_map_exact demo_map_sha demo_map_root ''q'' demo_map_exact =
     Ok \<lparr>vm_root = demo_map_root, vm_key = ''q'', vm_value = Some demo_b, vm_rank = Some 1\<rparr>
   \<and> opt_map (Some demo_trie) ''q'' = Some demo_b"
proof -
  have "inj_on (map_node_id demo_map_sha) (map_body_of demo_map_sha ` opt_tsubtrees (Some demo_trie)
      \<union> mn_body ` set (xm_nodes demo_map_exact))"
    by (rule inj_on_subset [OF demo_map_inj])
      (auto simp: demo_map_exact_def demo_map_path_def demo_tries_def fmlookup_of_list split: if_splits)
  from verify_map_exact_sound [OF demo_map_sha_ok _ this demo_map_exact_verifies] demo_trie_ok(1) demo_map_exact_verifies
  show ?thesis by (simp del: trie.simps)
qed

text \<open>C32: Proving and verifying round-trip. Over a provider that answers every load and holds the
  nodes of a trie, the prover produces a proof for every valid key, present or absent, whose hash
  collides with no other key, and the verifier accepts that proof and returns the map's value.\<close>

theorem map_exact_roundtrip:
  assumes "live_map_resolver load contents" "sha_ok sha" "opt_trie sha t" "length (opt_entries t) \<le> MAX_EXACT_INTEGER"
    and "map_holds sha (contents r) (opt_tsubtrees t)" "validate_key k = Ok ()"
    and "inj_on (key_digest sha) (insert k (opt_tkeys t))"
  shows "\<exists>prf got. prove_map_exact sha load (map_root_of sha t) k r = Ok prf
    \<and> verify_map_exact sha (map_root_of sha t) k prf = Ok got \<and> vm_value got = opt_map t k"
proof -
  obtain outcome where o: "opt_look sha k t = Ok outcome" "lo_value outcome = opt_map t k"
    using opt_uncollided_inj [OF assms(7)] by (auto simp: opt_look_eq)
  with map_exact_roundtrip_known [OF assms(1-6) o(1)] show ?thesis by auto
qed

theorem map_exact_roundtrip_witness:
  "\<exists>prf got. prove_map_exact demo_map_sha apply_proof_map_load demo_map_root ''q'' demo_map_store = Ok prf
    \<and> verify_map_exact demo_map_sha demo_map_root ''q'' prf = Ok got \<and> vm_value got = Some demo_b"
  using map_exact_roundtrip [OF map_apply_proof_resolver.live_map_resolver_axioms demo_map_sha_ok _ _ demo_map_holds demo_keys(2) demo_key_inj]
    demo_trie_ok(1) by (simp add: MAX_EXACT_INTEGER_def del: trie.simps)

text \<open>C33: A lookup ends within the path bound. Over a provider that holds a trie of any size, the
  bounded loop reaches an answer, the map's value at the key, after loading at most
  \<open>MAX_MAP_PATH_NODES\<close> nodes; it never runs into its bound.\<close>

theorem lookup_terminates_in_bound:
  assumes "live_map_resolver load contents" "sha_ok sha" "opt_trie sha t" "length (opt_entries t) \<le> MAX_EXACT_INTEGER"
    and "map_holds sha (contents r) (opt_tsubtrees t)" "inj_on (key_digest sha) (insert k (opt_tkeys t))"
  shows "\<exists>outcome r' ids. Map_Proof.lookup sha load (map_root_of sha t) k (key_digest sha k) r = Ok (outcome, r')
    \<and> lo_value outcome = opt_map t k \<and> load_all load ids r = Ok r' \<and> length ids \<le> MAX_MAP_PATH_NODES"
proof -
  have res: "map_resolver load contents" using assms(1) by (simp add: live_map_resolver_def)
  have total: "\<exists>y. load object_id r = Ok y" for object_id r
    using live_map_resolver.load_live [OF assms(1), of object_id r] by blast
  obtain outcome where o: "opt_look sha k t = Ok outcome" "lo_value outcome = opt_map t k"
    using opt_uncollided_inj [OF assms(6)] by (auto simp: opt_look_eq)
  have "map_holds sha (contents r) (set (opt_path sha k t))"
    using map_holds_subset [OF assms(5)] tpath_subtrees by (cases t) auto
  from map_resolver.lookup_live [OF res assms(2) total this assms(3) o(1) assms(4)] obtain r' where
    "Map_Proof.lookup sha load (map_root_of sha t) k (key_digest sha k) r = Ok (outcome, r')"
    "load_all load (map (trie_id sha) (opt_path sha k t)) r = Ok r'" by blast
  then show ?thesis using o(2) opt_path_bounds [OF assms(3), of k] by (metis length_map)
qed

theorem lookup_terminates_in_bound_witness:
  "\<exists>outcome r' ids. Map_Proof.lookup demo_map_sha apply_proof_map_load demo_map_root ''q'' (key_digest demo_map_sha ''q'') demo_map_store
      = Ok (outcome, r')
    \<and> lo_value outcome = Some demo_b \<and> load_all apply_proof_map_load ids demo_map_store = Ok r' \<and> length ids \<le> MAX_MAP_PATH_NODES"
  using lookup_terminates_in_bound [OF map_apply_proof_resolver.live_map_resolver_axioms demo_map_sha_ok _ _ demo_map_holds demo_key_inj]
    demo_trie_ok(1) by (simp add: MAX_EXACT_INTEGER_def del: trie.simps)

section \<open>Pages\<close>

text \<open>C34: An accepted page proof returns exactly the page. The entries are those after the given
  position in the order of the key hashes, as many as the limit and the byte budget allow; a next
  position is returned exactly when entries remain, and it is the last of the page; a page is never
  empty while entries remain; and a starting position is accepted only for a key of the map.\<close>

theorem verify_map_range_sound:
  assumes "sha_ok sha" "opt_trie sha t"
    and "inj_on (map_node_id sha) (map_body_of sha ` opt_tsubtrees t \<union> mn_body ` set (mp_nodes prf))"
    and "verify_map_range sha (map_root_of sha t) after limit max_bytes prf = Ok got"
  shows "pg_entries got = page_take limit max_bytes (entries_after after (positions sha (opt_entries t)))
    \<and> pg_next_position got =
        (if length (pg_entries got) < length (entries_after after (positions sha (opt_entries t)))
         then Some (fst (last (pg_entries got))) else None)
    \<and> (entries_after after (positions sha (opt_entries t)) \<noteq> [] \<longrightarrow> pg_entries got \<noteq> [])
    \<and> (\<forall>p. after = Some p \<longrightarrow> ps_key p \<in> opt_tkeys t)"
proof -
  have "opt_map_known sha (map_body_of sha ` opt_tsubtrees t \<union> mn_body ` set (mp_nodes prf)) t"
    using assms(2) by (simp add: opt_map_known_iff)
  then show ?thesis by (rule verify_map_range_known [OF assms(3,1) _ Un_upper2 assms(4)])
qed

theorem verify_map_range_sound_witness:
  "verify_map_range demo_map_sha demo_map_root None 1 1000 demo_map_page =
     Ok \<lparr>pg_root = demo_map_root, pg_after = None, pg_entries = [(demo_first, demo_a)], pg_next_position = Some demo_first\<rparr>
   \<and> page_take 1 1000 (positions demo_map_sha (tentries demo_trie)) = [(demo_first, demo_a)]"
proof -
  have "inj_on (map_node_id demo_map_sha) (map_body_of demo_map_sha ` opt_tsubtrees (Some demo_trie)
      \<union> mn_body ` set (mp_nodes demo_map_page))"
    by (rule inj_on_subset [OF demo_map_inj])
      (auto simp: demo_map_page_def demo_map_store_def demo_tries_def fmlookup_of_list split: if_splits)
  from verify_map_range_sound [OF demo_map_sha_ok _ this demo_map_page_verifies] demo_trie_ok(1) demo_map_page_verifies
  show ?thesis by (simp add: entries_after_def del: trie.simps)
qed

section \<open>Mutation batches\<close>

lemma canonical_outcome:
  assumes "sha_ok sha" "opt_trie sha t" "canonical_mutations sha xs = Ok ys" "rfold (trie_edit sha) ys t = Ok u"
  shows "opt_trie sha u \<and> (\<forall>x\<in>set xs. map_expects x (opt_map t)) \<and> opt_map u = map_batch xs (opt_map t)"
  using trie_edits_Ok [OF assms(1,2) canonical_edits(2) [OF assms(3)] assms(4)] canonical_edits(1) [OF assms(3), of "opt_map t"]
  by (auto split: if_splits)

text \<open>C35: The stored batch refines a simultaneous map update. Over a provider that holds the trie, a
  canonical batch whose expectations all hold for the parent map succeeds, and the root it returns is
  that of a trie whose map is the parent with every key of the batch written; when an expectation does
  not hold, the batch is refused as a conflict and nothing is returned.\<close>

theorem apply_map_refines_update:
  assumes "live_map_resolver load contents" "sha_ok sha" "opt_trie sha t" "map_holds sha (contents r) (opt_tsubtrees t)"
    and "canonical_mutations sha xs = Ok ys" "length (opt_entries t) + length xs \<le> MAX_EXACT_INTEGER"
    and "inj_on (key_digest sha) (mutation_key ` set xs \<union> opt_tkeys t)"
    and "inj_on (map_node_id sha) (map_universe sha (contents r) (opt_tsubtrees t \<union> trail sha ys t))"
  shows "if \<forall>x\<in>set xs. map_expects x (opt_map t)
    then \<exists>u ov. apply_map_internal sha load (map_root_of sha t) ys (map_overlay_new r) = Ok (map_root_of sha u, ov)
      \<and> opt_trie sha u \<and> opt_map u = map_batch xs (opt_map t)
    else apply_map_internal sha load (map_root_of sha t) ys (map_overlay_new r) = Err CConflict"
proof -
  note c = canonical_edits [OF assms(5)]
  have total: "case map_edits ys (opt_map t) of None \<Rightarrow> rfold (trie_edit sha) ys t = Err CConflict
    | Some m \<Rightarrow> \<exists>u. rfold (trie_edit sha) ys t = Ok u \<and> opt_trie sha u \<and> opt_map u = m"
    using assms(7) c(4) by (intro trie_edits_total [OF assms(2,3) c(2)]) simp
  have "length (opt_entries t) + length ys \<le> MAX_EXACT_INTEGER" using assms(6) c(3) by simp
  from live_map_resolver.apply_map_internal_outcome [OF assms(1-4) c(2) this assms(8)] total c(1)
  show ?thesis by (auto split: if_splits)
qed

lemma demo_put_universe:
  "inj_on (map_node_id demo_map_sha) (map_universe demo_map_sha (fmlookup (am_nodes demo_map_store))
     (opt_tsubtrees (Some demo_trie) \<union> trail demo_map_sha [Put ''q'' (Exact demo_b) demo_c] (Some demo_trie)))"
proof (rule inj_on_subset [OF demo_map_inj])
  have "trie_edit demo_map_sha (Put ''q'' (Exact demo_b) demo_c) (Some demo_trie) = Ok (Some (Split 3 demo_leaf_a demo_leaf_c))"
    using demo_map_look demo_bits fork_depth_less_iff [of 3] agree_sym [OF demo_agree]
    by (simp add: opt_put_def first_fork_def)
  then have "opt_tsubtrees (Some demo_trie) \<union> trail demo_map_sha [Put ''q'' (Exact demo_b) demo_c] (Some demo_trie) \<subseteq> set demo_tries"
    by (simp add: demo_tries_def del: trie_edit.simps)
  then show "map_universe demo_map_sha (fmlookup (am_nodes demo_map_store))
      (opt_tsubtrees (Some demo_trie) \<union> trail demo_map_sha [Put ''q'' (Exact demo_b) demo_c] (Some demo_trie))
    \<subseteq> map_body_of demo_map_sha ` set demo_tries"
    using demo_map_ran unfolding map_universe_def by blast
qed

theorem apply_map_refines_update_witness:
  "\<exists>u ov. apply_map_internal demo_map_sha apply_proof_map_load demo_map_root [Put ''q'' (Exact demo_b) demo_c]
      (map_overlay_new demo_map_store) = Ok (map_root_of demo_map_sha u, ov)
    \<and> opt_trie demo_map_sha u \<and> opt_map u ''q'' = Some demo_c \<and> opt_map u ''a'' = Some demo_a"
proof -
  have keys: "inj_on (key_digest demo_map_sha) (mutation_key ` set [Put ''q'' (Exact demo_b) demo_c] \<union> opt_tkeys (Some demo_trie))"
    using demo_key_inj by simp
  show ?thesis
    using apply_map_refines_update [OF map_apply_proof_resolver.live_map_resolver_axioms demo_map_sha_ok _ demo_map_holds
        demo_canonical(3) _ keys demo_put_universe] demo_trie_ok(1)
    by (auto simp: MAX_EXACT_INTEGER_def map_batch_def simp del: trie.simps)
qed

text \<open>C36: An accepted batch proof tells the truth. Whatever nodes a prover sends, if the verifier
  accepts a batch against the root of a trie, every expectation of the batch holds for the map of that
  trie, and the result root is that of a trie whose map is the parent with the batch written.\<close>

theorem verify_map_apply_sound:
  assumes "sha_ok sha" "opt_trie sha t" "canonical_mutations sha xs = Ok ys"
    and "inj_on (map_node_id sha) (map_body_of sha ` (opt_tsubtrees t \<union> trail sha ys t) \<union> mn_body ` set (mpf_nodes prf))"
    and "verify_map_apply sha (map_root_of sha t) xs prf = Ok verified"
  shows "\<exists>u. vma_parent verified = map_root_of sha t \<and> vma_result verified = map_root_of sha u \<and> opt_trie sha u
    \<and> (\<forall>x\<in>set xs. map_expects x (opt_map t)) \<and> opt_map u = map_batch xs (opt_map t)"
proof -
  let ?U = "map_body_of sha ` (opt_tsubtrees t \<union> trail sha ys t) \<union> mn_body ` set (mpf_nodes prf)"
  have "opt_map_known sha ?U t" using assms(2) by (auto simp: opt_map_known_iff)
  moreover have "map_body_of sha ` trail sha ys t \<subseteq> ?U" by blast
  ultimately have "\<exists>u. verified = \<lparr>vma_parent = map_root_of sha t, vma_result = map_root_of sha u, vma_mutations = ys,
      vma_mutation_digest = map_mutation_digest sha ys\<rparr> \<and> rfold (trie_edit sha) ys t = Ok u"
    by (rule verify_map_apply_known [OF assms(4,1) _ Un_upper2 assms(3) _ assms(5)])
  then obtain u where
    "vma_parent verified = map_root_of sha t" "vma_result verified = map_root_of sha u" "rfold (trie_edit sha) ys t = Ok u"
    by auto
  with canonical_outcome [OF assms(1-3)] show ?thesis by blast
qed

theorem verify_map_apply_sound_witness:
  "verify_map_apply demo_map_sha demo_single [Remove ''a'' demo_a] demo_remove_proof =
     Ok \<lparr>vma_parent = demo_single, vma_result = map_root_empty, vma_mutations = [Remove ''a'' demo_a],
       vma_mutation_digest = map_mutation_digest demo_map_sha [Remove ''a'' demo_a]\<rparr>
   \<and> (\<exists>u. map_root_empty = map_root_of demo_map_sha u \<and> opt_map u = map_batch [Remove ''a'' demo_a] [''a'' \<mapsto> demo_a])"
proof -
  have trail: "trail demo_map_sha [Remove ''a'' demo_a] (Some demo_leaf_a) = {}"
    by (simp add: opt_look_def tree_look_def uncollided_def)
  have "inj_on (map_node_id demo_map_sha) (map_body_of demo_map_sha ` (opt_tsubtrees (Some demo_leaf_a)
      \<union> trail demo_map_sha [Remove ''a'' demo_a] (Some demo_leaf_a)) \<union> mn_body ` set (mpf_nodes demo_remove_proof))"
    by (rule inj_on_subset [OF demo_map_inj]) (simp add: demo_remove_proof_def trail demo_tries_def del: trail.simps)
  from verify_map_apply_sound [OF demo_map_sha_ok _ demo_canonical(1) this demo_remove_verifies] demo_trie_ok(2) demo_remove_verifies
  show ?thesis by auto
qed

text \<open>C37: The order in which a caller lists a batch does not matter. Two lists of the same
  mutations, one of which is a valid batch, are committed with the same outcome (root, proof and
  created nodes) and are accepted or refused alike by the verifier of a batch proof.\<close>

theorem map_batch_order_irrelevant:
  assumes "mset xs = mset xs'" "canonical_mutations sha xs = Ok ys"
  shows "apply_map_mutations sha load parent xs r = apply_map_mutations sha load parent xs' r
    \<and> verify_map_apply sha parent xs prf = verify_map_apply sha parent xs' prf"
  using canonical_mutations_permuted [OF assms] assms(2) by (simp add: apply_map_mutations_def verify_map_apply_def)

theorem map_batch_order_irrelevant_witness:
  "apply_map_mutations demo_map_sha apply_proof_map_load map_root_empty [Put ''q'' Absent demo_b, Put ''a'' Absent demo_a] demo_empty_store
   = apply_map_mutations demo_map_sha apply_proof_map_load map_root_empty [Put ''a'' Absent demo_a, Put ''q'' Absent demo_b] demo_empty_store"
proof -
  have "canonical_mutations demo_map_sha [Put ''q'' Absent demo_b, Put ''a'' Absent demo_a]
      = Ok (sort_key (mutation_order demo_map_sha) [Put ''q'' Absent demo_b, Put ''a'' Absent demo_a])"
    by (simp add: canonical_mutations_iff fine_mutation_def map_mutation_verify_def demo_value_length
        MAX_MAP_MUTATIONS_PER_APPLY_def MAX_MUTATION_BYTES_def)
  from map_batch_order_irrelevant [OF _ this, where load = apply_proof_map_load and r = demo_empty_store and parent = map_root_empty
      and xs' = "[Put ''a'' Absent demo_a, Put ''q'' Absent demo_b]"] show ?thesis
    by (simp add: add_mset_commute)
qed

section \<open>Building, auditing and committing\<close>

text \<open>C38: The bottom-up build equals the streamed map. For every list of entries with distinct
  keys whose map a trie holds, the build returns the root of that trie, which depends on the map
  alone and not on the order of the entries or on the mutations that led to it, and exactly its nodes.\<close>

theorem build_map_equals_trie:
  assumes "sha_ok sha" "opt_trie sha t" "opt_map t = map_of es" "distinct (map fst es)"
    and "length es \<le> MAX_EXACT_INTEGER" "inj_on (map_node_id sha) (map_body_of sha ` opt_tsubtrees t)"
  shows "\<exists>out. build_map sha es = Ok out \<and> mbo_root out = map_root_of sha t
    \<and> set (mbo_objects out) = map_node_of sha ` opt_tsubtrees t"
proof -
  from build_map_live [OF assms] obtain objects where
    b: "build_map sha es = Ok \<lparr>mbo_root = map_root_of sha t, mbo_objects = values_of objects\<rparr>"
    "map_built sha (opt_tsubtrees t) fmempty objects" by blast
  then have "set (values_of objects) = map_node_of sha ` opt_tsubtrees t" by (force simp: map_built_def)
  with b(1) show ?thesis by simp
qed

theorem build_map_equals_trie_witness:
  "\<exists>out. build_map demo_map_sha [(''q'', demo_b), (''a'', demo_a)] = Ok out \<and> mbo_root out = demo_map_root
    \<and> set (mbo_objects out) = map_node_of demo_map_sha ` {demo_trie, demo_leaf_a, demo_leaf_q}"
proof -
  have inj: "inj_on (map_node_id demo_map_sha) (map_body_of demo_map_sha ` opt_tsubtrees (Some demo_trie))"
    by (rule inj_on_subset [OF demo_map_inj]) (simp add: demo_tries_def)
  have "opt_map (Some demo_trie) = map_of [(''q'', demo_b), (''a'', demo_a)]" by (auto simp: fun_eq_iff)
  from build_map_equals_trie [OF demo_map_sha_ok _ this _ _ inj] demo_trie_ok(1) show ?thesis
    by (simp add: MAX_EXACT_INTEGER_def insert_commute del: trie.simps)
qed

text \<open>C39: An accepted audit establishes a well-formed trie. Nothing is assumed of the resolver or of
  the root: if the audit accepts, the root is the root of a well-formed trie, the entries returned are
  its entries in the order of the key hashes, and the nodes returned are its nodes.\<close>

theorem audit_map_sound:
  assumes "sha_ok sha" "audit_map sha load root r = Ok out"
  shows "\<exists>t. opt_trie sha t \<and> root = map_root_of sha t \<and> ma_entries out = positions sha (opt_entries t)
    \<and> set (ma_objects out) = map_node_of sha ` opt_tsubtrees t"
  by (rule audit_map_sound_tree [OF assms])

theorem audit_map_sound_witness:
  "audit_map demo_map_sha apply_proof_map_load demo_map_root demo_map_store = Ok demo_audit
   \<and> (\<exists>t. opt_trie demo_map_sha t \<and> demo_map_root = map_root_of demo_map_sha t
      \<and> ma_entries demo_audit = positions demo_map_sha (opt_entries t)
      \<and> set (ma_objects demo_audit) = map_node_of demo_map_sha ` opt_tsubtrees t)"
  using audit_map_sound [OF demo_map_sha_ok demo_audits] demo_audits by blast

text \<open>C40: A committed batch can be read afterwards. When the commit over a provider that holds the
  parent trie (and, with a node, everything below it) returns, adding the returned objects to what the
  provider holds makes every node of the result trie available; the objects are all new, so nothing
  stored is overwritten; and the result map is the parent with the batch written.\<close>

theorem apply_map_mutations_persists:
  assumes "map_resolver load contents" "sha_ok sha" "opt_trie sha t" "canonical_mutations sha xs = Ok ys"
    and "U = map_universe sha (contents r) (opt_tsubtrees t \<union> trail sha ys t)" "inj_on (map_node_id sha) U"
    and "map_holds sha (contents r) (opt_tsubtrees t)" "map_closed_store sha U (contents r)"
    and "apply_map_mutations sha load (map_root_of sha t) xs r = Ok out"
  shows "\<exists>u new. vma_result (mao_verified out) = map_root_of sha u \<and> opt_map u = map_batch xs (opt_map t)
    \<and> mao_objects out = values_of new \<and> map_holds sha (contents r ++ fmlookup new) (opt_tsubtrees u)
    \<and> (\<forall>k node. fmlookup new k = Some node \<longrightarrow> contents r k = None)"
proof -
  have U: "map_held_ok sha U (contents r)" "opt_map_known sha U t" "map_body_of sha ` trail sha ys t \<subseteq> U"
    unfolding assms(5) by (rule map_universe_held, rule map_universe_known [OF assms(3)]) (auto simp: map_universe_def)
  from map_resolver.apply_map_mutations_commits [OF assms(1,6,2) U(1,2) assms(7,8,4) U(3) assms(9)] obtain u new where
    "rfold (trie_edit sha) ys t = Ok u" "vma_result (mao_verified out) = map_root_of sha u" "mao_objects out = values_of new"
    "map_holds sha (contents r ++ fmlookup new) (opt_tsubtrees u)"
    "\<forall>k node. fmlookup new k = Some node \<longrightarrow> contents r k = None" by blast
  with canonical_outcome [OF assms(2-4)] show ?thesis by blast
qed

theorem apply_map_mutations_persists_witness:
  "\<exists>out u new. apply_map_mutations demo_map_sha apply_proof_map_load map_root_empty [Put ''a'' Absent demo_a] demo_empty_store = Ok out
    \<and> vma_result (mao_verified out) = map_root_of demo_map_sha u \<and> opt_map u = [''a'' \<mapsto> demo_a]
    \<and> mao_objects out = values_of new \<and> map_holds demo_map_sha (fmlookup new) (opt_tsubtrees u)"
proof -
  obtain out where out: "apply_map_mutations demo_map_sha apply_proof_map_load (map_root_of demo_map_sha None)
      [Put ''a'' Absent demo_a] demo_empty_store = Ok out"
    using demo_put_runs by auto
  let ?U = "map_universe demo_map_sha (fmlookup (am_nodes demo_empty_store))
    (opt_tsubtrees None \<union> trail demo_map_sha [Put ''a'' Absent demo_a] None)"
  have inj: "inj_on (map_node_id demo_map_sha) ?U"
    by (rule inj_on_subset [OF demo_map_inj]) (simp add: map_universe_def opt_look_def opt_put_def demo_tries_def ran_def)
  have "map_closed_store demo_map_sha ?U (fmlookup (am_nodes demo_empty_store))" by (simp add: map_closed_store_def)
  from apply_map_mutations_persists [OF map_apply_proof_resolver.map_resolver_axioms demo_map_sha_ok _ demo_canonical(2) refl inj _ this out]
  show ?thesis using out by (auto simp: map_holds_def map_batch_def fun_eq_iff)
qed

end
