(* ===== verification/Spec2Isabelle.thy ===== *)
theory Spec2Isabelle
  imports Reducer_Properties Plan_Properties Engine_Properties Log_Properties Map_Properties
begin

text \<open>
  \<^bold>\<open>Cymule: a verification library for the core reducer, Plans and their embedded runtime, and the authenticated
  collections.\<close>

  Cymule executes Plans of effectful steps durably. Its core crate
  (\<^verbatim>\<open>src/crates/cymule-core\<close>) keeps the history of a Run as Events and folds them into a
  projection; the durable layer stores histories and indexes as authenticated collections
  (\<^verbatim>\<open>src/crates/cymule-authenticated-collections\<close>) whose roots are committed and whose reads,
  pages and mutations carry portable proofs. This library models these parts: the reducer,
  Plans and the embedded runtime that executes them, and the ordered log and the map of the collections.

  \<^bold>\<open>Shared vocabulary\<close> (\<open>Prelude\<close>). Rust's \<^verbatim>\<open>Result\<close> is a sum with \<open>Ok\<close> and \<open>Err\<close>, \<^verbatim>\<open>?\<close> is \<open>rbind\<close>,
  loops with early return are \<open>rfold\<close>, \<open>rcheck\<close> and \<open>rmap\<close>; \<^verbatim>\<open>u64\<close> arithmetic is on naturals with
  the overflow checks of the code written out (\<open>checked_add\<close>, \<open>exact_add\<close>); \<^verbatim>\<open>BTreeMap\<close> is a finite
  map iterated in key order. Strings are byte lists. SHA-256 and the JCS printer are parameters:
  \<open>sha_ok\<close> and \<open>host_ok\<close> say that a digest has 32 bytes, and collision freedom is assumed, where it
  is needed, as injectivity on the finite set of nodes that take part in an operation.

  \<^bold>\<open>Event reducer\<close> (\<^verbatim>\<open>cymule-core/src/model.rs\<close>, with parts of \<^verbatim>\<open>canonical.rs\<close>, \<^verbatim>\<open>error.rs\<close>, \<^verbatim>\<open>ir.rs\<close>).
  \<^item> \<open>Canonical\<close>: exact integers, canonical bytes, content identities, error categories.
  \<^item> \<open>Run_Model\<close>: the projection's records, Event payloads, derived index, structural identities.
  \<^item> \<open>Reducer\<close>: one definition per handler of \<^verbatim>\<open>apply_event\<close>, in the code's order, with the Run gate,
    the Effect lifecycle and the incremental index.
  \<^item> \<open>Reducer_Audit\<close>: the from-scratch audits \<^verbatim>\<open>verify_reducer_invariants\<close>, \<^verbatim>\<open>verify_derived_indexes\<close>.
  \<^item> \<open>Event_Verify\<close>: the admission checks on payloads that the reducer relies on.
  \<^item> \<open>Reducer_Index\<close>, \<open>Reducer_Moves\<close>, \<open>Reducer_Rebuild\<close>: the index operations as moves between
    settlement classes, and that rebuilding from canonical fields gives the maintained index.
  \<^item> \<open>Reducer_Inv\<close>, \<open>Reducer_Preserve\<close>, \<open>Reducer_Lifecycle\<close>, \<open>Reducer_Handlers\<close>, \<open>Reducer_Close\<close>,
    \<open>Reducer_Terminate\<close>: the invariant and its preservation handler by handler.
  \<^item> \<open>Reducer_History\<close>, \<open>Reducer_Reach\<close>: append-only history, and the reachable projections as an
    inductive step relation over admitted Events.
  \<^item> \<open>Reducer_Demo\<close>, \<open>Reducer_Properties\<close>: concrete histories and the properties C1 to C7, C9 to C11,
    C14 and C15.

  \<^bold>\<open>Plans\<close> (\<^verbatim>\<open>cymule-core/src/ir.rs\<close>).
  \<^item> \<open>Plan_IR\<close>: the syntax of definitions, regions, steps and expressions, and \<^verbatim>\<open>PlanCandidate::validate\<close>
    with every check it calls, including the iterative search of the invocation graph with its
    explicit stack. Indexing an absent definition would panic; the model has that as a value.
  \<^item> \<open>Plan_Graph\<close>: the search ends, and decides acyclicity: the entries still to be left are the path from
    the root, what has been left is topologically ordered.
  \<^item> \<open>Plan_Spec\<close>: well-formed Plans without the traversal (flat lists of sites, conditions on each operation
    alone, a scoping discipline), and that each check decides its part.
  \<^item> \<open>Plan_Seal\<close>: the Serde encoding and its injectivity, \<^verbatim>\<open>seal_plan\<close>, \<^verbatim>\<open>SealedPlan::verify\<close>. The compilation of
    schemas (crate \<^verbatim>\<open>jsonschema\<close>) and the decoding of canonical bytes, which Serde derives, are
    parameters; that decoding keeps canonical bytes is a hypothesis where it is needed.
  \<^item> \<open>Plan_Properties\<close>: a small Plan and the properties C12, C16 and C18.

  \<^bold>\<open>Embedded runtime\<close> (\<^verbatim>\<open>cymule-runtime/src/engine.rs\<close>, \<^verbatim>\<open>contract.rs\<close>, with types of \<^verbatim>\<open>plugin.rs\<close> and
  \<^verbatim>\<open>error.rs\<close>), which executes sealed Plans.
  \<^item> \<open>Plan_Contracts\<close>: the compiled contracts of a Plan and the checks at each boundary; a verified Plan has
    all of them.
  \<^item> \<open>Engine_Host\<close>: commands, plugin requests and responses, errors; the Machine, the plugin host and the
    execution binding as the fields of a record over a state of any type, with no assumption on them; and
    sequencing of actions that change the runtime even when they fail.
  \<^item> \<open>Engine\<close>: the interpreter, one definition per method, from admission to the terminal result.
  \<^item> \<open>Engine_Rules\<close>, \<open>Engine_Depth\<close>: which errors are possible whatever the environment does, and that nested
    invocations descend along the acyclic invocation relation.
  \<^item> \<open>Engine_Release\<close>: Hoare triples on the record of accepted commands and plugin requests.
  \<^item> \<open>Engine_Properties\<close>: executions of small Plans, and the properties C8, C13, C17 and C24. One of the
    executions shows a validated Plan that fails because an observation settled without a value.

  \<^bold>\<open>Shared by the collections.\<close>
  \<^item> \<open>Coll_Hash\<close> (\<^verbatim>\<open>hash.rs\<close>, \<^verbatim>\<open>error.rs\<close>, \<^verbatim>\<open>lib.rs\<close>): framed preimages and their injectivity, digests, the
    functions on hash bits, shared bounds.
  \<^item> \<open>Simulation\<close>: the locale \<open>growing_store\<close>, in which an operation on a store that only grows
    simulates an abstract result; the rules for sequencing, checks and errors are proved there once
    and interpreted on the overlay of the log and on that of the map.
  \<^item> \<open>Node_Store\<close>: the locales \<open>recorder\<close> (a prover that records what it loads) and \<open>node_index\<close> (a verifier
    that indexes what it is sent), interpreted on the resolvers of both collections.

  \<^bold>\<open>Authenticated ordered log\<close> (\<^verbatim>\<open>log.rs\<close>).
  \<^item> \<open>Log_Node\<close>: leaf and branch nodes, roots, their identities and local verification.
  \<^item> \<open>Log_Overlay\<close>: the overlay of pending and loaded nodes over a resolver, AVL branch, balance,
    join, concatenation and split on stored references. \<open>Log_Mutation\<close>: mutation shapes, bounds and
    digest, and the ordered batch. \<open>Log_Proof\<close>: the recording, proof and apply-proof resolvers, exact
    and range proofs. \<open>Log_Apply\<close>: split and batch proofs, the walk that collects nodes to persist,
    the audit and the bottom-up builder.
  \<^item> \<open>Log_Tree\<close>, \<open>Log_Spec\<close>: the reference model. A log is a tree of value lists with the same AVL
    algorithms, each returning the trees it makes; a mutation also has a meaning on plain lists.
    The lemmas show order preservation, AVL shape and the Fibonacci height bound.
  \<^item> \<open>Log_Refine\<close>, \<open>Log_Refine_Ops\<close>, \<open>Log_Refine_Roots\<close>, \<open>Log_Refine_Batch\<close>: the stored algorithms refine
    the tree algorithms. The interface is the locale \<open>log_resolver\<close> (a load answers from the
    contents and keeps them; nothing else is trusted) and its extension \<open>live_log_resolver\<close>; it is
    interpreted on the crate's resolvers in \<open>Log_Read\<close>. The relation \<open>refines\<close> is a one-sided
    simulation, two-sided under the \<open>ready\<close> condition.
  \<^item> \<open>Log_Read\<close>, \<open>Log_Exact\<close>, \<open>Log_Range\<close>, \<open>Log_Commit\<close>, \<open>Log_Persist\<close>, \<open>Log_Audit\<close>, \<open>Log_Outcome\<close>: reads,
    pages, accepted proofs, persistence, audit, and outcomes of batches on lists.
  \<^item> \<open>Log_Shape\<close>, \<open>Log_Build\<close>: the shape of streamed appends, and that the builder computes it.
  \<^item> \<open>Log_Demo\<close>, \<open>Log_Demo_Runs\<close>, \<open>Log_Properties\<close>: a small stored log and the properties C19 to C23 and C25 to C30.

  \<^bold>\<open>Authenticated map\<close> (\<^verbatim>\<open>map.rs\<close>), a compressed binary trie over the hashes of the keys.
  \<^item> \<open>Map_Node\<close>: keys and their hashes, leaf and branch nodes, roots, path constraints. \<open>Map_Overlay\<close>: the
    overlay, and lookup, insertion and removal along one path of stored references. \<open>Map_Mutation\<close>:
    mutation shapes, the canonical order of a batch, its digest and its application. \<open>Map_Proof\<close>: the
    three resolvers, exact proofs of presence and absence with ranks, and pages. \<open>Map_Apply\<close>: batch
    proofs, the walk that collects nodes to persist, the audit and the bottom-up builder.
  \<^item> \<open>Hash_Bits\<close>, \<open>Map_Tree\<close>, \<open>Map_Spec\<close>: the reference model. A digest is 256 bits; a trie splits its keys at
    the first bit at which their hashes differ; a map has exactly one trie, so equal maps have equal
    roots. The order of the entries is the order of the hashes, branch depths increase along a
    path, and insertion and removal are update and deletion on the map.
  \<^item> \<open>Map_Refine\<close>, \<open>Map_Refine_Ops\<close>, \<open>Map_Refine_Batch\<close>: the stored algorithms refine the trie algorithms,
    over the locales \<open>map_resolver\<close> and \<open>live_map_resolver\<close>, interpreted on the crate's resolvers in \<open>Map_Read\<close>.
  \<^item> \<open>Map_Read\<close>, \<open>Map_Exact\<close>, \<open>Map_Range\<close>, \<open>Map_Commit\<close>, \<open>Map_Persist\<close>, \<open>Map_Audit\<close>, \<open>Map_Build\<close>: lookups, exact
    proofs, pages, batches as simultaneous updates, persistence, audit and build.
  \<^item> \<open>Map_Demo\<close>, \<open>Map_Demo_Runs\<close>, \<open>Map_Properties\<close>: a small stored map and the properties C31 to C40.

  \<^bold>\<open>Bounds and fuel.\<close> The lookup loops of the log run at most \<open>MAX_LOG_HEIGHT + 1\<close> times in the code,
  and the model counts the same iterations; a tree within the height bound never exhausts them.
  The recursive algorithms terminate by the height stored in a reference, which a verified branch
  strictly decreases; the stack walks by a weight of the heights on the stack. The totality
  theorems assume fewer than \<open>LOG_SAFE_LENGTH\<close> values, the Fibonacci number \<open>F 78\<close>: below it an AVL
  tree cannot be higher than 76. That is about the exact-integer limit of lengths. The path loops of
  the map run at most \<open>MAX_MAP_PATH_NODES = 257\<close> times, in the code and in the model; since branch
  depths are below 256 and increase, a trie of any size stays within that bound (C33). Walks over a
  whole map terminate by the entry counts of the references, which a loaded branch confirms.

  Nested invocations of the interpreter consume fuel, which the code does not have: the number of
  definitions of the Plan is enough, and more changes nothing (C24).

  \<^bold>\<open>Not modelled.\<close> JSON transport decoding (\<^verbatim>\<open>decode_*\<close>, bounded deserializers) and plain accessors;
  machine command admission (\<^verbatim>\<open>machine.rs\<close>), which the interpreter only calls; the durable coordinator and
  stores, runtime composition and the process protocol, the SDK, the CLI, the virtual host and the plugins,
  which are I/O around
  provider traits; and the profile protocol and evolution crates, which are wire contracts with
  validators.
\<close>

end
